(* ===== verification/Prelude.thy ===== *)
theory Prelude
  imports Main "HOL-Library.Char_ord" "HOL-Library.List_Lexorder" "HOL-Library.Sublist"
begin

text \<open>
  Shared vocabulary of the development: the exceptions the Python code raises and
  catches, results as sums, insertion-ordered dictionaries as association lists, the
  string operations of the standard library that the sources call (strip, replace,
  split, zero-padded formatting, integer conversion, line iteration over a text file),
  and the generic lemmas the component theories rely on.

  A Python string is a HOL string, a list of characters read as code points below 256.
\<close>

section \<open>Collections of rules\<close>

named_theorems dict_simps "lookups in updated dictionaries"
named_theorems str_simps "string operations on the names and lines the model builds"
named_theorems codec "round trips of printers and parsers"
named_theorems fs_simps "reads of an updated file system"

section \<open>Exceptions and results\<close>

datatype py_error =
    KeyError string
  | TypeError
  | ValueError string
  | AttributeError
  | IndexError
  | OSError
  | RuntimeError string
  | DSMError string

type_synonym 'a res = "py_error + 'a"

definition rbind :: "'a res \<Rightarrow> ('a \<Rightarrow> 'b res) \<Rightarrow> 'b res" where
  "rbind r f = (case r of Inl e \<Rightarrow> Inl e | Inr x \<Rightarrow> f x)"

lemma rbind_simps [simp]:
  "rbind (Inl e) f = Inl e"
  "rbind (Inr x) f = f x"
  by (simp_all add: rbind_def)

lemma rbind_InrE [elim]:
  assumes "rbind r f = Inr y"
  obtains x where "r = Inr x" and "f x = Inr y"
  using assms by (cases r) auto

text \<open>A loop over a list that may raise.\<close>

fun fold_res :: "('e \<Rightarrow> 'a \<Rightarrow> 'a res) \<Rightarrow> 'e list \<Rightarrow> 'a \<Rightarrow> 'a res" where
  "fold_res f [] a = Inr a"
| "fold_res f (x # xs) a = rbind (f x a) (fold_res f xs)"

text \<open>\<^verbatim>\<open>any(p(x) for x in xs)\<close> stops at the first hit.\<close>

fun any_res :: "('a \<Rightarrow> bool res) \<Rightarrow> 'a list \<Rightarrow> bool res" where
  "any_res p [] = Inr False"
| "any_res p (x # xs) = rbind (p x) (\<lambda>b. if b then Inr True else any_res p xs)"

lemma fold_res_append: "fold_res f (xs @ ys) a = rbind (fold_res f xs a) (fold_res f ys)"
proof (induction xs arbitrary: a)
  case (Cons x xs)
  then show ?case by (cases "f x a") auto
qed simp

section \<open>Dictionaries\<close>

text \<open>
  A Python dict keeps insertion order: an assignment to an existing key keeps its
  position, a new key goes to the end.
\<close>

type_synonym 'v dict = "(string \<times> 'v) list"

abbreviation dget :: "string \<Rightarrow> (string \<times> 'v) list \<Rightarrow> 'v option" where
  "dget k d \<equiv> map_of d k"

fun dput :: "'k \<Rightarrow> 'v \<Rightarrow> ('k \<times> 'v) list \<Rightarrow> ('k \<times> 'v) list" where
  "dput k v [] = [(k, v)]"
| "dput k v ((k', v') # d) = (if k = k' then (k, v) # d else (k', v') # dput k v d)"

fun ddel :: "'k \<Rightarrow> ('k \<times> 'v) list \<Rightarrow> ('k \<times> 'v) list" where
  "ddel k [] = []"
| "ddel k ((k', v') # d) = (if k = k' then ddel k d else (k', v') # ddel k d)"

definition dupdate :: "('k \<times> 'v) list \<Rightarrow> ('k \<times> 'v) list \<Rightarrow> ('k \<times> 'v) list" where
  "dupdate d xs = foldl (\<lambda>acc (k, v). dput k v acc) d xs"

lemma dget_dput [simp, dict_simps]:
  "map_of (dput k v d) k' = (if k' = k then Some v else map_of d k')"
  by (induction d) auto

lemma dget_ddel [simp, dict_simps]:
  "map_of (ddel k d) k' = (if k' = k then None else map_of d k')"
  by (induction d) auto

lemma keys_dput: "fst ` set (dput k v d) = insert k (fst ` set d)"
  by (induction k v d rule: dput.induct) (simp_all add: insert_commute)

lemma distinct_dput: "distinct (map fst d) \<Longrightarrow> distinct (map fst (dput k v d))"
  by (induction k v d rule: dput.induct) (simp_all add: keys_dput)

lemma dput_new: "k \<notin> fst ` set d \<Longrightarrow> dput k v d = d @ [(k, v)]"
  by (induction d) auto

lemma dput_map_fst: "k \<in> fst ` set d \<Longrightarrow> map fst (dput k v d) = map fst d"
  by (induction k v d rule: dput.induct) (simp_all, blast)

lemma dput_append: "k \<notin> fst ` set d \<Longrightarrow> dput k v (d @ e) = d @ dput k v e"
  by (induction d) auto

lemma dupdate_Nil [simp]: "dupdate d [] = d"
  by (simp add: dupdate_def)

lemma dupdate_Cons [simp]: "dupdate d ((k, v) # xs) = dupdate (dput k v d) xs"
  by (simp add: dupdate_def)

lemma dupdate_distinct:
  "distinct (map fst (d @ xs)) \<Longrightarrow> dupdate d xs = d @ xs"
proof (induction xs arbitrary: d)
  case (Cons x xs)
  obtain k v where x: "x = (k, v)" by (cases x)
  with Cons.prems have "dput k v d = d @ [(k, v)]" by (simp add: dput_new)
  with Cons x show ?case by simp
qed simp

section \<open>Characters and strings\<close>

definition NL :: char where "NL = CHR 0x0A"
definition CR :: char where "CR = CHR 0x0D"
definition DQ :: char where "DQ = CHR 0x22"
definition BS :: char where "BS = CHR 0x5C"

lemmas char_defs = NL_def CR_def DQ_def BS_def

text \<open>The characters \<^verbatim>\<open>str.strip()\<close> removes.\<close>

definition is_space :: "char \<Rightarrow> bool" where
  "is_space c =
     (let n = of_char c :: nat
      in n = 32 \<or> (9 \<le> n \<and> n \<le> 13) \<or> (28 \<le> n \<and> n \<le> 31) \<or> n = 133 \<or> n = 160)"

definition strip :: "string \<Rightarrow> string" where
  "strip s = rev (dropWhile is_space (rev (dropWhile is_space s)))"

lemma strip_id:
  assumes "s \<noteq> []" and "\<not> is_space (hd s)" and "\<not> is_space (last s)"
  shows "strip s = s"
proof -
  from assms have "dropWhile is_space s = s" by (cases s) auto
  moreover from assms have "dropWhile is_space (rev s) = rev s"
    by (metis dropWhile_eq_self_iff hd_rev)
  ultimately show ?thesis by (simp add: strip_def)
qed

lemma strip_Nil [simp]: "strip [] = []"
  by (simp add: strip_def)

fun startswith :: "string \<Rightarrow> string \<Rightarrow> bool" where
  "startswith [] s = True"
| "startswith (p # ps) [] = False"
| "startswith (p # ps) (c # cs) = (c = p \<and> startswith ps cs)"

lemma startswith_prefix: "startswith p s = prefix p s"
  by (induction p s rule: startswith.induct) auto

definition endswith :: "string \<Rightarrow> string \<Rightarrow> bool" where
  "endswith p s = startswith (rev p) (rev s)"

lemma endswith_append [simp]: "endswith p (s @ p)"
  by (simp add: endswith_def startswith_prefix)

text \<open>\<^verbatim>\<open>x in s\<close> for texts.\<close>

fun occurs_in :: "string \<Rightarrow> string \<Rightarrow> bool" where
  "occurs_in x [] = (x = [])"
| "occurs_in x (c # cs) = (startswith x (c # cs) \<or> occurs_in x cs)"

text \<open>\<^verbatim>\<open>s.replace(old, new)\<close> for a non-empty pattern, left to right.\<close>

function py_replace :: "string \<Rightarrow> string \<Rightarrow> string \<Rightarrow> string" where
  "py_replace old new s =
     (case s of [] \<Rightarrow> []
      | c # cs \<Rightarrow>
          (if old \<noteq> [] \<and> startswith old s then new @ py_replace old new (drop (length old) s)
           else c # py_replace old new cs))"
  by pat_completeness auto
termination
  by (relation "measure (\<lambda>(old, new, s). length s)") auto

declare py_replace.simps [simp del]

lemma py_replace_Nil [simp, str_simps]: "py_replace old new [] = []"
  by (simp add: py_replace.simps)

text \<open>\<^verbatim>\<open>s.split(sep)\<close> for a one-character separator.\<close>

fun split_at :: "char \<Rightarrow> string \<Rightarrow> string list" where
  "split_at sep [] = [[]]"
| "split_at sep (c # cs) =
     (if c = sep then [] # split_at sep cs
      else (case split_at sep cs of [] \<Rightarrow> [[c]] | w # ws \<Rightarrow> (c # w) # ws))"

lemma split_at_not_Nil [simp]: "split_at sep s \<noteq> []"
  by (induction s) (auto split: list.splits)

lemma split_at_free: "sep \<notin> set s \<Longrightarrow> split_at sep s = [s]"
  by (induction s) auto

lemma split_at_append:
  "split_at sep (s @ sep # t) = split_at sep s @ split_at sep t"
  by (induction s) (auto split: list.splits)

lemma last_split_at: "sep \<notin> set t \<Longrightarrow> last (split_at sep (s @ sep # t)) = t"
  by (simp add: split_at_append split_at_free)

text \<open>Membership of one character in a string, \<^verbatim>\<open>c in s\<close>, is \<open>c \<in> set s\<close>.\<close>

subsection \<open>Decimal numbers\<close>

definition digit_char :: "nat \<Rightarrow> char" where
  "digit_char n = char_of (48 + n)"

definition is_digit :: "char \<Rightarrow> bool" where
  "is_digit c = (48 \<le> (of_char c :: nat) \<and> (of_char c :: nat) \<le> 57)"

definition digit_val :: "char \<Rightarrow> nat" where
  "digit_val c = of_char c - 48"

fun show_nat :: "nat \<Rightarrow> string" where
  "show_nat n = (if n < 10 then [digit_char n] else show_nat (n div 10) @ [digit_char (n mod 10)])"

declare show_nat.simps [simp del]

definition show_int :: "int \<Rightarrow> string" where
  "show_int i = (if i < 0 then CHR ''-'' # show_nat (nat (- i)) else show_nat (nat i))"

definition nat_of_digits :: "string \<Rightarrow> nat" where
  "nat_of_digits s = foldl (\<lambda>n c. 10 * n + digit_val c) 0 s"

lemma of_char_digit_char: "n < 10 \<Longrightarrow> (of_char (digit_char n) :: nat) = 48 + n"
  by (simp add: digit_char_def)

lemma digit_char_props [simp]:
  assumes "n < 10"
  shows "is_digit (digit_char n)" and "digit_val (digit_char n) = n"
  using assms by (simp_all add: is_digit_def digit_val_def of_char_digit_char)

lemma digit_char_0: "n < 10 \<Longrightarrow> digit_char n = CHR ''0'' \<longleftrightarrow> n = 0"
proof -
  assume n: "n < 10"
  have "digit_char n = CHR ''0'' \<longleftrightarrow> (of_char (digit_char n) :: nat) = of_char CHR ''0''"
    by (metis char_of_char)
  with n show ?thesis by (simp add: of_char_digit_char)
qed

lemma nat_of_digits_snoc: "nat_of_digits (s @ [c]) = 10 * nat_of_digits s + digit_val c"
  by (simp add: nat_of_digits_def)

lemma show_nat_digits: "\<forall>c \<in> set (show_nat n). is_digit c"
proof (induction n rule: show_nat.induct)
  case (1 n)
  then show ?case by (subst show_nat.simps) (auto simp: set_append)
qed

lemma show_nat_not_Nil [simp]: "show_nat n \<noteq> []"
  by (subst show_nat.simps) simp

lemma nat_of_digits_show_nat [simp, codec]: "nat_of_digits (show_nat n) = n"
proof (induction n rule: show_nat.induct)
  case (1 n)
  then show ?case
    by (subst show_nat.simps) (auto simp: nat_of_digits_snoc nat_of_digits_def[of "[_]"])
qed

text \<open>A number other than 0 has no leading zero.\<close>

lemma hd_show_nat: "0 < n \<Longrightarrow> hd (show_nat n) \<noteq> CHR ''0''"
proof (induction n rule: show_nat.induct)
  case (1 n)
  show ?case
  proof (cases "n < 10")
    case True
    with 1 show ?thesis by (subst show_nat.simps) (simp add: digit_char_0)
  next
    case False
    then have "0 < n div 10" by (simp add: div_greater_zero_iff)
    with 1 False have "hd (show_nat (n div 10)) \<noteq> CHR ''0''" by simp
    with False show ?thesis by (subst show_nat.simps) simp
  qed
qed

lemma show_nat_0 [simp]: "show_nat 0 = ''0''"
  by (subst show_nat.simps) (simp add: digit_char_0)

lemma show_nat_length1: "0 < n \<Longrightarrow> show_nat n \<noteq> ''0''"
  using hd_show_nat [of n] by auto

text \<open>\<^verbatim>\<open>f"{n:04d}"\<close> for a number that is not negative.\<close>

definition fmt04 :: "nat \<Rightarrow> string" where
  "fmt04 n = replicate (4 - length (show_nat n)) (CHR ''0'') @ show_nat n"

lemma nat_of_digits_zeros: "nat_of_digits (replicate k (CHR ''0'') @ s) = nat_of_digits s"
  by (induction k) (simp_all add: nat_of_digits_def digit_val_def)

lemma nat_of_digits_fmt04 [simp, codec]: "nat_of_digits (fmt04 n) = n"
  by (simp add: fmt04_def nat_of_digits_zeros)

lemma fmt04_digits: "\<forall>c \<in> set (fmt04 n). is_digit c"
  using show_nat_digits by (auto simp: fmt04_def is_digit_def)

lemma fmt04_not_Nil [simp]: "fmt04 n \<noteq> []"
  by (simp add: fmt04_def)

text \<open>
  \<^verbatim>\<open>int(s)\<close> on a string: surrounding white space, an optional sign, at least one
  digit; None stands for the ValueError. Digit grouping by underscores is not accepted
  (the callers split at underscores first).
\<close>

definition py_int :: "string \<Rightarrow> int option" where
  "py_int s =
     (let t = strip s;
          (neg, d) = (case t of [] \<Rightarrow> (False, [])
                      | c # cs \<Rightarrow> if c = CHR ''-'' then (True, cs)
                                 else if c = CHR ''+'' then (False, cs) else (False, t))
      in if d \<noteq> [] \<and> list_all is_digit d
         then Some (if neg then - int (nat_of_digits d) else int (nat_of_digits d)) else None)"

lemma digit_not_space: "is_digit c \<Longrightarrow> \<not> is_space c"
  by (auto simp: is_digit_def is_space_def Let_def)

lemma digit_not_sign: "is_digit c \<Longrightarrow> c \<noteq> CHR ''-'' \<and> c \<noteq> CHR ''+'' \<and> c \<noteq> CHR ''_''"
  by (auto simp: is_digit_def)

lemma py_int_digits:
  assumes "s \<noteq> []" and "\<forall>c \<in> set s. is_digit c"
  shows "py_int s = Some (int (nat_of_digits s))"
proof -
  from assms have "strip s = s"
    by (intro strip_id) (simp_all add: digit_not_space)
  moreover obtain c cs where s: "s = c # cs" using assms(1) by (cases s) auto
  moreover have "c \<noteq> CHR ''-''" "c \<noteq> CHR ''+''"
    using assms(2) s digit_not_sign by auto
  ultimately show ?thesis
    using assms by (simp add: py_int_def list_all_iff)
qed

lemma py_int_fmt04 [simp, codec]: "py_int (fmt04 n) = Some (int n)"
  using py_int_digits [OF fmt04_not_Nil fmt04_digits] by simp

text \<open>\<^verbatim>\<open>int(s)\<close>: in full: single underscores may group the digits.\<close>

definition py_int_literal :: "string \<Rightarrow> int option" where
  "py_int_literal s =
     (let t = strip s;
          (neg, d) = (case t of [] \<Rightarrow> (False, [])
                      | c # cs \<Rightarrow> if c = CHR ''-'' then (True, cs)
                                 else if c = CHR ''+'' then (False, cs) else (False, t));
          gs = split_at (CHR ''_'') d
      in if list_all (\<lambda>g. g \<noteq> [] \<and> list_all is_digit g) gs
         then Some (if neg then - int (nat_of_digits (concat gs)) else int (nat_of_digits (concat gs)))
         else None)"

subsection \<open>Text files\<close>

text \<open>
  Iterating over a file opened in text mode: lines end at a line feed, a carriage
  return or the pair of both; the last line needs no terminator. The lines are given
  without their terminator (every reader strips them before use).
\<close>

function read_lines_acc :: "string \<Rightarrow> string \<Rightarrow> string list" where
  "read_lines_acc acc [] = (if acc = [] then [] else [rev acc])"
| "read_lines_acc acc (c # cs) =
     (if c = NL then rev acc # read_lines_acc [] cs
      else if c = CR then rev acc # read_lines_acc [] (case cs of [] \<Rightarrow> [] | d # ds \<Rightarrow> if d = NL then ds else cs)
      else read_lines_acc (c # acc) cs)"
  by pat_completeness auto
termination
  by (relation "measure (\<lambda>(acc, s). length s)") (auto split: list.splits)

definition read_lines :: "string \<Rightarrow> string list" where
  "read_lines s = read_lines_acc [] s"

text \<open>A line as the writers of the code base produce it: no terminator inside.\<close>

definition clean_line :: "string \<Rightarrow> bool" where
  "clean_line l = (NL \<notin> set l \<and> CR \<notin> set l)"

text \<open>A file made of complete lines.\<close>

definition unlines :: "string list \<Rightarrow> string" where
  "unlines ls = concat (map (\<lambda>l. l @ [NL]) ls)"

lemma read_lines_acc_clean:
  "clean_line l \<Longrightarrow> read_lines_acc acc (l @ NL # s) = (rev acc @ l) # read_lines_acc [] s"
  by (induction l arbitrary: acc) (auto simp: clean_line_def)

lemma read_lines_unlines_app:
  "\<forall>l \<in> set ls. clean_line l \<Longrightarrow> read_lines (unlines ls @ s) = ls @ read_lines s"
  by (induction ls) (simp_all add: unlines_def read_lines_def read_lines_acc_clean)

lemma read_lines_Nil [simp]: "read_lines [] = []"
  by (simp add: read_lines_def)

lemma read_lines_unlines [simp, codec]:
  "\<forall>l \<in> set ls. clean_line l \<Longrightarrow> read_lines (unlines ls) = ls"
  using read_lines_unlines_app [of ls "[]"] by simp

lemma unlines_append [simp]: "unlines (xs @ ys) = unlines xs @ unlines ys"
  by (simp add: unlines_def)

lemma unlines_single: "unlines [l] = l @ [NL]"
  by (simp add: unlines_def)

lemma unlines_Nil [simp]: "unlines [] = []"
  by (simp add: unlines_def)

text \<open>The number of bytes of a string in UTF-8, for code points below 256.\<close>

definition utf8_len :: "string \<Rightarrow> nat" where
  "utf8_len s = (\<Sum>c\<leftarrow>s. if (of_char c :: nat) < 128 then 1 else 2)"

lemma utf8_len_append [simp]: "utf8_len (s @ t) = utf8_len s + utf8_len t"
  by (simp add: utf8_len_def)

lemma utf8_len_ge_length: "length s \<le> utf8_len s"
  by (induction s) (auto simp: utf8_len_def)

section \<open>Operations on a state that may raise\<close>

text \<open>
  An operation takes the state and returns it, with the exception that ended it or its
  value; what was written before an exception stays written.
\<close>

type_synonym ('s, 'a) op = "'s \<Rightarrow> 's \<times> 'a res"

definition ret :: "'a \<Rightarrow> ('s, 'a) op" where
  "ret x s = (s, Inr x)"

definition raise :: "py_error \<Rightarrow> ('s, 'a) op" where
  "raise e s = (s, Inl e)"

definition sbind :: "('s, 'a) op \<Rightarrow> ('a \<Rightarrow> ('s, 'b) op) \<Rightarrow> ('s, 'b) op" where
  "sbind m f s = (case m s of (s', Inl e) \<Rightarrow> (s', Inl e) | (s', Inr x) \<Rightarrow> f x s')"

definition of_res :: "'a res \<Rightarrow> ('s, 'a) op" where
  "of_res r s = (s, r)"

lemma ret_app [simp]: "ret x s = (s, Inr x)"
  by (simp add: ret_def)

lemma sbind_Inr: "m s = (s', Inr x) \<Longrightarrow> sbind m f s = f x s'"
  by (simp add: sbind_def)

lemma of_res_Inr: "r = Inr x \<Longrightarrow> of_res r s = (s, Inr x)"
  by (simp add: of_res_def)

section \<open>Lists\<close>

text \<open>\<^verbatim>\<open>sep.join(parts)\<close>.\<close>

fun join :: "string \<Rightarrow> string list \<Rightarrow> string" where
  "join sep [] = []"
| "join sep [x] = x"
| "join sep (x # y # zs) = x @ sep @ join sep (y # zs)"

lemma join_Cons: "xs \<noteq> [] \<Longrightarrow> join sep (x # xs) = x @ sep @ join sep xs"
  by (cases xs) auto

lemma sort_key_id: "sorted (map f xs) \<Longrightarrow> sort_key f xs = xs"
  by (induction xs) (auto simp: insort_is_Cons)

lemma sort_key_Nil_iff [simp]: "sort_key f xs = [] \<longleftrightarrow> xs = []"
  by (metis length_0_conv length_sort)

end
