(* ===== verification/Json.thy ===== *)
theory Json
  imports Prelude
begin

text \<open>
  JSON values and the two functions of the standard library every persistent structure of
  DSM goes through: \<^verbatim>\<open>json.dumps\<close> (with the options the sources use: sorted keys or
  not, compact or spaced separators, ASCII-only or not) and \<^verbatim>\<open>json.loads\<close>, a recursive
  descent parser. A float is kept as its lexeme. The theory proves that parsing inverts
  printing, that the parser's fuel is enough for every input, and that the canonical
  printing used for hashing is injective up to the order of object keys.
\<close>

section \<open>Values\<close>

datatype json =
    JNull
  | JBool bool
  | JInt int
  | JFloat string
  | JStr string
  | JList "json list"
  | JObj "(string \<times> json) list"

text \<open>Python's truth value of a decoded value.\<close>

fun truthy :: "json \<Rightarrow> bool" where
  "truthy JNull = False"
| "truthy (JBool b) = b"
| "truthy (JInt i) = (i \<noteq> 0)"
| "truthy (JFloat s) = (s \<notin> {''0.0'', ''-0.0''})"
| "truthy (JStr s) = (s \<noteq> [])"
| "truthy (JList xs) = (xs \<noteq> [])"
| "truthy (JObj d) = (d \<noteq> [])"

text \<open>
  \<^verbatim>\<open>d.get(k, default)\<close>: a value that is not a dict has no attribute \<^verbatim>\<open>get\<close>.
\<close>

definition jget :: "string \<Rightarrow> json \<Rightarrow> json \<Rightarrow> json res" where
  "jget k dflt j =
     (case j of JObj d \<Rightarrow> Inr (case dget k d of None \<Rightarrow> dflt | Some v \<Rightarrow> v)
      | _ \<Rightarrow> Inl AttributeError)"

lemma jget_JObj [simp]:
  "jget k dflt (JObj d) = Inr (case dget k d of None \<Rightarrow> dflt | Some v \<Rightarrow> v)"
  by (simp add: jget_def)

text \<open>\<^verbatim>\<open>payload[k]\<close> with a string key: only a dict can hold it.\<close>

definition jsub :: "string \<Rightarrow> json \<Rightarrow> json res" where
  "jsub k j = (case j of JObj d \<Rightarrow> (case dget k d of None \<Rightarrow> Inl (KeyError k) | Some v \<Rightarrow> Inr v) | _ \<Rightarrow> Inl TypeError)"

lemma jsub_JObj [simp]: "jsub k (JObj d) = (case dget k d of None \<Rightarrow> Inl (KeyError k) | Some v \<Rightarrow> Inr v)"
  by (simp add: jsub_def)

text \<open>\<^verbatim>\<open>v or ""\<close>.\<close>

definition or_empty :: "json \<Rightarrow> json" where
  "or_empty v = (if truthy v then v else JStr [])"

lemma or_empty_JStr [simp]: "or_empty (JStr h) = JStr h"
  by (simp add: or_empty_def)

text \<open>A dict key has to be hashable.\<close>

definition hashable :: "json \<Rightarrow> unit res" where
  "hashable v = (case v of JList _ \<Rightarrow> Inl TypeError | JObj _ \<Rightarrow> Inl TypeError | _ \<Rightarrow> Inr ())"

lemma hashable_JStr [simp]: "hashable (JStr s) = Inr ()"
  by (simp add: hashable_def)

text \<open>\<^verbatim>\<open>x in c\<close> for a decoded container.\<close>

definition py_in :: "json \<Rightarrow> json \<Rightarrow> bool res" where
  "py_in x c =
     (case c of
        JList xs \<Rightarrow> Inr (x \<in> set xs)
      | JObj d \<Rightarrow> rbind (hashable x) (\<lambda>_. Inr (\<exists>k \<in> fst ` set d. x = JStr k))
      | JStr t \<Rightarrow> (case x of JStr s \<Rightarrow> Inr (occurs_in s t) | _ \<Rightarrow> Inl TypeError)
      | _ \<Rightarrow> Inl TypeError)"

text \<open>Iterating over a value: the items of a list, the keys of a dict, the characters of a string.\<close>

definition py_iter :: "json \<Rightarrow> json list res" where
  "py_iter v =
     (case v of JList xs \<Rightarrow> Inr xs | JObj d \<Rightarrow> Inr (map (\<lambda>(k, _). JStr k) d)
      | JStr s \<Rightarrow> Inr (map (\<lambda>c. JStr [c]) s) | _ \<Rightarrow> Inl TypeError)"

section \<open>Numbers as lexemes\<close>

definition num_char :: "char \<Rightarrow> bool" where
  "num_char c = (is_digit c \<or> c \<in> {CHR ''-'', CHR ''+'', CHR ''.'', CHR ''e'', CHR ''E''})"

definition unsigned_int_lex :: "string \<Rightarrow> bool" where
  "unsigned_int_lex s = (s \<noteq> [] \<and> list_all is_digit s \<and> (hd s = CHR ''0'' \<longrightarrow> length s = 1))"

definition drop_minus :: "string \<Rightarrow> string" where
  "drop_minus s = (case s of [] \<Rightarrow> [] | c # cs \<Rightarrow> if c = CHR ''-'' then cs else s)"

definition int_lex :: "string \<Rightarrow> bool" where
  "int_lex s = unsigned_int_lex (drop_minus s)"

definition int_of_lex :: "string \<Rightarrow> int" where
  "int_of_lex s =
     (if s \<noteq> [] \<and> hd s = CHR ''-'' then - int (nat_of_digits (drop_minus s))
      else int (nat_of_digits (drop_minus s)))"

text \<open>A digit sequence after a point, and an exponent part.\<close>

definition frac_lex :: "string \<Rightarrow> bool" where
  "frac_lex s = (s = [] \<or> (hd s = CHR ''.'' \<and> tl s \<noteq> [] \<and> list_all is_digit (tl s)))"

definition exp_lex :: "string \<Rightarrow> bool" where
  "exp_lex s =
     (s = [] \<or>
      (hd s \<in> {CHR ''e'', CHR ''E''} \<and>
       (let t = tl s; u = (if t \<noteq> [] \<and> hd t \<in> {CHR ''+'', CHR ''-''} then tl t else t)
        in u \<noteq> [] \<and> list_all is_digit u)))"

definition float_lex :: "string \<Rightarrow> bool" where
  "float_lex s =
     (let t = drop_minus s;
          ip = takeWhile is_digit t;
          r = dropWhile is_digit t;
          fp = takeWhile (\<lambda>c. c = CHR ''.'' \<or> is_digit c) r;
          ep = dropWhile (\<lambda>c. c = CHR ''.'' \<or> is_digit c) r
      in unsigned_int_lex ip \<and> frac_lex fp \<and> exp_lex ep \<and> r \<noteq> [] \<and> list_all num_char s)"

definition nonfinite :: "string \<Rightarrow> bool" where
  "nonfinite s = (s \<in> {''NaN'', ''Infinity'', ''-Infinity''})"

lemma int_lex_show_nat: "unsigned_int_lex (show_nat n)"
proof (cases n)
  case 0
  then show ?thesis by (simp add: unsigned_int_lex_def is_digit_def)
next
  case (Suc m)
  then show ?thesis
    using show_nat_digits [of n] hd_show_nat [of n]
    by (simp add: unsigned_int_lex_def list_all_iff)
qed

lemma hd_show_nat_digit: "is_digit (hd (show_nat n))"
  using show_nat_digits [of n] by simp

lemma drop_minus_show_nat [simp]: "drop_minus (show_nat n) = show_nat n"
  using hd_show_nat_digit [of n] digit_not_sign [of "hd (show_nat n)"]
  by (cases "show_nat n") (auto simp: drop_minus_def)

lemma hd_show_nat_minus [simp]: "hd (show_nat n) \<noteq> CHR ''-''"
  using hd_show_nat_digit digit_not_sign by blast

lemma show_int_not_Nil [simp]: "show_int i \<noteq> []"
  by (simp add: show_int_def)

lemma int_lex_show_int [simp]: "int_lex (show_int i)"
  by (simp add: show_int_def int_lex_def int_lex_show_nat drop_minus_def[of "_ # _"])

lemma int_of_lex_show_int [simp, codec]: "int_of_lex (show_int i) = i"
  by (simp add: show_int_def int_of_lex_def drop_minus_def[of "_ # _"])

lemma show_int_num_char: "list_all num_char (show_int i)"
  using show_nat_digits by (auto simp: show_int_def num_char_def list_all_iff)

section \<open>Printing\<close>

record dump_style =
  spaced :: bool
  ascii :: bool

definition isep :: "dump_style \<Rightarrow> string" where
  "isep st = (if spaced st then '', '' else '','')"

definition ksep :: "dump_style \<Rightarrow> string" where
  "ksep st = (if spaced st then '': '' else '':'')"

definition hex_digit :: "nat \<Rightarrow> char" where
  "hex_digit n = (if n < 10 then char_of (48 + n) else char_of (87 + n))"

definition esc_u :: "nat \<Rightarrow> string" where
  "esc_u n = [BS, CHR ''u'', CHR ''0'', CHR ''0'', hex_digit (n div 16), hex_digit (n mod 16)]"

definition esc_char :: "bool \<Rightarrow> char \<Rightarrow> string" where
  "esc_char asc c =
     (let n = of_char c :: nat in
      if c = DQ then [BS, DQ]
      else if c = BS then [BS, BS]
      else if n = 10 then [BS, CHR ''n'']
      else if n = 13 then [BS, CHR ''r'']
      else if n = 9 then [BS, CHR ''t'']
      else if n = 12 then [BS, CHR ''f'']
      else if n = 8 then [BS, CHR ''b'']
      else if n < 32 then esc_u n
      else if asc \<and> 126 < n then esc_u n
      else [c])"

definition quote :: "bool \<Rightarrow> string \<Rightarrow> string" where
  "quote asc s = DQ # concat (map (esc_char asc) s) @ [DQ]"

fun dumps_raw :: "dump_style \<Rightarrow> json \<Rightarrow> string" where
  "dumps_raw st JNull = ''null''"
| "dumps_raw st (JBool b) = (if b then ''true'' else ''false'')"
| "dumps_raw st (JInt i) = show_int i"
| "dumps_raw st (JFloat s) = s"
| "dumps_raw st (JStr s) = quote (ascii st) s"
| "dumps_raw st (JList xs) = ''['' @ join (isep st) (map (dumps_raw st) xs) @ '']''"
| "dumps_raw st (JObj d) =
     ''{'' @ join (isep st) (map (\<lambda>(k, v). quote (ascii st) k @ ksep st @ dumps_raw st v) d) @ ''}''"

text \<open>Recursive sorting of object keys, the effect of \<^verbatim>\<open>sort_keys=True\<close>.\<close>

fun norm :: "json \<Rightarrow> json" where
  "norm (JList xs) = JList (map norm xs)"
| "norm (JObj d) = JObj (sort_key fst (map (\<lambda>(k, v). (k, norm v)) d))"
| "norm j = j"

definition compact :: dump_style where "compact = \<lparr>spaced = False, ascii = False\<rparr>"
definition compact_ascii :: dump_style where "compact_ascii = \<lparr>spaced = False, ascii = True\<rparr>"
definition spaced_ascii :: dump_style where "spaced_ascii = \<lparr>spaced = True, ascii = True\<rparr>"
definition spaced_raw :: dump_style where "spaced_raw = \<lparr>spaced = True, ascii = False\<rparr>"

text \<open>\<^verbatim>\<open>json.dumps(j, sort_keys=True, ...)\<close>.\<close>

definition dumps_sorted :: "dump_style \<Rightarrow> json \<Rightarrow> string" where
  "dumps_sorted st j = dumps_raw st (norm j)"

text \<open>A value the printer accepts under \<^verbatim>\<open>allow_nan=False\<close>.\<close>

fun all_finite :: "json \<Rightarrow> bool" where
  "all_finite (JFloat s) = (\<not> nonfinite s)"
| "all_finite (JList xs) = list_all all_finite xs"
| "all_finite (JObj d) = list_all (\<lambda>(k, v). all_finite v) d"
| "all_finite j = True"

text \<open>Values that Python can hold: dict keys are distinct, float lexemes are numbers.\<close>

fun wf_json :: "json \<Rightarrow> bool" where
  "wf_json (JFloat s) = (float_lex s \<or> nonfinite s)"
| "wf_json (JList xs) = list_all wf_json xs"
| "wf_json (JObj d) = (distinct (map fst d) \<and> list_all (\<lambda>(k, v). wf_json v) d)"
| "wf_json j = True"

section \<open>Parsing\<close>

definition json_ws :: "char \<Rightarrow> bool" where
  "json_ws c = (c \<in> {CHR '' '', CHR 0x09, NL, CR})"

abbreviation skip_ws :: "string \<Rightarrow> string" where
  "skip_ws s \<equiv> dropWhile json_ws s"

definition hex_val :: "char \<Rightarrow> nat option" where
  "hex_val c =
     (let n = of_char c :: nat in
      if 48 \<le> n \<and> n \<le> 57 then Some (n - 48)
      else if 97 \<le> n \<and> n \<le> 102 then Some (n - 87)
      else if 65 \<le> n \<and> n \<le> 70 then Some (n - 55)
      else None)"

definition unesc_simple :: "char \<Rightarrow> char option" where
  "unesc_simple c =
     (if c = DQ then Some DQ else if c = BS then Some BS else if c = CHR ''/'' then Some (CHR ''/'')
      else if c = CHR ''n'' then Some (CHR 0x0A) else if c = CHR ''r'' then Some (CHR 0x0D)
      else if c = CHR ''t'' then Some (CHR 0x09) else if c = CHR ''f'' then Some (CHR 0x0C)
      else if c = CHR ''b'' then Some (CHR 0x08) else None)"

text \<open>The rest of a string literal, after the opening quote: its value and what follows it.\<close>

fun parse_str :: "string \<Rightarrow> (string \<times> string) option" where
  "parse_str [] = None"
| "parse_str (c # cs) =
     (if c = DQ then Some ([], cs)
      else if c = BS then
        (case cs of
           [] \<Rightarrow> None
         | e # es \<Rightarrow>
             (if e = CHR ''u'' then
                (case es of
                   a # b # x # y # r \<Rightarrow>
                     (case (hex_val a, hex_val b, hex_val x, hex_val y) of
                        (Some a', Some b', Some x', Some y') \<Rightarrow>
                          (if 16 * a' + b' = 0
                           then map_option (\<lambda>(s, t). (char_of (16 * x' + y') # s, t)) (parse_str r)
                           else None)
                      | _ \<Rightarrow> None)
                 | _ \<Rightarrow> None)
              else
                (case unesc_simple e of
                   None \<Rightarrow> None
                 | Some d \<Rightarrow> map_option (\<lambda>(s, t). (d # s, t)) (parse_str es))))
      else if (of_char c :: nat) < 32 then None
      else map_option (\<lambda>(s, t). (c # s, t)) (parse_str cs))"

text \<open>A number: the longest run of number characters, then the grammar's check.\<close>

definition parse_num :: "string \<Rightarrow> (json \<times> string) option" where
  "parse_num s =
     (let l = takeWhile num_char s; r = dropWhile num_char s in
      if int_lex l then Some (JInt (int_of_lex l), r)
      else if float_lex l then Some (JFloat l, r)
      else None)"

definition strip_prefix :: "string \<Rightarrow> string \<Rightarrow> string option" where
  "strip_prefix p s = (if startswith p s then Some (drop (length p) s) else None)"

text \<open>Values that start with a letter, and minus infinity.\<close>

definition parse_word :: "string \<Rightarrow> (json \<times> string) option" where
  "parse_word s =
     (if startswith ''null'' s then Some (JNull, drop 4 s)
      else if startswith ''true'' s then Some (JBool True, drop 4 s)
      else if startswith ''false'' s then Some (JBool False, drop 5 s)
      else if startswith ''NaN'' s then Some (JFloat ''NaN'', drop 3 s)
      else if startswith ''Infinity'' s then Some (JFloat ''Infinity'', drop 8 s)
      else if startswith ''-Infinity'' s then Some (JFloat ''-Infinity'', drop 9 s)
      else None)"

text \<open>
  The parser proper. Its first argument is fuel: every call hands less of it on, and
  the calls are made on shorter inputs, so twice the length of the input is enough
  (lemma \<open>parse_fuel_enough\<close>). A duplicate key keeps its first position and its last value.
\<close>

fun parse_value :: "nat \<Rightarrow> string \<Rightarrow> (json \<times> string) option"
and parse_elems :: "nat \<Rightarrow> string \<Rightarrow> (json list \<times> string) option"
and parse_members :: "nat \<Rightarrow> string \<Rightarrow> ((string \<times> json) list \<times> string) option" where
  "parse_value 0 s = None"
| "parse_value (Suc n) s =
     (case s of
        [] \<Rightarrow> None
      | c # cs \<Rightarrow>
          (if c = DQ then map_option (\<lambda>(t, r). (JStr t, r)) (parse_str cs)
           else if c = CHR ''['' then
             (case skip_ws cs of
                [] \<Rightarrow> None
              | d # ds \<Rightarrow> (if d = CHR '']'' then Some (JList [], ds)
                          else map_option (\<lambda>(xs, r). (JList xs, r)) (parse_elems n (d # ds))))
           else if c = CHR ''{'' then
             (case skip_ws cs of
                [] \<Rightarrow> None
              | d # ds \<Rightarrow> (if d = CHR ''}'' then Some (JObj [], ds)
                          else map_option (\<lambda>(kvs, r). (JObj (dupdate [] kvs), r)) (parse_members n (d # ds))))
           else (case parse_word s of
                   Some vr \<Rightarrow> Some vr
                 | None \<Rightarrow> (if c = CHR ''-'' \<or> is_digit c then parse_num s else None))))"
| "parse_elems 0 s = None"
| "parse_elems (Suc n) s =
     (case parse_value n s of
        None \<Rightarrow> None
      | Some (v, r) \<Rightarrow>
          (case skip_ws r of
             [] \<Rightarrow> None
           | d # ds \<Rightarrow>
               (if d = CHR '']'' then Some ([v], ds)
                else if d = CHR '','' then map_option (\<lambda>(vs, t). (v # vs, t)) (parse_elems n (skip_ws ds))
                else None)))"
| "parse_members 0 s = None"
| "parse_members (Suc n) s =
     (case s of
        [] \<Rightarrow> None
      | c # cs \<Rightarrow>
          (if c \<noteq> DQ then None
           else
             (case parse_str cs of
                None \<Rightarrow> None
              | Some (k, r) \<Rightarrow>
                  (case skip_ws r of
                     [] \<Rightarrow> None
                   | d # ds \<Rightarrow>
                       (if d \<noteq> CHR '':'' then None
                        else
                          (case parse_value n (skip_ws ds) of
                             None \<Rightarrow> None
                           | Some (v, t) \<Rightarrow>
                               (case skip_ws t of
                                  [] \<Rightarrow> None
                                | e # es \<Rightarrow>
                                    (if e = CHR ''}'' then Some ([(k, v)], es)
                                     else if e = CHR '','' then
                                       map_option (\<lambda>(kvs, u). ((k, v) # kvs, u)) (parse_members n (skip_ws es))
                                     else None))))))))"

text \<open>\<^verbatim>\<open>json.loads(s)\<close>; None stands for JSONDecodeError.\<close>

definition loads :: "string \<Rightarrow> json option" where
  "loads s =
     (case parse_value (2 * length s + 1) (skip_ws s) of
        None \<Rightarrow> None
      | Some (j, r) \<Rightarrow> (if skip_ws r = [] then Some j else None))"

section \<open>Strings round trip\<close>

lemma hex_val_hex_digit [simp]: "n < 16 \<Longrightarrow> hex_val (hex_digit n) = Some n"
  by (auto simp: hex_val_def hex_digit_def Let_def)

lemma parse_str_esc_u:
  "(of_char c :: nat) = n \<Longrightarrow>
   parse_str (esc_u n @ t) = map_option (\<lambda>(s, u). (c # s, u)) (parse_str t)"
proof -
  assume n: "(of_char c :: nat) = n"
  then have lt: "n < 256" using nat_of_char_less_256 by blast
  then have "n div 16 < 16" by simp
  moreover have "16 * (n div 16) + n mod 16 = n" by simp
  moreover have "hex_val (CHR ''0'') = Some 0" by (simp add: hex_val_def)
  moreover have "char_of n = c" using n by auto
  ultimately show ?thesis by (simp add: esc_u_def BS_def DQ_def)
qed

lemma of_char_is: "(of_char c :: nat) = of_char d \<Longrightarrow> c = d"
  by simp

lemma parse_str_esc_char:
  "parse_str (esc_char asc c @ t) = map_option (\<lambda>(s, u). (c # s, u)) (parse_str t)"
proof -
  consider "c = DQ" | "c = BS" | "(of_char c :: nat) \<in> {8, 9, 10, 12, 13}" 
    | "c \<noteq> DQ" "c \<noteq> BS" "(of_char c :: nat) \<notin> {8, 9, 10, 12, 13}" by blast
  then show ?thesis
  proof cases
    case 3
    then have "c \<in> {CHR 0x08, CHR 0x09, CHR 0x0A, CHR 0x0C, CHR 0x0D}"
      using of_char_is [of c "CHR 0x08"] of_char_is [of c "CHR 0x09"] of_char_is [of c "CHR 0x0A"]
        of_char_is [of c "CHR 0x0C"] of_char_is [of c "CHR 0x0D"] by auto
    then show ?thesis
      by (auto simp: esc_char_def unesc_simple_def char_defs)
  next
    case 4
    then show ?thesis
      using parse_str_esc_u [of c "of_char c" t] by (auto simp: esc_char_def Let_def)
  qed (simp_all add: esc_char_def unesc_simple_def char_defs)
qed

lemma parse_str_quote [codec]:
  "parse_str (concat (map (esc_char asc) s) @ DQ # r) = Some (s, r)"
  by (induction s) (simp_all add: parse_str_esc_char)

lemma quote_not_Nil [simp]: "quote asc s \<noteq> []"
  by (simp add: quote_def)

lemma length_quote: "2 \<le> length (quote asc s)"
  by (simp add: quote_def)

section \<open>Numbers\<close>

definition num_end :: "string \<Rightarrow> bool" where
  "num_end r = (r = [] \<or> \<not> num_char (hd r))"

lemma takeWhile_num: "list_all num_char l \<Longrightarrow> num_end r \<Longrightarrow>
    takeWhile num_char (l @ r) = l \<and> dropWhile num_char (l @ r) = r"
  by (cases r) (auto simp: num_end_def list_all_iff)

lemma parse_num_int: "num_end r \<Longrightarrow> parse_num (show_int i @ r) = Some (JInt i, r)"
  using takeWhile_num [OF show_int_num_char] by (simp add: parse_num_def)

lemma float_lex_not_int: "float_lex s \<Longrightarrow> \<not> int_lex s"
  by (auto simp: float_lex_def int_lex_def unsigned_int_lex_def Let_def list_all_iff 
     dest: dropWhile_eq_Nil_conv[THEN iffD2])

lemma parse_num_float: "float_lex s \<Longrightarrow> num_end r \<Longrightarrow> parse_num (s @ r) = Some (JFloat s, r)"
  using takeWhile_num [of s r] float_lex_not_int [of s]
  by (auto simp: parse_num_def float_lex_def Let_def)

definition num_start :: "string \<Rightarrow> bool" where
  "num_start s =
     (case s of [] \<Rightarrow> False
      | c # cs \<Rightarrow> is_digit c \<or> (c = CHR ''-'' \<and> cs \<noteq> [] \<and> is_digit (hd cs)))"

lemma num_start_show_int: "num_start (show_int i)"
proof -
  obtain c cs where "show_nat (nat (- i)) = c # cs" "is_digit c"
    using hd_show_nat_digit [of "nat (- i)"] by (cases "show_nat (nat (- i))") auto
  moreover obtain d ds where "show_nat (nat i) = d # ds" "is_digit d"
    using hd_show_nat_digit [of "nat i"] by (cases "show_nat (nat i)") auto
  ultimately show ?thesis by (simp add: num_start_def show_int_def)
qed

lemma takeWhile_digit_hd: "takeWhile is_digit t \<noteq> [] \<Longrightarrow> t \<noteq> [] \<and> is_digit (hd t)"
  by (cases t) (auto split: if_splits)

lemma num_start_float:
  assumes "float_lex s"
  shows "num_start s"
proof -
  from assms have "takeWhile is_digit (drop_minus s) \<noteq> []"
    by (simp add: float_lex_def unsigned_int_lex_def Let_def)
  then have "drop_minus s \<noteq> []" and "is_digit (hd (drop_minus s))"
    using takeWhile_digit_hd by blast+
  then show ?thesis
    by (cases s) (auto simp: num_start_def drop_minus_def split: if_splits)
qed

lemma digit_neq_letter:
  "is_digit c \<Longrightarrow> c \<notin> {CHR ''n'', CHR ''t'', CHR ''f'', CHR ''N'', CHR ''I'', CHR ''-'', DQ, CHR ''['', CHR ''{''}"
  by (auto simp: is_digit_def DQ_def)

lemma parse_word_num:
  assumes "num_start s"
  shows "parse_word (s @ r) = None"
proof -
  obtain c cs where s: "s = c # cs" using assms by (cases s) (auto simp: num_start_def)
  from assms s consider "is_digit c" | d ds where "c = CHR ''-''" "cs = d # ds" "is_digit d"
    by (cases cs) (auto simp: num_start_def)
  then show ?thesis
  proof cases
    case 1
    with digit_neq_letter [OF 1] show ?thesis by (simp add: s parse_word_def)
  next
    case 2
    with digit_neq_letter [OF 2(3)] show ?thesis by (simp add: s parse_word_def)
  qed
qed

lemma parse_value_num:
  assumes "num_start s"
  shows "parse_value (Suc n) (s @ r) = parse_num (s @ r)"
proof -
  obtain c cs where s: "s = c # cs" and c: "is_digit c \<or> c = CHR ''-''"
    using assms by (cases s) (auto simp: num_start_def)
  from c have "c \<noteq> DQ" "c \<noteq> CHR ''[''" "c \<noteq> CHR ''{''"
    by (auto simp: is_digit_def DQ_def)
  with parse_word_num [OF assms, of r] c s show ?thesis by auto
qed

section \<open>The round trip\<close>

lemma num_start_not_ws: "num_start s \<Longrightarrow> \<not> json_ws (hd s) \<and> hd s \<noteq> CHR '']''"
  by (cases s) (auto simp: num_start_def json_ws_def is_digit_def char_defs)

lemma num_start_not_Nil: "num_start s \<Longrightarrow> s \<noteq> []"
  by (auto simp: num_start_def)

lemma dumps_hd:
  "wf_json j \<Longrightarrow> dumps_raw st j \<noteq> [] \<and> \<not> json_ws (hd (dumps_raw st j)) \<and> hd (dumps_raw st j) \<noteq> CHR '']''"
proof (cases j)
  case (JInt i)
  then show ?thesis
    using num_start_not_ws [OF num_start_show_int] num_start_not_Nil [OF num_start_show_int] by simp
next
  case (JFloat s)
  moreover assume "wf_json j"
  ultimately show ?thesis
    using num_start_not_ws [OF num_start_float, of s] num_start_not_Nil [OF num_start_float, of s]
    by (auto simp: nonfinite_def json_ws_def char_defs)
qed (auto simp: quote_def json_ws_def char_defs)

lemma skip_ws_dumps: "wf_json j \<Longrightarrow> skip_ws (dumps_raw st j @ r) = dumps_raw st j @ r"
  using dumps_hd [of j st] by (cases "dumps_raw st j") auto

lemma skip_ws_isep: "isep st @ s = CHR '','' # t \<Longrightarrow> skip_ws t = skip_ws s"
  by (auto simp: isep_def json_ws_def split: if_splits)

lemma isep_cases: obtains w where "isep st = CHR '','' # w" and "\<And>s. skip_ws (w @ s) = skip_ws s"
  by (cases "spaced st") (auto simp: isep_def json_ws_def)

lemma ksep_cases: obtains w where "ksep st = CHR '':'' # w" and "\<And>s. skip_ws (w @ s) = skip_ws s"
  by (cases "spaced st") (auto simp: ksep_def json_ws_def)

lemma num_end_simps [simp]:
  "num_end (CHR '','' # r)" "num_end (CHR '']'' # r)" "num_end (CHR ''}'' # r)" "num_end []"
  by (simp_all add: num_end_def num_char_def is_digit_def)

lemma json_ws_punct [simp]:
  "\<not> json_ws (CHR '','')" "\<not> json_ws (CHR '']'')" "\<not> json_ws (CHR ''}'')" "\<not> json_ws (CHR '':'')"
  "\<not> json_ws DQ"
  by (simp_all add: json_ws_def char_defs)

lemma length_join_mem: "x \<in> set xs \<Longrightarrow> length x \<le> length (join sep xs)"
  by (induction sep xs rule: join.induct) auto

lemma parse_elems_dumps:
  assumes "\<And>x n r. x \<in> set xs \<Longrightarrow> num_end r \<Longrightarrow> length (dumps_raw st x) \<le> n \<Longrightarrow>
             parse_value n (dumps_raw st x @ r) = Some (x, r)"
    and "xs \<noteq> []" and "list_all wf_json xs"
    and "Suc (length (join (isep st) (map (dumps_raw st) xs))) \<le> n"
  shows "parse_elems n (join (isep st) (map (dumps_raw st) xs) @ CHR '']'' # r) = Some (xs, r)"
  using assms
proof (induction xs arbitrary: n)
  case (Cons x xs)
  then obtain m where n: "n = Suc m" by (cases n) auto
  show ?case
  proof (cases "xs = []")
    case True
    with Cons.prems n show ?thesis by simp
  next
    case False
    obtain w where w: "isep st = CHR '','' # w" "\<And>s. skip_ws (w @ s) = skip_ws s"
      using isep_cases [of st] by blast
    let ?rest = "join (isep st) (map (dumps_raw st) xs)"
    have j: "join (isep st) (map (dumps_raw st) (x # xs)) = dumps_raw st x @ CHR '','' # w @ ?rest"
      using False w by (simp add: join_Cons)
    have len: "length (dumps_raw st x) \<le> m" "Suc (length ?rest) \<le> m"
      using Cons.prems(4) n unfolding j by auto
    have "parse_value m (dumps_raw st x @ CHR '','' # w @ ?rest @ CHR '']'' # r)
            = Some (x, CHR '','' # w @ ?rest @ CHR '']'' # r)"
      using Cons.prems(1) len by simp
    moreover have "skip_ws (?rest @ CHR '']'' # r) = ?rest @ CHR '']'' # r"
    proof -
      obtain y ys where xs: "xs = y # ys" using False by (cases xs) auto
      then show ?thesis
        using Cons.prems(3) skip_ws_dumps [of y st]
        by (cases ys) (auto simp: join_Cons)
    qed
    moreover have "parse_elems m (?rest @ CHR '']'' # r) = Some (xs, r)"
      using Cons.IH [OF _ False, of m] Cons.prems(1,3) len by auto
    ultimately show ?thesis unfolding n j by (simp add: w(2))
  qed
qed simp

lemma parse_members_dumps:
  assumes "\<And>k x n r. (k, x) \<in> set d \<Longrightarrow> num_end r \<Longrightarrow> length (dumps_raw st x) \<le> n \<Longrightarrow>
             parse_value n (dumps_raw st x @ r) = Some (x, r)"
    and "d \<noteq> []" and "list_all (\<lambda>(k, v). wf_json v) d"
    and "Suc (length (join (isep st) (map (\<lambda>(k, v). quote (ascii st) k @ ksep st @ dumps_raw st v) d))) \<le> n"
  shows "parse_members n (join (isep st) (map (\<lambda>(k, v). quote (ascii st) k @ ksep st @ dumps_raw st v) d)
           @ CHR ''}'' # r) = Some (d, r)"
  using assms
proof (induction d arbitrary: n)
  case (Cons kx d)
  obtain k x where kx: "kx = (k, x)" by (cases kx)
  from Cons.prems(4) obtain m where n: "n = Suc m" by (cases n) auto
  obtain v where v: "ksep st = CHR '':'' # v" "\<And>s. skip_ws (v @ s) = skip_ws s"
    using ksep_cases [of st] by blast
  have wf: "wf_json x" using Cons.prems(3) kx by simp
  have len0: "length (dumps_raw st x) \<le> m"
    using Cons.prems(4) n kx length_join_mem [of "quote (ascii st) k @ ksep st @ dumps_raw st x"
        "map (\<lambda>(k, v). quote (ascii st) k @ ksep st @ dumps_raw st v) (kx # d)" "isep st"]
    by simp
  have val: "parse_value m (dumps_raw st x @ t) = Some (x, t)" if "num_end t" for t
    using Cons.prems(1) [of k x t m] kx that len0 by simp
  show ?case
  proof (cases "d = []")
    case True
    with kx n val v skip_ws_dumps [OF wf] show ?thesis
      by (simp add: quote_def parse_str_quote)
  next
    case False
    obtain w where w: "isep st = CHR '','' # w" "\<And>s. skip_ws (w @ s) = skip_ws s"
      using isep_cases [of st] by blast
    let ?rest = "join (isep st) (map (\<lambda>(k, v). quote (ascii st) k @ ksep st @ dumps_raw st v) d)"
    have j: "join (isep st) (map (\<lambda>(k, v). quote (ascii st) k @ ksep st @ dumps_raw st v) (kx # d))
        = quote (ascii st) k @ ksep st @ dumps_raw st x @ CHR '','' # w @ ?rest"
      using False w by (simp add: join_Cons kx)
    have len: "Suc (length ?rest) \<le> m"
      using Cons.prems(4) n unfolding j by auto
    have "skip_ws (?rest @ CHR ''}'' # r) = ?rest @ CHR ''}'' # r"
      using False by (cases d rule: list.exhaust; cases "tl d")
        (auto simp: join_Cons quote_def json_ws_def char_defs)
    moreover have "parse_members m (?rest @ CHR ''}'' # r) = Some (d, r)"
      using Cons.IH [OF _ False, of m] Cons.prems(1,3) len by auto
    ultimately show ?thesis
      using val [of "CHR '','' # w @ ?rest @ CHR ''}'' # r"] skip_ws_dumps [OF wf]
      unfolding n j by (simp add: kx v w(2) quote_def parse_str_quote)
  qed
qed simp

theorem parse_dumps:
  assumes "wf_json j" and "num_end r" and "length (dumps_raw st j) \<le> n"
  shows "parse_value n (dumps_raw st j @ r) = Some (j, r)"
  using assms
proof (induction j arbitrary: n r)
  case (JFloat s)
  then obtain m where n: "n = Suc m" 
    using dumps_hd [of "JFloat s" st] by (cases n) auto
  show ?case
  proof (cases "nonfinite s")
    case True
    then show ?thesis unfolding n by (auto simp: nonfinite_def parse_word_def DQ_def)
  next
    case False
    with JFloat n show ?thesis by (simp add: parse_value_num num_start_float parse_num_float del: parse_value.simps)
  qed
next
  case (JInt i)
  then obtain m where n: "n = Suc m" using dumps_hd [of "JInt i" st] by (cases n) auto
  with JInt show ?case by (simp add: parse_value_num num_start_show_int parse_num_int del: parse_value.simps)
next
  case (JList xs)
  then obtain m where n: "n = Suc m" by (cases n) auto
  show ?case
  proof (cases "xs = []")
    case True
    then show ?thesis by (simp add: n DQ_def)
  next
    case False
    then obtain y ys where xs: "xs = y # ys" by (cases xs) auto
    let ?b = "join (isep st) (map (dumps_raw st) xs) @ CHR '']'' # r"
    have hd: "?b \<noteq> []" "\<not> json_ws (hd ?b)" "hd ?b \<noteq> CHR '']''"
      using dumps_hd [of y st] JList.prems(1) xs by (cases ys; simp add: join_Cons)+
    have "parse_elems m ?b = Some (xs, r)"
      using JList n False by (intro parse_elems_dumps) (auto simp: list_all_iff)
    moreover have "parse_value n (dumps_raw st (JList xs) @ r)
       = map_option (\<lambda>(xs, r). (JList xs, r)) (parse_elems m ?b)"
      using hd by (cases ?b) (auto simp: n DQ_def)
    ultimately show ?thesis by simp
  qed
next
  case (JObj d)
  then obtain m where n: "n = Suc m" by (cases n) auto
  show ?case
  proof (cases "d = []")
    case True
    then show ?thesis by (simp add: n DQ_def)
  next
    case False
    then obtain y ys where d: "d = y # ys" by (cases d) auto
    let ?b = "join (isep st) (map (\<lambda>(k, v). quote (ascii st) k @ ksep st @ dumps_raw st v) d) @ CHR ''}'' # r"
    have hd: "?b \<noteq> []" "\<not> json_ws (hd ?b)" "hd ?b \<noteq> CHR ''}''"
      using d by (cases y; cases ys; simp add: join_Cons quote_def DQ_def json_ws_def char_defs)+
    have "parse_members m ?b = Some (d, r)"
    proof (rule parse_members_dumps)
      fix k x n' r' assume "(k, x) \<in> set d" "num_end r'" "length (dumps_raw st x) \<le> n'"
      with JObj.IH [of "(k, x)" x r' n'] JObj.prems(1) 
      show "parse_value n' (dumps_raw st x @ r') = Some (x, r')" by (auto simp: list_all_iff)
    qed (use JObj.prems n False in auto)
    moreover have "parse_value n (dumps_raw st (JObj d) @ r)
       = map_option (\<lambda>(kvs, r). (JObj (dupdate [] kvs), r)) (parse_members m ?b)"
      using hd by (cases ?b) (auto simp: n DQ_def)
    ultimately show ?thesis using JObj.prems(1) by (simp add: dupdate_distinct)
  qed
next
  case (JStr s)
  then obtain m where n: "n = Suc m" by (cases n) (auto simp: quote_def)
  then show ?case by (simp add: quote_def parse_str_quote)
next
  case JNull
  then obtain m where n: "n = Suc m" by (cases n) auto
  then show ?case by (simp add: parse_word_def DQ_def)
next
  case (JBool b)
  then obtain m where n: "n = Suc m" by (cases n) (auto split: if_splits)
  then show ?case by (simp add: parse_word_def DQ_def)
qed

section \<open>The parser consumes input, and its fuel is enough\<close>

lemma parse_str_shorter: "parse_str s = Some (t, r) \<Longrightarrow> length r < length s"
proof (induction s arbitrary: t r rule: parse_str.induct)
  case (2 c cs)
  then show ?case
    by (auto split: if_splits list.splits option.splits prod.splits simp: less_Suc_eq_le) (fastforce+)?
qed simp

lemma parse_word_shorter: "parse_word s = Some (v, r) \<Longrightarrow> length r < length s"
  by (auto simp: parse_word_def startswith_prefix prefix_def split: if_splits)

lemma parse_num_shorter:
  assumes "parse_num s = Some (v, r)"
  shows "length r < length s"
proof -
  have "takeWhile num_char s \<noteq> []"
    using assms num_start_not_Nil [OF num_start_float]
    by (auto simp: parse_num_def Let_def int_lex_def unsigned_int_lex_def drop_minus_def split: if_splits)
  then have "length (dropWhile num_char s) < length s"
    by (metis length_append takeWhile_dropWhile_id add_diff_cancel_right' length_0_conv less_add_same_cancel2 length_greater_0_conv)
  with assms show ?thesis by (auto simp: parse_num_def Let_def split: if_splits)
qed

lemma skip_ws_le: "length (skip_ws s) \<le> length s"
  by (rule length_dropWhile_le)

lemma skip_ws_Cons_le: "skip_ws s = d # ds \<Longrightarrow> length ds < length s"
  using skip_ws_le [of s] by simp

lemma parse_shorter:
  "parse_value n s = Some (v, r) \<Longrightarrow> length r < length s"
  "parse_elems n s = Some (vs, r) \<Longrightarrow> length r < length s"
  "parse_members n s = Some (kvs, r) \<Longrightarrow> length r < length s"
proof (induction n s and n s and n s arbitrary: v r and vs r and kvs r
    rule: parse_value_parse_elems_parse_members.induct)
  case (2 n s)
  show ?case
  proof (cases s)
    case Nil
    with 2 show ?thesis by simp
  next
    case (Cons c cs)
    show ?thesis
    proof (cases "c = CHR ''['' \<or> c = CHR ''{''")
      case True
      with 2 Cons show ?thesis
        by (auto simp: DQ_def split: if_splits list.splits dest!: skip_ws_Cons_le)
           (fastforce dest: skip_ws_Cons_le)+
    next
      case False
      with 2 Cons show ?thesis
        by (auto split: if_splits option.splits dest: parse_str_shorter parse_word_shorter parse_num_shorter)
    qed
  qed
next
  case (4 n s)
  from "4.prems" obtain v1 r1 d ds where v1: "parse_value n s = Some (v1, r1)" and ds: "skip_ws r1 = d # ds"
    and tail: "r = ds \<or> (d \<noteq> CHR '']'' \<and> d = CHR '','' \<and> (\<exists>us. parse_elems n (skip_ws ds) = Some (us, r)))"
    by (auto split: option.splits list.splits if_splits)
  have "length r1 < length s" by (rule "4.IH"(1) [OF v1])
  moreover have "length ds < length r1" using ds by (rule skip_ws_Cons_le)
  moreover have "r = ds \<or> length r < length (skip_ws ds)"
    using tail "4.IH"(2) [OF v1 refl ds] by blast
  ultimately show ?case using skip_ws_le [of ds] by auto
next
  case (6 n s)
  from "6.prems" obtain cs where s: "s = DQ # cs" by (auto split: list.splits if_splits)
  from "6.prems" s obtain k r0 d ds where k: "parse_str cs = Some (k, r0)" and ds: "skip_ws r0 = d # ds"
    and d: "d = CHR '':''" by (auto split: option.splits list.splits if_splits)
  from "6.prems" s k ds d obtain v t e es where v: "parse_value n (skip_ws ds) = Some (v, t)"
    and es: "skip_ws t = e # es"
    and tail: "r = es \<or> (e \<noteq> CHR ''}'' \<and> e = CHR '','' \<and> (\<exists>us. parse_members n (skip_ws es) = Some (us, r)))"
    by (auto split: option.splits list.splits if_splits)
  have "length r0 < length cs" using k by (rule parse_str_shorter)
  moreover have "length ds < length r0" using ds by (rule skip_ws_Cons_le)
  moreover have "length t < length (skip_ws ds)"
    using "6.IH"(1) [OF s _ k _ ds _ v] d by simp
  moreover have "length es < length t" using es by (rule skip_ws_Cons_le)
  moreover have "r = es \<or> length r < length (skip_ws es)"
    using tail "6.IH"(2) [OF s _ k _ ds _ v _ es] d by auto
  ultimately show ?case using skip_ws_le [of ds] skip_ws_le [of es] s by auto
qed auto

declare parse_value.simps(2) [simp del] parse_elems.simps(2) [simp del] parse_members.simps(2) [simp del]

lemma parse_fuel_step:
  "(2 * length s + 1 \<le> n \<longrightarrow> parse_value (Suc n) s = parse_value n s) \<and>
   (2 * length s + 2 \<le> n \<longrightarrow> parse_elems (Suc n) s = parse_elems n s) \<and>
   (2 * length s + 2 \<le> n \<longrightarrow> parse_members (Suc n) s = parse_members n s)"
proof (induction n arbitrary: s)
  case (Suc n)
  have el: "parse_elems (Suc n) t = parse_elems n t" and me: "parse_members (Suc n) t = parse_members n t"
    if "2 * length t + 2 \<le> n" for t using Suc.IH that by blast+
  have va: "parse_value (Suc n) t = parse_value n t" if "2 * length t + 1 \<le> n" for t
    using Suc.IH that by blast
  show ?case
  proof (intro conjI impI)
    assume len: "2 * length s + 1 \<le> Suc n"
    show "parse_value (Suc (Suc n)) s = parse_value (Suc n) s"
    proof (cases s)
      case (Cons c cs)
      have short: "2 * length (d # ds) + 2 \<le> n" if "skip_ws cs = d # ds" for d ds
        using skip_ws_Cons_le [OF that] len Cons by simp
      show ?thesis
      proof (cases "skip_ws cs")
        case (Cons d ds)
        then have "Suc (Suc (Suc (Suc (2 * length ds)))) \<le> n" using short by simp
        with \<open>s = c # cs\<close> Cons show ?thesis by (simp add: parse_value.simps(2) el me)
      qed (simp add: Cons parse_value.simps(2) del: dropWhile_eq_Nil_conv)
    qed (simp add: parse_value.simps(2))
  next
    assume len: "2 * length s + 2 \<le> Suc n"
    show "parse_elems (Suc (Suc n)) s = parse_elems (Suc n) s"
    proof (cases "parse_value n s")
      case (Some vr)
      obtain v r where vr: "vr = (v, r)" by (cases vr)
      have short: "2 * length (skip_ws ds) + 2 \<le> n" if "skip_ws r = d # ds" for d ds
        using skip_ws_Cons_le [OF that] skip_ws_le [of ds] parse_shorter(1) [of n s v r] Some vr len by simp
      show ?thesis using Some vr va [of s] len el [OF short]
        by (cases "skip_ws r") (simp_all add: parse_elems.simps(2) del: dropWhile_eq_Nil_conv)
    qed (use va [of s] len in \<open>simp add: parse_elems.simps(2)\<close>)
  next
    assume len: "2 * length s + 2 \<le> Suc n"
    show "parse_members (Suc (Suc n)) s = parse_members (Suc n) s"
    proof (cases "s \<noteq> [] \<and> hd s = DQ \<and> parse_str (tl s) \<noteq> None")
      case True
      then obtain cs k r where s: "s = DQ # cs" "parse_str cs = Some (k, r)" by (cases s) auto
      show ?thesis
      proof (cases "skip_ws r")
        case (Cons d ds)
        have lds: "length (skip_ws ds) < length cs"
          using skip_ws_le [of ds] skip_ws_Cons_le [OF Cons] parse_str_shorter [OF s(2)] by simp
        have pv: "parse_value (Suc n) (skip_ws ds) = parse_value n (skip_ws ds)"
          by (rule va) (use lds len s in simp)
        show ?thesis
        proof (cases "parse_value n (skip_ws ds)")
          case (Some vt)
          obtain v t where vt: "vt = (v, t)" by (cases vt)
          have short: "2 * length (skip_ws es) + 2 \<le> n" if "skip_ws t = e # es" for e es
            using skip_ws_Cons_le [OF that] skip_ws_le [of es] parse_shorter(1) [of n "skip_ws ds" v t]
              Some vt len lds s by simp
          show ?thesis using Some vt s Cons pv me [OF short]
            by (cases "skip_ws t") (simp_all add: parse_members.simps(2) del: dropWhile_eq_Nil_conv)
        qed (use s Cons pv in \<open>simp add: parse_members.simps(2)\<close>)
      qed (use s in \<open>simp add: parse_members.simps(2) del: dropWhile_eq_Nil_conv\<close>)
    next
      case False
      then show ?thesis
        by (cases s; cases "parse_str (tl s)") (auto simp: parse_members.simps(2))
    qed
  qed
qed simp

theorem parse_fuel_enough:
  assumes "2 * length s + 1 \<le> n" and "n \<le> m"
  shows "parse_value m s = parse_value n s"
  using assms(2,1) by (induction m rule: dec_induct) (auto simp: parse_fuel_step)

section \<open>Sorting keys, and the printing used for hashing\<close>

lemma map_fst_sort_key:
  fixes d :: "(string \<times> 'a) list"
  shows "map fst (sort_key fst d) = sort (map fst d)"
proof (induction d)
  case (Cons x d)
  have "map fst (insort_key fst x xs) = insort (fst x) (map fst xs)" for xs
    by (induction xs) auto
  with Cons show ?case by simp
qed simp

lemma map_snd_sort_key:
  fixes d :: "(string \<times> 'a) list" and f :: "string \<times> 'a \<Rightarrow> string \<times> 'b"
  assumes "\<And>p. fst (f p) = fst p"
  shows "map f (sort_key fst d) = sort_key fst (map f d)"
proof (induction d)
  case (Cons x d)
  have "map f (insort_key fst x xs) = insort_key fst (f x) (map f xs)" for xs
    by (induction xs) (auto simp: assms)
  with Cons show ?case by simp
qed simp

lemma norm_norm [simp]: "norm (norm j) = norm j"
proof (induction j)
  case (JObj d)
  let ?f = "\<lambda>p :: string \<times> json. (fst p, norm (snd p))"
  have eq: "(\<lambda>(k, v). (k, norm v)) = ?f" by (auto simp: fun_eq_iff)
  have "map ?f (sort_key fst (map ?f d)) = sort_key fst (map ?f (map ?f d))"
    by (rule map_snd_sort_key) simp
  also have "map ?f (map ?f d) = map ?f d"
    using JObj.IH by (auto simp: snds.simps)
  finally show ?case by (simp add: eq sort_key_id)
qed simp_all

lemma wf_json_norm [simp]: "wf_json (norm j) = wf_json j"
proof (induction j)
  case (JObj d)
  have "distinct (map fst (sort_key fst (map (\<lambda>(k, v). (k, norm v)) d))) = distinct (map fst d)"
    by (simp add: map_fst_sort_key comp_def case_prod_unfold)
  moreover have "list_all (\<lambda>(k, v). wf_json v) (sort_key fst (map (\<lambda>(k, v). (k, norm v)) d))
      = list_all (\<lambda>(k, v). wf_json v) d"
    using JObj.IH by (fastforce simp: list_all_iff snds.simps)
  ultimately show ?case by simp
qed (auto simp: list_all_iff)

lemma all_finite_norm [simp]: "all_finite (norm j) = all_finite j"
proof (induction j)
  case (JObj d)
  then show ?case by (fastforce simp: list_all_iff snds.simps)
qed (auto simp: list_all_iff)

theorem loads_dumps_raw [codec]: "wf_json j \<Longrightarrow> loads (dumps_raw st j) = Some j"
  using parse_dumps [of j "[]" st] skip_ws_dumps [of j st "[]"] by (simp add: loads_def)

theorem loads_dumps_sorted [codec]: "wf_json j \<Longrightarrow> loads (dumps_sorted st j) = Some (norm j)"
  by (simp add: dumps_sorted_def loads_dumps_raw)

lemma dumps_sorted_norm [simp]: "dumps_sorted st (norm j) = dumps_sorted st j"
  by (simp add: dumps_sorted_def)

theorem dumps_sorted_inj:
  "wf_json i \<Longrightarrow> wf_json j \<Longrightarrow> dumps_sorted st i = dumps_sorted st j \<longleftrightarrow> norm i = norm j"
  by (metis dumps_sorted_def loads_dumps_sorted option.inject)

section \<open>Objects delimit themselves\<close>

lemma parse_object:
  assumes wf: "wf_json (JObj d)" and n: "length (dumps_raw st (JObj d)) \<le> n"
  shows "parse_value n (dumps_raw st (JObj d) @ r) = Some (JObj d, r)"
proof (cases "d = []")
  case True
  obtain m where "n = Suc m" using n by (cases n) auto
  with True show ?thesis by (simp add: parse_value.simps DQ_def)
next
  case False
  obtain m where m: "n = Suc m" using n by (cases n) auto
  obtain y ys where d: "d = y # ys" using False by (cases d) auto
  let ?b = "join (isep st) (map (\<lambda>(k, v). quote (ascii st) k @ ksep st @ dumps_raw st v) d) @ CHR ''}'' # r"
  have hd: "?b \<noteq> []" "\<not> json_ws (hd ?b)" "hd ?b \<noteq> CHR ''}''"
    using d by (cases y; cases ys; simp add: join_Cons quote_def DQ_def json_ws_def char_defs)+
  have "parse_members m ?b = Some (d, r)"
    using wf n m False by (intro parse_members_dumps parse_dumps) (auto simp: list_all_iff)
  moreover have "parse_value n (dumps_raw st (JObj d) @ r) = map_option (\<lambda>(kvs, r). (JObj (dupdate [] kvs), r)) (parse_members m ?b)"
    using hd by (cases ?b) (auto simp: m parse_value.simps DQ_def)
  ultimately show ?thesis using wf by (simp add: dupdate_distinct)
qed

lemma object_prefix:
  assumes "wf_json (JObj d)" and "wf_json (JObj d')" and "dumps_raw st (JObj d) @ r = dumps_raw st (JObj d') @ r'"
  shows "d = d' \<and> r = r'"
proof -
  let ?n = "length (dumps_raw st (JObj d) @ r)"
  have "length (dumps_raw st (JObj d)) \<le> ?n" by (simp del: dumps_raw.simps)
  moreover have "length (dumps_raw st (JObj d')) \<le> ?n" unfolding assms(3) by (simp del: dumps_raw.simps)
  ultimately have "parse_value ?n (dumps_raw st (JObj d) @ r) = Some (JObj d, r)"
    "parse_value ?n (dumps_raw st (JObj d') @ r') = Some (JObj d', r')"
    by (simp_all only: parse_object [OF assms(1)] parse_object [OF assms(2)])
  then have "(JObj d, r) = (JObj d', r')" unfolding assms(3) by (metis option.inject)
  then show ?thesis by simp
qed

section \<open>Printed lines contain no line terminator\<close>

lemma clean_printable: "\<forall>d \<in> set s. 32 \<le> (of_char d :: nat) \<Longrightarrow> clean_line s"
  by (auto simp: clean_line_def char_defs)

lemma hex_digit_printable [simp]: "n < 16 \<Longrightarrow> 32 \<le> (of_char (hex_digit n) :: nat)"
  by (auto simp: hex_digit_def)

lemma clean_esc_char: "clean_line (esc_char asc c)"
proof (rule clean_printable)
  have "(of_char c :: nat) div 16 < 16" by (rule less_mult_imp_div_less) simp
  then show "\<forall>d \<in> set (esc_char asc c). 32 \<le> (of_char d :: nat)"
    by (auto simp: esc_char_def Let_def esc_u_def DQ_def BS_def)
qed

lemma clean_append [simp]: "clean_line (s @ t) = (clean_line s \<and> clean_line t)"
  by (auto simp: clean_line_def)

lemma clean_Nil [simp]: "clean_line []"
  by (simp add: clean_line_def)

lemma clean_quote: "clean_line (quote asc s)"
  using clean_esc_char [of asc]
  by (auto simp: quote_def clean_line_def char_defs)

lemma clean_join: "clean_line sep \<Longrightarrow> (\<And>x. x \<in> set xs \<Longrightarrow> clean_line x) \<Longrightarrow> clean_line (join sep xs)"
  by (induction sep xs rule: join.induct) auto

lemma clean_num: "list_all num_char s \<Longrightarrow> clean_line s"
  by (auto simp: clean_line_def num_char_def list_all_iff is_digit_def char_defs)

theorem clean_dumps: "wf_json j \<Longrightarrow> clean_line (dumps_raw st j)"
proof (induction j)
  case (JFloat s)
  then show ?case
    by (auto simp: float_lex_def Let_def nonfinite_def clean_num) (simp_all add: clean_line_def char_defs)
next
  case (JList xs)
  then have "clean_line (join (isep st) (map (dumps_raw st) xs))"
    by (intro clean_join) (auto simp: isep_def clean_line_def char_defs list_all_iff)
  then show ?case by (simp add: clean_line_def char_defs)
next
  case (JObj d)
  have "clean_line (join (isep st) (map (\<lambda>(k, v). quote (ascii st) k @ ksep st @ dumps_raw st v) d))"
  proof (rule clean_join)
    fix x assume "x \<in> set (map (\<lambda>(k, v). quote (ascii st) k @ ksep st @ dumps_raw st v) d)"
    then obtain k v where "(k, v) \<in> set d" "x = quote (ascii st) k @ ksep st @ dumps_raw st v" by auto
    moreover have "clean_line (ksep st)" by (simp add: ksep_def clean_line_def char_defs)
    ultimately show "clean_line x" using JObj clean_quote by (fastforce simp: list_all_iff snds.simps)
  qed (simp add: isep_def clean_line_def char_defs)
  then show ?case by (simp add: clean_line_def char_defs)
qed (simp_all add: clean_quote clean_num show_int_num_char, simp_all add: clean_line_def char_defs)
section \<open>The parser only builds well-formed values\<close>

lemma set_dput_subset: "set (dput k v d) \<subseteq> insert (k, v) (set d)"
  by (induction k v d rule: dput.induct) auto

lemma dupdate_props:
  "distinct (map fst d) \<Longrightarrow> distinct (map fst (dupdate d xs)) \<and> set (dupdate d xs) \<subseteq> set d \<union> set xs"
proof (induction xs arbitrary: d)
  case (Cons x xs)
  obtain k v where x: "x = (k, v)" by (cases x)
  with Cons.IH [OF distinct_dput [OF Cons.prems], of k v] set_dput_subset [of k v d] show ?case by auto
qed simp

lemma parse_word_wf: "parse_word s = Some (v, r) \<Longrightarrow> wf_json v"
  unfolding parse_word_def nonfinite_def by (auto simp: nonfinite_def split: if_split_asm)

lemma parse_num_wf: "parse_num s = Some (v, r) \<Longrightarrow> wf_json v"
  unfolding parse_num_def Let_def by (auto split: if_split_asm)

lemma parse_wf:
  "parse_value n s = Some (v, r) \<Longrightarrow> wf_json v"
  "parse_elems n s = Some (vs, r) \<Longrightarrow> list_all wf_json vs"
  "parse_members n s = Some (kvs, r) \<Longrightarrow> list_all (\<lambda>(k, v). wf_json v) kvs"
proof (induction n s and n s and n s arbitrary: v r and vs r and kvs r
    rule: parse_value_parse_elems_parse_members.induct)
  case (2 n s)
  then obtain c cs where s: "s = c # cs" by (cases s) (auto simp: parse_value.simps(2))
  consider "c = DQ" | "c = CHR ''[''" | "c = CHR ''{''" | "c \<notin> {DQ, CHR ''['', CHR ''{''}" by blast
  then show ?case
  proof cases
    case 1
    with 2 s show ?thesis by (auto simp: parse_value.simps(2))
  next
    case br: 2
    then obtain d ds where ds: "skip_ws cs = d # ds"
      using "2.prems" s by (cases "skip_ws cs") (auto simp: parse_value.simps(2) DQ_def simp del: dropWhile_eq_Nil_conv)
    show ?thesis
    proof (cases "d = CHR '']''")
      case True
      with "2.prems" s br ds show ?thesis by (auto simp: parse_value.simps(2) DQ_def)
    next
      case False
      then obtain xs where k: "parse_elems n (d # ds) = Some (xs, r)" and v: "v = JList xs"
        using "2.prems" s br ds by (auto simp: parse_value.simps(2) DQ_def)
      have "list_all wf_json xs"
        using "2.IH"(1) [OF s _ _ ds False k] br by (simp add: DQ_def)
      with v show ?thesis by simp
    qed
  next
    case 3
    then obtain d ds where ds: "skip_ws cs = d # ds"
      using "2.prems" s by (cases "skip_ws cs") (auto simp: parse_value.simps(2) DQ_def simp del: dropWhile_eq_Nil_conv)
    show ?thesis
    proof (cases "d = CHR ''}''")
      case True
      with "2.prems" s 3 ds show ?thesis by (auto simp: parse_value.simps(2) DQ_def)
    next
      case False
      then obtain kvs where k: "parse_members n (d # ds) = Some (kvs, r)" and v: "v = JObj (dupdate [] kvs)"
        using "2.prems" s 3 ds by (auto simp: parse_value.simps(2) DQ_def)
      have "list_all (\<lambda>(k, v). wf_json v) kvs"
        using "2.IH"(2) [OF s _ _ _ ds False k] 3 by (simp add: DQ_def)
      with v dupdate_props [of "[]" kvs] show ?thesis by (auto simp: list_all_iff)
    qed
  next
    case 4
    with "2.prems" s have "parse_word (c # cs) = Some (v, r) \<or> parse_num (c # cs) = Some (v, r)"
      by (simp add: parse_value.simps(2) split: option.split_asm if_split_asm)
    then show ?thesis using parse_word_wf parse_num_wf by blast
  qed
next
  case (4 n s)
  then obtain v1 r1 where v1: "parse_value n s = Some (v1, r1)"
    by (auto simp: parse_elems.simps(2) split: option.splits)
  have "wf_json v1" by (rule "4.IH"(1) [OF v1])
  with 4 v1 show ?case
    by (auto simp: parse_elems.simps(2) split: list.splits if_splits)
next
  case (6 n s)
  from "6.prems" obtain cs where s: "s = DQ # cs" by (auto simp: parse_members.simps(2) split: list.splits if_splits)
  from "6.prems" s obtain k r0 d ds where k: "parse_str cs = Some (k, r0)" and ds: "skip_ws r0 = d # ds"
    and d: "d = CHR '':''" by (auto simp: parse_members.simps(2) split: option.splits list.splits if_splits)
  from "6.prems" s k ds d obtain v t where v: "parse_value n (skip_ws ds) = Some (v, t)"
    by (auto simp: parse_members.simps(2) split: option.splits)
  have "wf_json v" using "6.IH"(1) [OF s _ k _ ds _ v] d by simp
  with 6 s k ds d v show ?case
    by (auto simp: parse_members.simps(2) split: list.splits if_splits)
qed simp_all

theorem loads_wf: "loads s = Some j \<Longrightarrow> wf_json j"
  by (auto simp: loads_def dest: parse_wf(1) split: option.splits if_splits)
end
