(* ===== verification/Segments.thy ===== *)
theory Segments
  imports Json
begin

text \<open>
  \<^verbatim>\<open>src/dsm/core/shard_segments.py\<close>: the segmented layout of a shard on disk. A family is
  a directory \<^verbatim>\<open>shards/<family>/\<close> with its JSONL segment files (name and text, in the
  order the directory lists them) and \<^verbatim>\<open>segment_meta.json\<close>. A JSON document that is
  written whole and replaced atomically is kept as the value that reading it gives, None
  when it does not parse; a JSONL file is kept as its text, because it is appended to.
  The theory proves the layout invariant: consecutive numbers, complete lines, bounded
  segments, metadata that counts the active segment.
\<close>

section \<open>State\<close>

record family =
  seg_files :: "(string \<times> string) list"
  seg_meta :: "json option option"

record fs =
  fams :: "(string \<times> family) list"
  mono_files :: "(string \<times> string) list"
  pins :: "(string \<times> json option) list"
  reports :: "(string \<times> json) list"
  quarantine :: "(string \<times> json option) list"

definition empty_family :: family where
  "empty_family = \<lparr>seg_files = [], seg_meta = None\<rparr>"

definition empty_fs :: fs where
  "empty_fs = \<lparr>fams = [], mono_files = [], pins = [], reports = [], quarantine = []\<rparr>"

definition MAX_EVENTS_PER_SEGMENT :: int where "MAX_EVENTS_PER_SEGMENT = 10000"
definition MAX_BYTES_PER_SEGMENT :: int where "MAX_BYTES_PER_SEGMENT = 10 * 1024 * 1024"

section \<open>Operations\<close>

definition family_name :: "string \<Rightarrow> string" where
  "family_name shard_id = py_replace ''shard_'' [] shard_id"

text \<open>The directory of a shard's family; it is created when it is missing.\<close>

definition get_shard_family_dir :: "string \<Rightarrow> fs \<Rightarrow> fs \<times> family" where
  "get_shard_family_dir shard_id s =
     (let nm = family_name shard_id in
      case dget nm (fams s) of
        Some f \<Rightarrow> (s, f)
      | None \<Rightarrow> (s\<lparr>fams := dput nm empty_family (fams s)\<rparr>, empty_family))"

definition put_family :: "string \<Rightarrow> family \<Rightarrow> fs \<Rightarrow> fs" where
  "put_family nm f s = s\<lparr>fams := dput nm f (fams s)\<rparr>"

definition JSONL :: string where "JSONL = ''.jsonl''"

definition stem :: "string \<Rightarrow> string" where
  "stem fname = take (length fname - 6) fname"

definition segment_number :: "string \<Rightarrow> string \<Rightarrow> int" where
  "segment_number nm fname =
     (let basename = stem fname in
      if startswith (nm @ ''_'') basename then
        (case py_int (last (split_at (CHR ''_'') basename)) of Some n \<Rightarrow> n | None \<Rightarrow> 9999)
      else 9999)"

definition get_segment_files :: "string \<Rightarrow> family \<Rightarrow> (string \<times> string) list" where
  "get_segment_files nm f =
     sort_key (\<lambda>(n, _). segment_number nm n) (filter (\<lambda>(n, _). endswith JSONL n) (seg_files f))"

text \<open>Reading \<^verbatim>\<open>segment_meta.json\<close>: every failure is None, and so is a JSON null.\<close>

definition read_segment_meta :: "family \<Rightarrow> json option" where
  "read_segment_meta f = (case seg_meta f of Some (Some j) \<Rightarrow> (if j = JNull then None else Some j) | _ \<Rightarrow> None)"

definition write_segment_meta_atomic :: "json \<Rightarrow> family \<Rightarrow> family" where
  "write_segment_meta_atomic data f = f\<lparr>seg_meta := Some (Some data)\<rparr>"

definition segment_meta_obj :: "json \<Rightarrow> json \<Rightarrow> json \<Rightarrow> json" where
  "segment_meta_obj active events bytes =
     JObj [(''active_segment'', active), (''event_count'', events), (''size_bytes'', bytes)]"

text \<open>The numbers Python compares and adds; the other types raise TypeError.\<close>

definition as_num :: "json \<Rightarrow> int res" where
  "as_num j = (case j of JInt i \<Rightarrow> Inr i | JBool b \<Rightarrow> Inr (if b then 1 else 0) | _ \<Rightarrow> Inl TypeError)"

definition fmt04_int :: "int \<Rightarrow> string" where
  "fmt04_int i =
     (if 0 \<le> i then fmt04 (nat i)
      else let d = show_nat (nat (- i)) in CHR ''-'' # replicate (3 - length d) (CHR ''0'') @ d)"

definition segname_int :: "string \<Rightarrow> int \<Rightarrow> string" where
  "segname_int nm i = nm @ ''_'' @ fmt04_int i @ JSONL"

definition get_segment_number :: "string \<Rightarrow> int" where
  "get_segment_number filename =
     (let basename = py_replace JSONL [] filename in
      if CHR ''_'' \<in> set basename then
        (case py_int (last (split_at (CHR ''_'') basename)) of Some n \<Rightarrow> n | None \<Rightarrow> 9999)
      else 9999)"

text \<open>The scan for the active segment when there is no usable metadata.\<close>

definition active_by_scan :: "string \<Rightarrow> family \<Rightarrow> family \<times> string" where
  "active_by_scan nm f =
     (case get_segment_files nm f of
        [] \<Rightarrow>
          (let first_name = nm @ ''_0001'' @ JSONL
           in (write_segment_meta_atomic (segment_meta_obj (JStr first_name) (JInt 0) (JInt 0)) f, first_name))
      | segs \<Rightarrow>
          (let (last_name, txt) = last segs;
               events = length (filter (\<lambda>l. strip l \<noteq> []) (read_lines txt))
           in (write_segment_meta_atomic
                 (segment_meta_obj (JStr last_name) (JInt (int events)) (JInt (int (utf8_len txt)))) f,
               last_name)))"

definition get_active_segment_path :: "string \<Rightarrow> family \<Rightarrow> (family \<times> string) res" where
  "get_active_segment_path nm f =
     (case read_segment_meta f of
        None \<Rightarrow> Inr (active_by_scan nm f)
      | Some meta \<Rightarrow>
          rbind (jget ''active_segment'' JNull meta) (\<lambda>active.
          rbind (jget ''event_count'' (JInt 0) meta) (\<lambda>ec.
          rbind (jget ''size_bytes'' (JInt 0) meta) (\<lambda>sb.
            (case active of
               JStr active_name \<Rightarrow>
                 (if active_name = [] then Inr (active_by_scan nm f)
                  else
                    rbind (as_num ec) (\<lambda>event_count.
                    rbind (if MAX_EVENTS_PER_SEGMENT \<le> event_count then Inr True
                           else rbind (as_num sb) (\<lambda>size_bytes. Inr (MAX_BYTES_PER_SEGMENT \<le> size_bytes)))
                      (\<lambda>limit_reached.
                        if limit_reached then
                          (let next_name = segname_int nm (get_segment_number active_name + 1)
                           in Inr (write_segment_meta_atomic
                                     (segment_meta_obj (JStr next_name) (JInt 0) (JInt 0)) f, next_name))
                        else Inr (f, active_name))))
             | _ \<Rightarrow> Inr (active_by_scan nm f))))))"

definition get_active_segment :: "string \<Rightarrow> fs \<Rightarrow> fs \<times> string res" where
  "get_active_segment shard_id s =
     (let (s1, f) = get_shard_family_dir shard_id s; nm = family_name shard_id in
      case get_active_segment_path nm f of
        Inl e \<Rightarrow> (s1, Inl e)
      | Inr (f', name) \<Rightarrow> (put_family nm f' s1, Inr name))"

definition get_segment_files_ordered :: "string \<Rightarrow> bool \<Rightarrow> fs \<Rightarrow> fs \<times> (string \<times> string) list" where
  "get_segment_files_ordered shard_id reverse s =
     (let (s1, f) = get_shard_family_dir shard_id s;
          segs = get_segment_files (family_name shard_id) f
      in (s1, if reverse then rev segs else segs))"

definition update_active_segment_metadata :: "string \<Rightarrow> int \<Rightarrow> int \<Rightarrow> fs \<Rightarrow> fs \<times> unit res" where
  "update_active_segment_metadata shard_id delta_events delta_bytes s =
     (let (s1, f) = get_shard_family_dir shard_id s in
      case read_segment_meta f of
        None \<Rightarrow> (s1, Inr ())
      | Some meta \<Rightarrow>
          (case rbind (jget ''event_count'' (JInt 0) meta) (\<lambda>ec.
                rbind (as_num ec) (\<lambda>e.
                rbind (jget ''size_bytes'' (JInt 0) meta) (\<lambda>sb.
                rbind (as_num sb) (\<lambda>b.
                rbind (jget ''active_segment'' (JStr []) meta) (\<lambda>a.
                  Inr (segment_meta_obj a (JInt (e + delta_events)) (JInt (b + delta_bytes)))))))) of
             Inl e \<Rightarrow> (s1, Inl e)
           | Inr data \<Rightarrow> (put_family (family_name shard_id) (write_segment_meta_atomic data f) s1, Inr ())))"

text \<open>Opening a segment in append mode creates it; writing extends it.\<close>

definition append_text :: "string \<Rightarrow> string \<Rightarrow> family \<Rightarrow> family" where
  "append_text name txt f =
     f\<lparr>seg_files := dput name ((case dget name (seg_files f) of None \<Rightarrow> [] | Some t \<Rightarrow> t) @ txt) (seg_files f)\<rparr>"

text \<open>One line as the readers see it: None for blank and malformed lines.\<close>

definition event_of_line :: "string \<Rightarrow> json option" where
  "event_of_line l = (if strip l = [] then None else loads (strip l))"

definition events_of_lines :: "string list \<Rightarrow> json list" where
  "events_of_lines ls = List.map_filter event_of_line ls"

definition iter_shard_events :: "string \<Rightarrow> fs \<Rightarrow> fs \<times> json list" where
  "iter_shard_events shard_id s =
     (let (s1, f) = get_shard_family_dir shard_id s
      in (s1, concat (map (\<lambda>(n, txt). events_of_lines (read_lines txt))
                        (get_segment_files (family_name shard_id) f))))"

definition iter_shard_events_reverse :: "string \<Rightarrow> fs \<Rightarrow> fs \<times> json list" where
  "iter_shard_events_reverse shard_id s =
     (let (s1, f) = get_shard_family_dir shard_id s
      in (s1, concat (map (\<lambda>(n, txt). events_of_lines (rev (read_lines txt)))
                        (rev (get_segment_files (family_name shard_id) f)))))"

section \<open>Segment names\<close>

definition segname :: "string \<Rightarrow> nat \<Rightarrow> string" where
  "segname nm n = nm @ ''_'' @ fmt04 n @ JSONL"

lemma segname_int_nat [simp]: "segname_int nm (int n) = segname nm n"
  by (simp add: segname_int_def segname_def fmt04_int_def)

lemma segname_int_Suc [simp]: "segname_int nm (int n + 1) = segname nm (Suc n)"
  using segname_int_nat [of nm "Suc n"] by (simp add: algebra_simps)

lemma stem_segname: "stem (segname nm n) = nm @ ''_'' @ fmt04 n"
  by (simp add: stem_def segname_def JSONL_def)

lemma underscore_not_digit: "CHR ''_'' \<notin> set (fmt04 n)"
  using fmt04_digits [of n] digit_not_sign by blast

lemma segment_number_segname [simp]: "segment_number nm (segname nm n) = int n"
  by (simp add: segment_number_def stem_segname startswith_prefix last_split_at underscore_not_digit)

lemma py_replace_unfold:
  "py_replace old new (c # cs) =
     (if old \<noteq> [] \<and> startswith old (c # cs) then new @ py_replace old new (drop (length old) (c # cs))
      else c # py_replace old new cs)"
  by (subst py_replace.simps) simp

lemma py_replace_split:
  assumes "u \<notin> set old"
  shows "py_replace old new (x @ u # y) = py_replace old new x @ u # py_replace old new y"
proof (induction "length x" arbitrary: x rule: less_induct)
  case less
  have pre: "startswith old (x @ u # y) \<longleftrightarrow> startswith old x"
    using assms by (auto simp: startswith_prefix prefix_append prefix_Cons)
  show ?case
  proof (cases x)
    case Nil
    then show ?thesis
      using pre by (auto simp: py_replace_unfold [of old new u y] startswith_prefix)
  next
    case (Cons c cs)
    show ?thesis
    proof (cases "old \<noteq> [] \<and> startswith old x")
      case True
      then have "length old \<le> length x" by (auto simp: startswith_prefix prefix_length_le)
      then have "drop (length old) (x @ u # y) = drop (length old) x @ u # y" by simp
      moreover have "length (drop (length old) x) < length x" using True Cons by simp
      ultimately show ?thesis
        using True pre less Cons py_replace_unfold [of old new c cs] py_replace_unfold [of old new c "cs @ u # y"]
        by simp
    next
      case False
      then show ?thesis
        using pre less Cons py_replace_unfold [of old new c cs] py_replace_unfold [of old new c "cs @ u # y"]
        by auto
    qed
  qed
qed

lemma py_replace_suffix:
  assumes "old = p # ps" and "p \<notin> set s"
  shows "py_replace old [] (s @ old) = s"
  using assms(2)
proof (induction s)
  case Nil
  have "startswith old (p # ps)" using assms(1) by (simp add: startswith_prefix)
  then show ?case using assms(1) py_replace_unfold [of old "[]" p ps] by simp
next
  case (Cons c cs)
  then have "\<not> startswith old (c # cs @ old)" using assms(1) by auto
  with Cons show ?case using py_replace_unfold [of old "[]" c "cs @ old"] by simp
qed

lemma dot_not_digit: "CHR ''.'' \<notin> set (fmt04 n)"
  using fmt04_digits [of n] by (auto simp: is_digit_def)

lemma get_segment_number_segname [simp]: "get_segment_number (segname nm n) = int n"
proof -
  have "py_replace JSONL [] (nm @ CHR ''_'' # (fmt04 n @ JSONL))
      = py_replace JSONL [] nm @ CHR ''_'' # py_replace JSONL [] (fmt04 n @ JSONL)"
    by (rule py_replace_split) (simp add: JSONL_def)
  also have "py_replace JSONL [] (fmt04 n @ JSONL) = fmt04 n"
    by (rule py_replace_suffix [of _ "CHR ''.''" "''jsonl''"]) (simp_all add: JSONL_def dot_not_digit)
  finally show ?thesis
    by (simp add: get_segment_number_def segname_def last_split_at underscore_not_digit)
qed

lemma segname_inj [simp]: "segname nm m = segname nm n \<longleftrightarrow> m = n"
  by (metis get_segment_number_segname of_nat_eq_iff)

lemma segname_not_Nil [simp]: "segname nm n \<noteq> []"
  by (simp add: segname_def)

lemma segname_first: "nm @ ''_0001'' @ JSONL = segname nm 1"
proof -
  have "digit_char 1 = CHR ''1''" by (rule of_char_is) (simp add: of_char_digit_char)
  then have "show_nat 1 = ''1''" by (simp add: show_nat.simps)
  then show ?thesis by (simp add: segname_def fmt04_def numeral_3_eq_3)
qed

section \<open>The layout invariant\<close>

fun enum_segs :: "string \<Rightarrow> nat \<Rightarrow> string list list \<Rightarrow> (string \<times> string) list" where
  "enum_segs nm n [] = []"
| "enum_segs nm n (ls # lss) = (segname nm n, unlines ls) # enum_segs nm (Suc n) lss"

text \<open>A segment that the next append does not extend.\<close>

definition full_segment :: "string list \<Rightarrow> bool" where
  "full_segment ls =
     (MAX_EVENTS_PER_SEGMENT \<le> int (length ls) \<or> MAX_BYTES_PER_SEGMENT \<le> int (utf8_len (unlines ls)))"

definition segment_meta_of :: "string \<Rightarrow> string list list \<Rightarrow> json" where
  "segment_meta_of nm lss =
     segment_meta_obj (JStr (segname nm (length lss))) (JInt (int (length (last lss))))
       (JInt (int (utf8_len (unlines (last lss)))))"

definition seg_inv :: "string \<Rightarrow> family \<Rightarrow> string list list \<Rightarrow> bool" where
  "seg_inv nm f lss =
     (seg_files f = enum_segs nm 1 lss \<and>
      seg_meta f = (if lss = [] then None else Some (Some (segment_meta_of nm lss))) \<and>
      (\<forall>ls \<in> set lss. ls \<noteq> [] \<and> (\<forall>l \<in> set ls. clean_line l) \<and> int (length ls) \<le> MAX_EVENTS_PER_SEGMENT))"

definition add_line :: "string list list \<Rightarrow> string \<Rightarrow> string list list" where
  "add_line lss l =
     (if lss = [] \<or> full_segment (last lss) then lss @ [[l]]
      else butlast lss @ [last lss @ [l]])"

lemma concat_add_line [simp]: "concat (add_line lss l) = concat lss @ [l]"
proof (cases "lss = []")
  case False
  then have "concat lss = concat (butlast lss) @ last lss"
    by (metis append_butlast_last_id concat.simps concat_append append_Nil2)
  then show ?thesis by (simp add: add_line_def)
qed (simp add: add_line_def)

lemma enum_segs_append:
  "enum_segs nm n (xs @ ys) = enum_segs nm n xs @ enum_segs nm (n + length xs) ys"
  by (induction xs arbitrary: n) auto

lemma enum_segs_fresh: "n + length xs \<le> m \<Longrightarrow> segname nm m \<notin> fst ` set (enum_segs nm n xs)"
  by (induction xs arbitrary: n) auto

lemma enum_segs_numbers:
  "map (\<lambda>(k, _). segment_number nm k) (enum_segs nm n xs) = map int [n..<n + length xs]"
  by (induction xs arbitrary: n) (auto simp: upt_conv_Cons simp del: upt_Suc)

lemma endswith_segname [simp]: "endswith JSONL (segname nm n)"
  by (metis append_assoc endswith_append segname_def)

lemma enum_segs_jsonl: "filter (\<lambda>(k, _). endswith JSONL k) (enum_segs nm n xs) = enum_segs nm n xs"
  by (induction xs arbitrary: n) auto

lemma get_segment_files_enum:
  "seg_files f = enum_segs nm 1 lss \<Longrightarrow> get_segment_files nm f = enum_segs nm 1 lss"
proof -
  have "sorted (map (\<lambda>(k, _). segment_number nm k) (enum_segs nm 1 lss))"
    unfolding enum_segs_numbers by (simp add: sorted_map del: upt_Suc)
  then have "sort_key (\<lambda>(k, _). segment_number nm k) (enum_segs nm 1 lss) = enum_segs nm 1 lss"
    by (rule sort_key_id)
  then show "seg_files f = enum_segs nm 1 lss \<Longrightarrow> ?thesis"
    by (simp only: get_segment_files_def enum_segs_jsonl)
qed

lemma enum_segs_texts: "map (\<lambda>(n, txt). g txt) (enum_segs nm n xs) = map (\<lambda>ls. g (unlines ls)) xs"
  by (induction xs arbitrary: n) auto

section \<open>One append keeps the layout\<close>

lemma seg_inv_empty [simp]: "seg_inv nm empty_family []"
  by (simp add: seg_inv_def empty_family_def)

lemma read_meta_inv:
  "seg_inv nm f lss \<Longrightarrow>
   read_segment_meta f = (if lss = [] then None else Some (segment_meta_of nm lss))"
  by (simp add: seg_inv_def read_segment_meta_def segment_meta_of_def segment_meta_obj_def)

lemma meta_gets [simp]:
  "jget ''active_segment'' d (segment_meta_obj a e b) = Inr a"
  "jget ''event_count'' d (segment_meta_obj a e b) = Inr e"
  "jget ''size_bytes'' d (segment_meta_obj a e b) = Inr b"
  by (simp_all add: segment_meta_obj_def)

lemma as_num_JInt [simp]: "as_num (JInt i) = Inr i"
  by (simp add: as_num_def)

text \<open>The active segment of a family that satisfies the invariant.\<close>

lemma active_empty:
  assumes "seg_inv nm f []"
  shows "get_active_segment_path nm f =
     Inr (write_segment_meta_atomic (segment_meta_obj (JStr (segname nm 1)) (JInt 0) (JInt 0)) f, segname nm 1)"
proof -
  have "get_segment_files nm f = []"
    using get_segment_files_enum [of f nm "[]"] assms by (simp add: seg_inv_def)
  then have "active_by_scan nm f =
    (write_segment_meta_atomic (segment_meta_obj (JStr (segname nm 1)) (JInt 0) (JInt 0)) f, segname nm 1)"
    unfolding active_by_scan_def segname_first by (simp add: Let_def)
  with read_meta_inv [OF assms] show ?thesis by (simp add: get_active_segment_path_def)
qed

lemma active_nonempty:
  assumes "seg_inv nm f lss" and "lss \<noteq> []"
  shows "get_active_segment_path nm f =
     (if full_segment (last lss)
      then Inr (write_segment_meta_atomic
            (segment_meta_obj (JStr (segname nm (Suc (length lss)))) (JInt 0) (JInt 0)) f,
          segname nm (Suc (length lss)))
      else Inr (f, segname nm (length lss)))"
proof -
  have "read_segment_meta f = Some (segment_meta_of nm lss)"
    using read_meta_inv [OF assms(1)] assms(2) by simp
  then show ?thesis
    by (simp add: get_active_segment_path_def segment_meta_of_def full_segment_def Let_def)
qed

lemma append_text_new:
  assumes "seg_files f = enum_segs nm 1 lss"
  shows "seg_files (append_text (segname nm (Suc (length lss))) (l @ [NL]) f) = enum_segs nm 1 (lss @ [[l]])"
proof -
  have "segname nm (Suc (length lss)) \<notin> fst ` set (enum_segs nm 1 lss)"
    by (rule enum_segs_fresh) simp
  then show ?thesis
    using assms
    by (simp add: append_text_def dput_new enum_segs_append unlines_single map_of_eq_None_iff [THEN iffD2])
qed

lemma append_text_open:
  assumes "seg_files f = enum_segs nm 1 (xs @ [ls])"
  shows "seg_files (append_text (segname nm (Suc (length xs))) (l @ [NL]) f) = enum_segs nm 1 (xs @ [ls @ [l]])"
proof -
  have fresh: "segname nm (Suc (length xs)) \<notin> fst ` set (enum_segs nm 1 xs)"
    by (rule enum_segs_fresh) simp
  then have "map_of (enum_segs nm 1 (xs @ [ls])) (segname nm (Suc (length xs))) = Some (unlines ls)"
    by (simp add: enum_segs_append map_add_Some_iff map_of_eq_None_iff [THEN iffD2])
  with fresh assms show ?thesis
    by (simp add: append_text_def enum_segs_append dput_append unlines_single)
qed

lemma seg_inv_add_line:
  assumes inv: "seg_inv nm f lss" and l: "clean_line l"
  obtains f1 name e b where "get_active_segment_path nm f = Inr (f1, name)"
    and "read_segment_meta f1 = Some (segment_meta_obj (JStr name) (JInt e) (JInt b))"
    and "seg_files f1 = seg_files f"
    and "seg_inv nm (write_segment_meta_atomic
           (segment_meta_obj (JStr name) (JInt (e + 1)) (JInt (b + int (utf8_len (l @ [NL])))))
           (append_text name (l @ [NL]) f1)) (add_line lss l)"
proof (cases "lss = [] \<or> full_segment (last lss)")
  case True
  let ?name = "segname nm (Suc (length lss))"
  let ?f1 = "write_segment_meta_atomic (segment_meta_obj (JStr ?name) (JInt 0) (JInt 0)) f"
  have "get_active_segment_path nm f = Inr (?f1, ?name)"
    using True inv active_empty [of nm f] active_nonempty [of nm f lss] by (cases "lss = []") auto
  moreover have "read_segment_meta ?f1 = Some (segment_meta_obj (JStr ?name) (JInt 0) (JInt 0))"
    by (simp add: read_segment_meta_def write_segment_meta_atomic_def segment_meta_obj_def)
  moreover have "seg_files (append_text ?name (l @ [NL]) ?f1) = enum_segs nm 1 (lss @ [[l]])"
    by (rule append_text_new) (use inv in \<open>simp add: seg_inv_def write_segment_meta_atomic_def\<close>)
  ultimately show ?thesis
    using inv l True
    by (intro that [of ?f1 ?name 0 0])
       (auto simp: seg_inv_def add_line_def write_segment_meta_atomic_def segment_meta_of_def unlines_single
         MAX_EVENTS_PER_SEGMENT_def)
next
  case False
  then obtain xs ls where lss: "lss = xs @ [ls]" by (metis rev_exhaust)
  let ?name = "segname nm (Suc (length xs))"
  have "get_active_segment_path nm f = Inr (f, ?name)"
    using False inv active_nonempty [of nm f lss] lss by simp
  moreover have "read_segment_meta f = Some (segment_meta_obj (JStr ?name)
      (JInt (int (length ls))) (JInt (int (utf8_len (unlines ls)))))"
    using inv lss by (simp add: read_meta_inv segment_meta_of_def)
  moreover have "seg_files (append_text ?name (l @ [NL]) f) = enum_segs nm 1 (xs @ [ls @ [l]])"
    by (rule append_text_open) (use inv lss in \<open>simp add: seg_inv_def\<close>)
  moreover have "int (length ls) + 1 \<le> MAX_EVENTS_PER_SEGMENT"
    using False lss by (simp add: full_segment_def)
  ultimately show ?thesis
    using inv l lss False
    by (intro that [of f ?name "int (length ls)" "int (utf8_len (unlines ls))"])
       (auto simp: seg_inv_def add_line_def write_segment_meta_atomic_def segment_meta_of_def unlines_single
         algebra_simps)
qed

lemma events_of_lines_append [simp]: "events_of_lines (xs @ ys) = events_of_lines xs @ events_of_lines ys"
  by (simp add: events_of_lines_def List.map_filter_def)

lemma events_of_lines_concat: "concat (map events_of_lines xss) = events_of_lines (concat xss)"
  by (induction xss) (auto simp: events_of_lines_def List.map_filter_def)

text \<open>The events a reader of the family sees are those of its lines, in order.\<close>

lemma family_events:
  assumes "seg_inv nm f lss"
  shows "concat (map (\<lambda>(n, txt). events_of_lines (read_lines txt)) (get_segment_files nm f))
    = events_of_lines (concat lss)"
proof -
  have "map (\<lambda>(n, txt). events_of_lines (read_lines txt)) (get_segment_files nm f)
      = map (\<lambda>ls. events_of_lines (read_lines (unlines ls))) lss"
    using assms by (simp add: get_segment_files_enum seg_inv_def enum_segs_texts)
  also have "\<dots> = map events_of_lines lss"
    using assms by (simp add: seg_inv_def)
  finally show ?thesis by (simp add: events_of_lines_concat)
qed

end
