(* ===== verification/Hashing.thy ===== *)
theory Hashing
  imports Json
begin

text \<open>
  The package \<^verbatim>\<open>dsm_primitives\<close>: canonical JSON and the versioned content hash
  (\<^verbatim>\<open>packages/dsm-primitives/src/dsm_primitives/canonical.py\<close>, \<^verbatim>\<open>hashing.py\<close>).
  SHA-256 is a parameter \<open>sha\<close> of every definition: it maps a message to the hexadecimal
  digest. Nothing is assumed of it here; theorems that need collision resistance say so,
  as injectivity on the finite set of messages they compare.
\<close>

type_synonym sha = "string \<Rightarrow> string"

definition canonical_json :: "json \<Rightarrow> string res" where
  "canonical_json data =
     (if all_finite data then Inr (dumps_sorted compact_ascii data)
      else Inl (ValueError ''Out of range float values are not JSON compliant''))"

definition V1_PREFIX :: string where "V1_PREFIX = ''v1:''"

definition hash_v0 :: "sha \<Rightarrow> json \<Rightarrow> string res" where
  "hash_v0 sha data = rbind (canonical_json data) (\<lambda>b. Inr (sha b))"

definition hash_v1 :: "sha \<Rightarrow> json \<Rightarrow> string res" where
  "hash_v1 sha data = rbind (canonical_json data) (\<lambda>b. Inr (V1_PREFIX @ sha b))"

definition hash_canonical :: "sha \<Rightarrow> json \<Rightarrow> string res" where
  "hash_canonical sha data = hash_v1 sha data"

text \<open>The stored hash is any decoded JSON value; only strings can match.\<close>

definition verify_hash :: "sha \<Rightarrow> json \<Rightarrow> json \<Rightarrow> bool res" where
  "verify_hash sha data stored =
     (case stored of
        JStr s \<Rightarrow>
          (if startswith V1_PREFIX s then rbind (hash_v1 sha data) (\<lambda>h. Inr (h = s))
           else if CHR '':'' \<notin> set s then rbind (hash_v0 sha data) (\<lambda>h. Inr (h = s))
           else Inr False)
      | _ \<Rightarrow> Inr False)"

lemma canonical_json_Inr:
  "canonical_json j = Inr b \<longleftrightarrow> all_finite j \<and> b = dumps_sorted compact_ascii j"
  by (auto simp: canonical_json_def)

lemma canonical_json_norm [simp]: "canonical_json (norm j) = canonical_json j"
  by (simp add: canonical_json_def)

lemma verify_hash_norm [simp]: "verify_hash sha (norm j) h = verify_hash sha j h"
  by (simp add: verify_hash_def hash_v0_def hash_v1_def split: json.splits)

lemma startswith_V1 [simp]: "startswith V1_PREFIX (V1_PREFIX @ s)"
  by (simp add: startswith_prefix)

lemma hash_canonical_Inr:
  "hash_canonical sha j = Inr h \<longleftrightarrow> all_finite j \<and> h = V1_PREFIX @ sha (dumps_sorted compact_ascii j)"
  by (auto simp: hash_canonical_def hash_v1_def canonical_json_def)

lemma verify_hash_canonical: "hash_canonical sha j = Inr h \<Longrightarrow> verify_hash sha j (JStr h) = Inr True"
  by (auto simp: hash_canonical_def verify_hash_def hash_v1_def)

text \<open>A verified hash binds the value it was computed over, up to the order of keys.\<close>

lemma verify_hash_sha:
  assumes "verify_hash sha j h = Inr True"
  obtains s where "h = JStr s" and "all_finite j"
    and "s = V1_PREFIX @ sha (dumps_sorted compact_ascii j) \<or>
         (\<not> startswith V1_PREFIX s \<and> s = sha (dumps_sorted compact_ascii j))"
proof (cases h)
  case (JStr s)
  with assms that show ?thesis
    by (auto simp: verify_hash_def hash_v0_def hash_v1_def canonical_json_def split: if_splits)
qed (use assms in \<open>auto simp: verify_hash_def\<close>)

lemma verify_hash_binds:
  assumes "verify_hash sha i h = Inr True" and "verify_hash sha j h = Inr True"
    and "wf_json i" and "wf_json j"
    and inj: "inj_on sha {dumps_sorted compact_ascii i, dumps_sorted compact_ascii j}"
  shows "norm i = norm j"
proof -
  have "sha (dumps_sorted compact_ascii i) = sha (dumps_sorted compact_ascii j)"
    using verify_hash_sha [OF assms(1)] verify_hash_sha [OF assms(2)]
    by (metis json.inject(4) same_append_eq startswith_V1)
  then have "dumps_sorted compact_ascii i = dumps_sorted compact_ascii j"
    using inj by (simp add: inj_on_eq_iff)
  with assms show ?thesis by (simp add: dumps_sorted_inj)
qed

end
