(* ===== verification/Hash_Chain.thy ===== *)
theory Hash_Chain
  imports Prelude
begin

text \<open>
  The two interfaces the storage kernel offers to everything above it, as locales.
  \<open>append_log\<close> is an append-only log: its only writing operation extends the sequence of
  records an observer reads. \<open>hash_chain\<close> is a sequence of records each of which carries
  a digest of its core and names the digest of its predecessor. The theories of the
  kernel interpret both on the model's own definitions.
\<close>

section \<open>Append-only logs\<close>

locale append_log =
  fixes inv :: "'s \<Rightarrow> bool"
    and log :: "'s \<Rightarrow> 'r list"
    and accept :: "'a \<Rightarrow> bool"
    and wr :: "'a \<Rightarrow> 's \<Rightarrow> 's"
    and made :: "'s \<Rightarrow> 'a \<Rightarrow> 'r"
  assumes wr_inv: "inv s \<Longrightarrow> accept a \<Longrightarrow> inv (wr a s)"
    and wr_log: "inv s \<Longrightarrow> accept a \<Longrightarrow> log (wr a s) = log s @ [made s a]"
begin

lemma writes_inv: "inv s \<Longrightarrow> \<forall>a \<in> set xs. accept a \<Longrightarrow> inv (fold wr xs s)"
  by (induction xs arbitrary: s) (auto intro: wr_inv)

lemma writes_prefix:
  "inv s \<Longrightarrow> \<forall>a \<in> set xs. accept a \<Longrightarrow> prefix (log s) (log (fold wr xs s))"
proof (induction xs arbitrary: s)
  case (Cons a xs)
  then have "prefix (log s) (log (wr a s))" by (simp add: wr_log)
  also have "prefix (log (wr a s)) (log (fold wr xs (wr a s)))"
    using Cons wr_inv by simp
  finally show ?case by simp
qed simp

lemma writes_length:
  "inv s \<Longrightarrow> \<forall>a \<in> set xs. accept a \<Longrightarrow> length (log (fold wr xs s)) = length (log s) + length xs"
  by (induction xs arbitrary: s) (auto simp: wr_log wr_inv)

end

section \<open>Hash chains\<close>

text \<open>Every record names the digest of the record before it.\<close>

fun linked :: "('e \<Rightarrow> 'h) \<Rightarrow> ('e \<Rightarrow> 'h) \<Rightarrow> 'e list \<Rightarrow> bool" where
  "linked prev dig (a # b # xs) = (prev b = dig a \<and> linked prev dig (b # xs))"
| "linked prev dig _ = True"

lemma linked_snoc: "linked prev dig (xs @ [a, b]) \<longleftrightarrow> linked prev dig (xs @ [a]) \<and> prev b = dig a"
proof (induction xs)
  case (Cons x xs)
  then show ?case by (cases xs) auto
qed simp

lemma linked_append: "linked prev dig (xs @ ys) \<Longrightarrow> linked prev dig xs \<and> linked prev dig ys"
proof (induction xs)
  case (Cons x xs)
  then show ?case by (cases xs; cases ys) auto
qed simp

locale hash_chain =
  fixes prev :: "'e \<Rightarrow> 'h"
    and dig :: "'e \<Rightarrow> 'h"
    and core :: "'e \<Rightarrow> 'c"
    and ok :: "'e \<Rightarrow> bool"
  assumes binding: "ok a \<Longrightarrow> ok b \<Longrightarrow> dig a = dig b \<Longrightarrow> core a = core b"
    and prev_in_core: "core a = core b \<Longrightarrow> prev a = prev b"
begin

text \<open>Two chains of one length with the same tip digest have the same cores.\<close>

lemma same_tip_same_chain:
  assumes "length xs = length ys" and "xs \<noteq> []"
    and "linked prev dig xs" and "linked prev dig ys"
    and "\<forall>e \<in> set xs \<union> set ys. ok e"
    and "dig (last xs) = dig (last ys)"
  shows "map core xs = map core ys"
  using assms
proof (induction xs arbitrary: ys rule: rev_induct)
  case (snoc x xs)
  then obtain y zs where ys: "ys = zs @ [y]" by (metis append_butlast_last_id length_0_conv snoc_eq_iff_butlast)
  have xy: "core x = core y" using snoc.prems ys by (auto intro: binding)
  show ?case
  proof (cases "xs = []")
    case True
    with snoc.prems ys xy show ?thesis by simp
  next
    case False
    then obtain us u where xs: "xs = us @ [u]" by (metis rev_exhaust)
    from False snoc.prems(1) ys obtain vs v where zs: "zs = vs @ [v]" by (metis length_append_singleton length_0_conv nat.inject rev_exhaust)
    have "prev x = dig u" "linked prev dig xs" using snoc.prems(3) xs linked_snoc [of prev dig us u x] by auto
    moreover have "prev y = dig v" "linked prev dig zs" using snoc.prems(4) ys zs linked_snoc [of prev dig vs v y] by auto
    moreover have "prev x = prev y" using xy by (rule prev_in_core)
    ultimately have "map core xs = map core zs"
      using snoc.IH [of zs] snoc.prems ys xs zs by auto
    with xy ys show ?thesis by simp
  qed
qed simp

text \<open>Two chains with the same tip agree on their common length, counted from the tip.\<close>

lemma same_tip_common_suffix:
  assumes "length xs \<le> length ys" and "xs \<noteq> []"
    and "linked prev dig xs" and "linked prev dig ys"
    and "\<forall>e \<in> set xs \<union> set ys. ok e"
    and "dig (last xs) = dig (last ys)"
  shows "map core xs = map core (drop (length ys - length xs) ys)"
proof (rule same_tip_same_chain)
  let ?zs = "drop (length ys - length xs) ys"
  show "linked prev dig ?zs" using linked_append [of prev dig "take (length ys - length xs) ys" ?zs] assms(4) by simp
  show "\<forall>e \<in> set xs \<union> set ?zs. ok e" using assms(5) by (auto dest: in_set_dropD)
  have "length ys - length xs < length ys" using assms(1,2) by (cases xs; cases ys) auto
  then show "dig (last xs) = dig (last ?zs)" using assms(6) by (simp add: last_drop)
qed (use assms in auto)

end

end
