(* ===== verification/Datetime.thy ===== *)
theory Datetime
  imports Prelude
begin

text \<open>
  The values of \<^verbatim>\<open>datetime.datetime\<close> the sources keep in entries: calendar fields and
  an optional UTC offset in minutes, with \<^verbatim>\<open>isoformat()\<close>, \<^verbatim>\<open>datetime.fromisoformat\<close> on
  the formats \<^verbatim>\<open>isoformat\<close> produces (plus the \<^verbatim>\<open>Z\<close> suffix and a date alone), and
  the instant in microseconds that comparison and subtraction use. The main fact is that
  reading inverts printing on every valid value: the timestamp inside a stored entry
  hashes to the same digest after it is read back.
\<close>

record datetime =
  year :: nat
  month :: nat
  day :: nat
  hour :: nat
  minute :: nat
  second :: nat
  micro :: nat
  tz :: "int option"

definition is_leap :: "nat \<Rightarrow> bool" where
  "is_leap y = (4 dvd y \<and> (\<not> 100 dvd y \<or> 400 dvd y))"

definition days_in_month :: "nat \<Rightarrow> nat \<Rightarrow> nat" where
  "days_in_month y m =
     (if m = 2 then (if is_leap y then 29 else 28)
      else if m \<in> {4, 6, 9, 11} then 30 else 31)"

definition valid_dt :: "datetime \<Rightarrow> bool" where
  "valid_dt d =
     (1 \<le> year d \<and> year d \<le> 9999 \<and> 1 \<le> month d \<and> month d \<le> 12 \<and>
      1 \<le> day d \<and> day d \<le> days_in_month (year d) (month d) \<and>
      hour d < 24 \<and> minute d < 60 \<and> second d < 60 \<and> micro d < 1000000 \<and>
      (case tz d of None \<Rightarrow> True | Some z \<Rightarrow> - 1440 < z \<and> z < 1440))"

subsection \<open>Printing\<close>

definition pad2 :: "nat \<Rightarrow> string" where
  "pad2 n = [digit_char (n div 10), digit_char (n mod 10)]"

definition pad4 :: "nat \<Rightarrow> string" where
  "pad4 n = pad2 (n div 100) @ pad2 (n mod 100)"

definition pad6 :: "nat \<Rightarrow> string" where
  "pad6 n = pad2 (n div 10000) @ pad4 (n mod 10000)"

definition iso_tz :: "int option \<Rightarrow> string" where
  "iso_tz z =
     (case z of None \<Rightarrow> []
      | Some o' \<Rightarrow>
          (let a = nat \<bar>o'\<bar>
           in (if o' < 0 then CHR ''-'' else CHR ''+'') # pad2 (a div 60) @ '':'' @ pad2 (a mod 60)))"

definition iso_micro :: "nat \<Rightarrow> string" where
  "iso_micro u = (if u = 0 then [] else CHR ''.'' # pad6 u)"

definition isoformat :: "datetime \<Rightarrow> string" where
  "isoformat d =
     pad4 (year d) @ ''-'' @ pad2 (month d) @ ''-'' @ pad2 (day d) @ ''T'' @
     pad2 (hour d) @ '':'' @ pad2 (minute d) @ '':'' @ pad2 (second d) @
     iso_micro (micro d) @ iso_tz (tz d)"

subsection \<open>Reading\<close>

definition num2 :: "char \<Rightarrow> char \<Rightarrow> nat option" where
  "num2 a b = (if is_digit a \<and> is_digit b then Some (10 * digit_val a + digit_val b) else None)"

definition read_tz :: "string \<Rightarrow> int option option" where
  "read_tz s =
     (if s = [] then Some None
      else if s = ''Z'' then Some (Some 0)
      else (case s of
              [g, a, b, c, d, e] \<Rightarrow>
                (case (num2 a b, num2 d e) of
                   (Some h, Some m) \<Rightarrow>
                     (if c = CHR '':'' \<and> m < 60 \<and> h < 24 then
                        (if g = CHR ''+'' then Some (Some (int (60 * h + m)))
                         else if g = CHR ''-'' then Some (Some (- int (60 * h + m)))
                         else None)
                      else None)
                 | _ \<Rightarrow> None)
            | _ \<Rightarrow> None))"

definition read_micro :: "string \<Rightarrow> (nat \<times> string) option" where
  "read_micro s =
     (case s of
        p # a # b # c # d # e # f # r \<Rightarrow>
          (if p = CHR ''.'' then
             (case (num2 a b, num2 c d, num2 e f) of
                (Some x, Some y, Some z) \<Rightarrow> Some (10000 * x + 100 * y + z, r)
              | _ \<Rightarrow> None)
           else Some (0, s))
      | _ \<Rightarrow> Some (0, s))"

definition read_time :: "string \<Rightarrow> ((nat \<times> nat \<times> nat \<times> nat) \<times> int option) option" where
  "read_time s =
     (case s of
        a # b # p # c # d # q # e # f # r \<Rightarrow>
          (case (num2 a b, num2 c d, num2 e f) of
             (Some h, Some m, Some sec) \<Rightarrow>
               (if p = CHR '':'' \<and> q = CHR '':'' \<and> h < 24 \<and> m < 60 \<and> sec < 60 then
                  (case read_micro r of
                     None \<Rightarrow> None
                   | Some (u, t) \<Rightarrow>
                       (case read_tz t of None \<Rightarrow> None | Some z \<Rightarrow> Some ((h, m, sec, u), z)))
                else None)
           | _ \<Rightarrow> None)
      | _ \<Rightarrow> None)"

text \<open>None stands for the ValueError.\<close>

definition fromisoformat :: "string \<Rightarrow> datetime option" where
  "fromisoformat s =
     (case s of
        a # b # c # d # p # e # f # q # g # h # r \<Rightarrow>
          (case (num2 a b, num2 c d, num2 e f, num2 g h) of
             (Some y1, Some y2, Some m, Some dy) \<Rightarrow>
               (let y = 100 * y1 + y2 in
                if p = CHR ''-'' \<and> q = CHR ''-'' \<and> 1 \<le> y \<and> 1 \<le> m \<and> m \<le> 12 \<and> 1 \<le> dy \<and> dy \<le> days_in_month y m then
                  (case r of
                     [] \<Rightarrow> Some \<lparr>year = y, month = m, day = dy, hour = 0, minute = 0, second = 0, micro = 0, tz = None\<rparr>
                   | sep # t \<Rightarrow>
                       (case read_time t of
                          None \<Rightarrow> None
                        | Some ((hh, mm, ss, u), z) \<Rightarrow>
                            Some \<lparr>year = y, month = m, day = dy, hour = hh, minute = mm, second = ss, micro = u, tz = z\<rparr>))
                else None)
           | _ \<Rightarrow> None)
      | _ \<Rightarrow> None)"

subsection \<open>Reading inverts printing\<close>

lemma num2_pad: "n < 100 \<Longrightarrow> num2 (digit_char (n div 10)) (digit_char (n mod 10)) = Some n"
  by (simp add: num2_def)

lemma days_in_month_bound: "days_in_month y m < 100"
  by (simp add: days_in_month_def)

lemma read_tz_iso:
  assumes "case z of None \<Rightarrow> True | Some o' \<Rightarrow> - 1440 < o' \<and> o' < 1440"
  shows "read_tz (iso_tz z) = Some z"
proof (cases z)
  case (Some o')
  define a where "a = nat \<bar>o'\<bar>"
  have a: "a < 1440" using assms Some by (auto simp: a_def)
  then have "a div 60 < 24" "a mod 60 < 60" "60 * (a div 60) + a mod 60 = a" by simp_all
  moreover have "int a = o'" if "\<not> o' < 0" using that by (simp add: a_def)
  moreover have "- int a = o'" if "o' < 0" using that by (simp add: a_def)
  ultimately show ?thesis
    using num2_pad [of "a div 60"] num2_pad [of "a mod 60"] Some
    by (auto simp: read_tz_def iso_tz_def pad2_def Let_def a_def [symmetric])
qed (simp add: read_tz_def iso_tz_def)

lemma iso_tz_shape: "iso_tz z = [] \<or> (\<exists>g a b c d e. iso_tz z = [g, a, b, c, d, e] \<and> g \<noteq> CHR ''.'')"
  by (auto simp: iso_tz_def pad2_def Let_def split: option.splits)

lemma read_micro_iso:
  assumes "u < 1000000"
  shows "read_micro (iso_micro u @ iso_tz z) = Some (u, iso_tz z)"
proof (cases "u = 0")
  case True
  then show ?thesis
    using iso_tz_shape [of z] by (auto simp: read_micro_def iso_micro_def)
next
  case False
  have "u div 10000 < 100" using assms by (simp add: less_mult_imp_div_less)
  moreover have "10000 * (u div 10000) + (100 * (u mod 10000 div 100) + u mod 10000 mod 100) = u" by simp
  moreover have "u mod 10000 div 100 < 100" by (rule less_mult_imp_div_less) simp
  ultimately show ?thesis
    using False num2_pad [of "u div 10000"] num2_pad [of "u mod 10000 div 100"] num2_pad [of "u mod 10000 mod 100"]
    by (simp add: read_micro_def iso_micro_def pad6_def pad4_def pad2_def add.assoc)
qed

lemma read_time_iso:
  assumes "h < 24" "m < 60" "s < 60" "u < 1000000"
    and "case z of None \<Rightarrow> True | Some o' \<Rightarrow> - 1440 < o' \<and> o' < 1440"
  shows "read_time (pad2 h @ '':'' @ pad2 m @ '':'' @ pad2 s @ iso_micro u @ iso_tz z) = Some ((h, m, s, u), z)"
  using assms num2_pad [of h] num2_pad [of m] num2_pad [of s]
  by (simp add: read_time_def pad2_def read_micro_iso read_tz_iso)

theorem fromisoformat_isoformat [simp, codec]:
  assumes "valid_dt d"
  shows "fromisoformat (isoformat d) = Some d"
proof -
  have "year d div 100 < 100" using assms by (simp add: valid_dt_def less_mult_imp_div_less)
  moreover have "month d < 100" "day d < 100" "year d mod 100 < 100"
    using assms days_in_month_bound [of "year d" "month d"] by (simp_all add: valid_dt_def)
  moreover have "100 * (year d div 100) + year d mod 100 = year d" by simp
  moreover have "read_time (pad2 (hour d) @ '':'' @ pad2 (minute d) @ '':'' @ pad2 (second d) @
      iso_micro (micro d) @ iso_tz (tz d)) = Some ((hour d, minute d, second d, micro d), tz d)"
    using assms by (intro read_time_iso) (simp_all add: valid_dt_def)
  ultimately show ?thesis
    using assms num2_pad [of "year d div 100"] num2_pad [of "year d mod 100"] num2_pad [of "month d"] num2_pad [of "day d"]
    by (simp add: fromisoformat_def isoformat_def pad4_def pad2_def valid_dt_def Let_def)
qed

subsection \<open>Instants\<close>

definition days_before_year :: "nat \<Rightarrow> nat" where
  "days_before_year y = (let p = y - 1 in 365 * p + p div 4 - p div 100 + p div 400)"

definition days_before_month :: "nat \<Rightarrow> nat \<Rightarrow> nat" where
  "days_before_month y m = (\<Sum>i\<leftarrow>[1..<m]. days_in_month y i)"

text \<open>Microseconds since the calendar's first day, in UTC (a naive value counts as UTC).\<close>

definition instant :: "datetime \<Rightarrow> int" where
  "instant d =
     (let days = int (days_before_year (year d) + days_before_month (year d) (month d) + day d);
          mins = 60 * int (hour d) + int (minute d) - (case tz d of None \<Rightarrow> 0 | Some z \<Rightarrow> z)
      in ((days * 1440 + mins) * 60 + int (second d)) * 1000000 + int (micro d))"

text \<open>\<^verbatim>\<open>(a - b).days\<close> and \<^verbatim>\<open>(a - b).total_seconds()\<close> rounded down.\<close>

definition days_between :: "datetime \<Rightarrow> datetime \<Rightarrow> int" where
  "days_between a b = (instant a - instant b) div (24 * 3600 * 1000000)"

end
