(* ===== verification/Storage.thy ===== *)
theory Storage
  imports Segments Hashing Hash_Chain Datetime
begin

text \<open>
  \<^verbatim>\<open>src/dsm/core/models.py\<close> and \<^verbatim>\<open>src/dsm/core/storage.py\<close>: entries, the append path
  (active segment, chained hash, JSONL line, integrity pin, segment metadata), the read
  paths, shard listing and crash reconciliation. An entry's fields hold decoded JSON
  values, because an entry read back from disk carries whatever the line held. Every
  operation takes the file system and returns it; the current time is an argument.
\<close>

section \<open>Entries\<close>

record entry =
  eid :: json
  timestamp :: datetime
  session_id :: json
  source :: json
  content :: json
  shard :: json
  hash :: json
  prev_hash :: json
  metadata :: json
  version :: json

record shard_meta =
  sm_shard_id :: string
  created_at :: datetime
  last_updated :: datetime
  entry_count :: json
  size_bytes :: nat
  integrity_status :: string

definition build_canonical_entry :: "entry \<Rightarrow> json \<Rightarrow> json" where
  "build_canonical_entry e prev =
     JObj [(''session_id'', session_id e),
           (''source'', source e),
           (''timestamp'', JStr (isoformat (timestamp e))),
           (''metadata'', if truthy (metadata e) then metadata e else JObj []),
           (''content'', content e),
           (''prev_hash'', prev)]"

definition compute_canonical_entry_hash :: "sha \<Rightarrow> entry \<Rightarrow> json \<Rightarrow> string res" where
  "compute_canonical_entry_hash sha e prev = hash_canonical sha (build_canonical_entry e prev)"

section \<open>Integrity pins\<close>

text \<open>The document \<^verbatim>\<open>integrity/<shard>_last_hash.json\<close>, or an empty dict when it is missing or unreadable.\<close>

definition existing_pin :: "string \<Rightarrow> fs \<Rightarrow> json" where
  "existing_pin sid s = (case dget sid (pins s) of Some (Some j) \<Rightarrow> j | _ \<Rightarrow> JObj [])"

definition get_last_hash :: "string \<Rightarrow> fs \<Rightarrow> json" where
  "get_last_hash sid s =
     (case dget sid (pins s) of
        Some (Some j) \<Rightarrow> (case jget ''last_hash'' JNull j of Inr h \<Rightarrow> h | Inl _ \<Rightarrow> JNull)
      | _ \<Rightarrow> JNull)"

definition pin_doc :: "string \<Rightarrow> json \<Rightarrow> datetime \<Rightarrow> json \<Rightarrow> json \<Rightarrow> json \<Rightarrow> (string \<times> json) list" where
  "pin_doc sid h now cnt first_ts last_ts =
     [(''shard_id'', JStr sid), (''last_hash'', h), (''updated_at'', JStr (isoformat now)),
      (''entry_count'', cnt), (''first_timestamp'', first_ts), (''last_timestamp'', last_ts)]"

definition put_pin :: "string \<Rightarrow> json \<Rightarrow> fs \<Rightarrow> fs" where
  "put_pin sid j s = s\<lparr>pins := dput sid (Some j) (pins s)\<rparr>"

definition commit_integrity_and_metadata :: "datetime \<Rightarrow> string \<Rightarrow> entry \<Rightarrow> fs \<Rightarrow> fs \<times> unit res" where
  "commit_integrity_and_metadata now sid e s =
     (let existing = existing_pin sid s; ts = JStr (isoformat (timestamp e)) in
      case rbind (jget ''entry_count'' (JInt 0) existing) (\<lambda>c.
           rbind (as_num c) (\<lambda>n.
           rbind (jget ''first_timestamp'' JNull existing) (\<lambda>f.
             Inr (JObj (pin_doc sid (hash e) now (JInt (n + 1)) (if f = JNull then ts else f) ts))))) of
        Inl err \<Rightarrow> (s, Inl err)
      | Inr doc \<Rightarrow> (put_pin sid doc s, Inr ()))"

text \<open>The two superseded helpers: keys whose value is None are dropped from the document.\<close>

definition drop_nulls :: "(string \<times> json) list \<Rightarrow> (string \<times> json) list" where
  "drop_nulls d = filter (\<lambda>(k, v). v \<noteq> JNull) d"

definition set_last_hash :: "datetime \<Rightarrow> string \<Rightarrow> json \<Rightarrow> fs \<Rightarrow> fs \<times> unit res" where
  "set_last_hash now sid h s =
     (let existing = existing_pin sid s in
      case rbind (jget ''entry_count'' JNull existing) (\<lambda>c.
           rbind (jget ''first_timestamp'' JNull existing) (\<lambda>f.
           rbind (jget ''last_timestamp'' JNull existing) (\<lambda>l.
             Inr (JObj (drop_nulls (pin_doc sid h now c f l)))))) of
        Inl err \<Rightarrow> (s, Inl err)
      | Inr doc \<Rightarrow> (put_pin sid doc s, Inr ()))"

definition update_shard_metadata :: "datetime \<Rightarrow> string \<Rightarrow> entry \<Rightarrow> fs \<Rightarrow> fs \<times> unit res" where
  "update_shard_metadata now sid e s =
     (let existing = existing_pin sid s; ts = JStr (isoformat (timestamp e)) in
      case rbind (jget ''entry_count'' (JInt 0) existing) (\<lambda>c.
           rbind (as_num c) (\<lambda>n.
           rbind (jget ''first_timestamp'' JNull existing) (\<lambda>f.
           rbind (jget ''last_hash'' JNull existing) (\<lambda>h.
             Inr (JObj (pin_doc sid h now (JInt (n + 1)) (if f = JNull then ts else f) ts)))))) of
        Inl err \<Rightarrow> (s, Inl err)
      | Inr doc \<Rightarrow> (put_pin sid doc s, Inr ()))"

section \<open>Append\<close>

definition entry_dict :: "string \<Rightarrow> entry \<Rightarrow> json" where
  "entry_dict sid e =
     JObj [(''id'', eid e), (''timestamp'', JStr (isoformat (timestamp e))), (''session_id'', session_id e),
           (''source'', source e), (''content'', content e), (''shard'', JStr sid), (''hash'', hash e),
           (''prev_hash'', prev_hash e), (''metadata'', metadata e), (''version'', version e)]"

definition entry_line :: "string \<Rightarrow> entry \<Rightarrow> string" where
  "entry_line sid e = dumps_sorted compact (entry_dict sid e)"

definition write_segment :: "string \<Rightarrow> string \<Rightarrow> string \<Rightarrow> fs \<Rightarrow> fs" where
  "write_segment sid name txt s =
     (case dget (family_name sid) (fams s) of
        None \<Rightarrow> s
      | Some f \<Rightarrow> put_family (family_name sid) (append_text name txt f) s)"

text \<open>\<^verbatim>\<open>entry.shard or "default"\<close>; a shard that is not a string has no \<^verbatim>\<open>replace\<close>.\<close>

definition shard_of :: "entry \<Rightarrow> string res" where
  "shard_of e =
     (case (if truthy (shard e) then shard e else JStr ''default'') of
        JStr sid \<Rightarrow> Inr sid
      | _ \<Rightarrow> Inl AttributeError)"

text \<open>
  The first half of \<^verbatim>\<open>append\<close>, up to the synchronised write of the line: the state a crash
  leaves behind when the pin is not yet committed.
\<close>

definition append_write :: "sha \<Rightarrow> string \<Rightarrow> entry \<Rightarrow> fs \<Rightarrow> fs \<times> (entry \<times> string) res" where
  "append_write sha sid e s =
     (case get_active_segment sid s of
        (s1, Inl err) \<Rightarrow> (s1, Inl err)
      | (s1, Inr name) \<Rightarrow>
          (let s2 = write_segment sid name [] s1;
               prev = get_last_hash sid s2
           in case compute_canonical_entry_hash sha e prev of
                Inl err \<Rightarrow> (s2, Inl err)
              | Inr h \<Rightarrow>
                  (let e' = e\<lparr>prev_hash := prev, hash := JStr h\<rparr>;
                       line = entry_line sid e' @ [NL]
                   in (write_segment sid name line s2, Inr (e', line)))))"

definition append :: "sha \<Rightarrow> datetime \<Rightarrow> entry \<Rightarrow> fs \<Rightarrow> fs \<times> entry res" where
  "append sha now e s =
     (case shard_of e of
        Inl err \<Rightarrow> (s, Inl err)
      | Inr sid \<Rightarrow>
          (case append_write sha sid e s of
             (s1, Inl err) \<Rightarrow> (s1, Inl err)
           | (s1, Inr (e', line)) \<Rightarrow>
               (case commit_integrity_and_metadata now sid e' s1 of
                  (s2, Inl err) \<Rightarrow> (s2, Inl err)
                | (s2, Inr _) \<Rightarrow>
                    (case update_active_segment_metadata sid 1 (int (utf8_len line)) s2 of
                       (s3, Inl err) \<Rightarrow> (s3, Inl err)
                     | (s3, Inr _) \<Rightarrow> (s3, Inr e')))))"

section \<open>Read\<close>

definition iso_field :: "json \<Rightarrow> datetime res" where
  "iso_field j =
     (case j of JStr t \<Rightarrow> (case fromisoformat t of Some d \<Rightarrow> Inr d | None \<Rightarrow> Inl (ValueError ''isoformat''))
      | _ \<Rightarrow> Inl TypeError)"

definition entry_from_event_data :: "json \<Rightarrow> entry res" where
  "entry_from_event_data ev =
     rbind (jget ''id'' JNull ev) (\<lambda>i.
     rbind (jget ''timestamp'' JNull ev) (\<lambda>t.
     rbind (iso_field t) (\<lambda>ts.
     rbind (jget ''session_id'' JNull ev) (\<lambda>si.
     rbind (jget ''source'' JNull ev) (\<lambda>so.
     rbind (jget ''content'' JNull ev) (\<lambda>co.
     rbind (jget ''shard'' JNull ev) (\<lambda>sh.
     rbind (jget ''hash'' JNull ev) (\<lambda>h.
     rbind (jget ''prev_hash'' JNull ev) (\<lambda>ph.
     rbind (jget ''metadata'' (JObj []) ev) (\<lambda>md.
     rbind (jget ''version'' (JStr ''v2.0'') ev) (\<lambda>v.
       Inr \<lparr>eid = i, timestamp = ts, session_id = si, source = so, content = co, shard = sh, hash = h,
            prev_hash = ph, metadata = md, version = v\<rparr>)))))))))))"

text \<open>The exceptions the readers swallow: KeyError, TypeError and ValueError.\<close>

definition swallowed :: "py_error \<Rightarrow> bool" where
  "swallowed e = (case e of KeyError _ \<Rightarrow> True | TypeError \<Rightarrow> True | ValueError _ \<Rightarrow> True | _ \<Rightarrow> False)"

fun read_loop :: "int \<Rightarrow> int \<Rightarrow> int \<Rightarrow> int \<Rightarrow> entry list \<Rightarrow> string list \<Rightarrow> entry list res" where
  "read_loop offset limit skipped collected results [] = Inr (rev results)"
| "read_loop offset limit skipped collected results (l # ls) =
     (case event_of_line l of
        None \<Rightarrow> read_loop offset limit skipped collected results ls
      | Some ev \<Rightarrow>
          (if skipped < offset then read_loop offset limit (skipped + 1) collected results ls
           else
             (case entry_from_event_data ev of
                Inl err \<Rightarrow>
                  (if swallowed err then read_loop offset limit skipped collected results ls else Inl err)
              | Inr e \<Rightarrow>
                  (if limit \<le> collected + 1 then Inr (rev (e # results))
                   else read_loop offset limit skipped (collected + 1) (e # results) ls))))"

definition read_segmented :: "string \<Rightarrow> int \<Rightarrow> int \<Rightarrow> fs \<Rightarrow> fs \<times> entry list res" where
  "read_segmented sid offset limit s =
     (let (s1, segs) = get_segment_files_ordered sid True s
      in (s1, read_loop offset limit 0 0 [] (concat (map (\<lambda>(n, txt). rev (read_lines txt)) segs))))"

fun collect_entries :: "string list \<Rightarrow> entry list res" where
  "collect_entries [] = Inr []"
| "collect_entries (l # ls) =
     (case event_of_line l of
        None \<Rightarrow> collect_entries ls
      | Some ev \<Rightarrow>
          (case entry_from_event_data ev of
             Inl err \<Rightarrow> (if swallowed err then collect_entries ls else Inl err)
           | Inr e \<Rightarrow> rbind (collect_entries ls) (\<lambda>es. Inr (e # es))))"

text \<open>A \<^verbatim>\<open>deque(maxlen=k)\<close> keeps the last \<open>k\<close> values appended to it.\<close>

definition last_n :: "nat \<Rightarrow> 'a list \<Rightarrow> 'a list" where
  "last_n k xs = drop (length xs - k) xs"

definition read_monolithic :: "string \<Rightarrow> int \<Rightarrow> int \<Rightarrow> fs \<Rightarrow> entry list res" where
  "read_monolithic sid offset limit s =
     (case dget sid (mono_files s) of
        None \<Rightarrow> Inr []
      | Some txt \<Rightarrow>
          (if offset + limit < 0 then Inl (ValueError ''maxlen must be non-negative'')
           else
             rbind (collect_entries (read_lines txt)) (\<lambda>es.
               let window = last_n (nat (offset + limit)) es; n = int (length window) in
               if n \<le> offset then Inr []
               else
                 let start = max 0 (n - offset - limit); stop = n - offset
                 in Inr (rev (drop (nat start) (take (nat stop) window))))))"

definition read :: "string \<Rightarrow> int \<Rightarrow> int \<Rightarrow> fs \<Rightarrow> fs \<times> entry list res" where
  "read sid offset limit s =
     (case dget (family_name sid) (fams s) of
        Some f \<Rightarrow> read_segmented sid offset limit s
      | None \<Rightarrow> (s, read_monolithic sid offset limit s))"

section \<open>Listing\<close>

definition get_shard_size :: "string \<Rightarrow> fs \<Rightarrow> nat" where
  "get_shard_size sid s =
     (case dget (family_name sid) (fams s) of
        Some f \<Rightarrow> (\<Sum>(n, txt)\<leftarrow>filter (\<lambda>(n, _). endswith JSONL n) (seg_files f). utf8_len txt)
      | None \<Rightarrow> (case dget sid (mono_files s) of Some txt \<Rightarrow> utf8_len txt | None \<Rightarrow> 0))"

definition get_shard_metadata :: "datetime \<Rightarrow> (string \<Rightarrow> datetime) \<Rightarrow> string \<Rightarrow> fs \<Rightarrow> shard_meta res" where
  "get_shard_metadata now mtime sid s =
     (case dget sid (pins s) of
        Some p \<Rightarrow>
          (let data = (case p of Some j \<Rightarrow> j | None \<Rightarrow> JObj []) in
           rbind (jget ''entry_count'' (JInt 0) data) (\<lambda>c.
           rbind (jget ''first_timestamp'' JNull data) (\<lambda>f.
           rbind (jget ''last_timestamp'' JNull data) (\<lambda>l.
           rbind (if truthy f then iso_field f else Inr (mtime sid)) (\<lambda>cr.
           rbind (if truthy l then iso_field l else Inr cr) (\<lambda>up.
             Inr \<lparr>sm_shard_id = sid, created_at = cr, last_updated = up, entry_count = c,
                  size_bytes = get_shard_size sid s, integrity_status = ''verified''\<rparr>))))))
      | None \<Rightarrow>
          Inr \<lparr>sm_shard_id = sid, created_at = now, last_updated = now, entry_count = JInt 0,
               size_bytes = 0, integrity_status = ''unknown''\<rparr>)"

fun map_res :: "('a \<Rightarrow> 'b res) \<Rightarrow> 'a list \<Rightarrow> 'b list res" where
  "map_res f [] = Inr []"
| "map_res f (x # xs) = rbind (f x) (\<lambda>y. rbind (map_res f xs) (\<lambda>ys. Inr (y # ys)))"

definition listed_ids :: "fs \<Rightarrow> string list" where
  "listed_ids s =
     map fst (mono_files s) @
     map (\<lambda>(nm, f). if dget nm (pins s) \<noteq> None then nm else ''shard_'' @ nm)
       (filter (\<lambda>(nm, f). \<not> startswith ''.'' nm \<and> list_ex (\<lambda>(n, _). endswith JSONL n) (seg_files f)) (fams s))"

definition list_shards :: "datetime \<Rightarrow> (string \<Rightarrow> datetime) \<Rightarrow> fs \<Rightarrow> shard_meta list res" where
  "list_shards now mtime s = map_res (\<lambda>sid. get_shard_metadata now mtime sid s) (listed_ids s)"

section \<open>Reconciliation\<close>

text \<open>
  The last bytes of a file, decoded with replacement: a character cut in two leaves one
  replacement character, which no JSON text starts with.
\<close>

function tail_bytes :: "nat \<Rightarrow> string \<Rightarrow> string" where
  "tail_bytes k s =
     (case s of [] \<Rightarrow> []
      | c # cs \<Rightarrow>
          (if utf8_len s \<le> k then s
           else if utf8_len cs < k then CHR 0xFF # cs
           else tail_bytes k cs))"
  by pat_completeness auto
termination
  by (relation "measure (\<lambda>(k, s). length s)") auto

declare tail_bytes.simps [simp del]

fun first_event :: "string list \<Rightarrow> json option" where
  "first_event [] = None"
| "first_event (l # ls) = (case event_of_line l of Some ev \<Rightarrow> Some ev | None \<Rightarrow> first_event ls)"

fun tail_of_segments :: "(string \<times> string) list \<Rightarrow> json option" where
  "tail_of_segments [] = None"
| "tail_of_segments ((n, txt) # segs) =
     (if utf8_len txt = 0 then tail_of_segments segs
      else
        (case first_event (rev (split_at NL (strip (tail_bytes (min (utf8_len txt) 8192) txt)))) of
           Some ev \<Rightarrow> Some ev
         | None \<Rightarrow> tail_of_segments segs))"

definition read_last_segment_tail :: "string \<Rightarrow> fs \<Rightarrow> fs \<times> json option" where
  "read_last_segment_tail sid s =
     (let (s1, segs) = get_segment_files_ordered sid True s in (s1, tail_of_segments segs))"

definition count_shard_entries :: "string \<Rightarrow> fs \<Rightarrow> fs \<times> nat" where
  "count_shard_entries sid s =
     (let (s1, segs) = get_segment_files_ordered sid False s
      in (s1, \<Sum>(n, txt)\<leftarrow>segs. length (filter (\<lambda>l. strip l \<noteq> []) (read_lines txt))))"

text \<open>The first timestamp on disk; a falsy one is kept while the later segments are searched.\<close>

fun first_timestamp_of :: "json \<Rightarrow> (string \<times> string) list \<Rightarrow> json res" where
  "first_timestamp_of acc [] = Inr acc"
| "first_timestamp_of acc ((n, txt) # segs) =
     rbind (case first_event (read_lines txt) of None \<Rightarrow> Inr acc | Some ev \<Rightarrow> jget ''timestamp'' JNull ev)
       (\<lambda>t. if truthy t then Inr t else first_timestamp_of t segs)"

datatype reconcile_result =
    EmptyShard
  | InSync json
  | DivergenceRefused json json json nat
  | Reconciled json json nat
  | TruncationAccepted json json nat

text \<open>
  \<^verbatim>\<open>entry_count <= pinned_count\<close> when there is a pinned count: None when there is none.
\<close>

definition pinned_count_of :: "string \<Rightarrow> fs \<Rightarrow> json res" where
  "pinned_count_of sid s =
     (case dget sid (pins s) of Some (Some j) \<Rightarrow> jget ''entry_count'' JNull j | _ \<Rightarrow> Inr JNull)"

definition divergence_report :: "datetime \<Rightarrow> string \<Rightarrow> json \<Rightarrow> json \<Rightarrow> json \<Rightarrow> int \<Rightarrow> nat \<Rightarrow> json" where
  "divergence_report now sid stored disk pinned pc cnt =
     JObj [(''shard_id'', JStr sid), (''detected_at'', JStr (isoformat now)),
           (''kind'', JStr (if int cnt < pc then ''TRUNCATION'' else ''TAIL_TAMPER'')),
           (''pinned_last_hash'', stored), (''observed_last_hash'', disk),
           (''pinned_entry_count'', pinned), (''observed_entry_count'', JInt (int cnt)),
           (''action'', JStr ''REFUSED - pin left untouched; rerun with allow_truncation=True to accept (audited)'')]"

definition advance_pin :: "datetime \<Rightarrow> string \<Rightarrow> json \<Rightarrow> json \<Rightarrow> nat \<Rightarrow> fs \<Rightarrow> fs \<times> unit res" where
  "advance_pin now sid last_event disk cnt s =
     (let (s1, segs) = get_segment_files_ordered sid False s in
      case rbind (first_timestamp_of JNull segs) (\<lambda>ft.
           rbind (jget ''timestamp'' JNull last_event) (\<lambda>lt.
             Inr (JObj (drop_nulls (pin_doc sid disk now (JInt (int cnt)) ft lt))))) of
        Inl err \<Rightarrow> (s1, Inl err)
      | Inr doc \<Rightarrow> (put_pin sid doc s1, Inr ()))"

definition reconcile_shard :: "datetime \<Rightarrow> string \<Rightarrow> bool \<Rightarrow> fs \<Rightarrow> fs \<times> reconcile_result res" where
  "reconcile_shard now sid allow_truncation s =
     (let stored = get_last_hash sid s; (s1, tail) = read_last_segment_tail sid s in
      case tail of
        None \<Rightarrow> (s1, Inr EmptyShard)
      | Some last_event \<Rightarrow>
          (case jget ''hash'' JNull last_event of
             Inl err \<Rightarrow> (s1, Inl err)
           | Inr disk \<Rightarrow>
               if disk = stored then (s1, Inr (InSync stored))
               else
                 (let (s2, cnt) = count_shard_entries sid s1 in
                  case rbind (pinned_count_of sid s2) (\<lambda>p.
                       rbind (if p = JNull then Inr None else rbind (as_num p) (\<lambda>n. Inr (Some n))) (\<lambda>pc.
                         Inr (p, pc))) of
                    Inl err \<Rightarrow> (s2, Inl err)
                  | Inr (p, pc) \<Rightarrow>
                      (case pc of
                         Some n \<Rightarrow>
                           (if int cnt \<le> n then
                              (if \<not> allow_truncation then
                                 (s2\<lparr>reports := reports s2 @ [(sid, divergence_report now sid stored disk p n cnt)]\<rparr>,
                                  Inr (DivergenceRefused stored disk p cnt))
                               else
                                 (let s3 = s2\<lparr>quarantine := quarantine s2 @
                                              (case dget sid (pins s2) of Some q \<Rightarrow> [(sid, q)] | None \<Rightarrow> [])\<rparr>
                                  in case advance_pin now sid last_event disk cnt s3 of
                                       (s4, Inl err) \<Rightarrow> (s4, Inl err)
                                     | (s4, Inr _) \<Rightarrow> (s4, Inr (TruncationAccepted stored disk cnt))))
                            else
                              (case advance_pin now sid last_event disk cnt s2 of
                                 (s4, Inl err) \<Rightarrow> (s4, Inl err)
                               | (s4, Inr _) \<Rightarrow> (s4, Inr (Reconciled stored disk cnt))))
                       | None \<Rightarrow>
                           (case advance_pin now sid last_event disk cnt s2 of
                              (s4, Inl err) \<Rightarrow> (s4, Inl err)
                            | (s4, Inr _) \<Rightarrow> (s4, Inr (Reconciled stored disk cnt)))))))"

fun reconcile_ids :: "datetime \<Rightarrow> string list \<Rightarrow> fs \<Rightarrow> fs \<times> (string \<times> reconcile_result) list res" where
  "reconcile_ids now [] s = (s, Inr [])"
| "reconcile_ids now (sid # ids) s =
     (case reconcile_shard now sid False s of
        (s1, Inl err) \<Rightarrow> (s1, Inl err)
      | (s1, Inr r) \<Rightarrow>
          (case reconcile_ids now ids s1 of
             (s2, Inl err) \<Rightarrow> (s2, Inl err)
           | (s2, Inr rs) \<Rightarrow> (s2, Inr ((sid, r) # rs))))"

definition reconcile_all :: "datetime \<Rightarrow> (string \<Rightarrow> datetime) \<Rightarrow> fs \<Rightarrow> fs \<times> (string \<times> reconcile_result) list res" where
  "reconcile_all now mtime s =
     (case list_shards now mtime s of
        Inl err \<Rightarrow> (s, Inl err)
      | Inr ms \<Rightarrow> reconcile_ids now (map sm_shard_id ms) s)"

end
