(* ===== verification/Storage_Laws.thy ===== *)
theory Storage_Laws
  imports Storage
begin

text \<open>
  The laws of the storage kernel: a stored line reads back as the entry that was written,
  the shard invariant (layout of the segments, chained hashes, pin at the tip), that an
  append keeps it and extends the log by one entry, and that it leaves other shards
  alone. The interface \<open>append_log\<close> is interpreted on \<open>append\<close>.
\<close>

section \<open>A stored line reads back as its entry\<close>

definition norm_entry :: "entry \<Rightarrow> entry" where
  "norm_entry e =
     e\<lparr>eid := norm (eid e), session_id := norm (session_id e), source := norm (source e),
       content := norm (content e), shard := norm (shard e), hash := norm (hash e),
       prev_hash := norm (prev_hash e), metadata := norm (metadata e), version := norm (version e)\<rparr>"

definition wf_entry :: "entry \<Rightarrow> bool" where
  "wf_entry e =
     (valid_dt (timestamp e) \<and> wf_json (eid e) \<and> wf_json (session_id e) \<and> wf_json (source e) \<and>
      wf_json (content e) \<and> wf_json (shard e) \<and> wf_json (hash e) \<and> wf_json (prev_hash e) \<and>
      wf_json (metadata e) \<and> wf_json (version e))"

lemma norm_entry_idem [simp]: "norm_entry (norm_entry e) = norm_entry e"
  by (simp add: norm_entry_def)

lemma wf_norm_entry [simp]: "wf_entry (norm_entry e) = wf_entry e"
  by (simp add: norm_entry_def wf_entry_def)

lemma dget_norm:
  fixes d :: "(string \<times> json) list"
  assumes "distinct (map fst d)"
  shows "map_of (sort_key fst (map (\<lambda>(k, v). (k, norm v)) d)) k = map_option norm (map_of d k)"
proof -
  let ?d = "map (\<lambda>(k, v). (k, norm v)) d"
  have "distinct (map fst ?d)" using assms by (simp add: comp_def case_prod_unfold)
  then have "map_of (sort_key fst ?d) = map_of ?d"
    by (subst map_of_inject_set) (simp_all only: map_fst_sort_key distinct_sort set_sort)
  then show ?thesis by (simp add: map_of_map)
qed

lemma jget_norm:
  assumes "distinct (map fst d)"
  shows "jget k dflt (norm (JObj d)) = Inr (case dget k d of None \<Rightarrow> dflt | Some v \<Rightarrow> norm v)"
  using dget_norm [OF assms, of k] by (simp split: option.splits)

lemma strip_obj: "strip (dumps_raw st (JObj d)) = dumps_raw st (JObj d)"
proof (rule strip_id)
  show "\<not> is_space (last (dumps_raw st (JObj d)))" by (simp add: is_space_def)
  show "\<not> is_space (hd (dumps_raw st (JObj d)))" by (simp add: is_space_def)
qed simp

lemma entry_dict_keys: "entry_dict sid e = JObj d \<Longrightarrow> distinct (map fst d)"
  by (auto simp: entry_dict_def)

lemma wf_entry_dict: "wf_entry e \<Longrightarrow> wf_json (entry_dict sid e)"
  by (simp add: wf_entry_def entry_dict_def)

lemma event_of_entry_line [codec]:
  assumes "wf_entry e"
  shows "event_of_line (entry_line sid e) = Some (norm (entry_dict sid e))"
proof -
  obtain d where d: "norm (entry_dict sid e) = JObj d" by (auto simp: entry_dict_def)
  then have "strip (entry_line sid e) = entry_line sid e"
    by (simp only: entry_line_def dumps_sorted_def strip_obj)
  moreover have "entry_line sid e \<noteq> []"
    by (simp add: entry_line_def dumps_sorted_def d)
  moreover have "loads (entry_line sid e) = Some (norm (entry_dict sid e))"
    using assms by (simp add: entry_line_def loads_dumps_sorted wf_entry_dict)
  ultimately show ?thesis by (simp add: event_of_line_def)
qed

lemma entry_from_event_entry [codec]:
  assumes "wf_entry e"
  shows "entry_from_event_data (norm (entry_dict sid e)) = Inr (norm_entry (e\<lparr>shard := JStr sid\<rparr>))"
  using assms
  unfolding entry_from_event_data_def entry_dict_def
  by (simp add: jget_norm iso_field_def wf_entry_def norm_entry_def del: norm.simps(2))
     (simp add: norm_entry_def)?

lemma clean_entry_line: "wf_entry e \<Longrightarrow> clean_line (entry_line sid e)"
  using clean_dumps [of "norm (entry_dict sid e)" compact]
  by (simp add: entry_line_def dumps_sorted_def wf_entry_dict)

section \<open>The hash of a stored entry\<close>

lemma truthy_norm [simp]: "truthy (norm j) = truthy j"
  by (cases j) auto

lemma hash_canonical_norm: "norm i = norm j \<Longrightarrow> hash_canonical sha i = hash_canonical sha j"
  by (metis canonical_json_norm hash_canonical_def hash_v1_def)

lemma build_norm:
  "norm (build_canonical_entry (norm_entry e) (norm p)) = norm (build_canonical_entry e p)"
  by (simp add: build_canonical_entry_def norm_entry_def)

lemma build_shard [simp]: "build_canonical_entry (e\<lparr>shard := x\<rparr>) p = build_canonical_entry e p"
  by (simp add: build_canonical_entry_def)

lemma build_hash [simp]: "build_canonical_entry (e\<lparr>hash := x\<rparr>) p = build_canonical_entry e p"
  by (simp add: build_canonical_entry_def)

lemma build_prev [simp]: "build_canonical_entry (e\<lparr>prev_hash := x\<rparr>) p = build_canonical_entry e p"
  by (simp add: build_canonical_entry_def)

lemma wf_build: "wf_entry e \<Longrightarrow> wf_json p \<Longrightarrow> wf_json (build_canonical_entry e p)"
  by (simp add: wf_entry_def build_canonical_entry_def)

text \<open>The entry's stored hash is the digest of its own content and its own link.\<close>

definition sealed :: "sha \<Rightarrow> entry \<Rightarrow> bool" where
  "sealed sha e = (wf_entry e \<and> (\<exists>h. hash_canonical sha (build_canonical_entry e (prev_hash e)) = Inr h \<and> hash e = JStr h))"

text \<open>A chain that starts from the link \<open>p\<close>.\<close>

fun chained :: "sha \<Rightarrow> json \<Rightarrow> entry list \<Rightarrow> bool" where
  "chained sha p [] = True"
| "chained sha p (e # es) = (prev_hash e = p \<and> sealed sha e \<and> norm_entry e = e \<and> chained sha (hash e) es)"

definition tip :: "entry list \<Rightarrow> json" where
  "tip es = (if es = [] then JNull else hash (last es))"

lemma chained_append:
  "chained sha p (es @ fs) \<longleftrightarrow> chained sha p es \<and> chained sha (if es = [] then p else hash (last es)) fs"
  by (induction es arbitrary: p) auto

lemma chained_snoc:
  "chained sha JNull (es @ [e]) \<longleftrightarrow> chained sha JNull es \<and> prev_hash e = tip es \<and> sealed sha e \<and> norm_entry e = e"
  by (auto simp: chained_append tip_def)

lemma chained_linked: "chained sha p es \<Longrightarrow> linked prev_hash hash es"
proof (induction es arbitrary: p)
  case (Cons e es)
  then show ?case by (cases es) auto
qed simp

section \<open>The shard invariant\<close>

definition family_of :: "string \<Rightarrow> fs \<Rightarrow> family" where
  "family_of sid s = (case dget (family_name sid) (fams s) of Some f \<Rightarrow> f | None \<Rightarrow> empty_family)"

text \<open>The pin that belongs to a log: its tip, its length, its first and last timestamps.\<close>

definition pin_matches :: "string \<Rightarrow> entry list \<Rightarrow> json option option \<Rightarrow> bool" where
  "pin_matches sid es p =
     (if es = [] then p = None
      else \<exists>now. p = Some (Some (JObj (pin_doc sid (hash (last es)) now (JInt (int (length es)))
                      (JStr (isoformat (timestamp (hd es)))) (JStr (isoformat (timestamp (last es))))))))"

definition shard_inv :: "sha \<Rightarrow> string \<Rightarrow> fs \<Rightarrow> entry list \<Rightarrow> bool" where
  "shard_inv sha sid s es =
     ((\<exists>lss. seg_inv (family_name sid) (family_of sid s) lss \<and> concat lss = map (entry_line sid) es) \<and>
      pin_matches sid es (dget sid (pins s)) \<and>
      chained sha JNull es \<and> (\<forall>e \<in> set es. shard e = JStr sid))"

lemma pin_gets [simp]:
  "dget ''last_hash'' (pin_doc sid h now c f l) = Some h"
  "dget ''entry_count'' (pin_doc sid h now c f l) = Some c"
  "dget ''first_timestamp'' (pin_doc sid h now c f l) = Some f"
  "dget ''last_timestamp'' (pin_doc sid h now c f l) = Some l"
  by (simp_all add: pin_doc_def)

lemma get_last_hash_inv: "pin_matches sid es (dget sid (pins s)) \<Longrightarrow> get_last_hash sid s = tip es"
  by (auto simp: pin_matches_def get_last_hash_def tip_def split: if_splits)

lemma shard_inv_empty [simp]: "shard_inv sha sid empty_fs []"
  unfolding shard_inv_def
  by (auto simp: family_of_def empty_fs_def pin_matches_def intro!: exI [where x = "[]"])

section \<open>Reads of an updated file system\<close>

lemma family_of_put [simp, fs_simps]:
  "family_of sid (put_family nm f s) = (if nm = family_name sid then f else family_of sid s)"
  by (simp add: family_of_def put_family_def)

lemma fams_put_pin [simp, fs_simps]: "fams (put_pin sid j s) = fams s" and
  pins_put_pin [simp, fs_simps]: "pins (put_pin sid j s) = dput sid (Some j) (pins s)"
  by (simp_all add: put_pin_def)

lemma family_of_put_pin [simp, fs_simps]: "family_of sid (put_pin sid' j s) = family_of sid s"
  by (simp add: family_of_def)

lemma pins_put_family [simp, fs_simps]: "pins (put_family nm f s) = pins s"
  by (simp add: put_family_def)

lemma get_dir_props:
  assumes "get_shard_family_dir sid s = (s1, f)"
  shows "f = family_of sid s" and "pins s1 = pins s" and "\<And>sid'. family_of sid' s1 = family_of sid' s"
    and "dget (family_name sid) (fams s1) = Some f"
    and "mono_files s1 = mono_files s" and "reports s1 = reports s" and "quarantine s1 = quarantine s"
  using assms
  by (auto simp: get_shard_family_dir_def family_of_def Let_def split: option.splits if_splits)

lemma get_dir_eq: "\<exists>s1. get_shard_family_dir sid s = (s1, family_of sid s)"
  by (auto simp: get_shard_family_dir_def family_of_def Let_def split: option.splits)

lemma dget_put_family [simp, fs_simps]:
  "dget nm' (fams (put_family nm f s)) = (if nm' = nm then Some f else dget nm' (fams s))"
  by (simp add: put_family_def)

lemma write_segment_present:
  "dget (family_name sid) (fams s) = Some f \<Longrightarrow>
   write_segment sid name txt s = put_family (family_name sid) (append_text name txt f) s"
  by (simp add: write_segment_def)

lemma append_text_twice: "append_text name b (append_text name a f) = append_text name (a @ b) f"
proof -
  have twice: "dput name y (dput name x d) = dput name y d" for x y and d :: "(string \<times> string) list"
    by (induction d) auto
  show ?thesis by (auto simp: append_text_def twice split: option.splits)
qed

lemma append_text_meta [simp]:
  "seg_meta (append_text name t f) = seg_meta f"
  "read_segment_meta (append_text name t f) = read_segment_meta f"
  by (simp_all add: append_text_def read_segment_meta_def)

lemma put_family_twice [simp]: "put_family nm g (put_family nm f s) = put_family nm g s"
proof -
  have "dput nm g (dput nm f d) = dput nm g d" for d :: "(string \<times> family) list"
    by (induction d) auto
  then show ?thesis by (simp add: put_family_def)
qed

lemma family_of_dget: "dget (family_name sid) (fams s) = Some f \<Longrightarrow> family_of sid s = f"
  by (simp add: family_of_def)

section \<open>What an append does\<close>

text \<open>The entry that ends up in the log: hash and link set, shard resolved, keys sorted.\<close>

definition stored_entry :: "sha \<Rightarrow> string \<Rightarrow> json \<Rightarrow> entry \<Rightarrow> entry" where
  "stored_entry sha sid prev e =
     (case compute_canonical_entry_hash sha e prev of
        Inr h \<Rightarrow> norm_entry (e\<lparr>prev_hash := prev, hash := JStr h, shard := JStr sid\<rparr>)
      | Inl _ \<Rightarrow> e)"

text \<open>The entries the kernel accepts: values JSON can carry, no NaN or infinity in what is hashed.\<close>

definition acceptable :: "entry \<Rightarrow> bool" where
  "acceptable e =
     (wf_entry e \<and> all_finite (session_id e) \<and> all_finite (source e) \<and> all_finite (content e) \<and>
      all_finite (metadata e))"

lemma all_finite_build: "acceptable e \<Longrightarrow> all_finite p \<Longrightarrow> all_finite (build_canonical_entry e p)"
  by (simp add: acceptable_def build_canonical_entry_def)

lemma tip_cases: "chained sha p es \<Longrightarrow> tip es = JNull \<or> (\<exists>h. tip es = JStr h)"
proof (induction es arbitrary: p)
  case (Cons e es)
  then show ?case by (cases es) (auto simp: tip_def sealed_def)
qed (simp add: tip_def)

lemma entry_line_norm [simp]:
  "entry_line sid (norm_entry (e\<lparr>shard := x\<rparr>)) = entry_line sid e"
proof -
  have "norm (entry_dict sid (norm_entry (e\<lparr>shard := x\<rparr>))) = norm (entry_dict sid e)"
    by (simp add: entry_dict_def norm_entry_def)
  then show ?thesis by (simp add: entry_line_def dumps_sorted_def)
qed

lemma compute_hash_Inr:
  "acceptable e \<Longrightarrow> all_finite p \<Longrightarrow>
   \<exists>h. compute_canonical_entry_hash sha e p = Inr h"
  using all_finite_build [of e p] hash_canonical_Inr [of sha "build_canonical_entry e p"]
  by (auto simp: compute_canonical_entry_hash_def)

lemma tip_json:
  assumes "chained sha JNull es"
  shows "wf_json (tip es)" and "all_finite (tip es)" and "norm (tip es) = tip es"
  using tip_cases [OF assms] by auto

text \<open>The write half of an append, on a shard that satisfies the invariant.\<close>

lemma append_write_inv:
  assumes inv: "shard_inv sha sid s es" and acc: "acceptable e"
    and lss: "seg_inv (family_name sid) (family_of sid s) lss" "concat lss = map (entry_line sid) es"
  obtains st fam name a b h e' line where
    "compute_canonical_entry_hash sha e (tip es) = Inr h"
    and "e' = e\<lparr>prev_hash := tip es, hash := JStr h\<rparr>" and "line = entry_line sid e' @ [NL]"
    and "append_write sha sid e s = (put_family (family_name sid) (append_text name line fam) st, Inr (e', line))"
    and "pins st = pins s" and "\<forall>sid'. family_name sid' \<noteq> family_name sid \<longrightarrow> family_of sid' st = family_of sid' s"
    and "read_segment_meta fam = Some (segment_meta_obj (JStr name) (JInt a) (JInt b))"
    and "seg_inv (family_name sid) (write_segment_meta_atomic
           (segment_meta_obj (JStr name) (JInt (a + 1)) (JInt (b + int (utf8_len line))))
           (append_text name line fam)) (add_line lss (entry_line sid e'))"
proof -
  let ?nm = "family_name sid"
  have chain: "chained sha JNull es" using inv by (simp add: shard_inv_def)
  obtain h where h: "compute_canonical_entry_hash sha e (tip es) = Inr h"
    using compute_hash_Inr [OF acc tip_json(2) [OF chain]] by blast
  define e' where "e' = e\<lparr>prev_hash := tip es, hash := JStr h\<rparr>"
  have "wf_entry e'" using acc tip_json [OF chain] by (simp add: e'_def acceptable_def wf_entry_def)
  then obtain fam name a b where fam: "get_active_segment_path ?nm (family_of sid s) = Inr (fam, name)"
    and meta: "read_segment_meta fam = Some (segment_meta_obj (JStr name) (JInt a) (JInt b))"
    and inv': "seg_inv ?nm (write_segment_meta_atomic
           (segment_meta_obj (JStr name) (JInt (a + 1)) (JInt (b + int (utf8_len (entry_line sid e' @ [NL])))))
           (append_text name (entry_line sid e' @ [NL]) fam)) (add_line lss (entry_line sid e'))"
    using seg_inv_add_line [OF lss(1) clean_entry_line] by metis
  obtain st where st: "get_shard_family_dir sid s = (st, family_of sid s)" using get_dir_eq by blast
  have last: "get_last_hash sid s' = tip es" if "pins s' = pins s" for s'
    using inv that get_last_hash_inv [of sid es s'] by (simp add: shard_inv_def)
  have "append_write sha sid e s =
      (put_family ?nm (append_text name (entry_line sid e' @ [NL]) fam) st, Inr (e', entry_line sid e' @ [NL]))"
    using get_dir_props [OF st] last h
    by (simp add: append_write_def get_active_segment_def st fam Let_def write_segment_present
        append_text_twice e'_def)
  with h fam meta inv' get_dir_props [OF st] show ?thesis
    by (intro that [OF h e'_def refl, where st = st and fam = fam and name = name and a = a and b = b]) auto
qed

lemma stored_props:
  assumes "chained sha JNull es" and "acceptable e"
    and "compute_canonical_entry_hash sha e (tip es) = Inr h"
  shows "chained sha JNull (es @ [stored_entry sha sid (tip es) e])"
    and "shard (stored_entry sha sid (tip es) e) = JStr sid"
    and "hash (stored_entry sha sid (tip es) e) = JStr h"
    and "timestamp (stored_entry sha sid (tip es) e) = timestamp e"
    and "entry_line sid (stored_entry sha sid (tip es) e)
          = entry_line sid (e\<lparr>prev_hash := tip es, hash := JStr h\<rparr>)"
proof -
  let ?r = "stored_entry sha sid (tip es) e"
  have r: "?r = norm_entry (e\<lparr>prev_hash := tip es, hash := JStr h, shard := JStr sid\<rparr>)"
    by (simp add: stored_entry_def assms(3))
  show "shard ?r = JStr sid" "hash ?r = JStr h" "timestamp ?r = timestamp e"
    by (simp_all add: r norm_entry_def)
  show "entry_line sid ?r = entry_line sid (e\<lparr>prev_hash := tip es, hash := JStr h\<rparr>)"
    by (simp add: r)
  have prev: "prev_hash ?r = tip es"
    using tip_json(3) [OF assms(1)] by (simp add: r norm_entry_def)
  have "norm (build_canonical_entry ?r (tip es)) = norm (build_canonical_entry e (tip es))"
    using build_norm [of "e\<lparr>prev_hash := tip es, hash := JStr h, shard := JStr sid\<rparr>" "tip es"]
      tip_json(3) [OF assms(1)] by (simp add: r)
  then have "hash_canonical sha (build_canonical_entry ?r (tip es)) = Inr h"
    using assms(3) hash_canonical_norm by (metis compute_canonical_entry_hash_def)
  moreover have "wf_entry ?r"
    using assms(2) tip_json [OF assms(1)] by (simp add: r acceptable_def) (simp add: wf_entry_def)
  ultimately have "sealed sha ?r" using prev by (simp add: sealed_def \<open>hash ?r = JStr h\<close>)
  then show "chained sha JNull (es @ [?r])"
    using assms(1) prev by (simp add: chained_snoc r)
qed

theorem append_inv:
  assumes inv: "shard_inv sha sid s es" and acc: "acceptable e" and sid: "shard_of e = Inr sid"
  obtains s' e' where "append sha now e s = (s', Inr e')"
    and "shard_inv sha sid s' (es @ [stored_entry sha sid (tip es) e])"
    and "hash e' = hash (stored_entry sha sid (tip es) e)" and "prev_hash e' = tip es"
    and "\<forall>sid'. family_name sid' \<noteq> family_name sid \<longrightarrow> family_of sid' s' = family_of sid' s"
    and "\<forall>sid'. sid' \<noteq> sid \<longrightarrow> dget sid' (pins s') = dget sid' (pins s)"
proof -
  let ?nm = "family_name sid" and ?r = "stored_entry sha sid (tip es) e"
  obtain lss where lss: "seg_inv ?nm (family_of sid s) lss" "concat lss = map (entry_line sid) es"
    using inv by (auto simp: shard_inv_def)
  obtain st fam name a b h e' line where h: "compute_canonical_entry_hash sha e (tip es) = Inr h"
    and e': "e' = e\<lparr>prev_hash := tip es, hash := JStr h\<rparr>" and line: "line = entry_line sid e' @ [NL]"
    and w: "append_write sha sid e s = (put_family ?nm (append_text name line fam) st, Inr (e', line))"
    and st: "pins st = pins s" "\<forall>sid'. family_name sid' \<noteq> ?nm \<longrightarrow> family_of sid' st = family_of sid' s"
    and meta: "read_segment_meta fam = Some (segment_meta_obj (JStr name) (JInt a) (JInt b))"
    and inv': "seg_inv ?nm (write_segment_meta_atomic
           (segment_meta_obj (JStr name) (JInt (a + 1)) (JInt (b + int (utf8_len line))))
           (append_text name line fam)) (add_line lss (entry_line sid e'))"
    by (rule append_write_inv [OF inv acc lss])
  let ?s1 = "put_family ?nm (append_text name line fam) st"
  let ?doc = "JObj (pin_doc sid (JStr h) now (JInt (int (length es) + 1))
       (JStr (isoformat (timestamp (hd (es @ [e]))))) (JStr (isoformat (timestamp e))))"
  have pin: "pin_matches sid es (dget sid (pins s))" and chain: "chained sha JNull es"
    using inv by (simp_all add: shard_inv_def)
  have commit: "commit_integrity_and_metadata now sid e' ?s1 = (put_pin sid ?doc ?s1, Inr ())"
  proof (cases es)
    case Nil
    with pin st e' show ?thesis
      by (simp add: commit_integrity_and_metadata_def existing_pin_def pin_matches_def Let_def)
  next
    case (Cons d ds)
    with pin st e' show ?thesis
      by (auto simp: commit_integrity_and_metadata_def existing_pin_def pin_matches_def Let_def)
  qed
  let ?s2 = "put_pin sid ?doc ?s1"
  let ?f3 = "write_segment_meta_atomic
      (segment_meta_obj (JStr name) (JInt (a + 1)) (JInt (b + int (utf8_len line)))) (append_text name line fam)"
  have "get_shard_family_dir sid ?s2 = (?s2, append_text name line fam)"
    by (simp add: get_shard_family_dir_def)
  then have upd: "update_active_segment_metadata sid 1 (int (utf8_len line)) ?s2
      = (put_family ?nm ?f3 ?s2, Inr ())"
    by (simp add: update_active_segment_metadata_def meta)
  let ?s3 = "put_family ?nm ?f3 ?s2"
  have app: "append sha now e s = (?s3, Inr e')"
    by (simp add: append_def sid w commit upd)
  note sp = stored_props [OF chain acc h, of sid]
  have "pin_matches sid (es @ [?r]) (dget sid (pins ?s3))"
    using sp(3,4) by (cases es) (auto simp: pin_matches_def)
  moreover have "seg_inv ?nm (family_of sid ?s3) (add_line lss (entry_line sid e'))"
    using inv' by simp
  moreover have "concat (add_line lss (entry_line sid e')) = map (entry_line sid) (es @ [?r])"
    using lss(2) sp(5) e' by simp
  ultimately have "shard_inv sha sid ?s3 (es @ [?r])"
    unfolding shard_inv_def using sp(1,2) inv by (auto simp: shard_inv_def)
  moreover have "family_of sid' ?s3 = family_of sid' s" if "family_name sid' \<noteq> ?nm" for sid'
    using st(2) that by (simp add: eq_commute)
  moreover have "dget sid' (pins ?s3) = dget sid' (pins s)" if "sid' \<noteq> sid" for sid'
    using st(1) that by simp
  ultimately show ?thesis
    using that [OF app] sp(3) e' by auto
qed

text \<open>An append leaves every shard of another family as it is.\<close>

lemma append_frame:
  assumes "shard_inv sha sid s es" and "acceptable e" and "shard_of e = Inr sid"
    and "shard_inv sha sid' s es'" and "family_name sid' \<noteq> family_name sid"
  shows "shard_inv sha sid' (fst (append sha now e s)) es'"
proof -
  obtain s' e' where app: "append sha now e s = (s', Inr e')"
    and "\<forall>sid'. family_name sid' \<noteq> family_name sid \<longrightarrow> family_of sid' s' = family_of sid' s"
    and "\<forall>sid'. sid' \<noteq> sid \<longrightarrow> dget sid' (pins s') = dget sid' (pins s)"
    by (rule append_inv [OF assms(1-3)])
  then have "family_of sid' s' = family_of sid' s" "dget sid' (pins s') = dget sid' (pins s)"
    using assms(5) by auto
  with assms(4) app show ?thesis by (simp add: shard_inv_def)
qed

end
