(* ===== verification/Verify.thy ===== *)
theory Verify
  imports Storage_Laws
begin

text \<open>
  \<^verbatim>\<open>src/dsm/verify.py\<close> and \<^verbatim>\<open>Storage.startup_check\<close>: the hash-chain verifier with its
  completeness check against the integrity pin. The verdict is a record with every field
  of the dict the code returns.
\<close>

datatype verify_status = V_OK | V_TAMPERED | V_CHAIN_BROKEN
datatype pin_status = PINNED_OK | UNPINNED | TIP_MISMATCH | AHEAD_OF_PIN
datatype mismatch_type = M_TRUNCATION | M_COUNT_MISMATCH | M_TIP_MISMATCH

record verify_result =
  v_shard_id :: string
  total_entries :: nat
  verified :: nat
  tampered :: nat
  chain_breaks :: nat
  v_status :: verify_status
  v_pin_status :: pin_status
  expected_last_hash :: json
  observed_last_hash :: json
  expected_entry_count :: json
  observed_entry_count :: nat
  chain_tip_mismatch :: bool
  entry_count_mismatch :: bool
  truncation_detected :: bool
  v_mismatch_type :: "mismatch_type option"
  v_warnings :: "string list"

text \<open>An absent or unreadable pin and a JSON null are None.\<close>

definition read_pin :: "string \<Rightarrow> fs \<Rightarrow> json" where
  "read_pin sid s = (case dget sid (pins s) of Some (Some j) \<Rightarrow> j | _ \<Rightarrow> JNull)"

fun load_entries :: "json list \<Rightarrow> entry list res" where
  "load_entries [] = Inr []"
| "load_entries (ev # evs) =
     (case entry_from_event_data ev of
        Inr e \<Rightarrow> rbind (load_entries evs) (\<lambda>es. Inr (e # es))
      | Inl err \<Rightarrow> (if swallowed err then load_entries evs else Inl err))"

text \<open>The counters of the verification loop.\<close>

record counters =
  c_verified :: nat
  c_tampered :: nat
  c_breaks :: nat
  c_prev :: json

definition chain_ok :: "json \<Rightarrow> entry \<Rightarrow> bool" where
  "chain_ok prev e = ((prev = JNull \<and> prev_hash e = JNull) \<or> (prev \<noteq> JNull \<and> prev_hash e = prev))"

text \<open>Any exception while hashing counts as a mismatch.\<close>

definition hash_ok :: "sha \<Rightarrow> entry \<Rightarrow> bool" where
  "hash_ok sha e =
     (truthy (hash e) \<and> verify_hash sha (build_canonical_entry e (prev_hash e)) (hash e) = Inr True)"

definition verify_step :: "sha \<Rightarrow> counters \<Rightarrow> entry \<Rightarrow> counters" where
  "verify_step sha c e =
     (let ok = chain_ok (c_prev c) e; hok = hash_ok sha e in
      \<lparr>c_verified = c_verified c + (if ok \<and> hok then 1 else 0),
       c_tampered = c_tampered c + (if hok then 0 else 1),
       c_breaks = c_breaks c + (if c_prev c \<noteq> JNull \<and> \<not> ok then 1 else 0),
       c_prev = (if truthy (hash e) then hash e else c_prev c)\<rparr>)"

definition verify_loop :: "sha \<Rightarrow> entry list \<Rightarrow> counters" where
  "verify_loop sha es =
     foldl (verify_step sha) \<lparr>c_verified = 0, c_tampered = 0, c_breaks = 0, c_prev = JNull\<rparr> es"

record pin_check =
  k_pin :: pin_status
  k_expected_hash :: json
  k_expected_count :: json
  k_tip_mismatch :: bool
  k_count_mismatch :: bool
  k_truncated :: bool
  k_mismatch :: "mismatch_type option"
  k_warnings :: "string list"

definition UNPINNED_WARNING :: string where
  "UNPINNED_WARNING = ''UNPINNED_SHARD: no integrity pin found; append-only completeness (truncation resistance) cannot be verified for this shard''"

definition AHEAD_WARNING :: string where
  "AHEAD_WARNING = ''AHEAD_OF_PIN: segment holds more entries than the pin; run reconcile_shard() to advance the pin''"

text \<open>The completeness check against the pinned tip.\<close>

definition check_pin :: "json \<Rightarrow> json \<Rightarrow> nat \<Rightarrow> pin_check res" where
  "check_pin pin observed cnt =
     rbind (if truthy pin then jget ''last_hash'' JNull pin else Inr JNull) (\<lambda>eh.
     rbind (if truthy pin then jget ''entry_count'' JNull pin else Inr JNull) (\<lambda>ec.
       if \<not> truthy pin \<or> \<not> truthy eh then
         Inr \<lparr>k_pin = UNPINNED, k_expected_hash = eh, k_expected_count = ec, k_tip_mismatch = False,
              k_count_mismatch = False, k_truncated = False, k_mismatch = None,
              k_warnings = [UNPINNED_WARNING]\<rparr>
       else
         (let tm = (observed \<noteq> eh); cm = (ec \<noteq> JNull \<and> JInt (int cnt) \<noteq> ec) in
          rbind (if ec = JNull then Inr None else rbind (as_num ec) (\<lambda>n. Inr (Some n))) (\<lambda>n.
            let base = \<lparr>k_pin = PINNED_OK, k_expected_hash = eh, k_expected_count = ec, k_tip_mismatch = tm,
                        k_count_mismatch = cm, k_truncated = False, k_mismatch = None, k_warnings = []\<rparr> in
            case n of
              Some m \<Rightarrow>
                (if int cnt < m then
                   Inr (base\<lparr>k_pin := TIP_MISMATCH, k_truncated := True, k_mismatch := Some M_TRUNCATION\<rparr>)
                 else if m < int cnt then
                   Inr (base\<lparr>k_pin := AHEAD_OF_PIN, k_warnings := [AHEAD_WARNING]\<rparr>)
                 else if tm then
                   Inr (base\<lparr>k_pin := TIP_MISMATCH,
                             k_mismatch := Some (if cm then M_COUNT_MISMATCH else M_TIP_MISMATCH)\<rparr>)
                 else Inr base)
            | None \<Rightarrow>
                (if tm then
                   Inr (base\<lparr>k_pin := TIP_MISMATCH,
                             k_mismatch := Some (if cm then M_COUNT_MISMATCH else M_TIP_MISMATCH)\<rparr>)
                 else Inr base)))))"

definition verify_entries :: "sha \<Rightarrow> string \<Rightarrow> json \<Rightarrow> entry list \<Rightarrow> verify_result res" where
  "verify_entries sha sid pin es =
     (let c = verify_loop sha es; observed = (if es = [] then JNull else hash (last es)) in
      rbind (check_pin pin observed (length es)) (\<lambda>k.
        Inr \<lparr>v_shard_id = sid, total_entries = length es, verified = c_verified c, tampered = c_tampered c,
             chain_breaks = c_breaks c,
             v_status = (if 0 < c_tampered c then V_TAMPERED
                         else if 0 < c_breaks c then V_CHAIN_BROKEN
                         else if k_pin k = TIP_MISMATCH then V_TAMPERED else V_OK),
             v_pin_status = k_pin k, expected_last_hash = k_expected_hash k, observed_last_hash = observed,
             expected_entry_count = k_expected_count k, observed_entry_count = length es,
             chain_tip_mismatch = k_tip_mismatch k, entry_count_mismatch = k_count_mismatch k,
             truncation_detected = k_truncated k, v_mismatch_type = k_mismatch k,
             v_warnings = k_warnings k\<rparr>))"

definition verify_shard :: "sha \<Rightarrow> string \<Rightarrow> fs \<Rightarrow> fs \<times> verify_result res" where
  "verify_shard sha sid s =
     (let (s1, evs) = iter_shard_events sid s
      in (s1, rbind (load_entries evs) (\<lambda>es. verify_entries sha sid (read_pin sid s1) es)))"

fun verify_ids :: "sha \<Rightarrow> string list \<Rightarrow> fs \<Rightarrow> fs \<times> verify_result list res" where
  "verify_ids sha [] s = (s, Inr [])"
| "verify_ids sha (sid # ids) s =
     (case verify_shard sha sid s of
        (s1, Inl err) \<Rightarrow> (s1, Inl err)
      | (s1, Inr r) \<Rightarrow>
          (case verify_ids sha ids s1 of
             (s2, Inl err) \<Rightarrow> (s2, Inl err)
           | (s2, Inr rs) \<Rightarrow> (s2, Inr (r # rs))))"

definition verify_all :: "sha \<Rightarrow> datetime \<Rightarrow> (string \<Rightarrow> datetime) \<Rightarrow> fs \<Rightarrow> fs \<times> verify_result list res" where
  "verify_all sha now mtime s =
     (case list_shards now mtime s of
        Inl err \<Rightarrow> (s, Inl err)
      | Inr ms \<Rightarrow> verify_ids sha (map sm_shard_id ms) s)"

datatype startup_status = ST_OK | ST_RECONCILED | ST_INTEGRITY_ERROR

record startup_result =
  su_reconciled :: "(string \<times> reconcile_result) list"
  su_verified :: "verify_result list"
  su_status :: startup_status
  su_shards_reconciled :: nat
  su_shards_with_errors :: nat

definition was_reconciled :: "reconcile_result \<Rightarrow> bool" where
  "was_reconciled r = (case r of Reconciled _ _ _ \<Rightarrow> True | TruncationAccepted _ _ _ \<Rightarrow> True | _ \<Rightarrow> False)"

definition startup_check :: "sha \<Rightarrow> datetime \<Rightarrow> (string \<Rightarrow> datetime) \<Rightarrow> bool \<Rightarrow> fs \<Rightarrow> fs \<times> startup_result" where
  "startup_check sha now mtime full_verify s =
     (let (s1, rr) = reconcile_all now mtime s;
          r0 = (case rr of
                  Inr rs \<Rightarrow>
                    (let n = length (filter (\<lambda>(_, r). was_reconciled r) rs)
                     in \<lparr>su_reconciled = rs, su_verified = [],
                         su_status = (if 0 < n then ST_RECONCILED else ST_OK),
                         su_shards_reconciled = n, su_shards_with_errors = 0\<rparr>)
                | Inl _ \<Rightarrow>
                    \<lparr>su_reconciled = [], su_verified = [], su_status = ST_INTEGRITY_ERROR,
                     su_shards_reconciled = 0, su_shards_with_errors = 0\<rparr>)
      in if \<not> full_verify then (s1, r0)
         else
           (case verify_all sha now mtime s1 of
              (s2, Inr vs) \<Rightarrow>
                (let errors = length (filter (\<lambda>v. v_status v \<noteq> V_OK) vs)
                 in (s2, r0\<lparr>su_verified := vs, su_shards_with_errors := errors,
                            su_status := (if 0 < errors then ST_INTEGRITY_ERROR
                                          else if su_status r0 \<noteq> ST_RECONCILED then ST_OK
                                          else su_status r0)\<rparr>))
            | (s2, Inl _) \<Rightarrow> (s2, r0\<lparr>su_status := ST_INTEGRITY_ERROR\<rparr>)))"

end
