(* ===== verification/Verify_Laws.thy ===== *)
theory Verify_Laws
  imports Verify
begin

text \<open>
  What the verifier guarantees: a log written by \<open>append\<close> verifies, the counters say
  exactly which entries fail, and a log that verifies against a pin is bound to it. The
  interfaces \<open>append_log\<close> and \<open>hash_chain\<close> are interpreted here on the model's own
  append and on its entries.
\<close>

section \<open>Reading the log of a shard\<close>

text \<open>The entries of a shard, oldest first, as the verifier loads them.\<close>

definition shard_log :: "string \<Rightarrow> fs \<Rightarrow> entry list" where
  "shard_log sid s = (case load_entries (snd (iter_shard_events sid s)) of Inr es \<Rightarrow> es | Inl _ \<Rightarrow> [])"

lemma stored_back:
  assumes "sealed sha e" and "norm_entry e = e" and "shard e = JStr sid"
  shows "event_of_line (entry_line sid e) = Some (norm (entry_dict sid e))"
    and "entry_from_event_data (norm (entry_dict sid e)) = Inr e"
proof -
  have wf: "wf_entry e" using assms(1) by (simp add: sealed_def)
  then show "event_of_line (entry_line sid e) = Some (norm (entry_dict sid e))"
    by (rule event_of_entry_line)
  have "e\<lparr>shard := JStr sid\<rparr> = e" using assms(3) by simp
  then show "entry_from_event_data (norm (entry_dict sid e)) = Inr e"
    using entry_from_event_entry [OF wf, of sid] assms(2) by simp
qed

lemma chained_stored:
  "chained sha p es \<Longrightarrow> e \<in> set es \<Longrightarrow> sealed sha e \<and> norm_entry e = e"
  by (induction es arbitrary: p) auto

lemma events_of_entry_lines:
  "\<forall>e \<in> set es. sealed sha e \<and> norm_entry e = e \<and> shard e = JStr sid \<Longrightarrow>
   events_of_lines (map (entry_line sid) es) = map (\<lambda>e. norm (entry_dict sid e)) es"
  by (induction es) (auto simp: events_of_lines_def List.map_filter_def stored_back)

lemma load_entry_events:
  "\<forall>e \<in> set es. sealed sha e \<and> norm_entry e = e \<and> shard e = JStr sid \<Longrightarrow>
   load_entries (map (\<lambda>e. norm (entry_dict sid e)) es) = Inr es"
  by (induction es) (auto simp: stored_back)

lemma shard_inv_stored:
  "shard_inv sha sid s es \<Longrightarrow> \<forall>e \<in> set es. sealed sha e \<and> norm_entry e = e \<and> shard e = JStr sid"
  by (auto simp: shard_inv_def dest: chained_stored)

lemma shard_events:
  assumes "shard_inv sha sid s es"
  shows "snd (iter_shard_events sid s) = map (\<lambda>e. norm (entry_dict sid e)) es"
proof -
  obtain lss where lss: "seg_inv (family_name sid) (family_of sid s) lss" "concat lss = map (entry_line sid) es"
    using assms by (auto simp: shard_inv_def)
  obtain s1 where "get_shard_family_dir sid s = (s1, family_of sid s)" using get_dir_eq by blast
  then show ?thesis
    using family_events [OF lss(1)] lss(2) events_of_entry_lines [OF shard_inv_stored [OF assms]]
    by (simp add: iter_shard_events_def)
qed

lemma load_shard: "shard_inv sha sid s es \<Longrightarrow> load_entries (snd (iter_shard_events sid s)) = Inr es"
  using shard_events load_entry_events [OF shard_inv_stored] by simp

lemma shard_log_inv: "shard_inv sha sid s es \<Longrightarrow> shard_log sid s = es"
  by (simp add: shard_log_def load_shard)

lemma append_log_step:
  assumes "shard_inv sha sid s es" and "acceptable e" and "shard_of e = Inr sid"
  shows "shard_inv sha sid (fst (append sha now e s)) (es @ [stored_entry sha sid (tip es) e])"
  using append_inv [OF assms] by (metis fst_conv)

text \<open>
  An append is a request at a time. A history is a sequence of them, run from some state.
\<close>

type_synonym request = "datetime \<times> entry"

definition run_append :: "sha \<Rightarrow> request \<Rightarrow> fs \<Rightarrow> fs" where
  "run_append sha a s = fst (append sha (fst a) (snd a) s)"

abbreviation run_appends :: "sha \<Rightarrow> request list \<Rightarrow> fs \<Rightarrow> fs" where
  "run_appends sha xs s \<equiv> fold (run_append sha) xs s"

text \<open>The requests for a shard that the kernel accepts.\<close>

definition request_ok :: "string \<Rightarrow> request \<Rightarrow> bool" where
  "request_ok sid a = (acceptable (snd a) \<and> shard_of (snd a) = Inr sid)"

interpretation shard: append_log
  "\<lambda>s. shard_inv sha sid s (shard_log sid s)" "shard_log sid" "request_ok sid"
  "run_append sha" "\<lambda>s a. stored_entry sha sid (tip (shard_log sid s)) (snd a)"
  for sha :: sha and sid :: string
proof
  fix s a
  assume inv: "shard_inv sha sid s (shard_log sid s)" and a: "request_ok sid a"
  let ?es = "shard_log sid s @ [stored_entry sha sid (tip (shard_log sid s)) (snd a)]"
  have step: "shard_inv sha sid (run_append sha a s) ?es"
    using append_log_step [OF inv] a by (simp add: run_append_def request_ok_def)
  then show log: "shard_log sid (run_append sha a s) = ?es" by (rule shard_log_inv)
  show "shard_inv sha sid (run_append sha a s) (shard_log sid (run_append sha a s))"
    using step log by simp
qed

lemma shard_log_empty [simp]: "shard_log sid empty_fs = []"
  by (rule shard_log_inv) simp

lemma history_inv:
  assumes "\<forall>a \<in> set xs. request_ok sid a"
  shows "shard_inv sha sid (run_appends sha xs empty_fs) (shard_log sid (run_appends sha xs empty_fs))"
  using shard.writes_inv [of sha sid empty_fs xs] assms by simp

lemma history_length:
  assumes "\<forall>a \<in> set xs. request_ok sid a"
  shows "length (shard_log sid (run_appends sha xs empty_fs)) = length xs"
  using shard.writes_length [of sha sid empty_fs xs] assms by simp

section \<open>The verification loop\<close>

lemma verify_loop_snoc: "verify_loop sha (es @ [e]) = verify_step sha (verify_loop sha es) e"
  by (simp add: verify_loop_def)

lemma c_prev_loop:
  "\<forall>e \<in> set es. truthy (hash e) \<Longrightarrow> c_prev (verify_loop sha es) = tip es"
  by (induction es rule: rev_induct) (auto simp: verify_loop_snoc verify_step_def tip_def Let_def verify_loop_def)

text \<open>The counters, as sums over the entries.\<close>

lemma c_tampered_loop: "c_tampered (verify_loop sha es) = length (filter (\<lambda>e. \<not> hash_ok sha e) es)"
  by (induction es rule: rev_induct) (auto simp: verify_loop_snoc verify_step_def Let_def verify_loop_def)

lemma c_verified_le: "c_verified (verify_loop sha es) + c_tampered (verify_loop sha es) \<le> length es"
  by (induction es rule: rev_induct) (auto simp: verify_loop_snoc verify_step_def Let_def verify_loop_def)

lemma hash_ok_truthy: "hash_ok sha e \<Longrightarrow> truthy (hash e)"
  by (simp add: hash_ok_def)

lemma truthy_not_null: "truthy j \<Longrightarrow> j \<noteq> JNull"
  by auto

lemma tip_truthy: "es \<noteq> [] \<Longrightarrow> \<forall>e \<in> set es. truthy (hash e) \<Longrightarrow> truthy (tip es)"
  by (simp add: tip_def)

lemma linked_snoc_tip: "es \<noteq> [] \<Longrightarrow> linked prev_hash hash (es @ [e]) \<longleftrightarrow> linked prev_hash hash es \<and> prev_hash e = tip es"
  by (cases es rule: rev_cases) (auto simp: linked_snoc tip_def)

text \<open>With no failing hash, no break was counted exactly when every entry names its predecessor.\<close>

lemma no_breaks_linked:
  "\<forall>e \<in> set es. hash_ok sha e \<Longrightarrow> c_breaks (verify_loop sha es) = 0 \<longleftrightarrow> linked prev_hash hash es"
proof (induction es rule: rev_induct)
  case Nil
  then show ?case by (simp add: verify_loop_def)
next
  case (snoc e es)
  show ?case
  proof (cases "es = []")
    case True
    then show ?thesis by (simp add: verify_loop_def verify_step_def Let_def)
  next
    case False
    have tr: "\<forall>e \<in> set es. truthy (hash e)" using snoc.prems by (auto intro: hash_ok_truthy)
    then have "tip es \<noteq> JNull" using tip_truthy [OF False] by auto
    with snoc False show ?thesis
      by (auto simp: verify_loop_snoc verify_step_def Let_def c_prev_loop [OF tr] chain_ok_def linked_snoc_tip)
  qed
qed

lemma sealed_hash_ok: "sealed sha e \<Longrightarrow> hash_ok sha e"
  by (auto simp: sealed_def hash_ok_def verify_hash_canonical hash_canonical_Inr V1_PREFIX_def)

lemma all_verified:
  assumes "\<forall>e \<in> set es. hash_ok sha e" and "linked prev_hash hash es"
    and "es = [] \<or> prev_hash (hd es) = JNull"
  shows "c_verified (verify_loop sha es) = length es"
  using assms
proof (induction es rule: rev_induct)
  case Nil
  then show ?case by (simp add: verify_loop_def)
next
  case (snoc e es)
  show ?case
  proof (cases "es = []")
    case True
    with snoc.prems show ?thesis by (simp add: verify_loop_def verify_step_def Let_def chain_ok_def)
  next
    case False
    have tr: "\<forall>e \<in> set es. truthy (hash e)" using snoc.prems by (auto intro: hash_ok_truthy)
    then have "tip es \<noteq> JNull" using tip_truthy [OF False] by auto
    with snoc False show ?thesis
      by (auto simp: verify_loop_snoc verify_step_def Let_def c_prev_loop [OF tr] chain_ok_def linked_snoc_tip)
  qed
qed

section \<open>The verdict on an honest log\<close>

lemma iter_pins [simp]: "pins (fst (iter_shard_events sid s)) = pins s"
  by (auto simp: iter_shard_events_def get_shard_family_dir_def Let_def split: option.splits)

lemma verify_shard_entries:
  assumes "load_entries (snd (iter_shard_events sid s)) = Inr es"
  shows "verify_shard sha sid s = (fst (iter_shard_events sid s), verify_entries sha sid (read_pin sid s) es)"
  using assms by (simp add: verify_shard_def read_pin_def case_prod_unfold)

lemma chained_hash_ok: "chained sha p es \<Longrightarrow> \<forall>e \<in> set es. hash_ok sha e"
  using chained_stored sealed_hash_ok by blast

lemma chained_counts:
  assumes "chained sha JNull es"
  shows "c_tampered (verify_loop sha es) = 0" and "c_breaks (verify_loop sha es) = 0"
    and "c_verified (verify_loop sha es) = length es"
proof -
  note ok = chained_hash_ok [OF assms]
  show "c_tampered (verify_loop sha es) = 0" using ok by (simp add: c_tampered_loop)
  show "c_breaks (verify_loop sha es) = 0" using no_breaks_linked [OF ok] chained_linked [OF assms] by simp
  have "es = [] \<or> prev_hash (hd es) = JNull" using assms by (cases es) auto
  then show "c_verified (verify_loop sha es) = length es"
    by (rule all_verified [OF ok chained_linked [OF assms]])
qed

lemma check_pin_of:
  assumes "es \<noteq> []" and "chained sha JNull es"
    and "pin_matches sid es (dget sid (pins s))"
  shows "check_pin (read_pin sid s) obs n = Inr \<lparr>
    k_pin = (if n < length es then TIP_MISMATCH else if length es < n then AHEAD_OF_PIN
             else if obs = tip es then PINNED_OK else TIP_MISMATCH),
    k_expected_hash = tip es, k_expected_count = JInt (int (length es)),
    k_tip_mismatch = (obs \<noteq> tip es), k_count_mismatch = (n \<noteq> length es),
    k_truncated = (n < length es),
    k_mismatch = (if n < length es then Some M_TRUNCATION
                  else if n = length es \<and> obs \<noteq> tip es then Some M_TIP_MISMATCH else None),
    k_warnings = (if length es < n then [AHEAD_WARNING] else [])\<rparr>"
proof -
  have "hash_ok sha (last es)" using chained_hash_ok [OF assms(2)] assms(1) by simp
  then have "truthy (hash (last es))" by (rule hash_ok_truthy)
  with assms show ?thesis
    by (auto simp: pin_matches_def read_pin_def check_pin_def as_num_def tip_def Let_def pin_doc_def)
qed

text \<open>A chain from the start, loaded against the pin that belongs to it.\<close>

lemma verify_loaded:
  assumes load: "load_entries (snd (iter_shard_events sid s)) = Inr es"
    and chain: "chained sha JNull es" and pin: "pin_matches sid es (dget sid (pins s))"
  obtains r where "verify_shard sha sid s = (fst (iter_shard_events sid s), Inr r)"
    and "v_status r = V_OK" and "total_entries r = length es" and "verified r = length es"
    and "tampered r = 0" and "chain_breaks r = 0"
    and "v_pin_status r = (if es = [] then UNPINNED else PINNED_OK)"
    and "observed_last_hash r = tip es" and "expected_last_hash r = tip es"
proof -
  note vs = verify_shard_entries [OF load]
  show ?thesis
  proof (cases "es = []")
    case True
    with pin have "read_pin sid s = JNull" by (simp add: pin_matches_def read_pin_def)
    with True vs that show ?thesis
      by (simp add: verify_entries_def check_pin_def verify_loop_def tip_def)
  next
    case False
    with vs chained_counts [OF chain] that check_pin_of [OF False chain pin] show ?thesis
      by (simp add: verify_entries_def tip_def Let_def)
  qed
qed

lemma shard_invD:
  assumes "shard_inv sha sid s es"
  shows "chained sha JNull es" and "pin_matches sid es (dget sid (pins s))"
  using assms by (simp_all add: shard_inv_def)

lemmas verify_inv = verify_loaded [OF load_shard shard_invD(1) shard_invD(2)]

section \<open>Tamper evidence\<close>

definition covered :: "entry \<Rightarrow> json" where
  "covered e = norm (build_canonical_entry e (prev_hash e))"

definition message :: "entry \<Rightarrow> string" where
  "message e = dumps_sorted compact_ascii (build_canonical_entry e (prev_hash e))"

definition json_fields :: "entry \<Rightarrow> bool" where
  "json_fields e = (wf_json (session_id e) \<and> wf_json (source e) \<and> wf_json (content e) \<and>
     wf_json (prev_hash e) \<and> wf_json (metadata e))"

lemma json_fields_build: "json_fields e \<Longrightarrow> wf_json (build_canonical_entry e (prev_hash e))"
  by (simp add: json_fields_def build_canonical_entry_def)

lemma sealed_json_fields: "sealed sha e \<Longrightarrow> json_fields e"
  by (simp add: sealed_def wf_entry_def json_fields_def)

lemma jget_wf: "wf_json j \<Longrightarrow> wf_json dflt \<Longrightarrow> jget k dflt j = Inr v \<Longrightarrow> wf_json v"
  by (cases j) (auto simp: jget_def list_all_iff split: option.splits dest: map_of_SomeD)

lemma rbind_Inr: "rbind m f = Inr y \<longleftrightarrow> (\<exists>x. m = Inr x \<and> f x = Inr y)"
  by (cases m) auto

lemma entry_from_event_json:
  assumes "wf_json ev" and "entry_from_event_data ev = Inr e"
  shows "json_fields e"
  using assms(2) jget_wf [OF assms(1)]
  by (force simp: entry_from_event_data_def rbind_Inr json_fields_def)

lemma load_entries_json:
  "\<forall>ev \<in> set evs. wf_json ev \<Longrightarrow> load_entries evs = Inr es \<Longrightarrow> \<forall>e \<in> set es. json_fields e"
proof (induction evs arbitrary: es)
  case (Cons ev evs)
  then show ?case
    by (auto simp: rbind_Inr split: sum.splits if_splits dest: entry_from_event_json)
qed simp

lemma event_of_line_wf: "event_of_line l = Some ev \<Longrightarrow> wf_json ev"
  by (auto simp: event_of_line_def split: if_splits dest: loads_wf)

lemma events_of_lines_wf: "ev \<in> set (events_of_lines ls) \<Longrightarrow> wf_json ev"
  by (auto simp: events_of_lines_def List.map_filter_def dest: event_of_line_wf)

lemma iter_events_wf: "\<forall>ev \<in> set (snd (iter_shard_events sid s)). wf_json ev"
  by (auto simp: iter_shard_events_def Let_def case_prod_unfold dest: events_of_lines_wf)

lemma loaded_json:
  "load_entries (snd (iter_shard_events sid s)) = Inr es \<Longrightarrow> \<forall>e \<in> set es. json_fields e"
  using load_entries_json [OF iter_events_wf] .

lemma covered_prev: "covered a = covered b \<Longrightarrow> norm (prev_hash a) = norm (prev_hash b)"
proof -
  have "map_of (case covered e of JObj d \<Rightarrow> d) ''prev_hash'' = Some (norm (prev_hash e))" for e
    unfolding covered_def build_canonical_entry_def norm.simps(2) json.case
    by (subst dget_norm) simp_all
  then show "covered a = covered b \<Longrightarrow> norm (prev_hash a) = norm (prev_hash b)"
    by (metis option.inject)
qed

lemma hash_ok_str: "hash_ok sha e \<Longrightarrow> \<exists>h. hash e = JStr h"
  by (cases "hash e") (auto simp: hash_ok_def verify_hash_def)

interpretation chain: hash_chain
  "\<lambda>e. norm (prev_hash e)" "\<lambda>e. norm (hash e)" covered
  "\<lambda>e. hash_ok sha e \<and> json_fields e \<and> message e \<in> M \<and> inj_on sha M"
  for sha :: sha and M :: "string set"
proof
  fix a b
  assume a: "hash_ok sha a \<and> json_fields a \<and> message a \<in> M \<and> inj_on sha M"
    and b: "hash_ok sha b \<and> json_fields b \<and> message b \<in> M \<and> inj_on sha M"
    and eq: "norm (hash a) = norm (hash b)"
  have "hash a = hash b" using eq a b hash_ok_str [of sha a] hash_ok_str [of sha b] by auto
  moreover have "inj_on sha {message a, message b}" using a b by (auto simp: inj_on_eq_iff)
  moreover have "verify_hash sha (build_canonical_entry a (prev_hash a)) (hash a) = Inr True"
    "verify_hash sha (build_canonical_entry b (prev_hash b)) (hash b) = Inr True"
    using a b by (simp_all add: hash_ok_def)
  ultimately show "covered a = covered b"
    unfolding covered_def message_def
    using a b verify_hash_binds json_fields_build by metis
qed (rule covered_prev)

lemma linked_map: "linked p d es \<Longrightarrow> linked (\<lambda>e. f (p e)) (\<lambda>e. f (d e)) es"
  by (induction p d es rule: linked.induct) auto

text \<open>What an OK verdict says of the entries that were loaded.\<close>

lemma verify_entries_ok:
  assumes "verify_entries sha sid pin es = Inr r" and "v_status r = V_OK"
  shows "\<forall>e \<in> set es. hash_ok sha e" and "linked prev_hash hash es"
proof -
  have "c_tampered (verify_loop sha es) = 0" "c_breaks (verify_loop sha es) = 0"
    using assms by (auto simp: verify_entries_def Let_def rbind_Inr split: if_splits)
  then show ok: "\<forall>e \<in> set es. hash_ok sha e" by (simp add: c_tampered_loop filter_empty_conv)
  show "linked prev_hash hash es"
    using no_breaks_linked [OF ok] \<open>c_breaks (verify_loop sha es) = 0\<close> by simp
qed

lemma same_pin: "dget sid (pins s') = dget sid (pins s) \<Longrightarrow> read_pin sid s' = read_pin sid s"
  by (simp add: read_pin_def)

lemma shard_log_loaded:
  "verify_shard sha sid s = (s1, Inr r) \<Longrightarrow>
   load_entries (snd (iter_shard_events sid s)) = Inr (shard_log sid s)"
  by (auto simp: verify_shard_def shard_log_def case_prod_unfold Let_def rbind_Inr)

end
