(* ===== verification/Samples.thy ===== *)
theory Samples
  imports Verify_Laws
begin

text \<open>Concrete requests on which the properties of the kernel are exercised.\<close>

section \<open>Concrete requests\<close>

definition sample_time :: datetime where
  "sample_time = \<lparr>year = 2026, month = 1, day = 2, hour = 3, minute = 4, second = 5, micro = 678, tz = Some 60\<rparr>"

definition sample_entry :: "string \<Rightarrow> string \<Rightarrow> entry" where
  "sample_entry sid c =
     \<lparr>eid = JStr ''e-1'', timestamp = sample_time, session_id = JStr ''s-1'', source = JStr ''agent'',
      content = JStr c, shard = JStr sid, hash = JStr [], prev_hash = JNull,
      metadata = JObj [(''event_type'', JStr ''tool_call''), (''n'', JInt 3)], version = JStr ''v2.0''\<rparr>"

lemma valid_sample_time [simp]: "valid_dt sample_time"
  by (simp add: sample_time_def valid_dt_def days_in_month_def)

lemma sample_ok: "sid \<noteq> [] \<Longrightarrow> request_ok sid (t, sample_entry sid c)"
  by (simp add: request_ok_def acceptable_def wf_entry_def sample_entry_def shard_of_def)

lemma empty_mono [simp]: "mono_files empty_fs = []"
  by (simp add: empty_fs_def)

lemma sample_tz: "tz sample_time \<noteq> None"
  by (simp add: sample_time_def)

lemma sample_families: "family_name ''alpha'' \<noteq> family_name ''beta''"
  by (simp add: family_name_def py_replace_unfold)

lemma esc_digit: "n < 10 \<Longrightarrow> esc_char asc (digit_char n) = [digit_char n]"
  using of_char_digit_char [of n] by (auto simp: esc_char_def Let_def DQ_def BS_def)

lemma utf8_digit: "n < 10 \<Longrightarrow> utf8_len (digit_char n # s) = Suc (utf8_len s)"
  by (simp add: utf8_len_def of_char_digit_char)

lemma utf8_Cons: "utf8_len (c # s) = (if (of_char c :: nat) < 128 then 1 else 2) + utf8_len s"
  by (simp add: utf8_len_def)

lemma utf8_len_Nil: "utf8_len [] = 0"
  by (simp add: utf8_len_def)

lemma show_int_3: "show_int 3 = [digit_char 3]"
  by (simp add: show_int_def show_nat.simps [of 3])

lemma sample_line_size:
  "utf8_len (entry_line ''alpha'' (stored_entry (\<lambda>m. ''h'') ''alpha'' JNull (sample_entry ''alpha'' ''one'')) @ [NL]) \<le> 8192"
proof -
  let ?r = "sample_entry ''alpha'' ''one''\<lparr>prev_hash := JNull, hash := JStr ''v1:h'', shard := JStr ''alpha''\<rparr>"
  have "stored_entry (\<lambda>m. ''h'') ''alpha'' JNull (sample_entry ''alpha'' ''one'') = norm_entry ?r"
    by (simp add: stored_entry_def compute_canonical_entry_hash_def hash_canonical_def hash_v1_def
        canonical_json_def build_canonical_entry_def sample_entry_def V1_PREFIX_def)
  then show ?thesis
    apply (simp add: norm_entry_def sample_entry_def entry_line_def dumps_sorted_def entry_dict_def
        less_eq_char_def less_char_def sample_time_def isoformat_def)
    apply (simp add: quote_def compact_def isep_def ksep_def pad2_def pad4_def pad6_def iso_micro_def iso_tz_def
        show_int_3 esc_digit)
    apply (simp add: esc_char_def utf8_digit utf8_Cons utf8_len_Nil NL_def DQ_def BS_def)
    done
qed

end
