(* ===== verification/Verify_Props.thy ===== *)
theory Verify_Props
  imports Samples
begin

text \<open>
  The properties of the storage kernel and of its verifier, over histories of appends:
  what was appended verifies, what verifies against an honest pin is what was appended,
  truncation is reported, and which changes the verifier does not see.
\<close>

section \<open>What was appended verifies\<close>

text \<open>
  C1: any sequence of acceptable appends to a shard, from the empty storage, leaves a shard
  the verifier accepts: every entry verified, no break, and the pin at the observed tip.
\<close>

theorem appended_log_verifies:
  assumes "\<forall>a \<in> set xs. request_ok sid a"
  shows "\<exists>s' r. verify_shard sha sid (run_appends sha xs empty_fs) = (s', Inr r) \<and>
    v_status r = V_OK \<and> total_entries r = length xs \<and> verified r = length xs \<and>
    tampered r = 0 \<and> chain_breaks r = 0 \<and>
    v_pin_status r = (if xs = [] then UNPINNED else PINNED_OK) \<and>
    observed_last_hash r = expected_last_hash r"
proof -
  let ?es = "shard_log sid (run_appends sha xs empty_fs)"
  have len: "length ?es = length xs" using assms by (rule history_length)
  then have "?es = [] \<longleftrightarrow> xs = []" by (metis length_0_conv)
  then show ?thesis using verify_inv [OF history_inv [OF assms] history_inv [OF assms] history_inv [OF assms]] len by metis
qed

theorem appended_log_verifies_witness:
  "\<exists>s' r. verify_shard (\<lambda>m. m) ''alpha'' (run_appends (\<lambda>m. m)
      [(sample_time, sample_entry ''alpha'' ''one''), (sample_time, sample_entry ''alpha'' ''two'')] empty_fs)
    = (s', Inr r) \<and> v_status r = V_OK \<and> total_entries r = 2 \<and> v_pin_status r = PINNED_OK"
  using appended_log_verifies [of "[(sample_time, sample_entry ''alpha'' ''one''),
      (sample_time, sample_entry ''alpha'' ''two'')]" "''alpha''" "\<lambda>m. m"]
  by (auto simp: sample_ok)

section \<open>What verifies is what was appended\<close>

text \<open>
  C2: tamper evidence. Let the pin of a shard be the one an honest history of appends left,
  and let the segment files be anything at all. If the verifier answers OK with
  \<open>PINNED_OK\<close>, and SHA-256 does not collide on the messages involved, then the entries on
  disk have, one by one, the session, source, timestamp, metadata, content and link of
  the entries that were appended.
\<close>

theorem tamper_evidence:
  assumes hist: "\<forall>a \<in> set xs. request_ok sid a" and "xs \<noteq> []"
    and pin: "dget sid (pins s') = dget sid (pins (run_appends sha xs empty_fs))"
    and ver: "verify_shard sha sid s' = (st, Inr r)"
    and ok: "v_status r = V_OK" "v_pin_status r = PINNED_OK"
    and inj: "inj_on sha (message ` set (shard_log sid s' @ shard_log sid (run_appends sha xs empty_fs)))"
  shows "map covered (shard_log sid s') = map covered (shard_log sid (run_appends sha xs empty_fs))"
proof -
  let ?s = "run_appends sha xs empty_fs"
  let ?es = "shard_log sid ?s" and ?fs = "shard_log sid s'"
  let ?M = "message ` set (?fs @ ?es)"
  have inv: "shard_inv sha sid ?s ?es" by (rule history_inv [OF hist])
  then have chain: "chained sha JNull ?es" and pm: "pin_matches sid ?es (dget sid (pins ?s))"
    by (simp_all add: shard_inv_def)
  have ne: "?es \<noteq> []" using history_length [OF hist, of sha] \<open>xs \<noteq> []\<close> by auto
  have ent: "verify_entries sha sid (read_pin sid ?s) ?fs = Inr r"
    using verify_shard_entries [OF shard_log_loaded [OF ver], of sha] ver same_pin [OF pin] by simp
  note f = verify_entries_ok [OF ent ok(1)]
  have len: "length ?fs = length ?es" and tip: "tip ?fs = tip ?es"
    using ent ok(2) check_pin_of [OF ne chain pm, of "if ?fs = [] then JNull else hash (last ?fs)" "length ?fs"]
    by (auto simp: verify_entries_def Let_def tip_def split: if_splits)
  have "?fs \<noteq> []" using len ne by auto
  moreover have "\<forall>e \<in> set ?fs \<union> set ?es. hash_ok sha e \<and> json_fields e \<and> message e \<in> ?M \<and> inj_on sha ?M"
    using f(1) chained_hash_ok [OF chain] loaded_json [OF shard_log_loaded [OF ver]] inj
      shard_inv_stored [OF inv] sealed_json_fields by auto
  moreover have "norm (hash (last ?fs)) = norm (hash (last ?es))" using tip ne \<open>?fs \<noteq> []\<close> by (simp add: tip_def)
  ultimately show ?thesis
    using chain.same_tip_same_chain [of ?fs ?es sha ?M] len linked_map [OF f(2), of norm]
      linked_map [OF chained_linked [OF chain], of norm] by blast
qed

lemma other_shard_state:
  fixes sha :: sha
  defines "s \<equiv> run_appends sha [(sample_time, sample_entry ''alpha'' ''one'')] empty_fs"
  defines "s' \<equiv> run_append sha (sample_time, sample_entry ''beta'' ''two'') s"
  shows "shard_inv sha ''alpha'' s' (shard_log ''alpha'' s)" and "dget ''alpha'' (pins s') = dget ''alpha'' (pins s)"
proof -
  have ok: "\<forall>a \<in> set [(sample_time, sample_entry ''alpha'' ''one'')]. request_ok ''alpha'' a"
    by (simp add: sample_ok)
  have inv: "shard_inv sha ''alpha'' s (shard_log ''alpha'' s)" unfolding s_def by (rule history_inv [OF ok])
  have beta: "shard_inv sha ''beta'' s []"
    unfolding s_def using sample_ok [of "''alpha''" sample_time "''one''"] sample_families
    by (auto simp: run_append_def request_ok_def intro!: append_frame [OF shard_inv_empty])
  have rb: "acceptable (sample_entry ''beta'' ''two'')" "shard_of (sample_entry ''beta'' ''two'') = Inr ''beta''"
    using sample_ok [of "''beta''" sample_time "''two''"] by (simp_all add: request_ok_def)
  show "shard_inv sha ''alpha'' s' (shard_log ''alpha'' s)"
    unfolding s'_def run_append_def using append_frame [OF beta rb inv sample_families] by simp
  obtain st e' where "append sha sample_time (sample_entry ''beta'' ''two'') s = (st, Inr e')"
    and "\<forall>sid'. sid' \<noteq> ''beta'' \<longrightarrow> dget sid' (pins st) = dget sid' (pins s)"
    by (rule append_inv [OF beta rb])
  then show "dget ''alpha'' (pins s') = dget ''alpha'' (pins s)" by (simp add: s'_def run_append_def)
qed

theorem tamper_evidence_witness:
  "map covered (shard_log ''alpha'' (run_append (\<lambda>m. m) (sample_time, sample_entry ''beta'' ''two'')
       (run_appends (\<lambda>m. m) [(sample_time, sample_entry ''alpha'' ''one'')] empty_fs)))
   = map covered (shard_log ''alpha'' (run_appends (\<lambda>m. m) [(sample_time, sample_entry ''alpha'' ''one'')] empty_fs))"
proof -
  let ?xs = "[(sample_time, sample_entry ''alpha'' ''one'')]"
  let ?s = "run_appends (\<lambda>m. m) ?xs empty_fs"
  let ?t = "run_append (\<lambda>m. m) (sample_time, sample_entry ''beta'' ''two'') ?s"
  have ok: "\<forall>a \<in> set ?xs. request_ok ''alpha'' a" by (simp add: sample_ok)
  have ne: "shard_log ''alpha'' ?s \<noteq> []" using history_length [OF ok, of "\<lambda>m. m"] by auto
  obtain r where r: "verify_shard (\<lambda>m. m) ''alpha'' ?t = (fst (iter_shard_events ''alpha'' ?t), Inr r)"
    and "v_status r = V_OK" and "v_pin_status r = (if shard_log ''alpha'' ?s = [] then UNPINNED else PINNED_OK)"
    by (rule verify_inv [OF other_shard_state(1) other_shard_state(1) other_shard_state(1)])
  with tamper_evidence [OF ok _ other_shard_state(2) r] ne show ?thesis by (simp add: inj_on_def)
qed

section \<open>Truncation\<close>

text \<open>
  C3: dropping entries from the end of a shard is reported. What is left is still a valid
  chain (no tampered entry, no break), but against the pin of the full history the
  verdict is TAMPERED, with the truncation flag and its mismatch type.
\<close>

theorem truncation_detected_by_pin:
  assumes hist: "\<forall>a \<in> set xs. request_ok sid a" and "k < length xs"
    and pin: "dget sid (pins s') = dget sid (pins (run_appends sha xs empty_fs))"
    and left: "load_entries (snd (iter_shard_events sid s')) = Inr (take k (shard_log sid (run_appends sha xs empty_fs)))"
  shows "\<exists>st r. verify_shard sha sid s' = (st, Inr r) \<and> v_status r = V_TAMPERED \<and>
    tampered r = 0 \<and> chain_breaks r = 0 \<and> verified r = k \<and>
    truncation_detected r \<and> v_mismatch_type r = Some M_TRUNCATION"
proof -
  let ?s = "run_appends sha xs empty_fs"
  let ?es = "shard_log sid ?s"
  have inv: "shard_inv sha sid ?s ?es" by (rule history_inv [OF hist])
  then have chain: "chained sha JNull ?es" and pm: "pin_matches sid ?es (dget sid (pins ?s))"
    by (simp_all add: shard_inv_def)
  have len: "length ?es = length xs" by (rule history_length [OF hist])
  then have ne: "?es \<noteq> []" using \<open>k < length xs\<close> by auto
  have "chained sha JNull (take k ?es)"
    using chain chained_append [of sha JNull "take k ?es" "drop k ?es"] by simp
  then show ?thesis
    using verify_shard_entries [OF left, of sha] same_pin [OF pin] check_pin_of [OF ne chain pm]
      chained_counts len \<open>k < length xs\<close>
    by (simp add: verify_entries_def Let_def)
qed

text \<open>A family directory that holds the first lines of a shard in one segment.\<close>

definition one_segment :: "string \<Rightarrow> string list \<Rightarrow> fs \<Rightarrow> fs" where
  "one_segment sid ls s =
     put_family (family_name sid) \<lparr>seg_files = [(segname (family_name sid) 1, unlines ls)], seg_meta = None\<rparr> s"

lemma load_one_segment:
  assumes "\<forall>e \<in> set es. sealed sha e \<and> norm_entry e = e \<and> shard e = JStr sid"
  shows "load_entries (snd (iter_shard_events sid (one_segment sid (map (entry_line sid) es) s))) = Inr es"
proof -
  have clean: "\<forall>l \<in> set (map (entry_line sid) es). clean_line l"
    using assms clean_entry_line by (auto simp: sealed_def)
  have "snd (iter_shard_events sid (one_segment sid (map (entry_line sid) es) s))
      = events_of_lines (read_lines (unlines (map (entry_line sid) es)))"
    using get_segment_files_enum [of "\<lparr>seg_files = [(segname (family_name sid) 1, unlines (map (entry_line sid) es))],
        seg_meta = None\<rparr>" "family_name sid" "[map (entry_line sid) es]"]
    by (simp add: iter_shard_events_def get_shard_family_dir_def one_segment_def Let_def)
  also have "\<dots> = map (\<lambda>e. norm (entry_dict sid e)) es"
    using clean events_of_entry_lines [OF assms] by (simp only: read_lines_unlines)
  finally show ?thesis using load_entry_events [OF assms] by simp
qed

theorem truncation_detected_by_pin_witness:
  "\<exists>st r. verify_shard (\<lambda>m. m) ''alpha''
      (one_segment ''alpha'' (map (entry_line ''alpha'') (take 1 (shard_log ''alpha''
        (run_appends (\<lambda>m. m) [(sample_time, sample_entry ''alpha'' ''one''),
           (sample_time, sample_entry ''alpha'' ''two'')] empty_fs))))
        (run_appends (\<lambda>m. m) [(sample_time, sample_entry ''alpha'' ''one''),
           (sample_time, sample_entry ''alpha'' ''two'')] empty_fs)) = (st, Inr r) \<and>
    v_status r = V_TAMPERED \<and> truncation_detected r"
proof -
  let ?xs = "[(sample_time, sample_entry ''alpha'' ''one''), (sample_time, sample_entry ''alpha'' ''two'')]"
  let ?s = "run_appends (\<lambda>m. m) ?xs empty_fs"
  have ok: "\<forall>a \<in> set ?xs. request_ok ''alpha'' a" by (simp add: sample_ok)
  have "\<forall>e \<in> set (take 1 (shard_log ''alpha'' ?s)). sealed (\<lambda>m. m) e \<and> norm_entry e = e \<and> shard e = JStr ''alpha''"
    using shard_inv_stored [OF history_inv [OF ok]] by (blast dest: in_set_takeD)
  note load = load_one_segment [OF this, of ?s]
  show ?thesis
    using truncation_detected_by_pin [OF ok _ _ load] by (auto simp: one_segment_def)
qed

section \<open>What the verifier does not see\<close>

text \<open>
  The hash covers session, source, timestamp, metadata, content and link. The id, the
  shard name and the version of an entry are outside it: rewriting them in every entry
  leaves the verifier's answer unchanged, whatever the pin and whatever the entries.
\<close>

theorem id_shard_version_not_covered:
  "verify_entries sha sid pin (map (\<lambda>e. e\<lparr>eid := i e, shard := h e, version := v e\<rparr>) es)
   = verify_entries sha sid pin es"
proof -
  let ?f = "\<lambda>e. e\<lparr>eid := i e, shard := h e, version := v e\<rparr>"
  have "verify_step sha c (?f e) = verify_step sha c e" for c e
    by (simp add: verify_step_def hash_ok_def chain_ok_def build_canonical_entry_def)
  then have "verify_loop sha (map ?f es) = verify_loop sha es"
    by (simp add: verify_loop_def foldl_map)
  moreover have "es \<noteq> [] \<Longrightarrow> hash (last (map ?f es)) = hash (last es)" by (simp add: last_map)
  ultimately show ?thesis by (simp add: verify_entries_def Let_def)
qed

text \<open>
  A shard whose whole history was rewritten passes, as long as the forged history is
  longer than the pinned one: the tip at the pinned length is not compared, and the
  verdict is OK with \<open>AHEAD_OF_PIN\<close> and a warning.
\<close>

theorem longer_rewrite_passes:
  assumes "\<forall>a \<in> set xs. request_ok sid a" and "\<forall>a \<in> set ys. request_ok sid a"
    and "0 < length xs" and "length xs < length ys"
    and "dget sid (pins s') = dget sid (pins (run_appends sha xs empty_fs))"
    and "fams s' = fams (run_appends sha ys empty_fs)"
  shows "\<exists>st r. verify_shard sha sid s' = (st, Inr r) \<and> v_status r = V_OK \<and>
    v_pin_status r = AHEAD_OF_PIN \<and> verified r = length ys \<and> v_warnings r = [AHEAD_WARNING]"
proof -
  let ?s = "run_appends sha xs empty_fs" and ?t = "run_appends sha ys empty_fs"
  let ?es = "shard_log sid ?s" and ?fs = "shard_log sid ?t"
  have inv: "shard_inv sha sid ?s ?es" and invt: "shard_inv sha sid ?t ?fs" by (rule history_inv; fact)+
  then have chain: "chained sha JNull ?es" "chained sha JNull ?fs"
    and pm: "pin_matches sid ?es (dget sid (pins ?s))"
    by (simp_all add: shard_inv_def)
  have len: "length ?es = length xs" "length ?fs = length ys" by (rule history_length; fact)+
  then have ne: "?es \<noteq> []" using assms(3) by auto
  have "load_entries (snd (iter_shard_events sid s')) = Inr ?fs"
    using load_shard [OF invt] assms(6)
    by (auto simp: iter_shard_events_def get_shard_family_dir_def Let_def split: option.splits)
  then show ?thesis
    using verify_shard_entries [of sid s' ?fs sha] same_pin [OF assms(5)] check_pin_of [OF ne chain(1) pm]
      chained_counts [OF chain(2)] len assms(4)
    by (simp add: verify_entries_def Let_def)
qed

theorem longer_rewrite_passes_witness:
  "\<exists>st r. verify_shard (\<lambda>m. m) ''alpha''
      ((run_appends (\<lambda>m. m) [(sample_time, sample_entry ''alpha'' ''forged''),
           (sample_time, sample_entry ''alpha'' ''padding'')] empty_fs)
       \<lparr>pins := pins (run_appends (\<lambda>m. m) [(sample_time, sample_entry ''alpha'' ''one'')] empty_fs)\<rparr>)
    = (st, Inr r) \<and> v_status r = V_OK \<and> v_pin_status r = AHEAD_OF_PIN"
  using longer_rewrite_passes [of "[(sample_time, sample_entry ''alpha'' ''one'')]" "''alpha''"
      "[(sample_time, sample_entry ''alpha'' ''forged''), (sample_time, sample_entry ''alpha'' ''padding'')]"
      "(run_appends (\<lambda>m. m) [(sample_time, sample_entry ''alpha'' ''forged''),
           (sample_time, sample_entry ''alpha'' ''padding'')] empty_fs)
       \<lparr>pins := pins (run_appends (\<lambda>m. m) [(sample_time, sample_entry ''alpha'' ''one'')] empty_fs)\<rparr>" "\<lambda>m. m"]
  by (auto simp: sample_ok)

end
