(* ===== verification/Reconcile_Laws.thy ===== *)
theory Reconcile_Laws
  imports Verify_Laws
begin

text \<open>
  Laws of crash reconciliation: the tail of the last segment is the last entry, the state
  a crash leaves between the write of a line and the commit of the pin, and what
  \<open>reconcile_shard\<close> makes of it. The pin moves only forward unless truncation is allowed.
\<close>

section \<open>The last line of a shard\<close>

lemma utf8_len_Cons: "utf8_len (c # s) = (if (of_char c :: nat) < 128 then 1 else 2) + utf8_len s"
  by (simp add: utf8_len_def)

lemma tail_bytes_suffix:
  "utf8_len b \<le> k \<Longrightarrow> a = [] \<or> last a = NL \<Longrightarrow> \<exists>t. tail_bytes k (a @ b) = t @ b \<and> (t = [] \<or> last t = NL)"
proof (induction a)
  case Nil
  then show ?case by (cases b) (auto simp: tail_bytes.simps)
next
  case (Cons c a)
  consider "utf8_len (c # a @ b) \<le> k" | "k < utf8_len (c # a @ b)" "utf8_len (a @ b) < k"
    | "k < utf8_len (c # a @ b)" "k \<le> utf8_len (a @ b)" by linarith
  then show ?case
  proof cases
    case 1
    then show ?thesis
      using Cons.prems by (subst tail_bytes.simps) (auto intro!: exI [where x = "c # a"])
  next
    case 2
    then have "a \<noteq> []" using Cons.prems by (auto simp: utf8_len_Cons NL_def)
    then show ?thesis
      using 2 Cons.prems by (subst tail_bytes.simps) (auto intro!: exI [where x = "CHR 0xFF # a"])
  next
    case 3
    then have "tail_bytes k (c # a @ b) = tail_bytes k (a @ b)" by (subst tail_bytes.simps) simp
    with Cons show ?thesis by (auto split: if_splits)
  qed
qed

lemma strip_last_line:
  assumes l: "l \<noteq> []" "\<not> is_space (hd l)" "\<not> is_space (last l)" and t: "t = [] \<or> last t = NL"
  shows "\<exists>u. strip (t @ l @ [NL]) = u @ l \<and> (u = [] \<or> last u = NL)"
proof -
  let ?u = "dropWhile is_space t"
  have "dropWhile is_space (l @ ys) = l @ ys" for ys using l(1,2) by (cases l) auto
  then have "dropWhile is_space (t @ l @ [NL]) = ?u @ l @ [NL]"
    by (metis dropWhile_append dropWhile_append3 dropWhile_eq_Nil_conv append_Nil)
  moreover have "is_space NL" by (simp add: is_space_def NL_def)
  moreover have "dropWhile is_space (rev l @ rev ?u) = rev l @ rev ?u"
    using l(1,3) by (metis dropWhile_eq_self_iff hd_append2 hd_rev rev_is_Nil_conv)
  ultimately have "strip (t @ l @ [NL]) = ?u @ l" by (simp add: strip_def)
  moreover have "?u = [] \<or> last ?u = NL"
    using t by (metis append_is_Nil_conv last_appendR takeWhile_dropWhile_id)
  ultimately show ?thesis by blast
qed

lemma tail_of_last:
  assumes "ys = ls @ [l]" and l: "l \<noteq> []" "\<not> is_space (hd l)" "\<not> is_space (last l)" "NL \<notin> set l"
    and size: "utf8_len (l @ [NL]) \<le> 8192" and ev: "event_of_line l = Some ev"
  shows "tail_of_segments ((n, unlines ys) # segs) = Some ev"
proof -
  let ?txt = "unlines ls @ l @ [NL]"
  have len: "utf8_len (l @ [NL]) \<le> min (utf8_len ?txt) 8192" using size by simp
  have "unlines ls = [] \<or> last (unlines ls) = NL"
    by (cases ls rule: rev_cases) (auto simp: unlines_single)
  from tail_bytes_suffix [OF len this] obtain t where
    "tail_bytes (min (utf8_len ?txt) 8192) ?txt = t @ l @ [NL]" "t = [] \<or> last t = NL" by auto
  moreover from strip_last_line [OF l(1-3) this(2)] obtain u where
    u: "strip (t @ l @ [NL]) = u @ l" "u = [] \<or> last u = NL" by blast
  moreover have "first_event (rev (split_at NL (u @ l))) = Some ev"
  proof (cases "u = []")
    case True
    then show ?thesis using l(4) ev by (simp add: split_at_free)
  next
    case False
    then obtain v where "u = v @ [NL]" using u(2) by (metis append_butlast_last_id)
    then show ?thesis using l(4) ev by (simp add: split_at_append split_at_free)
  qed
  moreover have "utf8_len ?txt \<noteq> 0" by (simp add: utf8_len_Cons)
  moreover have "unlines ys = ?txt" using assms(1) by (simp add: unlines_single)
  ultimately show ?thesis by (simp del: utf8_len_append)
qed

lemma entry_line_shape:
  assumes "wf_entry e"
  shows "entry_line sid e \<noteq> []" and "\<not> is_space (hd (entry_line sid e))"
    and "\<not> is_space (last (entry_line sid e))" and "NL \<notin> set (entry_line sid e)"
    and "strip (entry_line sid e) \<noteq> []"
proof -
  obtain d where d: "norm (entry_dict sid e) = JObj d" by (auto simp: entry_dict_def)
  then show "entry_line sid e \<noteq> []" "\<not> is_space (hd (entry_line sid e))" "\<not> is_space (last (entry_line sid e))"
    by (simp_all add: entry_line_def dumps_sorted_def is_space_def)
  then show "strip (entry_line sid e) \<noteq> []" by (simp add: strip_id)
  show "NL \<notin> set (entry_line sid e)" using clean_entry_line [OF assms] by (simp add: clean_line_def)
qed

section \<open>The state a crash leaves between the write and the pin\<close>

text \<open>The lines of the shard are those of the log; nothing is said of the segment metadata.\<close>

definition lines_inv :: "string \<Rightarrow> fs \<Rightarrow> entry list \<Rightarrow> bool" where
  "lines_inv sid s es =
     (\<exists>lss. seg_files (family_of sid s) = enum_segs (family_name sid) 1 lss \<and> [] \<notin> set lss \<and>
        concat lss = map (entry_line sid) es \<and> dget (family_name sid) (fams s) \<noteq> None \<and>
        (\<forall>e \<in> set es. wf_entry e \<and> norm_entry e = e \<and> shard e = JStr sid))"

lemma lines_inv_ordered:
  assumes "lines_inv sid s es"
  shows "\<exists>lss. get_segment_files_ordered sid rv s
      = (s, (if rv then rev else id) (enum_segs (family_name sid) 1 lss)) \<and>
    [] \<notin> set lss \<and> concat lss = map (entry_line sid) es \<and>
    (\<forall>e \<in> set es. wf_entry e \<and> norm_entry e = e \<and> shard e = JStr sid)"
proof -
  obtain lss f where lss: "seg_files (family_of sid s) = enum_segs (family_name sid) 1 lss" "[] \<notin> set lss"
    "concat lss = map (entry_line sid) es" "dget (family_name sid) (fams s) = Some f"
    "\<forall>e \<in> set es. wf_entry e \<and> norm_entry e = e \<and> shard e = JStr sid"
    using assms by (auto simp: lines_inv_def)
  then have "get_segment_files (family_name sid) f = enum_segs (family_name sid) 1 lss"
    by (intro get_segment_files_enum) (simp add: family_of_def)
  then have "get_segment_files_ordered sid rv s = (s, (if rv then rev else id) (enum_segs (family_name sid) 1 lss))"
    using lss(4) by (simp add: get_segment_files_ordered_def get_shard_family_dir_def)
  with lss show ?thesis by blast
qed

lemma read_tail_lines:
  assumes inv: "lines_inv sid s es" and "es \<noteq> []"
    and size: "utf8_len (entry_line sid (last es) @ [NL]) \<le> 8192"
  shows "read_last_segment_tail sid s = (s, Some (norm (entry_dict sid (last es))))"
proof -
  obtain lss where g: "get_segment_files_ordered sid True s = (s, rev (enum_segs (family_name sid) 1 lss))"
    and ne: "[] \<notin> set lss" and c: "concat lss = map (entry_line sid) es"
    and wf: "\<forall>e \<in> set es. wf_entry e \<and> norm_entry e = e \<and> shard e = JStr sid"
    using lines_inv_ordered [OF inv, of True] by auto
  from c assms(2) have "lss \<noteq> []" by auto
  then obtain xs ys where lss: "lss = xs @ [ys]" by (metis rev_exhaust)
  with ne obtain ls l where ys: "ys = ls @ [l]" by (cases ys rule: rev_cases) auto
  from c lss ys have l: "l = entry_line sid (last es)"
    by (metis append_assoc assms(2) concat_append concat.simps last_map last_snoc append_Nil2)
  have w: "wf_entry (last es)" using wf assms(2) by simp
  note sh = entry_line_shape [OF w, of sid]
  have "tail_of_segments ((segname (family_name sid) (Suc (length xs)), unlines ys) # rev (enum_segs (family_name sid) 1 xs))
      = Some (norm (entry_dict sid (last es)))"
    by (rule tail_of_last [OF ys]) (use sh size l event_of_entry_line [OF w] in auto)
  then show ?thesis using g lss by (simp add: read_last_segment_tail_def enum_segs_append)
qed

lemma nonblank_entry_lines:
  "\<forall>e \<in> set es. wf_entry e \<Longrightarrow> filter (\<lambda>l. strip l \<noteq> []) (map (entry_line sid) es) = map (entry_line sid) es"
  by (auto simp: filter_id_conv entry_line_shape)

lemma count_lines:
  assumes inv: "lines_inv sid s es"
  shows "count_shard_entries sid s = (s, length es)"
proof -
  obtain lss where g: "get_segment_files_ordered sid False s = (s, enum_segs (family_name sid) 1 lss)"
    and c: "concat lss = map (entry_line sid) es" and wf: "\<forall>e \<in> set es. wf_entry e"
    using lines_inv_ordered [OF inv, of False] by auto
  have cl: "\<forall>l \<in> set (concat lss). clean_line l \<and> strip l \<noteq> []"
    unfolding c using wf by (auto simp: clean_entry_line entry_line_shape)
  have "map (\<lambda>(n, txt). length (filter (\<lambda>l. strip l \<noteq> []) (read_lines txt))) (enum_segs (family_name sid) 1 lss)
      = map length lss"
    unfolding enum_segs_texts using cl by (auto simp: filter_id_conv intro!: arg_cong [where f = length])
  then show ?thesis using g arg_cong [OF c, of length] by (simp add: count_shard_entries_def length_concat)
qed

lemma first_timestamp_lines:
  assumes inv: "lines_inv sid s es" and "es \<noteq> []"
    and "get_segment_files_ordered sid False s = (s, segs)"
  shows "first_timestamp_of JNull segs = Inr (JStr (isoformat (timestamp (hd es))))"
proof -
  obtain lss where g: "segs = enum_segs (family_name sid) 1 lss"
    and ne: "[] \<notin> set lss" and c: "concat lss = map (entry_line sid) es" and wf: "\<forall>e \<in> set es. wf_entry e"
    using lines_inv_ordered [OF inv, of False] assms(3) by auto
  from c assms(2) obtain ys zs where lss: "lss = ys # zs" by (cases lss) auto
  with ne obtain l ls where ys: "ys = l # ls" by (cases ys) auto
  with c lss have l: "l = entry_line sid (hd es)" by (cases es) auto
  have cl: "\<forall>x \<in> set ys. clean_line x"
    using c lss wf clean_entry_line by (metis UnCI concat.simps(2) imageE list.set_map set_append)
  have "event_of_line l = Some (norm (entry_dict sid (hd es)))"
    using l wf assms(2) by (simp add: event_of_entry_line)
  then have "first_event (read_lines (unlines ys)) = Some (norm (entry_dict sid (hd es)))"
    using cl ys by simp
  moreover have "jget ''timestamp'' JNull (norm (entry_dict sid e)) = Inr (JStr (isoformat (timestamp e)))" for e
    unfolding entry_dict_def by (subst jget_norm) simp_all
  moreover have "isoformat t \<noteq> []" for t by (simp add: isoformat_def)
  ultimately show ?thesis using g lss by simp
qed

lemma crash_state:
  assumes inv: "shard_inv sha sid s es" and acc: "acceptable e"
  obtains s' x where "append_write sha sid e s = (s', Inr x)"
    and "lines_inv sid s' (es @ [stored_entry sha sid (tip es) e])" and "pins s' = pins s"
    and "chained sha JNull (es @ [stored_entry sha sid (tip es) e])"
proof -
  let ?nm = "family_name sid" and ?r = "stored_entry sha sid (tip es) e"
  obtain lss where lss: "seg_inv ?nm (family_of sid s) lss" "concat lss = map (entry_line sid) es"
    using inv by (auto simp: shard_inv_def)
  obtain st fam name a b h e' line where h: "compute_canonical_entry_hash sha e (tip es) = Inr h"
    and e': "e' = e\<lparr>prev_hash := tip es, hash := JStr h\<rparr>" and line: "line = entry_line sid e' @ [NL]"
    and w: "append_write sha sid e s = (put_family ?nm (append_text name line fam) st, Inr (e', line))"
    and st: "pins st = pins s" "\<forall>sid'. family_name sid' \<noteq> ?nm \<longrightarrow> family_of sid' st = family_of sid' s"
    and meta: "read_segment_meta fam = Some (segment_meta_obj (JStr name) (JInt a) (JInt b))"
    and inv': "seg_inv ?nm (write_segment_meta_atomic
           (segment_meta_obj (JStr name) (JInt (a + 1)) (JInt (b + int (utf8_len line))))
           (append_text name line fam)) (add_line lss (entry_line sid e'))"
    by (rule append_write_inv [OF inv acc lss])
  note sp = stored_props [OF shard_invD(1) [OF inv] acc h, of sid]
  let ?t = "put_family ?nm (append_text name line fam) st"
  have "seg_files (family_of sid ?t) = enum_segs ?nm 1 (add_line lss (entry_line sid e'))"
    "[] \<notin> set (add_line lss (entry_line sid e'))"
    using inv' by (auto simp: seg_inv_def write_segment_meta_atomic_def)
  moreover have "concat (add_line lss (entry_line sid e')) = map (entry_line sid) (es @ [?r])"
    using lss(2) sp(5) e' by simp
  moreover have "\<forall>e \<in> set (es @ [?r]). wf_entry e \<and> norm_entry e = e \<and> shard e = JStr sid"
    using chained_stored [OF sp(1)] sp(2) shard_inv_stored [OF inv] by (auto simp: sealed_def)
  ultimately have "lines_inv sid ?t (es @ [?r])" unfolding lines_inv_def by auto
  with that [OF w] st sp(1) show ?thesis by simp
qed

lemma gets_of_entry [codec]:
  "jget ''hash'' JNull (norm (entry_dict sid e)) = Inr (norm (hash e))"
  "jget ''timestamp'' JNull (norm (entry_dict sid e)) = Inr (JStr (isoformat (timestamp e)))"
  unfolding entry_dict_def by (subst jget_norm; simp)+

lemma isoformat_not_Nil [simp]: "isoformat t \<noteq> []"
  by (simp add: isoformat_def)

lemma advance_pin_lines:
  assumes inv: "lines_inv sid s es" and "es \<noteq> []" and "hash (last es) = JStr h"
  shows "advance_pin now sid (norm (entry_dict sid (last es))) (JStr h) n s =
    (put_pin sid (JObj (pin_doc sid (JStr h) now (JInt (int n)) (JStr (isoformat (timestamp (hd es))))
       (JStr (isoformat (timestamp (last es)))))) s, Inr ())"
proof -
  obtain segs where "get_segment_files_ordered sid False s = (s, segs)"
    using lines_inv_ordered [OF inv, of False] by auto
  with first_timestamp_lines [OF inv assms(2)] show ?thesis
    by (simp add: advance_pin_def gets_of_entry drop_nulls_def pin_doc_def)
qed

lemma reconcile_advances:
  assumes inv: "lines_inv sid s (es @ [r])" and pin: "pin_matches sid es (dget sid (pins s))"
    and h: "hash r = JStr h" "JStr h \<noteq> tip es"
    and size: "utf8_len (entry_line sid r @ [NL]) \<le> 8192"
  obtains s' where "reconcile_shard now sid allow s = (s', Inr (Reconciled (tip es) (JStr h) (length es + 1)))"
    and "fams s' = fams s" and "pin_matches sid (es @ [r]) (dget sid (pins s'))"
proof -
  let ?doc = "JObj (pin_doc sid (JStr h) now (JInt (int (length es + 1)))
       (JStr (isoformat (timestamp (hd (es @ [r]))))) (JStr (isoformat (timestamp r))))"
  have tail: "read_last_segment_tail sid s = (s, Some (norm (entry_dict sid r)))"
    using read_tail_lines [OF inv] size by simp
  have cnt: "count_shard_entries sid s = (s, length es + 1)" using count_lines [OF inv] by simp
  have adv: "advance_pin now sid (norm (entry_dict sid r)) (JStr h) (length es + 1) s = (put_pin sid ?doc s, Inr ())"
    using advance_pin_lines [OF inv] h by simp
  have "pinned_count_of sid s = Inr (if es = [] then JNull else JInt (int (length es)))"
    using pin by (auto simp: pin_matches_def pinned_count_of_def split: if_splits)
  then have "reconcile_shard now sid allow s
      = (put_pin sid ?doc s, Inr (Reconciled (tip es) (JStr h) (length es + 1)))"
    using tail cnt adv h get_last_hash_inv [OF pin]
    by (simp add: reconcile_shard_def gets_of_entry as_num_def)
  moreover have "pin_matches sid (es @ [r]) (dget sid (pins (put_pin sid ?doc s)))"
    using h by (auto simp: pin_matches_def)
  ultimately show ?thesis using that by simp
qed

lemma same_shard: "shard e = j \<Longrightarrow> e\<lparr>shard := j\<rparr> = (e :: entry)"
  by (cases e) auto

lemma load_lines:
  assumes "lines_inv sid s es"
  shows "load_entries (snd (iter_shard_events sid s)) = Inr es"
proof -
  obtain lss f where f: "seg_files f = enum_segs (family_name sid) 1 lss"
    "concat lss = map (entry_line sid) es" "dget (family_name sid) (fams s) = Some f"
    and wf: "\<forall>e \<in> set es. wf_entry e \<and> norm_entry e = e \<and> shard e = JStr sid"
    using assms by (auto simp: lines_inv_def family_of_def)
  note lss = get_segment_files_enum [OF f(1)] f(2,3)
  have cl: "\<forall>ls \<in> set lss. \<forall>l \<in> set ls. clean_line l"
    using lss(2) wf clean_entry_line
    by (metis UN_I imageE list.set_map set_concat)
  have "snd (iter_shard_events sid s) = events_of_lines (concat (map read_lines (map unlines lss)))"
    using lss by (simp add: iter_shard_events_def get_shard_family_dir_def enum_segs_texts
        flip: events_of_lines_concat) (simp add: comp_def)
  also have "map read_lines (map unlines lss) = lss" using cl by (simp add: map_idI)
  finally have ev: "snd (iter_shard_events sid s) = events_of_lines (map (entry_line sid) es)" using lss(2) by simp
  have "events_of_lines (map (entry_line sid) es) = map (\<lambda>e. norm (entry_dict sid e)) es"
    using wf by (induction es) (auto simp: events_of_lines_def List.map_filter_def event_of_entry_line)
  moreover have "load_entries (map (\<lambda>e. norm (entry_dict sid e)) es) = Inr es"
    using wf by (induction es) (auto simp: entry_from_event_entry same_shard)
  ultimately show ?thesis using ev by simp
qed

section \<open>What reconciliation changes\<close>

lemma ordered_frame:
  assumes "get_segment_files_ordered sid rv s = (s', segs)"
  shows "pins s' = pins s \<and> (\<forall>x. family_of x s' = family_of x s)"
proof -
  obtain st where st: "get_shard_family_dir sid s = (st, family_of sid s)" using get_dir_eq by blast
  with assms have "s' = st" by (simp add: get_segment_files_ordered_def Let_def)
  then show ?thesis using get_dir_props [OF st] by simp
qed

lemma advance_pin_frame:
  assumes "advance_pin now sid ev disk n s = (s', res)"
  shows "\<forall>x. family_of x s' = family_of x s" and "\<forall>x. x \<noteq> sid \<longrightarrow> dget x (pins s') = dget x (pins s)"
    and "res = Inr () \<Longrightarrow> \<exists>doc. dget sid (pins s') = Some (Some (JObj doc)) \<and> dget ''entry_count'' doc = Some (JInt (int n))"
    and "res \<noteq> Inr () \<Longrightarrow> pins s' = pins s"
proof -
  obtain st segs where g: "get_segment_files_ordered sid False s = (st, segs)" by force
  note fr = ordered_frame [OF g]
  show "\<forall>x. family_of x s' = family_of x s" "\<forall>x. x \<noteq> sid \<longrightarrow> dget x (pins s') = dget x (pins s)"
    "res \<noteq> Inr () \<Longrightarrow> pins s' = pins s"
    using assms g fr by (auto simp: advance_pin_def split: sum.splits)
  show "\<exists>doc. dget sid (pins s') = Some (Some (JObj doc)) \<and> dget ''entry_count'' doc = Some (JInt (int n))"
    if "res = Inr ()"
    using assms g that by (auto simp: advance_pin_def drop_nulls_def pin_doc_def rbind_Inr split: sum.splits)
qed

lemma tail_frame:
  "read_last_segment_tail sid s = (s', t) \<Longrightarrow> pins s' = pins s \<and> (\<forall>x. family_of x s' = family_of x s)"
  "count_shard_entries sid s = (s', n) \<Longrightarrow> pins s' = pins s \<and> (\<forall>x. family_of x s' = family_of x s)"
  using ordered_frame by (auto simp: read_last_segment_tail_def count_shard_entries_def split: prod.splits)

end
