(* ===== verification/Read_Laws.thy ===== *)
theory Read_Laws
  imports Reconcile_Laws
begin

text \<open>
  What reading a shard that satisfies the invariant gives, and that reading changes
  nothing. The components above the kernel use these laws and \<open>append_inv\<close> as their
  interface to the storage.
\<close>

lemma read_loop_entries:
  assumes "\<forall>e \<in> set es. wf_entry e \<and> norm_entry e = e \<and> shard e = JStr sid"
  shows "read_loop offset limit sk co res (map (entry_line sid) es)
    = Inr (rev res @ take (nat (max 1 (limit - co))) (drop (nat (offset - sk)) es))"
  using assms
proof (induction es arbitrary: sk co res)
  case (Cons e es)
  then have e: "event_of_line (entry_line sid e) = Some (norm (entry_dict sid e))"
    "entry_from_event_data (norm (entry_dict sid e)) = Inr e"
    by (simp_all add: event_of_entry_line entry_from_event_entry same_shard)
  show ?case
  proof (cases "sk < offset")
    case True
    then have "nat (offset - sk) = Suc (nat (offset - (sk + 1)))" by simp
    with True Cons e show ?thesis by simp
  next
    case False
    show ?thesis
    proof (cases "limit \<le> co + 1")
      case True
      then have "max 1 (limit - co) = 1" by linarith
      with True False e show ?thesis by simp
    next
      case lim: False
      then have "nat (max 1 (limit - co)) = Suc (nat (max 1 (limit - (co + 1))))" by (simp add: max_def)
      with False lim Cons e show ?thesis by simp
    qed
  qed
qed simp

lemma shard_inv_present:
  "shard_inv sha sid s es \<Longrightarrow> es \<noteq> [] \<Longrightarrow> dget (family_name sid) (fams s) \<noteq> None"
proof
  assume inv: "shard_inv sha sid s es" and "es \<noteq> []" and "dget (family_name sid) (fams s) = None"
  then have "seg_files (family_of sid s) = []" by (simp add: family_of_def empty_family_def)
  with inv obtain lss where "enum_segs (family_name sid) 1 lss = []" "concat lss = map (entry_line sid) es"
    unfolding shard_inv_def seg_inv_def by metis
  then have "map (entry_line sid) es = []" by (cases lss) auto
  with \<open>es \<noteq> []\<close> show False by simp
qed

lemma rev_segments:
  assumes "\<forall>ls \<in> set lss. \<forall>l \<in> set ls. clean_line l"
  shows "concat (map (\<lambda>(n, txt). rev (read_lines txt)) (rev (enum_segs nm k lss))) = rev (concat lss)"
  using assms by (induction lss arbitrary: k) auto

text \<open>Reading never changes the file system.\<close>

lemma read_state [simp]: "fst (read sid offset limit s) = s"
  by (auto simp: read_def read_segmented_def get_segment_files_ordered_def get_shard_family_dir_def Let_def
      split: option.splits)

lemma read_inv:
  assumes inv: "shard_inv sha sid s es" and mono: "mono_files s = []"
  shows "read sid offset limit s = (s, Inr (take (nat (max 1 limit)) (drop (nat offset) (rev es))))"
proof -
  have "snd (read sid offset limit s) = Inr (take (nat (max 1 limit)) (drop (nat offset) (rev es)))"
  proof (cases "dget (family_name sid) (fams s)")
    case None
    then have "es = []" using shard_inv_present [OF inv] by auto
    with None mono show ?thesis by (simp add: read_def read_monolithic_def)
  next
    case (Some f)
    obtain lss where lss: "seg_inv (family_name sid) (family_of sid s) lss" "concat lss = map (entry_line sid) es"
      using inv by (auto simp: shard_inv_def)
    then have sf: "seg_files f = enum_segs (family_name sid) 1 lss"
      and cl: "\<forall>ls \<in> set lss. \<forall>l \<in> set ls. clean_line l"
      using Some by (auto simp: seg_inv_def family_of_def)
    have "get_segment_files_ordered sid True s = (s, rev (enum_segs (family_name sid) 1 lss))"
      using Some get_segment_files_enum [OF sf] by (simp add: get_segment_files_ordered_def get_shard_family_dir_def)
    then have "snd (read sid offset limit s) = read_loop offset limit 0 0 [] (map (entry_line sid) (rev es))"
      using Some rev_segments [OF cl] lss(2) by (simp add: read_def read_segmented_def rev_map)
    moreover have "\<forall>e \<in> set (rev es). wf_entry e \<and> norm_entry e = e \<and> shard e = JStr sid"
      using shard_inv_stored [OF inv] by (auto simp: sealed_def)
    ultimately show ?thesis using read_loop_entries by simp
  qed
  then show ?thesis using read_state [of sid offset limit s] by (metis prod.collapse)
qed

text \<open>The monolithic files are never written.\<close>

lemma write_segment_mono [simp]: "mono_files (write_segment sid name txt s) = mono_files s"
  by (simp add: write_segment_def put_family_def split: option.splits)

lemma active_segment_mono: "get_active_segment sid s = (s', r) \<Longrightarrow> mono_files s' = mono_files s"
  using get_dir_props(5) [of sid s]
  by (auto simp: get_active_segment_def put_family_def Let_def split: prod.splits sum.splits)

lemma append_write_mono: "append_write sha sid e s = (s', r) \<Longrightarrow> mono_files s' = mono_files s"
  by (auto simp: append_write_def Let_def dest: active_segment_mono split: prod.splits sum.splits)

lemma commit_mono: "commit_integrity_and_metadata now sid e s = (s', r) \<Longrightarrow> mono_files s' = mono_files s"
  by (auto simp: commit_integrity_and_metadata_def put_pin_def Let_def split: sum.splits)

lemma update_meta_mono: "update_active_segment_metadata sid a b s = (s', r) \<Longrightarrow> mono_files s' = mono_files s"
  using get_dir_props(5) [of sid s]
  by (auto simp: update_active_segment_metadata_def put_family_def Let_def split: prod.splits option.splits sum.splits)

lemma append_mono [simp]: "mono_files (fst (append sha now e s)) = mono_files s"
  unfolding append_def
  by (auto split: sum.splits prod.splits dest!: append_write_mono commit_mono update_meta_mono)

lemma history_mono [simp]: "mono_files (run_appends sha xs empty_fs) = []"
proof -
  have "mono_files (run_appends sha xs s) = mono_files s" for s
    by (induction xs arbitrary: s) (simp_all add: run_append_def)
  then show ?thesis by (simp add: empty_fs_def)
qed

end
