(* ===== verification/Storage_Props.thy ===== *)
theory Storage_Props
  imports Read_Laws Samples
begin

text \<open>
  The properties of the storage operations: append, pagination of reads, the layout of the
  segments, and crash reconciliation.
\<close>

section \<open>Append\<close>

text \<open>
  C4: an append succeeds on every acceptable entry and keeps the shard invariant (segment
  layout, hash chain from the genesis, pin at the tip): the log is extended by exactly the
  stored entry, linked to the old tip; the hash and link the caller supplied are ignored;
  the shards of every other family keep their files and their pins.
\<close>

theorem append_extends_log:
  assumes "shard_inv sha sid s es" and "acceptable e" and "shard_of e = Inr sid"
  shows "\<exists>s' e'. append sha now e s = (s', Inr e') \<and>
    shard_inv sha sid s' (es @ [stored_entry sha sid (tip es) e]) \<and>
    prev_hash e' = tip es \<and>
    (\<exists>h. compute_canonical_entry_hash sha e (tip es) = Inr h \<and> hash e' = JStr h) \<and>
    append sha now (e\<lparr>hash := h0, prev_hash := p0\<rparr>) s = (s', Inr e') \<and>
    (\<forall>x. family_name x \<noteq> family_name sid \<longrightarrow> family_of x s' = family_of x s) \<and>
    (\<forall>x. x \<noteq> sid \<longrightarrow> dget x (pins s') = dget x (pins s))"
proof -
  have "compute_canonical_entry_hash sha (e\<lparr>hash := h0, prev_hash := p0\<rparr>) p = compute_canonical_entry_hash sha e p" for p
    by (simp add: compute_canonical_entry_hash_def)
  moreover have "e\<lparr>hash := h0, prev_hash := p0, prev_hash := p, hash := h\<rparr> = e\<lparr>prev_hash := p, hash := h\<rparr>" for p h
    by simp
  ultimately have "append_write sha sid (e\<lparr>hash := h0, prev_hash := p0\<rparr>) s = append_write sha sid e s"
    by (simp only: append_write_def)
  moreover have "shard_of (e\<lparr>hash := h0, prev_hash := p0\<rparr>) = shard_of e" by (simp add: shard_of_def)
  ultimately have same: "append sha now (e\<lparr>hash := h0, prev_hash := p0\<rparr>) s = append sha now e s"
    using assms(3) by (simp add: append_def)
  obtain s' e' where app: "append sha now e s = (s', Inr e')"
    and inv: "shard_inv sha sid s' (es @ [stored_entry sha sid (tip es) e])"
    and e': "hash e' = hash (stored_entry sha sid (tip es) e)" "prev_hash e' = tip es"
    and fr: "\<forall>x. family_name x \<noteq> family_name sid \<longrightarrow> family_of x s' = family_of x s"
      "\<forall>x. x \<noteq> sid \<longrightarrow> dget x (pins s') = dget x (pins s)"
    by (rule append_inv [OF assms])
  note chain = shard_invD(1) [OF assms(1)]
  obtain h where h: "compute_canonical_entry_hash sha e (tip es) = Inr h"
    using compute_hash_Inr [OF assms(2) tip_json(2) [OF chain]] by blast
  then have "hash e' = JStr h" using e' stored_props(3) [OF chain assms(2) h] by simp
  with app inv e'(2) fr h same show ?thesis by auto
qed

theorem append_extends_log_witness:
  "\<exists>s' e'. append (\<lambda>m. ''h'') sample_time (sample_entry ''alpha'' ''one'') empty_fs = (s', Inr e') \<and>
    shard_inv (\<lambda>m. ''h'') ''alpha'' s' [stored_entry (\<lambda>m. ''h'') ''alpha'' JNull (sample_entry ''alpha'' ''one'')]"
  using append_extends_log [of "\<lambda>m. ''h''" "''alpha''" empty_fs "[]" "sample_entry ''alpha'' ''one''" sample_time
      JNull JNull] sample_ok [of "''alpha''" sample_time "''one''"]
  by (auto simp: request_ok_def tip_def [of "[]"])

section \<open>Reading\<close>

text \<open>
  C7: reading a shard gives its entries newest first, from \<open>offset\<close> on and at most \<open>limit\<close>
  of them, whatever the segments they are spread over. A limit below one still
  returns one entry.
\<close>

theorem read_newest_first:
  assumes "\<forall>a \<in> set xs. request_ok sid a"
  shows "snd (read sid offset limit (run_appends sha xs empty_fs))
    = Inr (take (nat (max 1 limit)) (drop (nat offset) (rev (shard_log sid (run_appends sha xs empty_fs)))))"
  using read_inv [OF history_inv [OF assms] history_mono] by simp

theorem read_newest_first_witness:
  "snd (read ''alpha'' 1 5 (run_appends (\<lambda>m. m)
      [(sample_time, sample_entry ''alpha'' ''one''), (sample_time, sample_entry ''alpha'' ''two'')] empty_fs))
   = Inr (take 5 (drop 1 (rev (shard_log ''alpha'' (run_appends (\<lambda>m. m)
      [(sample_time, sample_entry ''alpha'' ''one''), (sample_time, sample_entry ''alpha'' ''two'')] empty_fs)))))"
  using read_newest_first [of "[(sample_time, sample_entry ''alpha'' ''one''),
      (sample_time, sample_entry ''alpha'' ''two'')]" "''alpha''" 1 5 "\<lambda>m. m"]
  by (simp add: sample_ok)

text \<open>
  The pre-segment reader keeps only the last \<open>offset + limit\<close> entries in memory and
  slices that window; for every non-negative offset and limit the result is the same page
  of the newest-first sequence that a full read would give.
\<close>

theorem read_monolithic_page:
  assumes "dget sid (mono_files s) = Some txt" and "collect_entries (read_lines txt) = Inr es"
    and "0 \<le> offset" and "0 \<le> limit"
  shows "read_monolithic sid offset limit s = Inr (take (nat limit) (drop (nat offset) (rev es)))"
proof -
  obtain i j where ij: "offset = int i" "limit = int j" using assms(3,4) by (metis nonneg_int_cases)
  let ?w = "last_n (i + j) es"
  have k: "length ?w \<le> i + j" by (simp add: last_n_def)
  have "nat (offset + limit) = i + j" using ij by simp
  then have "read_monolithic sid offset limit s = Inr (if length ?w \<le> i then [] else rev (take (length ?w - i) ?w))"
    using assms(1,2) ij k by (auto simp: read_monolithic_def Let_def nat_diff_distrib')
  also have "(if length ?w \<le> i then [] else rev (take (length ?w - i) ?w)) = drop i (rev ?w)"
    by (simp add: rev_take)
  also have "rev ?w = take (i + j) (rev es)" by (simp add: last_n_def take_rev)
  also have "drop i (take (i + j) (rev es)) = take j (drop i (rev es))" by (simp add: drop_take)
  finally show ?thesis using ij by simp
qed

theorem read_monolithic_page_witness:
  "read_monolithic ''old'' 1 2 (empty_fs\<lparr>mono_files :=
       [(''old'', unlines (map (entry_line ''old'') [sample_entry ''old'' ''one'', sample_entry ''old'' ''two'']))]\<rparr>)
   = Inr [norm_entry (sample_entry ''old'' ''one'')]"
proof -
  let ?es = "[sample_entry ''old'' ''one'', sample_entry ''old'' ''two'']"
  let ?txt = "unlines (map (entry_line ''old'') ?es)"
  have wf: "\<forall>e \<in> set ?es. wf_entry e \<and> e\<lparr>shard := JStr ''old''\<rparr> = e"
    by (auto simp: wf_entry_def sample_entry_def)
  then have "read_lines ?txt = map (entry_line ''old'') ?es" by (intro read_lines_unlines) (auto simp: clean_entry_line)
  then have c: "collect_entries (read_lines ?txt) = Inr (map norm_entry ?es)"
    using wf by (simp add: event_of_entry_line entry_from_event_entry)
  show ?thesis
    using read_monolithic_page [where s = "empty_fs\<lparr>mono_files := [(''old'', ?txt)]\<rparr>" and sid = "''old''"
        and offset = 1 and limit = 2, OF _ c] by simp
qed

section \<open>Reconciliation\<close>



text \<open>
  C6: without \<^verbatim>\<open>allow_truncation\<close> reconciliation never moves a pin backward. It touches no
  file of any shard and no pin of another shard; the pin it is called for either stays
  as it is or is replaced by one that counts strictly more entries (or it had no count).
\<close>

theorem reconcile_never_regresses:
  assumes "reconcile_shard now sid False s = (s', res)"
  shows "(\<forall>x. family_of x s' = family_of x s) \<and> (\<forall>x. x \<noteq> sid \<longrightarrow> dget x (pins s') = dget x (pins s)) \<and>
    (dget sid (pins s') = dget sid (pins s) \<or>
     (\<exists>doc n. dget sid (pins s') = Some (Some (JObj doc)) \<and> dget ''entry_count'' doc = Some (JInt (int n)) \<and>
        (pinned_count_of sid s = Inr JNull \<or>
         (\<exists>c m. pinned_count_of sid s = Inr c \<and> as_num c = Inr m \<and> m < int n))))"
proof -
  obtain s1 t where t: "read_last_segment_tail sid s = (s1, t)" by force
  obtain s2 n where n: "count_shard_entries sid s1 = (s2, n)" by force
  note fr = tail_frame(1) [OF t] tail_frame(2) [OF n]
  have pc: "pinned_count_of sid s2 = pinned_count_of sid s" using fr by (simp add: pinned_count_of_def)
  show ?thesis
  proof (cases "pins s' = pins s \<and> (\<forall>x. family_of x s' = family_of x s)")
    case False
    have quiet: "pins (s2\<lparr>reports := r\<rparr>) = pins s \<and> (\<forall>x. family_of x (s2\<lparr>reports := r\<rparr>) = family_of x s)" for r
      using fr by (simp add: family_of_def)
    from False assms t n fr quiet obtain ev disk r where adv: "advance_pin now sid ev disk n s2 = (s', r)"
      and low: "pinned_count_of sid s2 = Inr JNull \<or>
         (\<exists>c m. pinned_count_of sid s2 = Inr c \<and> as_num c = Inr m \<and> m < int n)"
      by (auto simp: reconcile_shard_def rbind_Inr not_le Let_def
          split: option.split_asm sum.split_asm prod.split_asm if_split_asm)
    note af = advance_pin_frame [OF adv]
    then show ?thesis using low pc fr by (cases "r = Inr ()") auto
  qed auto
qed

theorem reconcile_never_regresses_witness:
  "\<exists>s' res. reconcile_shard sample_time ''alpha'' False empty_fs = (s', res) \<and>
     (\<forall>x. family_of x s' = family_of x empty_fs)"
  using reconcile_never_regresses [of sample_time "''alpha''" empty_fs] by (metis surj_pair)

end
