(* ===== verification/Events.thy ===== *)
theory Events
  imports Read_Laws
begin

text \<open>
  Shards as event stores. The managers above the kernel (lifecycle, identities, policies,
  admissions) keep their state as JSON documents in the contents of the entries of a
  shard of their own, and rebuild an index from them when they start. This theory has
  the entries they write, how a content is read back, and the interface between an
  index and the specification of the documents it is built from.
\<close>

section \<open>Documents in entries\<close>

text \<open>The time and the fresh identifier an operation takes for an entry it writes.\<close>

type_synonym stamp = "datetime \<times> string"

definition READ_ALL :: int where "READ_ALL = 10 ^ 6"

lemma take_all [simp]: "int (length xs) \<le> READ_ALL \<Longrightarrow> take (nat (max 1 READ_ALL)) xs = xs"
  by (simp add: READ_ALL_def)

text \<open>\<^verbatim>\<open>json.loads(entry.content)\<close>: text that does not parse and values that are no text are skipped.\<close>

definition content_json :: "entry \<Rightarrow> json option" where
  "content_json e = (case content e of JStr t \<Rightarrow> loads t | _ \<Rightarrow> None)"

definition doc_entry :: "string \<Rightarrow> string \<Rightarrow> datetime \<Rightarrow> string \<Rightarrow> json \<Rightarrow> (string \<times> json) list \<Rightarrow> entry" where
  "doc_entry src sid now uuid data meta =
     \<lparr>eid = JStr uuid, timestamp = now, session_id = JStr src, source = JStr src,
      content = JStr (dumps_sorted compact_ascii data), shard = JStr sid, hash = JStr [], prev_hash = JNull,
      metadata = JObj meta, version = JStr ''v2.0''\<rparr>"

text \<open>The entries of a shard whose content is a dict with a given value under a key, in the given order.\<close>

fun entries_about :: "string \<Rightarrow> json \<Rightarrow> entry list \<Rightarrow> entry list res" where
  "entries_about k v [] = Inr []"
| "entries_about k v (e # es) =
     (case content_json e of
        None \<Rightarrow> entries_about k v es
      | Some data \<Rightarrow>
          rbind (jget k JNull data) (\<lambda>x.
          rbind (entries_about k v es) (\<lambda>rest. Inr (if x = v then e # rest else rest))))"

section \<open>Writing a document\<close>

lemma stored_content:
  assumes "compute_canonical_entry_hash sha e p = Inr h" and "content e = JStr t"
  shows "content (stored_entry sha sid p e) = JStr t"
  using assms by (simp add: stored_entry_def norm_entry_def)

definition meta_ok :: "(string \<times> json) list \<Rightarrow> bool" where
  "meta_ok meta = (wf_json (JObj meta) \<and> all_finite (JObj meta))"

definition others_kept :: "sha \<Rightarrow> string \<Rightarrow> fs \<Rightarrow> fs \<Rightarrow> bool" where
  "others_kept sha sid s s' =
     (\<forall>x xs. shard_inv sha x s xs \<longrightarrow> family_name x \<noteq> family_name sid \<longrightarrow> shard_inv sha x s' xs)"

text \<open>The effect of writing a document to its shard, as the managers rely on it.\<close>

definition doc_written :: "sha \<Rightarrow> string \<Rightarrow> fs \<Rightarrow> entry list \<Rightarrow> datetime \<Rightarrow> json \<Rightarrow> fs \<Rightarrow> entry \<Rightarrow> bool" where
  "doc_written sha sid s es now data s' r =
     (shard_inv sha sid s' (es @ [r]) \<and> mono_files s' = mono_files s \<and> content_json r = Some (norm data) \<and>
      timestamp r = now \<and> (\<exists>h. hash r = JStr h) \<and>
      others_kept sha sid s s')"

text \<open>The hash the caller gets back is the stored one.\<close>

lemma append_hash:
  assumes inv: "shard_inv sha sid s es" and acc: "acceptable e" and so: "shard_of e = Inr sid"
    and app: "append sha now e s = (s', Inr w)" and h: "compute_canonical_entry_hash sha e (tip es) = Inr h"
  shows "hash w = JStr h"
proof -
  obtain lss where lss: "seg_inv (family_name sid) (family_of sid s) lss" "concat lss = map (entry_line sid) es"
    using inv by (auto simp: shard_inv_def)
  obtain s1 h' e' line where "compute_canonical_entry_hash sha e (tip es) = Inr h'"
    and "e' = e\<lparr>prev_hash := tip es, hash := JStr h'\<rparr>" and "append_write sha sid e s = (s1, Inr (e', line))"
    by (rule append_write_inv [OF inv acc lss])
  with app so h show ?thesis by (auto simp: append_def split: prod.splits sum.splits)
qed

lemma document_append:
  assumes inv: "shard_inv sha sid s es" and acc: "acceptable e" and so: "shard_of e = Inr sid"
    and c: "content e = JStr (dumps_sorted compact_ascii data)" and wf: "wf_json data"
  shows "\<exists>s' e' r. append sha now e s = (s', Inr e') \<and> hash e' = hash r \<and> doc_written sha sid s es (timestamp e) data s' r"
proof -
  let ?r = "stored_entry sha sid (tip es) e"
  obtain s' e' where app: "append sha now e s = (s', Inr e')" and inv': "shard_inv sha sid s' (es @ [?r])"
    by (rule append_inv [OF inv acc so])
  note chain = shard_invD(1) [OF inv]
  obtain h where h: "compute_canonical_entry_hash sha e (tip es) = Inr h"
    using compute_hash_Inr [OF acc tip_json(2) [OF chain]] by blast
  have "content_json ?r = Some (norm data)"
    using stored_content [OF h c] loads_dumps_sorted [OF wf] by (simp add: content_json_def)
  moreover have "hash e' = JStr h" by (rule append_hash [OF inv acc so app h])
  moreover have "timestamp ?r = timestamp e" "hash ?r = JStr h" using stored_props(3,4) [OF chain acc h] by simp_all
  moreover have "mono_files s' = mono_files s" using append_mono [of sha now e s] app by simp
  moreover have "others_kept sha sid s s'"
    using append_frame [OF inv acc so, of _ _ now] app by (auto simp: others_kept_def)
  ultimately show ?thesis using app inv' unfolding doc_written_def by metis
qed

lemma doc_append:
  assumes inv: "shard_inv sha sid s es" and "sid \<noteq> []" and "valid_dt now" and "wf_json data" and "meta_ok meta"
  shows "\<exists>s' e' r. append sha now (doc_entry src sid now uuid data meta) s = (s', Inr e') \<and>
    hash e' = hash r \<and> doc_written sha sid s es now data s' r"
proof -
  let ?e = "doc_entry src sid now uuid data meta"
  have "acceptable ?e" "shard_of ?e = Inr sid" "content ?e = JStr (dumps_sorted compact_ascii data)" "timestamp ?e = now"
    using assms(2,3,5) by (auto simp: acceptable_def wf_entry_def doc_entry_def shard_of_def meta_ok_def)
  then show ?thesis using document_append [OF inv] assms(4) by metis
qed

text \<open>A field of a document that was stored and read back.\<close>

lemma doc_field: "wf_json (JObj d) \<Longrightarrow> jget k dflt (norm (JObj d)) = Inr (case dget k d of None \<Rightarrow> dflt | Some v \<Rightarrow> norm v)"
  by (rule jget_norm) simp

section \<open>Indexes\<close>

text \<open>
  An index is built by a loop over the entries. The interface relates it to the commands
  the entries record: reading an entry makes on the view of the index the step that the
  command specifies.
\<close>

locale event_index =
  fixes step :: "entry \<Rightarrow> 'ix \<Rightarrow> 'ix res"
    and start :: 'ix
    and view :: "'ix \<Rightarrow> 'a"
    and records :: "entry \<Rightarrow> 'c \<Rightarrow> bool"
    and spec :: "'c \<Rightarrow> 'a \<Rightarrow> 'a"
  assumes records_step: "records e c \<Longrightarrow> \<exists>ix'. step e ix = Inr ix' \<and> view ix' = spec c (view ix)"
begin

lemma index_snoc:
  assumes "fold_res step es start = Inr ix" and "records e c"
  shows "\<exists>ix'. fold_res step (es @ [e]) start = Inr ix' \<and> view ix' = spec c (view ix)"
  using assms records_step [of e c ix] by (auto simp: fold_res_append)

lemma index_of_records:
  "list_all2 records es cs \<Longrightarrow> \<exists>ix. fold_res step es start = Inr ix \<and> view ix = fold spec cs (view start)"
proof (induction es arbitrary: cs rule: rev_induct)
  case (snoc e es)
  then obtain ds d where cs: "cs = ds @ [d]" "list_all2 records es ds" "records e d"
    by (auto simp: list_all2_append1 list_all2_Cons1)
  with snoc.IH obtain ix where "fold_res step es start = Inr ix" "view ix = fold spec ds (view start)" by blast
  with index_snoc [OF this(1) cs(3)] cs(1) show ?case by auto
qed simp

end

end
