(* ===== verification/Lifecycle.thy ===== *)
theory Lifecycle
  imports Events
begin

text \<open>
  \<^verbatim>\<open>src/dsm/lifecycle.py\<close> and \<^verbatim>\<open>src/dsm/shard_families.py\<close>: the life of a shard, from active
  through draining and sealed to archived. Each transition is an entry of the registry
  shard; the state of a shard is the one of its last transition, kept in a cache. The
  collective distiller is a parameter: what calling it does to the storage and the
  count it reports, or None when no distiller or collective is given.
\<close>

section \<open>Families\<close>

definition AGENT :: string where "AGENT = ''agent''"
definition REGISTRY :: string where "REGISTRY = ''registry''"
definition AUDIT :: string where "AUDIT = ''audit''"
definition COLLECTIVE :: string where "COLLECTIVE = ''collective''"
definition INFRA :: string where "INFRA = ''infra''"

lemmas family_consts = AGENT_def REGISTRY_def AUDIT_def COLLECTIVE_def INFRA_def

definition FAMILY_MAP :: "(string \<times> string) list" where
  "FAMILY_MAP =
     [(''sessions'', AGENT), (''identity'', AGENT), (''identity_registry'', REGISTRY),
      (''sovereignty_policies'', REGISTRY), (''lifecycle_registry'', REGISTRY),
      (''orchestrator_audit'', AUDIT), (''sync_log'', INFRA), (''receipts'', INFRA)]"

definition classify_shard :: "string \<Rightarrow> string" where
  "classify_shard sid =
     (case dget sid FAMILY_MAP of
        Some f \<Rightarrow> f
      | None \<Rightarrow> (if startswith ''collective_lane_'' sid then COLLECTIVE
                 else if startswith ''collective_'' sid then COLLECTIVE else AGENT))"

definition list_shards_by_family :: "datetime \<Rightarrow> (string \<Rightarrow> datetime) \<Rightarrow> string \<Rightarrow> fs \<Rightarrow> string list res" where
  "list_shards_by_family now mtime family s =
     rbind (list_shards now mtime s) (\<lambda>ms.
       Inr (filter (\<lambda>sid. classify_shard sid = family) (map sm_shard_id ms)))"

record retention =
  max_age_days :: "int option"
  max_entries :: "int option"

definition FAMILY_RETENTION :: "string \<Rightarrow> retention" where
  "FAMILY_RETENTION f =
     (if f = AGENT then \<lparr>max_age_days = Some 365, max_entries = Some 100000\<rparr>
      else if f = COLLECTIVE then \<lparr>max_age_days = Some 90, max_entries = Some 50000\<rparr>
      else if f = INFRA then \<lparr>max_age_days = Some 30, max_entries = Some 10000\<rparr>
      else \<lparr>max_age_days = None, max_entries = None\<rparr>)"

section \<open>State\<close>

definition LIFECYCLE_SHARD :: string where "LIFECYCLE_SHARD = ''lifecycle_registry''"

definition ACTIVE :: string where "ACTIVE = ''active''"
definition DRAINING :: string where "DRAINING = ''draining''"
definition SEALED :: string where "SEALED = ''sealed''"
definition ARCHIVED :: string where "ARCHIVED = ''archived''"

definition VALID_STATES :: "string list" where "VALID_STATES = [ACTIVE, DRAINING, SEALED, ARCHIVED]"

lemmas state_consts = ACTIVE_def DRAINING_def SEALED_def ARCHIVED_def

record lifecycle =
  lc_fs :: fs
  lc_cache :: "(string \<times> string) list"

record lifecycle_result =
  lr_ok :: bool
  lr_shard_id :: string
  lr_transition :: "string option"
  lr_entry :: "entry option"
  lr_distilled :: int
  lr_final_hash :: json
  lr_error :: "string option"

record lifecycle_verify =
  lv_passed :: bool
  lv_reason :: "string option"
  lv_last_hash :: json
  lv_entry_count :: nat
  lv_break_at :: "nat option"

record trigger_result =
  tr_triggered :: bool
  tr_reason :: "string option"
  tr_action :: "string option"

definition lc_read :: "string \<Rightarrow> int \<Rightarrow> (lifecycle, entry list) op" where
  "lc_read sid limit l = (let (s, r) = read sid 0 limit (lc_fs l) in (l\<lparr>lc_fs := s\<rparr>, r))"

text \<open>Membership in a set of strings: a list or a dict is not hashable.\<close>

definition in_states :: "json \<Rightarrow> bool res" where
  "in_states v =
     (case v of JStr t \<Rightarrow> Inr (t \<in> set VALID_STATES) | JList _ \<Rightarrow> Inl TypeError | JObj _ \<Rightarrow> Inl TypeError | _ \<Rightarrow> Inr False)"

fun scan_states :: "string \<Rightarrow> string \<Rightarrow> entry list \<Rightarrow> string res" where
  "scan_states sid current [] = Inr current"
| "scan_states sid current (e # es) =
     (case content_json e of
        None \<Rightarrow> scan_states sid current es
      | Some data \<Rightarrow>
          rbind (jget ''shard_id'' JNull data) (\<lambda>si.
            if si \<noteq> JStr sid then scan_states sid current es
            else
              rbind (jget ''event_type'' JNull data) (\<lambda>et.
                if et \<noteq> JStr ''lifecycle_transition'' then scan_states sid current es
                else
                  rbind (jget ''to_state'' JNull data) (\<lambda>to.
                  rbind (in_states to) (\<lambda>ok.
                    scan_states sid (if ok then (case to of JStr t \<Rightarrow> t | _ \<Rightarrow> current) else current) es)))))"

definition lc_state :: "string \<Rightarrow> (lifecycle, string) op" where
  "lc_state sid l =
     (case dget sid (lc_cache l) of
        Some st \<Rightarrow> (l, Inr st)
      | None \<Rightarrow>
          sbind (lc_read LIFECYCLE_SHARD READ_ALL) (\<lambda>entries.
          sbind (of_res (scan_states sid ACTIVE (rev entries))) (\<lambda>st l1.
            (l1\<lparr>lc_cache := dput sid st (lc_cache l1)\<rparr>, Inr st))) l)"

section \<open>Transitions\<close>

text \<open>The requests carry what the code takes from its environment: the time and a fresh id.\<close>

record lc_env =
  le_sha :: sha
  le_now :: datetime
  le_uuid :: string

definition transition_content :: "string \<Rightarrow> string \<Rightarrow> string \<Rightarrow> json \<Rightarrow> json \<Rightarrow> (string \<times> json) list \<Rightarrow> json" where
  "transition_content sid from_state to_state owner reason extra =
     JObj (dupdate [(''event_type'', JStr ''lifecycle_transition''), (''shard_id'', JStr sid),
        (''from_state'', JStr from_state), (''to_state'', JStr to_state), (''owner_id'', owner), (''reason'', reason)] extra)"

definition transition_entry :: "lc_env \<Rightarrow> string \<Rightarrow> string \<Rightarrow> json \<Rightarrow> entry" where
  "transition_entry env sid to_state data =
     \<lparr>eid = JStr (le_uuid env), timestamp = le_now env, session_id = JStr ''lifecycle'', source = JStr ''lifecycle'',
      content = JStr (dumps_sorted compact_ascii data), shard = JStr LIFECYCLE_SHARD, hash = JStr [], prev_hash = JNull,
      metadata = JObj [(''event_type'', JStr ''lifecycle_transition''), (''shard_id'', JStr sid), (''to_state'', JStr to_state)],
      version = JStr ''v2.0''\<rparr>"

definition write_transition ::
    "lc_env \<Rightarrow> string \<Rightarrow> string \<Rightarrow> string \<Rightarrow> json \<Rightarrow> json \<Rightarrow> (string \<times> json) list \<Rightarrow> (lifecycle, entry) op" where
  "write_transition env sid from_state to_state owner reason extra l =
     (let (s, r) = append (le_sha env) (le_now env)
            (transition_entry env sid to_state (transition_content sid from_state to_state owner reason extra)) (lc_fs l)
      in case r of
           Inl err \<Rightarrow> (l\<lparr>lc_fs := s\<rparr>, Inl err)
         | Inr e \<Rightarrow> (l\<lparr>lc_fs := s, lc_cache := dput sid to_state (lc_cache l)\<rparr>, Inr e))"

definition lc_refuse :: "string \<Rightarrow> string \<Rightarrow> lifecycle_result" where
  "lc_refuse sid err =
     \<lparr>lr_ok = False, lr_shard_id = sid, lr_transition = None, lr_entry = None, lr_distilled = 0,
      lr_final_hash = JNull, lr_error = Some err\<rparr>"

type_synonym distiller = "(fs \<Rightarrow> fs \<times> int) option"

definition drain :: "lc_env \<Rightarrow> distiller \<Rightarrow> string \<Rightarrow> json \<Rightarrow> (lifecycle, lifecycle_result) op" where
  "drain env distill sid owner =
     sbind (lc_state sid) (\<lambda>current.
       if current \<noteq> ACTIVE then ret (lc_refuse sid (''Cannot drain: shard is '' @ current @ '', expected active''))
       else (\<lambda>l.
         let (l1, distilled) =
               (case distill of None \<Rightarrow> (l, 0) | Some d \<Rightarrow> (let (s, n) = d (lc_fs l) in (l\<lparr>lc_fs := s\<rparr>, n)))
         in sbind (write_transition env sid ACTIVE DRAINING owner (JStr ''drain requested'')
                     [(''distilled_count'', JInt distilled)])
              (\<lambda>e. ret \<lparr>lr_ok = True, lr_shard_id = sid, lr_transition = Some ''active->draining'', lr_entry = Some e,
                       lr_distilled = distilled, lr_final_hash = JNull, lr_error = None\<rparr>) l1))"

definition no_entries :: lifecycle_verify where
  "no_entries = \<lparr>lv_passed = True, lv_reason = Some ''empty shard'', lv_last_hash = JNull, lv_entry_count = 0, lv_break_at = None\<rparr>"

text \<open>The first position whose link does not name the hash before it.\<close>

fun break_at :: "nat \<Rightarrow> entry list \<Rightarrow> nat option" where
  "break_at i (a # b # es) = (if prev_hash b \<noteq> hash a then Some (Suc i) else break_at (Suc i) (b # es))"
| "break_at i es = None"

definition lc_verify :: "string \<Rightarrow> bool \<Rightarrow> (lifecycle, lifecycle_verify) op" where
  "lc_verify sid deep =
     sbind (lc_read sid (if deep then READ_ALL else 2)) (\<lambda>entries.
       case entries of
         [] \<Rightarrow> ret no_entries
       | newest # _ \<Rightarrow>
           (if \<not> deep then
              ret \<lparr>lv_passed = (hash newest \<noteq> JNull \<and> hash newest \<noteq> JStr []),
                   lv_reason = (if truthy (hash newest) then None else Some ''missing hash on tip''),
                   lv_last_hash = hash newest, lv_entry_count = length entries, lv_break_at = None\<rparr>
            else
              (case break_at 0 (rev entries) of
                 Some i \<Rightarrow>
                   ret \<lparr>lv_passed = False, lv_reason = Some (''chain break at entry '' @ show_nat i),
                        lv_last_hash = hash newest, lv_entry_count = length entries, lv_break_at = Some i\<rparr>
               | None \<Rightarrow>
                   ret \<lparr>lv_passed = True, lv_reason = None, lv_last_hash = hash newest,
                        lv_entry_count = length entries, lv_break_at = None\<rparr>)))"

definition tip_of_read :: "entry list \<Rightarrow> json" where
  "tip_of_read entries = (case entries of [] \<Rightarrow> JNull | e # _ \<Rightarrow> hash e)"

definition seal_draining :: "lc_env \<Rightarrow> string \<Rightarrow> json \<Rightarrow> json \<Rightarrow> (lifecycle, lifecycle_result) op" where
  "seal_draining env sid owner reason =
     sbind (lc_verify sid False) (\<lambda>v.
       if \<not> lv_passed v then
         ret (lc_refuse sid (''Integrity check failed: '' @ (case lv_reason v of Some t \<Rightarrow> t | None \<Rightarrow> ''None'')))
       else
         sbind (lc_read sid 1) (\<lambda>entries.
           let final_hash = tip_of_read entries in
           sbind (write_transition env sid DRAINING SEALED owner (if truthy reason then reason else JStr ''sealed'')
                    [(''final_hash'', final_hash)])
             (\<lambda>e. ret \<lparr>lr_ok = True, lr_shard_id = sid, lr_transition = Some ''draining->sealed'', lr_entry = Some e,
                      lr_distilled = 0, lr_final_hash = final_hash, lr_error = None\<rparr>)))"

definition seal :: "lc_env \<Rightarrow> distiller \<Rightarrow> string \<Rightarrow> json \<Rightarrow> json \<Rightarrow> (lifecycle, lifecycle_result) op" where
  "seal env distill sid owner reason =
     sbind (lc_state sid) (\<lambda>current.
       if current = ACTIVE then
         sbind (drain env distill sid owner) (\<lambda>d.
           if \<not> lr_ok d then ret d else seal_draining env sid owner reason)
       else if current \<noteq> DRAINING then
         ret (lc_refuse sid (''Cannot seal: shard is '' @ current @ '', expected draining''))
       else seal_draining env sid owner reason)"

definition archive :: "lc_env \<Rightarrow> string \<Rightarrow> json \<Rightarrow> (lifecycle, lifecycle_result) op" where
  "archive env sid owner =
     sbind (lc_state sid) (\<lambda>current.
       if current \<noteq> SEALED then
         ret (lc_refuse sid (''Cannot archive: shard is '' @ current @ '', expected sealed''))
       else
         sbind (lc_read sid 1) (\<lambda>entries.
           let final_hash = tip_of_read entries in
           sbind (write_transition env sid SEALED ARCHIVED owner (JStr ''archived'')
                    [(''final_hash'', final_hash), (''hash_only'', JBool True)])
             (\<lambda>e. ret \<lparr>lr_ok = True, lr_shard_id = sid, lr_transition = Some ''sealed->archived'', lr_entry = Some e,
                      lr_distilled = 0, lr_final_hash = final_hash, lr_error = None\<rparr>)))"

section \<open>Triggers and history\<close>

text \<open>Subtracting a naive timestamp from an aware one raises.\<close>

definition age_days :: "datetime \<Rightarrow> datetime \<Rightarrow> int res" where
  "age_days now t = (case tz t of None \<Rightarrow> Inl TypeError | Some _ \<Rightarrow> Inr (days_between now t))"

definition no_trigger :: "string option \<Rightarrow> trigger_result" where
  "no_trigger why = \<lparr>tr_triggered = False, tr_reason = why, tr_action = None\<rparr>"

definition fired :: "string \<Rightarrow> trigger_result" where
  "fired why = \<lparr>tr_triggered = True, tr_reason = Some why, tr_action = Some ''drain''\<rparr>"

definition check_age :: "datetime \<Rightarrow> string \<Rightarrow> int option \<Rightarrow> (lifecycle, trigger_result) op" where
  "check_age now sid max_age =
     (case max_age of
        None \<Rightarrow> ret (no_trigger None)
      | Some m \<Rightarrow>
          sbind (lc_read sid READ_ALL) (\<lambda>entries.
            if entries = [] then ret (no_trigger None)
            else
              sbind (of_res (age_days now (timestamp (last entries)))) (\<lambda>age.
                ret (if m < age then fired (''shard age '' @ show_int age @ '' days > '' @ show_int m)
                     else no_trigger None))))"

definition check_triggers :: "datetime \<Rightarrow> string \<Rightarrow> (lifecycle, trigger_result) op" where
  "check_triggers now sid =
     sbind (lc_state sid) (\<lambda>current.
       if current \<noteq> ACTIVE then ret (no_trigger (Some ''not active''))
       else
         (let r = FAMILY_RETENTION (classify_shard sid) in
          case max_entries r of
            None \<Rightarrow> check_age now sid (max_age_days r)
          | Some m \<Rightarrow>
              sbind (lc_read sid 1) (\<lambda>entries.
                if entries = [] then check_age now sid (max_age_days r)
                else
                  sbind (lc_read sid (m + 1)) (\<lambda>all_entries.
                    if m < int (length all_entries) then
                      ret (fired (''entry count '' @ show_nat (length all_entries) @ '' > '' @ show_int m))
                    else check_age now sid (max_age_days r)))))"

fun history_of :: "string \<Rightarrow> entry list \<Rightarrow> entry list res" where
  "history_of sid [] = Inr []"
| "history_of sid (e # es) =
     (case content_json e of
        None \<Rightarrow> history_of sid es
      | Some data \<Rightarrow>
          rbind (jget ''shard_id'' JNull data) (\<lambda>si.
          rbind (history_of sid es) (\<lambda>rest. Inr (if si = JStr sid then e # rest else rest))))"

definition history :: "string \<Rightarrow> (lifecycle, entry list) op" where
  "history sid = sbind (lc_read LIFECYCLE_SHARD READ_ALL) (\<lambda>entries. of_res (history_of sid (rev entries)))"

end
