(* ===== verification/Simulation.thy ===== *)
theory Simulation
  imports Prelude
begin

text \<open>
  The interface between a component and its abstract specification: an invariant that
  may depend on how many more steps are allowed, an abstraction function, and the law
  that a step of the component is a step of the specification. What holds of one step
  then holds of every history.
\<close>

locale simulation =
  fixes inv :: "nat \<Rightarrow> 's \<Rightarrow> bool"
    and abs :: "'s \<Rightarrow> 'a"
    and ok :: "'i \<Rightarrow> bool"
    and step :: "'i \<Rightarrow> 's \<Rightarrow> 's"
    and spec :: "'i \<Rightarrow> 'a \<Rightarrow> 'a"
  assumes step_inv: "inv (Suc n) s \<Longrightarrow> ok i \<Longrightarrow> inv n (step i s)"
    and step_abs: "inv (Suc n) s \<Longrightarrow> ok i \<Longrightarrow> abs (step i s) = spec i (abs s)"
begin

lemma steps_inv: "inv (length xs + n) s \<Longrightarrow> \<forall>i \<in> set xs. ok i \<Longrightarrow> inv n (fold step xs s)"
proof (induction xs arbitrary: s)
  case (Cons x xs)
  then have "inv (length xs + n) (step x s)" using step_inv [of "length xs + n" s x] by simp
  with Cons show ?case by simp
qed simp

lemma steps_abs:
  "inv (length xs) s \<Longrightarrow> \<forall>i \<in> set xs. ok i \<Longrightarrow> abs (fold step xs s) = fold spec xs (abs s)"
proof (induction xs arbitrary: s)
  case (Cons x xs)
  then have "inv (length xs) (step x s)" "abs (step x s) = spec x (abs s)"
    using step_inv [of "length xs" s x] step_abs [of "length xs" s x] by simp_all
  with Cons show ?case by simp
qed simp

end

end
