(* ===== verification/Lifecycle_Laws.thy ===== *)
theory Lifecycle_Laws
  imports Lifecycle Samples Simulation
begin

text \<open>
  The lifecycle manager implements an abstract state machine over shard names: the
  registry log determines the state of every shard, the cache agrees with it, and each
  operation makes exactly the transition of the specification.
\<close>

section \<open>The registry determines the states\<close>

text \<open>An entry of the registry as the manager writes it.\<close>

definition reg_entry :: "entry \<Rightarrow> string \<Rightarrow> string \<Rightarrow> bool" where
  "reg_entry e sid to_state =
     (\<exists>d. content_json e = Some (JObj d) \<and> dget ''shard_id'' d = Some (JStr sid) \<and>
        dget ''event_type'' d = Some (JStr ''lifecycle_transition'') \<and> dget ''to_state'' d = Some (JStr to_state) \<and>
        to_state \<in> set VALID_STATES)"

definition reg_ok :: "entry list \<Rightarrow> bool" where
  "reg_ok reg = (\<forall>e \<in> set reg. \<exists>sid to_state. reg_entry e sid to_state)"

definition abs_state :: "entry list \<Rightarrow> string \<Rightarrow> string" where
  "abs_state reg sid = (case scan_states sid ACTIVE reg of Inr st \<Rightarrow> st | Inl _ \<Rightarrow> ACTIVE)"

lemma scan_step:
  "reg_entry e x t \<Longrightarrow> scan_states sid cur (e # es) = scan_states sid (if x = sid then t else cur) es"
  by (auto simp: reg_entry_def in_states_def)

lemma scan_append:
  "scan_states sid cur (xs @ ys) = rbind (scan_states sid cur xs) (\<lambda>c. scan_states sid c ys)"
proof (induction xs arbitrary: cur)
  case (Cons e xs)
  show ?case
  proof (cases "content_json e")
    case (Some data)
    then show ?thesis
      using Cons by (cases data) (auto simp: jget_def in_states_def split: json.splits)
  qed (simp add: Cons)
qed simp

lemma scan_total: "reg_ok reg \<Longrightarrow> \<exists>st. scan_states sid cur reg = Inr st"
proof (induction reg arbitrary: cur)
  case (Cons e reg)
  then obtain x t where "reg_entry e x t" by (auto simp: reg_ok_def)
  with Cons scan_step [OF this] show ?case by (auto simp: reg_ok_def)
qed simp

lemma scan_abs: "reg_ok reg \<Longrightarrow> scan_states sid ACTIVE reg = Inr (abs_state reg sid)"
  using scan_total [of reg sid ACTIVE] by (auto simp: abs_state_def)

lemma abs_state_snoc:
  assumes "reg_ok reg" and "reg_entry e x t"
  shows "abs_state (reg @ [e]) = (abs_state reg)(x := t)"
proof
  fix sid
  show "abs_state (reg @ [e]) sid = ((abs_state reg)(x := t)) sid"
    using scan_abs [OF assms(1), of sid] scan_step [OF assms(2), of sid _ "[]"]
    by (simp add: abs_state_def [of "reg @ [e]"] scan_append del: scan_states.simps(2))
qed

lemma abs_state_Nil [simp]: "abs_state [] sid = ACTIVE"
  by (simp add: abs_state_def)

section \<open>The invariant of the manager\<close>

definition lc_inv :: "sha \<Rightarrow> entry list \<Rightarrow> lifecycle \<Rightarrow> bool" where
  "lc_inv sha reg l =
     (shard_inv sha LIFECYCLE_SHARD (lc_fs l) reg \<and> mono_files (lc_fs l) = [] \<and> reg_ok reg \<and>
      int (length reg) \<le> READ_ALL \<and>
      (\<forall>sid st. dget sid (lc_cache l) = Some st \<longrightarrow> st = abs_state reg sid))"

lemma lc_read_inv:
  assumes "shard_inv sha sid (lc_fs l) es" and "mono_files (lc_fs l) = []"
  shows "lc_read sid limit l = (l, Inr (take (nat (max 1 limit)) (rev es)))"
  using read_inv [OF assms, of 0 limit] by (simp add: lc_read_def)

text \<open>Looking a state up gives the abstract state and at most fills the cache.\<close>

lemma lc_state_inv:
  assumes "lc_inv sha reg l"
  obtains l' where "lc_state sid l = (l', Inr (abs_state reg sid))" and "lc_inv sha reg l'" and "lc_fs l' = lc_fs l"
proof (cases "dget sid (lc_cache l)")
  case None
  let ?l = "l\<lparr>lc_cache := dput sid (abs_state reg sid) (lc_cache l)\<rparr>"
  have "lc_read LIFECYCLE_SHARD READ_ALL l = (l, Inr (rev reg))"
    using lc_read_inv [of sha LIFECYCLE_SHARD l reg READ_ALL] assms by (simp add: lc_inv_def)
  moreover have "scan_states sid ACTIVE reg = Inr (abs_state reg sid)"
    using scan_abs assms by (simp add: lc_inv_def)
  ultimately have "lc_state sid l = (?l, Inr (abs_state reg sid))"
    using None by (simp add: lc_state_def sbind_def of_res_def)
  moreover have "lc_inv sha reg ?l" using assms by (simp add: lc_inv_def)
  ultimately show ?thesis using that by simp
next
  case (Some st)
  then have "lc_state sid l = (l, Inr (abs_state reg sid))"
    using assms by (simp add: lc_state_def lc_inv_def)
  then show ?thesis using that assms by simp
qed

section \<open>Writing a transition\<close>

lemma dget_dupdate_other: "k \<notin> fst ` set xs \<Longrightarrow> map_of (dupdate d xs) k = map_of d k"
proof (induction xs arbitrary: d)
  case (Cons x xs)
  then show ?case by (cases x) simp
qed simp

definition good_extra :: "(string \<times> json) list \<Rightarrow> bool" where
  "good_extra extra =
     (fst ` set extra \<inter> {''event_type'', ''shard_id'', ''to_state''} = {} \<and> (\<forall>(k, v) \<in> set extra. wf_json v))"

lemma transition_content_wf:
  assumes "good_extra extra" and "wf_json owner" and "wf_json reason"
  shows "wf_json (transition_content sid a b owner reason extra)"
proof -
  let ?b = "[(''event_type'', JStr ''lifecycle_transition''), (''shard_id'', JStr sid),
        (''from_state'', JStr a), (''to_state'', JStr b), (''owner_id'', owner), (''reason'', reason)]"
  have "distinct (map fst (dupdate ?b extra)) \<and> set (dupdate ?b extra) \<subseteq> set ?b \<union> set extra"
    by (rule dupdate_props) simp
  then show ?thesis
    using assms by (auto simp: transition_content_def list_all_iff good_extra_def)
qed

lemma transition_reg_entry:
  assumes "good_extra extra" and "wf_json owner" and "wf_json reason" and "b \<in> set VALID_STATES"
    and "content e = JStr (dumps_sorted compact_ascii (transition_content sid a b owner reason extra))"
  shows "reg_entry e sid b"
proof -
  let ?c = "transition_content sid a b owner reason extra"
  have wf: "wf_json ?c" by (rule transition_content_wf [OF assms(1-3)])
  obtain d where d: "?c = JObj d" by (simp add: transition_content_def)
  then have "distinct (map fst d)" using wf by simp
  note g = dget_norm [OF this]
  have keys: "''event_type'' \<notin> fst ` set extra" "''shard_id'' \<notin> fst ` set extra" "''to_state'' \<notin> fst ` set extra"
    using assms(1) by (auto simp: good_extra_def)
  have "content_json e = Some (norm (JObj d))"
    using assms(5) loads_dumps_sorted [OF wf] d by (simp add: content_json_def)
  moreover have "dget ''event_type'' d = Some (JStr ''lifecycle_transition'')" "dget ''shard_id'' d = Some (JStr sid)"
    "dget ''to_state'' d = Some (JStr b)"
    using d keys by (auto simp: transition_content_def dget_dupdate_other)
  ultimately show ?thesis
    using assms(4) by (simp add: reg_entry_def g)
qed

definition env_ok :: "sha \<Rightarrow> lc_env \<Rightarrow> bool" where
  "env_ok sha env = (le_sha env = sha \<and> valid_dt (le_now env))"

lemma transition_acceptable:
  "env_ok sha env \<Longrightarrow> acceptable (transition_entry env sid b data)"
  "shard_of (transition_entry env sid b data) = Inr LIFECYCLE_SHARD"
  by (auto simp: env_ok_def acceptable_def wf_entry_def transition_entry_def shard_of_def LIFECYCLE_SHARD_def)

lemma write_transition_inv:
  assumes inv: "lc_inv sha reg l" and env: "env_ok sha env" and room: "int (length reg) < READ_ALL"
    and ex: "good_extra extra" "wf_json owner" "wf_json reason" and b: "b \<in> set VALID_STATES"
  obtains l' e r where "write_transition env sid a b owner reason extra l = (l', Inr e)"
    and "lc_inv sha (reg @ [r]) l'" and "abs_state (reg @ [r]) = (abs_state reg)(sid := b)"
    and "\<forall>x es. shard_inv sha x (lc_fs l) es \<longrightarrow> family_name x \<noteq> family_name LIFECYCLE_SHARD \<longrightarrow>
      shard_inv sha x (lc_fs l') es"
proof -
  let ?e = "transition_entry env sid b (transition_content sid a b owner reason extra)"
  let ?r = "stored_entry sha LIFECYCLE_SHARD (tip reg) ?e"
  have sh: "shard_inv sha LIFECYCLE_SHARD (lc_fs l) reg" and ok: "reg_ok reg" and mono: "mono_files (lc_fs l) = []"
    using inv by (simp_all add: lc_inv_def)
  have acc: "acceptable ?e" and sid: "shard_of ?e = Inr LIFECYCLE_SHARD"
    using transition_acceptable env by blast+
  obtain s' e' where app: "append sha (le_now env) ?e (lc_fs l) = (s', Inr e')"
    and inv': "shard_inv sha LIFECYCLE_SHARD s' (reg @ [?r])"
    by (rule append_inv [OF sh acc sid])
  obtain h where "compute_canonical_entry_hash sha ?e (tip reg) = Inr h"
    using compute_hash_Inr [OF acc tip_json(2) [OF shard_invD(1) [OF sh]]] by blast
  then have "content ?r = JStr (dumps_sorted compact_ascii (transition_content sid a b owner reason extra))"
    by (rule stored_content) (simp add: transition_entry_def)
  then have re: "reg_entry ?r sid b" by (rule transition_reg_entry [OF ex b])
  note abs = abs_state_snoc [OF ok re]
  let ?l = "l\<lparr>lc_fs := s', lc_cache := dput sid b (lc_cache l)\<rparr>"
  have w: "write_transition env sid a b owner reason extra l = (?l, Inr e')"
    using app env by (simp add: write_transition_def env_ok_def)
  have "mono_files s' = []" using append_mono [of sha "le_now env" ?e "lc_fs l"] app mono by simp
  moreover have "reg_ok (reg @ [?r])" using ok re by (auto simp: reg_ok_def)
  ultimately have "lc_inv sha (reg @ [?r]) ?l"
    using inv inv' room abs by (auto simp: lc_inv_def)
  moreover have "shard_inv sha x s' es" if "shard_inv sha x (lc_fs l) es" "family_name x \<noteq> family_name LIFECYCLE_SHARD" for x es
    using append_frame [OF sh acc sid that, of "le_now env"] app by simp
  ultimately show ?thesis using that [OF w _ abs] by simp
qed

section \<open>The specification\<close>

datatype lc_op = Drain | Seal | Archive

text \<open>Whether the operation is accepted in a state, and the state after it.\<close>

fun lc_spec :: "lc_op \<Rightarrow> string \<Rightarrow> bool \<times> string" where
  "lc_spec Drain st = (if st = ACTIVE then (True, DRAINING) else (False, st))"
| "lc_spec Seal st = (if st = ACTIVE \<or> st = DRAINING then (True, SEALED) else (False, st))"
| "lc_spec Archive st = (if st = SEALED then (True, ARCHIVED) else (False, st))"

definition run_op :: "lc_env \<Rightarrow> lc_op \<Rightarrow> string \<Rightarrow> json \<Rightarrow> json \<Rightarrow> (lifecycle, lifecycle_result) op" where
  "run_op env lop sid owner reason =
     (case lop of Drain \<Rightarrow> drain env None sid owner
      | Seal \<Rightarrow> seal env None sid owner reason
      | Archive \<Rightarrow> archive env sid owner)"

text \<open>What an operation leaves: the invariant for a longer registry, the state and the frame.\<close>

definition lc_effect :: "sha \<Rightarrow> entry list \<Rightarrow> lifecycle \<Rightarrow> string \<Rightarrow> string \<Rightarrow> entry list \<Rightarrow> lifecycle \<Rightarrow> bool" where
  "lc_effect sha reg l sid st reg' l' =
     (lc_inv sha reg' l' \<and> abs_state reg' = (abs_state reg)(sid := st) \<and> prefix reg reg' \<and>
      (\<forall>x es. shard_inv sha x (lc_fs l) es \<longrightarrow> family_name x \<noteq> family_name LIFECYCLE_SHARD \<longrightarrow>
         shard_inv sha x (lc_fs l') es))"

lemma lc_effect_refl: "lc_inv sha reg l' \<Longrightarrow> lc_fs l' = lc_fs l \<Longrightarrow> lc_effect sha reg l sid (abs_state reg sid) reg l'"
  by (simp add: lc_effect_def)

lemma write_effect:
  assumes "lc_inv sha reg l" and "env_ok sha env" and "int (length reg) < READ_ALL"
    and "good_extra extra" "wf_json owner" "wf_json reason" and "b \<in> set VALID_STATES"
  shows "\<exists>l' e r. write_transition env sid a b owner reason extra l = (l', Inr e) \<and>
    lc_effect sha reg l sid b (reg @ [r]) l'"
proof -
  obtain l' e r where "write_transition env sid a b owner reason extra l = (l', Inr e)"
    and "lc_inv sha (reg @ [r]) l'" and "abs_state (reg @ [r]) = (abs_state reg)(sid := b)"
    and "\<forall>x es. shard_inv sha x (lc_fs l) es \<longrightarrow> family_name x \<noteq> family_name LIFECYCLE_SHARD \<longrightarrow>
      shard_inv sha x (lc_fs l') es"
    by (rule write_transition_inv [OF assms])
  then show ?thesis by (auto simp: lc_effect_def)
qed

lemma states_valid [simp]:
  "DRAINING \<in> set VALID_STATES" "SEALED \<in> set VALID_STATES" "ARCHIVED \<in> set VALID_STATES" "ACTIVE \<in> set VALID_STATES"
  by (simp_all add: VALID_STATES_def)

lemma states_distinct [simp]:
  "ACTIVE \<noteq> DRAINING" "ACTIVE \<noteq> SEALED" "ACTIVE \<noteq> ARCHIVED" "DRAINING \<noteq> SEALED" "DRAINING \<noteq> ARCHIVED" "SEALED \<noteq> ARCHIVED"
  "DRAINING \<noteq> ACTIVE" "SEALED \<noteq> ACTIVE" "ARCHIVED \<noteq> ACTIVE" "SEALED \<noteq> DRAINING" "ARCHIVED \<noteq> DRAINING" "ARCHIVED \<noteq> SEALED"
  by (simp_all add: state_consts)

lemma good_extras [simp]:
  "good_extra [(''distilled_count'', JInt n)]" "wf_json h \<Longrightarrow> good_extra [(''final_hash'', h)]"
  "wf_json h \<Longrightarrow> good_extra [(''final_hash'', h), (''hash_only'', JBool True)]"
  by (simp_all add: good_extra_def)

lemma drain_effect:
  assumes inv: "lc_inv sha reg l" and env: "env_ok sha env" and room: "int (length reg) < READ_ALL"
    and owner: "wf_json owner"
  obtains l' r reg' where "drain env None sid owner l = (l', Inr r)"
    and "lr_ok r = fst (lc_spec Drain (abs_state reg sid))"
    and "lc_effect sha reg l sid (snd (lc_spec Drain (abs_state reg sid))) reg' l'"
    and "length reg' \<le> Suc (length reg)"
proof -
  obtain l1 where st: "lc_state sid l = (l1, Inr (abs_state reg sid))" and inv1: "lc_inv sha reg l1"
    and fs1: "lc_fs l1 = lc_fs l" by (rule lc_state_inv [OF inv])
  show ?thesis
  proof (cases "abs_state reg sid = ACTIVE")
    case False
    with st that [of l1 _ reg] lc_effect_refl [OF inv1 fs1] show ?thesis
      by (simp add: drain_def sbind_def lc_refuse_def)
  next
    case True
    obtain l2 e r where w: "write_transition env sid ACTIVE DRAINING owner (JStr ''drain requested'')
        [(''distilled_count'', JInt 0)] l1 = (l2, Inr e)" and ef: "lc_effect sha reg l1 sid DRAINING (reg @ [r]) l2"
      using write_effect [OF inv1 env room, of "[(''distilled_count'', JInt 0)]" owner
          "JStr ''drain requested''" DRAINING sid ACTIVE] owner by auto
    have "lc_effect sha reg l sid DRAINING (reg @ [r]) l2" using ef fs1 by (simp add: lc_effect_def)
    with True st w that [of l2 _ "reg @ [r]"] show ?thesis by (simp add: drain_def sbind_def)
  qed
qed

lemma tip_wf: "chained sha JNull es \<Longrightarrow> wf_json (tip es)"
  by (rule tip_json(1))

lemma tip_of_read_rev [simp]: "tip_of_read (take (Suc 0) (rev es)) = tip es"
  by (cases es rule: rev_cases) (simp_all add: tip_of_read_def tip_def)

lemma spot_check_inv:
  assumes "shard_inv sha sid (lc_fs l) es" and "mono_files (lc_fs l) = []"
  obtains v where "lc_verify sid False l = (l, Inr v)" and "lv_passed v"
proof (cases es rule: rev_cases)
  case Nil
  with lc_read_inv [OF assms, of 2] that [of no_entries] show ?thesis
    by (simp add: lc_verify_def sbind_def no_entries_def)
next
  case (snoc xs e)
  then have "hash_ok sha e" using chained_hash_ok [OF shard_invD(1) [OF assms(1)]] by simp
  then have "hash e \<noteq> JNull" "hash e \<noteq> JStr []" using hash_ok_truthy by force+
  with snoc lc_read_inv [OF assms, of 2] that show ?thesis
    by (simp add: lc_verify_def sbind_def numeral_2_eq_2)
qed

lemma seal_draining_effect:
  assumes inv: "lc_inv sha reg l" and env: "env_ok sha env" and room: "int (length reg) < READ_ALL"
    and wf: "wf_json owner" "wf_json reason" and sh: "shard_inv sha sid (lc_fs l) es"
  obtains l' r x where "seal_draining env sid owner reason l = (l', Inr r)" and "lr_ok r"
    and "lr_final_hash r = tip es" and "lc_effect sha reg l sid SEALED (reg @ [x]) l'"
proof -
  have mono: "mono_files (lc_fs l) = []" using inv by (simp add: lc_inv_def)
  obtain v where v: "lc_verify sid False l = (l, Inr v)" "lv_passed v" by (rule spot_check_inv [OF sh mono])
  have rd: "lc_read sid 1 l = (l, Inr (take (Suc 0) (rev es)))" using lc_read_inv [OF sh mono, of 1] by simp
  obtain l' e r where w: "write_transition env sid DRAINING SEALED owner (if truthy reason then reason else JStr ''sealed'')
      [(''final_hash'', tip es)] l = (l', Inr e)" and ef: "lc_effect sha reg l sid SEALED (reg @ [r]) l'"
    using write_effect [OF inv env room, of "[(''final_hash'', tip es)]" owner
        "if truthy reason then reason else JStr ''sealed''" SEALED sid DRAINING]
      wf tip_wf [OF shard_invD(1) [OF sh]] by (cases "truthy reason") auto
  with that [OF _ _ _ ef] v rd show ?thesis by (simp add: seal_draining_def sbind_def Let_def)
qed

lemma lc_effect_trans:
  assumes "lc_effect sha reg l sid a reg1 l1" and "lc_effect sha reg1 l1 sid b reg2 l2"
  shows "lc_effect sha reg l sid b reg2 l2"
  using assms by (auto simp: lc_effect_def fun_upd_def intro: prefix_order.trans)

lemma archive_effect:
  assumes inv: "lc_inv sha reg l" and env: "env_ok sha env" and room: "int (length reg) < READ_ALL"
    and owner: "wf_json owner" and sh: "shard_inv sha sid (lc_fs l) es"
  obtains l' r reg' where "archive env sid owner l = (l', Inr r)"
    and "lr_ok r = fst (lc_spec Archive (abs_state reg sid))" and "lr_ok r \<longrightarrow> lr_final_hash r = tip es"
    and "lc_effect sha reg l sid (snd (lc_spec Archive (abs_state reg sid))) reg' l'"
    and "length reg' \<le> Suc (length reg)"
proof -
  obtain l1 where st: "lc_state sid l = (l1, Inr (abs_state reg sid))" and inv1: "lc_inv sha reg l1"
    and fs1: "lc_fs l1 = lc_fs l" by (rule lc_state_inv [OF inv])
  show ?thesis
  proof (cases "abs_state reg sid = SEALED")
    case False
    with st that [of l1 _ reg] lc_effect_refl [OF inv1 fs1] show ?thesis
      by (simp add: archive_def sbind_def lc_refuse_def)
  next
    case True
    have sh1: "shard_inv sha sid (lc_fs l1) es" and mono: "mono_files (lc_fs l1) = []"
      using sh fs1 inv1 by (simp_all add: lc_inv_def)
    have rd: "lc_read sid 1 l1 = (l1, Inr (take (Suc 0) (rev es)))" using lc_read_inv [OF sh1 mono, of 1] by simp
    obtain l2 e r where w: "write_transition env sid SEALED ARCHIVED owner (JStr ''archived'')
        [(''final_hash'', tip es), (''hash_only'', JBool True)] l1 = (l2, Inr e)"
      and ef: "lc_effect sha reg l1 sid ARCHIVED (reg @ [r]) l2"
      using write_effect [OF inv1 env room, of "[(''final_hash'', tip es), (''hash_only'', JBool True)]" owner
          "JStr ''archived''" ARCHIVED sid SEALED] owner tip_wf [OF shard_invD(1) [OF sh]] by auto
    have "lc_effect sha reg l sid ARCHIVED (reg @ [r]) l2" using ef fs1 by (simp add: lc_effect_def)
    with True st rd w that [of l2 _ "reg @ [r]"] show ?thesis by (simp add: archive_def sbind_def Let_def)
  qed
qed

lemma seal_effect:
  assumes inv: "lc_inv sha reg l" and env: "env_ok sha env" and room: "int (length reg) + 2 \<le> READ_ALL"
    and wf: "wf_json owner" "wf_json reason" and sh: "shard_inv sha sid (lc_fs l) es"
    and fam: "family_name sid \<noteq> family_name LIFECYCLE_SHARD"
  obtains l' r reg' where "seal env None sid owner reason l = (l', Inr r)"
    and "lr_ok r = fst (lc_spec Seal (abs_state reg sid))" and "lr_ok r \<longrightarrow> lr_final_hash r = tip es"
    and "lc_effect sha reg l sid (snd (lc_spec Seal (abs_state reg sid))) reg' l'"
    and "length reg' \<le> Suc (Suc (length reg))"
proof -
  obtain l1 where st: "lc_state sid l = (l1, Inr (abs_state reg sid))" and inv1: "lc_inv sha reg l1"
    and fs1: "lc_fs l1 = lc_fs l" by (rule lc_state_inv [OF inv])
  have sh1: "shard_inv sha sid (lc_fs l1) es" using sh fs1 by simp
  have r1: "int (length reg) < READ_ALL" using room by simp
  consider "abs_state reg sid = ACTIVE" | "abs_state reg sid = DRAINING"
    | "abs_state reg sid \<noteq> ACTIVE" "abs_state reg sid \<noteq> DRAINING" by blast
  then show ?thesis
  proof cases
    case 1
    obtain l2 d reg2 where d: "drain env None sid owner l1 = (l2, Inr d)"
      and ok: "lr_ok d = fst (lc_spec Drain (abs_state reg sid))"
      and ef: "lc_effect sha reg l1 sid (snd (lc_spec Drain (abs_state reg sid))) reg2 l2"
      and len: "length reg2 \<le> Suc (length reg)"
      by (rule drain_effect [OF inv1 env r1 wf(1)])
    have inv2: "lc_inv sha reg2 l2" and sh2: "shard_inv sha sid (lc_fs l2) es"
      using ef sh1 fam by (simp_all add: lc_effect_def)
    have r2: "int (length reg2) < READ_ALL" using len room by linarith
    obtain l3 r x where s3: "seal_draining env sid owner reason l2 = (l3, Inr r)" "lr_ok r" "lr_final_hash r = tip es"
      and ef3: "lc_effect sha reg2 l2 sid SEALED (reg2 @ [x]) l3"
      by (rule seal_draining_effect [OF inv2 env r2 wf sh2])
    have "lc_effect sha reg l1 sid SEALED (reg2 @ [x]) l3" by (rule lc_effect_trans [OF ef ef3])
    then have "lc_effect sha reg l sid SEALED (reg2 @ [x]) l3" using fs1 by (simp add: lc_effect_def)
    with 1 st d ok s3 len that [of l3 r "reg2 @ [x]"] show ?thesis by (simp add: seal_def sbind_def)
  next
    case 2
    obtain l3 r x where s3: "seal_draining env sid owner reason l1 = (l3, Inr r)" "lr_ok r" "lr_final_hash r = tip es"
      and ef3: "lc_effect sha reg l1 sid SEALED (reg @ [x]) l3"
      by (rule seal_draining_effect [OF inv1 env r1 wf sh1])
    then have "lc_effect sha reg l sid SEALED (reg @ [x]) l3" using fs1 by (simp add: lc_effect_def)
    with 2 st s3 that [of l3 r "reg @ [x]"] show ?thesis by (simp add: seal_def sbind_def)
  next
    case 3
    with st that [of l1 _ reg] lc_effect_refl [OF inv1 fs1] show ?thesis
      by (simp add: seal_def sbind_def lc_refuse_def)
  qed
qed

text \<open>One operation, whichever it is.\<close>

lemma run_op_effect:
  assumes "lc_inv sha reg l" and "env_ok sha env" and "int (length reg) + 2 \<le> READ_ALL"
    and "wf_json owner" "wf_json reason" and "shard_inv sha sid (lc_fs l) es"
    and "family_name sid \<noteq> family_name LIFECYCLE_SHARD"
  shows "\<exists>l' r reg'. run_op env lop sid owner reason l = (l', Inr r) \<and>
    lr_ok r = fst (lc_spec lop (abs_state reg sid)) \<and> (lr_ok r \<and> lop \<noteq> Drain \<longrightarrow> lr_final_hash r = tip es) \<and>
    lc_effect sha reg l sid (snd (lc_spec lop (abs_state reg sid))) reg' l' \<and> length reg' \<le> length reg + 2"
proof (cases lop)
  case Drain
  obtain l' r reg' where "drain env None sid owner l = (l', Inr r)"
    "lr_ok r = fst (lc_spec Drain (abs_state reg sid))"
    "lc_effect sha reg l sid (snd (lc_spec Drain (abs_state reg sid))) reg' l'" "length reg' \<le> Suc (length reg)"
    using drain_effect [OF assms(1,2) _ assms(4)] assms(3) by (metis add_le_cancel_left less_add_same_cancel1 less_le_trans zero_less_numeral)
  with Drain show ?thesis by (auto simp: run_op_def)
next
  case Seal
  obtain l' r reg' where "seal env None sid owner reason l = (l', Inr r)"
    "lr_ok r = fst (lc_spec Seal (abs_state reg sid))" "lr_ok r \<longrightarrow> lr_final_hash r = tip es"
    "lc_effect sha reg l sid (snd (lc_spec Seal (abs_state reg sid))) reg' l'" "length reg' \<le> Suc (Suc (length reg))"
    by (rule seal_effect [OF assms])
  with Seal show ?thesis by (auto simp: run_op_def)
next
  case Archive
  have "int (length reg) < READ_ALL" using assms(3) by simp
  then obtain l' r reg' where "archive env sid owner l = (l', Inr r)"
    "lr_ok r = fst (lc_spec Archive (abs_state reg sid))" "lr_ok r \<longrightarrow> lr_final_hash r = tip es"
    "lc_effect sha reg l sid (snd (lc_spec Archive (abs_state reg sid))) reg' l'" "length reg' \<le> Suc (length reg)"
    using archive_effect [OF assms(1,2) _ assms(4,6)] by metis
  with Archive show ?thesis by (auto simp: run_op_def)
qed

section \<open>Histories\<close>

record lc_request =
  rq_env :: lc_env
  rq_op :: lc_op
  rq_shard :: string
  rq_owner :: json
  rq_reason :: json

definition run_request :: "lc_request \<Rightarrow> lifecycle \<Rightarrow> lifecycle" where
  "run_request q l = fst (run_op (rq_env q) (rq_op q) (rq_shard q) (rq_owner q) (rq_reason q) l)"

definition spec_request :: "lc_request \<Rightarrow> (string \<Rightarrow> string) \<Rightarrow> (string \<Rightarrow> string)" where
  "spec_request q f = f(rq_shard q := snd (lc_spec (rq_op q) (f (rq_shard q))))"

text \<open>The shards a history is about: each has a valid chain and a directory of its own.\<close>

definition managed :: "sha \<Rightarrow> string set \<Rightarrow> fs \<Rightarrow> bool" where
  "managed sha S s =
     (\<forall>sid \<in> S. (\<exists>es. shard_inv sha sid s es) \<and> family_name sid \<noteq> family_name LIFECYCLE_SHARD)"

definition lc_ready :: "sha \<Rightarrow> string set \<Rightarrow> nat \<Rightarrow> lifecycle \<Rightarrow> bool" where
  "lc_ready sha S n l =
     (\<exists>reg. lc_inv sha reg l \<and> int (length reg) + 2 * int n \<le> READ_ALL \<and> managed sha S (lc_fs l))"

definition request_in :: "sha \<Rightarrow> string set \<Rightarrow> lc_request \<Rightarrow> bool" where
  "request_in sha S q = (env_ok sha (rq_env q) \<and> rq_shard q \<in> S \<and> wf_json (rq_owner q) \<and> wf_json (rq_reason q))"

definition lc_abs :: "lifecycle \<Rightarrow> string \<Rightarrow> string" where
  "lc_abs l = abs_state (shard_log LIFECYCLE_SHARD (lc_fs l))"

lemma lc_abs_inv: "lc_inv sha reg l \<Longrightarrow> lc_abs l = abs_state reg"
  using shard_log_inv [of sha LIFECYCLE_SHARD "lc_fs l" reg] by (simp add: lc_abs_def lc_inv_def)

lemma run_request_effect:
  assumes "lc_ready sha S (Suc n) l" and "request_in sha S q"
  shows "lc_ready sha S n (run_request q l) \<and> lc_abs (run_request q l) = spec_request q (lc_abs l)"
proof -
  obtain reg where inv: "lc_inv sha reg l" and room: "int (length reg) + 2 * int (Suc n) \<le> READ_ALL"
    and man: "managed sha S (lc_fs l)" using assms(1) by (auto simp: lc_ready_def)
  have q: "env_ok sha (rq_env q)" "wf_json (rq_owner q)" "wf_json (rq_reason q)" "rq_shard q \<in> S"
    using assms(2) by (simp_all add: request_in_def)
  obtain es where sh: "shard_inv sha (rq_shard q) (lc_fs l) es"
    and fam: "family_name (rq_shard q) \<noteq> family_name LIFECYCLE_SHARD" using man q(4) by (auto simp: managed_def)
  have "int (length reg) + 2 \<le> READ_ALL" using room by simp
  then obtain l' r reg' where run: "run_op (rq_env q) (rq_op q) (rq_shard q) (rq_owner q) (rq_reason q) l = (l', Inr r)"
    and ef: "lc_effect sha reg l (rq_shard q) (snd (lc_spec (rq_op q) (abs_state reg (rq_shard q)))) reg' l'"
    and len: "length reg' \<le> length reg + 2"
    using run_op_effect [OF inv q(1) _ q(2,3) sh fam] by blast
  have "managed sha S (lc_fs l')" using man ef unfolding managed_def lc_effect_def by blast
  moreover have "int (length reg') + 2 * int n \<le> READ_ALL" using len room by simp
  ultimately have "lc_ready sha S n l'" using ef by (auto simp: lc_ready_def lc_effect_def)
  moreover have "lc_abs l' = spec_request q (lc_abs l)"
    using ef lc_abs_inv [OF inv] lc_abs_inv [of sha reg' l'] by (simp add: lc_effect_def spec_request_def)
  ultimately show ?thesis using run by (simp add: run_request_def)
qed

interpretation lifecycle: simulation "lc_ready sha S" lc_abs "request_in sha S" run_request spec_request
  for sha :: sha and S :: "string set"
  by unfold_locales (use run_request_effect in blast)+

text \<open>A manager on a storage where no transition was recorded yet.\<close>

definition new_manager :: "fs \<Rightarrow> lifecycle" where
  "new_manager s = \<lparr>lc_fs = s, lc_cache = []\<rparr>"

lemma lc_inv_new:
  assumes "shard_inv sha LIFECYCLE_SHARD s reg" and "mono_files s = []" and "reg_ok reg" and "int (length reg) \<le> READ_ALL"
  shows "lc_inv sha reg (new_manager s)"
  using assms by (simp add: lc_inv_def new_manager_def)

lemma lc_state_value: "lc_inv sha reg l \<Longrightarrow> snd (lc_state sid l) = Inr (lc_abs l sid)"
  using lc_state_inv [of sha reg l sid] lc_abs_inv [of sha reg l] by (metis snd_conv)

text \<open>The state after a history, as this manager and a fresh one report it.\<close>

lemma history_value:
  assumes "shard_inv sha LIFECYCLE_SHARD s []" and "mono_files s = []" and "managed sha S s"
    and "\<forall>q \<in> set qs. request_in sha S q" and "length qs \<le> 500000"
  defines "l \<equiv> fold run_request qs (new_manager s)"
  shows "snd (lc_state sid l) = Inr (fold spec_request qs (\<lambda>_. ACTIVE) sid)"
    and "snd (lc_state sid (new_manager (lc_fs l))) = Inr (fold spec_request qs (\<lambda>_. ACTIVE) sid)"
proof -
  have inv: "lc_inv sha [] (new_manager s)"
    using assms(1,2) by (intro lc_inv_new) (simp_all add: reg_ok_def READ_ALL_def)
  then have ready: "lc_ready sha S (length qs) (new_manager s)"
    using assms(3,5) unfolding lc_ready_def by (intro exI [where x = "[]"]) (simp add: new_manager_def READ_ALL_def)
  have abs: "lc_abs l = fold spec_request qs (\<lambda>_. ACTIVE)"
    using lifecycle.steps_abs [OF ready assms(4)] lc_abs_inv [OF inv] by (simp add: l_def abs_state_Nil [abs_def])
  have "lc_ready sha S 0 l" unfolding l_def using lifecycle.steps_inv [of sha S qs 0] ready assms(4) by simp
  then obtain reg where reg: "lc_inv sha reg l" by (auto simp: lc_ready_def)
  then have reg': "lc_inv sha reg (new_manager (lc_fs l))" by (simp add: lc_inv_def new_manager_def)
  show "snd (lc_state sid l) = Inr (fold spec_request qs (\<lambda>_. ACTIVE) sid)"
    using lc_state_value [OF reg, of sid] abs by simp
  have "lc_abs (new_manager (lc_fs l)) = lc_abs l" by (simp add: lc_abs_def new_manager_def)
  then show "snd (lc_state sid (new_manager (lc_fs l))) = Inr (fold spec_request qs (\<lambda>_. ACTIVE) sid)"
    using lc_state_value [OF reg', of sid] abs by simp
qed

end
