(* ===== verification/Lifecycle_Props.thy ===== *)
theory Lifecycle_Props
  imports Lifecycle_Laws
begin

text \<open>Properties of the shard lifecycle, over histories of requests.\<close>

section \<open>A concrete history\<close>

definition sample_store :: fs where
  "sample_store = run_appends (\<lambda>m. m) [(sample_time, sample_entry ''alpha'' ''one'')] empty_fs"

definition sample_env :: lc_env where
  "sample_env = \<lparr>le_sha = \<lambda>m. m, le_now = sample_time, le_uuid = ''u-1''\<rparr>"

definition sample_request :: "lc_op \<Rightarrow> lc_request" where
  "sample_request lop = \<lparr>rq_env = sample_env, rq_op = lop, rq_shard = ''alpha'', rq_owner = JStr ''owner'', rq_reason = JNull\<rparr>"

lemma alpha_not_registry: "family_name ''alpha'' \<noteq> family_name LIFECYCLE_SHARD"
  by (simp add: family_name_def LIFECYCLE_SHARD_def py_replace_unfold)

lemma sample_store_props:
  "managed (\<lambda>m. m) {''alpha''} sample_store" "shard_inv (\<lambda>m. m) LIFECYCLE_SHARD sample_store []"
  "mono_files sample_store = []"
proof -
  have ok: "\<forall>a \<in> set [(sample_time, sample_entry ''alpha'' ''one'')]. request_ok ''alpha'' a" by (simp add: sample_ok)
  show "managed (\<lambda>m. m) {''alpha''} sample_store"
    using history_inv [OF ok, of "\<lambda>m. m"] alpha_not_registry by (auto simp: managed_def sample_store_def)
  show "shard_inv (\<lambda>m. m) LIFECYCLE_SHARD sample_store []"
    using sample_ok [of "''alpha''" sample_time "''one''"] alpha_not_registry
    by (auto simp: sample_store_def run_append_def request_ok_def intro!: append_frame [OF shard_inv_empty])
  show "mono_files sample_store = []" by (simp add: sample_store_def run_append_def empty_fs_def)
qed

lemma sample_request_in: "request_in (\<lambda>m. m) {''alpha''} (sample_request lop)"
  by (simp add: request_in_def env_ok_def sample_request_def sample_env_def)

section \<open>Properties\<close>

text \<open>
  C8: the manager refines the abstract lifecycle. For every history of drain, seal and archive
  requests on shards with valid chains, the state it reports for each shard is the one
  the four-state specification computes, and a manager started afresh on the same
  storage reports the same states: the registry alone determines them. (A history of
  half a million requests fits the million registry entries a start reads back.)
\<close>

theorem lifecycle_refines_spec:
  assumes "shard_inv sha LIFECYCLE_SHARD s []" and "mono_files s = []" and "managed sha S s"
    and "\<forall>q \<in> set qs. request_in sha S q" and "length qs \<le> 500000"
  shows "snd (lc_state sid (fold run_request qs (new_manager s))) = Inr (fold spec_request qs (\<lambda>_. ACTIVE) sid) \<and>
    snd (lc_state sid (new_manager (lc_fs (fold run_request qs (new_manager s))))) = Inr (fold spec_request qs (\<lambda>_. ACTIVE) sid)"
  using history_value [OF assms, of sid] by simp

theorem lifecycle_refines_spec_witness:
  "snd (lc_state ''alpha'' (fold run_request (map sample_request [Drain, Archive, Seal, Archive]) (new_manager sample_store)))
     = Inr ARCHIVED"
  using lifecycle_refines_spec [of "\<lambda>m. m" sample_store "{''alpha''}" "map sample_request [Drain, Archive, Seal, Archive]" "''alpha''"]
    sample_store_props sample_request_in
  by (simp add: spec_request_def sample_request_def)

text \<open>
  Each operation answers as documented. Drain is accepted from active, seal from active
  (draining first) or draining, archive from sealed only; a refusal leaves every state
  as it was; an accepted seal or archive records the hash of the shard's last entry; and
  the chains of all shards outside the registry are kept.
\<close>

theorem lifecycle_operation_outcome:
  assumes "lc_inv sha reg l" and "env_ok sha env" and "int (length reg) + 2 \<le> READ_ALL"
    and "wf_json owner" "wf_json reason" and "shard_inv sha sid (lc_fs l) es"
    and "family_name sid \<noteq> family_name LIFECYCLE_SHARD"
  shows "\<exists>l' r reg'. run_op env lop sid owner reason l = (l', Inr r) \<and>
    (lr_ok r \<longleftrightarrow> (case lop of Drain \<Rightarrow> abs_state reg sid = ACTIVE
       | Seal \<Rightarrow> abs_state reg sid \<in> {ACTIVE, DRAINING} | Archive \<Rightarrow> abs_state reg sid = SEALED)) \<and>
    (lr_ok r \<and> lop \<noteq> Drain \<longrightarrow> lr_final_hash r = tip es) \<and> lc_inv sha reg' l' \<and>
    (abs_state reg' = (if lr_ok r then (abs_state reg)(sid := (case lop of Drain \<Rightarrow> DRAINING | Seal \<Rightarrow> SEALED | Archive \<Rightarrow> ARCHIVED))
       else abs_state reg)) \<and>
    (\<forall>x xs. shard_inv sha x (lc_fs l) xs \<longrightarrow> family_name x \<noteq> family_name LIFECYCLE_SHARD \<longrightarrow> shard_inv sha x (lc_fs l') xs)"
proof -
  obtain l' r reg' where run: "run_op env lop sid owner reason l = (l', Inr r)"
    and ok: "lr_ok r = fst (lc_spec lop (abs_state reg sid))" and h: "lr_ok r \<and> lop \<noteq> Drain \<longrightarrow> lr_final_hash r = tip es"
    and ef: "lc_effect sha reg l sid (snd (lc_spec lop (abs_state reg sid))) reg' l'"
    using run_op_effect [OF assms, of lop] by blast
  have "lr_ok r \<longleftrightarrow> (case lop of Drain \<Rightarrow> abs_state reg sid = ACTIVE
       | Seal \<Rightarrow> abs_state reg sid \<in> {ACTIVE, DRAINING} | Archive \<Rightarrow> abs_state reg sid = SEALED)"
    using ok by (cases lop) auto
  moreover have "abs_state reg' = (if lr_ok r then (abs_state reg)(sid := (case lop of Drain \<Rightarrow> DRAINING | Seal \<Rightarrow> SEALED | Archive \<Rightarrow> ARCHIVED))
       else abs_state reg)"
    using ef ok by (cases lop) (auto simp: lc_effect_def)
  moreover have "lc_inv sha reg' l'"
    "\<forall>x xs. shard_inv sha x (lc_fs l) xs \<longrightarrow> family_name x \<noteq> family_name LIFECYCLE_SHARD \<longrightarrow> shard_inv sha x (lc_fs l') xs"
    using ef unfolding lc_effect_def by blast+
  ultimately show ?thesis using run h by blast
qed

theorem lifecycle_operation_outcome_witness:
  "\<exists>l' r. run_op sample_env Archive ''alpha'' (JStr ''owner'') JNull (new_manager sample_store) = (l', Inr r) \<and> \<not> lr_ok r"
proof -
  have inv: "lc_inv (\<lambda>m. m) [] (new_manager sample_store)"
    using sample_store_props by (intro lc_inv_new) (simp_all add: reg_ok_def READ_ALL_def)
  obtain es where es: "shard_inv (\<lambda>m. m) ''alpha'' (lc_fs (new_manager sample_store)) es"
    using sample_store_props(1) by (auto simp: managed_def new_manager_def)
  have "env_ok (\<lambda>m. m) sample_env" by (simp add: env_ok_def sample_env_def)
  from lifecycle_operation_outcome [OF inv this _ _ _ es alpha_not_registry, of "JStr ''owner''" JNull Archive]
  show ?thesis by (auto simp: READ_ALL_def)
qed

text \<open>The order of the four states.\<close>

definition state_rank :: "string \<Rightarrow> nat" where
  "state_rank st = (if st = ACTIVE then 0 else if st = DRAINING then 1 else if st = SEALED then 2 else 3)"

lemma spec_rank: "state_rank (f sid) \<le> state_rank (spec_request q f sid)"
  by (cases "rq_op q") (auto simp: spec_request_def state_rank_def)

lemma spec_rank_fold: "state_rank (f sid) \<le> state_rank (fold spec_request qs f sid)"
proof (induction qs arbitrary: f)
  case (Cons q qs)
  have "state_rank (f sid) \<le> state_rank (spec_request q f sid)" by (rule spec_rank)
  also have "\<dots> \<le> state_rank (fold spec_request qs (spec_request q f) sid)" by (rule Cons)
  finally show ?case by simp
qed simp

text \<open>
  A shard never comes back to life. Whatever requests follow, the state of a shard never
  moves backward in the order active, draining, sealed, archived; in particular an
  archived shard stays archived.
\<close>

theorem lifecycle_never_reopens:
  assumes "shard_inv sha LIFECYCLE_SHARD s []" and "mono_files s = []" and "managed sha S s"
    and "\<forall>q \<in> set (ps @ qs). request_in sha S q" and "length (ps @ qs) \<le> 500000"
  shows "\<exists>a b. snd (lc_state sid (fold run_request ps (new_manager s))) = Inr a \<and>
    snd (lc_state sid (fold run_request (ps @ qs) (new_manager s))) = Inr b \<and> state_rank a \<le> state_rank b"
  using history_value(1) [OF assms(1-3), of ps sid] history_value(1) [OF assms(1-5), of sid] assms(4,5)
    spec_rank_fold [of "fold spec_request ps (\<lambda>_. ACTIVE)" sid qs] by auto

theorem lifecycle_never_reopens_witness:
  "\<exists>a b. snd (lc_state ''alpha'' (fold run_request (map sample_request [Seal]) (new_manager sample_store))) = Inr a \<and>
    snd (lc_state ''alpha'' (fold run_request (map sample_request [Seal] @ map sample_request [Drain]) (new_manager sample_store))) = Inr b \<and>
    state_rank a \<le> state_rank b"
  by (rule lifecycle_never_reopens [of "\<lambda>m. m" sample_store "{''alpha''}"])
     (use sample_store_props sample_request_in in auto)

end
