(* ===== verification/Jsonl.thy ===== *)
theory Jsonl
  imports Segments Hash_Chain
begin

text \<open>
  The JSON-lines files that live beside the shards (seal registry, witness log): a file is
  absent or a text; a record is appended as one printed line; reading skips blank and
  malformed lines. The interface \<open>append_log\<close> is interpreted on them.
\<close>

type_synonym jsonl = "string option"

definition file_text :: "jsonl \<Rightarrow> string" where
  "file_text f = (case f of None \<Rightarrow> [] | Some t \<Rightarrow> t)"

definition jsonl_append :: "string \<Rightarrow> jsonl \<Rightarrow> jsonl" where
  "jsonl_append line f = Some (file_text f @ line @ [NL])"

text \<open>The records of a file; \<^verbatim>\<open>json.loads\<close> gets the line as it is, or stripped.\<close>

definition raw_event :: "string \<Rightarrow> json option" where
  "raw_event l = (if strip l = [] then None else loads l)"

definition jsonl_read :: "jsonl \<Rightarrow> json list" where
  "jsonl_read f = List.map_filter raw_event (read_lines (file_text f))"

definition jsonl_read_stripped :: "jsonl \<Rightarrow> json list" where
  "jsonl_read_stripped f = events_of_lines (read_lines (file_text f))"

text \<open>Every line of the file is complete.\<close>

definition jsonl_complete :: "jsonl \<Rightarrow> bool" where
  "jsonl_complete f = (\<exists>ls. file_text f = unlines ls \<and> (\<forall>l \<in> set ls. clean_line l))"

lemma jsonl_complete_None [simp]: "jsonl_complete None"
  by (auto simp: jsonl_complete_def file_text_def intro!: exI [where x = "[]"])

lemma jsonl_append_complete:
  assumes "jsonl_complete f" and "clean_line l"
  shows "jsonl_complete (jsonl_append l f)"
    and "read_lines (file_text (jsonl_append l f)) = read_lines (file_text f) @ [l]"
proof -
  obtain ls where ls: "file_text f = unlines ls" "\<forall>x \<in> set ls. clean_line x"
    using assms(1) by (auto simp: jsonl_complete_def)
  then have "file_text (jsonl_append l f) = unlines (ls @ [l])"
    by (simp add: jsonl_append_def file_text_def [of "Some _"] unlines_single)
  moreover have cl: "\<forall>x \<in> set (ls @ [l]). clean_line x" using ls(2) assms(2) by auto
  ultimately show "jsonl_complete (jsonl_append l f)" unfolding jsonl_complete_def by blast
  show "read_lines (file_text (jsonl_append l f)) = read_lines (file_text f) @ [l]"
    using \<open>file_text (jsonl_append l f) = unlines (ls @ [l])\<close> ls read_lines_unlines [OF cl] read_lines_unlines [OF ls(2)]
    by simp
qed

text \<open>The printed form of a dict, as a line.\<close>

lemma printed_object:
  assumes "wf_json (JObj d)"
  shows "clean_line (dumps_raw st (JObj d))" and "raw_event (dumps_raw st (JObj d)) = Some (JObj d)"
    and "event_of_line (dumps_raw st (JObj d)) = Some (JObj d)"
proof -
  have s: "strip (dumps_raw st (JObj d)) = dumps_raw st (JObj d)"
    by (rule strip_id) (simp_all add: is_space_def)
  have "dumps_raw st (JObj d) \<noteq> []" by simp
  with s assms show "raw_event (dumps_raw st (JObj d)) = Some (JObj d)"
    "event_of_line (dumps_raw st (JObj d)) = Some (JObj d)"
    by (simp_all add: raw_event_def event_of_line_def loads_dumps_raw del: dumps_raw.simps)
  show "clean_line (dumps_raw st (JObj d))" using clean_dumps [OF assms] .
qed

definition append_object :: "dump_style \<Rightarrow> (string \<times> json) list \<Rightarrow> jsonl \<Rightarrow> jsonl" where
  "append_object st d f = jsonl_append (dumps_raw st (JObj d)) f"

lemma append_object_reads:
  assumes "jsonl_complete f" and "wf_json (JObj d)"
  shows "jsonl_complete (append_object st d f)"
    and "jsonl_read (append_object st d f) = jsonl_read f @ [JObj d]"
    and "jsonl_read_stripped (append_object st d f) = jsonl_read_stripped f @ [JObj d]"
  using jsonl_append_complete [OF assms(1) printed_object(1) [OF assms(2)]] printed_object(2,3) [OF assms(2)]
  by (simp_all add: append_object_def jsonl_read_def jsonl_read_stripped_def events_of_lines_def List.map_filter_def
      del: dumps_raw.simps)

interpretation jsonl: append_log jsonl_complete jsonl_read "\<lambda>d. wf_json (JObj d)" "append_object st" "\<lambda>f d. JObj d"
  for st :: dump_style
  by unfold_locales (use append_object_reads in auto)

interpretation jsonl_stripped: append_log jsonl_complete jsonl_read_stripped "\<lambda>d. wf_json (JObj d)"
  "append_object st" "\<lambda>f d. JObj d"
  for st :: dump_style
  by unfold_locales (use append_object_reads in auto)

text \<open>A field of the canonical form of a dict.\<close>

lemma norm_JObj_ex: "\<exists>d'. norm (JObj d) = JObj d'"
  by simp

end
