(* ===== verification/Seal.thy ===== *)
theory Seal
  imports Jsonl Read_Laws
begin

text \<open>
  \<^verbatim>\<open>src/dsm/seal.py\<close>: the seal of a shard is a record with its entry count, its first and
  last hashes and a digest over them, appended to a registry file; the lines of the
  shard can be archived on the way. Records read back hold whatever the file held.
  A compressed archive is kept as the text it decompresses to.
\<close>

section \<open>Records\<close>

record seal_record =
  sr_shard_id :: json
  sr_entry_count :: json
  sr_first_hash :: json
  sr_last_hash :: json
  sr_first_timestamp :: json
  sr_last_timestamp :: json
  sr_seal_hash :: json
  sr_seal_timestamp :: json
  sr_archived_path :: json

definition seal_to_dict :: "seal_record \<Rightarrow> (string \<times> json) list" where
  "seal_to_dict r =
     [(''shard_id'', sr_shard_id r), (''entry_count'', sr_entry_count r), (''first_hash'', sr_first_hash r),
      (''last_hash'', sr_last_hash r), (''first_timestamp'', sr_first_timestamp r), (''last_timestamp'', sr_last_timestamp r),
      (''seal_hash'', sr_seal_hash r), (''seal_timestamp'', sr_seal_timestamp r), (''archived_path'', sr_archived_path r)]"

definition seal_from_dict :: "json \<Rightarrow> seal_record res" where
  "seal_from_dict j =
     rbind (jsub ''shard_id'' j) (\<lambda>si.
     rbind (jsub ''entry_count'' j) (\<lambda>ec.
     rbind (jsub ''first_hash'' j) (\<lambda>fh.
     rbind (jsub ''last_hash'' j) (\<lambda>lh.
     rbind (jsub ''first_timestamp'' j) (\<lambda>ft.
     rbind (jsub ''last_timestamp'' j) (\<lambda>lt.
     rbind (jsub ''seal_hash'' j) (\<lambda>sh.
     rbind (jsub ''seal_timestamp'' j) (\<lambda>st.
     rbind (jget ''archived_path'' JNull j) (\<lambda>ap.
       Inr \<lparr>sr_shard_id = si, sr_entry_count = ec, sr_first_hash = fh, sr_last_hash = lh, sr_first_timestamp = ft,
            sr_last_timestamp = lt, sr_seal_hash = sh, sr_seal_timestamp = st, sr_archived_path = ap\<rparr>)))))))))"

lemma seal_roundtrip [simp, codec]: "seal_from_dict (JObj (seal_to_dict r)) = Inr r"
  by (simp add: seal_from_dict_def seal_to_dict_def)

section \<open>The registry\<close>

text \<open>A record with a missing key is skipped; a record that is no dict raises.\<close>

fun seal_records :: "json list \<Rightarrow> seal_record list res" where
  "seal_records [] = Inr []"
| "seal_records (j # js) =
     (case seal_from_dict j of
        Inr r \<Rightarrow> rbind (seal_records js) (\<lambda>rs. Inr (r # rs))
      | Inl (KeyError k) \<Rightarrow> seal_records js
      | Inl e \<Rightarrow> Inl e)"

definition seal_read_all :: "jsonl \<Rightarrow> seal_record list res" where
  "seal_read_all f = seal_records (jsonl_read f)"

definition find_seal :: "string \<Rightarrow> jsonl \<Rightarrow> seal_record option res" where
  "find_seal sid f = rbind (seal_read_all f) (\<lambda>rs. Inr (find (\<lambda>r. sr_shard_id r = JStr sid) rs))"

definition is_sealed :: "string \<Rightarrow> jsonl \<Rightarrow> bool res" where
  "is_sealed sid f = rbind (find_seal sid f) (\<lambda>r. Inr (r \<noteq> None))"

definition seal_append :: "seal_record \<Rightarrow> jsonl \<Rightarrow> jsonl" where
  "seal_append r f = append_object spaced_raw (seal_to_dict r) f"

definition seal_payload :: "json \<Rightarrow> json \<Rightarrow> json \<Rightarrow> json \<Rightarrow> json \<Rightarrow> json" where
  "seal_payload sid cnt fh lh ts =
     JObj [(''shard_id'', sid), (''entry_count'', cnt), (''first_hash'', fh), (''last_hash'', lh), (''seal_timestamp'', ts)]"

definition compute_seal_hash :: "sha \<Rightarrow> json \<Rightarrow> json \<Rightarrow> json \<Rightarrow> json \<Rightarrow> json \<Rightarrow> string" where
  "compute_seal_hash sha sid cnt fh lh ts = sha (dumps_sorted compact_ascii (seal_payload sid cnt fh lh ts))"

section \<open>Sealing\<close>

record sealer =
  sl_fs :: fs
  sl_registry :: jsonl
  sl_archives :: "(string \<times> string) list"

text \<open>The lines of a file that are not blank, with their terminators; the last one may have none.\<close>

fun keep_lines :: "bool \<Rightarrow> string list \<Rightarrow> string" where
  "keep_lines complete [] = []"
| "keep_lines complete [l] = (if strip l = [] then [] else if complete then l @ [NL] else l)"
| "keep_lines complete (l # ls) = (if strip l = [] then [] else l @ [NL]) @ keep_lines complete ls"

definition kept_text :: "string \<Rightarrow> string" where
  "kept_text txt = keep_lines (txt \<noteq> [] \<and> last txt \<in> {NL, CR}) (read_lines txt)"

definition archive_text :: "string \<Rightarrow> fs \<Rightarrow> fs \<times> string" where
  "archive_text sid s =
     (let (s1, segs) = get_segment_files_ordered sid False s in
      (s1, if segs \<noteq> [] then concat (map (\<lambda>(n, txt). kept_text txt) segs)
           else (case dget sid (mono_files s1) of Some txt \<Rightarrow> kept_text txt | None \<Rightarrow> [])))"

definition archive_name :: "string \<Rightarrow> string \<Rightarrow> string" where
  "archive_name dir sid = dir @ ''/'' @ sid @ ''.sealed.jsonl.gz''"

definition seal_timestamp_of :: "datetime \<Rightarrow> json" where
  "seal_timestamp_of now = JStr (py_replace ''+00:00'' ''Z'' (isoformat now))"

definition seal_record_of :: "sha \<Rightarrow> datetime \<Rightarrow> string \<Rightarrow> entry list \<Rightarrow> seal_record" where
  "seal_record_of sha now sid chrono =
     (let fst_e = hd chrono; lst_e = last chrono; ts = seal_timestamp_of now; n = JInt (int (length chrono));
          fh = or_empty (hash fst_e); lh = or_empty (hash lst_e)
      in \<lparr>sr_shard_id = JStr sid, sr_entry_count = n, sr_first_hash = fh, sr_last_hash = lh,
          sr_first_timestamp = JStr (isoformat (timestamp fst_e)), sr_last_timestamp = JStr (isoformat (timestamp lst_e)),
          sr_seal_hash = JStr (compute_seal_hash sha (JStr sid) n fh lh ts), sr_seal_timestamp = ts,
          sr_archived_path = JNull\<rparr>)"

definition SEAL_READ :: int where "SEAL_READ = 10 ^ 6"

definition seal_shard :: "sha \<Rightarrow> datetime \<Rightarrow> string \<Rightarrow> string \<Rightarrow> (sealer, seal_record) op" where
  "seal_shard sha now sid archive_path w =
     (case verify_shard sha sid (sl_fs w) of
        (s1, Inl err) \<Rightarrow> (w\<lparr>sl_fs := s1\<rparr>, Inl err)
      | (s1, Inr v) \<Rightarrow>
          (if v_status v \<noteq> V_OK then (w\<lparr>sl_fs := s1\<rparr>, Inl (ValueError ''Cannot seal corrupted shard''))
           else
             (case read sid 0 SEAL_READ s1 of
                (s2, Inl err) \<Rightarrow> (w\<lparr>sl_fs := s2\<rparr>, Inl err)
              | (s2, Inr entries) \<Rightarrow>
                  (if entries = [] then (w\<lparr>sl_fs := s2\<rparr>, Inl (ValueError ''Cannot seal empty shard''))
                   else
                     (let r = seal_record_of sha now sid (rev entries) in
                      if archive_path = [] then
                        (w\<lparr>sl_fs := s2, sl_registry := seal_append r (sl_registry w)\<rparr>, Inr r)
                      else
                        (let (s3, txt) = archive_text sid s2; out = archive_name archive_path sid;
                             r' = r\<lparr>sr_archived_path := JStr out\<rparr>
                         in (w\<lparr>sl_fs := s3, sl_registry := seal_append r' (sl_registry w),
                               sl_archives := dput out txt (sl_archives w)\<rparr>, Inr r')))))))"

datatype seal_status = S_VALID | S_HASH_MISMATCH | S_NOT_SEALED
datatype seal_storage_status = SS_MATCHES | SS_DIVERGED | SS_SHARD_GONE | SS_NOT_SEALED

definition verify_seal :: "sha \<Rightarrow> string \<Rightarrow> jsonl \<Rightarrow> (seal_status \<times> json \<times> json) res" where
  "verify_seal sha sid f =
     rbind (find_seal sid f) (\<lambda>rec.
       case rec of
         None \<Rightarrow> Inr (S_NOT_SEALED, JInt 0, JStr [])
       | Some r \<Rightarrow>
           (let expected = compute_seal_hash sha (sr_shard_id r) (sr_entry_count r) (sr_first_hash r) (sr_last_hash r)
                  (sr_seal_timestamp r)
            in Inr (if JStr expected = sr_seal_hash r then S_VALID else S_HASH_MISMATCH, sr_entry_count r,
                    sr_seal_timestamp r)))"

definition verify_seal_against_storage :: "string \<Rightarrow> jsonl \<Rightarrow> fs \<Rightarrow> (seal_storage_status \<times> json \<times> nat) res" where
  "verify_seal_against_storage sid f s =
     rbind (find_seal sid f) (\<lambda>rec.
       case rec of
         None \<Rightarrow> Inr (SS_NOT_SEALED, JInt 0, 0)
       | Some r \<Rightarrow>
           rbind (snd (read sid 0 1 s)) (\<lambda>es.
             case es of
               [] \<Rightarrow> Inr (SS_SHARD_GONE, sr_entry_count r, 0)
             | e # _ \<Rightarrow>
                 (let tip_h = or_empty (hash e) in
                  rbind (snd (read sid 0 SEAL_READ s)) (\<lambda>all_entries.
                    let n = length all_entries in
                    if JInt (int n) = sr_entry_count r \<and> tip_h = sr_last_hash r then Inr (SS_MATCHES, sr_entry_count r, n)
                    else
                      rbind (as_num (sr_entry_count r)) (\<lambda>c.
                        Inr (if c < int n \<or> (JInt (int n) = sr_entry_count r \<and> tip_h \<noteq> sr_last_hash r) then SS_DIVERGED
                             else SS_SHARD_GONE, sr_entry_count r, n))))))"

definition list_sealed_shards :: "jsonl \<Rightarrow> (json \<times> json \<times> json \<times> bool) list res" where
  "list_sealed_shards f =
     rbind (seal_read_all f) (\<lambda>rs.
       Inr (map (\<lambda>r. (sr_shard_id r, sr_entry_count r, sr_seal_timestamp r, truthy (sr_archived_path r))) rs))"

end
