(* ===== verification/Seal_Props.thy ===== *)
theory Seal_Props
  imports Seal Samples
begin

text \<open>Laws and properties of sealing: what a seal says of the shard it was made for.\<close>

section \<open>Sealing a valid shard\<close>

lemma iter_state: "dget (family_name sid) (fams s) \<noteq> None \<Longrightarrow> fst (iter_shard_events sid s) = s"
  by (auto simp: iter_shard_events_def get_shard_family_dir_def)

lemma read_seal:
  assumes "shard_inv sha sid s es" and "mono_files s = []" and "length es \<le> 1000000"
  shows "read sid 0 SEAL_READ s = (s, Inr (rev es))" and "read sid 0 1 s = (s, Inr (take 1 (rev es)))"
proof -
  have "nat (max 1 SEAL_READ) = 1000000" by (simp add: SEAL_READ_def)
  then show "read sid 0 SEAL_READ s = (s, Inr (rev es))" using read_inv [OF assms(1,2), of 0 SEAL_READ] assms(3) by simp
  show "read sid 0 1 s = (s, Inr (take 1 (rev es)))" using read_inv [OF assms(1,2), of 0 1] by simp
qed

lemma or_empty_tip: "chained sha JNull es \<Longrightarrow> e \<in> set es \<Longrightarrow> or_empty (hash e) = hash e \<and> wf_json (hash e)"
  using chained_hash_ok [of sha JNull es] hash_ok_truthy [of sha e] chained_stored [of sha JNull es e]
  by (auto simp: or_empty_def sealed_def)

definition with_path :: "string \<Rightarrow> string \<Rightarrow> seal_record \<Rightarrow> seal_record" where
  "with_path dir sid r = (if dir = [] then r else r\<lparr>sr_archived_path := JStr (archive_name dir sid)\<rparr>)"

lemma seal_shard_inv:
  assumes inv: "shard_inv sha sid (sl_fs w) es" and "es \<noteq> []" and mono: "mono_files (sl_fs w) = []"
    and len: "length es \<le> 1000000"
  shows "\<exists>w'. seal_shard sha now sid dir w = (w', Inr (with_path dir sid (seal_record_of sha now sid es))) \<and>
    sl_fs w' = sl_fs w \<and> sl_registry w' = seal_append (with_path dir sid (seal_record_of sha now sid es)) (sl_registry w) \<and>
    sl_archives w' = (if dir = [] then sl_archives w
      else dput (archive_name dir sid) (snd (archive_text sid (sl_fs w))) (sl_archives w))"
proof -
  obtain f where f: "dget (family_name sid) (fams (sl_fs w)) = Some f"
    using shard_inv_present [OF inv \<open>es \<noteq> []\<close>] by auto
  obtain v where v: "verify_shard sha sid (sl_fs w) = (fst (iter_shard_events sid (sl_fs w)), Inr v)" "v_status v = V_OK"
    by (rule verify_inv [OF inv inv inv])
  have st: "fst (iter_shard_events sid (sl_fs w)) = sl_fs w" using f by (intro iter_state) simp
  have at: "archive_text sid (sl_fs w) = (sl_fs w, snd (archive_text sid (sl_fs w)))"
    using f by (simp add: archive_text_def get_segment_files_ordered_def get_shard_family_dir_def Let_def)
  show ?thesis
    using v st read_seal(1) [OF inv mono len] \<open>es \<noteq> []\<close> at
    by (auto simp: seal_shard_def with_path_def Let_def split: prod.splits)
qed

lemma seal_dict_wf:
  assumes "chained sha JNull es" and "es \<noteq> []"
  shows "wf_json (JObj (seal_to_dict (with_path dir sid (seal_record_of sha now sid es))))"
proof -
  have "hd es \<in> set es" "last es \<in> set es" using assms(2) by simp_all
  then show ?thesis
    using or_empty_tip [OF assms(1)]
    by (simp add: seal_to_dict_def seal_record_of_def with_path_def seal_timestamp_of_def Let_def)
qed

lemma seal_records_append:
  "seal_records js = Inr rs \<Longrightarrow> seal_records (js @ [JObj (seal_to_dict r)]) = Inr (rs @ [r])"
proof (induction js arbitrary: rs)
  case (Cons j js)
  then show ?case
    by (cases "seal_from_dict j") (auto simp: rbind_Inr split: py_error.splits)
qed simp

text \<open>A registry that reads back, with no seal of the shard yet.\<close>

definition registry_ok :: "string \<Rightarrow> jsonl \<Rightarrow> bool" where
  "registry_ok sid f = (jsonl_complete f \<and> find_seal sid f = Inr None)"

lemma find_after_append:
  assumes "registry_ok sid f" and "sr_shard_id r = JStr sid" and "wf_json (JObj (seal_to_dict r))"
  shows "find_seal sid (seal_append r f) = Inr (Some r)"
proof -
  obtain rs where rs: "seal_records (jsonl_read f) = Inr rs" "find (\<lambda>r. sr_shard_id r = JStr sid) rs = None"
    using assms(1) by (auto simp: registry_ok_def find_seal_def seal_read_all_def rbind_Inr)
  have "jsonl_read (seal_append r f) = jsonl_read f @ [JObj (seal_to_dict r)]"
    unfolding seal_append_def using assms(1,3) jsonl.wr_log by (simp add: registry_ok_def)
  then have "seal_read_all (seal_append r f) = Inr (rs @ [r])"
    using seal_records_append [OF rs(1)] by (simp add: seal_read_all_def)
  moreover have "find (\<lambda>r. sr_shard_id r = JStr sid) (rs @ [r]) = Some r"
    using rs(2) assms(2) by (induction rs) auto
  ultimately show ?thesis by (simp add: find_seal_def)
qed

lemma seal_record_fields:
  "sr_shard_id (with_path dir sid (seal_record_of sha now sid es)) = JStr sid"
  "sr_entry_count (with_path dir sid (seal_record_of sha now sid es)) = JInt (int (length es))"
  "sr_last_hash (with_path dir sid (seal_record_of sha now sid es)) = or_empty (hash (last es))"
  "sr_seal_hash (with_path dir sid (seal_record_of sha now sid es)) = JStr (compute_seal_hash sha (JStr sid)
     (JInt (int (length es))) (or_empty (hash (hd es))) (or_empty (hash (last es))) (seal_timestamp_of now))"
  "sr_first_hash (with_path dir sid (seal_record_of sha now sid es)) = or_empty (hash (hd es))"
  "sr_seal_timestamp (with_path dir sid (seal_record_of sha now sid es)) = seal_timestamp_of now"
  by (simp_all add: with_path_def seal_record_of_def Let_def)

text \<open>
  C10: a seal certifies the shard it was made for. Sealing an appended shard succeeds; the
  registry then holds a valid seal with the number of its entries; the shard matches it
  as long as nothing is appended, and after any further append it is reported as
  diverged. (Shards of at most a million entries, the number the code reads back.)
\<close>

theorem seal_certifies:
  assumes "\<forall>a \<in> set xs. request_ok sid a" and "xs \<noteq> []" and "\<forall>a \<in> set ys. request_ok sid a"
    and "length xs + length ys \<le> 1000000" and "registry_ok sid f"
  shows "\<exists>w r. seal_shard sha now sid dir \<lparr>sl_fs = run_appends sha xs empty_fs, sl_registry = f, sl_archives = ar\<rparr> = (w, Inr r) \<and>
    verify_seal sha sid (sl_registry w) = Inr (S_VALID, JInt (int (length xs)), seal_timestamp_of now) \<and>
    verify_seal_against_storage sid (sl_registry w) (run_appends sha ys (sl_fs w))
      = Inr (if ys = [] then SS_MATCHES else SS_DIVERGED, JInt (int (length xs)), length xs + length ys)"
proof -
  let ?s = "run_appends sha xs empty_fs"
  let ?es = "shard_log sid ?s" and ?fs = "shard_log sid (run_appends sha ys ?s)"
  let ?r = "with_path dir sid (seal_record_of sha now sid ?es)"
  have inv: "shard_inv sha sid ?s ?es" by (rule history_inv [OF assms(1)])
  have len: "length ?es = length xs" by (rule history_length [OF assms(1)])
  then have ne: "?es \<noteq> []" using assms(2) by auto
  have mono: "mono_files ?s = []" "mono_files (run_appends sha ys ?s) = []"
    using history_mono [of sha xs] history_mono [of sha "xs @ ys"] by simp_all
  have inv2: "shard_inv sha sid (run_appends sha ys ?s) ?fs" using shard.writes_inv [OF inv assms(3)] .
  have len2: "length ?fs = length xs + length ys" using shard.writes_length [OF inv assms(3)] len by simp
  obtain w where w: "seal_shard sha now sid dir \<lparr>sl_fs = ?s, sl_registry = f, sl_archives = ar\<rparr> = (w, Inr ?r)"
    "sl_fs w = ?s" "sl_registry w = seal_append ?r f"
    using seal_shard_inv [of sha sid "\<lparr>sl_fs = ?s, sl_registry = f, sl_archives = ar\<rparr>" ?es now dir] inv ne mono(1) len assms(4)
    by auto
  have found: "find_seal sid (sl_registry w) = Inr (Some ?r)"
    unfolding w(3) by (rule find_after_append [OF assms(5) seal_record_fields(1) seal_dict_wf [OF shard_invD(1) [OF inv] ne]])
  have "verify_seal sha sid (sl_registry w) = Inr (S_VALID, JInt (int (length xs)), seal_timestamp_of now)"
    using found len by (simp add: verify_seal_def seal_record_fields)
  moreover have "?fs \<noteq> []" using len2 assms(2) by auto
  then obtain us u where fs: "?fs = us @ [u]" by (metis rev_exhaust)
  have rd: "read sid 0 SEAL_READ (run_appends sha ys ?s) = (run_appends sha ys ?s, Inr (rev ?fs))"
    "read sid 0 1 (run_appends sha ys ?s) = (run_appends sha ys ?s, Inr [u])"
    using read_seal [OF inv2 mono(2)] len2 assms(4) fs by simp_all
  have "verify_seal_against_storage sid (sl_registry w) (run_appends sha ys (sl_fs w))
      = Inr (if ys = [] then SS_MATCHES else SS_DIVERGED, JInt (int (length xs)), length xs + length ys)"
  proof (cases "ys = []")
    case True
    then have "last ?es = u" using fs by simp
    with True found w(2) rd len len2 show ?thesis
      by (simp add: verify_seal_against_storage_def seal_record_fields)
  next
    case False
    with found w(2) rd len len2 show ?thesis
      by (simp add: verify_seal_against_storage_def seal_record_fields as_num_def)
  qed
  ultimately show ?thesis using w(1) by blast
qed

lemma registry_ok_None: "registry_ok sid None"
  by (simp add: registry_ok_def find_seal_def seal_read_all_def jsonl_read_def file_text_def List.map_filter_def)

theorem seal_certifies_witness:
  "\<exists>w r. seal_shard (\<lambda>m. m) sample_time ''alpha'' ''arch''
      \<lparr>sl_fs = run_appends (\<lambda>m. m) [(sample_time, sample_entry ''alpha'' ''one'')] empty_fs, sl_registry = None, sl_archives = []\<rparr>
      = (w, Inr r) \<and>
    verify_seal_against_storage ''alpha'' (sl_registry w)
      (run_appends (\<lambda>m. m) [(sample_time, sample_entry ''alpha'' ''two'')] (sl_fs w)) = Inr (SS_DIVERGED, JInt 1, 2)"
  using seal_certifies [of "[(sample_time, sample_entry ''alpha'' ''one'')]" "''alpha''"
      "[(sample_time, sample_entry ''alpha'' ''two'')]" None "\<lambda>m. m" sample_time "''arch''" "[]"]
  by (auto simp: sample_ok registry_ok_None numeral_2_eq_2)

section \<open>The archive\<close>

lemma keep_lines_all:
  "\<forall>l \<in> set ls. strip l \<noteq> [] \<Longrightarrow> keep_lines True ls = unlines ls"
  by (induction "True" ls rule: keep_lines.induct) (simp_all add: unlines_def)

lemma kept_unlines:
  assumes "\<forall>l \<in> set ls. clean_line l \<and> strip l \<noteq> []"
  shows "kept_text (unlines ls) = unlines ls"
proof (cases ls rule: rev_cases)
  case (snoc xs x)
  then have "unlines ls \<noteq> []" "last (unlines ls) = NL" by (simp_all add: unlines_single)
  then show ?thesis using assms keep_lines_all [of ls] by (simp add: kept_text_def)
qed (simp add: kept_text_def)

text \<open>
  The archive holds the whole shard. Sealing with an archive directory stores a file
  whose lines are exactly the lines of the shard, in order, across all segments, so
  that loading them gives back every entry.
\<close>

theorem seal_archive_complete:
  assumes "\<forall>a \<in> set xs. request_ok sid a" and "xs \<noteq> []" and "length xs \<le> 1000000" and "dir \<noteq> []"
  shows "\<exists>w r txt. seal_shard sha now sid dir \<lparr>sl_fs = run_appends sha xs empty_fs, sl_registry = f, sl_archives = ar\<rparr> = (w, Inr r) \<and>
    sr_archived_path r = JStr (archive_name dir sid) \<and> dget (archive_name dir sid) (sl_archives w) = Some txt \<and>
    load_entries (events_of_lines (read_lines txt)) = Inr (shard_log sid (run_appends sha xs empty_fs))"
proof -
  let ?s = "run_appends sha xs empty_fs"
  let ?es = "shard_log sid ?s"
  have inv: "shard_inv sha sid ?s ?es" by (rule history_inv [OF assms(1)])
  have len: "length ?es = length xs" by (rule history_length [OF assms(1)])
  then have ne: "?es \<noteq> []" using assms(2) by auto
  obtain fm where fm: "dget (family_name sid) (fams ?s) = Some fm" using shard_inv_present [OF inv ne] by auto
  obtain lss where lss: "seg_inv (family_name sid) (family_of sid ?s) lss" "concat lss = map (entry_line sid) ?es"
    using inv by (auto simp: shard_inv_def)
  have wf: "\<forall>e \<in> set ?es. wf_entry e" using shard_inv_stored [OF inv] by (simp add: sealed_def)
  have cl: "\<forall>l \<in> set (concat lss). clean_line l \<and> strip l \<noteq> []"
    unfolding lss(2) using wf by (auto simp: clean_entry_line entry_line_shape)
  have "get_segment_files (family_name sid) fm = enum_segs (family_name sid) 1 lss"
    using lss(1) fm by (intro get_segment_files_enum) (simp add: seg_inv_def family_of_def)
  then have go: "get_segment_files_ordered sid False ?s = (?s, enum_segs (family_name sid) 1 lss)"
    using fm by (simp add: get_segment_files_ordered_def get_shard_family_dir_def)
  have "lss \<noteq> []" using lss(2) ne by auto
  then have "enum_segs (family_name sid) 1 lss \<noteq> []" by (cases lss) auto
  then have "snd (archive_text sid ?s) = concat (map (\<lambda>ls. kept_text (unlines ls)) lss)"
    using go by (simp add: archive_text_def enum_segs_texts)
  also have "\<dots> = unlines (concat lss)"
  proof -
    have "map (\<lambda>ls. kept_text (unlines ls)) lss = map unlines lss" using cl by (auto simp: kept_unlines)
    then show ?thesis by (simp add: unlines_def map_concat comp_def) (induction lss; simp)
  qed
  finally have lines: "read_lines (snd (archive_text sid ?s)) = map (entry_line sid) ?es"
    using cl lss(2) read_lines_unlines [of "concat lss"] by simp
  have "load_entries (events_of_lines (map (entry_line sid) ?es)) = Inr ?es"
    using events_of_entry_lines [OF shard_inv_stored [OF inv]] load_entry_events [OF shard_inv_stored [OF inv]] by simp
  then show ?thesis
    using seal_shard_inv [of sha sid "\<lparr>sl_fs = ?s, sl_registry = f, sl_archives = ar\<rparr>" ?es now dir] inv ne len assms(3,4) lines
    by (auto simp: with_path_def)
qed

theorem seal_archive_complete_witness:
  "\<exists>w r txt. seal_shard (\<lambda>m. m) sample_time ''alpha'' ''arch''
      \<lparr>sl_fs = run_appends (\<lambda>m. m) [(sample_time, sample_entry ''alpha'' ''one'')] empty_fs, sl_registry = None, sl_archives = []\<rparr>
      = (w, Inr r) \<and> dget (archive_name ''arch'' ''alpha'') (sl_archives w) = Some txt"
  using seal_archive_complete [of "[(sample_time, sample_entry ''alpha'' ''one'')]" "''alpha''" "''arch''" "\<lambda>m. m" sample_time None "[]"]
  by (auto simp: sample_ok)

section \<open>Errors and binding\<close>

text \<open>
  Nothing is sealed that does not verify. Whatever the storage holds, the registry and the
  archives change only if the verifier answered OK and the shard is not empty; every
  other outcome is an error that leaves both as they were.
\<close>

theorem seal_only_verified:
  assumes "seal_shard sha now sid dir w = (w', res)"
  shows "(sl_registry w' = sl_registry w \<and> sl_archives w' = sl_archives w \<and> (\<exists>err. res = Inl err)) \<or>
    (\<exists>s1 v r es. verify_shard sha sid (sl_fs w) = (s1, Inr v) \<and> v_status v = V_OK \<and>
       snd (read sid 0 SEAL_READ s1) = Inr es \<and> es \<noteq> [] \<and> res = Inr r \<and> sl_registry w' = seal_append r (sl_registry w))"
  using assms unfolding seal_shard_def Let_def
  by (auto split: prod.split_asm sum.split_asm if_split_asm)

theorem seal_only_verified_witness:
  "\<exists>w' err. seal_shard (\<lambda>m. m) sample_time ''alpha'' [] \<lparr>sl_fs = empty_fs, sl_registry = None, sl_archives = []\<rparr> = (w', Inl err) \<and>
     sl_registry w' = None"
proof -
  let ?w = "\<lparr>sl_fs = empty_fs, sl_registry = None, sl_archives = []\<rparr>"
  obtain w' res where s: "seal_shard (\<lambda>m. m) sample_time ''alpha'' [] ?w = (w', res)" by force
  obtain v where v: "verify_shard (\<lambda>m. m) ''alpha'' empty_fs = (fst (iter_shard_events ''alpha'' empty_fs), Inr v)"
    by (rule verify_inv [OF shard_inv_empty shard_inv_empty shard_inv_empty])
  have "snd (read ''alpha'' 0 SEAL_READ (fst (iter_shard_events ''alpha'' empty_fs))) = Inr []"
    by (simp add: iter_shard_events_def get_shard_family_dir_def empty_fs_def read_def read_segmented_def
        get_segment_files_ordered_def get_segment_files_def empty_family_def Let_def)
  with seal_only_verified [OF s] s v show ?thesis by auto
qed

text \<open>
  A seal digest binds what it seals. If two records check against the same digest, and
  SHA-256 does not collide on their two payloads, they name the same shard, count,
  first hash, last hash and time.
\<close>

theorem seal_hash_binds:
  assumes "compute_seal_hash sha i1 c1 f1 l1 t1 = compute_seal_hash sha i2 c2 f2 l2 t2"
    and "\<forall>j \<in> set [i1, c1, f1, l1, t1, i2, c2, f2, l2, t2]. wf_json j"
    and "inj_on sha {dumps_sorted compact_ascii (seal_payload i1 c1 f1 l1 t1),
                     dumps_sorted compact_ascii (seal_payload i2 c2 f2 l2 t2)}"
  shows "map norm [i1, c1, f1, l1, t1] = map norm [i2, c2, f2, l2, t2]"
proof -
  let ?p = "seal_payload i1 c1 f1 l1 t1" and ?q = "seal_payload i2 c2 f2 l2 t2"
  have "dumps_sorted compact_ascii ?p = dumps_sorted compact_ascii ?q"
    using assms(1,3) by (auto simp: compute_seal_hash_def dest: inj_onD)
  moreover have "wf_json ?p" "wf_json ?q" using assms(2) by (simp_all add: seal_payload_def)
  ultimately have "norm ?p = norm ?q" by (simp add: dumps_sorted_inj)
  then have "jget k JNull (norm ?p) = jget k JNull (norm ?q)" for k by simp
  then have "jget k JNull (norm ?p) = jget k JNull (norm ?q)"
    if "k \<in> {''shard_id'', ''entry_count'', ''first_hash'', ''last_hash'', ''seal_timestamp''}" for k by simp
  from this [of "''shard_id''"] this [of "''entry_count''"] this [of "''first_hash''"] this [of "''last_hash''"]
    this [of "''seal_timestamp''"]
  show ?thesis
    unfolding seal_payload_def by (simp add: jget_norm del: norm.simps(2))
qed

theorem seal_hash_binds_witness:
  "map norm [JStr ''a'', JInt 1, JStr ''f'', JStr ''l'', JStr ''t''] = map norm [JStr ''a'', JInt 1, JStr ''f'', JStr ''l'', JStr ''t'']"
  by (rule seal_hash_binds [where sha = "\<lambda>m. m"]) (simp_all add: inj_on_def)

end
