(* ===== verification/Anchor.thy ===== *)
theory Anchor
  imports Prelude
begin

text \<open>
  \<^verbatim>\<open>src/dsm/multiversx/schemas.py\<close> and \<^verbatim>\<open>state_machine.py\<close>: the three-stage anchor state
  machine. Events and log entries are the constructors of two datatypes, with the fields
  of the source's dataclasses and models in their order; the constraints declared on the
  model fields are the predicate \<open>entry_valid\<close>, and constructing an entry that violates
  one raises a validation error. The handlers and the dispatch table are one definition
  each. Runs of the machine are a step relation over the state and the emitted log.
\<close>

section \<open>Data\<close>

type_synonym uuid = string

datatype anchor_regime = Andromeda | Supernova

datatype anchor_state =
  INTENT_LOGGED | SUBMITTED | INCLUDED | SETTLED | FAILED | REJECTED | TIMED_OUT | STUCK

datatype timeout_phase = T1_Inclusion | T3_Settlement

record network_config_snapshot =
  ncs_chain_id :: string
  ncs_round_duration_ms :: int
  ncs_protocol_version :: string
  ncs_captured_at_ms :: int

datatype anchor_entry =
    AnchorSubmittedEntry uuid (tx_hash: string) (submitted_at_ms: int) (sender_nonce: int)
      (gas_limit: int) (gas_price: int)
  | AnchorIncludedEntry uuid (tx_hash: string) (block_nonce: int) (block_hash: string) (shard_nr: int)
      (header_time_ms: int) (consensus_proof_observed_at_ms: int)
  | AnchorSettledEntry uuid (executed_in_block_nonce: int) (execution_result_hash: "string option")
      (gas_used: int) (developer_fees: string) (settled_at_ms: int) (schema_path_used: "string option")
  | AnchorFailedEntry uuid (reason: string) (failed_gas_used: "int option") (return_message: string)
      (failed_in_block_nonce: "int option")
  | AnchorRejectedEntry uuid (http_status: int) (proxy_error_message: string) (retry_eligible: bool)
  | AnchorTimedOutEntry uuid (tx_hash: string) (elapsed_ms: int) (last_observed_block_nonce: "int option")
      (timed_out_in: timeout_phase)
  | AnchorStuckEntry uuid (stuck_tx_hash: "string option") (elapsed_ms: int)

primrec entry_intent_id :: "anchor_entry \<Rightarrow> uuid" where
  "entry_intent_id (AnchorSubmittedEntry u a b c d e) = u"
| "entry_intent_id (AnchorIncludedEntry u a b c d e f) = u"
| "entry_intent_id (AnchorSettledEntry u a b c d e f) = u"
| "entry_intent_id (AnchorFailedEntry u a b c d) = u"
| "entry_intent_id (AnchorRejectedEntry u a b c) = u"
| "entry_intent_id (AnchorTimedOutEntry u a b c d) = u"
| "entry_intent_id (AnchorStuckEntry u a b) = u"

definition SCHEMA_PATHS :: "string list" where
  "SCHEMA_PATHS = [''supernova_lastExecutionResult'', ''andromeda_top_level'']"

text \<open>The constraints declared on the fields of the models.\<close>

definition opt_nonneg :: "int option \<Rightarrow> bool" where
  "opt_nonneg x = (case x of None \<Rightarrow> True | Some n \<Rightarrow> 0 \<le> n)"

primrec entry_valid :: "anchor_entry \<Rightarrow> bool" where
  "entry_valid (AnchorSubmittedEntry u tx at nonce limit price) =
     (tx \<noteq> [] \<and> 0 \<le> at \<and> 0 \<le> nonce \<and> 0 \<le> limit \<and> 0 \<le> price)"
| "entry_valid (AnchorIncludedEntry u tx nonce bh sh ht proof_at) =
     (0 \<le> nonce \<and> 0 \<le> sh \<and> 0 \<le> ht \<and> 0 \<le> proof_at)"
| "entry_valid (AnchorSettledEntry u nonce rh gas fees at path) =
     (0 \<le> nonce \<and> 0 \<le> gas \<and> 0 \<le> at \<and> (case path of None \<Rightarrow> True | Some p \<Rightarrow> p \<in> set SCHEMA_PATHS))"
| "entry_valid (AnchorFailedEntry u why gas msg nonce) = (opt_nonneg gas \<and> opt_nonneg nonce)"
| "entry_valid (AnchorRejectedEntry u status msg retry) = (100 \<le> status \<and> status \<le> 599)"
| "entry_valid (AnchorTimedOutEntry u tx el nonce ph) = (0 \<le> el)"
| "entry_valid (AnchorStuckEntry u tx el) = (0 \<le> el)"

datatype anchor_event =
    SubmitEvent uuid string int int int int
  | IncludeEvent uuid string int string int int int
  | ExecSuccessEvent uuid int string int string int string
  | ExecFailEvent uuid string int string int
  | RejectEvent uuid int string bool
  | T1TimeoutEvent uuid string int "int option"
  | T3TimeoutEvent uuid string int "int option"
  | StuckTimeoutEvent uuid "string option" int

primrec event_intent_id :: "anchor_event \<Rightarrow> uuid" where
  "event_intent_id (SubmitEvent u a b c d e) = u"
| "event_intent_id (IncludeEvent u a b c d e f) = u"
| "event_intent_id (ExecSuccessEvent u a b c d e f) = u"
| "event_intent_id (ExecFailEvent u a b c d) = u"
| "event_intent_id (RejectEvent u a b c) = u"
| "event_intent_id (T1TimeoutEvent u a b c) = u"
| "event_intent_id (T3TimeoutEvent u a b c) = u"
| "event_intent_id (StuckTimeoutEvent u a b) = u"

datatype anchor_error = InvalidTransition | ValidationError

record transition_result =
  new_state :: anchor_state
  entry_to_emit :: anchor_entry

type_synonym 'a ares = "anchor_error + 'a"

text \<open>Building a result constructs the entry, and so validates it.\<close>

definition transition :: "anchor_state \<Rightarrow> anchor_entry \<Rightarrow> transition_result ares" where
  "transition s e = (if entry_valid e then Inr \<lparr>new_state = s, entry_to_emit = e\<rparr> else Inl ValidationError)"

section \<open>Handlers\<close>

definition from_intent_logged_submit where
  "from_intent_logged_submit u tx at nonce limit price (regime :: anchor_regime) =
     transition SUBMITTED (AnchorSubmittedEntry u tx at nonce limit price)"

definition from_submitted_include where
  "from_submitted_include u tx nonce bh sh ht proof_at (regime :: anchor_regime) =
     transition INCLUDED (AnchorIncludedEntry u tx nonce bh sh ht proof_at)"

definition from_submitted_reject where
  "from_submitted_reject u status msg retry (regime :: anchor_regime) =
     transition REJECTED (AnchorRejectedEntry u status msg retry)"

definition from_submitted_t1_timeout where
  "from_submitted_t1_timeout u tx el nonce (regime :: anchor_regime) =
     transition TIMED_OUT (AnchorTimedOutEntry u tx el nonce T1_Inclusion)"

definition from_submitted_stuck where
  "from_submitted_stuck u tx el (regime :: anchor_regime) = transition STUCK (AnchorStuckEntry u tx el)"

definition from_included_exec_success where
  "from_included_exec_success u nonce rh gas fees at path (regime :: anchor_regime) =
     transition SETTLED (AnchorSettledEntry u nonce (Some rh) gas fees at (Some path))"

definition from_included_exec_fail where
  "from_included_exec_fail u why gas msg nonce (regime :: anchor_regime) =
     transition FAILED (AnchorFailedEntry u why (Some gas) msg (Some nonce))"

definition from_included_t3_timeout where
  "from_included_t3_timeout u tx el nonce regime =
     (if regime = Andromeda then Inl InvalidTransition
      else transition TIMED_OUT (AnchorTimedOutEntry u tx el nonce T3_Settlement))"

definition from_included_stuck where
  "from_included_stuck u tx el (regime :: anchor_regime) = transition STUCK (AnchorStuckEntry u tx el)"

definition from_timed_out_submit where
  "from_timed_out_submit u tx at nonce limit price (regime :: anchor_regime) =
     transition SUBMITTED (AnchorSubmittedEntry u tx at nonce limit price)"

lemmas handler_defs =
  from_intent_logged_submit_def from_submitted_include_def from_submitted_reject_def
  from_submitted_t1_timeout_def from_submitted_stuck_def from_included_exec_success_def
  from_included_exec_fail_def from_included_t3_timeout_def from_included_stuck_def
  from_timed_out_submit_def

text \<open>The dispatch table on the current state and the type of the event.\<close>

fun dispatch :: "anchor_state \<Rightarrow> anchor_event \<Rightarrow> (anchor_regime \<Rightarrow> transition_result ares) option" where
  "dispatch INTENT_LOGGED (SubmitEvent u tx at n l p) = Some (from_intent_logged_submit u tx at n l p)"
| "dispatch SUBMITTED (IncludeEvent u tx n bh sh ht pa) = Some (from_submitted_include u tx n bh sh ht pa)"
| "dispatch SUBMITTED (RejectEvent u st msg retry) = Some (from_submitted_reject u st msg retry)"
| "dispatch SUBMITTED (T1TimeoutEvent u tx el n) = Some (from_submitted_t1_timeout u tx el n)"
| "dispatch SUBMITTED (StuckTimeoutEvent u tx el) = Some (from_submitted_stuck u tx el)"
| "dispatch INCLUDED (ExecSuccessEvent u n rh gas fees at path) = Some (from_included_exec_success u n rh gas fees at path)"
| "dispatch INCLUDED (ExecFailEvent u why gas msg n) = Some (from_included_exec_fail u why gas msg n)"
| "dispatch INCLUDED (T3TimeoutEvent u tx el n) = Some (from_included_t3_timeout u tx el n)"
| "dispatch INCLUDED (StuckTimeoutEvent u tx el) = Some (from_included_stuck u tx el)"
| "dispatch TIMED_OUT (SubmitEvent u tx at n l p) = Some (from_timed_out_submit u tx at n l p)"
| "dispatch _ _ = None"

definition next_state :: "anchor_state \<Rightarrow> anchor_event \<Rightarrow> anchor_regime \<Rightarrow> transition_result ares" where
  "next_state current ev regime =
     (case dispatch current ev of None \<Rightarrow> Inl InvalidTransition | Some handler \<Rightarrow> handler regime)"

definition is_terminal :: "anchor_state \<Rightarrow> bool" where
  "is_terminal s = (s \<in> {SETTLED, FAILED, REJECTED})"

definition initial_state :: anchor_state where
  "initial_state = INTENT_LOGGED"

fun_cases dispatch_SomeE: "dispatch s ev = Some h"

section \<open>Runs\<close>

text \<open>
  One step: the caller gives the machine an event and appends the entry it returns to the log.
\<close>

inductive anchor_step :: "anchor_regime \<Rightarrow> anchor_state \<times> anchor_entry list \<Rightarrow> anchor_event \<Rightarrow>
    anchor_state \<times> anchor_entry list \<Rightarrow> bool" for regime where
  step: "next_state s ev regime = Inr \<lparr>new_state = s', entry_to_emit = e\<rparr> \<Longrightarrow>
         anchor_step regime (s, log) ev (s', log @ [e])"

inductive_cases anchor_stepE: "anchor_step regime (s, log) ev (s', log')"
inductive_simps anchor_step_simps: "anchor_step regime (s, log) ev c"

inductive anchor_reach :: "anchor_regime \<Rightarrow> anchor_event list \<Rightarrow> anchor_state \<times> anchor_entry list \<Rightarrow> bool" for regime where
  start: "anchor_reach regime [] (initial_state, [])"
| more: "anchor_reach regime evs (s, log) \<Longrightarrow> anchor_step regime (s, log) ev c \<Longrightarrow>
         anchor_reach regime (evs @ [ev]) c"

text \<open>The executable run: it stops at the first event the machine refuses.\<close>

fun run_events :: "anchor_regime \<Rightarrow> anchor_state \<Rightarrow> anchor_event list \<Rightarrow> (anchor_state \<times> anchor_entry list) ares" where
  "run_events regime s [] = Inr (s, [])"
| "run_events regime s (ev # evs) =
     (case next_state s ev regime of
        Inl err \<Rightarrow> Inl err
      | Inr r \<Rightarrow>
          (case run_events regime (new_state r) evs of
             Inl err \<Rightarrow> Inl err
           | Inr (s', log) \<Rightarrow> Inr (s', entry_to_emit r # log)))"

text \<open>The state each entry stands for: what a replay of the log reads off its last entry.\<close>

primrec state_of_entry :: "anchor_entry \<Rightarrow> anchor_state" where
  "state_of_entry (AnchorSubmittedEntry u a b c d e) = SUBMITTED"
| "state_of_entry (AnchorIncludedEntry u a b c d e f) = INCLUDED"
| "state_of_entry (AnchorSettledEntry u a b c d e f) = SETTLED"
| "state_of_entry (AnchorFailedEntry u a b c d) = FAILED"
| "state_of_entry (AnchorRejectedEntry u a b c) = REJECTED"
| "state_of_entry (AnchorTimedOutEntry u a b c d) = TIMED_OUT"
| "state_of_entry (AnchorStuckEntry u a b) = STUCK"

definition replay_state :: "anchor_entry list \<Rightarrow> anchor_state" where
  "replay_state log = (if log = [] then initial_state else state_of_entry (last log))"

text \<open>The edges of the diagram in the module's documentation.\<close>

definition anchor_edge :: "anchor_state \<Rightarrow> anchor_state \<Rightarrow> bool" where
  "anchor_edge s s' =
     ((s, s') \<in> {(INTENT_LOGGED, SUBMITTED), (SUBMITTED, INCLUDED), (SUBMITTED, REJECTED), (SUBMITTED, TIMED_OUT),
        (SUBMITTED, STUCK), (INCLUDED, SETTLED), (INCLUDED, FAILED), (INCLUDED, TIMED_OUT), (INCLUDED, STUCK),
        (TIMED_OUT, SUBMITTED)})"

lemma transition_Inr:
  "transition s e = Inr r \<longleftrightarrow> entry_valid e \<and> r = \<lparr>new_state = s, entry_to_emit = e\<rparr>"
  by (auto simp: transition_def)

lemma next_state_Inr:
  assumes "next_state s ev regime = Inr r"
  shows "anchor_edge s (new_state r)" and "entry_valid (entry_to_emit r)"
    and "state_of_entry (entry_to_emit r) = new_state r"
    and "entry_intent_id (entry_to_emit r) = event_intent_id ev"
proof -
  obtain h where h: "dispatch s ev = Some h" "h regime = Inr r"
    using assms by (auto simp: next_state_def split: option.splits)
  have "anchor_edge s (new_state r) \<and> entry_valid (entry_to_emit r) \<and>
      state_of_entry (entry_to_emit r) = new_state r \<and> entry_intent_id (entry_to_emit r) = event_intent_id ev"
    by (rule dispatch_SomeE [OF h(1)])
       (use h(2) in \<open>simp_all add: handler_defs transition_Inr anchor_edge_def split: if_split_asm\<close>)
  then show "anchor_edge s (new_state r)" "entry_valid (entry_to_emit r)"
    "state_of_entry (entry_to_emit r) = new_state r"
    "entry_intent_id (entry_to_emit r) = event_intent_id ev" by simp_all
qed

text \<open>A log is a path of the diagram: consecutive entries stand for an edge, and so does its start.\<close>

fun log_path :: "anchor_state \<Rightarrow> anchor_entry list \<Rightarrow> bool" where
  "log_path s [] = True"
| "log_path s (e # es) = (anchor_edge s (state_of_entry e) \<and> log_path (state_of_entry e) es)"

lemma log_path_snoc:
  "log_path s (es @ [e]) \<longleftrightarrow>
   log_path s es \<and> anchor_edge (if es = [] then s else state_of_entry (last es)) (state_of_entry e)"
  by (induction es arbitrary: s) auto

lemma reach_invariant:
  assumes "anchor_reach regime evs c"
  shows "replay_state (snd c) = fst c \<and> log_path initial_state (snd c) \<and> list_all entry_valid (snd c) \<and>
    map entry_intent_id (snd c) = map event_intent_id evs"
  using assms
proof (induction rule: anchor_reach.induct)
  case (more evs s log ev c)
  from more.hyps(2) obtain s' e where c: "c = (s', log @ [e])"
    and n: "next_state s ev regime = Inr \<lparr>new_state = s', entry_to_emit = e\<rparr>"
    by (auto simp: anchor_step_simps)
  with next_state_Inr [OF n] more.IH show ?case
    by (auto simp: replay_state_def log_path_snoc)
qed (simp add: replay_state_def)

lemma run_events_snoc:
  "run_events regime s (evs @ [ev]) =
     (case run_events regime s evs of
        Inl err \<Rightarrow> Inl err
      | Inr (t, log) \<Rightarrow>
          (case next_state t ev regime of Inl err \<Rightarrow> Inl err
           | Inr r \<Rightarrow> Inr (new_state r, log @ [entry_to_emit r])))"
  by (induction evs arbitrary: s) (auto split: sum.splits prod.splits)

text \<open>The step relation and the executable run agree.\<close>

lemma reach_iff_run:
  "anchor_reach regime evs c \<longleftrightarrow> run_events regime initial_state evs = Inr c"
proof (induction evs arbitrary: c rule: rev_induct)
  case Nil
  show ?case by (auto intro: anchor_reach.start elim: anchor_reach.cases)
next
  case (snoc ev evs)
  have "anchor_reach regime (evs @ [ev]) c \<longleftrightarrow>
      (\<exists>s log. anchor_reach regime evs (s, log) \<and> anchor_step regime (s, log) ev c)"
    by (subst anchor_reach.simps) auto
  also have "\<dots> \<longleftrightarrow> run_events regime initial_state (evs @ [ev]) = Inr c"
    by (auto simp: snoc.IH run_events_snoc anchor_step_simps split: sum.splits)
  finally show ?case .
qed

text \<open>From a state with no outgoing edge nothing follows.\<close>

lemma log_path_end:
  "log_path s (xs @ e # ys) \<Longrightarrow> \<forall>s'. \<not> anchor_edge (state_of_entry e) s' \<Longrightarrow> ys = []"
  by (induction xs arbitrary: s) (auto elim: log_path.elims)

end
