(* ===== verification/Anchor_Props.thy ===== *)
theory Anchor_Props
  imports Anchor
begin

text \<open>Properties of the anchor state machine, over all runs from the initial state.\<close>

text \<open>
  C9: the log is a faithful record of a run. Replaying it gives the current state, its
  entries follow the edges of the documented diagram, each satisfies the constraints of
  its schema, and the intent ids are those of the events, in order.
\<close>

theorem anchor_log_replays:
  assumes "run_events regime initial_state evs = Inr (s, log)"
  shows "replay_state log = s \<and> log_path initial_state log \<and> list_all entry_valid log \<and>
    map entry_intent_id log = map event_intent_id evs"
  using reach_invariant [of regime evs "(s, log)"] assms by (simp add: reach_iff_run)

definition sample_run :: "anchor_event list" where
  "sample_run =
     [SubmitEvent ''i'' ''tx1'' 1 7 50000 1, T1TimeoutEvent ''i'' ''tx1'' 9000 None,
      SubmitEvent ''i'' ''tx2'' 10 8 50000 1, IncludeEvent ''i'' ''tx2'' 42 ''bh'' 1 600 0,
      ExecSuccessEvent ''i'' 43 ''rh'' 50000 ''0'' 1200 ''supernova_lastExecutionResult'']"

lemma sample_run_settles:
  "run_events Supernova initial_state sample_run =
     Inr (SETTLED,
       [AnchorSubmittedEntry ''i'' ''tx1'' 1 7 50000 1, AnchorTimedOutEntry ''i'' ''tx1'' 9000 None T1_Inclusion,
        AnchorSubmittedEntry ''i'' ''tx2'' 10 8 50000 1, AnchorIncludedEntry ''i'' ''tx2'' 42 ''bh'' 1 600 0,
        AnchorSettledEntry ''i'' 43 (Some ''rh'') 50000 ''0'' 1200 (Some ''supernova_lastExecutionResult'')])"
  by (simp add: sample_run_def initial_state_def next_state_def handler_defs transition_def SCHEMA_PATHS_def)

theorem anchor_log_replays_witness:
  "\<exists>log. run_events Supernova initial_state sample_run = Inr (SETTLED, log) \<and> replay_state log = SETTLED \<and>
     length log = 5"
  using anchor_log_replays [OF sample_run_settles] sample_run_settles by auto

text \<open>
  Settlement is final and is never recorded without inclusion. In the log of any run, a
  settled, failed or rejected entry is the last one and is the only one of its kind, the
  run is in its state, and a settled or failed entry directly follows an included one.
\<close>

theorem anchor_terminal_entry_last:
  assumes "run_events regime initial_state evs = Inr (s, log)"
    and "e \<in> set log" and "is_terminal (state_of_entry e)"
  shows "s = state_of_entry e \<and> (\<exists>pre. log = pre @ [e] \<and> (\<forall>x \<in> set pre. \<not> is_terminal (state_of_entry x)) \<and>
    (state_of_entry e \<in> {SETTLED, FAILED} \<longrightarrow> pre \<noteq> [] \<and> state_of_entry (last pre) = INCLUDED))"
proof -
  have inv: "replay_state log = s" "log_path initial_state log"
    using reach_invariant [of regime evs "(s, log)"] assms(1) by (simp_all add: reach_iff_run)
  have stop: "ys = []" if "log = xs @ x # ys" "is_terminal (state_of_entry x)" for xs x ys
  proof (rule log_path_end)
    show "log_path initial_state (xs @ x # ys)" using inv(2) that(1) by simp
    show "\<forall>s'. \<not> anchor_edge (state_of_entry x) s'" using that(2) by (auto simp: is_terminal_def anchor_edge_def)
  qed
  obtain pre ys where "log = pre @ e # ys" using split_list [OF assms(2)] by blast
  with stop assms(3) have log: "log = pre @ [e]" by blast
  have "\<forall>x \<in> set pre. \<not> is_terminal (state_of_entry x)"
  proof
    fix x
    assume "x \<in> set pre"
    then obtain us vs where "pre = us @ x # vs" by (meson split_list)
    with log stop [of us x "vs @ [e]"] show "\<not> is_terminal (state_of_entry x)" by auto
  qed
  moreover have "anchor_edge (if pre = [] then initial_state else state_of_entry (last pre)) (state_of_entry e)"
    using inv(2) log by (simp add: log_path_snoc)
  ultimately show ?thesis
    using log inv(1) by (auto simp: replay_state_def anchor_edge_def initial_state_def split: if_splits)
qed

theorem anchor_terminal_entry_last_witness:
  "\<exists>log pre. run_events Supernova initial_state sample_run = Inr (SETTLED, log) \<and>
     log = pre @ [AnchorSettledEntry ''i'' 43 (Some ''rh'') 50000 ''0'' 1200 (Some ''supernova_lastExecutionResult'')] \<and>
     state_of_entry (last pre) = INCLUDED"
  using anchor_terminal_entry_last [OF sample_run_settles,
      of "AnchorSettledEntry ''i'' 43 (Some ''rh'') 50000 ''0'' 1200 (Some ''supernova_lastExecutionResult'')"]
    sample_run_settles
  by (auto simp: is_terminal_def)

text \<open>
  C11: an anchor can still settle exactly from the states other than FAILED, REJECTED and STUCK:
  there is a continuation of events that ends in SETTLED. STUCK, which \<open>is_terminal\<close> does
  not count as terminal, accepts no event at all.
\<close>

theorem anchor_settles_unless_dead:
  "((\<exists>evs log. run_events regime s evs = Inr (SETTLED, log)) \<longleftrightarrow> s \<notin> {FAILED, REJECTED, STUCK}) \<and>
   ((\<forall>ev. next_state s ev regime = Inl InvalidTransition) \<longleftrightarrow> is_terminal s \<or> s = STUCK)"
proof -
  let ?sub = "SubmitEvent ''i'' ''tx'' 0 0 0 0" and ?inc = "IncludeEvent ''i'' ''tx'' 0 [] 0 0 0"
    and ?ok = "ExecSuccessEvent ''i'' 0 [] 0 ''0'' 0 ''andromeda_top_level''"
  note ev = next_state_def handler_defs transition_def SCHEMA_PATHS_def
  have dead: "next_state s ev regime = Inl InvalidTransition" if "is_terminal s \<or> s = STUCK" for ev
    using that by (auto simp: is_terminal_def next_state_def)
  have run: "run_events regime INTENT_LOGGED [?sub, ?inc, ?ok] = Inr (SETTLED,
      [AnchorSubmittedEntry ''i'' ''tx'' 0 0 0 0, AnchorIncludedEntry ''i'' ''tx'' 0 [] 0 0 0,
       AnchorSettledEntry ''i'' 0 (Some []) 0 ''0'' 0 (Some ''andromeda_top_level'')])"
    "run_events regime TIMED_OUT [?sub, ?inc, ?ok] = run_events regime INTENT_LOGGED [?sub, ?inc, ?ok]"
    by (simp_all add: ev)
  have runs: "run_events regime SUBMITTED [?inc, ?ok] = Inr (SETTLED, [AnchorIncludedEntry ''i'' ''tx'' 0 [] 0 0 0,
       AnchorSettledEntry ''i'' 0 (Some []) 0 ''0'' 0 (Some ''andromeda_top_level'')])"
    "run_events regime INCLUDED [?ok] = Inr (SETTLED, [AnchorSettledEntry ''i'' 0 (Some []) 0 ''0'' 0 (Some ''andromeda_top_level'')])"
    by (simp_all add: ev)
  have "\<exists>evs log. run_events regime s evs = Inr (SETTLED, log)" if "s \<notin> {FAILED, REJECTED, STUCK}"
  proof (cases s)
    case SETTLED
    then have "run_events regime s [] = Inr (SETTLED, [])" by simp
    then show ?thesis by blast
  next
    case INTENT_LOGGED
    with run(1) show ?thesis by blast
  next
    case TIMED_OUT
    with run show ?thesis by metis
  next
    case SUBMITTED
    with runs(1) show ?thesis by blast
  next
    case INCLUDED
    with runs(2) show ?thesis by blast
  qed (use that in simp_all)
  moreover have "s \<notin> {FAILED, REJECTED, STUCK}" if "run_events regime s evs = Inr (SETTLED, log)" for evs log
    using that dead by (cases evs) (auto simp: is_terminal_def)
  moreover have "is_terminal s \<or> s = STUCK" if "\<forall>ev. next_state s ev regime = Inl InvalidTransition"
    using that [rule_format, of ?sub] that [rule_format, of ?inc] that [rule_format, of ?ok]
    by (cases s) (auto simp: ev is_terminal_def)
  ultimately show ?thesis using dead by blast
qed

text \<open>
  The machine is regime-oblivious but for one guard: the two regimes give the same
  answer on every state and event, except that a settlement timeout of an included
  anchor is refused under Andromeda.
\<close>

theorem anchor_regime_oblivious:
  "next_state s ev Andromeda =
     (case (s, ev) of (INCLUDED, T3TimeoutEvent u tx el n) \<Rightarrow> Inl InvalidTransition
      | _ \<Rightarrow> next_state s ev Supernova)"
  by (cases s; cases ev) (simp_all add: next_state_def handler_defs)

end
