(* ===== verification/Regime.thy ===== *)
theory Regime
  imports Segments Anchor
begin

text \<open>
  \<^verbatim>\<open>src/dsm/multiversx/regime.py\<close>: deciding between the two execution regimes of the network,
  with a time-to-live cache that survives a restart. The gateway is a parameter: each
  operation takes the answers of the two queries it makes, an error for a failed query.
  Python's \<^verbatim>\<open>str()\<close> on arbitrary values is a parameter as well. A verdict that comes back
  from the cache file carries whatever the file held, so its fields are JSON values.
  The clock is an argument. An unreadable cache file counts as absent, as in the code.
\<close>

section \<open>Detection\<close>

datatype mvx_error =
  PayloadError | RegimeError | FetchFailed | SchemaInvalid | SchemaUnknownError | WatcherError | PyErr py_error

type_synonym 'a mres = "mvx_error + 'a"

definition mbind :: "'a mres \<Rightarrow> ('a \<Rightarrow> 'b mres) \<Rightarrow> 'b mres" where
  "mbind m f = (case m of Inl e \<Rightarrow> Inl e | Inr x \<Rightarrow> f x)"

definition lift_res :: "'a res \<Rightarrow> 'a mres" where
  "lift_res m = (case m of Inl e \<Rightarrow> Inl (PyErr e) | Inr x \<Rightarrow> Inr x)"

lemma mbind_simps [simp]: "mbind (Inl e) f = Inl e" "mbind (Inr x) f = f x"
  by (simp_all add: mbind_def)

lemma lift_res_simps [simp]: "lift_res (Inl e) = Inl (PyErr e)" "lift_res (Inr x) = Inr x"
  by (simp_all add: lift_res_def)

definition ANDROMEDA_ROUND_DURATION_MS :: int where "ANDROMEDA_ROUND_DURATION_MS = 6000"
definition SUPERNOVA_ROUND_DURATION_MS :: int where "SUPERNOVA_ROUND_DURATION_MS = 600"
definition DEFAULT_ROUNDS_PER_EPOCH :: int where "DEFAULT_ROUNDS_PER_EPOCH = 14400"

text \<open>
  \<^verbatim>\<open>int(str(value))\<close>: an int prints as its digits; booleans, floats, lists and dicts print as
  text that is no integer.
\<close>

definition coerce_round_duration :: "json \<Rightarrow> int option" where
  "coerce_round_duration v =
     (case v of JInt i \<Rightarrow> Some i | JStr s \<Rightarrow> py_int_literal s | _ \<Rightarrow> None)"

definition dict_get :: "(string \<times> json) list \<Rightarrow> string \<Rightarrow> json \<Rightarrow> json" where
  "dict_get d k dflt = (case dget k d of None \<Rightarrow> dflt | Some v \<Rightarrow> v)"

definition detect_regime :: "json \<Rightarrow> anchor_regime mres" where
  "detect_regime cfg =
     (case cfg of
        JObj d \<Rightarrow>
          (if coerce_round_duration (dict_get d ''erd_round_duration'' JNull) = Some ANDROMEDA_ROUND_DURATION_MS
           then Inr Andromeda else Inr Supernova)
      | _ \<Rightarrow> Inl PayloadError)"

definition build_snapshot :: "(json \<Rightarrow> string) \<Rightarrow> json \<Rightarrow> int \<Rightarrow> network_config_snapshot mres" where
  "build_snapshot py_str cfg captured_at =
     (case cfg of
        JObj d \<Rightarrow>
          (let chain = dict_get d ''erd_chain_id'' JNull;
               proto = dict_get d ''erd_latest_tag_software_version'' JNull
           in if \<not> truthy chain then Inl PayloadError
              else if \<not> truthy proto then Inl PayloadError
              else
                (case coerce_round_duration (dict_get d ''erd_round_duration'' JNull) of
                   None \<Rightarrow> Inl PayloadError
                 | Some r \<Rightarrow>
                     (if r < 1 then Inl PayloadError
                      else if captured_at < 0 \<or> py_str chain = [] then Inl SchemaInvalid
                      else Inr \<lparr>ncs_chain_id = py_str chain, ncs_round_duration_ms = r,
                                ncs_protocol_version = py_str proto, ncs_captured_at_ms = captured_at\<rparr>)))
      | _ \<Rightarrow> Inl PayloadError)"

section \<open>Verdicts and the cache\<close>

record regime_verdict =
  rv_regime :: json
  rv_round_duration_ms :: json
  rv_chain_id :: json
  rv_source :: json
  rv_captured_at_ms :: json
  rv_epoch_number :: json

record cached_verdict =
  cv_verdict :: regime_verdict
  cv_cached_at_ms :: json
  cv_ttl_ms :: json

record regime_cache =
  rc_in_memory :: "cached_verdict option"
  rc_loaded :: bool
  rc_disk :: "string option"

definition regime_json :: "anchor_regime \<Rightarrow> json" where
  "regime_json r = JStr (case r of Andromeda \<Rightarrow> ''andromeda'' | Supernova \<Rightarrow> ''supernova'')"

definition is_fresh :: "int \<Rightarrow> cached_verdict \<Rightarrow> bool res" where
  "is_fresh now_ms e =
     rbind (as_num (cv_cached_at_ms e)) (\<lambda>at. rbind (as_num (cv_ttl_ms e)) (\<lambda>ttl. Inr (now_ms - at < ttl)))"

definition cached_verdict_to_dict :: "cached_verdict \<Rightarrow> json" where
  "cached_verdict_to_dict e =
     (let v = cv_verdict e in
      JObj [(''verdict'', JObj [(''regime'', rv_regime v), (''round_duration_ms'', rv_round_duration_ms v),
              (''chain_id'', rv_chain_id v), (''source'', rv_source v), (''captured_at_ms'', rv_captured_at_ms v),
              (''epoch_number'', rv_epoch_number v)]),
            (''cached_at_ms'', cv_cached_at_ms e), (''ttl_ms'', cv_ttl_ms e)])"

definition cached_verdict_from_dict :: "json \<Rightarrow> cached_verdict res" where
  "cached_verdict_from_dict payload =
     rbind (jsub ''verdict'' payload) (\<lambda>v.
     rbind (jsub ''regime'' v) (\<lambda>r.
     rbind (jsub ''round_duration_ms'' v) (\<lambda>rd.
     rbind (jsub ''chain_id'' v) (\<lambda>ci.
     rbind (jsub ''source'' v) (\<lambda>so.
     rbind (jsub ''captured_at_ms'' v) (\<lambda>ca.
     rbind (jget ''epoch_number'' JNull v) (\<lambda>en.
     rbind (jsub ''cached_at_ms'' payload) (\<lambda>at.
     rbind (jsub ''ttl_ms'' payload) (\<lambda>ttl.
       Inr \<lparr>cv_verdict = \<lparr>rv_regime = r, rv_round_duration_ms = rd, rv_chain_id = ci, rv_source = so,
              rv_captured_at_ms = ca, rv_epoch_number = en\<rparr>, cv_cached_at_ms = at, cv_ttl_ms = ttl\<rparr>)))))))))"

text \<open>A new process: nothing in memory, the file not yet read.\<close>

definition new_cache :: "string option \<Rightarrow> regime_cache" where
  "new_cache disk = \<lparr>rc_in_memory = None, rc_loaded = False, rc_disk = disk\<rparr>"

definition load_from_disk :: "regime_cache \<Rightarrow> regime_cache" where
  "load_from_disk c =
     (case rc_disk c of
        None \<Rightarrow> c\<lparr>rc_loaded := True\<rparr>
      | Some raw \<Rightarrow>
          (case loads raw of
             None \<Rightarrow> c\<lparr>rc_loaded := True, rc_in_memory := None\<rparr>
           | Some payload \<Rightarrow>
               (case cached_verdict_from_dict payload of
                  Inr e \<Rightarrow> c\<lparr>rc_loaded := True, rc_in_memory := Some e\<rparr>
                | Inl _ \<Rightarrow> c\<lparr>rc_loaded := True, rc_in_memory := None\<rparr>)))"

definition ensure_loaded :: "regime_cache \<Rightarrow> regime_cache" where
  "ensure_loaded c = (if rc_loaded c then c else load_from_disk c)"

definition cache_get :: "int \<Rightarrow> regime_cache \<Rightarrow> regime_cache \<times> regime_verdict option res" where
  "cache_get now_ms c =
     (let c1 = ensure_loaded c in
      (c1, case rc_in_memory c1 of
             None \<Rightarrow> Inr None
           | Some e \<Rightarrow> rbind (is_fresh now_ms e) (\<lambda>fresh. Inr (if fresh then Some (cv_verdict e) else None))))"

definition cache_get_stale :: "regime_cache \<Rightarrow> regime_cache \<times> regime_verdict option" where
  "cache_get_stale c = (let c1 = ensure_loaded c in (c1, map_option cv_verdict (rc_in_memory c1)))"

text \<open>The disk write either replaces the file or, on an OS error, leaves it as it was.\<close>

definition cache_put :: "bool \<Rightarrow> int \<Rightarrow> regime_verdict \<Rightarrow> int \<Rightarrow> regime_cache \<Rightarrow> regime_cache" where
  "cache_put disk_ok now_ms v ttl_ms c =
     (let e = \<lparr>cv_verdict = v, cv_cached_at_ms = JInt now_ms, cv_ttl_ms = JInt ttl_ms\<rparr> in
      c\<lparr>rc_in_memory := Some e, rc_loaded := True,
        rc_disk := (if disk_ok then Some (dumps_raw spaced_ascii (cached_verdict_to_dict e)) else rc_disk c)\<rparr>)"

definition cache_invalidate :: "bool \<Rightarrow> regime_cache \<Rightarrow> regime_cache" where
  "cache_invalidate disk_ok c =
     c\<lparr>rc_in_memory := None, rc_loaded := True, rc_disk := (if disk_ok then None else rc_disk c)\<rparr>"

section \<open>The detector\<close>

definition ttl_from_config :: "(string \<times> json) list \<Rightarrow> int \<Rightarrow> int" where
  "ttl_from_config d round_duration_ms =
     (let r = coerce_round_duration (dict_get d ''erd_rounds_per_epoch'' JNull);
          rounds = (case r of None \<Rightarrow> DEFAULT_ROUNDS_PER_EPOCH
                    | Some n \<Rightarrow> if n < 1 then DEFAULT_ROUNDS_PER_EPOCH else n)
      in rounds * max round_duration_ms 1)"

text \<open>The verdict and its time to live; the config has to be a dict.\<close>

definition verdict_from_config :: "(json \<Rightarrow> string) \<Rightarrow> json \<Rightarrow> string \<Rightarrow> int \<Rightarrow> int option \<Rightarrow> (regime_verdict \<times> int) mres" where
  "verdict_from_config py_str cfg src now_ms epoch =
     mbind (detect_regime cfg) (\<lambda>regime.
       case cfg of
         JObj d \<Rightarrow>
           (let rd = (case coerce_round_duration (dict_get d ''erd_round_duration'' JNull) of
                        None \<Rightarrow> (if regime = Andromeda then ANDROMEDA_ROUND_DURATION_MS else SUPERNOVA_ROUND_DURATION_MS)
                      | Some n \<Rightarrow>
                          (if n < 1 then (if regime = Andromeda then ANDROMEDA_ROUND_DURATION_MS
                                          else SUPERNOVA_ROUND_DURATION_MS)
                           else n))
            in Inr (\<lparr>rv_regime = regime_json regime, rv_round_duration_ms = JInt rd,
                     rv_chain_id = JStr (py_str (dict_get d ''erd_chain_id'' (JStr []))), rv_source = JStr src,
                     rv_captured_at_ms = JInt now_ms,
                     rv_epoch_number = (case epoch of None \<Rightarrow> JNull | Some n \<Rightarrow> JInt n)\<rparr>,
                    ttl_from_config d rd))
       | _ \<Rightarrow> Inl PayloadError)"

definition fail_closed :: "int \<Rightarrow> regime_verdict" where
  "fail_closed now_ms =
     \<lparr>rv_regime = regime_json Supernova, rv_round_duration_ms = JInt SUPERNOVA_ROUND_DURATION_MS,
      rv_chain_id = JStr [], rv_source = JStr ''fail_closed_default'', rv_captured_at_ms = JInt now_ms,
      rv_epoch_number = JNull\<rparr>"

definition fallback :: "int \<Rightarrow> regime_cache \<Rightarrow> regime_cache \<times> regime_verdict" where
  "fallback now_ms c =
     (case cache_get_stale c of
        (c1, Some v) \<Rightarrow> (c1, v\<lparr>rv_source := JStr ''cache'', rv_epoch_number := JNull\<rparr>)
      | (c1, None) \<Rightarrow> (c1, fail_closed now_ms))"

definition current :: "(json \<Rightarrow> string) \<Rightarrow> bool \<Rightarrow> int \<Rightarrow> json mres \<Rightarrow> regime_cache \<Rightarrow> regime_cache \<times> regime_verdict mres" where
  "current py_str disk_ok now_ms fetched c =
     (case cache_get now_ms c of
        (c1, Inl err) \<Rightarrow> (c1, Inl (PyErr err))
      | (c1, Inr (Some v)) \<Rightarrow> (c1, Inr v)
      | (c1, Inr None) \<Rightarrow>
          (case mbind fetched (\<lambda>cfg. verdict_from_config py_str cfg ''network_config'' now_ms None) of
             Inr (v, ttl) \<Rightarrow> (cache_put disk_ok now_ms v ttl c1, Inr v)
           | Inl _ \<Rightarrow> (let (c2, v) = fallback now_ms c1 in (c2, Inr v))))"

definition refresh :: "(json \<Rightarrow> string) \<Rightarrow> bool \<Rightarrow> bool \<Rightarrow> int \<Rightarrow> json mres \<Rightarrow> regime_cache \<Rightarrow> regime_cache \<times> regime_verdict mres" where
  "refresh py_str disk_ok strict now_ms fetched c =
     (case fetched of
        Inl _ \<Rightarrow>
          (if strict then (c, Inl RegimeError)
           else (let (c2, v) = fallback now_ms c in (c2, Inr v)))
      | Inr cfg \<Rightarrow>
          (case verdict_from_config py_str cfg ''network_config'' now_ms None of
             Inl err \<Rightarrow> (c, Inl err)
           | Inr (v, ttl) \<Rightarrow> (cache_put disk_ok now_ms v ttl c, Inr v)))"

definition on_epoch_transition ::
    "(json \<Rightarrow> string) \<Rightarrow> bool \<Rightarrow> int \<Rightarrow> json mres \<Rightarrow> json mres \<Rightarrow> regime_cache \<Rightarrow> regime_cache \<times> bool mres" where
  "on_epoch_transition py_str disk_ok now_ms status fetched c =
     (case status of
        Inl _ \<Rightarrow> (c, Inr False)
      | Inr st \<Rightarrow>
          (case jget ''erd_epoch_number'' JNull st of
             Inl err \<Rightarrow> (c, Inl (PyErr err))
           | Inr raw \<Rightarrow>
               (case coerce_round_duration raw of
                  None \<Rightarrow> (c, Inr False)
                | Some epoch \<Rightarrow>
                    (case cache_get now_ms c of
                       (c1, Inl err) \<Rightarrow> (c1, Inl (PyErr err))
                     | (c1, Inr got) \<Rightarrow>
                         (let cached = (case got of Some v \<Rightarrow> Some v | None \<Rightarrow> snd (cache_get_stale c1));
                              cached_epoch = (case cached of Some v \<Rightarrow> rv_epoch_number v | None \<Rightarrow> JNull)
                          in if cached_epoch \<noteq> JNull \<and> cached_epoch = JInt epoch then (c1, Inr False)
                             else
                               (case fetched of
                                  Inl _ \<Rightarrow> (c1, Inr False)
                                | Inr cfg \<Rightarrow>
                                    (case verdict_from_config py_str cfg ''network_config'' now_ms (Some epoch) of
                                       Inl err \<Rightarrow> (c1, Inl err)
                                     | Inr (v, ttl) \<Rightarrow> (cache_put disk_ok now_ms v ttl c1, Inr True))))))))"

section \<open>Laws\<close>

lemma cached_verdict_roundtrip [simp, codec]: "cached_verdict_from_dict (cached_verdict_to_dict e) = Inr e"
  by (simp add: cached_verdict_from_dict_def cached_verdict_to_dict_def Let_def)

text \<open>A verdict whose fields are JSON values, as the detector builds them.\<close>

definition wf_verdict :: "regime_verdict \<Rightarrow> bool" where
  "wf_verdict v = list_all wf_json [rv_regime v, rv_round_duration_ms v, rv_chain_id v, rv_source v,
     rv_captured_at_ms v, rv_epoch_number v]"

lemma loads_Nil: "loads [] = None"
  by (simp add: loads_def parse_value.simps parse_word_def parse_num_def int_lex_def unsigned_int_lex_def drop_minus_def float_lex_def)

text \<open>A cached record whose two times are numbers, as the code writes them.\<close>

definition timed :: "cached_verdict \<Rightarrow> bool" where
  "timed e = ((\<exists>n. as_num (cv_cached_at_ms e) = Inr n) \<and> (\<exists>n. as_num (cv_ttl_ms e) = Inr n))"

text \<open>The record the cache answers from, once it is loaded.\<close>

definition held :: "regime_cache \<Rightarrow> cached_verdict option" where
  "held c = rc_in_memory (ensure_loaded c)"

definition cache_wf :: "regime_cache \<Rightarrow> bool" where
  "cache_wf c = (case held c of None \<Rightarrow> True | Some e \<Rightarrow> timed e)"

lemma ensure_loaded_idem [simp]: "ensure_loaded (ensure_loaded c) = ensure_loaded c"
  by (simp add: ensure_loaded_def load_from_disk_def split: option.splits sum.splits)

lemma is_fresh_timed: "timed e \<Longrightarrow> \<exists>b. is_fresh now_ms e = Inr b"
  by (auto simp: timed_def is_fresh_def)

lemma cache_get_wf:
  assumes "cache_wf c"
  obtains got where "cache_get now_ms c = (ensure_loaded c, Inr got)"
    and "got = None \<or> (\<exists>e. held c = Some e \<and> got = Some (cv_verdict e))"
proof (cases "held c")
  case None
  with that [of None] show ?thesis by (simp add: cache_get_def held_def)
next
  case (Some e)
  with assms obtain b where "is_fresh now_ms e = Inr b" using is_fresh_timed by (auto simp: cache_wf_def)
  with Some that [of "if b then Some (cv_verdict e) else None"] show ?thesis by (simp add: cache_get_def held_def)
qed

lemma fallback_regime:
  "rv_regime (snd (fallback now_ms c)) =
     (case held c of Some e \<Rightarrow> rv_regime (cv_verdict e) | None \<Rightarrow> regime_json Supernova)"
  by (simp add: fallback_def cache_get_stale_def Let_def held_def fail_closed_def split: option.splits)

lemma regime_json_inj [simp]: "regime_json a = regime_json b \<longleftrightarrow> a = b"
  by (cases a; cases b) (simp_all add: regime_json_def)

lemma verdict_regime:
  "verdict_from_config py_str cfg src now_ms ep = Inr (v, ttl) \<Longrightarrow>
   \<exists>r. detect_regime cfg = Inr r \<and> rv_regime v = regime_json r"
  by (cases cfg) (auto simp: verdict_from_config_def Let_def detect_regime_def split: if_splits)

lemma verdict_epoch:
  "verdict_from_config py_str cfg src now_ms (Some n) = Inr (v, ttl) \<Longrightarrow> rv_epoch_number v = JInt n"
  by (cases cfg) (auto simp: verdict_from_config_def Let_def detect_regime_def split: if_splits)

end
