(* ===== verification/Regime_Props.thy ===== *)
theory Regime_Props
  imports Regime
begin

text \<open>Properties of regime detection and of its cache.\<close>

text \<open>
  Detection is fail-closed. A config dict is judged Andromeda exactly when its round
  duration, given as an int or as a decimal string, is 6000; a missing, malformed or any
  other value gives Supernova, and anything but a dict is a payload error.
\<close>

theorem detect_regime_fail_closed:
  "detect_regime cfg =
     (case cfg of
        JObj d \<Rightarrow>
          Inr (if dget ''erd_round_duration'' d = Some (JInt 6000) \<or>
                  (\<exists>s. dget ''erd_round_duration'' d = Some (JStr s) \<and> py_int_literal s = Some 6000)
               then Andromeda else Supernova)
      | _ \<Rightarrow> Inl PayloadError)"
  by (auto simp: detect_regime_def coerce_round_duration_def dict_get_def ANDROMEDA_ROUND_DURATION_MS_def
      split: json.splits option.splits)



text \<open>
  The cache survives a restart. The text that storing a verdict leaves in the cache file
  is what a new process parses back to the same verdict, as fresh before its time to live
  has passed and only as stale after it.
\<close>

theorem regime_cache_restart:
  assumes "wf_verdict v"
  shows "snd (cache_get t' (new_cache (rc_disk (cache_put True t v ttl c)))) = Inr (if t' - t < ttl then Some v else None) \<and>
    snd (cache_get_stale (new_cache (rc_disk (cache_put True t v ttl c)))) = Some v"
proof -
  let ?e = "\<lparr>cv_verdict = v, cv_cached_at_ms = JInt t, cv_ttl_ms = JInt ttl\<rparr>"
  have "loads (dumps_raw spaced_ascii (cached_verdict_to_dict ?e)) = Some (cached_verdict_to_dict ?e)"
    using assms by (intro loads_dumps_raw) (simp add: wf_verdict_def cached_verdict_to_dict_def Let_def)
  then show ?thesis
    by (simp add: new_cache_def cache_put_def cache_get_def cache_get_stale_def ensure_loaded_def load_from_disk_def
      is_fresh_def as_num_def Let_def)
qed

theorem regime_cache_restart_witness:
  "snd (cache_get 9 (new_cache (rc_disk (cache_put True 5 (fail_closed 3) 10 (new_cache None))))) = Inr (Some (fail_closed 3))"
  using regime_cache_restart [of "fail_closed 3" 9 5 10 "new_cache None"]
  by (simp add: wf_verdict_def fail_closed_def regime_json_def)

text \<open>
  An epoch transition is handled once. After a refresh that saw an epoch, a second check
  that sees the same epoch does nothing, at any later time and with any gateway answer.
\<close>

theorem epoch_transition_once:
  assumes "on_epoch_transition py_str ok t status fetched c = (c', Inr True)"
  shows "on_epoch_transition py_str ok' t' status fetched' c' = (c', Inr False)"
proof -
  have "\<exists>st raw epoch c1 cfg v ttl. status = Inr st \<and> jget ''erd_epoch_number'' JNull st = Inr raw \<and>
      coerce_round_duration raw = Some epoch \<and> c' = cache_put ok t v ttl c1 \<and>
      verdict_from_config py_str cfg ''network_config'' t (Some epoch) = Inr (v, ttl)"
    using assms by (simp add: on_epoch_transition_def Let_def split: sum.split_asm option.split_asm prod.split_asm if_split_asm)
      blast+
  then obtain st raw epoch c1 cfg v ttl where s: "status = Inr st" "jget ''erd_epoch_number'' JNull st = Inr raw"
      "coerce_round_duration raw = Some epoch" and c': "c' = cache_put ok t v ttl c1"
    and "verdict_from_config py_str cfg ''network_config'' t (Some epoch) = Inr (v, ttl)" by blast
  then have ep: "rv_epoch_number v = JInt epoch" using verdict_epoch by blast
  from c' have "cache_get t' c' = (c', Inr (if t' - t < ttl then Some v else None))" "snd (cache_get_stale c') = Some v"
    by (simp_all add: cache_get_def cache_get_stale_def cache_put_def ensure_loaded_def is_fresh_def as_num_def Let_def)
  with s ep show ?thesis by (simp add: on_epoch_transition_def)
qed

theorem epoch_transition_once_witness:
  "on_epoch_transition (\<lambda>_. ''1'') True 99 (Inr (JObj [(''erd_epoch_number'', JInt 7)])) (Inl FetchFailed)
     (fst (on_epoch_transition (\<lambda>_. ''1'') True 5 (Inr (JObj [(''erd_epoch_number'', JInt 7)]))
        (Inr (JObj [(''erd_round_duration'', JInt 6000)])) \<lparr>rc_in_memory = None, rc_loaded = True, rc_disk = None\<rparr>))
   = (fst (on_epoch_transition (\<lambda>_. ''1'') True 5 (Inr (JObj [(''erd_epoch_number'', JInt 7)]))
        (Inr (JObj [(''erd_round_duration'', JInt 6000)])) \<lparr>rc_in_memory = None, rc_loaded = True, rc_disk = None\<rparr>),
      Inr False)"
proof -
  let ?st = "Inr (JObj [(''erd_epoch_number'', JInt 7)]) :: json mres"
    and ?cfg = "Inr (JObj [(''erd_round_duration'', JInt 6000)]) :: json mres"
    and ?c = "\<lparr>rc_in_memory = None, rc_loaded = True, rc_disk = None\<rparr> :: regime_cache"
  have "\<exists>c'. on_epoch_transition (\<lambda>_. ''1'') True 5 ?st ?cfg ?c = (c', Inr True)"
    by (simp add: on_epoch_transition_def coerce_round_duration_def cache_get_def cache_get_stale_def ensure_loaded_def
        verdict_from_config_def detect_regime_def Let_def)
  then obtain c' where "on_epoch_transition (\<lambda>_. ''1'') True 5 ?st ?cfg ?c = (c', Inr True)" by blast
  from this epoch_transition_once [OF this] show ?thesis by simp
qed

end
