(* ===== verification/Watcher.thy ===== *)
theory Watcher
  imports Regime
begin

text \<open>
  \<^verbatim>\<open>src/dsm/multiversx/watcher.py\<close>: the dual-schema reader of execution results and the
  polling watcher that turns gateway answers into events of the anchor state machine.
  The gateway is a parameter: its answer to the n-th request, an error for a failed one.
  Python's \<^verbatim>\<open>str()\<close> on arbitrary values and \<^verbatim>\<open>int()\<close> on a float are parameters. A
  generator is the list of what it yields with the error that ends it, if one does.
  \<^verbatim>\<open>dict(v)\<close> is modelled on dicts; on other values it is an error here.
\<close>

section \<open>Python values\<close>

record py =
  py_str :: "json \<Rightarrow> string"
  py_float_int :: "string \<Rightarrow> int res"

definition jor :: "json \<Rightarrow> json \<Rightarrow> json" where
  "jor a b = (if truthy a then a else b)"

definition py_int_val :: "py \<Rightarrow> json \<Rightarrow> int res" where
  "py_int_val P j =
     (case j of
        JInt i \<Rightarrow> Inr i
      | JBool b \<Rightarrow> Inr (if b then 1 else 0)
      | JStr s \<Rightarrow> (case py_int_literal s of Some i \<Rightarrow> Inr i | None \<Rightarrow> Inl (ValueError ''int''))
      | JFloat l \<Rightarrow> py_float_int P l
      | _ \<Rightarrow> Inl TypeError)"

definition as_dict :: "json \<Rightarrow> (string \<times> json) list res" where
  "as_dict j = (case j of JObj d \<Rightarrow> Inr d | _ \<Rightarrow> Inl TypeError)"

definition as_dict_attr :: "json \<Rightarrow> (string \<times> json) list res" where
  "as_dict_attr j = (case j of JObj d \<Rightarrow> Inr d | _ \<Rightarrow> Inl AttributeError)"

definition lower_char :: "char \<Rightarrow> char" where
  "lower_char c =
     (let n = of_char c :: nat in
      if (65 \<le> n \<and> n \<le> 90) \<or> (192 \<le> n \<and> n \<le> 222 \<and> n \<noteq> 215) then char_of (n + 32) else c)"

definition py_lower :: "string \<Rightarrow> string" where
  "py_lower s = map lower_char s"

text \<open>\<^verbatim>\<open>int(v)\<close> with TypeError and ValueError replaced by a default.\<close>

definition int_or :: "py \<Rightarrow> int \<Rightarrow> json \<Rightarrow> int res" where
  "int_or P dflt j =
     (case py_int_val P j of
        Inr i \<Rightarrow> Inr i
      | Inl TypeError \<Rightarrow> Inr dflt
      | Inl (ValueError m) \<Rightarrow> Inr dflt
      | Inl e \<Rightarrow> Inl e)"

section \<open>The dual-schema reader\<close>

datatype exec_status = Success | Fail | Pending
datatype sdk_schema = LegacyOnly | Dual | NewOnly

definition ANDROMEDA_PATH :: string where "ANDROMEDA_PATH = ''andromeda_top_level''"
definition SUPERNOVA_PATH :: string where "SUPERNOVA_PATH = ''supernova_lastExecutionResult''"

record exec_result =
  er_status :: exec_status
  er_executed_in_block_nonce :: int
  er_execution_result_hash :: string
  er_gas_used :: int
  er_developer_fees :: string
  er_return_message :: string
  er_schema_path_used :: string

type_synonym dict = "(string \<times> json) list"

definition extract_tx :: "json \<Rightarrow> dict res" where
  "extract_tx resp =
     rbind (jget ''data'' JNull resp) (\<lambda>data.
     rbind (jget ''transaction'' JNull (jor data (JObj []))) (\<lambda>t. as_dict (jor t (JObj []))))"

definition extract_block :: "dict \<Rightarrow> dict res" where
  "extract_block env =
     (case dget ''data'' env of
        None \<Rightarrow> Inr env
      | Some data \<Rightarrow>
          rbind (py_in (JStr ''block'') (jor data (JObj []))) (\<lambda>b.
            if b then rbind (jsub ''block'' data) as_dict else Inr env))"

definition extract_receipt_data :: "py \<Rightarrow> dict \<Rightarrow> string" where
  "extract_receipt_data P tx =
     (case dict_get tx ''receipt'' JNull of
        JObj r \<Rightarrow> py_str P (jor (dict_get r ''data'' JNull) (JStr []))
      | _ \<Rightarrow> [])"

definition is_tx_included_successfully :: "dict \<Rightarrow> bool" where
  "is_tx_included_successfully tx =
     (dict_get tx ''miniblockType'' JNull = JStr ''TxBlock'' \<and> dict_get tx ''status'' JNull = JStr ''success'')"

definition andromeda_status :: "string \<Rightarrow> exec_status" where
  "andromeda_status s =
     (if s = ''success'' then Success else if s = ''fail'' \<or> s = ''invalid'' then Fail else Pending)"

definition read_andromeda :: "py \<Rightarrow> dict \<Rightarrow> dict option \<Rightarrow> exec_result res" where
  "read_andromeda P tx containing =
     (let status = (if is_tx_included_successfully tx then Success
                    else andromeda_status (py_lower (py_str P (dict_get tx ''status'' (JStr ''pending'')))));
          blk = (case containing of None \<Rightarrow> [] | Some b \<Rightarrow> b)
      in rbind (py_int_val P (jor (dict_get tx ''blockNonce'' JNull) (JInt 0))) (\<lambda>nonce.
         rbind (py_int_val P (jor (dict_get tx ''gasUsed'' JNull) (JInt 0))) (\<lambda>gas.
           Inr \<lparr>er_status = status, er_executed_in_block_nonce = nonce,
                er_execution_result_hash = py_str P (dict_get blk ''rootHash'' (JStr [])), er_gas_used = gas,
                er_developer_fees = py_str P (dict_get blk ''developerFees'' (JStr ''0'')),
                er_return_message = extract_receipt_data P tx, er_schema_path_used = ANDROMEDA_PATH\<rparr>)))"

definition signal_invalid_block_miniblock :: "dict \<Rightarrow> bool res" where
  "signal_invalid_block_miniblock er =
     rbind (py_iter (jor (dict_get er ''miniBlockHeaders'' JNull) (JList [])))
       (any_res (\<lambda>mb. rbind (jget ''type'' JNull mb) (\<lambda>t. Inr (t = JStr ''InvalidBlock''))))"

definition signal_failed_tx_count :: "py \<Rightarrow> dict \<Rightarrow> bool res" where
  "signal_failed_tx_count P er =
     rbind (int_or P 0 (jor (dict_get er ''failedTxCount'' JNull) (JInt 0))) (\<lambda>n. Inr (0 < n))"

definition signal_tx_miniblock_type_invalid :: "dict \<Rightarrow> bool" where
  "signal_tx_miniblock_type_invalid tx = (dict_get tx ''miniblockType'' JNull = JStr ''InvalidBlock'')"

definition has_tx_block :: "dict \<Rightarrow> bool res" where
  "has_tx_block er =
     rbind (py_iter (jor (dict_get er ''miniBlockHeaders'' JNull) (JList [])))
       (any_res (\<lambda>mb. rbind (jget ''type'' JNull (jor mb (JObj []))) (\<lambda>t. Inr (t = JStr ''TxBlock''))))"

definition classify_supernova_non_fail :: "py \<Rightarrow> dict \<Rightarrow> exec_status res" where
  "classify_supernova_non_fail P er =
     rbind (int_or P 0 (jor (dict_get er ''executedTxCount'' JNull) (JInt 0))) (\<lambda>n.
     rbind (has_tx_block er) (\<lambda>b. Inr (if b \<and> 0 < n then Success else Pending)))"

definition supernova_status :: "py \<Rightarrow> dict \<Rightarrow> dict \<Rightarrow> exec_status res" where
  "supernova_status P er tx =
     rbind (signal_invalid_block_miniblock er) (\<lambda>s1.
     rbind (signal_failed_tx_count P er) (\<lambda>s2.
       if s1 \<or> s2 \<or> signal_tx_miniblock_type_invalid tx then Inr Fail
       else classify_supernova_non_fail P er))"

text \<open>
  The operands of \<^verbatim>\<open>or\<close> are evaluated from left to right: a base result that is no dict only
  raises where it is reached.
\<close>

definition read_supernova :: "py \<Rightarrow> dict \<Rightarrow> dict option \<Rightarrow> exec_result res" where
  "read_supernova P tx settling_block =
     (case settling_block of
        None \<Rightarrow>
          Inr \<lparr>er_status = Pending, er_executed_in_block_nonce = 0, er_execution_result_hash = [], er_gas_used = 0,
               er_developer_fees = ''0'', er_return_message = [], er_schema_path_used = SUPERNOVA_PATH\<rparr>
      | Some env \<Rightarrow>
          rbind (extract_block env) (\<lambda>settling.
          rbind (as_dict_attr (jor (dict_get settling ''lastExecutionResult'' JNull) (JObj []))) (\<lambda>er.
          rbind (supernova_status P er tx) (\<lambda>status.
          let base = jor (dict_get er ''baseExecutionResult'' JNull) (JObj []);
              n1 = dict_get settling ''nonce'' JNull
          in rbind (if truthy n1 then Inr n1
                    else rbind (jget ''headerNonce'' JNull base) (\<lambda>h.
                      Inr (jor h (jor (dict_get tx ''executedInBlockNonce'' JNull) (JInt 0))))) (\<lambda>nv.
             rbind (py_int_val P nv) (\<lambda>nonce.
             rbind (jget ''rootHash'' JNull base) (\<lambda>rh.
             rbind (py_int_val P (jor (dict_get er ''gasUsed'' JNull) (JInt 0))) (\<lambda>gas.
               Inr \<lparr>er_status = status, er_executed_in_block_nonce = nonce,
                    er_execution_result_hash = py_str P (jor rh (jor (dict_get er ''rootHash'' JNull) (JStr []))),
                    er_gas_used = gas,
                    er_developer_fees = py_str P (jor (dict_get er ''developerFees'' JNull) (JStr ''0'')),
                    er_return_message = extract_receipt_data P tx, er_schema_path_used = SUPERNOVA_PATH\<rparr>))))))))"

definition read_execution_result ::
    "py \<Rightarrow> sdk_schema \<Rightarrow> json \<Rightarrow> dict option \<Rightarrow> dict option \<Rightarrow> exec_result mres" where
  "read_execution_result P schema tx_response containing_block settling_block =
     mbind (lift_res (extract_tx tx_response)) (\<lambda>tx.
     mbind (case containing_block of
              None \<Rightarrow> Inr None
            | Some env \<Rightarrow> (if env = [] then Inr None
                           else mbind (lift_res (extract_block env)) (\<lambda>b. Inr (Some b)))) (\<lambda>containing.
       if (case containing of None \<Rightarrow> False
           | Some b \<Rightarrow> dget ''lastExecutionResult'' b \<noteq> None \<or> dget ''lastExecutionResultInfo'' b \<noteq> None)
       then (if schema = LegacyOnly then Inl SchemaUnknownError
             else lift_res (read_supernova P tx settling_block))
       else (if schema = NewOnly then Inl SchemaUnknownError
             else lift_res (read_andromeda P tx containing))))"

section \<open>The polling watcher\<close>

text \<open>The decoded answer to the n-th request; a status error or a body that is no JSON is an error.\<close>

record gateway =
  g_tx :: "nat \<Rightarrow> json mres"
  g_block :: "nat \<Rightarrow> int \<Rightarrow> int \<Rightarrow> json mres"

record receipt =
  r_intent_id :: uuid
  r_tx_hash :: string

definition ts_to_ms :: "py \<Rightarrow> json \<Rightarrow> int res" where
  "ts_to_ms P ts =
     (case py_int_val P (jor ts (JInt 0)) of
        Inr n \<Rightarrow> Inr (if n < 10 ^ 12 then n * 1000 else n)
      | Inl TypeError \<Rightarrow> Inr 0
      | Inl (ValueError m) \<Rightarrow> Inr 0
      | Inl e \<Rightarrow> Inl e)"

definition header_time_ms :: "py \<Rightarrow> dict \<Rightarrow> int res" where
  "header_time_ms P block = ts_to_ms P (dict_get block ''timestamp'' JNull)"

definition unwrap :: "string \<Rightarrow> json \<Rightarrow> dict mres" where
  "unwrap k payload =
     lift_res (rbind (jget ''data'' JNull payload) (\<lambda>data.
       rbind (jget k JNull (jor data (JObj []))) (\<lambda>t. as_dict (jor t (JObj [])))))"

definition fetch_tx :: "gateway \<Rightarrow> nat \<Rightarrow> dict mres" where
  "fetch_tx G n = mbind (g_tx G n) (unwrap ''transaction'')"

definition fetch_block :: "gateway \<Rightarrow> nat \<Rightarrow> int \<Rightarrow> int \<Rightarrow> dict mres" where
  "fetch_block G n sh nonce = mbind (g_block G n sh nonce) (unwrap ''block'')"

text \<open>The polling loop: at most \<^verbatim>\<open>max_polls\<close> requests, then the watcher gives up.\<close>

fun poll_tx :: "gateway \<Rightarrow> nat \<Rightarrow> nat \<Rightarrow> (dict \<times> nat) mres" where
  "poll_tx G 0 n = Inl WatcherError"
| "poll_tx G (Suc k) n =
     mbind (fetch_tx G n) (\<lambda>tx.
       if truthy (dict_get tx ''blockNonce'' JNull) then Inr (tx, Suc n) else poll_tx G k (Suc n))"

definition poll_until_included :: "py \<Rightarrow> gateway \<Rightarrow> nat \<Rightarrow> (dict \<times> dict \<times> nat) mres" where
  "poll_until_included P G max_polls =
     mbind (poll_tx G max_polls 0) (\<lambda>(tx, n).
     mbind (lift_res (py_int_val P (jor (dict_get tx ''sourceShard'' JNull) (JInt 0)))) (\<lambda>sh.
     mbind (lift_res (py_int_val P (dict_get tx ''blockNonce'' JNull))) (\<lambda>nonce.
     mbind (fetch_block G n sh nonce) (\<lambda>block. Inr (tx, block, Suc n)))))"

definition build_terminal_event :: "py \<Rightarrow> receipt \<Rightarrow> exec_result \<Rightarrow> json \<Rightarrow> anchor_event res" where
  "build_terminal_event P rc r ts =
     (if er_status r = Fail then
        Inr (ExecFailEvent (r_intent_id rc)
              (if er_return_message r = [] then ''execution_failed_on_chain'' else er_return_message r)
              (er_gas_used r) (er_return_message r) (er_executed_in_block_nonce r))
      else
        rbind (ts_to_ms P ts) (\<lambda>at.
          Inr (ExecSuccessEvent (r_intent_id rc) (er_executed_in_block_nonce r) (er_execution_result_hash r)
                (er_gas_used r) (er_developer_fees r) at (er_schema_path_used r))))"

definition tx_envelope :: "dict \<Rightarrow> json" where
  "tx_envelope tx = JObj [(''data'', JObj [(''transaction'', JObj tx)])]"

text \<open>The settlement loop: the first result that is not pending, with the block it came from.\<close>

fun poll_settled :: "py \<Rightarrow> sdk_schema \<Rightarrow> gateway \<Rightarrow> dict \<Rightarrow> dict \<Rightarrow> int \<Rightarrow> nat \<Rightarrow> nat \<Rightarrow> (exec_result \<times> dict) mres" where
  "poll_settled P schema G tx containing sh 0 n = Inl WatcherError"
| "poll_settled P schema G tx containing sh (Suc k) n =
     mbind (fetch_tx G n) (\<lambda>fresh.
     mbind (let e = dict_get fresh ''executedInBlockNonce'' JNull in
            if truthy e then lift_res (py_int_val P e)
            else mbind (lift_res (py_int_val P (jor (dict_get tx ''blockNonce'' JNull) (JInt 0)))) (\<lambda>b. Inr (b + 1)))
       (\<lambda>nonce.
     mbind (fetch_block G (Suc n) sh nonce) (\<lambda>settling.
     mbind (read_execution_result P schema (tx_envelope fresh) (Some containing) (Some settling)) (\<lambda>r.
       if er_status r \<noteq> Pending then Inr (r, settling)
       else poll_settled P schema G tx containing sh k (Suc (Suc n))))))"

text \<open>What follows the inclusion event.\<close>

definition watch_terminal ::
    "py \<Rightarrow> sdk_schema \<Rightarrow> gateway \<Rightarrow> nat \<Rightarrow> receipt \<Rightarrow> dict \<Rightarrow> dict \<Rightarrow> exec_result \<Rightarrow> nat \<Rightarrow> anchor_event mres" where
  "watch_terminal P schema G max_polls rc tx containing preliminary n =
     (if er_schema_path_used preliminary = ANDROMEDA_PATH then
        lift_res (build_terminal_event P rc preliminary (dict_get containing ''timestamp'' JNull))
      else
        mbind (lift_res (py_int_val P (jor (dict_get tx ''sourceShard'' JNull) (JInt 0)))) (\<lambda>sh.
        mbind (poll_settled P schema G tx containing sh max_polls n) (\<lambda>(r, settling).
          lift_res (build_terminal_event P rc r (dict_get settling ''timestamp'' JNull)))))"

definition include_event :: "py \<Rightarrow> receipt \<Rightarrow> dict \<Rightarrow> dict \<Rightarrow> anchor_event res" where
  "include_event P rc tx containing =
     rbind (py_int_val P (jor (dict_get tx ''blockNonce'' JNull) (JInt 0))) (\<lambda>nonce.
     rbind (py_int_val P (jor (dict_get tx ''sourceShard'' JNull) (JInt 0))) (\<lambda>sh.
     rbind (header_time_ms P containing) (\<lambda>ht.
       Inr (IncludeEvent (r_intent_id rc) (r_tx_hash rc) nonce
             (py_str P (jor (dict_get tx ''blockHash'' JNull) (JStr []))) sh ht 0))))"

definition watch :: "py \<Rightarrow> sdk_schema \<Rightarrow> gateway \<Rightarrow> nat \<Rightarrow> receipt \<Rightarrow> anchor_event list \<times> unit mres" where
  "watch P schema G max_polls rc =
     (case poll_until_included P G max_polls of
        Inl err \<Rightarrow> ([], Inl err)
      | Inr (tx, containing, n) \<Rightarrow>
          (case read_execution_result P schema (tx_envelope tx) (Some containing) None of
             Inl err \<Rightarrow> ([], Inl err)
           | Inr preliminary \<Rightarrow>
               (case include_event P rc tx containing of
                  Inl err \<Rightarrow> ([], Inl (PyErr err))
                | Inr inc \<Rightarrow>
                    (case watch_terminal P schema G max_polls rc tx containing preliminary n of
                       Inl err \<Rightarrow> ([inc], Inl err)
                     | Inr term \<Rightarrow> ([inc, term], Inr ())))))"

section \<open>Laws\<close>

lemma mbind_Inr: "mbind m f = Inr y \<longleftrightarrow> (\<exists>x. m = Inr x \<and> f x = Inr y)"
  by (cases m) auto

lemma lift_res_Inr: "lift_res m = Inr x \<longleftrightarrow> m = Inr x"
  by (cases m) auto

lemma rbind_eq_Inr: "rbind m f = Inr y \<longleftrightarrow> (\<exists>x. m = Inr x \<and> f x = Inr y)"
  by (cases m) auto

lemmas res_simps = mbind_Inr lift_res_Inr rbind_eq_Inr

lemma terminal_event_kind:
  assumes "build_terminal_event P rc r ts = Inr ev"
  shows "(er_status r = Fail \<and> (\<exists>a b c d. ev = ExecFailEvent (r_intent_id rc) a b c d)) \<or>
    (er_status r \<noteq> Fail \<and> (\<exists>a b c d e. ev = ExecSuccessEvent (r_intent_id rc) a b c d e (er_schema_path_used r)))"
  using assms by (auto simp: build_terminal_event_def res_simps split: if_splits)

lemma read_andromeda_path: "read_andromeda P tx cb = Inr r \<Longrightarrow> er_schema_path_used r = ANDROMEDA_PATH"
  unfolding read_andromeda_def Let_def by (auto simp: rbind_eq_Inr)

lemma read_supernova_path: "read_supernova P tx sb = Inr r \<Longrightarrow> er_schema_path_used r = SUPERNOVA_PATH"
  unfolding read_supernova_def Let_def by (cases sb) (auto simp: rbind_eq_Inr)

lemma read_paths:
  assumes "read_execution_result P schema resp cb sb = Inr r"
  shows "er_schema_path_used r \<in> set SCHEMA_PATHS"
proof -
  obtain tx c where "read_supernova P tx sb = Inr r \<or> read_andromeda P tx c = Inr r"
    using assms unfolding read_execution_result_def
    by (auto simp: mbind_Inr lift_res_Inr split: if_split_asm)
  then have "er_schema_path_used r = SUPERNOVA_PATH \<or> er_schema_path_used r = ANDROMEDA_PATH"
    using read_supernova_path read_andromeda_path by blast
  then show ?thesis by (auto simp: SCHEMA_PATHS_def ANDROMEDA_PATH_def SUPERNOVA_PATH_def)
qed

lemma poll_settled_result:
  "poll_settled P schema G tx cb sh k n = Inr (r, st) \<Longrightarrow>
   er_status r \<noteq> Pending \<and> (\<exists>resp. read_execution_result P schema resp (Some cb) (Some st) = Inr r)"
  by (induction k arbitrary: n) (auto simp: mbind_Inr split: if_splits)

lemma watch_terminal_kind:
  assumes "watch_terminal P schema G mp rc tx cb pre n = Inr ev"
    and "read_execution_result P schema resp (Some cb) None = Inr pre"
  obtains r :: exec_result where "er_schema_path_used r \<in> set SCHEMA_PATHS"
    and "(er_status r = Fail \<and> (\<exists>a b c d. ev = ExecFailEvent (r_intent_id rc) a b c d)) \<or>
      (er_status r \<noteq> Fail \<and> (\<exists>a b c d e. ev = ExecSuccessEvent (r_intent_id rc) a b c d e (er_schema_path_used r)))"
proof (cases "er_schema_path_used pre = ANDROMEDA_PATH")
  case True
  with assms(1) have "build_terminal_event P rc pre (dict_get cb ''timestamp'' JNull) = Inr ev"
    by (simp add: watch_terminal_def lift_res_Inr)
  with that [OF read_paths [OF assms(2)]] terminal_event_kind show ?thesis by blast
next
  case False
  with assms(1) obtain sh r st where "poll_settled P schema G tx cb sh mp n = Inr (r, st)"
    and b: "build_terminal_event P rc r (dict_get st ''timestamp'' JNull) = Inr ev"
    by (auto simp: watch_terminal_def res_simps)
  then obtain resp' where "read_execution_result P schema resp' (Some cb) (Some st) = Inr r"
    using poll_settled_result by blast
  with that [OF read_paths] terminal_event_kind [OF b] show ?thesis by blast
qed

end
