(* ===== verification/Watcher_Props.thy ===== *)
theory Watcher_Props
  imports Watcher
begin

text \<open>Properties of the reader and of the polling watcher, with the state machine they feed.\<close>


text \<open>A gateway that always answers with the same transaction and the same block.\<close>

definition constant_gateway :: "dict \<Rightarrow> dict \<Rightarrow> gateway" where
  "constant_gateway tx block =
     \<lparr>g_tx = \<lambda>_. Inr (JObj [(''data'', JObj [(''transaction'', JObj tx)])]),
      g_block = \<lambda>_ _ _. Inr (JObj [(''data'', JObj [(''block'', JObj block)])])\<rparr>"

definition sample_py :: py where
  "sample_py = \<lparr>py_str = \<lambda>j. (case j of JStr s \<Rightarrow> s | JInt i \<Rightarrow> show_int i | _ \<Rightarrow> []), py_float_int = \<lambda>_. Inl TypeError\<rparr>"

lemma fetch_constant [simp]:
  "fetch_tx (constant_gateway tx block) n = Inr tx"
  "fetch_block (constant_gateway tx block) n sh nonce = Inr block"
  by (cases tx; simp add: fetch_tx_def constant_gateway_def unwrap_def jor_def as_dict_def)
     (cases block; simp add: fetch_block_def constant_gateway_def unwrap_def jor_def as_dict_def)

lemma sample_watch:
  "watch sample_py Dual
     (constant_gateway [(''blockNonce'', JInt 9), (''status'', JStr ''pending'')] [(''timestamp'', JInt 5)]) 3
     \<lparr>r_intent_id = ''i'', r_tx_hash = ''tx''\<rparr>
   = ([IncludeEvent ''i'' ''tx'' 9 [] 0 5000 0, ExecSuccessEvent ''i'' 9 [] 0 ''0'' 5000 ''andromeda_top_level''], Inr ())"
proof -
  have low: "py_lower ''pending'' = ''pending''" by (simp add: py_lower_def lower_char_def)
  have poll: "poll_until_included sample_py
      (constant_gateway [(''blockNonce'', JInt 9), (''status'', JStr ''pending'')] [(''timestamp'', JInt 5)]) 3
      = Inr ([(''blockNonce'', JInt 9), (''status'', JStr ''pending'')], [(''timestamp'', JInt 5)], 2)"
    by (simp add: poll_until_included_def numeral_3_eq_3 dict_get_def py_int_val_def jor_def)
  show ?thesis
    unfolding watch_def poll
    by (simp add: tx_envelope_def read_execution_result_def extract_tx_def jor_def as_dict_def extract_block_def
        read_andromeda_def is_tx_included_successfully_def dict_get_def py_int_val_def sample_py_def low
        andromeda_status_def extract_receipt_data_def include_event_def header_time_ms_def ts_to_ms_def
        watch_terminal_def build_terminal_event_def ANDROMEDA_PATH_def)
qed


text \<open>
  On the Andromeda path a transaction whose status is still pending is reported as
  settled: whenever the reader's answer is not a failure, the watcher yields a success
  event, and the machine moves to SETTLED unless a schema bound is violated.
\<close>

theorem andromeda_pending_settles:
  assumes "poll_until_included P G max_polls = Inr (tx, cb, n)"
    and "read_execution_result P schema (tx_envelope tx) (Some cb) None = Inr pre"
    and "er_schema_path_used pre = ANDROMEDA_PATH" and "er_status pre = Pending"
    and "include_event P rc tx cb = Inr inc" and "ts_to_ms P (dict_get cb ''timestamp'' JNull) = Inr at"
  shows "watch P schema G max_polls rc =
    ([inc, ExecSuccessEvent (r_intent_id rc) (er_executed_in_block_nonce pre) (er_execution_result_hash pre)
       (er_gas_used pre) (er_developer_fees pre) at ANDROMEDA_PATH], Inr ())"
  using assms by (simp add: watch_def watch_terminal_def build_terminal_event_def)

theorem andromeda_pending_settles_witness:
  "\<exists>inc term. watch sample_py Dual
     (constant_gateway [(''blockNonce'', JInt 9), (''status'', JStr ''pending'')] [(''timestamp'', JInt 5)]) 3
     \<lparr>r_intent_id = ''i'', r_tx_hash = ''tx''\<rparr> = ([inc, ExecSuccessEvent ''i'' 9 [] 0 ''0'' 5000 ANDROMEDA_PATH], Inr ())"
proof -
  let ?tx = "[(''blockNonce'', JInt 9), (''status'', JStr ''pending'')]" and ?cb = "[(''timestamp'', JInt 5)]"
  have low: "py_lower ''pending'' = ''pending''" by (simp add: py_lower_def lower_char_def)
  have poll: "poll_until_included sample_py (constant_gateway ?tx ?cb) 3 = Inr (?tx, ?cb, 2)"
    by (simp add: poll_until_included_def numeral_3_eq_3 dict_get_def py_int_val_def jor_def)
  have rd: "read_execution_result sample_py Dual (tx_envelope ?tx) (Some ?cb) None =
      Inr \<lparr>er_status = Pending, er_executed_in_block_nonce = 9, er_execution_result_hash = [], er_gas_used = 0,
           er_developer_fees = ''0'', er_return_message = [], er_schema_path_used = ANDROMEDA_PATH\<rparr>"
    by (simp add: tx_envelope_def read_execution_result_def extract_tx_def jor_def as_dict_def extract_block_def
        read_andromeda_def is_tx_included_successfully_def dict_get_def py_int_val_def sample_py_def low
        andromeda_status_def extract_receipt_data_def)
  have inc: "include_event sample_py \<lparr>r_intent_id = ''i'', r_tx_hash = ''tx''\<rparr> ?tx ?cb = Inr (IncludeEvent ''i'' ''tx'' 9 [] 0 5000 0)"
    and ts: "ts_to_ms sample_py (dict_get ?cb ''timestamp'' JNull) = Inr 5000"
    by (simp_all add: include_event_def header_time_ms_def ts_to_ms_def dict_get_def py_int_val_def jor_def sample_py_def)
  show ?thesis using andromeda_pending_settles [OF poll rd _ _ inc ts] by simp
qed

text \<open>
  Under Supernova a success needs evidence in the settling block. The reader answers
  success only if no failure signal fired, the block's result counts at least one
  executed transaction and one of its miniblocks is a TxBlock, whatever the
  transaction's own status says; any failure signal gives a failure.
\<close>

theorem supernova_success_needs_block_evidence:
  assumes "supernova_status P er tx = Inr st"
  shows "(st = Success \<longleftrightarrow>
      signal_invalid_block_miniblock er = Inr False \<and> signal_failed_tx_count P er = Inr False \<and>
      \<not> signal_tx_miniblock_type_invalid tx \<and> has_tx_block er = Inr True \<and>
      (\<exists>n. int_or P 0 (jor (dict_get er ''executedTxCount'' JNull) (JInt 0)) = Inr n \<and> 0 < n)) \<and>
    (st = Fail \<longleftrightarrow>
      signal_invalid_block_miniblock er = Inr True \<or> signal_failed_tx_count P er = Inr True \<or>
      signal_tx_miniblock_type_invalid tx)"
  using assms
  by (auto simp: supernova_status_def classify_supernova_non_fail_def rbind_eq_Inr split: if_splits)

theorem supernova_success_needs_block_evidence_witness:
  "supernova_status sample_py [(''failedTxCount'', JInt 1)] [] = Inr Fail \<and>
   signal_failed_tx_count sample_py [(''failedTxCount'', JInt 1)] = Inr True"
proof -
  have "supernova_status sample_py [(''failedTxCount'', JInt 1)] [] = Inr Fail"
    by (simp add: supernova_status_def signal_invalid_block_miniblock_def signal_failed_tx_count_def
        py_iter_def jor_def dict_get_def int_or_def py_int_val_def)
  with supernova_success_needs_block_evidence [OF this] show ?thesis
    by (simp add: signal_invalid_block_miniblock_def py_iter_def jor_def dict_get_def
        signal_tx_miniblock_type_invalid_def)
qed

end
