(* ===== verification/Witness.thy ===== *)
theory Witness
  imports Jsonl Read_Laws
begin

text \<open>
  \<^verbatim>\<open>src/dsm/witness.py\<close>: a witness keeps, outside the storage, a log of snapshots of the
  shards (entry count and tip hash) with a keyed digest over each, and later compares a
  shard with the last snapshot of it. A record is the dict the code builds; records read
  back are whatever the log file holds.
\<close>

definition WITNESS_READ :: int where "WITNESS_READ = 100000"

record witness =
  wt_key :: string
  wt_log :: jsonl

definition witness_payload :: "string \<Rightarrow> json \<Rightarrow> json \<Rightarrow> json \<Rightarrow> json \<Rightarrow> json" where
  "witness_payload key sid ts cnt tp =
     JObj [(''shard_id'', sid), (''timestamp'', ts), (''entry_count'', cnt), (''tip_hash'', tp), (''witness_key'', JStr key)]"

definition compute_witness_hash :: "sha \<Rightarrow> string \<Rightarrow> json \<Rightarrow> json \<Rightarrow> json \<Rightarrow> json \<Rightarrow> string" where
  "compute_witness_hash sha key sid ts cnt tp = sha (dumps_sorted compact_ascii (witness_payload key sid ts cnt tp))"

section \<open>Capture\<close>

text \<open>A value that can be sliced; the log message takes the first twelve items of the tip.\<close>

definition sliceable :: "json \<Rightarrow> bool" where
  "sliceable j = (case j of JStr _ \<Rightarrow> True | JList _ \<Rightarrow> True | _ \<Rightarrow> False)"

definition witness_record :: "sha \<Rightarrow> string \<Rightarrow> datetime \<Rightarrow> string \<Rightarrow> string \<Rightarrow> entry list \<Rightarrow> (string \<times> json) list" where
  "witness_record sha key now wid sid all_entries =
     (let cnt = JInt (int (length all_entries));
          tp = (if truthy (hash (hd all_entries)) then hash (hd all_entries) else JStr ''no_hash'');
          ts = JStr (isoformat now)
      in [(''witness_id'', JStr wid), (''shard_id'', JStr sid), (''timestamp'', ts), (''entry_count'', cnt),
          (''tip_hash'', tp), (''witness_hash'', JStr (compute_witness_hash sha key (JStr sid) ts cnt tp)),
          (''signed'', JBool (key \<noteq> []))])"

text \<open>
  The storage, the clock and the fresh identifier are arguments; \<open>None\<close> is the answer for an
  empty shard. The record is written before its tip is sliced for the message.
\<close>

definition capture :: "sha \<Rightarrow> datetime \<Rightarrow> string \<Rightarrow> fs \<Rightarrow> string \<Rightarrow> (witness, (string \<times> json) list option) op" where
  "capture sha now wid s sid w =
     (case snd (read sid 0 1 s) of
        Inl err \<Rightarrow> (w, Inl err)
      | Inr [] \<Rightarrow> (w, Inr None)
      | Inr (_ # _) \<Rightarrow>
          (case snd (read sid 0 WITNESS_READ s) of
             Inl err \<Rightarrow> (w, Inl err)
           | Inr [] \<Rightarrow> (w, Inl IndexError)
           | Inr (e # es) \<Rightarrow>
               (let d = witness_record sha (wt_key w) now wid sid (e # es);
                    w' = w\<lparr>wt_log := jsonl_append (dumps_sorted spaced_raw (JObj d)) (wt_log w)\<rparr>
                in if truthy (hash e) \<and> \<not> sliceable (hash e) then (w', Inl TypeError) else (w', Inr (Some d)))))"

fun capture_ids :: "sha \<Rightarrow> (nat \<Rightarrow> datetime \<times> string) \<Rightarrow> nat \<Rightarrow> fs \<Rightarrow> string list \<Rightarrow> (witness, (string \<times> json) list list) op" where
  "capture_ids sha fresh n s [] w = (w, Inr [])"
| "capture_ids sha fresh n s (sid # ids) w =
     sbind (capture sha (fst (fresh n)) (snd (fresh n)) s sid) (\<lambda>r.
     sbind (capture_ids sha fresh (Suc n) s ids) (\<lambda>rs.
       ret (case r of None \<Rightarrow> rs | Some d \<Rightarrow> d # rs))) w"

text \<open>\<open>fresh\<close> gives the time and the identifier of the n-th capture of the loop.\<close>

definition capture_all ::
    "sha \<Rightarrow> (nat \<Rightarrow> datetime \<times> string) \<Rightarrow> datetime \<Rightarrow> (string \<Rightarrow> datetime) \<Rightarrow> fs \<Rightarrow> (witness, (string \<times> json) list list) op" where
  "capture_all sha fresh now mtime s =
     sbind (of_res (list_shards now mtime s)) (\<lambda>metas. capture_ids sha fresh 0 s (map sm_shard_id metas))"

section \<open>Verification\<close>

definition read_log :: "witness \<Rightarrow> json list" where
  "read_log w = jsonl_read_stripped (wt_log w)"

definition verify_record :: "sha \<Rightarrow> string \<Rightarrow> json \<Rightarrow> bool res" where
  "verify_record sha key r =
     rbind (jsub ''shard_id'' r) (\<lambda>sid.
     rbind (jsub ''timestamp'' r) (\<lambda>ts.
     rbind (jsub ''entry_count'' r) (\<lambda>cnt.
     rbind (jsub ''tip_hash'' r) (\<lambda>tp.
     rbind (jget ''witness_hash'' JNull r) (\<lambda>h.
       Inr (JStr (compute_witness_hash sha key sid ts cnt tp) = h))))))"

fun records_of :: "string \<Rightarrow> json list \<Rightarrow> json list res" where
  "records_of sid [] = Inr []"
| "records_of sid (r # rs) =
     rbind (jsub ''shard_id'' r) (\<lambda>k.
     rbind (records_of sid rs) (\<lambda>ks. Inr (if k = JStr sid then r # ks else ks)))"

datatype witness_status = W_OK | W_DIVERGED | W_NO_WITNESS

record witness_report =
  wr_witness_valid :: bool
  wr_state_matches :: bool
  wr_current_tip :: json
  wr_witnessed_tip :: json
  wr_current_count :: nat
  wr_witnessed_count :: json
  wr_timestamp :: json

definition verify_shard_against_witness ::
    "sha \<Rightarrow> fs \<Rightarrow> string \<Rightarrow> witness \<Rightarrow> (witness_status \<times> witness_report option) res" where
  "verify_shard_against_witness sha s sid w =
     rbind (records_of sid (read_log w)) (\<lambda>rs.
       if rs = [] then Inr (W_NO_WITNESS, None)
       else
         (let latest = last rs in
          rbind (verify_record sha (wt_key w) latest) (\<lambda>valid.
          rbind (snd (read sid 0 WITNESS_READ s)) (\<lambda>all_entries.
            let cnt = length all_entries;
                tp = (if all_entries = [] then JStr ''empty'' else hash (hd all_entries))
            in rbind (jsub ''entry_count'' latest) (\<lambda>wc.
               rbind (as_num wc) (\<lambda>n.
               rbind (jsub ''tip_hash'' latest) (\<lambda>wtip.
               rbind (jsub ''timestamp'' latest) (\<lambda>ts.
                 let matches = (if int cnt = n then tp = wtip else n \<le> int cnt)
                 in Inr (if valid \<and> matches then W_OK else W_DIVERGED,
                         Some \<lparr>wr_witness_valid = valid, wr_state_matches = matches, wr_current_tip = tp,
                               wr_witnessed_tip = wtip, wr_current_count = cnt, wr_witnessed_count = wc,
                               wr_timestamp = ts\<rparr>))))))))) "

section \<open>Laws\<close>

text \<open>A captured record is the last one the log holds for its shard.\<close>

lemma witness_record_fields:
  "dget ''shard_id'' (witness_record sha key now wid sid es) = Some (JStr sid)"
  "dget ''timestamp'' (witness_record sha key now wid sid es) = Some (JStr (isoformat now))"
  "dget ''entry_count'' (witness_record sha key now wid sid es) = Some (JInt (int (length es)))"
  "dget ''tip_hash'' (witness_record sha key now wid sid es)
     = Some (if truthy (hash (hd es)) then hash (hd es) else JStr ''no_hash'')"
  "dget ''witness_hash'' (witness_record sha key now wid sid es)
     = Some (JStr (compute_witness_hash sha key (JStr sid) (JStr (isoformat now)) (JInt (int (length es)))
         (if truthy (hash (hd es)) then hash (hd es) else JStr ''no_hash'')))"
  by (simp_all add: witness_record_def Let_def)

end
