(* ===== verification/Witness_Props.thy ===== *)
theory Witness_Props
  imports Witness Samples
begin

text \<open>
  Laws and properties of the witness: what it reports of an honest shard that grows, and
  what it can detect of a rewritten one.
\<close>

section \<open>Reading what the verifier loads\<close>

lemma load_entries_append:
  "load_entries xs = Inr es \<Longrightarrow> load_entries (xs @ ys) = rbind (load_entries ys) (\<lambda>fs. Inr (es @ fs))"
proof (induction xs arbitrary: es)
  case Nil
  then show ?case by (cases "load_entries ys") auto
next
  case (Cons x xs)
  then show ?case by (cases "load_entries ys") (auto simp: rbind_Inr split: sum.splits if_splits)
qed

lemma load_entries_rev: "load_entries evs = Inr es \<Longrightarrow> load_entries (rev evs) = Inr (rev es)"
proof (induction evs arbitrary: es)
  case (Cons ev evs)
  show ?case
  proof (cases "entry_from_event_data ev")
    case (Inl err)
    with Cons show ?thesis by (auto simp: load_entries_append split: if_splits)
  next
    case (Inr e)
    with Cons obtain fs where "load_entries evs = Inr fs" "es = e # fs" by (auto simp: rbind_Inr)
    with Cons Inr show ?thesis by (simp add: load_entries_append)
  qed
qed simp

lemma read_loop_loaded:
  "load_entries (events_of_lines ls) = Inr es \<Longrightarrow>
   read_loop 0 limit 0 co res ls = Inr (rev res @ take (nat (max 1 (limit - co))) es)"
proof (induction ls arbitrary: co res es)
  case Nil
  then show ?case by (simp add: events_of_lines_def List.map_filter_def)
next
  case (Cons l ls)
  show ?case
  proof (cases "event_of_line l")
    case None
    with Cons show ?thesis by (simp add: events_of_lines_def List.map_filter_def)
  next
    case (Some ev)
    then have ev: "load_entries (ev # events_of_lines ls) = Inr es"
      using Cons.prems by (simp add: events_of_lines_def List.map_filter_def)
    show ?thesis
    proof (cases "entry_from_event_data ev")
      case (Inl err)
      with ev Some Cons.IH show ?thesis by (simp split: if_splits)
    next
      case (Inr e)
      with ev obtain fs where fs: "load_entries (events_of_lines ls) = Inr fs" "es = e # fs" by (auto simp: rbind_Inr)
      show ?thesis
      proof (cases "limit \<le> co + 1")
        case True
        then have "max 1 (limit - co) = 1" by linarith
        with True Some Inr fs show ?thesis by simp
      next
        case False
        then have "nat (max 1 (limit - co)) = Suc (nat (max 1 (limit - (co + 1))))" by (simp add: max_def)
        with False Some Inr fs Cons.IH [OF fs(1)] show ?thesis by simp
      qed
    qed
  qed
qed

lemma events_of_lines_rev: "events_of_lines (rev ls) = rev (events_of_lines ls)"
  by (simp add: events_of_lines_def List.map_filter_def rev_map rev_filter)

text \<open>The first page of a shard is the newest part of what the verifier loads, whatever the files hold.\<close>

lemma read_loaded:
  assumes "load_entries (snd (iter_shard_events sid s)) = Inr es"
    and "dget (family_name sid) (fams s) \<noteq> None \<or> mono_files s = []"
  shows "snd (read sid 0 limit s) = Inr (take (nat (max 1 limit)) (rev es))"
proof (cases "dget (family_name sid) (fams s)")
  case None
  then have "es = []"
    using assms(1) by (simp add: iter_shard_events_def get_shard_family_dir_def get_segment_files_def empty_family_def)
  with None assms(2) show ?thesis by (simp add: read_def read_monolithic_def)
next
  case (Some f)
  let ?segs = "get_segment_files (family_name sid) f"
  let ?ls = "concat (map (\<lambda>(n, txt). rev (read_lines txt)) (rev ?segs))"
  have "snd (iter_shard_events sid s) = concat (map (\<lambda>(n, txt). events_of_lines (read_lines txt)) ?segs)"
    using Some by (simp add: iter_shard_events_def get_shard_family_dir_def)
  moreover have "rev (concat (map (\<lambda>(n, txt). events_of_lines (read_lines txt)) ?segs)) = events_of_lines ?ls"
    by (simp flip: events_of_lines_concat add: rev_concat rev_map comp_def case_prod_unfold events_of_lines_rev)
  ultimately have "load_entries (events_of_lines ?ls) = Inr (rev es)"
    using load_entries_rev [OF assms(1)] by simp
  from read_loop_loaded [OF this, of limit 0 "[]"] Some show ?thesis
    by (simp add: read_def read_segmented_def get_segment_files_ordered_def get_shard_family_dir_def)
qed

section \<open>The log after a capture\<close>

text \<open>A witness whose log is made of complete lines, each a dict with a shard id.\<close>

definition witness_ok :: "string \<Rightarrow> witness \<Rightarrow> bool" where
  "witness_ok sid w = (jsonl_complete (wt_log w) \<and> (\<exists>rs. records_of sid (read_log w) = Inr rs))"

lemma records_of_append:
  "records_of sid rs = Inr ks \<Longrightarrow> jsub ''shard_id'' r = Inr (JStr sid) \<Longrightarrow> records_of sid (rs @ [r]) = Inr (ks @ [r])"
  by (induction rs arbitrary: ks) (auto simp: rbind_Inr)

lemma capture_inv:
  assumes inv: "shard_inv sha sid s es" and mono: "mono_files s = []" and ne: "es \<noteq> []"
  shows "capture sha now wid s sid w =
    (let d = witness_record sha (wt_key w) now wid sid (take 100000 (rev es))
     in (w\<lparr>wt_log := jsonl_append (dumps_sorted spaced_raw (JObj d)) (wt_log w)\<rparr>, Inr (Some d)))"
proof -
  obtain us u where es: "es = us @ [u]" using ne by (metis rev_exhaust)
  then obtain h where "hash u = JStr h" using shard_inv_stored [OF inv] by (auto simp: sealed_def)
  moreover have "snd (read sid 0 WITNESS_READ s) = Inr (take 100000 (u # rev us))"
    using read_inv [OF inv mono, of 0 WITNESS_READ] es by (simp add: WITNESS_READ_def)
  moreover have "take 100000 (u # rev us) = u # take 99999 (rev us)" by (simp add: take_Cons')
  ultimately show ?thesis
    using read_inv [OF inv mono, of 0 1] es by (simp add: capture_def sliceable_def Let_def)
qed

lemma check_after_capture:
  assumes inv: "shard_inv sha sid s es" and mono: "mono_files s = []" and ne: "es \<noteq> []"
    and w: "witness_ok sid w" and cap: "capture sha now wid s sid w = (w', Inr (Some d))"
    and rd: "snd (read sid 0 WITNESS_READ s') = Inr fs"
  shows "\<exists>rep. verify_shard_against_witness sha s' sid w' =
      Inr (if (if length fs = min 100000 (length es) then (if fs = [] then JStr ''empty'' else hash (hd fs)) = tip es
               else min 100000 (length es) \<le> length fs) then W_OK else W_DIVERGED, Some rep) \<and>
    wr_witness_valid rep \<and> wr_current_count rep = length fs \<and> wr_witnessed_count rep = JInt (int (min 100000 (length es)))"
proof -
  let ?r = "take 100000 (rev es)"
  have d: "d = witness_record sha (wt_key w) now wid sid ?r"
    and w': "w' = w\<lparr>wt_log := jsonl_append (dumps_sorted spaced_raw (JObj d)) (wt_log w)\<rparr>"
    using cap capture_inv [OF inv mono ne, of now wid w] by (auto simp: Let_def)
  have hd: "hash (hd ?r) = tip es" using ne by (simp add: tip_def hd_rev)
  obtain h where h: "tip es = JStr h"
    using tip_cases [OF shard_invD(1) [OF inv]] ne shard_inv_stored [OF inv] last_in_set [OF ne]
    by (fastforce simp: tip_def sealed_def)
  have tr: "truthy (tip es)"
    using tip_truthy [OF ne] chained_hash_ok [OF shard_invD(1) [OF inv]] hash_ok_truthy by blast
  then have hne: "h \<noteq> []" using h by simp
  obtain d' where d': "norm (JObj d) = JObj d'" using norm_JObj_ex by blast
  have wf: "wf_json (JObj d)" unfolding d witness_record_def Let_def hd using h by simp
  then have "wf_json (JObj d')" using d' wf_json_norm [of "JObj d"] by simp
  moreover have "wt_log w' = append_object spaced_raw d' (wt_log w)"
    by (simp add: w' append_object_def dumps_sorted_def d' del: dumps_raw.simps norm.simps)
  ultimately have log: "read_log w' = read_log w @ [norm (JObj d)]"
    using jsonl_stripped.wr_log [of "wt_log w" d' spaced_raw] w d' by (simp add: read_log_def witness_ok_def)
  have key: "wt_key w' = wt_key w" by (simp add: w')
  have dist: "distinct (map fst d)" using wf by simp
  have f: "jsub k (norm (JObj d)) = (case dget k d of None \<Rightarrow> Inl (KeyError k) | Some v \<Rightarrow> Inr (norm v))" for k
    using dget_norm [OF dist, of k] by (simp split: option.splits)
  have g: "jget ''witness_hash'' JNull (norm (JObj d)) = Inr (case dget ''witness_hash'' d of None \<Rightarrow> JNull | Some v \<Rightarrow> norm v)"
    by (rule jget_norm [OF dist])
  note fields = witness_record_fields [of sha "wt_key w" now wid sid ?r, folded d, unfolded hd, simplified h truthy.simps hne not_False_eq_True if_True]
  have sid: "jsub ''shard_id'' (norm (JObj d)) = Inr (JStr sid)" using f fields by simp
  obtain rs where "records_of sid (read_log w) = Inr rs" using w by (auto simp: witness_ok_def)
  then have recs: "records_of sid (read_log w') = Inr (rs @ [norm (JObj d)])"
    unfolding log using sid by (rule records_of_append)
  have "verify_record sha (wt_key w') (norm (JObj d)) = Inr True"
    unfolding verify_record_def f g key using fields by simp
  then show ?thesis
    unfolding verify_shard_against_witness_def recs rbind_simps
    using rd f fields h hne by (auto simp: as_num_def Let_def min_def simp del: norm.simps(2))
qed

section \<open>Properties\<close>

text \<open>A capture after a history, and what the check says of the shard after more appends.\<close>

lemma check_history:
  assumes hist: "\<forall>a \<in> set xs. request_ok sid a" and "xs \<noteq> []" and more: "\<forall>a \<in> set ys. request_ok sid a"
    and w: "witness_ok sid w"
  shows "\<exists>w' d rep. capture sha now wid (run_appends sha xs empty_fs) sid w = (w', Inr (Some d)) \<and>
    verify_shard_against_witness sha (run_appends sha (xs @ ys) empty_fs) sid w' =
      Inr (if (if min 100000 (length xs + length ys) = min 100000 (length xs)
               then tip (shard_log sid (run_appends sha (xs @ ys) empty_fs)) = tip (shard_log sid (run_appends sha xs empty_fs))
               else True) then W_OK else W_DIVERGED, Some rep) \<and>
    wr_current_count rep = min 100000 (length xs + length ys)"
proof -
  let ?s = "run_appends sha xs empty_fs" and ?t = "run_appends sha (xs @ ys) empty_fs"
  let ?es = "shard_log sid ?s" and ?fs = "shard_log sid ?t"
  have ok: "\<forall>a \<in> set (xs @ ys). request_ok sid a" using hist more by auto
  note inv = history_inv [OF hist] and inv2 = history_inv [OF ok]
  have len: "length ?es = length xs" "length ?fs = length xs + length ys"
    using history_length [OF hist] history_length [OF ok] by simp_all
  then have ne: "?es \<noteq> []" "?fs \<noteq> []" using \<open>xs \<noteq> []\<close> by auto
  obtain w' d where cap: "capture sha now wid ?s sid w = (w', Inr (Some d))"
    using capture_inv [OF inv history_mono ne(1)] by (simp add: Let_def)
  have rd: "snd (read sid 0 WITNESS_READ ?t) = Inr (take 100000 (rev ?fs))"
    using read_inv [OF inv2 history_mono, of 0 WITNESS_READ] by (simp add: WITNESS_READ_def)
  have "take 100000 (rev ?fs) \<noteq> []" "hash (hd (take 100000 (rev ?fs))) = tip ?fs"
    using ne(2) by (simp_all add: tip_def hd_rev)
  moreover have "length (take 100000 (rev ?fs)) = min 100000 (length xs + length ys)" using len by simp
  ultimately show ?thesis
    using cap check_after_capture [OF inv history_mono ne(1) w cap rd] len by (auto simp: min_def split: if_splits)
qed

text \<open>
  A witness accepts growth. After a capture of an honest shard with fewer than a hundred
  thousand entries, whatever is appended to it later, the comparison answers OK and
  reports the number of entries it read.
\<close>

theorem witness_accepts_growth:
  assumes "\<forall>a \<in> set xs. request_ok sid a" and "xs \<noteq> []" and "\<forall>a \<in> set ys. request_ok sid a"
    and "witness_ok sid w" and "length xs < 100000"
  shows "\<exists>w' d rep. capture sha now wid (run_appends sha xs empty_fs) sid w = (w', Inr (Some d)) \<and>
    verify_shard_against_witness sha (run_appends sha (xs @ ys) empty_fs) sid w' = Inr (W_OK, Some rep) \<and>
    wr_current_count rep = min 100000 (length xs + length ys)"
proof -
  have "min 100000 (length xs + length ys) = min 100000 (length xs) \<Longrightarrow> ys = []"
    using assms(5) by (auto simp: min_def split: if_splits)
  then show ?thesis
    using check_history [OF assms(1-4), of sha now wid] by (auto split: if_splits)
qed

lemma witness_ok_None [simp]: "witness_ok sid \<lparr>wt_key = k, wt_log = None\<rparr>"
  by (simp add: witness_ok_def read_log_def jsonl_read_stripped_def file_text_def events_of_lines_def List.map_filter_def)

theorem witness_accepts_growth_witness:
  "\<exists>w' d rep. capture (\<lambda>m. m) sample_time ''id'' (run_appends (\<lambda>m. m) [(sample_time, sample_entry ''alpha'' ''one'')] empty_fs)
      ''alpha'' \<lparr>wt_key = ''k'', wt_log = None\<rparr> = (w', Inr (Some d)) \<and>
    verify_shard_against_witness (\<lambda>m. m) (run_appends (\<lambda>m. m) ([(sample_time, sample_entry ''alpha'' ''one'')] @
      [(sample_time, sample_entry ''alpha'' ''two'')]) empty_fs) ''alpha'' w' = Inr (W_OK, Some rep) \<and> wr_current_count rep = 2"
  using witness_accepts_growth [of "[(sample_time, sample_entry ''alpha'' ''one'')]" "''alpha''"
      "[(sample_time, sample_entry ''alpha'' ''two'')]" "\<lparr>wt_key = ''k'', wt_log = None\<rparr>" "\<lambda>m. m" sample_time "''id''"]
  by (simp add: sample_ok numeral_2_eq_2)

text \<open>The tip of a longer honest log differs, unless the digest collides.\<close>

lemma chained_tip_differs:
  assumes "chained sha JNull (es @ fs)" and "es \<noteq> []" and "fs \<noteq> []"
    and inj: "inj_on sha (message ` set (es @ fs))"
  shows "tip (es @ fs) \<noteq> tip es"
proof
  assume eq: "tip (es @ fs) = tip es"
  let ?gs = "es @ fs"
  have ch: "chained sha JNull es" using assms(1) by (simp add: chained_append)
  have ok: "\<forall>e \<in> set es \<union> set ?gs. hash_ok sha e \<and> json_fields e \<and> message e \<in> message ` set ?gs \<and> inj_on sha (message ` set ?gs)"
    using chained_hash_ok [OF assms(1)] chained_stored [OF assms(1)] sealed_json_fields inj by auto
  have lk: "linked (\<lambda>e. norm (prev_hash e)) (\<lambda>e. norm (hash e)) es" "linked (\<lambda>e. norm (prev_hash e)) (\<lambda>e. norm (hash e)) ?gs"
    using linked_map [OF chained_linked [OF ch], of norm] linked_map [OF chained_linked [OF assms(1)], of norm] by simp_all
  have "norm (hash (last es)) = norm (hash (last ?gs))" using eq assms(2) by (simp add: tip_def)
  then have "map covered es = map covered (drop (length fs) ?gs)"
    using chain.same_tip_common_suffix [OF _ assms(2) lk ok] by simp
  moreover obtain e es' where es: "es = e # es'" using assms(2) by (cases es) auto
  moreover have "drop (length fs) ?gs \<noteq> []" using assms(2) by (simp del: drop_append)
  then obtain g gs' where gs: "drop (length fs) ?gs = g # gs'" by (cases "drop (length fs) ?gs") auto
  ultimately have "covered e = covered g" by simp
  then have "norm (prev_hash g) = norm (prev_hash e)" using covered_prev [of g e] by simp
  then have "norm (prev_hash g) = JNull" using ch es by simp
  moreover obtain hs where hs: "?gs = hs @ g # gs'" "length hs = length fs"
    using gs append_take_drop_id [of "length fs" ?gs] by (metis length_append length_take min.absorb2 le_add2)
  then have "prev_hash g = tip hs" "hs \<noteq> []"
    using assms(1,3) chained_append [of sha JNull hs "g # gs'"] by (auto simp: tip_def simp del: append_eq_append_conv)
  moreover have "\<forall>e \<in> set hs. truthy (hash e)"
    using chained_hash_ok [OF assms(1)] hash_ok_truthy hs(1) by (metis UnI1 set_append)
  ultimately have "truthy (prev_hash g)" by (simp add: tip_truthy)
  with \<open>norm (prev_hash g) = JNull\<close> show False by (cases "prev_hash g") auto
qed

text \<open>
  Above its reading limit the witness raises a false alarm. A capture of an honest shard
  with at least a hundred thousand entries records the limit as the count, so that after
  any further honest append the counts agree, the tips do not, and the answer is DIVERGED.
\<close>

theorem witness_false_alarm_at_limit:
  assumes "\<forall>a \<in> set xs. request_ok sid a" and "100000 \<le> length xs" and "\<forall>a \<in> set ys. request_ok sid a" and "ys \<noteq> []"
    and "witness_ok sid w"
    and "inj_on sha (message ` set (shard_log sid (run_appends sha (xs @ ys) empty_fs)))"
  shows "\<exists>w' d rep. capture sha now wid (run_appends sha xs empty_fs) sid w = (w', Inr (Some d)) \<and>
    verify_shard_against_witness sha (run_appends sha (xs @ ys) empty_fs) sid w' = Inr (W_DIVERGED, Some rep)"
proof -
  let ?s = "run_appends sha xs empty_fs"
  let ?es = "shard_log sid ?s" and ?gs = "shard_log sid (run_appends sha (xs @ ys) empty_fs)"
  have ne: "xs \<noteq> []" using assms(2) by auto
  have ok: "\<forall>a \<in> set (xs @ ys). request_ok sid a" using assms(1,3) by auto
  have "prefix ?es ?gs" using shard.writes_prefix [OF history_inv [OF assms(1)] assms(3)] by simp
  then obtain fs where gs: "?gs = ?es @ fs" by (auto simp: prefix_def)
  have "?es \<noteq> []" "fs \<noteq> []"
    using history_length [OF assms(1), of sha] history_length [OF ok, of sha] gs ne assms(4) by auto
  then have "tip ?gs \<noteq> tip ?es"
    unfolding gs using chained_tip_differs shard_invD(1) [OF history_inv [OF ok]] assms(6) gs by metis
  then show ?thesis
    using check_history [OF assms(1) ne assms(3,5), of sha now wid] assms(2) by (auto simp: min_def)
qed

theorem witness_false_alarm_at_limit_witness:
  "\<exists>w' d rep. capture (\<lambda>m. m) sample_time ''id''
      (run_appends (\<lambda>m. m) (replicate 100000 (sample_time, sample_entry ''alpha'' ''one'')) empty_fs)
      ''alpha'' \<lparr>wt_key = ''k'', wt_log = None\<rparr> = (w', Inr (Some d)) \<and>
    verify_shard_against_witness (\<lambda>m. m) (run_appends (\<lambda>m. m) (replicate 100000 (sample_time, sample_entry ''alpha'' ''one'') @
      [(sample_time, sample_entry ''alpha'' ''two'')]) empty_fs) ''alpha'' w' = Inr (W_DIVERGED, Some rep)"
proof (rule witness_false_alarm_at_limit)
  show "\<forall>a \<in> set (replicate 100000 (sample_time, sample_entry ''alpha'' ''one'')). request_ok ''alpha'' a"
    "\<forall>a \<in> set [(sample_time, sample_entry ''alpha'' ''two'')]. request_ok ''alpha'' a"
    by (simp_all only: set_replicate_conv_if) (simp_all add: sample_ok)
qed (simp_all only: length_replicate witness_ok_None inj_on_def, simp_all)

text \<open>
  C14: an independent witness catches a rewrite that the storage cannot. Let the segment files
  and the pin of a captured shard be replaced by anything the verifier accepts. If the
  comparison with the witness still answers OK, the shard has not become shorter; and if
  it has as many entries as were witnessed, they are in every covered field the entries
  that were appended (SHA-256 not colliding on the messages involved).
\<close>

theorem witness_binds_history:
  assumes hist: "\<forall>a \<in> set xs. request_ok sid a" and "xs \<noteq> []" and small: "length xs < 100000"
    and w: "witness_ok sid w" and cap: "capture sha now wid (run_appends sha xs empty_fs) sid w = (w', Inr (Some d))"
    and ver: "verify_shard sha sid s' = (st, Inr r)" and ok: "v_status r = V_OK"
    and dir: "dget (family_name sid) (fams s') \<noteq> None \<or> mono_files s' = []"
    and check: "verify_shard_against_witness sha s' sid w' = Inr (W_OK, rep)"
    and inj: "inj_on sha (message ` set (shard_log sid s' @ shard_log sid (run_appends sha xs empty_fs)))"
  shows "length xs \<le> length (shard_log sid s') \<and>
    (length (shard_log sid s') = length xs \<longrightarrow>
       map covered (shard_log sid s') = map covered (shard_log sid (run_appends sha xs empty_fs)))"
proof -
  let ?s = "run_appends sha xs empty_fs"
  let ?es = "shard_log sid ?s" and ?fs = "shard_log sid s'"
  let ?M = "message ` set (?fs @ ?es)"
  note inv = history_inv [OF hist, of sha]
  have len: "length ?es = length xs" by (rule history_length [OF hist])
  then have ne: "?es \<noteq> []" using \<open>xs \<noteq> []\<close> by auto
  note load = shard_log_loaded [OF ver]
  have rd: "snd (read sid 0 WITNESS_READ s') = Inr (take 100000 (rev ?fs))"
    using read_loaded [OF load dir, of WITNESS_READ] by (simp add: WITNESS_READ_def)
  have "min 100000 (length ?es) = length ?es" using len small by simp
  then have st: "if length (take 100000 (rev ?fs)) = length ?es
      then (if take 100000 (rev ?fs) = [] then JStr ''empty'' else hash (hd (take 100000 (rev ?fs)))) = tip ?es
      else length ?es \<le> length (take 100000 (rev ?fs))"
    using check_after_capture [OF inv history_mono ne w cap rd] check by (auto split: if_splits)
  have "map covered ?fs = map covered ?es" if eq: "length ?fs = length xs"
  proof -
    have "?fs \<noteq> []" using eq \<open>xs \<noteq> []\<close> by auto
    then have "norm (hash (last ?fs)) = norm (hash (last ?es))"
      using st eq len small ne by (simp add: tip_def hd_rev)
    moreover have "verify_entries sha sid (read_pin sid s') ?fs = Inr r" using verify_shard_entries [OF load, of sha] ver by simp
    note f = verify_entries_ok [OF this ok]
    have "\<forall>e \<in> set ?fs \<union> set ?es. hash_ok sha e \<and> json_fields e \<and> message e \<in> ?M \<and> inj_on sha ?M"
      using f(1) chained_hash_ok [OF shard_invD(1) [OF inv]] loaded_json [OF load] inj
        shard_inv_stored [OF inv] sealed_json_fields by auto
    ultimately show ?thesis
      using chain.same_tip_same_chain [of ?fs ?es sha ?M] eq len \<open>?fs \<noteq> []\<close> linked_map [OF f(2), of norm]
        linked_map [OF chained_linked [OF shard_invD(1) [OF inv]], of norm] by simp
  qed
  with st len small show ?thesis by (auto split: if_splits)
qed

theorem witness_binds_history_witness:
  "\<exists>w' d rep. capture (\<lambda>m. m) sample_time ''id'' (run_appends (\<lambda>m. m) [(sample_time, sample_entry ''alpha'' ''one'')] empty_fs)
      ''alpha'' \<lparr>wt_key = ''k'', wt_log = None\<rparr> = (w', Inr (Some d)) \<and>
    verify_shard_against_witness (\<lambda>m. m) (run_appends (\<lambda>m. m) [(sample_time, sample_entry ''alpha'' ''one'')] empty_fs)
      ''alpha'' w' = Inr (W_OK, rep) \<and>
    1 \<le> length (shard_log ''alpha'' (run_appends (\<lambda>m. m) [(sample_time, sample_entry ''alpha'' ''one'')] empty_fs))"
proof -
  let ?xs = "[(sample_time, sample_entry ''alpha'' ''one'')]" and ?w = "\<lparr>wt_key = ''k'', wt_log = None\<rparr> :: witness"
  let ?s = "run_appends (\<lambda>m. m) ?xs empty_fs"
  have ok: "\<forall>a \<in> set ?xs. request_ok ''alpha'' a" by (simp add: sample_ok)
  obtain w' d rep where c: "capture (\<lambda>m. m) sample_time ''id'' ?s ''alpha'' ?w = (w', Inr (Some d))"
    "verify_shard_against_witness (\<lambda>m. m) ?s ''alpha'' w' = Inr (W_OK, Some rep)"
    using check_history [OF ok _ _ witness_ok_None, of "[]" "\<lambda>m. m" sample_time "''id''" "''k''"] by auto
  obtain r where r: "verify_shard (\<lambda>m. m) ''alpha'' ?s = (fst (iter_shard_events ''alpha'' ?s), Inr r)" "v_status r = V_OK"
    by (rule verify_inv [OF history_inv [OF ok] history_inv [OF ok] history_inv [OF ok]])
  have "length ?xs \<le> length (shard_log ''alpha'' ?s)"
    using witness_binds_history [OF ok _ _ witness_ok_None c(1) r disjI2 [OF history_mono] c(2)] by (simp add: inj_on_def)
  with c show ?thesis by auto
qed

end
