(* ===== verification/Pyfloat.thy ===== *)
theory Pyfloat
  imports Json
begin

text \<open>
  Python's floats. A finite IEEE 754 double is an integer multiple of the smallest
  subnormal number, so it is modelled by that integer; every operation computes the exact
  result as a fraction and rounds it once, to the nearest double with ties to even.
  The sign of a zero is not kept, and the results of additions, products and quotients
  stay far below the largest double wherever the model uses them.
\<close>

section \<open>Rounding\<close>

text \<open>The number one, in units of the smallest subnormal.\<close>

definition ONE :: int where "ONE = 2 ^ 1074"

text \<open>The integer nearest to a fraction with a positive denominator, ties to even.\<close>

definition rne :: "int \<Rightarrow> int \<Rightarrow> int" where
  "rne a b =
     (let q = a div b; r = a mod b in
      if 2 * r < b then q else if b < 2 * r then q + 1 else if even q then q else q + 1)"

fun bitlen :: "nat \<Rightarrow> nat" where
  "bitlen n = (if n = 0 then 0 else Suc (bitlen (n div 2)))"

declare bitlen.simps [simp del]

text \<open>Units of the last place: a significand has 53 bits.\<close>

definition ulp_exp :: "int \<Rightarrow> int \<Rightarrow> nat" where
  "ulp_exp a b = bitlen (nat (a div b)) - 53"

definition round_pos :: "int \<Rightarrow> int \<Rightarrow> int" where
  "round_pos a b = (let k = ulp_exp a b in rne a (b * 2 ^ k) * 2 ^ k)"

definition rnd :: "int \<Rightarrow> int \<Rightarrow> int" where
  "rnd a b = (if a < 0 then - round_pos (- a) b else round_pos a b)"

section \<open>Arithmetic on finite doubles\<close>

definition fadd :: "int \<Rightarrow> int \<Rightarrow> int" where "fadd x y = rnd (x + y) 1"
definition fmul :: "int \<Rightarrow> int \<Rightarrow> int" where "fmul x y = rnd (x * y) ONE"
definition fdiv :: "int \<Rightarrow> int \<Rightarrow> int" where
  "fdiv x y = (if y < 0 then rnd (- x * ONE) (- y) else rnd (x * ONE) y)"

text \<open>The quotient of two ints, as \<^verbatim>\<open>a / b\<close> computes it, and a decimal literal \<open>a/b\<close>.\<close>

definition ffrac :: "int \<Rightarrow> int \<Rightarrow> int" where "ffrac a b = rnd (a * ONE) b"

definition fof_int :: "int \<Rightarrow> int" where "fof_int n = rnd (n * ONE) 1"

text \<open>\<^verbatim>\<open>min(x, y)\<close> and \<^verbatim>\<open>max(x, y)\<close> keep the first argument unless the second is strictly better.\<close>

definition fmin :: "int \<Rightarrow> int \<Rightarrow> int" where "fmin x y = (if y < x then y else x)"
definition fmax :: "int \<Rightarrow> int \<Rightarrow> int" where "fmax x y = (if x < y then y else x)"

text \<open>\<^verbatim>\<open>f"{x:.2f}"\<close>.\<close>

definition fmt2 :: "int \<Rightarrow> string" where
  "fmt2 x =
     (let n = nat (rne (\<bar>x\<bar> * 100) ONE); m = n mod 100 in
      (if x < 0 then ''-'' else []) @ show_nat (n div 100) @ ''.'' @ [digit_char (m div 10), digit_char (m mod 10)])"

section \<open>All doubles\<close>

datatype flt = Fin int | PInf | NInf | NaN

fun flt_less :: "flt \<Rightarrow> flt \<Rightarrow> bool" where
  "flt_less (Fin x) (Fin y) = (x < y)"
| "flt_less NaN _ = False"
| "flt_less _ NaN = False"
| "flt_less NInf y = (y \<noteq> NInf)"
| "flt_less PInf _ = False"
| "flt_less (Fin _) y = (y = PInf)"

fun flt_le :: "flt \<Rightarrow> flt \<Rightarrow> bool" where
  "flt_le NaN _ = False"
| "flt_le _ NaN = False"
| "flt_le x y = (x = y \<or> flt_less x y)"

definition fmt2_flt :: "flt \<Rightarrow> string" where
  "fmt2_flt x = (case x of Fin i \<Rightarrow> fmt2 i | PInf \<Rightarrow> ''inf'' | NInf \<Rightarrow> ''-inf'' | NaN \<Rightarrow> ''nan'')"

definition finite_or_inf :: "int \<Rightarrow> flt" where
  "finite_or_inf x = (if 2 ^ 1024 * ONE \<le> x then PInf else if x \<le> - (2 ^ 1024 * ONE) then NInf else Fin x)"

text \<open>The value of decimal digits \<open>m\<close> times a power of ten.\<close>

definition dec_float :: "bool \<Rightarrow> nat \<Rightarrow> int \<Rightarrow> flt" where
  "dec_float neg m e =
     (let a = (if neg then - int m else int m) * ONE in
      finite_or_inf (if 0 \<le> e then rnd (a * 10 ^ nat e) 1 else rnd a (10 ^ nat (- e))))"

definition exp_of_lex :: "string \<Rightarrow> int" where
  "exp_of_lex s =
     (case s of [] \<Rightarrow> 0
      | _ # t \<Rightarrow>
          (case t of [] \<Rightarrow> 0
           | c # u \<Rightarrow> if c = CHR ''-'' then - int (nat_of_digits u)
                      else if c = CHR ''+'' then int (nat_of_digits u) else int (nat_of_digits t)))"

text \<open>The double a JSON number denotes.\<close>

definition float_of_lex :: "string \<Rightarrow> flt" where
  "float_of_lex s =
     (if s = ''NaN'' then NaN else if s = ''Infinity'' then PInf else if s = ''-Infinity'' then NInf
      else
        (let neg = (s \<noteq> [] \<and> hd s = CHR ''-''); t = drop_minus s;
             ip = takeWhile is_digit t; r = dropWhile is_digit t;
             fp = (if r \<noteq> [] \<and> hd r = CHR ''.'' then takeWhile is_digit (tl r) else []);
             ex = (if r \<noteq> [] \<and> hd r = CHR ''.'' then dropWhile is_digit (tl r) else r)
         in dec_float neg (nat_of_digits (ip @ fp)) (exp_of_lex ex - int (length fp))))"

text \<open>
  \<^verbatim>\<open>float(v)\<close>: an int that is too large overflows. A string is converted when it is a JSON
  number up to surrounding white space; the other spellings \<^verbatim>\<open>float\<close> accepts are left to
  the function \<open>other\<close>.
\<close>

definition py_float :: "(string \<Rightarrow> flt option) \<Rightarrow> json \<Rightarrow> flt res" where
  "py_float other v =
     (case v of
        JFloat s \<Rightarrow> Inr (float_of_lex s)
      | JInt n \<Rightarrow> (if 2 ^ 1024 * ONE \<le> \<bar>fof_int n\<bar> then Inl (RuntimeError ''OverflowError'') else Inr (Fin (fof_int n)))
      | JBool b \<Rightarrow> Inr (Fin (if b then ONE else 0))
      | JStr s \<Rightarrow>
          (if float_lex (strip s) \<or> int_lex (strip s) then Inr (float_of_lex (strip s))
           else case other s of Some x \<Rightarrow> Inr x | None \<Rightarrow> Inl (ValueError ''could not convert string to float''))
      | _ \<Rightarrow> Inl TypeError)"

section \<open>Laws of rounding\<close>

lemma bitlen_bounds: "0 < n \<Longrightarrow> 2 ^ (bitlen n - 1) \<le> n \<and> n < 2 ^ bitlen n \<and> 0 < bitlen n"
proof (induction n rule: bitlen.induct)
  case (1 n)
  show ?case
  proof (cases "n div 2 = 0")
    case True
    then have "n = 1" using 1 by simp
    then show ?thesis by (simp add: bitlen.simps [of "Suc 0"] bitlen.simps [of 0])
  next
    case False
    then have ih: "2 ^ (bitlen (n div 2) - 1) \<le> n div 2" "n div 2 < 2 ^ bitlen (n div 2)" "0 < bitlen (n div 2)"
      using 1 by auto
    have "bitlen n = Suc (bitlen (n div 2))" using 1 by (subst bitlen.simps) simp
    moreover have "(2::nat) ^ bitlen (n div 2) = 2 * 2 ^ (bitlen (n div 2) - 1)"
      using ih(3) by (cases "bitlen (n div 2)") auto
    moreover have "2 * (n div 2) \<le> n" "n < 2 * (n div 2) + 2" by simp_all
    ultimately show ?thesis using ih by (intro conjI) (simp_all, linarith+)
  qed
qed

lemma div_mono_frac:
  fixes a b c d :: int
  assumes "0 < b" and "0 < d" and "a * d \<le> c * b"
  shows "a div b \<le> c div d"
proof -
  have "a div b = (a * d) div (b * d)" using assms(2) by simp
  also have "\<dots> \<le> (c * b) div (b * d)" by (rule zdiv_mono1) (use assms in simp_all)
  also have "\<dots> = c div d" using assms(1) by (simp add: mult.commute)
  finally show ?thesis .
qed

lemma rne_mono:
  assumes "0 < b" and "0 < d" and "a * d \<le> c * b"
  shows "rne a b \<le> rne c d"
proof -
  have ab: "a = b * (a div b) + a mod b" "0 \<le> a mod b" "a mod b < b" using assms(1) by simp_all
  have cd: "c = d * (c div d) + c mod d" "0 \<le> c mod d" "c mod d < d" using assms(2) by simp_all
  have q: "a div b \<le> c div d" by (rule div_mono_frac [OF assms])
  show ?thesis
  proof (cases "a div b = c div d")
    case False
    then have "a div b + 1 \<le> c div d" using q by simp
    then show ?thesis by (simp add: rne_def Let_def)
  next
    case True
    let ?r = "a mod b" and ?s = "c mod d"
    have "a * d = b * d * (a div b) + ?r * d" using ab(1) by (metis distrib_right mult.commute mult.left_commute)
    moreover have "c * b = b * d * (c div d) + ?s * b" using cd(1) by (metis distrib_right mult.commute mult.left_commute)
    ultimately have le: "?r * d \<le> ?s * b" using assms(3) True by simp
    have up: "b < 2 * ?r \<Longrightarrow> d < 2 * ?s"
    proof -
      assume "b < 2 * ?r"
      then have "b * d < 2 * ?r * d" using assms(2) by simp
      also have "\<dots> \<le> 2 * ?s * b" using le by simp
      finally show "d < 2 * ?s" using assms(1) by (simp add: mult.commute)
    qed
    have down: "2 * ?s < d \<Longrightarrow> 2 * ?r < b"
    proof -
      assume "2 * ?s < d"
      then have "2 * ?s * b < d * b" using assms(1) by simp
      with le have "2 * ?r * d < b * d" by (simp add: mult.commute)
      then show "2 * ?r < b" using assms(2) by simp
    qed
    show ?thesis using up down True by (auto simp: rne_def Let_def)
  qed
qed

lemma rne_exact: "0 < b \<Longrightarrow> rne (n * b) b = n"
  by (simp add: rne_def)

lemma rne_nonneg: "0 \<le> a \<Longrightarrow> 0 < b \<Longrightarrow> 0 \<le> rne a b"
  using rne_mono [of b b 0 a] by (simp add: rne_def)

lemma round_pos_nonneg: "0 \<le> a \<Longrightarrow> 0 < b \<Longrightarrow> 0 \<le> round_pos a b"
  by (simp add: round_pos_def rne_nonneg Let_def)

lemma pow_split: "k \<le> n \<Longrightarrow> (2::int) ^ n = 2 ^ (n - k) * 2 ^ k"
  by (simp flip: power_add)

text \<open>A fraction below or above a power of two is rounded to at most, or at least, that power.\<close>

lemma round_pos_le_pow:
  assumes "0 \<le> a" and "0 < b" and "a div b < 2 ^ n" and "ulp_exp a b \<le> n"
  shows "round_pos a b \<le> 2 ^ n"
proof -
  let ?k = "ulp_exp a b"
  have "a < b * (a div b) + b" using pos_mod_bound [OF assms(2), of a] by (metis add_strict_left_mono mult_div_mod_eq)
  also have "\<dots> \<le> b * 2 ^ n" using assms(2,3) mult_left_mono [of "a div b + 1" "2 ^ n" b] by (simp add: distrib_left)
  finally have "rne a (b * 2 ^ ?k) \<le> rne (2 ^ (n - ?k) * (b * 2 ^ ?k)) (b * 2 ^ ?k)"
    using assms(2) by (intro rne_mono) (simp_all add: pow_split [OF assms(4)] mult.commute mult.left_commute)
  then have "rne a (b * 2 ^ ?k) \<le> 2 ^ (n - ?k)" using assms(2) by (simp add: rne_exact)
  then show ?thesis by (simp add: round_pos_def Let_def pow_split [OF assms(4)] mult_right_mono)
qed

lemma round_pos_ge_pow:
  assumes "0 \<le> a" and "0 < b" and "2 ^ n \<le> a div b" and "ulp_exp a b \<le> n"
  shows "2 ^ n \<le> round_pos a b"
proof -
  let ?k = "ulp_exp a b"
  have "b * 2 ^ n \<le> b * (a div b)" using assms(2,3) by simp
  also have "\<dots> \<le> a" using assms(2) by (metis add_increasing2 mult_div_mod_eq order_refl pos_mod_sign)
  finally have "rne (2 ^ (n - ?k) * (b * 2 ^ ?k)) (b * 2 ^ ?k) \<le> rne a (b * 2 ^ ?k)"
    using assms(2) by (intro rne_mono) (simp_all add: pow_split [OF assms(4)] mult.commute mult.left_commute)
  then have "2 ^ (n - ?k) \<le> rne a (b * 2 ^ ?k)" using assms(2) by (simp add: rne_exact)
  then show ?thesis by (simp add: round_pos_def Let_def pow_split [OF assms(4)] mult_right_mono)
qed

lemma bitlen_mono: "m \<le> n \<Longrightarrow> bitlen m \<le> bitlen n"
proof (induction n arbitrary: m rule: bitlen.induct)
  case (1 n)
  then show ?case
    by (cases "m = 0"; cases "n = 0") (auto simp: bitlen.simps [of m] bitlen.simps [of n] bitlen.simps [of 0] div_le_mono)
qed

lemma round_pos_mono:
  assumes "0 \<le> a" and "0 < b" and "0 < d" and "a * d \<le> c * b"
  shows "round_pos a b \<le> round_pos c d"
proof -
  have q: "a div b \<le> c div d" by (rule div_mono_frac [OF assms(2-4)])
  have q0: "0 \<le> a div b" using assms(1,2) by (simp add: pos_imp_zdiv_nonneg_iff)
  have c0: "0 \<le> c" using assms(1-4) by (metis mult_nonneg_nonneg order_trans order_less_imp_le zero_le_mult_iff not_less)
  let ?j = "ulp_exp a b" and ?k = "ulp_exp c d"
  have jk: "?j \<le> ?k" using q by (simp add: ulp_exp_def bitlen_mono diff_le_mono nat_mono)
  show ?thesis
  proof (cases "?j = ?k")
    case True
    then have "rne a (b * 2 ^ ?j) \<le> rne c (d * 2 ^ ?k)"
      using assms by (intro rne_mono) (simp_all add: mult.assoc [symmetric] mult_right_mono)
    then show ?thesis using True by (simp add: round_pos_def Let_def mult_right_mono)
  next
    case False
    then have lt: "?j < ?k" using jk by simp
    then have bl: "bitlen (nat (c div d)) = ?k + 53" by (simp add: ulp_exp_def)
    then have "c div d \<noteq> 0" by (auto simp: bitlen.simps [of 0])
    then have "2 ^ (?k + 52) \<le> nat (c div d)" using bitlen_bounds [of "nat (c div d)"] q q0 bl by (simp add: add.commute)
    then have "(2::int) ^ (?k + 52) \<le> c div d" using le_nat_iff [of "c div d" "2 ^ (?k + 52)"] q q0 by simp
    then have ge: "2 ^ (?k + 52) \<le> round_pos c d"
      using c0 assms(3) by (intro round_pos_ge_pow) simp_all
    have "bitlen (nat (a div b)) \<le> ?j + 53" by (simp add: ulp_exp_def)
    then have "(2::nat) ^ bitlen (nat (a div b)) \<le> 2 ^ (?j + 53)" by (intro power_increasing) simp_all
    moreover have "nat (a div b) < 2 ^ bitlen (nat (a div b))"
      using bitlen_bounds [of "nat (a div b)"] by (cases "nat (a div b) = 0") (simp_all del: nat_0_iff)
    ultimately have "nat (a div b) < 2 ^ (?j + 53)" by linarith
    then have "round_pos a b \<le> 2 ^ (?j + 53)"
      using assms(1,2) q0 by (intro round_pos_le_pow) (simp_all add: nat_less_iff)
    also have "(2::int) ^ (?j + 53) \<le> 2 ^ (?k + 52)" using lt by (intro power_increasing) simp_all
    finally show ?thesis using ge by simp
  qed
qed

text \<open>Rounding is monotone and does not change the sign.\<close>

lemma rnd_mono:
  assumes "0 < b" and "0 < d" and "a * d \<le> c * b"
  shows "rnd a b \<le> rnd c d"
proof -
  have neg: "round_pos (- c) d \<le> round_pos (- a) b" if "c < 0"
    using that assms by (intro round_pos_mono) simp_all
  have "0 \<le> round_pos (- a) b" if "a < 0" using round_pos_nonneg that assms(1) by simp
  moreover have "0 \<le> round_pos c d" if "\<not> c < 0" using round_pos_nonneg that assms(2) by simp
  moreover have "a < 0" if "c < 0"
  proof -
    have "c * b < 0" using that assms(1) by (rule mult_neg_pos)
    then have "a * d < 0" using assms(3) by simp
    then show ?thesis using assms(2) by (simp add: mult_less_0_iff)
  qed
  ultimately show ?thesis
    using neg round_pos_mono [of a b d c] assms by (auto simp: rnd_def)
qed

lemma rnd_0 [simp]: "0 < b \<Longrightarrow> rnd 0 b = 0"
  by (simp add: rnd_def round_pos_def rne_def Let_def)

lemma rnd_nonneg: "0 \<le> a \<Longrightarrow> 0 < b \<Longrightarrow> 0 \<le> rnd a b"
  using rnd_mono [of b b 0 a] by simp

text \<open>A double: a number that rounding leaves alone.\<close>

definition is_double :: "int \<Rightarrow> bool" where
  "is_double x = (rnd x 1 = x)"

lemma ONE_pos [simp]: "0 < ONE"
  by (simp add: ONE_def)

lemma bitlen_pow: "bitlen (2 ^ n) = Suc n"
  by (induction n) (simp_all add: bitlen.simps [of "Suc 0"] bitlen.simps [of 0] bitlen.simps [of "2 * _"])

lemma double_pow: "53 \<le> n \<Longrightarrow> is_double (2 ^ n)"
proof -
  assume n: "53 \<le> n"
  have "nat (2 ^ n) = 2 ^ n" by (simp add: nat_power_eq)
  then have "ulp_exp (2 ^ n) 1 = n - 52" unfolding ulp_exp_def div_by_1 by (simp only: bitlen_pow)
  moreover have "(2::int) ^ n = 2 ^ 52 * (1 * 2 ^ (n - 52))" using n by (simp only: mult_1 le_add_diff_inverse flip: power_add)
  ultimately have "round_pos (2 ^ n) 1 = 2 ^ n"
    unfolding round_pos_def Let_def using rne_exact [of "1 * 2 ^ (n - 52)" "2 ^ 52"] by (metis mult_1 zero_less_numeral zero_less_power)
  then show ?thesis by (simp add: is_double_def rnd_def)
qed

lemma double_ONE [simp]: "is_double ONE" "is_double (2 * ONE)"
  using double_pow [of 1074] double_pow [of "Suc 1074"] by (simp_all only: ONE_def power_Suc)

lemma double_0 [simp]: "is_double 0"
  by (simp add: is_double_def)

lemma fadd_ge: "is_double x \<Longrightarrow> 0 \<le> y \<Longrightarrow> x \<le> fadd x y"
  using rnd_mono [of 1 1 x "x + y"] by (simp add: is_double_def fadd_def)

lemma fadd_mono: "y \<le> z \<Longrightarrow> fadd x y \<le> fadd x z"
  by (simp add: fadd_def rnd_mono)

lemma fmul_nonneg: "0 \<le> x \<Longrightarrow> 0 \<le> y \<Longrightarrow> 0 \<le> fmul x y"
  by (simp add: fmul_def rnd_nonneg)

lemma ffrac_nonneg: "0 \<le> a \<Longrightarrow> 0 < b \<Longrightarrow> 0 \<le> ffrac a b"
  by (simp add: ffrac_def rnd_nonneg order_less_imp_le)

lemma fdiv_nonneg: "0 \<le> x \<Longrightarrow> 0 < y \<Longrightarrow> 0 \<le> fdiv x y"
  by (simp add: fdiv_def rnd_nonneg order_less_imp_le)

lemma rnd_scale: "0 < b \<Longrightarrow> 0 < k \<Longrightarrow> rnd (a * k) (b * k) = rnd a b"
  by (intro antisym rnd_mono) (simp_all add: mult.commute mult.left_commute)

lemma fof_int_1 [simp]: "fof_int 1 = ONE"
  using double_ONE(1) by (simp add: fof_int_def is_double_def)

lemma float_lexemes [simp]:
  "float_of_lex ''0.0'' = Fin 0" "float_of_lex ''1.0'' = Fin ONE"
proof -
  have "(0::int) < 2 ^ 1024 * ONE" "ONE < 2 ^ 1024 * ONE" using ONE_pos by (simp_all del: ONE_pos)
  then have f: "finite_or_inf 0 = Fin 0" "finite_or_inf ONE = Fin ONE"
    by (simp_all add: finite_or_inf_def not_le)
  have d: "is_digit CHR ''0''" "is_digit CHR ''1''" "\<not> is_digit CHR ''.''" by (simp_all add: is_digit_def)
  have "rnd (10 * ONE) 10 = ONE" using rnd_scale [of 1 10 ONE] double_ONE(1) by (simp add: is_double_def mult.commute)
  then show "float_of_lex ''0.0'' = Fin 0" "float_of_lex ''1.0'' = Fin ONE"
    using f d by (simp_all add: float_of_lex_def drop_minus_def exp_of_lex_def dec_float_def nat_of_digits_def digit_val_def Let_def)
qed

text \<open>Of the ints, only 0 and 1 convert to a float in the unit interval.\<close>

lemma fof_int_unit: "0 \<le> fof_int i \<Longrightarrow> fof_int i \<le> ONE \<Longrightarrow> i = 0 \<or> i = 1"
proof (rule ccontr)
  assume lo: "0 \<le> fof_int i" and hi: "fof_int i \<le> ONE" and "\<not> (i = 0 \<or> i = 1)"
  then consider "2 \<le> i" | "i \<le> - 1" by linarith
  then show False
  proof cases
    case 1
    then have "rnd (2 * ONE) 1 \<le> fof_int i" unfolding fof_int_def by (intro rnd_mono) (simp_all add: mult_right_mono)
    then show False using hi double_ONE(2) ONE_pos by (simp add: is_double_def del: ONE_pos)
  next
    case 2
    then have "fof_int i \<le> rnd (- ONE) 1"
      unfolding fof_int_def using mult_right_mono [of i "- 1" ONE] ONE_pos by (intro rnd_mono) (simp_all del: ONE_pos)
    moreover have "rnd (- ONE) 1 = - ONE" using double_ONE(1) ONE_pos by (simp add: is_double_def rnd_def split: if_splits)
    ultimately show False using lo ONE_pos by (simp del: ONE_pos)
  qed
qed

lemma float_lex_unit [simp]: "float_lex ''0.0''" "float_lex ''1.0''" "float_lex ''0.5''"
  by (simp_all add: float_lex_def drop_minus_def is_digit_def unsigned_int_lex_def frac_lex_def exp_lex_def num_char_def)

end
