(* ===== verification/Identity.thy ===== *)
theory Identity
  imports Events Pyfloat
begin

text \<open>
  \<^verbatim>\<open>src/dsm/identity/identity_registry.py\<close>: registration, resolution and revocation of agents
  in the shard \<open>identity_registry\<close>, with a lazy index over its entries and two trust
  scores. The record holds the storage as well; records that extend it share that
  storage. The current time, the fresh identifier and the monotone clock of the cache
  are arguments; the calls of \<^verbatim>\<open>datetime.now\<close> inside one operation are taken at one time.
\<close>

section \<open>State\<close>

definition IDENTITY_REGISTRY_SHARD :: string where "IDENTITY_REGISTRY_SHARD = ''identity_registry''"

definition DEFAULT_TRUST_BASELINE :: int where "DEFAULT_TRUST_BASELINE = ffrac 5 10"
definition DEEP_TRUST_CACHE_TTL :: int where "DEEP_TRUST_CACHE_TTL = 300"

record agent_identity =
  ai_agent_id :: json
  ai_public_key :: json
  ai_owner_id :: json
  ai_model :: json
  ai_registered_at :: datetime
  ai_trust_score :: int

record reg_rec =
  rr_agent_id :: json
  rr_public_key :: json
  rr_owner_id :: json
  rr_model :: json
  rr_registered_at :: datetime
  rr_revoked :: bool
  rr_entry_hash :: json

type_synonym reg_index = "(json \<times> reg_rec) list"

record registry =
  rg_fs :: fs
  rg_trust_baseline :: int
  rg_index :: "reg_index option"
  rg_index_entry_count :: nat
  rg_deep_trust_cache :: "(string \<times> int \<times> int) list"

definition new_registry :: "fs \<Rightarrow> int \<Rightarrow> registry" where
  "new_registry s baseline =
     \<lparr>rg_fs = s, rg_trust_baseline = baseline, rg_index = None, rg_index_entry_count = 0, rg_deep_trust_cache = []\<rparr>"

section \<open>The index\<close>

definition reg_step :: "entry \<Rightarrow> reg_index \<Rightarrow> reg_index res" where
  "reg_step e index =
     (case content_json e of
        None \<Rightarrow> Inr index
      | Some data \<Rightarrow>
          rbind (jget ''event_type'' JNull data) (\<lambda>event_type.
          rbind (jget ''agent_id'' JNull data) (\<lambda>agent_id.
            if \<not> truthy agent_id then Inr index
            else if event_type = JStr ''register'' then
              rbind (jget ''public_key'' (JStr []) data) (\<lambda>pk.
              rbind (jget ''owner_id'' (JStr []) data) (\<lambda>owner.
              rbind (jget ''model'' JNull data) (\<lambda>model.
              rbind (hashable agent_id) (\<lambda>_.
                Inr (dput agent_id \<lparr>rr_agent_id = agent_id, rr_public_key = pk, rr_owner_id = owner, rr_model = model,
                       rr_registered_at = timestamp e, rr_revoked = False, rr_entry_hash = hash e\<rparr> index)))))
            else if event_type = JStr ''revoke'' then
              rbind (hashable agent_id) (\<lambda>_.
                Inr (case map_of index agent_id of
                       None \<Rightarrow> index
                     | Some r \<Rightarrow> dput agent_id (r\<lparr>rr_revoked := True\<rparr>) index))
            else Inr index)))"

definition reg_ensure_index :: "('z registry_scheme, reg_index) op" where
  "reg_ensure_index g =
     (case rg_index g of
        Some index \<Rightarrow> (g, Inr index)
      | None \<Rightarrow>
          (let (s, r) = read IDENTITY_REGISTRY_SHARD 0 READ_ALL (rg_fs g); g1 = g\<lparr>rg_fs := s\<rparr> in
           case r of
             Inl err \<Rightarrow> (g1, Inl err)
           | Inr entries \<Rightarrow>
               (case fold_res reg_step (rev entries) [] of
                  Inl err \<Rightarrow> (g1, Inl err)
                | Inr index \<Rightarrow> (g1\<lparr>rg_index := Some index, rg_index_entry_count := length entries\<rparr>, Inr index))))"

section \<open>Registration\<close>

definition register_doc :: "string \<Rightarrow> string \<Rightarrow> string \<Rightarrow> string \<Rightarrow> json \<Rightarrow> json \<Rightarrow> (string \<times> json) list" where
  "register_doc agent_id public_key owner_id owner_signature model extra =
     [(''event_type'', JStr ''register''), (''agent_id'', JStr agent_id), (''public_key'', JStr public_key),
      (''owner_id'', JStr owner_id), (''owner_signature'', JStr owner_signature), (''model'', model),
      (''extra'', if truthy extra then extra else JObj [])]"

definition register ::
    "sha \<Rightarrow> datetime \<Rightarrow> string \<Rightarrow> string \<Rightarrow> string \<Rightarrow> string \<Rightarrow> string \<Rightarrow> json \<Rightarrow> json \<Rightarrow> ('z registry_scheme, entry) op" where
  "register sha now uuid agent_id public_key owner_id owner_signature model extra g =
     (let e = doc_entry ''identity_registry'' IDENTITY_REGISTRY_SHARD now uuid
                (JObj (register_doc agent_id public_key owner_id owner_signature model extra))
                [(''event_type'', JStr ''register''), (''agent_id'', JStr agent_id)];
          (s, r) = append sha now e (rg_fs g)
      in case r of
           Inl err \<Rightarrow> (g\<lparr>rg_fs := s\<rparr>, Inl err)
         | Inr result \<Rightarrow> (g\<lparr>rg_fs := s, rg_index := None\<rparr>, Inr result))"

section \<open>Trust\<close>

text \<open>The baseline with a bonus for age, at most a tenth after thirty days.\<close>

definition age_bonus :: "int \<Rightarrow> int" where
  "age_bonus age_us =
     (let age_seconds = ffrac age_us 1000000; tenth = ffrac 1 10 in
      fmin (fmul (fdiv age_seconds (fof_int (30 * 86400))) tenth) tenth)"

definition fast_trust :: "int \<Rightarrow> int \<Rightarrow> int" where
  "fast_trust baseline age_us = fmin (fadd baseline (age_bonus age_us)) ONE"

definition trust_score :: "datetime \<Rightarrow> json \<Rightarrow> ('z registry_scheme, int) op" where
  "trust_score now agent_id =
     sbind reg_ensure_index (\<lambda>index g.
       case map_of index agent_id of
         None \<Rightarrow> (g, Inr 0)
       | Some r \<Rightarrow>
           (if rr_revoked r then (g, Inr 0)
            else if tz (rr_registered_at r) = None then (g, Inl TypeError)
            else (g, Inr (fast_trust (rg_trust_baseline g) (instant now - instant (rr_registered_at r))))))"

definition chain_rate :: "entry list \<Rightarrow> int" where
  "chain_rate es =
     ffrac (int (length (filter (\<lambda>e. truthy (hash e) \<and> prev_hash e \<noteq> JNull) es))) (max (int (length es)) 1)"

definition deep_trust :: "int \<Rightarrow> int \<Rightarrow> int" where
  "deep_trust fast rate = fmin (fmax (fadd (fmul fast (ffrac 7 10)) (fmul rate (ffrac 3 10))) 0) ONE"

definition deep_trust_fresh :: "int \<Rightarrow> datetime \<Rightarrow> string \<Rightarrow> ('z registry_scheme, int) op" where
  "deep_trust_fresh clock now agent_id =
     sbind reg_ensure_index (\<lambda>index g.
       case map_of index (JStr agent_id) of
         None \<Rightarrow> (g, Inr 0)
       | Some r \<Rightarrow>
           (if rr_revoked r then (g, Inr 0)
            else
              sbind (\<lambda>g. (g, snd (read IDENTITY_REGISTRY_SHARD 0 READ_ALL (rg_fs g)))) (\<lambda>entries.
              sbind (of_res (entries_about ''agent_id'' (JStr agent_id) entries)) (\<lambda>agent_entries.
              sbind (trust_score now (JStr agent_id)) (\<lambda>fast g.
                let deep = deep_trust fast (chain_rate agent_entries)
                in (g\<lparr>rg_deep_trust_cache := dput agent_id (deep, clock) (rg_deep_trust_cache g)\<rparr>, Inr deep)))) g))"

text \<open>\<open>clock\<close> is read when the cache is consulted, \<open>clock'\<close> when the score is stored.\<close>

definition deep_trust_score :: "int \<Rightarrow> int \<Rightarrow> datetime \<Rightarrow> string \<Rightarrow> ('z registry_scheme, int) op" where
  "deep_trust_score clock clock' now agent_id g =
     (case dget agent_id (rg_deep_trust_cache g) of
        Some (score, ts) \<Rightarrow>
          (if fadd clock (- ts) < fof_int DEEP_TRUST_CACHE_TTL then (g, Inr score)
           else deep_trust_fresh clock' now agent_id g)
      | None \<Rightarrow> deep_trust_fresh clock' now agent_id g)"

section \<open>Resolution and revocation\<close>

definition identity_of :: "reg_rec \<Rightarrow> int \<Rightarrow> agent_identity" where
  "identity_of r score =
     \<lparr>ai_agent_id = rr_agent_id r, ai_public_key = rr_public_key r, ai_owner_id = rr_owner_id r, ai_model = rr_model r,
      ai_registered_at = rr_registered_at r, ai_trust_score = score\<rparr>"

definition resolve :: "datetime \<Rightarrow> string \<Rightarrow> ('z registry_scheme, agent_identity option) op" where
  "resolve now agent_id =
     sbind reg_ensure_index (\<lambda>index.
       case map_of index (JStr agent_id) of
         None \<Rightarrow> ret None
       | Some r \<Rightarrow>
           (if rr_revoked r then ret None
            else sbind (trust_score now (JStr agent_id)) (\<lambda>score. ret (Some (identity_of r score)))))"

definition revoke_doc :: "string \<Rightarrow> string \<Rightarrow> string \<Rightarrow> json \<Rightarrow> (string \<times> json) list" where
  "revoke_doc agent_id owner_id owner_signature reason =
     [(''event_type'', JStr ''revoke''), (''agent_id'', JStr agent_id), (''owner_id'', JStr owner_id),
      (''owner_signature'', JStr owner_signature), (''reason'', reason)]"

definition revoke_write ::
    "sha \<Rightarrow> datetime \<Rightarrow> string \<Rightarrow> string \<Rightarrow> string \<Rightarrow> string \<Rightarrow> json \<Rightarrow> ('z registry_scheme, entry) op" where
  "revoke_write sha now uuid agent_id owner_id owner_signature reason g =
     (let e = doc_entry ''identity_registry'' IDENTITY_REGISTRY_SHARD now uuid
                (JObj (revoke_doc agent_id owner_id owner_signature reason))
                [(''event_type'', JStr ''revoke''), (''agent_id'', JStr agent_id)];
          (s, r) = append sha now e (rg_fs g)
      in case r of
           Inl err \<Rightarrow> (g\<lparr>rg_fs := s\<rparr>, Inl err)
         | Inr result \<Rightarrow>
             (g\<lparr>rg_fs := s, rg_index := None, rg_deep_trust_cache := ddel agent_id (rg_deep_trust_cache g)\<rparr>, Inr result))"

definition revoke ::
    "sha \<Rightarrow> datetime \<Rightarrow> string \<Rightarrow> string \<Rightarrow> string \<Rightarrow> string \<Rightarrow> json \<Rightarrow> ('z registry_scheme, entry) op" where
  "revoke sha now uuid agent_id owner_id owner_signature reason =
     sbind reg_ensure_index (\<lambda>index.
       case map_of index (JStr agent_id) of
         None \<Rightarrow> revoke_write sha now uuid agent_id owner_id owner_signature reason
       | Some r \<Rightarrow>
           (if rr_owner_id r \<noteq> JStr owner_id then raise (DSMError ''UnauthorizedRevocation'')
            else revoke_write sha now uuid agent_id owner_id owner_signature reason))"

section \<open>Listing and history\<close>

fun list_agents_loop :: "datetime \<Rightarrow> string option \<Rightarrow> reg_rec list \<Rightarrow> ('z registry_scheme, agent_identity list) op" where
  "list_agents_loop now owner_id [] = ret []"
| "list_agents_loop now owner_id (r # rs) =
     (if rr_revoked r then list_agents_loop now owner_id rs
      else if owner_id \<noteq> None \<and> rr_owner_id r \<noteq> JStr (the owner_id) then list_agents_loop now owner_id rs
      else
        sbind (trust_score now (rr_agent_id r)) (\<lambda>score.
        sbind (list_agents_loop now owner_id rs) (\<lambda>rest. ret (identity_of r score # rest))))"

definition list_agents :: "datetime \<Rightarrow> string option \<Rightarrow> ('z registry_scheme, agent_identity list) op" where
  "list_agents now owner_id = sbind reg_ensure_index (\<lambda>index. list_agents_loop now owner_id (map snd index))"

definition agent_history :: "string \<Rightarrow> ('z registry_scheme, entry list) op" where
  "agent_history agent_id =
     sbind (\<lambda>g. (g, snd (read IDENTITY_REGISTRY_SHARD 0 READ_ALL (rg_fs g)))) (\<lambda>entries.
       of_res (entries_about ''agent_id'' (JStr agent_id) (rev entries)))"

end
