(* ===== verification/Sovereignty.thy ===== *)
theory Sovereignty
  imports Identity
begin

text \<open>
  \<^verbatim>\<open>src/dsm/sovereignty.py\<close>: access policies of the owners, in the shard
  \<open>sovereignty_policies\<close>, and the enforcement check made before a contribution. The
  record extends the identity registry's: both work on one storage. A policy is given as
  a dict; a tuple in it counts as a list. The text of a validation error is kept as a
  value that says what was wrong, and the \<^verbatim>\<open>detail\<close> of a denial, which takes no part in
  comparisons, is left out. \<open>fstr\<close> is \<^verbatim>\<open>float()\<close> on strings that are not JSON numbers
  and \<open>py_str\<close> is \<^verbatim>\<open>str()\<close> on values that are not strings.
\<close>

section \<open>Validation\<close>

definition SOVEREIGNTY_SHARD :: string where "SOVEREIGNTY_SHARD = ''sovereignty_policies''"

definition REQUIRED_POLICY_KEYS :: "string list" where
  "REQUIRED_POLICY_KEYS = [''agents'', ''allowed_types'', ''min_trust_score'']"

datatype policy_error =
    MissingKeys "string list"
  | NotAList string
  | EmptyList string
  | NotStrings string
  | NotANumber string
  | NotInUnitInterval string
  | NotABoolean string

definition is_str_nonblank :: "json \<Rightarrow> bool" where
  "is_str_nonblank v = (case v of JStr s \<Rightarrow> strip s \<noteq> [] | _ \<Rightarrow> False)"

definition check_names :: "string \<Rightarrow> json \<Rightarrow> policy_error list" where
  "check_names k v =
     (case v of
        JList xs \<Rightarrow> (if xs = [] then [EmptyList k] else if \<not> list_all is_str_nonblank xs then [NotStrings k] else [])
      | _ \<Rightarrow> [NotAList k])"

definition is_number :: "json \<Rightarrow> bool" where
  "is_number v = (case v of JInt _ \<Rightarrow> True | JFloat _ \<Rightarrow> True | JBool _ \<Rightarrow> True | _ \<Rightarrow> False)"

definition check_unit :: "string \<Rightarrow> json \<Rightarrow> policy_error list res" where
  "check_unit k v =
     (if \<not> is_number v then Inr [NotANumber k]
      else rbind (py_float (\<lambda>_. None) v) (\<lambda>x.
        Inr (if flt_le (Fin 0) x \<and> flt_le x (Fin ONE) then [] else [NotInUnitInterval k])))"

definition validate_policy :: "(string \<times> json) list \<Rightarrow> policy_error list res" where
  "validate_policy policy =
     (let missing = filter (\<lambda>k. dget k policy = None) REQUIRED_POLICY_KEYS in
      if missing \<noteq> [] then Inr [MissingKeys missing]
      else
        (let e1 = check_names ''agents'' (the (dget ''agents'' policy)) in
         rbind (check_unit ''min_trust_score'' (the (dget ''min_trust_score'' policy))) (\<lambda>e2.
         let e3 = check_names ''allowed_types'' (the (dget ''allowed_types'' policy)) in
         rbind (case dget ''trust_baseline'' policy of None \<Rightarrow> Inr [] | Some v \<Rightarrow> check_unit ''trust_baseline'' v) (\<lambda>e4.
         let e5 = (case dget ''approval_required'' policy of
                     None \<Rightarrow> []
                   | Some v \<Rightarrow> (case v of JList _ \<Rightarrow> [] | _ \<Rightarrow> [NotAList ''approval_required'']));
             e6 = (case dget ''cross_ai'' policy of
                     None \<Rightarrow> []
                   | Some v \<Rightarrow> (case v of JBool _ \<Rightarrow> [] | _ \<Rightarrow> [NotABoolean ''cross_ai'']))
         in Inr (e1 @ e2 @ e3 @ e4 @ e5 @ e6)))))"

section \<open>State and index\<close>

record policy_snapshot =
  ps_owner_id :: json
  ps_agents :: "json list"
  ps_min_trust_score :: flt
  ps_trust_baseline :: flt
  ps_allowed_types :: "json list"
  ps_approval_required :: "json list"
  ps_cross_ai :: bool
  ps_set_at :: datetime
  ps_entry_hash :: json

type_synonym pol_index = "(json \<times> policy_snapshot \<times> bool) list"

record policies = registry +
  pl_index :: "pol_index option"

definition pol_step :: "(string \<Rightarrow> flt option) \<Rightarrow> entry \<Rightarrow> pol_index \<Rightarrow> pol_index res" where
  "pol_step fstr e index =
     (case content_json e of
        None \<Rightarrow> Inr index
      | Some data \<Rightarrow>
          rbind (jget ''event_type'' JNull data) (\<lambda>event_type.
          rbind (jget ''owner_id'' JNull data) (\<lambda>owner_id.
            if \<not> truthy owner_id then Inr index
            else if event_type = JStr ''set_policy'' then
              rbind (jget ''policy'' (JObj []) data) (\<lambda>policy.
              rbind (rbind (jget ''agents'' (JList []) policy) py_iter) (\<lambda>agents.
              rbind (rbind (jget ''min_trust_score'' (JFloat ''0.5'') policy) (py_float fstr)) (\<lambda>mts.
              rbind (rbind (jget ''trust_baseline'' (JFloat ''0.5'') policy) (py_float fstr)) (\<lambda>tb.
              rbind (rbind (jget ''allowed_types'' (JList []) policy) py_iter) (\<lambda>allowed.
              rbind (rbind (jget ''approval_required'' (JList []) policy) py_iter) (\<lambda>approval.
              rbind (jget ''cross_ai'' (JBool False) policy) (\<lambda>cross.
              rbind (hashable owner_id) (\<lambda>_.
                Inr (dput owner_id (\<lparr>ps_owner_id = owner_id, ps_agents = agents, ps_min_trust_score = mts,
                       ps_trust_baseline = tb, ps_allowed_types = allowed, ps_approval_required = approval,
                       ps_cross_ai = truthy cross, ps_set_at = timestamp e,
                       ps_entry_hash = (if truthy (hash e) then hash e else JStr [])\<rparr>, False) index)))))))))
            else if event_type = JStr ''revoke_policy'' then
              rbind (hashable owner_id) (\<lambda>_.
                Inr (case map_of index owner_id of
                       None \<Rightarrow> index
                     | Some (p, _) \<Rightarrow> dput owner_id (p, True) index))
            else Inr index)))"

definition pol_ensure_index :: "(string \<Rightarrow> flt option) \<Rightarrow> ('z policies_scheme, pol_index) op" where
  "pol_ensure_index fstr g =
     (case pl_index g of
        Some index \<Rightarrow> (g, Inr index)
      | None \<Rightarrow>
          (let (s, r) = read SOVEREIGNTY_SHARD 0 READ_ALL (rg_fs g); g1 = g\<lparr>rg_fs := s\<rparr> in
           case r of
             Inl err \<Rightarrow> (g1, Inl err)
           | Inr entries \<Rightarrow>
               (case fold_res (pol_step fstr) (rev entries) [] of
                  Inl err \<Rightarrow> (g1, Inl err)
                | Inr index \<Rightarrow> (g1\<lparr>pl_index := Some index\<rparr>, Inr index))))"

section \<open>Writing\<close>

text \<open>\<^verbatim>\<open>float(v)\<close> as it is printed again, for a number that was validated.\<close>

definition dump_float :: "json \<Rightarrow> json" where
  "dump_float v =
     (case v of
        JInt i \<Rightarrow> JFloat (if i = 0 then ''0.0'' else ''1.0'')
      | JBool b \<Rightarrow> JFloat (if b then ''1.0'' else ''0.0'')
      | _ \<Rightarrow> v)"

definition policy_doc :: "string \<Rightarrow> string \<Rightarrow> (string \<times> json) list \<Rightarrow> (string \<times> json) list" where
  "policy_doc owner_id owner_signature policy =
     [(''event_type'', JStr ''set_policy''), (''owner_id'', JStr owner_id), (''owner_signature'', JStr owner_signature),
      (''policy'', JObj
         [(''agents'', the (dget ''agents'' policy)),
          (''min_trust_score'', dump_float (the (dget ''min_trust_score'' policy))),
          (''trust_baseline'', dump_float (case dget ''trust_baseline'' policy of None \<Rightarrow> JFloat ''0.5'' | Some v \<Rightarrow> v)),
          (''allowed_types'', the (dget ''allowed_types'' policy)),
          (''approval_required'', case dget ''approval_required'' policy of None \<Rightarrow> JList [] | Some v \<Rightarrow> v),
          (''cross_ai'', JBool (truthy (case dget ''cross_ai'' policy of None \<Rightarrow> JBool False | Some v \<Rightarrow> v)))])]"

definition pol_write :: "sha \<Rightarrow> datetime \<Rightarrow> string \<Rightarrow> string \<Rightarrow> json \<Rightarrow> string \<Rightarrow> ('z policies_scheme, entry) op" where
  "pol_write sha now uuid event_type data owner_id g =
     (let e = doc_entry ''sovereignty'' SOVEREIGNTY_SHARD now uuid data
                [(''event_type'', JStr event_type), (''owner_id'', JStr owner_id)];
          (s, r) = append sha now e (rg_fs g)
      in case r of
           Inl err \<Rightarrow> (g\<lparr>rg_fs := s\<rparr>, Inl err)
         | Inr result \<Rightarrow> (g\<lparr>rg_fs := s, pl_index := None\<rparr>, Inr result))"

definition set_policy ::
    "sha \<Rightarrow> datetime \<Rightarrow> string \<Rightarrow> string \<Rightarrow> string \<Rightarrow> (string \<times> json) list \<Rightarrow> ('z policies_scheme, entry) op" where
  "set_policy sha now uuid owner_id owner_signature policy g =
     (case validate_policy policy of
        Inl err \<Rightarrow> (g, Inl err)
      | Inr errors \<Rightarrow>
          (if errors \<noteq> [] then (g, Inl (DSMError ''InvalidPolicyStructure''))
           else pol_write sha now uuid ''set_policy'' (JObj (policy_doc owner_id owner_signature policy)) owner_id g))"

definition revoke_policy_doc :: "string \<Rightarrow> string \<Rightarrow> json \<Rightarrow> (string \<times> json) list" where
  "revoke_policy_doc owner_id owner_signature reason =
     [(''event_type'', JStr ''revoke_policy''), (''owner_id'', JStr owner_id),
      (''owner_signature'', JStr owner_signature), (''reason'', reason)]"

definition revoke_policy ::
    "sha \<Rightarrow> datetime \<Rightarrow> string \<Rightarrow> string \<Rightarrow> string \<Rightarrow> json \<Rightarrow> ('z policies_scheme, entry) op" where
  "revoke_policy sha now uuid owner_id owner_signature reason =
     pol_write sha now uuid ''revoke_policy'' (JObj (revoke_policy_doc owner_id owner_signature reason)) owner_id"

section \<open>Reading and enforcement\<close>

definition get_policy :: "(string \<Rightarrow> flt option) \<Rightarrow> string \<Rightarrow> ('z policies_scheme, policy_snapshot option) op" where
  "get_policy fstr owner_id =
     sbind (pol_ensure_index fstr) (\<lambda>index.
       ret (case map_of index (JStr owner_id) of
              None \<Rightarrow> None
            | Some (p, revoked) \<Rightarrow> if revoked then None else Some p))"

definition policy_history :: "string \<Rightarrow> int \<Rightarrow> ('z policies_scheme, entry list) op" where
  "policy_history owner_id limit =
     sbind (\<lambda>g. (g, snd (read SOVEREIGNTY_SHARD 0 limit (rg_fs g)))) (\<lambda>entries.
       of_res (entries_about ''owner_id'' (JStr owner_id) (rev entries)))"

record enforcement =
  en_verdict :: string
  en_reason :: "string option"

definition allow :: enforcement where "allow = \<lparr>en_verdict = ''allow'', en_reason = None\<rparr>"
definition deny :: "string \<Rightarrow> enforcement" where "deny why = \<lparr>en_verdict = ''deny'', en_reason = Some why\<rparr>"
definition pending :: "string \<Rightarrow> enforcement" where "pending why = \<lparr>en_verdict = ''pending'', en_reason = Some why\<rparr>"

definition fmt_value :: "(json \<Rightarrow> string) \<Rightarrow> json \<Rightarrow> string" where
  "fmt_value py_str v = (case v of JStr s \<Rightarrow> s | _ \<Rightarrow> py_str v)"

definition SQ :: char where "SQ = CHR 0x27"

definition after_type :: "(json \<Rightarrow> string) \<Rightarrow> policy_snapshot \<Rightarrow> json \<Rightarrow> enforcement" where
  "after_type py_str policy entry_type =
     (if entry_type \<in> set (ps_approval_required policy)
      then pending (''Entry type '' @ [SQ] @ fmt_value py_str entry_type @ [SQ] @ '' requires human approval'')
      else allow)"

definition allows ::
    "(json \<Rightarrow> string) \<Rightarrow> (string \<Rightarrow> flt option) \<Rightarrow> datetime \<Rightarrow> string \<Rightarrow> string \<Rightarrow> json \<Rightarrow> string option \<Rightarrow>
     ('z policies_scheme, enforcement) op" where
  "allows py_str fstr now owner_id agent_id entry_type agent_model =
     sbind (get_policy fstr owner_id) (\<lambda>p.
       case p of
         None \<Rightarrow> ret (deny ''no_policy'')
       | Some policy \<Rightarrow>
           (if JStr agent_id \<notin> set (ps_agents policy) then ret (deny ''not_whitelisted'')
            else
              sbind (trust_score now (JStr agent_id)) (\<lambda>score.
                if flt_less (Fin score) (ps_min_trust_score policy) then ret (deny ''low_trust'')
                else if entry_type \<notin> set (ps_allowed_types policy) then ret (deny ''type_forbidden'')
                else if agent_model \<noteq> None \<and> agent_model \<noteq> Some [] \<and> \<not> ps_cross_ai policy then
                  sbind (resolve now agent_id) (\<lambda>ident.
                    case ident of
                      Some i \<Rightarrow>
                        (if truthy (ai_model i) \<and> ai_model i \<noteq> JStr (the agent_model) then ret (deny ''cross_ai_denied'')
                         else ret (after_type py_str policy entry_type))
                    | None \<Rightarrow> ret (after_type py_str policy entry_type))
                else ret (after_type py_str policy entry_type))))"

end
