(* ===== verification/Orchestrator.thy ===== *)
theory Orchestrator
  imports Sovereignty
begin

text \<open>
  \<^verbatim>\<open>src/dsm/orchestrator.py\<close>: admission control for the collective. The record extends the
  policies' and the registry's, on the same storage, with the rules, the decision cache
  and the admission counters. The rules are the four classes of the module.
\<close>

section \<open>Rules\<close>

definition ORCHESTRATOR_SHARD :: string where "ORCHESTRATOR_SHARD = ''orchestrator_audit''"

record admission_context =
  ac_agent_trust :: int
  ac_sovereignty_result :: enforcement
  ac_recent_admissions :: int

record rule_result =
  rl_passed :: bool
  rl_rule_name :: string
  rl_reason :: "string option"

record admission_result =
  ad_verdict :: string
  ad_reason :: string
  ad_entry_hash :: json
  ad_agent_id :: string
  ad_decided_at :: datetime
  ad_rule_results :: "rule_result list"

datatype rule =
    SovereigntyCheckRule
  | MinTrustScoreRule flt
  | RateLimitRule int
  | NoSelfReferenceRule

fun rule_name :: "rule \<Rightarrow> string" where
  "rule_name SovereigntyCheckRule = ''sovereignty_check''"
| "rule_name (MinTrustScoreRule m) = ''min_trust_score''"
| "rule_name (RateLimitRule m) = ''rate_limit''"
| "rule_name NoSelfReferenceRule = ''no_self_reference''"

definition passes :: "rule \<Rightarrow> rule_result" where
  "passes r = \<lparr>rl_passed = True, rl_rule_name = rule_name r, rl_reason = None\<rparr>"

definition fails :: "rule \<Rightarrow> string \<Rightarrow> rule_result" where
  "fails r why = \<lparr>rl_passed = False, rl_rule_name = rule_name r, rl_reason = Some why\<rparr>"

definition references_itself :: "entry \<Rightarrow> bool" where
  "references_itself e = (truthy (prev_hash e) \<and> truthy (hash e) \<and> prev_hash e = hash e)"

fun evaluate :: "rule \<Rightarrow> entry \<Rightarrow> admission_context \<Rightarrow> rule_result" where
  "evaluate SovereigntyCheckRule e ctx =
     (if en_verdict (ac_sovereignty_result ctx) = ''allow'' then passes SovereigntyCheckRule
      else fails SovereigntyCheckRule
        (''sovereignty: '' @ (case en_reason (ac_sovereignty_result ctx) of None \<Rightarrow> ''None'' | Some why \<Rightarrow> why)))"
| "evaluate (MinTrustScoreRule m) e ctx =
     (if flt_le m (Fin (ac_agent_trust ctx)) then passes (MinTrustScoreRule m)
      else fails (MinTrustScoreRule m) (''trust '' @ fmt2 (ac_agent_trust ctx) @ '' < '' @ fmt2_flt m))"
| "evaluate (RateLimitRule m) e ctx =
     (if ac_recent_admissions ctx < m then passes (RateLimitRule m)
      else fails (RateLimitRule m) (''rate limit: '' @ show_int (ac_recent_admissions ctx) @ '' >= '' @ show_int m))"
| "evaluate NoSelfReferenceRule e ctx =
     (if references_itself e then fails NoSelfReferenceRule ''entry references itself'' else passes NoSelfReferenceRule)"

definition default_rules :: "rule list" where
  "default_rules = [SovereigntyCheckRule, MinTrustScoreRule (Fin (ffrac 3 10)), RateLimitRule 100, NoSelfReferenceRule]"

definition permissive_rules :: "rule list" where
  "permissive_rules = [NoSelfReferenceRule]"

text \<open>All rules in order, up to the first that fails.\<close>

fun eval_rules :: "rule list \<Rightarrow> entry \<Rightarrow> admission_context \<Rightarrow> rule_result list \<times> string \<times> string" where
  "eval_rules [] e ctx = ([], ''allow'', ''all rules passed'')"
| "eval_rules (r # rs) e ctx =
     (let rr = evaluate r e ctx in
      if \<not> rl_passed rr then
        ([rr], ''deny'', (case rl_reason rr of Some why \<Rightarrow> if why \<noteq> [] then why else rl_rule_name rr | None \<Rightarrow> rl_rule_name rr))
      else (let (rrs, v, why) = eval_rules rs e ctx in (rr # rrs, v, why)))"

section \<open>The orchestrator\<close>

record orchestrator = policies +
  or_rules :: "rule list"
  or_cache :: "(json \<times> admission_result) list"
  or_admission_counts :: "(string \<times> int) list"

definition with_rules :: "rule list \<Rightarrow> 'z orchestrator_scheme \<Rightarrow> 'z orchestrator_scheme" where
  "with_rules rules g = g\<lparr>or_rules := rules, or_cache := [], or_admission_counts := []\<rparr>"

definition admission_count :: "string \<Rightarrow> 'z orchestrator_scheme \<Rightarrow> int" where
  "admission_count agent_id g = (case dget agent_id (or_admission_counts g) of None \<Rightarrow> 0 | Some n \<Rightarrow> n)"

definition build_context ::
    "(json \<Rightarrow> string) \<Rightarrow> (string \<Rightarrow> flt option) \<Rightarrow> datetime \<Rightarrow> string \<Rightarrow> string \<Rightarrow> json \<Rightarrow>
     ('z orchestrator_scheme, admission_context) op" where
  "build_context py_str fstr now agent_id owner_id entry_type =
     sbind (trust_score now (JStr agent_id)) (\<lambda>trust.
     sbind (allows py_str fstr now owner_id agent_id entry_type None) (\<lambda>sov g.
       (g, Inr \<lparr>ac_agent_trust = trust, ac_sovereignty_result = sov, ac_recent_admissions = admission_count agent_id g\<rparr>)))"

definition decision_doc :: "admission_result \<Rightarrow> (string \<times> json) list" where
  "decision_doc r =
     [(''verdict'', JStr (ad_verdict r)), (''reason'', JStr (ad_reason r)), (''entry_hash'', ad_entry_hash r),
      (''agent_id'', JStr (ad_agent_id r)), (''decided_at'', JStr (isoformat (ad_decided_at r)))]"

text \<open>A failure of the disk while logging is swallowed; any other exception is not.\<close>

definition log_decision :: "sha \<Rightarrow> datetime \<Rightarrow> string \<Rightarrow> admission_result \<Rightarrow> ('z orchestrator_scheme, unit) op" where
  "log_decision sha now uuid r g =
     (let e = doc_entry ''orchestrator'' ORCHESTRATOR_SHARD (ad_decided_at r) uuid (JObj (decision_doc r))
                [(''event_type'', JStr ''admission_decision''), (''verdict'', JStr (ad_verdict r)),
                 (''agent_id'', JStr (ad_agent_id r))];
          (s, res) = append sha now e (rg_fs g); g1 = g\<lparr>rg_fs := s\<rparr>
      in case res of
           Inr _ \<Rightarrow> (g1, Inr ())
         | Inl OSError \<Rightarrow> (g1, Inr ())
         | Inl err \<Rightarrow> (g1, Inl err))"

definition entry_type_of :: "entry \<Rightarrow> json res" where
  "entry_type_of e = jget ''event_type'' (JStr ''unknown'') (if truthy (metadata e) then metadata e else JObj [])"

definition conclude :: "rule list \<Rightarrow> entry \<Rightarrow> string \<Rightarrow> json \<Rightarrow> datetime \<Rightarrow> admission_context \<Rightarrow> admission_result" where
  "conclude rules e agent_id entry_hash now ctx =
     (let (rrs, v, why) = eval_rules rules e ctx;
          pend = (v = ''allow'' \<and> en_verdict (ac_sovereignty_result ctx) = ''pending'');
          sr = en_reason (ac_sovereignty_result ctx)
      in \<lparr>ad_verdict = (if pend then ''pending'' else v),
          ad_reason = (if pend then (case sr of Some w \<Rightarrow> if w \<noteq> [] then w else ''approval required'' | None \<Rightarrow> ''approval required'')
                       else why),
          ad_entry_hash = entry_hash, ad_agent_id = agent_id, ad_decided_at = now, ad_rule_results = rrs\<rparr>)"

definition admit_fresh ::
    "sha \<Rightarrow> (json \<Rightarrow> string) \<Rightarrow> (string \<Rightarrow> flt option) \<Rightarrow> datetime \<Rightarrow> string \<Rightarrow> entry \<Rightarrow> string \<Rightarrow> string \<Rightarrow> json \<Rightarrow>
     ('z orchestrator_scheme, admission_result) op" where
  "admit_fresh sha py_str fstr now uuid e agent_id owner_id entry_hash =
     sbind (of_res (entry_type_of e)) (\<lambda>entry_type.
     sbind (build_context py_str fstr now agent_id owner_id entry_type) (\<lambda>ctx g.
       let result = conclude (or_rules g) e agent_id entry_hash now ctx in
       sbind (log_decision sha now uuid result) (\<lambda>_ g1.
         let g2 = (if ad_verdict result = ''allow''
                   then g1\<lparr>or_admission_counts := dput agent_id (admission_count agent_id g1 + 1) (or_admission_counts g1)\<rparr>
                   else g1)
         in if truthy entry_hash then (g2\<lparr>or_cache := dput entry_hash result (or_cache g2)\<rparr>, Inr result)
            else (g2, Inr result)) g))"

definition admit ::
    "sha \<Rightarrow> (json \<Rightarrow> string) \<Rightarrow> (string \<Rightarrow> flt option) \<Rightarrow> datetime \<Rightarrow> string \<Rightarrow> entry \<Rightarrow> string \<Rightarrow> string \<Rightarrow>
     ('z orchestrator_scheme, admission_result) op" where
  "admit sha py_str fstr now uuid e agent_id owner_id g =
     (let entry_hash = (if truthy (hash e) then hash e else JStr []) in
      if truthy entry_hash then
        (case hashable entry_hash of
           Inl err \<Rightarrow> (g, Inl err)
         | Inr _ \<Rightarrow>
             (case map_of (or_cache g) entry_hash of
                Some r \<Rightarrow> (g, Inr r)
              | None \<Rightarrow> admit_fresh sha py_str fstr now uuid e agent_id owner_id entry_hash g))
      else admit_fresh sha py_str fstr now uuid e agent_id owner_id entry_hash g)"

end
