(* ===== verification/Identity_Laws.thy ===== *)
theory Identity_Laws
  imports Identity Simulation Samples
begin

text \<open>
  The identity registry implements a map from agent names to registrations: the entries of
  its shard determine the map, the lazy index agrees with them, and every operation makes
  the step of the specification.
\<close>

section \<open>The specification\<close>

record registration =
  ra_agent_id :: json
  ra_public_key :: json
  ra_owner_id :: json
  ra_model :: json
  ra_registered_at :: datetime
  ra_revoked :: bool

type_synonym reg_map = "string \<Rightarrow> registration option"

datatype reg_command =
    Register string string string json datetime
  | Revoke string

fun reg_spec :: "reg_command \<Rightarrow> reg_map \<Rightarrow> reg_map" where
  "reg_spec (Register a pk owner model t) f =
     f(a \<mapsto> \<lparr>ra_agent_id = JStr a, ra_public_key = JStr pk, ra_owner_id = JStr owner, ra_model = norm model,
            ra_registered_at = t, ra_revoked = False\<rparr>)"
| "reg_spec (Revoke a) f = f(a := map_option (\<lambda>r. r\<lparr>ra_revoked := True\<rparr>) (f a))"

definition reg_view :: "reg_index \<Rightarrow> reg_map" where
  "reg_view ix a =
     map_option (\<lambda>r. \<lparr>ra_agent_id = rr_agent_id r, ra_public_key = rr_public_key r, ra_owner_id = rr_owner_id r,
        ra_model = rr_model r, ra_registered_at = rr_registered_at r, ra_revoked = rr_revoked r\<rparr>) (map_of ix (JStr a))"

fun reg_records :: "entry \<Rightarrow> reg_command \<Rightarrow> bool" where
  "reg_records e (Register a pk owner model t) =
     (a \<noteq> [] \<and> timestamp e = t \<and>
      (\<exists>sg extra. wf_json (JObj (register_doc a pk owner sg model extra)) \<and>
         content_json e = Some (norm (JObj (register_doc a pk owner sg model extra)))))"
| "reg_records e (Revoke a) =
     (a \<noteq> [] \<and>
      (\<exists>owner sg reason. wf_json (JObj (revoke_doc a owner sg reason)) \<and>
         content_json e = Some (norm (JObj (revoke_doc a owner sg reason)))))"

interpretation reg: event_index reg_step "[]" reg_view reg_records reg_spec
proof
  fix e c ix
  assume rec: "reg_records e c"
  show "\<exists>ix'. reg_step e ix = Inr ix' \<and> reg_view ix' = reg_spec c (reg_view ix)"
  proof (cases c)
    case (Register a pk owner model t)
    with rec obtain sg extra where a: "a \<noteq> []" "timestamp e = t"
      and wf: "wf_json (JObj (register_doc a pk owner sg model extra))"
      and c: "content_json e = Some (norm (JObj (register_doc a pk owner sg model extra)))" by auto
    note f = doc_field [OF wf]
    have "dget ''event_type'' (register_doc a pk owner sg model extra) = Some (JStr ''register'')"
      "dget ''agent_id'' (register_doc a pk owner sg model extra) = Some (JStr a)"
      "dget ''public_key'' (register_doc a pk owner sg model extra) = Some (JStr pk)"
      "dget ''owner_id'' (register_doc a pk owner sg model extra) = Some (JStr owner)"
      "dget ''model'' (register_doc a pk owner sg model extra) = Some model"
      by (simp_all add: register_doc_def)
    with a c f show ?thesis
      by (auto simp: reg_step_def Register reg_view_def fun_eq_iff simp del: norm.simps(2))
  next
    case (Revoke a)
    with rec obtain owner sg reason where a: "a \<noteq> []"
      and wf: "wf_json (JObj (revoke_doc a owner sg reason))"
      and c: "content_json e = Some (norm (JObj (revoke_doc a owner sg reason)))" by auto
    note f = doc_field [OF wf]
    have "dget ''event_type'' (revoke_doc a owner sg reason) = Some (JStr ''revoke'')"
      "dget ''agent_id'' (revoke_doc a owner sg reason) = Some (JStr a)"
      by (simp_all add: revoke_doc_def)
    with a c f show ?thesis
      by (auto simp: reg_step_def Revoke reg_view_def fun_eq_iff simp del: norm.simps(2) split: option.splits)
  qed
qed

section \<open>The invariant\<close>

text \<open>Registration times carry a time zone, as the code writes them.\<close>

definition aware :: "reg_map \<Rightarrow> bool" where
  "aware f = (\<forall>a r. f a = Some r \<longrightarrow> tz (ra_registered_at r) \<noteq> None)"

definition reg_inv :: "sha \<Rightarrow> entry list \<Rightarrow> reg_index \<Rightarrow> 'z registry_scheme \<Rightarrow> bool" where
  "reg_inv sha es ix g =
     (shard_inv sha IDENTITY_REGISTRY_SHARD (rg_fs g) es \<and> mono_files (rg_fs g) = [] \<and>
      int (length es) \<le> READ_ALL \<and> fold_res reg_step es [] = Inr ix \<and> aware (reg_view ix) \<and>
      (rg_index g = None \<or> rg_index g = Some ix))"

text \<open>What reading may change: the index is filled in.\<close>

definition reg_filled :: "reg_index \<Rightarrow> 'z registry_scheme \<Rightarrow> 'z registry_scheme \<Rightarrow> bool" where
  "reg_filled ix g g' = (\<exists>n. g' = g\<lparr>rg_index := Some ix, rg_index_entry_count := n\<rparr>)"

lemma reg_filledD:
  assumes "reg_filled ix g g'"
  shows "rg_fs g' = rg_fs g" "rg_trust_baseline g' = rg_trust_baseline g" "rg_index g' = Some ix"
    "rg_deep_trust_cache g' = rg_deep_trust_cache g" "reg_inv sha es ix g \<Longrightarrow> reg_inv sha es ix g'"
    "reg_filled ix g' g'' \<Longrightarrow> reg_filled ix g g''"
  using assms by (auto simp: reg_filled_def reg_inv_def)

lemma reg_ensure_inv:
  assumes "reg_inv sha es ix g"
  shows "\<exists>g'. reg_ensure_index g = (g', Inr ix) \<and> reg_filled ix g g'"
proof (cases "rg_index g")
  case None
  have "read IDENTITY_REGISTRY_SHARD 0 READ_ALL (rg_fs g) = (rg_fs g, Inr (rev es))"
    using read_inv [of sha IDENTITY_REGISTRY_SHARD "rg_fs g" es 0 READ_ALL] assms by (simp add: reg_inv_def)
  with None assms show ?thesis by (auto simp: reg_ensure_index_def reg_inv_def reg_filled_def)
next
  case (Some jx)
  then have "reg_ensure_index g = (g, Inr ix)" using assms by (auto simp: reg_inv_def reg_ensure_index_def)
  moreover have "g = g\<lparr>rg_index := Some ix, rg_index_entry_count := rg_index_entry_count g\<rparr>"
    using assms Some by (auto simp: reg_inv_def)
  ultimately show ?thesis unfolding reg_filled_def by blast
qed

definition trust_of :: "int \<Rightarrow> datetime \<Rightarrow> registration option \<Rightarrow> int" where
  "trust_of baseline now v =
     (case v of None \<Rightarrow> 0
      | Some r \<Rightarrow> if ra_revoked r then 0 else fast_trust baseline (instant now - instant (ra_registered_at r)))"

lemma reg_view_aware:
  assumes "aware (reg_view ix)" and "map_of ix (JStr a) = Some r"
  shows "tz (rr_registered_at r) \<noteq> None"
proof -
  let ?v = "\<lparr>ra_agent_id = rr_agent_id r, ra_public_key = rr_public_key r, ra_owner_id = rr_owner_id r,
        ra_model = rr_model r, ra_registered_at = rr_registered_at r, ra_revoked = rr_revoked r\<rparr>"
  have "reg_view ix a = Some ?v" using assms(2) by (simp add: reg_view_def)
  then have "tz (ra_registered_at ?v) \<noteq> None" using assms(1) unfolding aware_def by blast
  then show ?thesis by simp
qed

lemma reg_view_revoked: "reg_view ix a = Some r \<Longrightarrow> \<exists>rr. map_of ix (JStr a) = Some rr \<and> rr_revoked rr = ra_revoked r"
  by (auto simp: reg_view_def)

lemma trust_score_inv:
  assumes "reg_inv sha es ix g"
  shows "\<exists>g'. trust_score now (JStr a) g = (g', Inr (trust_of (rg_trust_baseline g) now (reg_view ix a))) \<and> reg_filled ix g g'"
proof -
  obtain g' where "reg_ensure_index g = (g', Inr ix)" "reg_filled ix g g'" using reg_ensure_inv [OF assms] by blast
  moreover have "tz (rr_registered_at r) \<noteq> None" if "map_of ix (JStr a) = Some r" for r
    using assms that reg_view_aware by (auto simp: reg_inv_def)
  ultimately show ?thesis
    using reg_filledD(2) [of ix g g']
    by (auto simp: trust_score_def sbind_def trust_of_def reg_view_def split: option.splits)
qed

definition resolved :: "int \<Rightarrow> datetime \<Rightarrow> registration option \<Rightarrow> agent_identity option" where
  "resolved baseline now v =
     (case v of None \<Rightarrow> None
      | Some r \<Rightarrow>
          if ra_revoked r then None
          else Some \<lparr>ai_agent_id = ra_agent_id r, ai_public_key = ra_public_key r, ai_owner_id = ra_owner_id r,
                 ai_model = ra_model r, ai_registered_at = ra_registered_at r,
                 ai_trust_score = fast_trust baseline (instant now - instant (ra_registered_at r))\<rparr>)"

lemma resolve_inv:
  assumes "reg_inv sha es ix g"
  shows "\<exists>g'. resolve now a g = (g', Inr (resolved (rg_trust_baseline g) now (reg_view ix a))) \<and> reg_filled ix g g'"
proof -
  obtain g1 where g1: "reg_ensure_index g = (g1, Inr ix)" "reg_filled ix g g1" using reg_ensure_inv [OF assms] by blast
  obtain g2 where g2: "trust_score now (JStr a) g1 = (g2, Inr (trust_of (rg_trust_baseline g1) now (reg_view ix a)))"
    "reg_filled ix g1 g2" using trust_score_inv [OF reg_filledD(5) [OF g1(2) assms]] by blast
  note f = reg_filledD(2,6) [OF g1(2)]
  show ?thesis
    using g1 g2 f(1) f(2) [OF g2(2)]
    by (cases "map_of ix (JStr a)")
      (auto simp: resolve_def sbind_def resolved_def reg_view_def trust_of_def identity_of_def)
qed

section \<open>Writing\<close>

lemma reg_inv_written:
  assumes inv: "reg_inv sha es ix g" and w: "doc_written sha IDENTITY_REGISTRY_SHARD (rg_fs g) es now data s' r"
    and c: "reg_records r c" and room: "int (length es) < READ_ALL"
    and aw: "aware (reg_spec c (reg_view ix))"
    and g': "rg_fs g' = s'" "rg_index g' = None"
  shows "\<exists>ix'. reg_inv sha (es @ [r]) ix' g' \<and> reg_view ix' = reg_spec c (reg_view ix)"
proof -
  obtain ix' where "fold_res reg_step (es @ [r]) [] = Inr ix'" "reg_view ix' = reg_spec c (reg_view ix)"
    using reg.index_snoc [of es ix r c] inv c by (auto simp: reg_inv_def)
  with inv w room aw g' show ?thesis by (auto simp: reg_inv_def doc_written_def)
qed

lemma registry_shard_name [simp]: "IDENTITY_REGISTRY_SHARD \<noteq> []"
  by (simp add: IDENTITY_REGISTRY_SHARD_def)

lemma aware_spec: "aware f \<Longrightarrow> (case c of Register a pk ow m t \<Rightarrow> tz t \<noteq> None | Revoke a \<Rightarrow> True) \<Longrightarrow> aware (reg_spec c f)"
  by (cases c) (auto simp: aware_def split: if_splits)

text \<open>Registration, by anyone, of any name.\<close>

lemma register_inv:
  assumes inv: "reg_inv sha es ix g" and room: "int (length es) < READ_ALL"
    and t: "valid_dt now" "tz now \<noteq> None" and a: "a \<noteq> []" and wf: "wf_json model" "wf_json extra"
  shows "\<exists>g' e r ix'. register sha now uuid a pk owner sg model extra g = (g', Inr e) \<and>
    reg_inv sha (es @ [r]) ix' g' \<and> reg_view ix' = reg_spec (Register a pk owner model now) (reg_view ix) \<and>
    rg_trust_baseline g' = rg_trust_baseline g \<and> g' = g\<lparr>rg_fs := rg_fs g', rg_index := None\<rparr> \<and>
    others_kept sha IDENTITY_REGISTRY_SHARD (rg_fs g) (rg_fs g')"
proof -
  let ?d = "JObj (register_doc a pk owner sg model extra)"
  let ?m = "[(''event_type'', JStr ''register''), (''agent_id'', JStr a)]"
  have wfd: "wf_json ?d" using wf by (simp add: register_doc_def)
  obtain s' e r where app: "append sha now (doc_entry ''identity_registry'' IDENTITY_REGISTRY_SHARD now uuid ?d ?m) (rg_fs g) = (s', Inr e)"
    and w: "doc_written sha IDENTITY_REGISTRY_SHARD (rg_fs g) es now ?d s' r"
    using doc_append [OF _ registry_shard_name t(1) wfd, of sha "rg_fs g" es ?m "''identity_registry''" uuid] inv
    by (auto simp: reg_inv_def meta_ok_def)
  let ?g = "g\<lparr>rg_fs := s', rg_index := None\<rparr>"
  have rec: "reg_records r (Register a pk owner model now)" using w a wfd by (auto simp: doc_written_def simp del: norm.simps(2))
  obtain ix' where "reg_inv sha (es @ [r]) ix' ?g" "reg_view ix' = reg_spec (Register a pk owner model now) (reg_view ix)"
    using reg_inv_written [OF inv w rec room aware_spec, of ?g] inv t(2) by (auto simp: reg_inv_def)
  moreover have "register sha now uuid a pk owner sg model extra g = (?g, Inr e)"
    using app by (simp add: register_def Let_def)
  moreover have "others_kept sha IDENTITY_REGISTRY_SHARD (rg_fs g) s'" using w by (simp add: doc_written_def)
  ultimately show ?thesis by (intro exI [where x = ?g]) auto
qed

lemma revoke_write_inv:
  assumes inv: "reg_inv sha es ix g" and room: "int (length es) < READ_ALL"
    and t: "valid_dt now" and a: "a \<noteq> []" and wf: "wf_json reason"
  shows "\<exists>g' e r ix'. revoke_write sha now uuid a owner sg reason g = (g', Inr e) \<and>
    reg_inv sha (es @ [r]) ix' g' \<and> reg_view ix' = reg_spec (Revoke a) (reg_view ix) \<and>
    rg_trust_baseline g' = rg_trust_baseline g \<and> rg_deep_trust_cache g' = ddel a (rg_deep_trust_cache g)"
proof -
  let ?d = "JObj (revoke_doc a owner sg reason)"
  let ?m = "[(''event_type'', JStr ''revoke''), (''agent_id'', JStr a)]"
  have wfd: "wf_json ?d" using wf by (simp add: revoke_doc_def)
  obtain s' e r where app: "append sha now (doc_entry ''identity_registry'' IDENTITY_REGISTRY_SHARD now uuid ?d ?m) (rg_fs g) = (s', Inr e)"
    and w: "doc_written sha IDENTITY_REGISTRY_SHARD (rg_fs g) es now ?d s' r"
    using doc_append [OF _ registry_shard_name t wfd, of sha "rg_fs g" es ?m "''identity_registry''" uuid] inv
    by (auto simp: reg_inv_def meta_ok_def)
  let ?g = "g\<lparr>rg_fs := s', rg_index := None, rg_deep_trust_cache := ddel a (rg_deep_trust_cache g)\<rparr>"
  have rec: "reg_records r (Revoke a)" using w a wfd by (auto simp: doc_written_def simp del: norm.simps(2))
  obtain ix' where "reg_inv sha (es @ [r]) ix' ?g" "reg_view ix' = reg_spec (Revoke a) (reg_view ix)"
    using reg_inv_written [OF inv w rec room aware_spec, of ?g] inv by (auto simp: reg_inv_def)
  moreover have "revoke_write sha now uuid a owner sg reason g = (?g, Inr e)"
    using app by (simp add: revoke_write_def Let_def)
  ultimately show ?thesis by (intro exI [where x = ?g]) auto
qed

text \<open>A revocation is written for an unknown agent or for its owner, and refused otherwise.\<close>

definition may_revoke :: "string \<Rightarrow> registration option \<Rightarrow> bool" where
  "may_revoke owner v = (case v of None \<Rightarrow> True | Some r \<Rightarrow> ra_owner_id r = JStr owner)"

lemma revoke_inv:
  assumes inv: "reg_inv sha es ix g" and room: "int (length es) < READ_ALL"
    and t: "valid_dt now" and a: "a \<noteq> []" and wf: "wf_json reason" and may: "may_revoke owner (reg_view ix a)"
  shows "\<exists>g' e r ix'. revoke sha now uuid a owner sg reason g = (g', Inr e) \<and>
    reg_inv sha (es @ [r]) ix' g' \<and> reg_view ix' = reg_spec (Revoke a) (reg_view ix) \<and>
    rg_trust_baseline g' = rg_trust_baseline g \<and> rg_deep_trust_cache g' = ddel a (rg_deep_trust_cache g)"
proof -
  obtain g1 where g1: "reg_ensure_index g = (g1, Inr ix)" "reg_filled ix g g1" using reg_ensure_inv [OF inv] by blast
  note f = reg_filledD [OF g1(2)]
  have "revoke sha now uuid a owner sg reason g = revoke_write sha now uuid a owner sg reason g1"
    using g1(1) may by (auto simp: revoke_def sbind_def may_revoke_def reg_view_def split: option.splits)
  then show ?thesis
    using revoke_write_inv [OF f(5) [OF inv] room t a wf, of uuid owner sg] f by auto
qed

lemma revoke_refused:
  assumes inv: "reg_inv sha es ix g" and may: "\<not> may_revoke owner (reg_view ix a)"
  shows "\<exists>g'. revoke sha now uuid a owner sg reason g = (g', Inl (DSMError ''UnauthorizedRevocation'')) \<and> reg_filled ix g g'"
proof -
  obtain g1 where "reg_ensure_index g = (g1, Inr ix)" "reg_filled ix g g1" using reg_ensure_inv [OF inv] by blast
  then show ?thesis
    using may by (auto simp: revoke_def sbind_def may_revoke_def reg_view_def raise_def split: option.splits)
qed

section \<open>Histories\<close>

datatype reg_request =
    RegisterReq datetime string string string string string json json
  | RevokeReq datetime string string string string json

fun run_reg :: "sha \<Rightarrow> reg_request \<Rightarrow> 'z registry_scheme \<Rightarrow> 'z registry_scheme" where
  "run_reg sha (RegisterReq now uuid a pk owner sg model extra) g = fst (register sha now uuid a pk owner sg model extra g)"
| "run_reg sha (RevokeReq now uuid a owner sg reason) g = fst (revoke sha now uuid a owner sg reason g)"

fun reg_request_ok :: "reg_request \<Rightarrow> bool" where
  "reg_request_ok (RegisterReq now uuid a pk owner sg model extra) =
     (valid_dt now \<and> tz now \<noteq> None \<and> a \<noteq> [] \<and> wf_json model \<and> wf_json extra)"
| "reg_request_ok (RevokeReq now uuid a owner sg reason) = (valid_dt now \<and> a \<noteq> [] \<and> wf_json reason)"

fun spec_reg :: "reg_request \<Rightarrow> reg_map \<Rightarrow> reg_map" where
  "spec_reg (RegisterReq now uuid a pk owner sg model extra) f = reg_spec (Register a pk owner model now) f"
| "spec_reg (RevokeReq now uuid a owner sg reason) f = (if may_revoke owner (f a) then reg_spec (Revoke a) f else f)"

definition reg_ready :: "sha \<Rightarrow> int \<Rightarrow> nat \<Rightarrow> 'z registry_scheme \<Rightarrow> bool" where
  "reg_ready sha b n g =
     (rg_trust_baseline g = b \<and> (\<exists>es ix. reg_inv sha es ix g \<and> int (length es) + int n \<le> READ_ALL))"

definition reg_abs :: "'z registry_scheme \<Rightarrow> reg_map" where
  "reg_abs g =
     (case fold_res reg_step (shard_log IDENTITY_REGISTRY_SHARD (rg_fs g)) [] of Inr ix \<Rightarrow> reg_view ix | Inl _ \<Rightarrow> (\<lambda>_. None))"

lemma reg_abs_inv: "reg_inv sha es ix g \<Longrightarrow> reg_abs g = reg_view ix"
  using shard_log_inv [of sha IDENTITY_REGISTRY_SHARD "rg_fs g" es] by (simp add: reg_inv_def reg_abs_def)

lemma run_reg_step:
  assumes "reg_ready sha b (Suc n) g" and "reg_request_ok q"
  shows "reg_ready sha b n (run_reg sha q g) \<and> reg_abs (run_reg sha q g) = spec_reg q (reg_abs g)"
proof -
  obtain es ix where inv: "reg_inv sha es ix g" and room: "int (length es) + int (Suc n) \<le> READ_ALL"
    and b: "rg_trust_baseline g = b" using assms(1) by (auto simp: reg_ready_def)
  have room': "int (length es) < READ_ALL" using room by simp
  note abs = reg_abs_inv [OF inv]
  have stepped: "reg_ready sha b n g' \<and> reg_abs g' = f"
    if "reg_inv sha (es @ [r]) ix' g'" "reg_view ix' = f" "rg_trust_baseline g' = rg_trust_baseline g" for g' r ix' f
    using that room b reg_abs_inv [OF that(1)] by (auto simp: reg_ready_def)
  show ?thesis
  proof (cases q)
    case (RegisterReq now uuid a pk owner sg model extra)
    obtain g' e r ix' where "register sha now uuid a pk owner sg model extra g = (g', Inr e)"
      "reg_inv sha (es @ [r]) ix' g'" "reg_view ix' = reg_spec (Register a pk owner model now) (reg_view ix)"
      "rg_trust_baseline g' = rg_trust_baseline g"
      using register_inv [OF inv room', of now a model extra uuid pk owner sg] assms(2) RegisterReq by auto
    with stepped [OF this(2-4)] RegisterReq abs show ?thesis by simp
  next
    case (RevokeReq now uuid a owner sg reason)
    show ?thesis
    proof (cases "may_revoke owner (reg_view ix a)")
      case True
      obtain g' e r ix' where "revoke sha now uuid a owner sg reason g = (g', Inr e)"
        "reg_inv sha (es @ [r]) ix' g'" "reg_view ix' = reg_spec (Revoke a) (reg_view ix)"
        "rg_trust_baseline g' = rg_trust_baseline g"
        using revoke_inv [OF inv room' _ _ _ True, of now reason uuid sg] assms(2) RevokeReq by auto
      with stepped [OF this(2-4)] RevokeReq abs True show ?thesis by simp
    next
      case False
      obtain g' where g': "revoke sha now uuid a owner sg reason g = (g', Inl (DSMError ''UnauthorizedRevocation''))"
        "reg_filled ix g g'" using revoke_refused [OF inv False] by blast
      note f = reg_filledD [OF g'(2)]
      have "reg_inv sha es ix g'" by (rule f(5) [OF inv])
      with g'(1) RevokeReq abs False reg_abs_inv [OF this] room b f(2) show ?thesis by (auto simp: reg_ready_def)
    qed
  qed
qed

interpretation registry_sim: simulation "reg_ready sha b" reg_abs reg_request_ok "run_reg sha" spec_reg
  for sha :: sha and b :: int
  by unfold_locales (use run_reg_step in blast)+

lemma reg_inv_new:
  assumes "shard_inv sha IDENTITY_REGISTRY_SHARD s es" and "mono_files s = []" and "int (length es) \<le> READ_ALL"
    and "fold_res reg_step es [] = Inr ix" and "aware (reg_view ix)"
  shows "reg_inv sha es ix (new_registry s b)"
  using assms by (simp add: reg_inv_def new_registry_def)

lemma reg_view_Nil [simp]: "reg_view [] = (\<lambda>_. None)"
  by (simp add: reg_view_def fun_eq_iff)

lemma reg_ready_new:
  assumes "shard_inv sha IDENTITY_REGISTRY_SHARD s []" and "mono_files s = []" and "n \<le> 1000000"
  shows "reg_ready sha b n (new_registry s b)" and "reg_abs (new_registry s b) = (\<lambda>_. None)"
proof -
  have inv: "reg_inv sha [] [] (new_registry s b)"
    using assms by (intro reg_inv_new) (simp_all add: READ_ALL_def aware_def)
  then show "reg_ready sha b n (new_registry s b)"
    using assms(3) unfolding reg_ready_def by (auto simp: new_registry_def READ_ALL_def intro!: exI [where x = "[]"])
  show "reg_abs (new_registry s b) = (\<lambda>_. None)" using reg_abs_inv [OF inv] by simp
qed

end
