(* ===== verification/Sovereignty_Laws.thy ===== *)
theory Sovereignty_Laws
  imports Sovereignty Identity_Laws
begin

text \<open>
  The policy store implements a map from owners to policies, the last accepted one of each,
  and the enforcement check is a decision table over that map and the identity registry.
\<close>

section \<open>Validated policies\<close>

lemma validated:
  assumes "validate_policy policy = Inr []"
  obtains agents allowed mts where "dget ''agents'' policy = Some (JList agents)" and "list_all is_str_nonblank agents"
    and "dget ''allowed_types'' policy = Some (JList allowed)" and "list_all is_str_nonblank allowed"
    and "dget ''min_trust_score'' policy = Some mts" and "check_unit ''min_trust_score'' mts = Inr []"
    and "case dget ''trust_baseline'' policy of None \<Rightarrow> True | Some v \<Rightarrow> check_unit ''trust_baseline'' v = Inr []"
    and "case dget ''approval_required'' policy of None \<Rightarrow> True | Some v \<Rightarrow> (\<exists>xs. v = JList xs)"
    and "case dget ''cross_ai'' policy of None \<Rightarrow> True | Some v \<Rightarrow> (\<exists>b. v = JBool b)"
proof -
  have present: "dget k policy \<noteq> None" if "k \<in> set REQUIRED_POLICY_KEYS" for k
    using assms that by (auto simp: validate_policy_def Let_def filter_empty_conv split: if_splits)
  obtain ag at mts where k: "dget ''agents'' policy = Some ag" "dget ''allowed_types'' policy = Some at"
    "dget ''min_trust_score'' policy = Some mts"
    using present [of "''agents''"] present [of "''allowed_types''"] present [of "''min_trust_score''"]
    by (auto simp: REQUIRED_POLICY_KEYS_def)
  then have ok: "check_names ''agents'' ag = []" "check_names ''allowed_types'' at = []"
    "check_unit ''min_trust_score'' mts = Inr []"
    "(case dget ''trust_baseline'' policy of None \<Rightarrow> Inr [] | Some v \<Rightarrow> check_unit ''trust_baseline'' v) = Inr []"
    "(case dget ''approval_required'' policy of None \<Rightarrow> []
       | Some v \<Rightarrow> (case v of JList _ \<Rightarrow> [] | _ \<Rightarrow> [NotAList ''approval_required''])) = []"
    "(case dget ''cross_ai'' policy of None \<Rightarrow> [] | Some v \<Rightarrow> (case v of JBool _ \<Rightarrow> [] | _ \<Rightarrow> [NotABoolean ''cross_ai''])) = []"
    using assms by (auto simp: validate_policy_def Let_def rbind_Inr split: if_splits)
  have names: "\<exists>xs. v = JList xs \<and> list_all is_str_nonblank xs" if "check_names n v = []" for n v
    using that by (auto simp: check_names_def split: json.splits if_splits)
  show ?thesis
    using that k ok(3,4) names [OF ok(1)] names [OF ok(2)] ok(5,6) by (auto split: option.splits json.splits)
qed

text \<open>The float a validated number stands for survives the round trip through the store.\<close>

lemma dump_float_back:
  assumes "check_unit k v = Inr []" and "wf_json v"
  shows "wf_json (dump_float v)" and "norm (dump_float v) = dump_float v"
    and "py_float fstr (dump_float v) = py_float (\<lambda>_. None) v"
proof -
  obtain x where x: "is_number v" "py_float (\<lambda>_. None) v = Inr x" "flt_le (Fin 0) x" "flt_le x (Fin ONE)"
    using assms(1) by (auto simp: check_unit_def rbind_Inr split: if_splits)
  show "wf_json (dump_float v)" using assms(2) by (cases v) (auto simp: dump_float_def)
  show "norm (dump_float v) = dump_float v" using x(1) by (cases v) (auto simp: dump_float_def is_number_def)
  show "py_float fstr (dump_float v) = py_float (\<lambda>_. None) v"
  proof (cases v)
    case (JInt i)
    then have "x = Fin (fof_int i)" using x(2) by (auto simp: py_float_def split: if_splits)
    then have "i = 0 \<or> i = 1" using x(3,4) fof_int_unit [of i] by auto
    moreover have "fof_int 0 = 0" by (simp add: fof_int_def)
    ultimately show ?thesis using JInt x(2) \<open>x = Fin (fof_int i)\<close> by (auto simp: dump_float_def py_float_def)
  qed (use x(1) in \<open>auto simp: dump_float_def py_float_def is_number_def\<close>)
qed

section \<open>The specification\<close>

definition names_of :: "json option \<Rightarrow> json list" where
  "names_of v = (case v of Some (JList xs) \<Rightarrow> map norm xs | _ \<Rightarrow> [])"

definition score_of :: "json option \<Rightarrow> flt" where
  "score_of v = (case py_float (\<lambda>_. None) (case v of None \<Rightarrow> JFloat ''0.5'' | Some w \<Rightarrow> w) of Inr x \<Rightarrow> x | Inl _ \<Rightarrow> NaN)"

text \<open>The policy an owner set, with the hash of its entry masked.\<close>

definition policy_of :: "string \<Rightarrow> (string \<times> json) list \<Rightarrow> datetime \<Rightarrow> policy_snapshot" where
  "policy_of owner policy t =
     \<lparr>ps_owner_id = JStr owner, ps_agents = names_of (dget ''agents'' policy),
      ps_min_trust_score = score_of (dget ''min_trust_score'' policy), ps_trust_baseline = score_of (dget ''trust_baseline'' policy),
      ps_allowed_types = names_of (dget ''allowed_types'' policy),
      ps_approval_required = names_of (dget ''approval_required'' policy),
      ps_cross_ai = (dget ''cross_ai'' policy = Some (JBool True)), ps_set_at = t, ps_entry_hash = JNull\<rparr>"

type_synonym pol_map = "string \<Rightarrow> (policy_snapshot \<times> bool) option"

datatype pol_command = SetPolicy string "(string \<times> json) list" datetime | RevokePolicy string

fun pol_spec :: "pol_command \<Rightarrow> pol_map \<Rightarrow> pol_map" where
  "pol_spec (SetPolicy owner policy t) f = f(owner \<mapsto> (policy_of owner policy t, False))"
| "pol_spec (RevokePolicy owner) f = f(owner := map_option (\<lambda>(p, _). (p, True)) (f owner))"

definition pol_view :: "pol_index \<Rightarrow> pol_map" where
  "pol_view ix owner = map_option (\<lambda>(p, rv). (p\<lparr>ps_entry_hash := JNull\<rparr>, rv)) (map_of ix (JStr owner))"

fun pol_records :: "entry \<Rightarrow> pol_command \<Rightarrow> bool" where
  "pol_records e (SetPolicy owner policy t) =
     (owner \<noteq> [] \<and> timestamp e = t \<and> validate_policy policy = Inr [] \<and> wf_json (JObj policy) \<and>
      (\<exists>sg. content_json e = Some (norm (JObj (policy_doc owner sg policy)))))"
| "pol_records e (RevokePolicy owner) =
     (owner \<noteq> [] \<and>
      (\<exists>sg reason. wf_json (JObj (revoke_policy_doc owner sg reason)) \<and>
         content_json e = Some (norm (JObj (revoke_policy_doc owner sg reason)))))"

lemma wf_dget: "wf_json (JObj d) \<Longrightarrow> dget k d = Some v \<Longrightarrow> wf_json v"
  by (auto simp: list_all_iff dest: map_of_SomeD)

lemma policy_doc_wf:
  assumes "validate_policy policy = Inr []" and "wf_json (JObj policy)"
  shows "wf_json (JObj (policy_doc owner sg policy))"
proof -
  obtain agents allowed mts where p: "dget ''agents'' policy = Some (JList agents)"
    "dget ''allowed_types'' policy = Some (JList allowed)" "dget ''min_trust_score'' policy = Some mts"
    "check_unit ''min_trust_score'' mts = Inr []"
    "case dget ''trust_baseline'' policy of None \<Rightarrow> True | Some v \<Rightarrow> check_unit ''trust_baseline'' v = Inr []"
    by (rule validated [OF assms(1)])
  note w = wf_dget [OF assms(2)]
  have half: "wf_json (dump_float (JFloat ''0.5''))" by (simp add: dump_float_def)
  have tb: "wf_json (dump_float (case dget ''trust_baseline'' policy of None \<Rightarrow> JFloat ''0.5'' | Some v \<Rightarrow> v))"
    using p(5) w half dump_float_back(1) by (auto split: option.splits)
  have ap: "wf_json (case dget ''approval_required'' policy of None \<Rightarrow> JList [] | Some v \<Rightarrow> v)"
    using w by (auto split: option.splits)
  show ?thesis
    using p(1,2,3) w [OF p(1)] w [OF p(2)] dump_float_back(1) [OF p(4) w [OF p(3)]] tb ap
    by (simp add: policy_doc_def)
qed

text \<open>The stored policy, read back field by field.\<close>

lemma policy_doc_fields:
  fixes owner sg :: string and policy :: "(string \<times> json) list"
  assumes ok: "validate_policy policy = Inr []" and wf: "wf_json (JObj policy)"
  defines "d \<equiv> norm (JObj (policy_doc owner sg policy))"
  shows "\<exists>p. jget ''policy'' (JObj []) d = Inr p \<and> jget ''event_type'' JNull d = Inr (JStr ''set_policy'') \<and>
    jget ''owner_id'' JNull d = Inr (JStr owner) \<and>
    rbind (jget ''agents'' (JList []) p) py_iter = Inr (names_of (dget ''agents'' policy)) \<and>
    rbind (jget ''min_trust_score'' (JFloat ''0.5'') p) (py_float fstr) = Inr (score_of (dget ''min_trust_score'' policy)) \<and>
    rbind (jget ''trust_baseline'' (JFloat ''0.5'') p) (py_float fstr) = Inr (score_of (dget ''trust_baseline'' policy)) \<and>
    rbind (jget ''allowed_types'' (JList []) p) py_iter = Inr (names_of (dget ''allowed_types'' policy)) \<and>
    rbind (jget ''approval_required'' (JList []) p) py_iter = Inr (names_of (dget ''approval_required'' policy)) \<and>
    (\<exists>c. jget ''cross_ai'' (JBool False) p = Inr c \<and> truthy c = (dget ''cross_ai'' policy = Some (JBool True)))"
proof -
  obtain agents allowed mts where p: "dget ''agents'' policy = Some (JList agents)"
    "dget ''allowed_types'' policy = Some (JList allowed)" "dget ''min_trust_score'' policy = Some mts"
    "check_unit ''min_trust_score'' mts = Inr []"
    and tb: "case dget ''trust_baseline'' policy of None \<Rightarrow> True | Some v \<Rightarrow> check_unit ''trust_baseline'' v = Inr []"
    and ap: "case dget ''approval_required'' policy of None \<Rightarrow> True | Some v \<Rightarrow> (\<exists>xs. v = JList xs)"
    and ca: "case dget ''cross_ai'' policy of None \<Rightarrow> True | Some v \<Rightarrow> (\<exists>b. v = JBool b)"
    by (rule validated [OF ok])
  note w = wf_dget [OF wf]
  have wd: "wf_json (JObj (policy_doc owner sg policy))" by (rule policy_doc_wf [OF ok wf])
  obtain q where q: "dget ''policy'' (policy_doc owner sg policy) = Some (JObj q)"
    and qdef: "q = [(''agents'', JList agents), (''min_trust_score'', dump_float mts),
       (''trust_baseline'', dump_float (case dget ''trust_baseline'' policy of None \<Rightarrow> JFloat ''0.5'' | Some v \<Rightarrow> v)),
       (''allowed_types'', JList allowed),
       (''approval_required'', case dget ''approval_required'' policy of None \<Rightarrow> JList [] | Some v \<Rightarrow> v),
       (''cross_ai'', JBool (truthy (case dget ''cross_ai'' policy of None \<Rightarrow> JBool False | Some v \<Rightarrow> v)))]"
    using p by (simp add: policy_doc_def)
  have wq: "wf_json (JObj q)" using wf_dget [OF wd q] .
  note f = doc_field [OF wd, folded d_def] and g = doc_field [OF wq]
  have unit: "\<exists>x. py_float (\<lambda>_. None) v = Inr x" if "check_unit k v = Inr []" for k v
    using that by (auto simp: check_unit_def rbind_Inr split: if_splits)
  have m: "norm (dump_float mts) = dump_float mts" "py_float fstr (dump_float mts) = py_float (\<lambda>_. None) mts"
    using dump_float_back(2,3) [OF p(4) w [OF p(3)]] by simp_all
  let ?t = "case dget ''trust_baseline'' policy of None \<Rightarrow> JFloat ''0.5'' | Some v \<Rightarrow> v"
  have t: "norm (dump_float ?t) = dump_float ?t \<and> py_float fstr (dump_float ?t) = py_float (\<lambda>_. None) ?t \<and>
      (\<exists>x. py_float (\<lambda>_. None) ?t = Inr x)"
    using tb dump_float_back(2,3) w unit
    by (cases "dget ''trust_baseline'' policy") (auto simp: dump_float_def py_float_def)
  obtain x where x: "py_float (\<lambda>_. None) mts = Inr x" using unit [OF p(4)] by blast
  have "jget ''policy'' (JObj []) d = Inr (norm (JObj q))" using f [of "''policy''" "JObj []"] q by simp
  moreover have "jget ''event_type'' JNull d = Inr (JStr ''set_policy'')" "jget ''owner_id'' JNull d = Inr (JStr owner)"
    using f by (simp_all add: policy_doc_def)
  moreover have "rbind (jget ''agents'' (JList []) (norm (JObj q))) py_iter = Inr (names_of (dget ''agents'' policy))"
    "rbind (jget ''allowed_types'' (JList []) (norm (JObj q))) py_iter = Inr (names_of (dget ''allowed_types'' policy))"
    unfolding g using p by (simp_all add: qdef names_of_def py_iter_def)
  moreover have "rbind (jget ''min_trust_score'' (JFloat ''0.5'') (norm (JObj q))) (py_float fstr) = Inr (score_of (dget ''min_trust_score'' policy))"
    unfolding g using m x p(3) by (simp add: qdef score_of_def)
  moreover have "rbind (jget ''trust_baseline'' (JFloat ''0.5'') (norm (JObj q))) (py_float fstr) = Inr (score_of (dget ''trust_baseline'' policy))"
    unfolding g using t by (auto simp: qdef score_of_def)
  moreover have "rbind (jget ''approval_required'' (JList []) (norm (JObj q))) py_iter = Inr (names_of (dget ''approval_required'' policy))"
    unfolding g using ap by (auto simp: qdef names_of_def py_iter_def split: option.splits)
  moreover have "\<exists>c. jget ''cross_ai'' (JBool False) (norm (JObj q)) = Inr c \<and> truthy c = (dget ''cross_ai'' policy = Some (JBool True))"
    unfolding g using ca by (auto simp: qdef split: option.splits)
  ultimately show ?thesis by blast
qed

interpretation pol: event_index "pol_step fstr" "[]" pol_view pol_records pol_spec
  for fstr :: "string \<Rightarrow> flt option"
proof
  fix e c ix
  assume rec: "pol_records e c"
  show "\<exists>ix'. pol_step fstr e ix = Inr ix' \<and> pol_view ix' = pol_spec c (pol_view ix)"
  proof (cases c)
    case (SetPolicy owner policy t)
    with rec obtain sg where a: "owner \<noteq> []" "timestamp e = t" and v: "validate_policy policy = Inr []" "wf_json (JObj policy)"
      and c: "content_json e = Some (norm (JObj (policy_doc owner sg policy)))" by auto
    from policy_doc_fields [OF v, of owner sg fstr] show ?thesis
      using a c by (elim exE conjE)
        (simp add: pol_step_def SetPolicy pol_view_def policy_of_def fun_eq_iff del: norm.simps(2))
  next
    case (RevokePolicy owner)
    with rec obtain sg reason where a: "owner \<noteq> []"
      and wf: "wf_json (JObj (revoke_policy_doc owner sg reason))"
      and c: "content_json e = Some (norm (JObj (revoke_policy_doc owner sg reason)))" by auto
    note f = doc_field [OF wf]
    have "dget ''event_type'' (revoke_policy_doc owner sg reason) = Some (JStr ''revoke_policy'')"
      "dget ''owner_id'' (revoke_policy_doc owner sg reason) = Some (JStr owner)"
      by (simp_all add: revoke_policy_doc_def)
    with a c f show ?thesis
      by (auto simp: pol_step_def RevokePolicy pol_view_def fun_eq_iff simp del: norm.simps(2) split: option.splits)
  qed
qed

section \<open>The invariant\<close>

definition pol_inv :: "sha \<Rightarrow> (string \<Rightarrow> flt option) \<Rightarrow> entry list \<Rightarrow> pol_index \<Rightarrow> 'z policies_scheme \<Rightarrow> bool" where
  "pol_inv sha fstr es ix g =
     (shard_inv sha SOVEREIGNTY_SHARD (rg_fs g) es \<and> mono_files (rg_fs g) = [] \<and> int (length es) \<le> READ_ALL \<and>
      fold_res (pol_step fstr) es [] = Inr ix \<and> (pl_index g = None \<or> pl_index g = Some ix))"

lemma pol_ensure_inv:
  assumes "pol_inv sha fstr es ix g"
  shows "pol_ensure_index fstr g = (g\<lparr>pl_index := Some ix\<rparr>, Inr ix)"
proof (cases "pl_index g")
  case None
  have "read SOVEREIGNTY_SHARD 0 READ_ALL (rg_fs g) = (rg_fs g, Inr (rev es))"
    using read_inv [of sha SOVEREIGNTY_SHARD "rg_fs g" es 0 READ_ALL] assms by (simp add: pol_inv_def)
  with None assms show ?thesis by (auto simp: pol_ensure_index_def pol_inv_def)
next
  case (Some jx)
  with assms show ?thesis by (auto simp: pol_inv_def pol_ensure_index_def)
qed

definition active :: "(policy_snapshot \<times> bool) option \<Rightarrow> policy_snapshot option" where
  "active v = (case v of None \<Rightarrow> None | Some (p, revoked) \<Rightarrow> if revoked then None else Some p)"

definition masked :: "policy_snapshot \<Rightarrow> policy_snapshot" where
  "masked p = p\<lparr>ps_entry_hash := JNull\<rparr>"

lemma get_policy_inv:
  assumes "pol_inv sha fstr es ix g"
  shows "\<exists>p. get_policy fstr owner g = (g\<lparr>pl_index := Some ix\<rparr>, Inr p) \<and> map_option masked p = active (pol_view ix owner)"
  using pol_ensure_inv [OF assms]
  by (auto simp: get_policy_def sbind_def active_def pol_view_def masked_def split: option.splits)

section \<open>Enforcement\<close>

definition decide :: "(json \<Rightarrow> string) \<Rightarrow> policy_snapshot option \<Rightarrow> string \<Rightarrow> int \<Rightarrow> json \<Rightarrow> bool \<Rightarrow> enforcement" where
  "decide py_str p agent score entry_type foreign =
     (case p of
        None \<Rightarrow> deny ''no_policy''
      | Some policy \<Rightarrow>
          if JStr agent \<notin> set (ps_agents policy) then deny ''not_whitelisted''
          else if flt_less (Fin score) (ps_min_trust_score policy) then deny ''low_trust''
          else if entry_type \<notin> set (ps_allowed_types policy) then deny ''type_forbidden''
          else if foreign \<and> \<not> ps_cross_ai policy then deny ''cross_ai_denied''
          else after_type py_str policy entry_type)"

lemma decide_masked: "decide py_str (map_option masked p) agent score ty fo = decide py_str p agent score ty fo"
  by (simp add: decide_def masked_def after_type_def split: option.splits)

text \<open>A contribution in the name of a model other than the one registered for the agent.\<close>

definition foreign_model :: "string option \<Rightarrow> registration option \<Rightarrow> bool" where
  "foreign_model m v =
     (m \<noteq> None \<and> m \<noteq> Some [] \<and>
      (case v of None \<Rightarrow> False
       | Some r \<Rightarrow> \<not> ra_revoked r \<and> truthy (ra_model r) \<and> ra_model r \<noteq> JStr (the m)))"

text \<open>What an enforcement check may change: the two indexes are filled in.\<close>

definition gov_filled :: "'z policies_scheme \<Rightarrow> 'z policies_scheme \<Rightarrow> bool" where
  "gov_filled g g' = (\<exists>i n p. g' = g\<lparr>rg_index := i, rg_index_entry_count := n, pl_index := p\<rparr>)"

definition gov_inv ::
    "sha \<Rightarrow> (string \<Rightarrow> flt option) \<Rightarrow> reg_index \<Rightarrow> pol_index \<Rightarrow> 'z policies_scheme \<Rightarrow> bool" where
  "gov_inv sha fstr rix pix g = ((\<exists>es. reg_inv sha es rix g) \<and> (\<exists>es. pol_inv sha fstr es pix g))"

lemma gov_filled_reg:
  assumes "reg_filled rix g g'" and "gov_inv sha fstr rix pix g"
  shows "gov_filled g g' \<and> gov_inv sha fstr rix pix g'"
proof -
  obtain n where g': "g' = g\<lparr>rg_index := Some rix, rg_index_entry_count := n\<rparr>" using assms(1) by (auto simp: reg_filled_def)
  then have "gov_filled g g'" unfolding gov_filled_def by (intro exI [where x = "Some rix"] exI [where x = n] exI [where x = "pl_index g"]) simp
  with g' assms(2) show ?thesis by (auto simp: gov_inv_def reg_inv_def pol_inv_def)
qed

lemma gov_filled_pol:
  assumes "gov_inv sha fstr rix pix g"
  shows "gov_filled g (g\<lparr>pl_index := Some pix\<rparr>) \<and> gov_inv sha fstr rix pix (g\<lparr>pl_index := Some pix\<rparr>)"
proof -
  have "g\<lparr>pl_index := Some pix\<rparr> = g\<lparr>rg_index := rg_index g, rg_index_entry_count := rg_index_entry_count g, pl_index := Some pix\<rparr>"
    by simp
  then have "gov_filled g (g\<lparr>pl_index := Some pix\<rparr>)" unfolding gov_filled_def by blast
  with assms show ?thesis by (auto simp: gov_inv_def reg_inv_def pol_inv_def)
qed

lemma gov_filled_trans: "gov_filled g g' \<Longrightarrow> gov_filled g' g'' \<Longrightarrow> gov_filled g g''"
  by (auto simp: gov_filled_def) blast

lemma gov_trust:
  assumes "gov_inv sha fstr rix pix g"
  shows "\<exists>g'. trust_score now (JStr a) g = (g', Inr (trust_of (rg_trust_baseline g) now (reg_view rix a))) \<and>
    gov_filled g g' \<and> gov_inv sha fstr rix pix g'"
proof -
  obtain es where "reg_inv sha es rix g" using assms by (auto simp: gov_inv_def)
  from trust_score_inv [OF this] gov_filled_reg [OF _ assms] show ?thesis by blast
qed

lemma gov_resolve:
  assumes "gov_inv sha fstr rix pix g"
  shows "\<exists>g'. resolve now a g = (g', Inr (resolved (rg_trust_baseline g) now (reg_view rix a))) \<and>
    gov_filled g g' \<and> gov_inv sha fstr rix pix g'"
proof -
  obtain es where "reg_inv sha es rix g" using assms by (auto simp: gov_inv_def)
  from resolve_inv [OF this] gov_filled_reg [OF _ assms] show ?thesis by blast
qed

lemma gov_filled_baseline: "gov_filled g g' \<Longrightarrow> rg_trust_baseline g' = rg_trust_baseline g"
  by (auto simp: gov_filled_def)

lemma allows_inv:
  assumes inv: "gov_inv sha fstr rix pix g"
  shows "\<exists>g'. allows py_str fstr now owner agent ty model g =
    (g', Inr (decide py_str (active (pol_view pix owner)) agent (trust_of (rg_trust_baseline g) now (reg_view rix agent)) ty
       (foreign_model model (reg_view rix agent)))) \<and> gov_filled g g' \<and> gov_inv sha fstr rix pix g'"
proof -
  let ?g1 = "g\<lparr>pl_index := Some pix\<rparr>"
  note f1 = gov_filled_pol [OF inv]
  obtain p where p: "get_policy fstr owner g = (?g1, Inr p)" "map_option masked p = active (pol_view pix owner)"
    using inv get_policy_inv by (fastforce simp: gov_inv_def)
  obtain g2 where t: "trust_score now (JStr agent) ?g1 = (g2, Inr (trust_of (rg_trust_baseline g) now (reg_view rix agent)))"
    and f2: "gov_filled ?g1 g2" "gov_inv sha fstr rix pix g2"
    using gov_trust [OF conjunct2 [OF f1], of now agent] by auto
  obtain g3 where r: "resolve now agent g2 = (g3, Inr (resolved (rg_trust_baseline g2) now (reg_view rix agent)))"
    and f3: "gov_filled g2 g3" "gov_inv sha fstr rix pix g3"
    using gov_resolve [OF f2(2), of now agent] by auto
  have c: "gov_filled g g2" "gov_filled g g3" using f1 f2(1) f3(1) gov_filled_trans by blast+
  show ?thesis
    unfolding p(2) [symmetric] decide_masked
  proof (cases p)
    case None
    then show "\<exists>g'. allows py_str fstr now owner agent ty model g = (g', Inr (decide py_str p agent
        (trust_of (rg_trust_baseline g) now (reg_view rix agent)) ty (foreign_model model (reg_view rix agent)))) \<and>
      gov_filled g g' \<and> gov_inv sha fstr rix pix g'"
      using p f1 by (auto simp: allows_def sbind_def decide_def)
  next
    case (Some policy)
    then show "\<exists>g'. allows py_str fstr now owner agent ty model g = (g', Inr (decide py_str p agent
        (trust_of (rg_trust_baseline g) now (reg_view rix agent)) ty (foreign_model model (reg_view rix agent)))) \<and>
      gov_filled g g' \<and> gov_inv sha fstr rix pix g'"
      using p f1 t f2 r f3 c
      by (auto simp: allows_def sbind_def decide_def foreign_model_def resolved_def split: option.splits)
  qed
qed

section \<open>Writing and histories\<close>

lemma sovereignty_shard_name [simp]: "SOVEREIGNTY_SHARD \<noteq> []"
  by (simp add: SOVEREIGNTY_SHARD_def)

lemma pol_write_inv:
  assumes inv: "pol_inv sha fstr es ix g" and room: "int (length es) < READ_ALL" and t: "valid_dt now"
    and wf: "wf_json data" and rec: "\<And>r. content_json r = Some (norm data) \<Longrightarrow> timestamp r = now \<Longrightarrow> pol_records r c"
  shows "\<exists>g' e r ix'. pol_write sha now uuid ety data owner g = (g', Inr e) \<and>
    pol_inv sha fstr (es @ [r]) ix' g' \<and> pol_view ix' = pol_spec c (pol_view ix) \<and>
    g' = g\<lparr>rg_fs := rg_fs g', pl_index := None\<rparr> \<and> others_kept sha SOVEREIGNTY_SHARD (rg_fs g) (rg_fs g')"
proof -
  let ?m = "[(''event_type'', JStr ety), (''owner_id'', JStr owner)]"
  obtain s' e r where app: "append sha now (doc_entry ''sovereignty'' SOVEREIGNTY_SHARD now uuid data ?m) (rg_fs g) = (s', Inr e)"
    and w: "doc_written sha SOVEREIGNTY_SHARD (rg_fs g) es now data s' r"
    using doc_append [OF _ sovereignty_shard_name t wf, of sha "rg_fs g" es ?m "''sovereignty''" uuid] inv
    by (auto simp: pol_inv_def meta_ok_def)
  let ?g = "g\<lparr>rg_fs := s', pl_index := None\<rparr>"
  have "pol_records r c" using rec w by (simp add: doc_written_def)
  then obtain ix' where "fold_res (pol_step fstr) (es @ [r]) [] = Inr ix'" "pol_view ix' = pol_spec c (pol_view ix)"
    using pol.index_snoc [of fstr es ix r c] inv by (auto simp: pol_inv_def)
  moreover from this have "pol_inv sha fstr (es @ [r]) ix' ?g" using inv w room by (auto simp: pol_inv_def doc_written_def)
  moreover have "pol_write sha now uuid ety data owner g = (?g, Inr e)" using app by (simp add: pol_write_def Let_def)
  moreover have "others_kept sha SOVEREIGNTY_SHARD (rg_fs g) s'" using w by (simp add: doc_written_def)
  ultimately show ?thesis by (intro exI [where x = ?g]) auto
qed

datatype pol_request =
    SetReq datetime string string string "(string \<times> json) list"
  | RevokePolicyReq datetime string string string json

fun run_pol :: "sha \<Rightarrow> pol_request \<Rightarrow> 'z policies_scheme \<Rightarrow> 'z policies_scheme" where
  "run_pol sha (SetReq now uuid owner sg policy) g = fst (set_policy sha now uuid owner sg policy g)"
| "run_pol sha (RevokePolicyReq now uuid owner sg reason) g = fst (revoke_policy sha now uuid owner sg reason g)"

fun pol_request_ok :: "pol_request \<Rightarrow> bool" where
  "pol_request_ok (SetReq now uuid owner sg policy) = (valid_dt now \<and> owner \<noteq> [] \<and> wf_json (JObj policy))"
| "pol_request_ok (RevokePolicyReq now uuid owner sg reason) = (valid_dt now \<and> owner \<noteq> [] \<and> wf_json reason)"

fun spec_pol :: "pol_request \<Rightarrow> pol_map \<Rightarrow> pol_map" where
  "spec_pol (SetReq now uuid owner sg policy) f =
     (if validate_policy policy = Inr [] then pol_spec (SetPolicy owner policy now) f else f)"
| "spec_pol (RevokePolicyReq now uuid owner sg reason) f = pol_spec (RevokePolicy owner) f"

definition pol_ready :: "sha \<Rightarrow> (string \<Rightarrow> flt option) \<Rightarrow> nat \<Rightarrow> 'z policies_scheme \<Rightarrow> bool" where
  "pol_ready sha fstr n g = (\<exists>es ix. pol_inv sha fstr es ix g \<and> int (length es) + int n \<le> READ_ALL)"

definition pol_abs :: "(string \<Rightarrow> flt option) \<Rightarrow> 'z policies_scheme \<Rightarrow> pol_map" where
  "pol_abs fstr g =
     (case fold_res (pol_step fstr) (shard_log SOVEREIGNTY_SHARD (rg_fs g)) [] of Inr ix \<Rightarrow> pol_view ix | Inl _ \<Rightarrow> (\<lambda>_. None))"

lemma pol_abs_inv: "pol_inv sha fstr es ix g \<Longrightarrow> pol_abs fstr g = pol_view ix"
  using shard_log_inv [of sha SOVEREIGNTY_SHARD "rg_fs g" es] by (simp add: pol_inv_def pol_abs_def)

lemma run_pol_step:
  assumes "pol_ready sha fstr (Suc n) g" and "pol_request_ok q"
  shows "pol_ready sha fstr n (run_pol sha q g) \<and> pol_abs fstr (run_pol sha q g) = spec_pol q (pol_abs fstr g)"
proof -
  obtain es ix where inv: "pol_inv sha fstr es ix g" and room: "int (length es) + int (Suc n) \<le> READ_ALL"
    using assms(1) by (auto simp: pol_ready_def)
  have room': "int (length es) < READ_ALL" using room by simp
  note abs = pol_abs_inv [OF inv]
  have stepped: "pol_ready sha fstr n g' \<and> pol_abs fstr g' = f"
    if "pol_inv sha fstr (es @ [r]) ix' g'" "pol_view ix' = f" for g' r ix' f
    using that room pol_abs_inv [OF that(1)] by (auto simp: pol_ready_def)
  show ?thesis
  proof (cases q)
    case (SetReq now uuid owner sg policy)
    show ?thesis
    proof (cases "validate_policy policy = Inr []")
      case True
      then have "\<exists>g' e r ix'. pol_write sha now uuid ''set_policy'' (JObj (policy_doc owner sg policy)) owner g = (g', Inr e) \<and>
        pol_inv sha fstr (es @ [r]) ix' g' \<and> pol_view ix' = pol_spec (SetPolicy owner policy now) (pol_view ix) \<and>
        g' = g\<lparr>rg_fs := rg_fs g', pl_index := None\<rparr> \<and> others_kept sha SOVEREIGNTY_SHARD (rg_fs g) (rg_fs g')"
        using assms(2) SetReq policy_doc_wf [OF True]
        by (intro pol_write_inv [OF inv room']) (auto simp del: norm.simps)
      then obtain g' e r ix' where "pol_write sha now uuid ''set_policy'' (JObj (policy_doc owner sg policy)) owner g = (g', Inr e)"
        "pol_inv sha fstr (es @ [r]) ix' g'" "pol_view ix' = pol_spec (SetPolicy owner policy now) (pol_view ix)" by blast
      with stepped [OF this(2,3)] True abs SetReq show ?thesis by (simp add: set_policy_def)
    next
      case False
      then have "fst (set_policy sha now uuid owner sg policy g) = g"
        by (auto simp: set_policy_def split: sum.splits)
      with inv room abs SetReq False show ?thesis by (auto simp: pol_ready_def)
    qed
  next
    case (RevokePolicyReq now uuid owner sg reason)
    then have "\<exists>g' e r ix'. pol_write sha now uuid ''revoke_policy'' (JObj (revoke_policy_doc owner sg reason)) owner g = (g', Inr e) \<and>
      pol_inv sha fstr (es @ [r]) ix' g' \<and> pol_view ix' = pol_spec (RevokePolicy owner) (pol_view ix) \<and>
      g' = g\<lparr>rg_fs := rg_fs g', pl_index := None\<rparr> \<and> others_kept sha SOVEREIGNTY_SHARD (rg_fs g) (rg_fs g')"
      using assms(2) by (intro pol_write_inv [OF inv room']) (auto simp: revoke_policy_doc_def simp del: norm.simps)
    then obtain g' e r ix' where "pol_write sha now uuid ''revoke_policy'' (JObj (revoke_policy_doc owner sg reason)) owner g = (g', Inr e)"
      "pol_inv sha fstr (es @ [r]) ix' g'" "pol_view ix' = pol_spec (RevokePolicy owner) (pol_view ix)" by blast
    with stepped [OF this(2,3)] abs RevokePolicyReq show ?thesis by (simp add: revoke_policy_def)
  qed
qed

interpretation policy_sim: simulation "pol_ready sha fstr" "pol_abs fstr" pol_request_ok "run_pol sha" spec_pol
  for sha :: sha and fstr :: "string \<Rightarrow> flt option"
  by unfold_locales (use run_pol_step in blast)+

definition new_policies :: "fs \<Rightarrow> int \<Rightarrow> policies" where
  "new_policies s b = \<lparr>rg_fs = s, rg_trust_baseline = b, rg_index = None, rg_index_entry_count = 0,
     rg_deep_trust_cache = [], pl_index = None\<rparr>"

lemma pol_view_Nil [simp]: "pol_view [] = (\<lambda>_. None)"
  by (simp add: pol_view_def fun_eq_iff)

lemma pol_inv_new:
  "shard_inv sha SOVEREIGNTY_SHARD s [] \<Longrightarrow> mono_files s = [] \<Longrightarrow> pol_inv sha fstr [] [] (new_policies s b)"
  by (simp add: pol_inv_def new_policies_def READ_ALL_def)

end
