(* ===== verification/Sovereignty_Props.thy ===== *)
theory Sovereignty_Props
  imports Sovereignty_Laws
begin

text \<open>Properties of the sovereignty policies.\<close>

text \<open>
  C17: the policy store refines a map from owners to policies. After any history of
  settings and revocations, the policy read for an owner is the last one set with a valid
  structure, with the same agents, types and flags and the same floating-point
  thresholds, or none if it was revoked since; an invalid one changes nothing. A store
  started afresh on the same storage reads the same. (Up to a million requests, the
  number of entries a start reads back.)
\<close>

theorem policies_refine_spec:
  assumes "shard_inv sha SOVEREIGNTY_SHARD s []" and "mono_files s = []"
    and "\<forall>q \<in> set qs. pol_request_ok q" and "length qs \<le> 1000000"
  shows "\<exists>p. snd (get_policy fstr owner (fold (run_pol sha) qs (new_policies s b))) = Inr p \<and>
    snd (get_policy fstr owner (new_policies (rg_fs (fold (run_pol sha) qs (new_policies s b))) b)) = Inr p \<and>
    map_option masked p = active (fold spec_pol qs (\<lambda>_. None) owner)"
proof -
  let ?g = "fold (run_pol sha) qs (new_policies s b)"
  have inv0: "pol_inv sha fstr [] [] (new_policies s b)" by (rule pol_inv_new [OF assms(1,2)])
  then have ready: "pol_ready sha fstr (length qs) (new_policies s b)"
    using assms(4) unfolding pol_ready_def by (intro exI [where x = "[]"]) (simp add: READ_ALL_def)
  have "pol_ready sha fstr 0 ?g" using policy_sim.steps_inv [of sha fstr qs 0] ready assms(3) by simp
  then obtain es ix where inv: "pol_inv sha fstr es ix ?g" by (auto simp: pol_ready_def)
  have view: "pol_view ix = fold spec_pol qs (\<lambda>_. None)"
    using policy_sim.steps_abs [OF ready assms(3)] pol_abs_inv [OF inv] pol_abs_inv [OF inv0] by simp
  have inv': "pol_inv sha fstr es ix (new_policies (rg_fs ?g) b)" using inv by (simp add: pol_inv_def new_policies_def)
  have "snd (get_policy fstr owner ?g) = snd (get_policy fstr owner (new_policies (rg_fs ?g) b))"
    using pol_ensure_inv [OF inv] pol_ensure_inv [OF inv'] by (simp add: get_policy_def sbind_def)
  with get_policy_inv [OF inv, of owner] view show ?thesis by (metis snd_conv)
qed

definition sample_policy :: "(string \<times> json) list" where
  "sample_policy = [(''agents'', JList [JStr ''bot'']), (''min_trust_score'', JInt 0),
     (''allowed_types'', JList [JStr ''observation'', JStr ''action'']), (''approval_required'', JList [JStr ''action''])]"

lemma sample_policy_ok [simp]: "validate_policy sample_policy = Inr []" "wf_json (JObj sample_policy)"
proof -
  have "fof_int 0 = 0" by (simp add: fof_int_def)
  moreover have "strip ''bot'' \<noteq> []" "strip ''observation'' \<noteq> []" "strip ''action'' \<noteq> []"
    by (simp_all add: strip_def is_space_def)
  ultimately show "validate_policy sample_policy = Inr []"
    using ONE_pos by (simp add: validate_policy_def sample_policy_def REQUIRED_POLICY_KEYS_def check_names_def check_unit_def
        is_str_nonblank_def is_number_def py_float_def order_less_imp_le mult_less_0_iff del: ONE_pos)
  show "wf_json (JObj sample_policy)" by (simp add: sample_policy_def)
qed

theorem policies_refine_spec_witness:
  "\<exists>p. snd (get_policy (\<lambda>_. None) ''ann'' (fold (run_pol (\<lambda>m. m))
      [SetReq sample_time ''u1'' ''ann'' ''sig'' sample_policy, SetReq sample_time ''u2'' ''ann'' ''sig'' []] (new_policies empty_fs 0)))
    = Inr p \<and> map_option masked p = Some (policy_of ''ann'' sample_policy sample_time)"
proof -
  have "validate_policy [] \<noteq> Inr []" by (simp add: validate_policy_def REQUIRED_POLICY_KEYS_def)
  then show ?thesis
    using policies_refine_spec [where sha = "\<lambda>m. m" and s = empty_fs and fstr = "\<lambda>_. None" and owner = "''ann''" and b = 0 and
        qs = "[SetReq sample_time ''u1'' ''ann'' ''sig'' sample_policy, SetReq sample_time ''u2'' ''ann'' ''sig'' []]"]
    using sample_policy_ok(2) by (auto simp: active_def)
qed

section \<open>Enforcement\<close>

text \<open>
  C18: access is denied by default. The check answers whatever the state of the two stores,
  writes nothing, and allows a contribution exactly if the owner has an active policy,
  the agent is on its list, the agent's trust is not below the threshold, the type is
  allowed and needs no approval, and the agent's registered model is not contradicted
  unless mixed models are accepted; it is pending exactly if only the approval is
  missing. In particular an unknown or revoked agent is denied under any positive threshold.
\<close>

theorem enforcement_deny_by_default:
  assumes inv: "gov_inv sha fstr rix pix g"
  shows "\<exists>g' r. allows py_str fstr now owner agent ty model g = (g', Inr r) \<and> rg_fs g' = rg_fs g \<and>
    (en_verdict r = ''allow'' \<longleftrightarrow> (\<exists>p. active (pol_view pix owner) = Some p \<and> JStr agent \<in> set (ps_agents p) \<and>
       \<not> flt_less (Fin (trust_of (rg_trust_baseline g) now (reg_view rix agent))) (ps_min_trust_score p) \<and>
       ty \<in> set (ps_allowed_types p) \<and> (foreign_model model (reg_view rix agent) \<longrightarrow> ps_cross_ai p) \<and>
       ty \<notin> set (ps_approval_required p))) \<and>
    (en_verdict r = ''pending'' \<longleftrightarrow> (\<exists>p. active (pol_view pix owner) = Some p \<and> JStr agent \<in> set (ps_agents p) \<and>
       \<not> flt_less (Fin (trust_of (rg_trust_baseline g) now (reg_view rix agent))) (ps_min_trust_score p) \<and>
       ty \<in> set (ps_allowed_types p) \<and> (foreign_model model (reg_view rix agent) \<longrightarrow> ps_cross_ai p) \<and>
       ty \<in> set (ps_approval_required p))) \<and>
    ((reg_view rix agent = None \<or> ra_revoked (the (reg_view rix agent))) \<and>
       (\<forall>p. active (pol_view pix owner) = Some p \<longrightarrow> flt_less (Fin 0) (ps_min_trust_score p)) \<longrightarrow> en_verdict r = ''deny'')"
proof -
  obtain g' where g': "allows py_str fstr now owner agent ty model g =
    (g', Inr (decide py_str (active (pol_view pix owner)) agent (trust_of (rg_trust_baseline g) now (reg_view rix agent)) ty
       (foreign_model model (reg_view rix agent))))" and f: "gov_filled g g'"
    using allows_inv [OF inv] by blast
  have "rg_fs g' = rg_fs g" using f by (auto simp: gov_filled_def)
  with g' show ?thesis
    by (auto simp: decide_def after_type_def deny_def allow_def pending_def trust_of_def split: option.splits)
qed

lemma gov_families [simp]:
  "family_name IDENTITY_REGISTRY_SHARD \<noteq> family_name SOVEREIGNTY_SHARD"
  "family_name SOVEREIGNTY_SHARD \<noteq> family_name IDENTITY_REGISTRY_SHARD"
  by (simp_all add: family_name_def py_replace_unfold IDENTITY_REGISTRY_SHARD_def SOVEREIGNTY_SHARD_def)

text \<open>One agent and one policy, for the examples.\<close>

definition sample_gov :: "sha \<Rightarrow> int \<Rightarrow> 'z policies_scheme \<Rightarrow> 'z policies_scheme" where
  "sample_gov sha b g = fst (set_policy sha sample_time ''u2'' ''ann'' ''sig'' sample_policy
     (fst (register sha sample_time ''u1'' ''bot'' ''pk'' ''ann'' ''sig'' (JStr ''m'') JNull g)))"

lemma sample_gov_inv:
  assumes "reg_inv sha [] [] g" and "pol_inv sha fstr [] [] g"
  shows "\<exists>rix pix. gov_inv sha fstr rix pix (sample_gov sha b g) \<and>
    rg_trust_baseline (sample_gov sha b g) = rg_trust_baseline g \<and>
    reg_view rix ''bot'' = Some \<lparr>ra_agent_id = JStr ''bot'', ra_public_key = JStr ''pk'', ra_owner_id = JStr ''ann'',
      ra_model = JStr ''m'', ra_registered_at = sample_time, ra_revoked = False\<rparr> \<and>
    pol_view pix ''ann'' = Some (policy_of ''ann'' sample_policy sample_time, False) \<and>
    (\<exists>s. sample_gov sha b g = g\<lparr>rg_fs := s, rg_index := None, pl_index := None\<rparr> \<and>
      (\<forall>x xs. shard_inv sha x (rg_fs g) xs \<longrightarrow> family_name x \<notin> {family_name IDENTITY_REGISTRY_SHARD, family_name SOVEREIGNTY_SHARD} \<longrightarrow>
         shard_inv sha x s xs))"
proof -
  have tz: "tz sample_time \<noteq> None" by (simp add: sample_time_def)
  obtain g1 e r rix where r1: "register sha sample_time ''u1'' ''bot'' ''pk'' ''ann'' ''sig'' (JStr ''m'') JNull g = (g1, Inr e)"
    and i1: "reg_inv sha [r] rix g1" and v1: "reg_view rix = reg_spec (Register ''bot'' ''pk'' ''ann'' (JStr ''m'') sample_time) (reg_view [])"
    and g1: "g1 = g\<lparr>rg_fs := rg_fs g1, rg_index := None\<rparr>" and k1: "others_kept sha IDENTITY_REGISTRY_SHARD (rg_fs g) (rg_fs g1)"
    using register_inv [OF assms(1) _ valid_sample_time tz, of "''bot''" "JStr ''m''" JNull "''u1''" "''pk''" "''ann''" "''sig''"]
    by (auto simp: READ_ALL_def simp del: reg_spec.simps)
  have p1: "pol_inv sha fstr [] [] g1"
  proof -
    have "pl_index g1 = pl_index g" using arg_cong [OF g1, of pl_index] by simp
    then show ?thesis using assms(2) k1 i1 by (simp add: pol_inv_def reg_inv_def others_kept_def)
  qed
  have "\<exists>g' e r ix'. pol_write sha sample_time ''u2'' ''set_policy'' (JObj (policy_doc ''ann'' ''sig'' sample_policy)) ''ann'' g1 = (g', Inr e) \<and>
    pol_inv sha fstr ([] @ [r]) ix' g' \<and> pol_view ix' = pol_spec (SetPolicy ''ann'' sample_policy sample_time) (pol_view []) \<and>
    g' = g1\<lparr>rg_fs := rg_fs g', pl_index := None\<rparr> \<and> others_kept sha SOVEREIGNTY_SHARD (rg_fs g1) (rg_fs g')"
    by (rule pol_write_inv [OF p1 _ valid_sample_time])
      (auto simp: READ_ALL_def policy_doc_wf simp del: norm.simps wf_json.simps)
  then obtain g2 e2 r2 pix where w: "pol_write sha sample_time ''u2'' ''set_policy'' (JObj (policy_doc ''ann'' ''sig'' sample_policy)) ''ann'' g1 = (g2, Inr e2)"
    and i2: "pol_inv sha fstr [r2] pix g2" and v2: "pol_view pix = pol_spec (SetPolicy ''ann'' sample_policy sample_time) (pol_view [])"
    and g2: "g2 = g1\<lparr>rg_fs := rg_fs g2, pl_index := None\<rparr>" and k2: "others_kept sha SOVEREIGNTY_SHARD (rg_fs g1) (rg_fs g2)"
    by auto
  have s: "sample_gov sha b g = g2" using r1 w by (simp add: sample_gov_def set_policy_def)
  have "rg_index g2 = rg_index g1" using arg_cong [OF g2, of rg_index] by simp
  then have "reg_inv sha [r] rix g2" using i1 k2 i2 by (simp add: pol_inv_def reg_inv_def others_kept_def)
  then have gov: "gov_inv sha fstr rix pix g2" using i2 unfolding gov_inv_def by blast
  have upd: "g2 = g\<lparr>rg_fs := rg_fs g2, rg_index := None, pl_index := None\<rparr>" by (subst g2, subst g1) simp
  have base: "rg_trust_baseline g2 = rg_trust_baseline g" using arg_cong [OF upd, of rg_trust_baseline] by simp
  have views: "reg_view rix ''bot'' = Some \<lparr>ra_agent_id = JStr ''bot'', ra_public_key = JStr ''pk'', ra_owner_id = JStr ''ann'',
      ra_model = JStr ''m'', ra_registered_at = sample_time, ra_revoked = False\<rparr>"
    "pol_view pix ''ann'' = Some (policy_of ''ann'' sample_policy sample_time, False)" using v1 v2 by simp_all
  have "\<forall>x xs. shard_inv sha x (rg_fs g) xs \<longrightarrow> family_name x \<notin> {family_name IDENTITY_REGISTRY_SHARD, family_name SOVEREIGNTY_SHARD} \<longrightarrow>
      shard_inv sha x (rg_fs g2) xs" using k1 k2 by (simp add: others_kept_def)
  with gov upd base views show ?thesis unfolding s by blast
qed

lemma age_bonus_0: "age_bonus 0 = 0"
proof -
  have "0 \<le> ffrac 1 10" by (simp add: ffrac_nonneg)
  moreover have "fdiv 0 y = 0" if "0 \<le> y" for y
    using that by (cases "y = 0") (simp_all add: fdiv_def rnd_def round_pos_def rne_def ulp_exp_def Let_def)
  moreover have "0 \<le> fof_int 2592000" by (simp add: fof_int_def rnd_nonneg order_less_imp_le)
  ultimately show ?thesis by (simp add: age_bonus_def ffrac_def fmul_def fmin_def Let_def)
qed

lemma fast_trust_0: "fast_trust 0 0 = 0"
  by (simp add: age_bonus_0 fast_trust_def fadd_def fmin_def not_less order_less_imp_le)


lemma sample_policy_terms:
  "ps_agents (policy_of ''ann'' sample_policy t) = [JStr ''bot'']"
  "ps_min_trust_score (policy_of ''ann'' sample_policy t) = Fin 0"
  "ps_allowed_types (policy_of ''ann'' sample_policy t) = [JStr ''observation'', JStr ''action'']"
  "ps_approval_required (policy_of ''ann'' sample_policy t) = [JStr ''action'']"
  using ONE_pos by (simp_all add: policy_of_def sample_policy_def names_of_def score_of_def py_float_def fof_int_def mult_less_0_iff
      order_less_imp_le del: ONE_pos)

lemma gov_inv_new:
  "shard_inv sha IDENTITY_REGISTRY_SHARD s [] \<Longrightarrow> shard_inv sha SOVEREIGNTY_SHARD s [] \<Longrightarrow> mono_files s = [] \<Longrightarrow>
   reg_inv sha [] [] (new_policies s b) \<and> pol_inv sha fstr [] [] (new_policies s b)"
  by (simp add: reg_inv_def pol_inv_def new_policies_def READ_ALL_def aware_def)

theorem enforcement_deny_by_default_witness:
  "\<exists>g r r'. snd (allows (\<lambda>_. []) (\<lambda>_. None) sample_time ''ann'' ''bot'' (JStr ''observation'') None g) = Inr r \<and> en_verdict r = ''allow'' \<and>
     snd (allows (\<lambda>_. []) (\<lambda>_. None) sample_time ''ann'' ''eve'' (JStr ''observation'') None (g :: policies)) = Inr r' \<and> en_verdict r' \<noteq> ''allow''"
proof -
  let ?new = "new_policies empty_fs 0"
  have i0: "reg_inv (\<lambda>m. m) [] [] ?new" "pol_inv (\<lambda>m. m) (\<lambda>_. None) [] [] ?new"
    using gov_inv_new [of "\<lambda>m. m" empty_fs] by simp_all
  let ?g = "sample_gov (\<lambda>m. m) 0 ?new"
  obtain rix pix where inv: "gov_inv (\<lambda>m. m) (\<lambda>_. None) rix pix ?g" and b: "rg_trust_baseline ?g = 0"
    and v: "reg_view rix ''bot'' = Some \<lparr>ra_agent_id = JStr ''bot'', ra_public_key = JStr ''pk'', ra_owner_id = JStr ''ann'',
      ra_model = JStr ''m'', ra_registered_at = sample_time, ra_revoked = False\<rparr>"
    "pol_view pix ''ann'' = Some (policy_of ''ann'' sample_policy sample_time, False)"
    using sample_gov_inv [OF i0, of 0] by (auto simp: new_policies_def)
  obtain r where "snd (allows (\<lambda>_. []) (\<lambda>_. None) sample_time ''ann'' ''bot'' (JStr ''observation'') None ?g) = Inr r" "en_verdict r = ''allow''"
    using enforcement_deny_by_default [OF inv, of "\<lambda>_. []" sample_time "''ann''" "''bot''" "JStr ''observation''" None] v b
    by (auto simp: active_def sample_policy_terms trust_of_def fast_trust_0 foreign_model_def)
  moreover obtain r' where "snd (allows (\<lambda>_. []) (\<lambda>_. None) sample_time ''ann'' ''eve'' (JStr ''observation'') None ?g) = Inr r'" "en_verdict r' \<noteq> ''allow''"
    using enforcement_deny_by_default [OF inv, of "\<lambda>_. []" sample_time "''ann''" "''eve''" "JStr ''observation''" None] v b
    by (auto simp: active_def sample_policy_terms)
  ultimately show ?thesis by blast
qed

end
