(* ===== verification/Orchestrator_Props.thy ===== *)
theory Orchestrator_Props
  imports Orchestrator Sovereignty_Props
begin

text \<open>Laws and properties of admission control.\<close>

section \<open>One decision\<close>

definition orch_inv ::
    "sha \<Rightarrow> (string \<Rightarrow> flt option) \<Rightarrow> reg_index \<Rightarrow> pol_index \<Rightarrow> entry list \<Rightarrow> 'z orchestrator_scheme \<Rightarrow> bool" where
  "orch_inv sha fstr rix pix audit g = (gov_inv sha fstr rix pix g \<and> shard_inv sha ORCHESTRATOR_SHARD (rg_fs g) audit)"

lemma orch_families [simp]:
  "family_name IDENTITY_REGISTRY_SHARD \<noteq> family_name ORCHESTRATOR_SHARD"
  "family_name SOVEREIGNTY_SHARD \<noteq> family_name ORCHESTRATOR_SHARD"
  "family_name ORCHESTRATOR_SHARD \<noteq> family_name IDENTITY_REGISTRY_SHARD"
  "family_name ORCHESTRATOR_SHARD \<noteq> family_name SOVEREIGNTY_SHARD" "ORCHESTRATOR_SHARD \<noteq> []"
  by (simp_all add: family_name_def py_replace_unfold IDENTITY_REGISTRY_SHARD_def SOVEREIGNTY_SHARD_def ORCHESTRATOR_SHARD_def)

text \<open>The context of a decision, from the state of the two stores.\<close>

definition context_of ::
    "(json \<Rightarrow> string) \<Rightarrow> reg_index \<Rightarrow> pol_index \<Rightarrow> datetime \<Rightarrow> string \<Rightarrow> string \<Rightarrow> json \<Rightarrow> 'z orchestrator_scheme \<Rightarrow> admission_context" where
  "context_of py_str rix pix now agent owner ty g =
     (let trust = trust_of (rg_trust_baseline g) now (reg_view rix agent) in
      \<lparr>ac_agent_trust = trust, ac_sovereignty_result = decide py_str (active (pol_view pix owner)) agent trust ty False,
       ac_recent_admissions = admission_count agent g\<rparr>)"

text \<open>Reading the stores changes nothing that belongs to the orchestrator.\<close>

lemma gov_filled_orch:
  assumes "gov_filled g (g' :: 'z orchestrator_scheme)"
  shows "rg_fs g' = rg_fs g" "or_rules g' = or_rules g" "or_cache g' = or_cache g" "admission_count a g' = admission_count a g"
    "or_admission_counts g' = or_admission_counts g" "orchestrator.more g' = orchestrator.more g"
  using assms by (auto simp: gov_filled_def admission_count_def)

lemma build_context_inv:
  assumes "gov_inv sha fstr rix pix (g :: 'z orchestrator_scheme)"
  shows "\<exists>g'. build_context py_str fstr now agent owner ty g = (g', Inr (context_of py_str rix pix now agent owner ty g)) \<and>
    gov_filled g g' \<and> gov_inv sha fstr rix pix g'"
proof -
  obtain g1 where t: "trust_score now (JStr agent) g = (g1, Inr (trust_of (rg_trust_baseline g) now (reg_view rix agent)))"
    and f1: "gov_filled g g1" "gov_inv sha fstr rix pix g1" using gov_trust [OF assms] by blast
  obtain g2 where a: "allows py_str fstr now owner agent ty None g1 = (g2, Inr (decide py_str (active (pol_view pix owner)) agent
      (trust_of (rg_trust_baseline g1) now (reg_view rix agent)) ty (foreign_model None (reg_view rix agent))))"
    and f2: "gov_filled g1 g2" "gov_inv sha fstr rix pix g2" using allows_inv [OF f1(2)] by blast
  have f: "gov_filled g g2" by (rule gov_filled_trans [OF f1(1) f2(1)])
  show ?thesis
    using t a f f2(2) gov_filled_baseline [OF f1(1)] gov_filled_orch(4) [OF f, of agent]
    by (auto simp: build_context_def sbind_def context_of_def foreign_model_def Let_def)
qed

lemma log_decision_inv:
  assumes inv: "orch_inv sha fstr rix pix audit (g :: 'z orchestrator_scheme)" and t: "valid_dt now" and r: "ad_decided_at r = now"
    and wf: "wf_json (ad_entry_hash r)"
  shows "\<exists>s rec. log_decision sha now uuid r g = (g\<lparr>rg_fs := s\<rparr>, Inr ()) \<and>
    orch_inv sha fstr rix pix (audit @ [rec]) (g\<lparr>rg_fs := s\<rparr>) \<and> content_json rec = Some (norm (JObj (decision_doc r))) \<and>
    others_kept sha ORCHESTRATOR_SHARD (rg_fs g) s"
proof -
  let ?m = "[(''event_type'', JStr ''admission_decision''), (''verdict'', JStr (ad_verdict r)), (''agent_id'', JStr (ad_agent_id r))]"
  have wfd: "wf_json (JObj (decision_doc r))" using wf by (simp add: decision_doc_def)
  have sh: "shard_inv sha ORCHESTRATOR_SHARD (rg_fs g) audit" using inv by (simp add: orch_inv_def)
  obtain s e rec where app: "append sha now (doc_entry ''orchestrator'' ORCHESTRATOR_SHARD now uuid (JObj (decision_doc r)) ?m) (rg_fs g) = (s, Inr e)"
    and w: "doc_written sha ORCHESTRATOR_SHARD (rg_fs g) audit now (JObj (decision_doc r)) s rec"
    using doc_append [OF sh orch_families(5) t wfd, of ?m "''orchestrator''" uuid] by (auto simp: meta_ok_def)
  have k: "others_kept sha ORCHESTRATOR_SHARD (rg_fs g) s" and m: "mono_files s = mono_files (rg_fs g)"
    and sh': "shard_inv sha ORCHESTRATOR_SHARD s (audit @ [rec])" and c: "content_json rec = Some (norm (JObj (decision_doc r)))"
    using w by (simp_all add: doc_written_def del: norm.simps)
  obtain es fs where i: "reg_inv sha es rix g" "pol_inv sha fstr fs pix g" using inv by (auto simp: orch_inv_def gov_inv_def)
  have "reg_inv sha es rix (g\<lparr>rg_fs := s\<rparr>)" "pol_inv sha fstr fs pix (g\<lparr>rg_fs := s\<rparr>)"
    using i k m by (simp_all add: reg_inv_def pol_inv_def others_kept_def)
  then have "orch_inv sha fstr rix pix (audit @ [rec]) (g\<lparr>rg_fs := s\<rparr>)" using sh' by (auto simp: orch_inv_def gov_inv_def)
  moreover have "log_decision sha now uuid r g = (g\<lparr>rg_fs := s\<rparr>, Inr ())" using app r by (simp add: log_decision_def Let_def)
  ultimately show ?thesis using c k by blast
qed

text \<open>A decision that is not in the cache.\<close>

definition decided ::
    "sha \<Rightarrow> 'z orchestrator_scheme \<Rightarrow> 'z orchestrator_scheme \<Rightarrow> string \<Rightarrow> json \<Rightarrow> admission_result \<Rightarrow> bool" where
  "decided sha g g' agent h r =
     (orchestrator.more g' = orchestrator.more g \<and> others_kept sha ORCHESTRATOR_SHARD (rg_fs g) (rg_fs g') \<and>
      or_rules g' = or_rules g \<and> rg_trust_baseline g' = rg_trust_baseline g \<and>
      (\<forall>a. admission_count a g' = admission_count a g + (if a = agent \<and> ad_verdict r = ''allow'' then 1 else 0)) \<and>
      (truthy h \<longrightarrow> map_of (or_cache g') h = Some r) \<and>
      (\<forall>h'. h' \<noteq> h \<longrightarrow> map_of (or_cache g') h' = map_of (or_cache g) h'))"

lemma admit_fresh_inv:
  fixes agent owner :: string and py_str :: "json \<Rightarrow> string"
  assumes inv: "orch_inv sha fstr rix pix audit (g :: 'z orchestrator_scheme)" and t: "valid_dt now" and wf: "wf_json h"
    and ty: "entry_type_of e = Inr ty"
  defines "r \<equiv> conclude (or_rules g) e agent h now (context_of py_str rix pix now agent owner ty g)"
  shows "\<exists>g' rec. admit_fresh sha py_str fstr now uuid e agent owner h g = (g', Inr r) \<and>
    orch_inv sha fstr rix pix (audit @ [rec]) g' \<and> content_json rec = Some (norm (JObj (decision_doc r))) \<and> decided sha g g' agent h r"
proof -
  have gov: "gov_inv sha fstr rix pix g" using inv by (simp add: orch_inv_def)
  obtain g1 where c: "build_context py_str fstr now agent owner ty g = (g1, Inr (context_of py_str rix pix now agent owner ty g))"
    and f: "gov_filled g g1" "gov_inv sha fstr rix pix g1" using build_context_inv [OF gov] by blast
  note o = gov_filled_orch [OF f(1)]
  have inv1: "orch_inv sha fstr rix pix audit g1" using inv f(2) o(1) by (simp add: orch_inv_def)
  have rf: "ad_decided_at r = now" "ad_entry_hash r = h" by (simp_all add: r_def conclude_def Let_def case_prod_unfold)
  obtain s rec where l: "log_decision sha now uuid r g1 = (g1\<lparr>rg_fs := s\<rparr>, Inr ())"
    and i2: "orch_inv sha fstr rix pix (audit @ [rec]) (g1\<lparr>rg_fs := s\<rparr>)"
    and cj: "content_json rec = Some (norm (JObj (decision_doc r)))"
    and k: "others_kept sha ORCHESTRATOR_SHARD (rg_fs g1) s"
    using log_decision_inv [OF inv1 t rf(1), of uuid] wf rf(2) by auto
  let ?g2 = "g1\<lparr>rg_fs := s\<rparr>"
  let ?g3 = "if ad_verdict r = ''allow''
     then ?g2\<lparr>or_admission_counts := dput agent (admission_count agent ?g2 + 1) (or_admission_counts ?g2)\<rparr> else ?g2"
  let ?g4 = "if truthy h then ?g3\<lparr>or_cache := dput h r (or_cache ?g3)\<rparr> else ?g3"
  have "admit_fresh sha py_str fstr now uuid e agent owner h g = (?g4, Inr r)"
    using ty c l o(2) by (simp add: admit_fresh_def sbind_def of_res_def r_def Let_def)
  moreover have "orch_inv sha fstr rix pix (audit @ [rec]) ?g4"
    using i2 by (simp add: orch_inv_def gov_inv_def reg_inv_def pol_inv_def)
  moreover have "decided sha g ?g4 agent h r"
    using o k gov_filled_baseline [OF f(1)] by (auto simp: decided_def admission_count_def split: option.splits)
  ultimately show ?thesis using cj by blast
qed

section \<open>Properties\<close>

lemma default_verdict:
  "ad_verdict (conclude default_rules e agent h now ctx) =
     (if en_verdict (ac_sovereignty_result ctx) = ''allow'' \<and> ffrac 3 10 \<le> ac_agent_trust ctx \<and>
         ac_recent_admissions ctx < 100 \<and> \<not> references_itself e then ''allow'' else ''deny'')"
  by (auto simp: conclude_def default_rules_def passes_def fails_def Let_def)

text \<open>An entry whose hash is a string and whose metadata are a dict, or empty.\<close>

definition admissible :: "entry \<Rightarrow> bool" where
  "admissible e = ((\<exists>h. hash e = JStr h) \<and> (\<exists>ty. entry_type_of e = Inr ty))"

lemma admit_new:
  assumes "admissible e" and "map_of (or_cache g) (hash e) = None"
  shows "admit sha py_str fstr now uuid e agent owner g = admit_fresh sha py_str fstr now uuid e agent owner (hash e) g"
  using assms by (auto simp: admissible_def admit_def Let_def)

text \<open>
  C15: with the default rules an entry that was not decided before is allowed exactly if the
  owner's policy allows it outright, the agent's trust is at least 0.3, fewer than a
  hundred entries of the agent were allowed since the orchestrator started, and the entry
  does not name itself as its predecessor; every other entry is denied. No entry is left
  pending: one whose type needs approval is denied, with the approval as the reason. The
  decision is appended to the audit shard.
\<close>

theorem default_rules_decide:
  assumes inv: "orch_inv sha fstr rix pix audit g" and rules: "or_rules g = default_rules" and t: "valid_dt now"
    and e: "admissible e" "entry_type_of e = Inr ty" and new: "map_of (or_cache g) (hash e) = None"
  shows "\<exists>g' r rec. admit sha py_str fstr now uuid e agent owner g = (g', Inr r) \<and>
    ad_verdict r = (if en_verdict (decide py_str (active (pol_view pix owner)) agent
           (trust_of (rg_trust_baseline g) now (reg_view rix agent)) ty False) = ''allow'' \<and>
         ffrac 3 10 \<le> trust_of (rg_trust_baseline g) now (reg_view rix agent) \<and>
         admission_count agent g < 100 \<and> \<not> references_itself e then ''allow'' else ''deny'') \<and>
    orch_inv sha fstr rix pix (audit @ [rec]) g' \<and> content_json rec = Some (norm (JObj (decision_doc r)))"
proof -
  have "wf_json (hash e)" using e(1) by (auto simp: admissible_def)
  from admit_fresh_inv [OF inv t this e(2), of py_str uuid agent owner] show ?thesis
    unfolding admit_new [OF e(1) new] rules by (auto simp: default_verdict context_of_def Let_def simp del: norm.simps)
qed

text \<open>An orchestrator over one agent and one policy, for the examples.\<close>

definition new_orchestrator :: "fs \<Rightarrow> int \<Rightarrow> orchestrator" where
  "new_orchestrator s b = \<lparr>rg_fs = s, rg_trust_baseline = b, rg_index = None, rg_index_entry_count = 0,
     rg_deep_trust_cache = [], pl_index = None, or_rules = default_rules, or_cache = [], or_admission_counts = []\<rparr>"

definition sample_admission :: entry where
  "sample_admission = (sample_entry ''alpha'' ''one'')\<lparr>hash := JStr ''v1:h'', metadata := JObj [(''event_type'', JStr ''observation'')]\<rparr>"

lemma sample_admissible [simp]:
  "admissible sample_admission" "entry_type_of sample_admission = Inr (JStr ''observation'')" "hash sample_admission = JStr ''v1:h''"
  "references_itself sample_admission \<longleftrightarrow> prev_hash (sample_entry ''alpha'' ''one'') = JStr ''v1:h''"
  by (auto simp: admissible_def sample_admission_def entry_type_of_def references_itself_def)

lemma sample_orch:
  "\<exists>rix pix g. orch_inv (\<lambda>m. m) (\<lambda>_. None) rix pix [] (g :: orchestrator) \<and> or_rules g = default_rules \<and> or_cache g = [] \<and>
    or_admission_counts g = [] \<and> rg_trust_baseline g = ONE \<and>
    reg_view rix ''bot'' = Some \<lparr>ra_agent_id = JStr ''bot'', ra_public_key = JStr ''pk'', ra_owner_id = JStr ''ann'',
      ra_model = JStr ''m'', ra_registered_at = sample_time, ra_revoked = False\<rparr> \<and>
    pol_view pix ''ann'' = Some (policy_of ''ann'' sample_policy sample_time, False) \<and>
    (\<forall>x. family_name x \<notin> {family_name IDENTITY_REGISTRY_SHARD, family_name SOVEREIGNTY_SHARD} \<longrightarrow>
       shard_inv (\<lambda>m. m) x (rg_fs g) [])"
proof -
  let ?new = "new_orchestrator empty_fs ONE"
  have i0: "reg_inv (\<lambda>m. m) [] [] ?new" "pol_inv (\<lambda>m. m) (\<lambda>_. None) [] [] ?new"
    by (simp_all add: reg_inv_def pol_inv_def new_orchestrator_def READ_ALL_def aware_def)
  let ?g = "sample_gov (\<lambda>m. m) ONE ?new"
  obtain rix pix s where inv: "gov_inv (\<lambda>m. m) (\<lambda>_. None) rix pix ?g"
    and v: "reg_view rix ''bot'' = Some \<lparr>ra_agent_id = JStr ''bot'', ra_public_key = JStr ''pk'', ra_owner_id = JStr ''ann'',
      ra_model = JStr ''m'', ra_registered_at = sample_time, ra_revoked = False\<rparr>"
    "pol_view pix ''ann'' = Some (policy_of ''ann'' sample_policy sample_time, False)"
    and g: "?g = ?new\<lparr>rg_fs := s, rg_index := None, pl_index := None\<rparr>"
    and k: "\<forall>x xs. shard_inv (\<lambda>m. m) x (rg_fs ?new) xs \<longrightarrow>
       family_name x \<notin> {family_name IDENTITY_REGISTRY_SHARD, family_name SOVEREIGNTY_SHARD} \<longrightarrow> shard_inv (\<lambda>m. m) x s xs"
    using sample_gov_inv [OF i0, of ONE] by blast
  have "shard_inv (\<lambda>m. m) ORCHESTRATOR_SHARD s []" using k by (simp add: new_orchestrator_def)
  then have "orch_inv (\<lambda>m. m) (\<lambda>_. None) rix pix [] ?g" using inv g by (simp add: orch_inv_def)
  moreover have "or_rules ?g = default_rules" "or_cache ?g = []" "or_admission_counts ?g = []" "rg_trust_baseline ?g = ONE"
    unfolding g by (simp_all add: new_orchestrator_def)
  moreover have "\<forall>x. family_name x \<notin> {family_name IDENTITY_REGISTRY_SHARD, family_name SOVEREIGNTY_SHARD} \<longrightarrow>
       shard_inv (\<lambda>m. m) x (rg_fs ?g) []"
    using k g by (simp add: new_orchestrator_def)
  ultimately show ?thesis using v by blast
qed

lemma trust_ONE: "fast_trust ONE 0 = ONE"
  using double_ONE(1) by (simp add: age_bonus_0 fast_trust_def fadd_def fmin_def is_double_def)

lemma tenths_le_ONE: "ffrac 3 10 \<le> ONE"
  using rnd_mono [of 10 1 "3 * ONE" ONE] double_ONE(1) by (simp add: ffrac_def is_double_def)

lemma sample_allowed:
  assumes "reg_view rix ''bot'' = Some \<lparr>ra_agent_id = JStr ''bot'', ra_public_key = JStr ''pk'', ra_owner_id = JStr ''ann'',
      ra_model = JStr ''m'', ra_registered_at = sample_time, ra_revoked = False\<rparr>"
    and "pol_view pix ''ann'' = Some (policy_of ''ann'' sample_policy sample_time, False)"
  shows "trust_of ONE sample_time (reg_view rix ''bot'') = ONE"
    and "en_verdict (decide py_str (active (pol_view pix ''ann'')) ''bot'' ONE (JStr ''observation'') False) = ''allow''"
    and "en_verdict (decide py_str (active (pol_view pix ''ann'')) ''eve'' x ty fo) = ''deny''"
  using assms trust_ONE ONE_pos
  by (simp_all add: trust_of_def active_def decide_def sample_policy_terms after_type_def allow_def deny_def
      not_less order_less_imp_le del: ONE_pos)

theorem default_rules_decide_witness:
  "\<exists>g g' r. admit (\<lambda>m. m) (\<lambda>_. []) (\<lambda>_. None) sample_time ''u3'' sample_admission ''bot'' ''ann'' (g :: orchestrator) = (g', Inr r) \<and>
     ad_verdict r = ''allow''"
proof -
  obtain rix pix and g :: orchestrator where inv: "orch_inv (\<lambda>m. m) (\<lambda>_. None) rix pix [] g"
    and g: "or_rules g = default_rules" "or_cache g = []" "or_admission_counts g = []" "rg_trust_baseline g = ONE"
    and v: "reg_view rix ''bot'' = Some \<lparr>ra_agent_id = JStr ''bot'', ra_public_key = JStr ''pk'', ra_owner_id = JStr ''ann'',
      ra_model = JStr ''m'', ra_registered_at = sample_time, ra_revoked = False\<rparr>"
    "pol_view pix ''ann'' = Some (policy_of ''ann'' sample_policy sample_time, False)"
    using sample_orch by blast
  have "admission_count ''bot'' g = 0" using g(3) by (simp add: admission_count_def)
  moreover have "\<not> references_itself sample_admission" by (simp add: sample_entry_def)
  ultimately show ?thesis
    using default_rules_decide [OF inv g(1) valid_sample_time sample_admissible(1,2), of "\<lambda>_. []" "''u3''" "''bot''" "''ann''"]
      g v sample_allowed [OF v] tenths_le_ONE by auto
qed

text \<open>
  The decision cache does not look at who asks. Once an entry with a hash was decided for
  one agent and owner, every later request for an entry with that hash gets the same
  answer, whatever agent and owner it names, at any time, and nothing is logged or
  counted; so an agent the policy denies obtains the admission another agent was given.
\<close>

theorem cached_decision_ignores_agent:
  assumes "admissible e" and "truthy (hash e)" and "orch_inv sha fstr rix pix audit g" and "valid_dt now"
    and "admit sha py_str fstr now uuid e agent owner g = (g', Inr r)"
    and "hash e2 = hash e"
  shows "admit sha py_str fstr now2 uuid2 e2 agent2 owner2 g' = (g', Inr r)"
proof -
  obtain ty where ty: "entry_type_of e = Inr ty" using assms(1) by (auto simp: admissible_def)
  have wf: "wf_json (hash e)" "hashable (hash e) = Inr ()" using assms(1) by (auto simp: admissible_def)
  have "map_of (or_cache g') (hash e) = Some r"
  proof (cases "map_of (or_cache g) (hash e)")
    case None
    with admit_fresh_inv [OF assms(3,4) wf(1) ty, of py_str uuid agent owner] assms(2,5) show ?thesis
      unfolding admit_new [OF assms(1) None] by (auto simp: decided_def)
  next
    case (Some r')
    with assms(2,5) wf(2) show ?thesis by (simp add: admit_def)
  qed
  then show ?thesis using assms(2,6) wf(2) by (simp add: admit_def)
qed

theorem cached_decision_ignores_agent_witness:
  "\<exists>g g1 r g2 rix pix. admit (\<lambda>m. m) (\<lambda>_. []) (\<lambda>_. None) sample_time ''u3'' sample_admission ''bot'' ''ann'' (g :: orchestrator) = (g1, Inr r) \<and>
     orch_inv (\<lambda>m. m) (\<lambda>_. None) rix pix [] g \<and>
     en_verdict (decide (\<lambda>_. []) (active (pol_view pix ''ann'')) ''eve'' 0 (JStr ''observation'') False) = ''deny'' \<and>
     admit (\<lambda>m. m) (\<lambda>_. []) (\<lambda>_. None) sample_time ''u4'' sample_admission ''eve'' ''ann'' g1 = (g2, Inr r) \<and> ad_verdict r = ''allow''"
proof -
  obtain rix pix and g :: orchestrator where inv: "orch_inv (\<lambda>m. m) (\<lambda>_. None) rix pix [] g"
    and g: "or_rules g = default_rules" "or_cache g = []" "or_admission_counts g = []" "rg_trust_baseline g = ONE"
    and v: "reg_view rix ''bot'' = Some \<lparr>ra_agent_id = JStr ''bot'', ra_public_key = JStr ''pk'', ra_owner_id = JStr ''ann'',
      ra_model = JStr ''m'', ra_registered_at = sample_time, ra_revoked = False\<rparr>"
    "pol_view pix ''ann'' = Some (policy_of ''ann'' sample_policy sample_time, False)"
    using sample_orch by blast
  have new: "map_of (or_cache g) (hash sample_admission) = None" using g(2) by simp
  from admit_fresh_inv [OF inv valid_sample_time _ sample_admissible(2), of "hash sample_admission" "\<lambda>_. []" "''u3''" "''bot''" "''ann''"]
  obtain g1 where a: "admit (\<lambda>m. m) (\<lambda>_. []) (\<lambda>_. None) sample_time ''u3'' sample_admission ''bot'' ''ann'' g
      = (g1, Inr (conclude (or_rules g) sample_admission ''bot'' (hash sample_admission) sample_time
           (context_of (\<lambda>_. []) rix pix sample_time ''bot'' ''ann'' (JStr ''observation'') g)))"
    unfolding admit_new [OF sample_admissible(1) new] by auto
  have "ad_verdict (conclude (or_rules g) sample_admission ''bot'' (hash sample_admission) sample_time
           (context_of (\<lambda>_. []) rix pix sample_time ''bot'' ''ann'' (JStr ''observation'') g)) = ''allow''"
    using g sample_allowed [OF v] tenths_le_ONE
    by (simp add: default_verdict context_of_def Let_def admission_count_def sample_entry_def)
  moreover have "admit (\<lambda>m. m) (\<lambda>_. []) (\<lambda>_. None) sample_time ''u4'' sample_admission ''eve'' ''ann'' g1
      = (g1, Inr (conclude (or_rules g) sample_admission ''bot'' (hash sample_admission) sample_time
           (context_of (\<lambda>_. []) rix pix sample_time ''bot'' ''ann'' (JStr ''observation'') g)))"
    by (rule cached_decision_ignores_agent [OF sample_admissible(1) _ inv valid_sample_time a]) simp_all
  ultimately show ?thesis using a inv sample_allowed(3) [OF v, of "\<lambda>_. []" 0 "JStr ''observation''" False] by blast
qed

text \<open>Any request for an admissible entry is answered; only the audit shard is written.\<close>

lemma admit_effect:
  assumes inv: "orch_inv sha fstr rix pix audit (g :: 'z orchestrator_scheme)" and t: "valid_dt now" and e: "admissible e"
  shows "\<exists>g' r new. admit sha py_str fstr now uuid e agent owner g = (g', Inr r) \<and>
    orch_inv sha fstr rix pix (audit @ new) g' \<and> orchestrator.more g' = orchestrator.more g \<and>
    others_kept sha ORCHESTRATOR_SHARD (rg_fs g) (rg_fs g')"
proof -
  obtain h ty where h: "hash e = JStr h" "entry_type_of e = Inr ty" using e by (auto simp: admissible_def)
  show ?thesis
  proof (cases "map_of (or_cache g) (hash e)")
    case None
    from admit_fresh_inv [OF inv t _ h(2), of "hash e" py_str uuid agent owner] h(1)
    show ?thesis unfolding admit_new [OF e None] decided_def by (auto simp del: norm.simps)
  next
    case (Some r)
    show ?thesis
    proof (cases "truthy (hash e)")
      case True
      with Some h(1) inv show ?thesis
        by (intro exI [where x = g] exI [where x = r] exI [where x = "[]"]) (simp add: admit_def others_kept_def)
    next
      case False
      then have "admit sha py_str fstr now uuid e agent owner g = admit_fresh sha py_str fstr now uuid e agent owner (hash e) g"
        using h(1) by (simp add: admit_def)
      with admit_fresh_inv [OF inv t _ h(2), of "hash e" py_str uuid agent owner] h(1) show ?thesis
        unfolding decided_def by (auto simp del: norm.simps)
    qed
  qed
qed

section \<open>The rate limit\<close>

text \<open>The admissions of an agent that the audit shard records.\<close>

definition logged_allow :: "string \<Rightarrow> entry \<Rightarrow> bool" where
  "logged_allow a x =
     (case content_json x of
        Some data \<Rightarrow> jget ''verdict'' JNull data = Inr (JStr ''allow'') \<and> jget ''agent_id'' JNull data = Inr (JStr a)
      | None \<Rightarrow> False)"

definition logged_allows :: "string \<Rightarrow> entry list \<Rightarrow> int" where
  "logged_allows a audit = int (length (filter (logged_allow a) audit))"

lemma logged_decision:
  assumes "content_json rec = Some (norm (JObj (decision_doc r)))" and "wf_json (ad_entry_hash r)"
  shows "logged_allow a rec \<longleftrightarrow> ad_verdict r = ''allow'' \<and> ad_agent_id r = a"
proof -
  have "wf_json (JObj (decision_doc r))" using assms(2) by (simp add: decision_doc_def)
  from doc_field [OF this] assms(1) show ?thesis by (auto simp: logged_allow_def decision_doc_def simp del: norm.simps(2))
qed

record admission_request =
  aq_now :: datetime
  aq_uuid :: string
  aq_entry :: entry
  aq_agent :: string
  aq_owner :: string

definition run_admit ::
    "sha \<Rightarrow> (json \<Rightarrow> string) \<Rightarrow> (string \<Rightarrow> flt option) \<Rightarrow> admission_request \<Rightarrow> 'z orchestrator_scheme \<Rightarrow> 'z orchestrator_scheme" where
  "run_admit sha py_str fstr q g = fst (admit sha py_str fstr (aq_now q) (aq_uuid q) (aq_entry q) (aq_agent q) (aq_owner q) g)"

definition request_fits :: "admission_request \<Rightarrow> bool" where
  "request_fits q = (admissible (aq_entry q) \<and> valid_dt (aq_now q))"

definition limited :: "sha \<Rightarrow> (string \<Rightarrow> flt option) \<Rightarrow> reg_index \<Rightarrow> pol_index \<Rightarrow> entry list \<Rightarrow> 'z orchestrator_scheme \<Rightarrow> bool" where
  "limited sha fstr rix pix audit g =
     (orch_inv sha fstr rix pix audit g \<and> or_rules g = default_rules \<and>
      (\<forall>a. logged_allows a audit = admission_count a g \<and> admission_count a g \<le> 100))"

lemma run_admit_limited:
  assumes "limited sha fstr rix pix audit g" and "request_fits q"
  shows "\<exists>new. limited sha fstr rix pix (audit @ new) (run_admit sha py_str fstr q g)"
proof -
  let ?e = "aq_entry q"
  have inv: "orch_inv sha fstr rix pix audit g" and rules: "or_rules g = default_rules"
    and n: "\<forall>a. logged_allows a audit = admission_count a g \<and> admission_count a g \<le> 100"
    and e: "admissible ?e" and t: "valid_dt (aq_now q)" using assms by (simp_all add: limited_def request_fits_def)
  obtain h ty where h: "hash ?e = JStr h" and ty: "entry_type_of ?e = Inr ty" using e by (auto simp: admissible_def)
  show ?thesis
  proof (cases "truthy (hash ?e) \<and> map_of (or_cache g) (hash ?e) \<noteq> None")
    case True
    then have "run_admit sha py_str fstr q g = g" using h by (auto simp: run_admit_def admit_def)
    then show ?thesis using assms(1) by (intro exI [where x = "[]"]) simp
  next
    case False
    then have "admit sha py_str fstr (aq_now q) (aq_uuid q) ?e (aq_agent q) (aq_owner q) g
        = admit_fresh sha py_str fstr (aq_now q) (aq_uuid q) ?e (aq_agent q) (aq_owner q) (JStr h) g"
      using h by (auto simp: admit_def Let_def)
    moreover let ?r = "conclude (or_rules g) ?e (aq_agent q) (JStr h) (aq_now q)
        (context_of py_str rix pix (aq_now q) (aq_agent q) (aq_owner q) ty g)"
    obtain g' rec where f: "admit_fresh sha py_str fstr (aq_now q) (aq_uuid q) ?e (aq_agent q) (aq_owner q) (JStr h) g = (g', Inr ?r)"
      and i: "orch_inv sha fstr rix pix (audit @ [rec]) g'" and c: "content_json rec = Some (norm (JObj (decision_doc ?r)))"
      and d: "decided sha g g' (aq_agent q) (JStr h) ?r"
      using admit_fresh_inv [OF inv t _ ty, of "JStr h" py_str "aq_uuid q" "aq_agent q" "aq_owner q"] by auto
    moreover have r: "ad_agent_id ?r = aq_agent q" "ad_entry_hash ?r = JStr h" by (simp_all add: conclude_def Let_def case_prod_unfold)
    moreover have "admission_count (aq_agent q) g < 100" if "ad_verdict ?r = ''allow''"
      using that unfolding rules default_verdict by (auto simp: context_of_def Let_def split: if_splits)
    ultimately have "limited sha fstr rix pix (audit @ [rec]) g'"
      using n rules logged_decision [OF c] by (auto simp: limited_def decided_def logged_allows_def)
    with f \<open>admit sha py_str fstr (aq_now q) (aq_uuid q) ?e (aq_agent q) (aq_owner q) g = _\<close> show ?thesis
      by (auto simp: run_admit_def)
  qed
qed

text \<open>
  C19: the counters in memory are what the audit shard shows, and the limit holds. However
  many requests of whatever agents are decided by one orchestrator with the default
  rules, for every agent the number of allow decisions logged since the start equals its
  counter and never exceeds a hundred. (The counter is never reset: the limit is per
  orchestrator, not per window of time.)
\<close>

theorem rate_limit_holds:
  assumes "orch_inv sha fstr rix pix [] g" and "or_rules g = default_rules" and "or_admission_counts g = []"
    and "\<forall>q \<in> set qs. request_fits q"
  shows "\<exists>audit. shard_inv sha ORCHESTRATOR_SHARD (rg_fs (fold (run_admit sha py_str fstr) qs g)) audit \<and>
    (\<forall>a. logged_allows a audit = admission_count a (fold (run_admit sha py_str fstr) qs g) \<and> logged_allows a audit \<le> 100)"
proof -
  have "limited sha fstr rix pix audit g \<Longrightarrow> \<forall>q \<in> set qs. request_fits q \<Longrightarrow>
      \<exists>more. limited sha fstr rix pix (audit @ more) (fold (run_admit sha py_str fstr) qs g)" for audit g
  proof (induction qs arbitrary: audit g)
    case Nil
    then show ?case by (intro exI [where x = "[]"]) simp
  next
    case (Cons q qs)
    then obtain new where "limited sha fstr rix pix (audit @ new) (run_admit sha py_str fstr q g)"
      using run_admit_limited by fastforce
    with Cons.IH [OF this] Cons.prems show ?case by auto
  qed
  moreover have "limited sha fstr rix pix [] g"
    using assms(1-3) by (simp add: limited_def logged_allows_def admission_count_def)
  ultimately show ?thesis using assms(4) by (fastforce simp: limited_def orch_inv_def)
qed

theorem rate_limit_holds_witness:
  "\<exists>g :: orchestrator. or_rules g = default_rules \<and>
     admission_count ''bot'' (fold (run_admit (\<lambda>m. m) (\<lambda>_. []) (\<lambda>_. None))
       [\<lparr>aq_now = sample_time, aq_uuid = ''u'', aq_entry = sample_admission, aq_agent = ''bot'', aq_owner = ''ann''\<rparr>] g) \<le> 100"
proof -
  obtain rix pix and g :: orchestrator where g: "orch_inv (\<lambda>m. m) (\<lambda>_. None) rix pix [] g" "or_rules g = default_rules" "or_admission_counts g = []"
    using sample_orch by blast
  have "\<forall>q \<in> set [\<lparr>aq_now = sample_time, aq_uuid = ''u'', aq_entry = sample_admission, aq_agent = ''bot'', aq_owner = ''ann''\<rparr>]. request_fits q"
    by (simp add: request_fits_def)
  from rate_limit_holds [OF g this, of "\<lambda>_. []"] obtain audit where
    "\<forall>a. logged_allows a audit = admission_count a (fold (run_admit (\<lambda>m. m) (\<lambda>_. []) (\<lambda>_. None))
       [\<lparr>aq_now = sample_time, aq_uuid = ''u'', aq_entry = sample_admission, aq_agent = ''bot'', aq_owner = ''ann''\<rparr>] g) \<and>
     logged_allows a audit \<le> 100" by blast
  note A = spec [OF this, of "''bot''"]
  show ?thesis by (intro exI [where x = g] conjI g(2) ord_eq_le_trans [OF conjunct1 [OF A, symmetric] conjunct2 [OF A]])
qed

end
