(* ===== verification/Identity_Props.thy ===== *)
theory Identity_Props
  imports Identity_Laws
begin

text \<open>Properties of the identity registry.\<close>

text \<open>
  C16: the registry refines a map from agents to registrations. After any history of
  registrations and revocations (the latest registration of a name wins, a revocation
  counts only from the registered owner or for an unknown name), resolving a name
  gives what the map says, with the trust score of that moment; and a registry started
  afresh on the same storage gives the same answers. (Up to a million requests, the
  number of entries a start reads back.)
\<close>

theorem registry_refines_spec:
  assumes "shard_inv sha IDENTITY_REGISTRY_SHARD s []" and "mono_files s = []"
    and "\<forall>q \<in> set qs. reg_request_ok q" and "length qs \<le> 1000000"
  shows "snd (resolve now a (fold (run_reg sha) qs (new_registry s b)))
      = Inr (resolved b now (fold spec_reg qs (\<lambda>_. None) a)) \<and>
    snd (resolve now a (new_registry (rg_fs (fold (run_reg sha) qs (new_registry s b))) b))
      = Inr (resolved b now (fold spec_reg qs (\<lambda>_. None) a))"
proof -
  let ?g = "fold (run_reg sha) qs (new_registry s b)"
  have ready: "reg_ready sha b (length qs) (new_registry s b)" "reg_abs (new_registry s b) = (\<lambda>_. None)"
    using reg_ready_new [OF assms(1,2,4)] by simp_all
  have "reg_ready sha b 0 ?g" using registry_sim.steps_inv [of sha b qs 0] ready(1) assms(3) by simp
  then obtain es ix where inv: "reg_inv sha es ix ?g" and b: "rg_trust_baseline ?g = b" by (auto simp: reg_ready_def)
  then have view: "reg_view ix = fold spec_reg qs (\<lambda>_. None)"
    using registry_sim.steps_abs [OF ready(1) assms(3)] ready(2) reg_abs_inv [OF inv] by simp
  have inv': "reg_inv sha es ix (new_registry (rg_fs ?g) b)"
    using inv by (simp add: reg_inv_def new_registry_def)
  obtain g1 where "resolve now a ?g = (g1, Inr (resolved (rg_trust_baseline ?g) now (reg_view ix a)))"
    using resolve_inv [OF inv] by blast
  moreover obtain g2 where "resolve now a (new_registry (rg_fs ?g) b)
      = (g2, Inr (resolved (rg_trust_baseline (new_registry (rg_fs ?g) b)) now (reg_view ix a)))"
    using resolve_inv [OF inv'] by blast
  ultimately show ?thesis using b view by (simp add: new_registry_def)
qed

theorem registry_refines_spec_witness:
  "snd (resolve sample_time ''bot'' (fold (run_reg (\<lambda>m. m))
      [RegisterReq sample_time ''u1'' ''bot'' ''pk'' ''ann'' ''sig'' (JStr ''claude'') JNull,
       RevokeReq sample_time ''u2'' ''bot'' ''eve'' ''sig'' JNull] (new_registry empty_fs 0)))
   = Inr (Some \<lparr>ai_agent_id = JStr ''bot'', ai_public_key = JStr ''pk'', ai_owner_id = JStr ''ann'', ai_model = JStr ''claude'',
       ai_registered_at = sample_time, ai_trust_score = fast_trust 0 0\<rparr>)"
  using registry_refines_spec [where sha = "\<lambda>m. m" and s = empty_fs and now = sample_time and a = "''bot''" and b = 0 and
      qs = "[RegisterReq sample_time ''u1'' ''bot'' ''pk'' ''ann'' ''sig'' (JStr ''claude'') JNull,
       RevokeReq sample_time ''u2'' ''bot'' ''eve'' ''sig'' JNull]"] sample_tz
  by (auto simp: may_revoke_def resolved_def empty_mono)

text \<open>
  Only the registered owner can revoke. For a registered agent, a revocation by anyone
  else raises and leaves the storage as it was; one by the owner succeeds, and from then
  on the agent is not resolved and both of its trust scores are zero, even if a deep
  score was cached; the registration itself stays in the log.
\<close>

theorem revocation_by_owner_only:
  assumes inv: "reg_inv sha es ix g" and room: "int (length es) < READ_ALL"
    and t: "valid_dt now" and a: "a \<noteq> []" and wf: "wf_json reason" and known: "reg_view ix a = Some r"
  shows "\<exists>g' res. revoke sha now uuid a owner sg reason g = (g', res) \<and>
    (if ra_owner_id r \<noteq> JStr owner then res = Inl (DSMError ''UnauthorizedRevocation'') \<and> rg_fs g' = rg_fs g
     else (\<exists>e. res = Inr e) \<and> snd (resolve t' a g') = Inr None \<and> snd (trust_score t' (JStr a) g') = Inr 0 \<and>
       snd (deep_trust_score c c' t' a g') = Inr 0 \<and> prefix es (shard_log IDENTITY_REGISTRY_SHARD (rg_fs g')))"
proof (cases "ra_owner_id r = JStr owner")
  case True
  then have "may_revoke owner (reg_view ix a)" using known by (simp add: may_revoke_def)
  then obtain g' e x ix' where rv: "revoke sha now uuid a owner sg reason g = (g', Inr e)"
    and inv': "reg_inv sha (es @ [x]) ix' g'" and view: "reg_view ix' = reg_spec (Revoke a) (reg_view ix)"
    and cache: "rg_deep_trust_cache g' = ddel a (rg_deep_trust_cache g)"
    using revoke_inv [OF inv room t a wf] by blast
  have v: "reg_view ix' a = Some (r\<lparr>ra_revoked := True\<rparr>)" using view known by simp
  then obtain rr where rr: "map_of ix' (JStr a) = Some rr" "rr_revoked rr" using reg_view_revoked [OF v] by auto
  have "snd (resolve t' a g') = Inr None" using resolve_inv [OF inv', of t' a] v by (auto simp: resolved_def)
  moreover have "snd (trust_score t' (JStr a) g') = Inr 0" using trust_score_inv [OF inv', of t' a] v by (auto simp: trust_of_def)
  moreover have "snd (deep_trust_score c c' t' a g') = Inr 0"
    using reg_ensure_inv [OF inv'] rr cache by (auto simp: deep_trust_score_def deep_trust_fresh_def sbind_def)
  moreover have "shard_log IDENTITY_REGISTRY_SHARD (rg_fs g') = es @ [x]"
    using inv' shard_log_inv by (auto simp: reg_inv_def)
  ultimately show ?thesis using rv True by auto
next
  case False
  then have "\<not> may_revoke owner (reg_view ix a)" using known by (simp add: may_revoke_def)
  then show ?thesis
    using revoke_refused [OF inv, of owner a now uuid sg reason] False by (auto dest: reg_filledD(1))
qed

text \<open>A registry with one agent, for the examples.\<close>

lemma sample_registry:
  assumes "a \<noteq> []"
  shows "\<exists>g e es ix. register sha sample_time uuid a pk owner sg (JStr m) JNull (new_registry empty_fs b) = (g, Inr e) \<and>
    reg_inv sha es ix g \<and> int (length es) < READ_ALL \<and> rg_trust_baseline g = b \<and>
    reg_view ix a = Some \<lparr>ra_agent_id = JStr a, ra_public_key = JStr pk, ra_owner_id = JStr owner, ra_model = JStr m,
      ra_registered_at = sample_time, ra_revoked = False\<rparr>"
proof -
  have inv: "reg_inv sha [] [] (new_registry empty_fs b)"
    by (intro reg_inv_new) (simp_all add: READ_ALL_def aware_def empty_mono)
  have "\<exists>g' e r ix'. register sha sample_time uuid a pk owner sg (JStr m) JNull (new_registry empty_fs b) = (g', Inr e) \<and>
    reg_inv sha ([] @ [r]) ix' g' \<and> reg_view ix' = reg_spec (Register a pk owner (JStr m) sample_time) (reg_view []) \<and>
    rg_trust_baseline g' = rg_trust_baseline (new_registry empty_fs b) \<and>
    g' = (new_registry empty_fs b)\<lparr>rg_fs := rg_fs g', rg_index := None\<rparr> \<and>
    others_kept sha IDENTITY_REGISTRY_SHARD (rg_fs (new_registry empty_fs b)) (rg_fs g')"
    using sample_tz assms by (intro register_inv [OF inv]) (simp_all add: READ_ALL_def)
  then obtain g e r ix where g: "register sha sample_time uuid a pk owner sg (JStr m) JNull (new_registry empty_fs b) = (g, Inr e)"
    "reg_inv sha [r] ix g" "reg_view ix = reg_spec (Register a pk owner (JStr m) sample_time) (reg_view [])"
    "rg_trust_baseline g = b" by (auto simp: new_registry_def simp del: reg_spec.simps)
  then show ?thesis by (intro exI [where x = g] exI [where x = e] exI [where x = "[r]"] exI [where x = ix])
      (simp add: READ_ALL_def)
qed

theorem revocation_by_owner_only_witness:
  "\<exists>g' e. register (\<lambda>m. m) sample_time ''u1'' ''bot'' ''pk'' ''ann'' ''sig'' (JStr ''m'') JNull (new_registry empty_fs 0) = (g', Inr e) \<and>
     snd (revoke (\<lambda>m. m) sample_time ''u2'' ''bot'' ''eve'' ''sig'' JNull g') = Inl (DSMError ''UnauthorizedRevocation'') \<and>
     snd (resolve sample_time ''bot'' (fst (revoke (\<lambda>m. m) sample_time ''u3'' ''bot'' ''ann'' ''sig'' JNull g'))) = Inr None"
proof -
  obtain g e es ix where g: "register (\<lambda>m. m) sample_time ''u1'' ''bot'' ''pk'' ''ann'' ''sig'' (JStr ''m'') JNull (new_registry empty_fs 0) = (g, Inr e)"
    and inv: "reg_inv (\<lambda>m. m) es ix g" "int (length es) < READ_ALL"
    and v: "reg_view ix ''bot'' = Some \<lparr>ra_agent_id = JStr ''bot'', ra_public_key = JStr ''pk'', ra_owner_id = JStr ''ann'',
       ra_model = JStr ''m'', ra_registered_at = sample_time, ra_revoked = False\<rparr>"
    using sample_registry [of "''bot''" "\<lambda>m. m" "''u1''" "''pk''" "''ann''" "''sig''" "''m''" 0] by auto
  show ?thesis
    using g revocation_by_owner_only [OF inv valid_sample_time _ _ v, of JNull "''u2''" "''eve''" "''sig''"]
      revocation_by_owner_only [OF inv valid_sample_time _ _ v, of JNull "''u3''" "''ann''" "''sig''" sample_time 0 0]
    by auto
qed

text \<open>
  C20: trust stays within its bounds. With a baseline that is a double between 0 and 1, and no
  registration dated in the future, the fast score of an agent is 0 if it is unknown or
  revoked, and otherwise lies between the baseline and the smaller of 1 and the baseline
  plus a tenth, all in the floating-point arithmetic the code computes with; any deep
  score computed from it lies between 0 and 1.
\<close>

theorem trust_score_bounds:
  assumes "reg_inv sha es ix g" and "is_double (rg_trust_baseline g)" and "0 \<le> rg_trust_baseline g" "rg_trust_baseline g \<le> ONE"
    and "\<forall>r. reg_view ix a = Some r \<longrightarrow> instant (ra_registered_at r) \<le> instant now"
  shows "\<exists>x. snd (trust_score now (JStr a) g) = Inr x \<and>
    (if reg_view ix a = None \<or> ra_revoked (the (reg_view ix a)) then x = 0
     else rg_trust_baseline g \<le> x \<and> x \<le> ONE \<and> x \<le> fadd (rg_trust_baseline g) (ffrac 1 10)) \<and>
    0 \<le> deep_trust x rate \<and> deep_trust x rate \<le> ONE"
proof -
  let ?b = "rg_trust_baseline g" and ?x = "trust_of (rg_trust_baseline g) now (reg_view ix a)"
  have fast: "?b \<le> fast_trust ?b u \<and> fast_trust ?b u \<le> ONE \<and> fast_trust ?b u \<le> fadd ?b (ffrac 1 10)" if "0 \<le> u" for u
  proof -
    have "0 < fof_int 2592000"
    proof -
      have "is_double ONE" by simp
      then have "ONE = rnd ONE 1" by (simp add: is_double_def)
      also have "\<dots> \<le> rnd (2592000 * ONE) 1" by (rule rnd_mono) (simp_all add: order_less_imp_le)
      finally show ?thesis by (simp add: fof_int_def less_le_trans [OF ONE_pos])
    qed
    moreover have "0 \<le> ffrac u 1000000" "0 \<le> ffrac 1 10" using that by (simp_all add: ffrac_nonneg)
    ultimately have "0 \<le> age_bonus u" "age_bonus u \<le> ffrac 1 10"
      by (simp_all add: age_bonus_def fmin_def fmul_nonneg fdiv_nonneg Let_def)
    then have "?b \<le> fadd ?b (age_bonus u)" "fadd ?b (age_bonus u) \<le> fadd ?b (ffrac 1 10)"
      using fadd_ge [OF assms(2)] fadd_mono by blast+
    then show ?thesis using assms(4) by (auto simp: fast_trust_def fmin_def)
  qed
  have "snd (trust_score now (JStr a) g) = Inr ?x" using trust_score_inv [OF assms(1), of now a] by auto
  moreover have "if reg_view ix a = None \<or> ra_revoked (the (reg_view ix a)) then ?x = 0
      else ?b \<le> ?x \<and> ?x \<le> ONE \<and> ?x \<le> fadd ?b (ffrac 1 10)"
    using fast [of "instant now - instant (ra_registered_at (the (reg_view ix a)))"] assms(5)
    by (auto simp: trust_of_def split: option.splits)
  moreover have "0 \<le> deep_trust ?x rate \<and> deep_trust ?x rate \<le> ONE"
    using ONE_pos by (auto simp: deep_trust_def fmin_def fmax_def simp del: ONE_pos)
  ultimately show ?thesis by blast
qed

theorem trust_score_bounds_witness:
  "\<exists>g e x. register (\<lambda>m. m) sample_time ''u1'' ''bot'' ''pk'' ''ann'' ''sig'' (JStr ''m'') JNull (new_registry empty_fs ONE) = (g, Inr e) \<and>
     snd (trust_score sample_time (JStr ''bot'') g) = Inr x \<and> x = ONE"
proof -
  obtain g e es ix where g: "register (\<lambda>m. m) sample_time ''u1'' ''bot'' ''pk'' ''ann'' ''sig'' (JStr ''m'') JNull (new_registry empty_fs ONE) = (g, Inr e)"
    and inv: "reg_inv (\<lambda>m. m) es ix g" "rg_trust_baseline g = ONE"
    and v: "reg_view ix ''bot'' = Some \<lparr>ra_agent_id = JStr ''bot'', ra_public_key = JStr ''pk'', ra_owner_id = JStr ''ann'',
       ra_model = JStr ''m'', ra_registered_at = sample_time, ra_revoked = False\<rparr>"
    using sample_registry [of "''bot''" "\<lambda>m. m" "''u1''" "''pk''" "''ann''" "''sig''" "''m''" ONE] by auto
  show ?thesis
    using g trust_score_bounds [OF inv(1), of "''bot''" sample_time 0] inv(2) v by (auto simp: order_less_imp_le)
qed

text \<open>
  A filled index hides the writes of others. If a second registry on the same storage
  revokes an agent, a fresh registry no longer resolves it, but one whose index is
  already filled goes on resolving it as before.
\<close>

theorem external_revocation_not_seen:
  assumes inv: "reg_inv sha es ix g" and filled: "rg_index g = Some ix" and room: "int (length es) < READ_ALL"
    and t: "valid_dt now" and a: "a \<noteq> []" and wf: "wf_json reason"
    and known: "reg_view ix a = Some r" "\<not> ra_revoked r" "ra_owner_id r = JStr owner"
  shows "\<exists>g2 e i. revoke sha now uuid a owner sg reason (new_registry (rg_fs g) b) = (g2, Inr e) \<and>
    snd (resolve t' a (new_registry (rg_fs g2) b)) = Inr None \<and>
    snd (resolve t' a (g\<lparr>rg_fs := rg_fs g2\<rparr>)) = Inr (Some i)"
proof -
  have inv0: "reg_inv sha es ix (new_registry (rg_fs g) b)" using inv by (simp add: reg_inv_def new_registry_def)
  have "may_revoke owner (reg_view ix a)" using known by (simp add: may_revoke_def)
  then obtain g2 e x ix' where rv: "revoke sha now uuid a owner sg reason (new_registry (rg_fs g) b) = (g2, Inr e)"
    and inv2: "reg_inv sha (es @ [x]) ix' g2" and view: "reg_view ix' = reg_spec (Revoke a) (reg_view ix)"
    using revoke_inv [OF inv0 room t a wf] by blast
  have "reg_inv sha (es @ [x]) ix' (new_registry (rg_fs g2) b)" using inv2 by (simp add: reg_inv_def new_registry_def)
  then have "snd (resolve t' a (new_registry (rg_fs g2) b)) = Inr None"
    using resolve_inv [of sha "es @ [x]" ix' "new_registry (rg_fs g2) b" t' a] view known by (auto simp: resolved_def)
  moreover obtain rr where rr: "map_of ix (JStr a) = Some rr" "\<not> rr_revoked rr"
    using known reg_view_revoked [OF known(1)] by auto
  have "tz (rr_registered_at rr) \<noteq> None" using inv rr(1) reg_view_aware by (auto simp: reg_inv_def)
  then have "\<exists>i. snd (resolve t' a (g\<lparr>rg_fs := rg_fs g2\<rparr>)) = Inr (Some i)"
    using filled rr by (auto simp: resolve_def trust_score_def reg_ensure_index_def sbind_def)
  ultimately show ?thesis using rv by blast
qed

theorem external_revocation_not_seen_witness:
  "\<exists>g e (g2 :: registry) i. register (\<lambda>m. m) sample_time ''u1'' ''bot'' ''pk'' ''ann'' ''sig'' (JStr ''m'') JNull (new_registry empty_fs 0) = (g, Inr e) \<and>
     snd (resolve sample_time ''bot'' (fst (reg_ensure_index g)\<lparr>rg_fs := rg_fs g2\<rparr>)) = Inr (Some i) \<and>
     snd (resolve sample_time ''bot'' (new_registry (rg_fs g2) 0)) = Inr None"
proof -
  obtain g e es ix where g: "register (\<lambda>m. m) sample_time ''u1'' ''bot'' ''pk'' ''ann'' ''sig'' (JStr ''m'') JNull (new_registry empty_fs 0) = (g, Inr e)"
    and inv: "reg_inv (\<lambda>m. m) es ix g" "int (length es) < READ_ALL"
    and v: "reg_view ix ''bot'' = Some \<lparr>ra_agent_id = JStr ''bot'', ra_public_key = JStr ''pk'', ra_owner_id = JStr ''ann'',
       ra_model = JStr ''m'', ra_registered_at = sample_time, ra_revoked = False\<rparr>"
    using sample_registry [of "''bot''" "\<lambda>m. m" "''u1''" "''pk''" "''ann''" "''sig''" "''m''" 0] by auto
  obtain g' where g': "reg_ensure_index g = (g', Inr ix)" "reg_filled ix g g'" using reg_ensure_inv [OF inv(1)] by blast
  note f = reg_filledD [OF g'(2)]
  obtain g2 :: registry and i where "snd (resolve sample_time ''bot'' (new_registry (rg_fs g2) 0)) = Inr None"
    "snd (resolve sample_time ''bot'' (g'\<lparr>rg_fs := rg_fs g2\<rparr>)) = Inr (Some i)"
    using external_revocation_not_seen [OF f(5) [OF inv(1)] f(3) inv(2) valid_sample_time _ _ v,
        of JNull "''ann''" "''u2''" "''sig''" 0 sample_time] by auto
  then show ?thesis
    using g g'(1) by (intro exI [where x = g] exI [where x = e] exI [where x = g2] exI [where x = i]) simp
qed

end
