(* ===== verification/Pylib.thy ===== *)
theory Pylib
  imports Pyfloat "HOL-Library.Multiset"
begin

text \<open>
  Further operations of Python the managers above the kernel use: the printing of floats,
  \<^verbatim>\<open>sorted\<close> on JSON values, slices and joins of strings.
\<close>

lemma rbind_cong [fundef_cong]:
  "r = r' \<Longrightarrow> (\<And>x. r' = Inr x \<Longrightarrow> f x = g x) \<Longrightarrow> rbind r f = rbind r' g"
  by (cases r') simp_all

section \<open>Lists\<close>

text \<open>\<^verbatim>\<open>xs[:n]\<close> and \<^verbatim>\<open>xs[n:]\<close>: a negative bound counts from the end.\<close>

definition py_take :: "int \<Rightarrow> 'a list \<Rightarrow> 'a list" where
  "py_take n xs = take (nat (if n < 0 then int (length xs) + n else n)) xs"

definition py_drop :: "int \<Rightarrow> 'a list \<Rightarrow> 'a list" where
  "py_drop n xs = drop (nat (if n < 0 then int (length xs) + n else n)) xs"

text \<open>\<^verbatim>\<open>"".join(xs)\<close>.\<close>

fun join_strs :: "json list \<Rightarrow> string res" where
  "join_strs [] = Inr []"
| "join_strs (JStr s # xs) = rbind (join_strs xs) (\<lambda>t. Inr (s @ t))"
| "join_strs (_ # xs) = Inl TypeError"

text \<open>A loop that collects the values for which the body gives one.\<close>

fun collect :: "('a \<Rightarrow> 'b option res) \<Rightarrow> 'a list \<Rightarrow> 'b list res" where
  "collect f [] = Inr []"
| "collect f (x # xs) =
     rbind (f x) (\<lambda>v. rbind (collect f xs) (\<lambda>vs. Inr (case v of None \<Rightarrow> vs | Some y \<Rightarrow> y # vs)))"

fun filter_res :: "('a \<Rightarrow> bool res) \<Rightarrow> 'a list \<Rightarrow> 'a list res" where
  "filter_res p [] = Inr []"
| "filter_res p (x # xs) = rbind (p x) (\<lambda>b. rbind (filter_res p xs) (\<lambda>ys. Inr (if b then x # ys else ys)))"

lemma join_strs_map [simp]: "join_strs (map JStr ss) = Inr (concat ss)"
  by (induction ss) simp_all

lemma filter_res_Inr: "(\<And>x. x \<in> set xs \<Longrightarrow> p x = Inr (q x)) \<Longrightarrow> filter_res p xs = Inr (filter q xs)"
  by (induction xs) simp_all

lemma any_res_Inr: "(\<And>x. x \<in> set xs \<Longrightarrow> p x = Inr (q x)) \<Longrightarrow> any_res p xs = Inr (\<exists>x \<in> set xs. q x)"
  by (induction xs) auto

section \<open>Sorting\<close>

text \<open>
  \<^verbatim>\<open>sorted\<close> compares strings with strings and numbers with numbers; any other pair has no
  order. A NaN, whose position depends on the algorithm, is left where insertion puts it.
\<close>

definition num_val :: "json \<Rightarrow> flt option" where
  "num_val v =
     (case v of JInt i \<Rightarrow> Some (Fin (i * ONE)) | JBool b \<Rightarrow> Some (Fin (if b then ONE else 0))
      | JFloat s \<Rightarrow> Some (float_of_lex s) | _ \<Rightarrow> None)"

definition str_val :: "json \<Rightarrow> string option" where
  "str_val v = (case v of JStr s \<Rightarrow> Some s | _ \<Rightarrow> None)"

fun insert_num :: "json \<Rightarrow> json list \<Rightarrow> json list" where
  "insert_num v [] = [v]"
| "insert_num v (w # ws) = (if flt_less (the (num_val w)) (the (num_val v)) then w # insert_num v ws else v # w # ws)"

definition py_sorted :: "json list \<Rightarrow> json list res" where
  "py_sorted vs =
     (if length vs \<le> 1 then Inr vs
      else if list_all (\<lambda>v. str_val v \<noteq> None) vs then Inr (map JStr (sort (map (\<lambda>v. the (str_val v)) vs)))
      else if list_all (\<lambda>v. num_val v \<noteq> None) vs then Inr (foldr insert_num vs [])
      else Inl TypeError)"

lemma str_val_JStr [simp]: "str_val (JStr s) = Some s"
  by (simp add: str_val_def)

lemma py_sorted_strings: "py_sorted (map JStr ss) = Inr (map JStr (sort ss))"
proof (cases "length ss \<le> 1")
  case True
  then have "sort ss = ss" by (intro sorted_sort_id) (cases ss; simp)
  with True show ?thesis by (simp add: py_sorted_def)
next
  case False
  then show ?thesis by (simp add: py_sorted_def list_all_iff comp_def)
qed

section \<open>Printing floats\<close>

text \<open>
  \<^verbatim>\<open>repr(x)\<close> of a finite double that is not negative: the fewest significant digits that
  read back to \<open>x\<close>, in positional notation when the decimal exponent is between -4 and 15.
  A search among numbers of digits that go up to the exact expansion always succeeds.
\<close>

definition dec_exp :: "int \<Rightarrow> int" where
  "dec_exp x =
     (if ONE \<le> x then int (length (show_nat (nat (x div ONE)))) - 1
      else - int (length (show_nat (nat ((ONE - 1) div x)))))"

text \<open>The \<open>p\<close> leading digits as a number, and the exponent of its last digit.\<close>

definition digits_at :: "int \<Rightarrow> nat \<Rightarrow> nat \<times> int" where
  "digits_at x p =
     (let t = int p - 1 - dec_exp x;
          m = nat (if 0 \<le> t then rne (x * 10 ^ nat t) ONE else rne x (ONE * 10 ^ nat (- t)))
      in if m = 10 ^ p then (10 ^ (p - 1), 1 - t) else (m, - t))"

definition reads_back :: "int \<Rightarrow> nat \<Rightarrow> bool" where
  "reads_back x p = (case digits_at x p of (m, e) \<Rightarrow> dec_float False m e = Fin x)"

function first_digits :: "int \<Rightarrow> nat \<Rightarrow> nat" where
  "first_digits x p = (if reads_back x p \<or> 1400 \<le> p then p else first_digits x (Suc p))"
  by pat_completeness auto
termination
  by (relation "measure (\<lambda>(x, p). 1400 - p)") auto

declare first_digits.simps [simp del]

definition positional :: "string \<Rightarrow> int \<Rightarrow> string" where
  "positional ds e =
     (if e < 0 then ''0.'' @ replicate (nat (- e - 1)) (CHR ''0'') @ ds
      else if int (length ds) \<le> e + 1 then ds @ replicate (nat (e + 1) - length ds) (CHR ''0'') @ ''.0''
      else take (nat (e + 1)) ds @ ''.'' @ drop (nat (e + 1)) ds)"

definition scientific :: "string \<Rightarrow> int \<Rightarrow> string" where
  "scientific ds e =
     hd ds # (if tl ds = [] then [] else CHR ''.'' # tl ds) @
     ''e'' @ (if e < 0 then ''-'' else ''+'') @ (let s = show_nat (nat \<bar>e\<bar>) in if length s < 2 then CHR ''0'' # s else s)"

definition float_repr :: "int \<Rightarrow> string" where
  "float_repr x =
     (if x = 0 then ''0.0''
      else (case digits_at x (first_digits x 1) of (m, k) \<Rightarrow>
        (let ds = show_nat m; e = k + int (length ds) - 1
         in if - 4 \<le> e \<and> e < 16 then positional ds e else scientific ds e)))"

text \<open>\<^verbatim>\<open>int(x)\<close> of a double rounds towards zero.\<close>

definition ftrunc :: "int \<Rightarrow> int" where
  "ftrunc x = (if x < 0 then - ((- x) div ONE) else x div ONE)"

text \<open>What is printed is a float of JSON, never an integer.\<close>

lemma takeWhile_part:
  assumes "list_all P a" and "r = [] \<or> \<not> P (hd r)"
  shows "takeWhile P (a @ r) = a" and "dropWhile P (a @ r) = r"
  using assms by (cases r; auto simp: list_all_iff)+

lemma float_lexI:
  assumes ip: "unsigned_int_lex ip" and fp: "fp = [] \<or> (\<exists>fs. fp = CHR ''.'' # fs \<and> fs \<noteq> [] \<and> list_all is_digit fs)"
    and ep: "ep = [] \<or> (hd ep = CHR ''e'' \<and> exp_lex ep \<and> list_all num_char ep)" and ne: "fp @ ep \<noteq> []"
  shows "float_lex (ip @ fp @ ep)"
proof -
  let ?q = "\<lambda>c. c = CHR ''.'' \<or> is_digit c"
  have c: "\<not> is_digit (CHR ''e'')" "\<not> is_digit (CHR ''.'')" by (simp_all add: is_digit_def)
  obtain d ds where d: "ip = d # ds" "is_digit d" "list_all is_digit ip"
    using ip by (cases ip) (auto simp: unsigned_int_lex_def)
  have dm: "drop_minus (ip @ fp @ ep) = ip @ fp @ ep"
    using d digit_not_sign [of d] by (simp add: drop_minus_def)
  have 1: "takeWhile is_digit (ip @ fp @ ep) = ip" "dropWhile is_digit (ip @ fp @ ep) = fp @ ep"
    using takeWhile_part [OF d(3), of "fp @ ep"] fp ep c by (cases "fp = []"; auto)+
  have "list_all ?q fp" using fp by (auto simp: list_all_iff)
  then have 2: "takeWhile ?q (fp @ ep) = fp" "dropWhile ?q (fp @ ep) = ep"
    using takeWhile_part [of ?q fp ep] ep c by auto
  have "frac_lex fp" using fp by (auto simp: frac_lex_def)
  moreover have "exp_lex ep" using ep by (metis exp_lex_def)
  moreover have "list_all num_char (ip @ fp @ ep)"
    using d(3) fp ep by (auto simp: list_all_iff num_char_def)
  ultimately show ?thesis using ip ne unfolding float_lex_def Let_def dm 1 2 by blast
qed

lemma show_nat_length:
  "n < 10 ^ length (show_nat n) \<and> (0 < n \<longrightarrow> 10 ^ (length (show_nat n) - 1) \<le> n)"
proof (induction n rule: show_nat.induct)
  case (1 n)
  show ?case
  proof (cases "n < 10")
    case True
    then show ?thesis by (subst (1 2) show_nat.simps) simp
  next
    case False
    let ?l = "length (show_nat (n div 10))"
    have IH: "n div 10 < 10 ^ ?l" "10 ^ (?l - 1) \<le> n div 10" using 1 False by auto
    have l: "length (show_nat n) = Suc ?l" using False by (subst show_nat.simps) simp
    have "n < 10 * 10 ^ ?l" using IH(1) by linarith
    moreover have "10 ^ ?l \<le> n"
    proof -
      have "(10::nat) ^ ?l = 10 * 10 ^ (?l - 1)" by (cases ?l) simp_all
      with IH(2) show ?thesis by linarith
    qed
    ultimately show ?thesis by (simp add: l)
  qed
qed

lemma rne_ge_1: "0 < b \<Longrightarrow> b \<le> a \<Longrightarrow> 1 \<le> rne a b"
proof -
  assume "0 < b" "b \<le> a"
  then have "1 \<le> a div b" by (simp add: int_one_le_iff_zero_less pos_imp_zdiv_pos_iff)
  then show ?thesis by (simp add: rne_def Let_def)
qed

lemma digits_at_pos:
  assumes "0 < x" and "1 \<le> p"
  shows "0 < fst (digits_at x p)"
proof -
  let ?t = "int p - 1 - dec_exp x"
  have "0 < nat (if 0 \<le> ?t then rne (x * 10 ^ nat ?t) ONE else rne x (ONE * 10 ^ nat (- ?t)))"
  proof (cases "ONE \<le> x")
    case True
    let ?d = "nat (x div ONE)"
    have d: "0 < ?d" using True ONE_pos by (simp add: pos_imp_zdiv_pos_iff)
    have e: "dec_exp x = int (length (show_nat ?d)) - 1" using True by (simp add: dec_exp_def)
    have pow: "ONE \<le> x * 10 ^ nat ?t"
      using True assms(1) mult_mono [of ONE x 1 "10 ^ nat ?t"] ONE_pos by simp
    have "ONE * 10 ^ nat (- ?t) \<le> x" if "?t < 0"
    proof -
      have "nat (- ?t) \<le> length (show_nat ?d) - 1" using e that assms(2) by linarith
      then have "(10::nat) ^ nat (- ?t) \<le> 10 ^ (length (show_nat ?d) - 1)" by (simp add: power_increasing)
      also have "\<dots> \<le> ?d" using show_nat_length [of ?d] d by blast
      finally have "int (10 ^ nat (- ?t)) \<le> int ?d" by (simp only: of_nat_le_iff)
      then have "10 ^ nat (- ?t) \<le> x div ONE" using d by simp
      then have "ONE * 10 ^ nat (- ?t) \<le> ONE * (x div ONE)" using ONE_pos by (simp del: ONE_pos)
      also have "\<dots> \<le> x" using mult_div_mod_eq [of ONE x] pos_mod_sign [OF ONE_pos, of x] by linarith
      finally show ?thesis .
    qed
    then show ?thesis using rne_ge_1 [OF ONE_pos pow] rne_ge_1 [of "ONE * 10 ^ nat (- ?t)" x] ONE_pos by auto
  next
    case False
    let ?d = "nat ((ONE - 1) div x)"
    have e: "dec_exp x = - int (length (show_nat ?d))" using False by (simp add: dec_exp_def)
    then have t: "length (show_nat ?d) \<le> nat ?t" "0 \<le> ?t" using assms(2) by linarith+
    have "?d < 10 ^ length (show_nat ?d)" using show_nat_length by blast
    then have "int ?d < int (10 ^ length (show_nat ?d))" by (simp only: of_nat_less_iff)
    moreover have "0 \<le> (ONE - 1) div x" using assms(1) ONE_pos by (simp add: pos_imp_zdiv_nonneg_iff)
    ultimately have q: "(ONE - 1) div x + 1 \<le> 10 ^ length (show_nat ?d)" by simp
    have "ONE \<le> x * ((ONE - 1) div x + 1)"
      using mult_div_mod_eq [of x "ONE - 1"] pos_mod_bound [OF assms(1), of "ONE - 1"] unfolding distrib_left by linarith
    also have "\<dots> \<le> x * 10 ^ length (show_nat ?d)" using q assms(1) by (simp add: mult_left_mono)
    also have "\<dots> \<le> x * 10 ^ nat ?t" using assms(1) t(1) by (simp add: mult_left_mono power_increasing)
    finally show ?thesis using rne_ge_1 [OF ONE_pos, of "x * 10 ^ nat ?t"] t(2) by auto
  qed
  then show ?thesis by (simp add: digits_at_def Let_def)
qed

lemma first_digits_ge: "p \<le> first_digits x p"
proof (induction x p rule: first_digits.induct)
  case (1 x p)
  then show ?case by (subst first_digits.simps) auto
qed

lemma float_lex_repr [simp]:
  assumes "0 \<le> x"
  shows "float_lex (float_repr x)"
proof (cases "x = 0")
  case False
  define m k where "m = fst (digits_at x (first_digits x 1))" and "k = snd (digits_at x (first_digits x 1))"
  define ds e where "ds = show_nat m" and "e = k + int (length ds) - 1"
  have r: "float_repr x = (if - 4 \<le> e \<and> e < 16 then positional ds e else scientific ds e)"
    using False by (simp add: float_repr_def m_def k_def ds_def e_def Let_def case_prod_unfold)
  have "0 < m" using digits_at_pos [of x "first_digits x 1"] first_digits_ge [of 1 x] assms False by (simp add: m_def)
  then have ds: "unsigned_int_lex ds" "list_all is_digit ds" "ds \<noteq> []" "hd ds \<noteq> CHR ''0''"
    using int_lex_show_nat show_nat_digits hd_show_nat by (simp_all add: ds_def list_all_iff)
  have z: "is_digit (CHR ''0'')" by (simp add: is_digit_def)
  have app: "unsigned_int_lex (ds @ replicate n (CHR ''0''))" for n
    using ds z by (auto simp: unsigned_int_lex_def list_all_iff)
  have tk: "unsigned_int_lex (take n ds)" if "0 < n" for n
    using ds that by (cases ds; cases n) (auto simp: unsigned_int_lex_def list_all_iff dest: in_set_takeD)
  have pos: "float_lex (positional ds e)"
  proof (cases "e < 0")
    case True
    then show ?thesis
      using float_lexI [of "''0''" "CHR ''.'' # replicate (nat (- e - 1)) (CHR ''0'') @ ds" "[]"] ds(2,3) z
      by (simp add: positional_def unsigned_int_lex_def list_all_iff ball_Un)
  next
    case e: False
    show ?thesis
    proof (cases "int (length ds) \<le> e + 1")
      case True
      then show ?thesis
        using e float_lexI [OF app, of "''.0''" "[]" "nat (e + 1) - length ds"] z by (simp add: positional_def)
    next
      case False
      moreover from this e have "drop (nat (e + 1)) ds \<noteq> []" by simp
      moreover have "list_all is_digit (drop (nat (e + 1)) ds)" using ds(2) by (auto simp: list_all_iff dest: in_set_dropD)
      ultimately show ?thesis
        using e float_lexI [OF tk, of "nat (e + 1)" "CHR ''.'' # drop (nat (e + 1)) ds" "[]"] by (simp add: positional_def)
    qed
  qed
  have sci: "float_lex (scientific ds e)"
  proof -
    let ?s = "show_nat (nat \<bar>e\<bar>)"
    let ?u = "if length ?s < 2 then CHR ''0'' # ?s else ?s"
    let ?ep = "''e'' @ (if e < 0 then ''-'' else ''+'') @ ?u"
    have u: "list_all is_digit ?u" "?u \<noteq> []" using show_nat_digits z by (auto simp: list_all_iff)
    then have "exp_lex ?ep" "list_all num_char ?ep" by (auto simp: exp_lex_def Let_def list_all_iff num_char_def)
    moreover have "list_all is_digit (tl ds)" using ds(2) by (cases ds) simp_all
    moreover have "unsigned_int_lex [hd ds]" using ds by (cases ds) (auto simp: unsigned_int_lex_def)
    ultimately show ?thesis
      using float_lexI [of "[hd ds]" "if tl ds = [] then [] else CHR ''.'' # tl ds" ?ep] by (auto simp: scientific_def Let_def)
  qed
  from r pos sci show ?thesis by simp
qed (simp add: float_repr_def float_lex_def unsigned_int_lex_def frac_lex_def exp_lex_def drop_minus_def is_digit_def num_char_def)

end
