(* ===== verification/Calendar.thy ===== *)
theory Calendar
  imports Datetime
begin

text \<open>
  Arithmetic of \<^verbatim>\<open>datetime\<close>: comparison, which fails between a naive and an aware value,
  the addition of a \<^verbatim>\<open>timedelta\<close> to the wall clock, the day of the week and
  \<^verbatim>\<open>replace\<close> at round boundaries. A year above 9999 or below 1 overflows. The laws
  relate every operation to the instant a valid value denotes.
\<close>

section \<open>Operations\<close>

definition DAY_US :: int where "DAY_US = 86400000000"

text \<open>\<^verbatim>\<open>a <= b\<close> and \<^verbatim>\<open>a - b\<close> in microseconds.\<close>

definition dt_minus :: "datetime \<Rightarrow> datetime \<Rightarrow> int res" where
  "dt_minus a b = (if (tz a = None) \<noteq> (tz b = None) then Inl TypeError else Inr (instant a - instant b))"

definition dt_le :: "datetime \<Rightarrow> datetime \<Rightarrow> bool res" where
  "dt_le a b = rbind (dt_minus b a) (\<lambda>x. Inr (0 \<le> x))"

definition dt_lt :: "datetime \<Rightarrow> datetime \<Rightarrow> bool res" where
  "dt_lt a b = rbind (dt_minus b a) (\<lambda>x. Inr (0 < x))"

definition next_day :: "datetime \<Rightarrow> datetime" where
  "next_day d =
     (if day d < days_in_month (year d) (month d) then d\<lparr>day := Suc (day d)\<rparr>
      else if month d < 12 then d\<lparr>month := Suc (month d), day := 1\<rparr>
      else d\<lparr>year := Suc (year d), month := 1, day := 1\<rparr>)"

definition prev_day :: "datetime \<Rightarrow> datetime" where
  "prev_day d =
     (if 1 < day d then d\<lparr>day := day d - 1\<rparr>
      else if 1 < month d then d\<lparr>month := month d - 1, day := days_in_month (year d) (month d - 1)\<rparr>
      else d\<lparr>year := year d - 1, month := 12, day := 31\<rparr>)"

definition time_of_day :: "datetime \<Rightarrow> int" where
  "time_of_day d = ((int (hour d) * 60 + int (minute d)) * 60 + int (second d)) * 1000000 + int (micro d)"

definition with_time :: "int \<Rightarrow> datetime \<Rightarrow> datetime" where
  "with_time t d =
     d\<lparr>hour := nat (t div 3600000000), minute := nat (t div 60000000 mod 60),
       second := nat (t div 1000000 mod 60), micro := nat (t mod 1000000)\<rparr>"

definition in_range :: "datetime \<Rightarrow> datetime res" where
  "in_range d = (if 1 \<le> year d \<and> year d \<le> 9999 then Inr d else Inl (RuntimeError ''OverflowError''))"

text \<open>\<^verbatim>\<open>d + timedelta\<close> for a duration that is not negative, in microseconds.\<close>

definition dt_add :: "datetime \<Rightarrow> int \<Rightarrow> datetime res" where
  "dt_add d us =
     (let t = time_of_day d + us in in_range (with_time (t mod DAY_US) ((next_day ^^ nat (t div DAY_US)) d)))"

definition dt_minus_days :: "datetime \<Rightarrow> nat \<Rightarrow> datetime res" where
  "dt_minus_days d n = in_range ((prev_day ^^ n) d)"

text \<open>Monday is 0.\<close>

definition weekday :: "datetime \<Rightarrow> nat" where
  "weekday d = (days_before_year (year d) + days_before_month (year d) (month d) + day d + 6) mod 7"

definition at_hour :: "datetime \<Rightarrow> datetime" where
  "at_hour d = d\<lparr>minute := 0, second := 0, micro := 0\<rparr>"

definition at_midnight :: "datetime \<Rightarrow> datetime" where
  "at_midnight d = d\<lparr>hour := 0, minute := 0, second := 0, micro := 0\<rparr>"

definition at_month_start :: "datetime \<Rightarrow> datetime" where
  "at_month_start d = (at_midnight d)\<lparr>day := 1\<rparr>"

text \<open>\<^verbatim>\<open>strftime('%Y%m%d%H%M')\<close> and \<^verbatim>\<open>strftime('%Y-%m-%d')\<close>; the year is not padded.\<close>

definition stamp_minutes :: "datetime \<Rightarrow> string" where
  "stamp_minutes d = show_nat (year d) @ pad2 (month d) @ pad2 (day d) @ pad2 (hour d) @ pad2 (minute d)"

definition stamp_date :: "datetime \<Rightarrow> string" where
  "stamp_date d = show_nat (year d) @ ''-'' @ pad2 (month d) @ ''-'' @ pad2 (day d)"

section \<open>Days\<close>

definition ordinal :: "datetime \<Rightarrow> int" where
  "ordinal d = int (days_before_year (year d) + days_before_month (year d) (month d) + day d)"

lemma instant_ordinal:
  "instant d = ordinal d * DAY_US + time_of_day d - (case tz d of None \<Rightarrow> 0 | Some z \<Rightarrow> z) * 60000000"
  by (simp add: instant_def ordinal_def time_of_day_def DAY_US_def Let_def algebra_simps split: option.splits)

lemma days_before_month_Suc: "1 \<le> m \<Longrightarrow> days_before_month y (Suc m) = days_before_month y m + days_in_month y m"
  by (simp add: days_before_month_def)

lemma days_before_December: "days_before_month y 12 = (if is_leap y then 335 else 334)"
  by (simp add: days_before_month_def days_in_month_def upt_rec)

lemma days_before_year_Suc:
  assumes "1 \<le> y"
  shows "days_before_year (Suc y) = days_before_year y + (if is_leap y then 366 else 365)"
proof -
  obtain p where y: "y = Suc p" using assms by (cases y) auto
  have l: "Suc p div 100 \<le> Suc p div 4" "p div 100 \<le> p div 4" by (simp_all add: div_le_mono2)
  have s: "Suc p div k = (if k dvd Suc p then Suc (p div k) else p div k)" for k :: nat
    by (simp only: div_Suc dvd_eq_mod_eq_0)
  have d: "100 dvd Suc p \<Longrightarrow> 4 dvd Suc p" "400 dvd Suc p \<Longrightarrow> 100 dvd Suc p"
    using dvd_trans [of 4 100 "Suc p"] dvd_trans [of 100 400 "Suc p"] by simp_all
  have gen: "365 * Suc p + (if A then Suc a else a) - (if B then Suc c else c) + (if C then Suc e else e) =
      (365 * p + a - c + e) + (if A \<and> (\<not> B \<or> C) then 366 else 365)"
    if "c \<le> a" "B \<Longrightarrow> A" "C \<Longrightarrow> B" for A B C and a c e :: nat
    using that by (cases A; cases B; cases C) auto
  show ?thesis
    unfolding y days_before_year_def Let_def diff_Suc_1 is_leap_def s [of 4] s [of 100] s [of 400]
    by (rule gen [OF l(2) d])
qed

text \<open>A day of the calendar, of any year.\<close>

definition date_ok :: "datetime \<Rightarrow> bool" where
  "date_ok d = (1 \<le> year d \<and> 1 \<le> month d \<and> month d \<le> 12 \<and> 1 \<le> day d \<and> day d \<le> days_in_month (year d) (month d))"

lemma days_in_month_pos: "1 \<le> days_in_month y m"
  by (simp add: days_in_month_def)

lemma ordinal_next:
  assumes "date_ok d"
  shows "ordinal (next_day d) = ordinal d + 1" and "date_ok (next_day d)"
proof -
  consider (day) "day d < days_in_month (year d) (month d)"
    | (month) "day d = days_in_month (year d) (month d)" "month d < 12"
    | (year) "day d = days_in_month (year d) (month d)" "month d = 12"
    using assms by (auto simp: date_ok_def order.order_iff_strict)
  then have "ordinal (next_day d) = ordinal d + 1 \<and> date_ok (next_day d)"
  proof cases
    case day
    with assms show ?thesis by (simp add: next_day_def ordinal_def date_ok_def)
  next
    case month
    with assms days_before_month_Suc [of "month d" "year d"] days_in_month_pos show ?thesis
      by (simp add: next_day_def ordinal_def date_ok_def)
  next
    case year
    with assms days_before_year_Suc [of "year d"] days_before_December [of "year d"] show ?thesis
      by (simp add: next_day_def ordinal_def date_ok_def days_before_month_def [of _ "Suc 0"] days_in_month_def)
  qed
  then show "ordinal (next_day d) = ordinal d + 1" and "date_ok (next_day d)" by auto
qed

lemma next_day_fields [simp]:
  "hour (next_day d) = hour d" "minute (next_day d) = minute d" "second (next_day d) = second d"
  "micro (next_day d) = micro d" "tz (next_day d) = tz d"
  by (simp_all add: next_day_def)

lemma next_days:
  "date_ok d \<Longrightarrow> ordinal ((next_day ^^ n) d) = ordinal d + int n \<and> date_ok ((next_day ^^ n) d) \<and> tz ((next_day ^^ n) d) = tz d"
  by (induction n) (auto simp: ordinal_next)

section \<open>Addition\<close>

lemma time_of_day_bounds: "valid_dt d \<Longrightarrow> 0 \<le> time_of_day d \<and> time_of_day d < DAY_US"
  by (auto simp: time_of_day_def DAY_US_def valid_dt_def)

lemma with_time_props:
  assumes "0 \<le> t" and "t < DAY_US"
  shows "time_of_day (with_time t d) = t" and "hour (with_time t d) < 24" and "minute (with_time t d) < 60"
    and "second (with_time t d) < 60" and "micro (with_time t d) < 1000000"
    and "ordinal (with_time t d) = ordinal d" and "tz (with_time t d) = tz d" and "date_ok (with_time t d) = date_ok d"
proof -
  have a: "(t div 3600000000 * 60 + t div 60000000 mod 60) * 60 + t div 1000000 mod 60 = t div 1000000"
  proof -
    have "t div 1000000 = 60 * (t div 60000000) + t div 1000000 mod 60"
      using mult_div_mod_eq [of 60 "t div 1000000"] zdiv_zmult2_eq [of 60 t 1000000] by simp
    moreover have "t div 60000000 = 60 * (t div 3600000000) + t div 60000000 mod 60"
      using mult_div_mod_eq [of 60 "t div 60000000"] zdiv_zmult2_eq [of 60 t 60000000] by simp
    moreover have "y = 60 * x + m \<Longrightarrow> z = 60 * y + u \<Longrightarrow> (x * 60 + m) * 60 + u = z" for x y z m u :: int by simp
    ultimately show ?thesis by blast
  qed
  have b: "0 \<le> t div 3600000000" using assms(1) by (simp add: pos_imp_zdiv_nonneg_iff)
  have "time_of_day (with_time t d) = ((t div 3600000000 * 60 + t div 60000000 mod 60) * 60 + t div 1000000 mod 60) * 1000000 + t mod 1000000"
    using b by (simp add: time_of_day_def with_time_def)
  then show "time_of_day (with_time t d) = t"
    unfolding a using mult_div_mod_eq [of 1000000 t] by (simp only: mult.commute)
  show "hour (with_time t d) < 24" using assms by (simp add: with_time_def DAY_US_def)
  show "minute (with_time t d) < 60" "second (with_time t d) < 60" "micro (with_time t d) < 1000000"
    by (simp_all add: with_time_def)
  show "ordinal (with_time t d) = ordinal d" "tz (with_time t d) = tz d" "date_ok (with_time t d) = date_ok d"
    by (simp_all add: with_time_def ordinal_def date_ok_def)
qed

text \<open>The sum denotes the later instant, and is valid unless it overflows.\<close>

lemma dt_add_instant:
  assumes d: "valid_dt d" and us: "0 \<le> us" and r: "dt_add d us = Inr e"
  shows "instant e = instant d + us" and "valid_dt e" and "tz e = tz d"
proof -
  let ?t = "time_of_day d + us"
  let ?n = "(next_day ^^ nat (?t div DAY_US)) d"
  have ok: "date_ok d" using d by (simp add: valid_dt_def date_ok_def)
  have e: "e = with_time (?t mod DAY_US) ?n" "year e \<le> 9999"
    using r by (auto simp: dt_add_def Let_def in_range_def split: if_splits)
  have t: "0 \<le> ?t mod DAY_US" "?t mod DAY_US < DAY_US" by (simp_all add: DAY_US_def)
  note w = with_time_props [OF t, of ?n] and n = next_days [OF ok, of "nat (?t div DAY_US)"]
  have "0 \<le> ?t div DAY_US" using time_of_day_bounds [OF d] us by (simp add: DAY_US_def pos_imp_zdiv_nonneg_iff)
  then have "(ordinal d + int (nat (?t div DAY_US))) * DAY_US + ?t mod DAY_US = ordinal d * DAY_US + ?t"
    using mult_div_mod_eq [of DAY_US ?t] by (simp add: algebra_simps)
  then show "instant e = instant d + us" using w(1,6,7) n by (simp add: instant_ordinal e(1))
  show "tz e = tz d" using w n by (simp add: e(1))
  have "date_ok e" using w(8) n e(1) by simp
  moreover have "case tz e of None \<Rightarrow> True | Some z \<Rightarrow> - 1440 < z \<and> z < 1440"
    using d \<open>tz e = tz d\<close> by (simp add: valid_dt_def)
  ultimately show "valid_dt e" using w(2-5) e by (auto simp: valid_dt_def date_ok_def)
qed

text \<open>There is no overflow near a time that is not at the end of the calendar.\<close>

lemma days_before_year_mono: "1 \<le> y \<Longrightarrow> days_before_year y + 365 * n \<le> days_before_year (y + n)"
proof (induction n)
  case (Suc n)
  then show ?case using days_before_year_Suc [of "y + n"] by simp
qed simp

lemma days_before_month_le: "m \<le> 12 \<Longrightarrow> days_before_month y m + days_in_month y m \<le> (if is_leap y then 366 else 365)"
proof (cases "m = 0")
  case False
  assume "m \<le> 12"
  have "days_before_month y (Suc m) \<le> days_before_month y 13"
  proof -
    have "Suc m + (12 - m) = 13" using \<open>m \<le> 12\<close> by simp
    then have "[1..<13] = [1..<Suc m] @ [Suc m..<13]" using upt_add_eq_append [of 1 "Suc m" "12 - m"] by simp
    then show ?thesis by (simp add: days_before_month_def)
  qed
  moreover have "days_before_month y 13 = (if is_leap y then 366 else 365)"
    using days_before_month_Suc [of 12 y] days_before_December [of y] by (simp add: days_in_month_def)
  ultimately show ?thesis using days_before_month_Suc [of m y] False by simp
qed (simp add: days_before_month_def days_in_month_def)

lemma ordinal_year:
  assumes "date_ok d"
  shows "int (days_before_year (year d)) < ordinal d" and "ordinal d \<le> int (days_before_year (Suc (year d)))"
  using assms days_before_month_le [of "month d" "year d"] days_before_year_Suc [of "year d"]
  by (auto simp: ordinal_def date_ok_def)

lemma instant_ordinal_bounds:
  assumes "date_ok d" and "0 \<le> time_of_day d" and "time_of_day d < DAY_US"
    and "case tz d of None \<Rightarrow> True | Some z \<Rightarrow> - 1440 < z \<and> z < 1440"
  shows "(ordinal d - 1) * DAY_US < instant d" and "instant d < (ordinal d + 2) * DAY_US"
proof -
  define z where "z = (case tz d of None \<Rightarrow> 0 | Some z \<Rightarrow> z)"
  have z: "- 1440 < z" "z < 1440" using assms(4) by (auto simp: z_def split: option.splits)
  have "instant d = ordinal d * DAY_US + time_of_day d - z * 60000000" by (simp add: instant_ordinal z_def)
  with assms(2,3) z show "(ordinal d - 1) * DAY_US < instant d" and "instant d < (ordinal d + 2) * DAY_US"
    by (simp_all add: DAY_US_def)
qed

lemma dt_add_ok:
  assumes d: "valid_dt d" and us: "0 \<le> us" and now: "valid_dt now" "year now \<le> 9990"
    and near: "instant d + us \<le> instant now + 40 * DAY_US"
  shows "\<exists>e. dt_add d us = Inr e"
proof (rule ccontr)
  assume no: "\<not> (\<exists>e. dt_add d us = Inr e)"
  let ?t = "time_of_day d + us"
  let ?n = "(next_day ^^ nat (?t div DAY_US)) d"
  define e where "e = with_time (?t mod DAY_US) ?n"
  have ok: "date_ok d" "date_ok now" using d now by (simp_all add: valid_dt_def date_ok_def)
  have t: "0 \<le> ?t mod DAY_US" "?t mod DAY_US < DAY_US" by (simp_all add: DAY_US_def)
  note w = with_time_props [OF t, of ?n, folded e_def] and n = next_days [OF ok(1), of "nat (?t div DAY_US)"]
  have dok: "date_ok e" using w(8) n by blast
  have "dt_add d us = in_range e" by (simp only: dt_add_def Let_def e_def)
  then have y: "10000 \<le> year e" using no dok by (auto simp: in_range_def date_ok_def split: if_splits)
  have q: "0 \<le> ?t div DAY_US" using time_of_day_bounds [OF d] us by (simp add: DAY_US_def pos_imp_zdiv_nonneg_iff)
  have "(ordinal d + int (nat (?t div DAY_US))) * DAY_US + ?t mod DAY_US = ordinal d * DAY_US + ?t"
    using q mult_div_mod_eq [of DAY_US ?t] by (simp add: algebra_simps)
  then have inst: "instant e = instant d + us" using w(1,6,7) n by (simp add: instant_ordinal)
  have "case tz e of None \<Rightarrow> True | Some z \<Rightarrow> - 1440 < z \<and> z < 1440" using d w(7) n by (simp add: valid_dt_def)
  then have 1: "(ordinal e - 1) * DAY_US < instant e" using instant_ordinal_bounds(1) [of e] w n t by simp
  have 2: "instant now < (ordinal now + 2) * DAY_US"
    using instant_ordinal_bounds(2) [of now] ok time_of_day_bounds [OF now(1)] now(1) by (simp add: valid_dt_def)
  have "days_before_year 9991 + 365 * 9 \<le> days_before_year (year e)"
    using days_before_year_mono [of 9991 9] days_before_year_mono [of 10000 "year e - 10000"] y by simp
  moreover have "days_before_year (Suc (year now)) \<le> days_before_year 9991"
    using days_before_year_mono [of "Suc (year now)" "9990 - year now"] now ok(2) by (simp add: date_ok_def)
  ultimately have "ordinal now + 3285 < ordinal e"
    using ordinal_year(1) [of e] ordinal_year(2) [OF ok(2)] dok by linarith
  then have "(ordinal now + 3284) * DAY_US \<le> (ordinal e - 1) * DAY_US" by (simp add: DAY_US_def)
  with 1 2 near inst show False by (simp add: DAY_US_def)
qed

section \<open>Going back\<close>

lemma prev_day_ordinal:
  assumes "date_ok d" and "2 \<le> ordinal d"
  shows "ordinal (prev_day d) = ordinal d - 1" and "date_ok (prev_day d)"
proof -
  consider (day) "1 < day d" | (month) "day d = 1" "1 < month d" | (year) "day d = 1" "month d = 1"
    using assms(1) unfolding date_ok_def by linarith
  then have "ordinal (prev_day d) = ordinal d - 1 \<and> date_ok (prev_day d)"
  proof cases
    case day
    with assms show ?thesis by (auto simp: prev_day_def ordinal_def date_ok_def)
  next
    case month
    then obtain m where m: "month d = Suc m" "1 \<le> m" by (cases "month d") auto
    with assms month days_before_month_Suc [of m "year d"] days_in_month_pos show ?thesis
      by (simp add: prev_day_def ordinal_def date_ok_def)
  next
    case year
    then have "year d \<noteq> 1" using assms(2) by (auto simp: ordinal_def days_before_year_def days_before_month_def)
    then obtain y where "year d = Suc y" "1 \<le> y" using assms(1) by (cases "year d") (auto simp: date_ok_def)
    with assms year days_before_year_Suc [of y] days_before_December [of y] show ?thesis
      by (simp add: prev_day_def ordinal_def date_ok_def days_before_month_def [of _ "Suc 0"] days_in_month_def)
  qed
  then show "ordinal (prev_day d) = ordinal d - 1" and "date_ok (prev_day d)" by auto
qed

lemma prev_day_fields [simp]:
  "hour (prev_day d) = hour d" "minute (prev_day d) = minute d" "second (prev_day d) = second d"
  "micro (prev_day d) = micro d" "tz (prev_day d) = tz d"
  by (simp_all add: prev_day_def)

lemma prev_days:
  "date_ok d \<Longrightarrow> int n < ordinal d \<Longrightarrow>
   date_ok ((prev_day ^^ n) d) \<and> ordinal ((prev_day ^^ n) d) = ordinal d - int n \<and> year ((prev_day ^^ n) d) \<le> year d \<and>
   hour ((prev_day ^^ n) d) = hour d \<and> minute ((prev_day ^^ n) d) = minute d \<and> second ((prev_day ^^ n) d) = second d \<and>
   micro ((prev_day ^^ n) d) = micro d \<and> tz ((prev_day ^^ n) d) = tz d"
proof (induction n)
  case (Suc n)
  then have IH: "date_ok ((prev_day ^^ n) d)" "ordinal ((prev_day ^^ n) d) = ordinal d - int n"
    "year ((prev_day ^^ n) d) \<le> year d" by simp_all
  have "year (prev_day x) \<le> year x" for x by (simp add: prev_day_def)
  with IH(3) order_trans have "year (prev_day ((prev_day ^^ n) d)) \<le> year d" by blast
  with Suc IH prev_day_ordinal [OF IH(1)] show ?case by simp
qed simp

lemma weekday_less: "weekday d < 7"
  by (simp add: weekday_def)

lemma dt_minus_days_ok:
  assumes "valid_dt d" and "2 \<le> year d"
  shows "\<exists>e. dt_minus_days d (weekday d) = Inr e \<and> valid_dt e \<and> tz e = tz d \<and> instant e \<le> instant d"
proof -
  have ok: "date_ok d" using assms(1) by (simp add: valid_dt_def date_ok_def)
  have "365 \<le> days_before_year (year d)"
    using days_before_year_mono [of 1 "year d - 1"] assms(2) by (simp add: days_before_year_def)
  then have "int (weekday d) < ordinal d" using ordinal_year(1) [OF ok] weekday_less [of d] by linarith
  note p = prev_days [OF ok this]
  let ?e = "(prev_day ^^ weekday d) d"
  have e: "dt_minus_days d (weekday d) = Inr ?e" using p assms(1) by (auto simp: dt_minus_days_def in_range_def date_ok_def valid_dt_def)
  have "instant ?e \<le> instant d" using p by (simp add: instant_ordinal time_of_day_def DAY_US_def)
  moreover have "valid_dt ?e" using p assms(1) by (auto simp: valid_dt_def date_ok_def)
  ultimately show ?thesis using e p by blast
qed

lemma round_down:
  assumes "valid_dt d"
  shows "valid_dt (at_hour d)" "valid_dt (at_midnight d)" "valid_dt (at_month_start d)"
    "instant (at_hour d) \<le> instant d" "instant (at_midnight d) \<le> instant d" "instant (at_month_start d) \<le> instant d"
    "tz (at_hour d) = tz d" "tz (at_midnight d) = tz d" "tz (at_month_start d) = tz d"
  using assms days_in_month_pos [of "year d" "month d"]
  by (auto simp: at_hour_def at_midnight_def at_month_start_def valid_dt_def instant_ordinal ordinal_def time_of_day_def
      DAY_US_def split: option.splits)

end
