(* ===== verification/Collective.thy ===== *)
theory Collective
  imports Orchestrator Pylib Calendar
begin

text \<open>
  \<^verbatim>\<open>src/dsm/collective.py\<close>, first part: the collective shard with its sliding-window index,
  and the sync engine, the only writer of the shard. The record extends the
  orchestrator's, since the engine works on the same storage. Where an operation writes
  an entry, the time and the fresh identifier it takes are an argument of type
  \<open>stamp\<close>. The functions a caller may pass for summaries and details are parameters that
  return JSON values, and \<open>oserr\<close> is the text of a failure of the disk.
\<close>

section \<open>Projections\<close>

definition COLLECTIVE_PREFIX :: string where "COLLECTIVE_PREFIX = ''collective_''"
definition SYNC_LOG_SHARD :: string where "SYNC_LOG_SHARD = ''sync_log''"

record collective_entry =
  ce_hash :: json
  ce_agent_id :: json
  ce_source_hash :: json
  ce_content_hash :: json
  ce_summary :: json
  ce_detail :: json
  ce_key_findings :: "json list"
  ce_action_type :: json
  ce_agent_prev_hash :: json
  ce_contributed_at :: datetime

definition at_tier :: "int \<Rightarrow> collective_entry \<Rightarrow> json" where
  "at_tier tier c =
     (let t0 = [(''hash'', ce_hash c), (''agent_id'', ce_agent_id c),
                (''contributed_at'', JStr (isoformat (ce_contributed_at c)))];
          t1 = t0 @ [(''summary'', ce_summary c), (''action_type'', ce_action_type c)];
          t2 = t1 @ [(''detail'', ce_detail c), (''key_findings'', JList (ce_key_findings c))]
      in JObj (if tier \<le> 0 then t0 else if tier = 1 then t1 else if tier = 2 then t2
         else [(''hash'', ce_hash c), (''agent_id'', ce_agent_id c), (''source_hash'', ce_source_hash c),
               (''content_hash'', ce_content_hash c), (''summary'', ce_summary c), (''detail'', ce_detail c),
               (''key_findings'', JList (ce_key_findings c)), (''action_type'', ce_action_type c),
               (''agent_prev_hash'', ce_agent_prev_hash c), (''contributed_at'', JStr (isoformat (ce_contributed_at c)))]))"

definition tier_token_estimate :: "int \<Rightarrow> int" where
  "tier_token_estimate tier = (if tier = 0 then 30 else if tier = 1 then 80 else if tier = 2 then 300 else 500)"

section \<open>The collective shard\<close>

type_synonym coll_index = "collective_entry list \<times> (json \<times> json) list"

record collective = orchestrator +
  cs_shard_name :: string
  cs_window_size :: int
  cs_index :: "collective_entry list option"
  cs_last_contribution :: "(json \<times> json) list"

definition collective_name :: "string \<Rightarrow> string" where
  "collective_name n = (if startswith COLLECTIVE_PREFIX n then n else COLLECTIVE_PREFIX @ n)"

definition open_collective :: "orchestrator \<Rightarrow> string \<Rightarrow> int \<Rightarrow> collective" where
  "open_collective g n window = orchestrator.extend g (collective.fields (collective_name n) window None [])"

definition invalidate :: "'z collective_scheme \<Rightarrow> 'z collective_scheme" where
  "invalidate g = g\<lparr>cs_index := None\<rparr>"

definition coll_step :: "entry \<Rightarrow> coll_index \<Rightarrow> coll_index res" where
  "coll_step e ix =
     (case content_json e of
        None \<Rightarrow> Inr ix
      | Some data \<Rightarrow>
          rbind (jget ''agent_id'' (JStr []) data) (\<lambda>agent_id.
          rbind (jget ''source_hash'' (JStr []) data) (\<lambda>source_hash.
          rbind (jget ''content_hash'' (JStr []) data) (\<lambda>content_hash.
          rbind (jget ''summary'' (JStr []) data) (\<lambda>summary.
          rbind (jget ''detail'' (JStr []) data) (\<lambda>detail.
          rbind (rbind (jget ''key_findings'' (JList []) data) py_iter) (\<lambda>key_findings.
          rbind (jget ''action_type'' (JStr []) data) (\<lambda>action_type.
          rbind (jget ''agent_prev_hash'' (JStr []) data) (\<lambda>agent_prev_hash.
          rbind (hashable agent_id) (\<lambda>_.
            Inr (fst ix @ [\<lparr>ce_hash = or_empty (hash e), ce_agent_id = agent_id, ce_source_hash = source_hash,
                    ce_content_hash = content_hash, ce_summary = summary, ce_detail = detail,
                    ce_key_findings = key_findings, ce_action_type = action_type, ce_agent_prev_hash = agent_prev_hash,
                    ce_contributed_at = timestamp e\<rparr>],
                 dput agent_id (or_empty (hash e)) (snd ix))))))))))))"

definition coll_ensure_index :: "('z collective_scheme, collective_entry list) op" where
  "coll_ensure_index g =
     (case cs_index g of
        Some index \<Rightarrow> (g, Inr index)
      | None \<Rightarrow>
          (let (s, r) = read (cs_shard_name g) 0 (cs_window_size g) (rg_fs g); g1 = g\<lparr>rg_fs := s\<rparr> in
           case r of
             Inl err \<Rightarrow> (g1, Inl err)
           | Inr entries \<Rightarrow>
               (case fold_res coll_step (rev entries) ([], []) of
                  Inl err \<Rightarrow> (g1, Inl err)
                | Inr (index, lasts) \<Rightarrow> (g1\<lparr>cs_index := Some index, cs_last_contribution := lasts\<rparr>, Inr index))))"

definition named :: "string option \<Rightarrow> bool" where
  "named v = (v \<noteq> None \<and> v \<noteq> Some [])"

definition recent :: "int \<Rightarrow> string option \<Rightarrow> string option \<Rightarrow> ('z collective_scheme, collective_entry list) op" where
  "recent limit agent_id entry_type =
     sbind coll_ensure_index (\<lambda>index.
       let entries = rev index;
           e1 = (if named agent_id then filter (\<lambda>c. ce_agent_id c = JStr (the agent_id)) entries else entries);
           e2 = (if named entry_type then filter (\<lambda>c. ce_action_type c = JStr (the entry_type)) e1 else e1)
       in ret (py_take limit e2))"

text \<open>The loop that lowers the tier while the estimated cost is above the budget.\<close>

function downgrade :: "int \<Rightarrow> int \<Rightarrow> int \<Rightarrow> int \<Rightarrow> int \<times> int" where
  "downgrade n max_tokens cost tier =
     (if max_tokens < cost \<and> 0 < tier then downgrade n max_tokens (n * tier_token_estimate (tier - 1)) (tier - 1)
      else (cost, tier))"
  by pat_completeness auto
termination
  by (relation "measure (\<lambda>(n, max_tokens, cost, tier). nat tier)") auto

declare downgrade.simps [simp del]

definition fit_budget :: "int \<Rightarrow> int option \<Rightarrow> collective_entry list \<Rightarrow> int \<times> collective_entry list" where
  "fit_budget tier max_tokens entries =
     (case max_tokens of
        None \<Rightarrow> (tier, entries)
      | Some budget \<Rightarrow>
          (let n = int (length entries); (cost, t) = downgrade n budget (n * tier_token_estimate tier) tier
           in (t, if budget < cost then py_take (max 1 (budget div tier_token_estimate 0)) entries else entries)))"

definition recent_at_tier :: "int \<Rightarrow> int \<Rightarrow> int option \<Rightarrow> string option \<Rightarrow> ('z collective_scheme, json list) op" where
  "recent_at_tier tier limit max_tokens agent_id =
     sbind (recent limit agent_id None) (\<lambda>entries.
       if entries = [] then ret []
       else (let (t, es) = fit_budget tier max_tokens entries in ret (map (at_tier t) es)))"

fun since_loop :: "json \<Rightarrow> bool \<Rightarrow> collective_entry list \<Rightarrow> collective_entry list" where
  "since_loop h found [] = []"
| "since_loop h found (c # cs) = (if found then c # since_loop h True cs else since_loop h (ce_hash c = h) cs)"

definition since :: "json \<Rightarrow> ('z collective_scheme, collective_entry list) op" where
  "since entry_hash = sbind coll_ensure_index (\<lambda>index. ret (since_loop entry_hash False index))"

definition coll_summary :: "('z collective_scheme, json) op" where
  "coll_summary =
     sbind coll_ensure_index (\<lambda>index.
     sbind (of_res (py_sorted (remdups (map ce_agent_id index)))) (\<lambda>agents g.
       (g, Inr (JObj [(''shard'', JStr (cs_shard_name g)), (''entry_count'', JInt (int (length index))),
          (''agents'', JList agents), (''latest_hash'', if index = [] then JNull else ce_hash (last index))]))))"

definition last_hash_for_agent :: "string \<Rightarrow> ('z collective_scheme, json) op" where
  "last_hash_for_agent agent_id =
     sbind coll_ensure_index (\<lambda>_ g.
       (g, Inr (case map_of (cs_last_contribution g) (JStr agent_id) of None \<Rightarrow> JStr [] | Some h \<Rightarrow> h)))"

section \<open>The sync engine\<close>

text \<open>\<^verbatim>\<open>entry.content[:100]\<close> and \<^verbatim>\<open>entry.content.encode\<close>.\<close>

definition content_head :: "entry \<Rightarrow> json res" where
  "content_head e =
     (case content e of JStr t \<Rightarrow> Inr (JStr (take 100 t)) | JList xs \<Rightarrow> Inr (JList (take 100 xs)) | _ \<Rightarrow> Inl TypeError)"

definition content_digest :: "sha \<Rightarrow> entry \<Rightarrow> string res" where
  "content_digest sha e = (case content e of JStr t \<Rightarrow> Inr (sha t) | _ \<Rightarrow> Inl AttributeError)"

definition projection_doc ::
    "string \<Rightarrow> json \<Rightarrow> string \<Rightarrow> json \<Rightarrow> json \<Rightarrow> json \<Rightarrow> json \<Rightarrow> json \<Rightarrow> (string \<times> json) list" where
  "projection_doc agent_id source_hash digest summary detail key_findings action_type agent_prev =
     [(''agent_id'', JStr agent_id), (''source_hash'', source_hash), (''content_hash'', JStr digest),
      (''summary'', summary), (''detail'', detail), (''key_findings'', key_findings),
      (''action_type'', action_type), (''agent_prev_hash'', agent_prev)]"

type_synonym summary_fn = "(entry \<Rightarrow> json) option"
type_synonym detail_fn = "(entry \<Rightarrow> json \<times> json) option"

definition summary_of :: "summary_fn \<Rightarrow> entry \<Rightarrow> json res" where
  "summary_of f e = (case f of Some g \<Rightarrow> Inr (g e) | None \<Rightarrow> content_head e)"

definition detail_of :: "detail_fn \<Rightarrow> entry \<Rightarrow> json \<times> json" where
  "detail_of f e = (case f of Some g \<Rightarrow> g e | None \<Rightarrow> (JStr [], JList []))"

text \<open>The projection of one admitted entry: its hash, or the reason it was not written.\<close>

definition write_projection :: "sha \<Rightarrow> string \<Rightarrow> stamp \<Rightarrow> string \<Rightarrow> json \<Rightarrow> json \<Rightarrow> ('z collective_scheme, string + json) op" where
  "write_projection sha oserr st agent_id source_hash doc g =
     (let e = doc_entry ''sync_engine'' (cs_shard_name g) (fst st) (snd st) doc
                [(''event_type'', JStr ''collective_contribution''), (''agent_id'', JStr agent_id), (''source_hash'', source_hash)];
          (s, r) = append sha (fst st) e (rg_fs g); g1 = g\<lparr>rg_fs := s\<rparr>
      in case r of
           Inr written \<Rightarrow> (invalidate g1, Inr (Inr (or_empty (hash written))))
         | Inl OSError \<Rightarrow> (g1, Inr (Inl oserr))
         | Inl err \<Rightarrow> (g1, Inl err))"

definition push_one ::
    "sha \<Rightarrow> string \<Rightarrow> summary_fn \<Rightarrow> detail_fn \<Rightarrow> stamp \<Rightarrow> string \<Rightarrow> entry \<Rightarrow> ('z collective_scheme, string + json) op" where
  "push_one sha oserr summary_fn detail_fn st agent_id e =
     sbind (of_res (summary_of summary_fn e)) (\<lambda>summary.
     sbind (of_res (content_digest sha e)) (\<lambda>digest.
     sbind (last_hash_for_agent agent_id) (\<lambda>agent_prev.
     sbind (of_res (entry_type_of e)) (\<lambda>action_type.
       let (detail, key_findings) = detail_of detail_fn e
       in write_projection sha oserr st agent_id (or_empty (hash e))
            (JObj (projection_doc agent_id (or_empty (hash e)) digest summary detail key_findings action_type agent_prev))))))"

record push_result =
  pu_admitted :: "json list"
  pu_rejected :: "(json \<times> string) list"

record push_item =
  pi_entry :: entry
  pi_decided :: stamp
  pi_written :: stamp

definition with_admitted :: "json \<Rightarrow> push_result \<Rightarrow> push_result" where
  "with_admitted h r = r\<lparr>pu_admitted := h # pu_admitted r\<rparr>"

definition with_rejected :: "json \<Rightarrow> string \<Rightarrow> push_result \<Rightarrow> push_result" where
  "with_rejected h why r = r\<lparr>pu_rejected := (h, why) # pu_rejected r\<rparr>"

fun push ::
    "sha \<Rightarrow> (json \<Rightarrow> string) \<Rightarrow> (string \<Rightarrow> flt option) \<Rightarrow> string \<Rightarrow> summary_fn \<Rightarrow> detail_fn \<Rightarrow> string \<Rightarrow> string \<Rightarrow>
     push_item list \<Rightarrow> ('z collective_scheme, push_result) op" where
  "push sha py_str fstr oserr summary_fn detail_fn agent_id owner_id [] =
     ret \<lparr>pu_admitted = [], pu_rejected = []\<rparr>"
| "push sha py_str fstr oserr summary_fn detail_fn agent_id owner_id (i # is) =
     sbind (admit sha py_str fstr (fst (pi_decided i)) (snd (pi_decided i)) (pi_entry i) agent_id owner_id) (\<lambda>result.
       if ad_verdict result \<noteq> ''allow'' then
         sbind (push sha py_str fstr oserr summary_fn detail_fn agent_id owner_id is) (\<lambda>r.
           ret (with_rejected (or_empty (hash (pi_entry i))) (ad_reason result) r))
       else
         sbind (push_one sha oserr summary_fn detail_fn (pi_written i) agent_id (pi_entry i)) (\<lambda>w.
         sbind (push sha py_str fstr oserr summary_fn detail_fn agent_id owner_id is) (\<lambda>r.
           ret (case w of
                  Inr h \<Rightarrow> with_admitted h r
                | Inl why \<Rightarrow> with_rejected (or_empty (hash (pi_entry i))) why r))))"

record pull_result =
  pl_synced :: int
  pl_last_hash :: json

definition pull_doc :: "string \<Rightarrow> int \<Rightarrow> json \<Rightarrow> json \<Rightarrow> (string \<times> json) list" where
  "pull_doc agent_id n since_hash last_hash =
     [(''event_type'', JStr ''sync_pull''), (''agent_id'', JStr agent_id), (''entries_synced'', JInt n),
      (''since_hash'', since_hash), (''last_hash'', last_hash)]"

definition pull :: "sha \<Rightarrow> stamp \<Rightarrow> string \<Rightarrow> json \<Rightarrow> ('z collective_scheme, pull_result) op" where
  "pull sha st agent_id since_hash =
     sbind (if truthy since_hash then since since_hash else recent 100 None None) (\<lambda>new_entries g.
       if new_entries = [] then (g, Inr \<lparr>pl_synced = 0, pl_last_hash = since_hash\<rparr>)
       else
         (let n = int (length new_entries); last_hash = ce_hash (last new_entries);
              e = doc_entry ''sync_engine'' SYNC_LOG_SHARD (fst st) (snd st) (JObj (pull_doc agent_id n since_hash last_hash))
                    [(''event_type'', JStr ''sync_pull''), (''agent_id'', JStr agent_id)];
              (s, r) = append sha (fst st) e (rg_fs g); g1 = g\<lparr>rg_fs := s\<rparr>;
              result = \<lparr>pl_synced = n, pl_last_hash = last_hash\<rparr>
          in case r of Inr _ \<Rightarrow> (g1, Inr result) | Inl OSError \<Rightarrow> (g1, Inr result) | Inl err \<Rightarrow> (g1, Inl err)))"

definition reconcile ::
    "sha \<Rightarrow> (json \<Rightarrow> string) \<Rightarrow> (string \<Rightarrow> flt option) \<Rightarrow> string \<Rightarrow> summary_fn \<Rightarrow> detail_fn \<Rightarrow> stamp \<Rightarrow> string \<Rightarrow> string \<Rightarrow>
     push_item list \<Rightarrow> json \<Rightarrow> ('z collective_scheme, push_result \<times> pull_result) op" where
  "reconcile sha py_str fstr oserr summary_fn detail_fn st agent_id owner_id items since_hash =
     sbind (push sha py_str fstr oserr summary_fn detail_fn agent_id owner_id items) (\<lambda>p.
     sbind (pull sha st agent_id since_hash) (\<lambda>q. ret (p, q)))"

end
