(* ===== verification/Collective_Laws.thy ===== *)
theory Collective_Laws
  imports Collective Orchestrator_Props
begin

text \<open>
  The collective shard as an event store: its entries record projections, the index is the
  window of the newest ones, and a push extends the history by one projection for every
  entry that was admitted.
\<close>

section \<open>Names\<close>

definition collective_shard_name :: "string \<Rightarrow> bool" where
  "collective_shard_name n = startswith COLLECTIVE_PREFIX n"

lemma collective_name_ok [simp]: "collective_shard_name (collective_name n)"
  by (simp add: collective_shard_name_def collective_name_def startswith_prefix)

lemma family_of_collective:
  assumes "collective_shard_name n"
  obtains m where "family_name n = COLLECTIVE_PREFIX @ m"
proof -
  obtain k where "n = COLLECTIVE_PREFIX @ k"
    using assms by (auto simp: collective_shard_name_def startswith_prefix prefix_def)
  then have "family_name n = COLLECTIVE_PREFIX @ py_replace ''shard_'' [] k"
    by (simp add: family_name_def COLLECTIVE_PREFIX_def py_replace_unfold)
  with that show thesis .
qed

lemma collective_families:
  assumes "collective_shard_name n"
  shows "family_name IDENTITY_REGISTRY_SHARD \<noteq> family_name n" "family_name SOVEREIGNTY_SHARD \<noteq> family_name n"
    "family_name ORCHESTRATOR_SHARD \<noteq> family_name n" "family_name SYNC_LOG_SHARD \<noteq> family_name n" "n \<noteq> []"
proof -
  obtain m where "family_name n = COLLECTIVE_PREFIX @ m" by (rule family_of_collective [OF assms])
  then show "family_name IDENTITY_REGISTRY_SHARD \<noteq> family_name n" "family_name SOVEREIGNTY_SHARD \<noteq> family_name n"
    "family_name ORCHESTRATOR_SHARD \<noteq> family_name n" "family_name SYNC_LOG_SHARD \<noteq> family_name n"
    by (simp_all add: family_name_def py_replace_unfold IDENTITY_REGISTRY_SHARD_def SOVEREIGNTY_SHARD_def ORCHESTRATOR_SHARD_def
        SYNC_LOG_SHARD_def COLLECTIVE_PREFIX_def)
  show "n \<noteq> []" using assms by (auto simp: collective_shard_name_def COLLECTIVE_PREFIX_def)
qed

section \<open>The history of projections\<close>

text \<open>What the index knows of a history: the projections and the last one of every agent.\<close>

type_synonym coll_view = "collective_entry list \<times> (json \<Rightarrow> json option)"

definition coll_view :: "coll_index \<Rightarrow> coll_view" where
  "coll_view ix = (fst ix, map_of (snd ix))"

definition coll_spec :: "collective_entry \<Rightarrow> coll_view \<Rightarrow> coll_view" where
  "coll_spec c v = (fst v @ [c], (snd v)(ce_agent_id c \<mapsto> ce_hash c))"

definition coll_records :: "entry \<Rightarrow> collective_entry \<Rightarrow> bool" where
  "coll_records e c =
     (\<exists>agent src digest summary detail kf ty prev.
        wf_json (JObj (projection_doc agent src digest summary detail (JList kf) ty prev)) \<and>
        content_json e = Some (norm (JObj (projection_doc agent src digest summary detail (JList kf) ty prev))) \<and>
        (\<exists>h. hash e = JStr h) \<and>
        c = \<lparr>ce_hash = hash e, ce_agent_id = JStr agent, ce_source_hash = norm src, ce_content_hash = JStr digest,
             ce_summary = norm summary, ce_detail = norm detail, ce_key_findings = map norm kf,
             ce_action_type = norm ty, ce_agent_prev_hash = norm prev, ce_contributed_at = timestamp e\<rparr>)"

interpretation coll: event_index coll_step "([], [])" coll_view coll_records coll_spec
proof
  fix e c ix
  assume "coll_records e c"
  then obtain agent src digest summary detail kf ty prev h where
    wf: "wf_json (JObj (projection_doc agent src digest summary detail (JList kf) ty prev))"
    and j: "content_json e = Some (norm (JObj (projection_doc agent src digest summary detail (JList kf) ty prev)))"
    and h: "hash e = JStr h"
    and c: "c = \<lparr>ce_hash = hash e, ce_agent_id = JStr agent, ce_source_hash = norm src, ce_content_hash = JStr digest,
             ce_summary = norm summary, ce_detail = norm detail, ce_key_findings = map norm kf,
             ce_action_type = norm ty, ce_agent_prev_hash = norm prev, ce_contributed_at = timestamp e\<rparr>"
    by (auto simp: coll_records_def simp del: wf_json.simps norm.simps)
  note f = doc_field [OF wf]
  have "dget k (projection_doc agent src digest summary detail (JList kf) ty prev) =
    (if k = ''agent_id'' then Some (JStr agent) else if k = ''source_hash'' then Some src
     else if k = ''content_hash'' then Some (JStr digest) else if k = ''summary'' then Some summary
     else if k = ''detail'' then Some detail else if k = ''key_findings'' then Some (JList kf)
     else if k = ''action_type'' then Some ty else if k = ''agent_prev_hash'' then Some prev else None)" for k
    by (simp add: projection_doc_def)
  with j f h show "\<exists>ix'. coll_step e ix = Inr ix' \<and> coll_view ix' = coll_spec c (coll_view ix)"
    by (simp add: coll_step_def coll_view_def coll_spec_def c py_iter_def fun_eq_iff del: norm.simps(2))
qed

text \<open>The newest part of a list, as a reader with a limit sees it.\<close>

definition newest :: "int \<Rightarrow> 'a list \<Rightarrow> 'a list" where
  "newest w xs = drop (length xs - nat (max 1 w)) xs"

lemma newest_all: "int (length xs) \<le> w \<Longrightarrow> newest w xs = xs"
  by (simp add: newest_def)

lemma rev_take_newest: "rev (take (nat (max 1 w)) (rev xs)) = newest w xs"
  by (simp add: newest_def take_rev)

lemma newest_records: "list_all2 P es cs \<Longrightarrow> list_all2 P (newest w es) (newest w cs)"
  unfolding newest_def using list_all2_lengthD [of P es cs] by (simp add: list_all2_dropI)

lemma set_newest: "set (newest w xs) \<subseteq> set xs"
  by (auto simp: newest_def dest: in_set_dropD)

text \<open>The hash of the last projection of an agent, or the empty text.\<close>

definition last_of :: "json \<Rightarrow> collective_entry list \<Rightarrow> json" where
  "last_of a cs = (let xs = filter (\<lambda>c. ce_agent_id c = a) cs in if xs = [] then JStr [] else ce_hash (last xs))"

lemma fold_coll_spec:
  "fold coll_spec cs ([], Map.empty) = (cs, \<lambda>a. if a \<in> ce_agent_id ` set cs then Some (last_of a cs) else None)"
proof (induction cs rule: rev_induct)
  case (snoc c cs)
  have "last_of a (cs @ [c]) = (if ce_agent_id c = a then ce_hash c else last_of a cs)" for a
    by (simp add: last_of_def)
  with snoc show ?case by (auto simp: coll_spec_def fun_eq_iff)
qed (simp add: fun_eq_iff)

section \<open>The invariant\<close>

definition index_matches :: "collective_entry list \<Rightarrow> (json \<times> json) list \<Rightarrow> collective_entry list \<Rightarrow> bool" where
  "index_matches ix l cs =
     (ix = cs \<and> map_of l = (\<lambda>a. if a \<in> ce_agent_id ` set cs then Some (last_of a cs) else None))"

definition coll_inv :: "sha \<Rightarrow> entry list \<Rightarrow> collective_entry list \<Rightarrow> 'z collective_scheme \<Rightarrow> bool" where
  "coll_inv sha es cs g =
     (collective_shard_name (cs_shard_name g) \<and> shard_inv sha (cs_shard_name g) (rg_fs g) es \<and> mono_files (rg_fs g) = [] \<and>
      list_all2 coll_records es cs \<and>
      (cs_index g = None \<or>
       (\<exists>ix. cs_index g = Some ix \<and> index_matches ix (cs_last_contribution g) (newest (cs_window_size g) cs))))"

text \<open>Reading fills in the index and changes nothing else.\<close>

lemma coll_ensure_inv:
  assumes inv: "coll_inv sha es cs g"
  shows "\<exists>l. coll_ensure_index g = (g\<lparr>cs_index := Some (newest (cs_window_size g) cs), cs_last_contribution := l\<rparr>,
      Inr (newest (cs_window_size g) cs)) \<and> index_matches (newest (cs_window_size g) cs) l (newest (cs_window_size g) cs)"
proof (cases "cs_index g")
  case None
  let ?w = "cs_window_size g"
  have "read (cs_shard_name g) 0 ?w (rg_fs g) = (rg_fs g, Inr (take (nat (max 1 ?w)) (rev es)))"
    using read_inv [of sha "cs_shard_name g" "rg_fs g" es 0 ?w] inv by (simp add: coll_inv_def)
  moreover have "list_all2 coll_records (newest ?w es) (newest ?w cs)" using inv newest_records by (auto simp: coll_inv_def)
  then obtain ix l where ix: "fold_res coll_step (newest ?w es) ([], []) = Inr (ix, l)"
    "coll_view (ix, l) = fold coll_spec (newest ?w cs) (coll_view ([], []))"
    using coll.index_of_records by (metis prod.exhaust)
  then have m: "index_matches ix l (newest ?w cs)" by (simp add: coll_view_def fold_coll_spec index_matches_def)
  ultimately have "coll_ensure_index g = (g\<lparr>cs_index := Some ix, cs_last_contribution := l\<rparr>, Inr ix)"
    using None ix(1) by (simp add: coll_ensure_index_def rev_take_newest)
  moreover have "ix = newest ?w cs" using m by (simp add: index_matches_def)
  ultimately show ?thesis using m by blast
next
  case (Some ix)
  then have ix: "ix = newest (cs_window_size g) cs" "index_matches ix (cs_last_contribution g) ix"
    using inv by (auto simp: coll_inv_def index_matches_def)
  have "g\<lparr>cs_index := Some ix, cs_last_contribution := cs_last_contribution g\<rparr> = g" using Some by simp
  moreover have "coll_ensure_index g = (g, Inr ix)" using Some by (simp add: coll_ensure_index_def)
  ultimately show ?thesis using ix(2) unfolding ix(1) [symmetric] by metis
qed

lemma coll_inv_filled:
  "coll_inv sha es cs g \<Longrightarrow> index_matches (newest (cs_window_size g) cs) l (newest (cs_window_size g) cs) \<Longrightarrow>
   coll_inv sha es cs (g\<lparr>cs_index := Some (newest (cs_window_size g) cs), cs_last_contribution := l\<rparr>)"
  by (auto simp: coll_inv_def)

lemma last_hash_inv:
  assumes "coll_inv sha es cs g"
  shows "\<exists>l. last_hash_for_agent a g = (g\<lparr>cs_index := Some (newest (cs_window_size g) cs), cs_last_contribution := l\<rparr>,
      Inr (last_of (JStr a) (newest (cs_window_size g) cs))) \<and>
    coll_inv sha es cs (g\<lparr>cs_index := Some (newest (cs_window_size g) cs), cs_last_contribution := l\<rparr>)"
proof -
  obtain l where l: "coll_ensure_index g = (g\<lparr>cs_index := Some (newest (cs_window_size g) cs), cs_last_contribution := l\<rparr>,
      Inr (newest (cs_window_size g) cs))" "index_matches (newest (cs_window_size g) cs) l (newest (cs_window_size g) cs)"
    using coll_ensure_inv [OF assms] by blast
  have "last_of a' xs = JStr []" if "a' \<notin> ce_agent_id ` set xs" for a' xs
  proof -
    have "filter (\<lambda>c. ce_agent_id c = a') xs = []" using that by (auto simp: filter_empty_conv)
    then show ?thesis by (simp add: last_of_def)
  qed
  with l coll_inv_filled [OF assms l(2)] show ?thesis
    by (intro exI [where x = l]) (auto simp: last_hash_for_agent_def sbind_def index_matches_def)
qed

section \<open>Writing a projection\<close>

definition engine_inv ::
    "sha \<Rightarrow> (string \<Rightarrow> flt option) \<Rightarrow> reg_index \<Rightarrow> pol_index \<Rightarrow> entry list \<Rightarrow> entry list \<Rightarrow> collective_entry list \<Rightarrow>
     'z collective_scheme \<Rightarrow> bool" where
  "engine_inv sha fstr rix pix audit es cs g = (orch_inv sha fstr rix pix audit g \<and> coll_inv sha es cs g)"

text \<open>Operations of the orchestrator leave the fields of the collective alone.\<close>

lemma same_more:
  assumes "orchestrator.more g' = orchestrator.more (g :: 'z collective_scheme)"
  shows "cs_shard_name g' = cs_shard_name g" "cs_window_size g' = cs_window_size g" "cs_index g' = cs_index g"
    "cs_last_contribution g' = cs_last_contribution g"
  using assms by (cases g; cases g'; simp)+

lemma orch_inv_fs:
  assumes "orch_inv sha fstr rix pix audit g" and "others_kept sha sid (rg_fs g) s" and "mono_files s = []"
    and "collective_shard_name sid"
  shows "orch_inv sha fstr rix pix audit (g\<lparr>rg_fs := s\<rparr>)"
proof -
  note f = collective_families [OF assms(4)]
  obtain es fs where "reg_inv sha es rix g" "pol_inv sha fstr fs pix g" "shard_inv sha ORCHESTRATOR_SHARD (rg_fs g) audit"
    using assms(1) by (auto simp: orch_inv_def gov_inv_def)
  then have "reg_inv sha es rix (g\<lparr>rg_fs := s\<rparr>)" "pol_inv sha fstr fs pix (g\<lparr>rg_fs := s\<rparr>)"
    "shard_inv sha ORCHESTRATOR_SHARD s audit"
    using assms(2,3) f by (simp_all add: reg_inv_def pol_inv_def others_kept_def)
  then show ?thesis by (auto simp: orch_inv_def gov_inv_def)
qed

text \<open>The fields of the collective play no part in the invariant of the orchestrator.\<close>

lemma orch_inv_coll [simp]:
  "orch_inv sha fstr rix pix audit (g\<lparr>cs_index := i, cs_last_contribution := l\<rparr>) = orch_inv sha fstr rix pix audit g"
  "orch_inv sha fstr rix pix audit (g\<lparr>cs_index := i\<rparr>) = orch_inv sha fstr rix pix audit g"
  by (simp_all add: orch_inv_def gov_inv_def reg_inv_def pol_inv_def)

definition pushable :: "entry \<Rightarrow> bool" where
  "pushable e = (admissible e \<and> wf_json (metadata e) \<and> (\<exists>t. content e = JStr t))"

definition functions_ok :: "summary_fn \<Rightarrow> detail_fn \<Rightarrow> bool" where
  "functions_ok sf df =
     ((\<forall>e s. pushable e \<longrightarrow> summary_of sf e = Inr s \<longrightarrow> wf_json s) \<and>
      (\<forall>e. wf_json (fst (detail_of df e)) \<and> (\<exists>kf. snd (detail_of df e) = JList kf \<and> wf_json (JList kf))))"

definition summary_text :: "summary_fn \<Rightarrow> entry \<Rightarrow> json" where
  "summary_text sf e = (case summary_of sf e of Inr s \<Rightarrow> s | Inl _ \<Rightarrow> JNull)"

definition content_text :: "entry \<Rightarrow> string" where
  "content_text e = (case content e of JStr t \<Rightarrow> t | _ \<Rightarrow> [])"

definition findings_of :: "detail_fn \<Rightarrow> entry \<Rightarrow> json list" where
  "findings_of df e = (case snd (detail_of df e) of JList kf \<Rightarrow> kf | _ \<Rightarrow> [])"

definition type_of_entry :: "entry \<Rightarrow> json" where
  "type_of_entry e = (case entry_type_of e of Inr t \<Rightarrow> t | Inl _ \<Rightarrow> JNull)"

text \<open>The projection of an entry, with its own hash and time and the hash it links to.\<close>

definition projection :: "sha \<Rightarrow> summary_fn \<Rightarrow> detail_fn \<Rightarrow> string \<Rightarrow> entry \<Rightarrow> json \<Rightarrow> json \<Rightarrow> datetime \<Rightarrow> collective_entry" where
  "projection sha sf df agent e prev h t =
     \<lparr>ce_hash = h, ce_agent_id = JStr agent, ce_source_hash = hash e, ce_content_hash = JStr (sha (content_text e)),
      ce_summary = norm (summary_text sf e), ce_detail = norm (fst (detail_of df e)),
      ce_key_findings = map norm (findings_of df e), ce_action_type = norm (type_of_entry e),
      ce_agent_prev_hash = prev, ce_contributed_at = t\<rparr>"

lemma last_of_str:
  assumes "list_all2 coll_records es cs"
  shows "\<exists>h. last_of a (newest w cs) = JStr h"
proof -
  have "\<exists>h. ce_hash c = JStr h" if "c \<in> set cs" for c
    using assms that by (fastforce simp: in_set_conv_nth list_all2_conv_all_nth coll_records_def)
  moreover have "last xs \<in> set cs" if "xs \<noteq> []" "xs = filter (\<lambda>c. ce_agent_id c = a) (newest w cs)" for xs
    using that last_in_set [OF that(1)] set_newest [of w cs] by auto
  ultimately show ?thesis by (auto simp: last_of_def Let_def)
qed

lemma write_projection_inv:
  assumes inv: "engine_inv sha fstr rix pix audit es cs g" and t: "valid_dt (fst st)" and src: "hash e = JStr h0"
    and wf: "wf_json (JObj (projection_doc agent (JStr h0) (sha (content_text e)) (summary_text sf e) (fst (detail_of df e))
        (JList (findings_of df e)) (type_of_entry e) (JStr p)))"
  shows "\<exists>s r h. write_projection sha oserr st agent (JStr h0) (JObj (projection_doc agent (JStr h0) (sha (content_text e))
        (summary_text sf e) (fst (detail_of df e)) (JList (findings_of df e)) (type_of_entry e) (JStr p))) g
      = (g\<lparr>rg_fs := s, cs_index := None\<rparr>, Inr (Inr (JStr h))) \<and>
    engine_inv sha fstr rix pix audit (es @ [r]) (cs @ [projection sha sf df agent e (JStr p) (JStr h) (fst st)])
      (g\<lparr>rg_fs := s, cs_index := None\<rparr>) \<and> others_kept sha (cs_shard_name g) (rg_fs g) s"
proof -
  let ?d = "JObj (projection_doc agent (JStr h0) (sha (content_text e)) (summary_text sf e) (fst (detail_of df e))
        (JList (findings_of df e)) (type_of_entry e) (JStr p))"
  let ?m = "[(''event_type'', JStr ''collective_contribution''), (''agent_id'', JStr agent), (''source_hash'', JStr h0)]"
  let ?sid = "cs_shard_name g"
  have c: "collective_shard_name ?sid" "shard_inv sha ?sid (rg_fs g) es" "mono_files (rg_fs g) = []" "list_all2 coll_records es cs"
    using inv by (simp_all add: engine_inv_def coll_inv_def)
  obtain s e' r where app: "append sha (fst st) (doc_entry ''sync_engine'' ?sid (fst st) (snd st) ?d ?m) (rg_fs g) = (s, Inr e')"
    and he: "hash e' = hash r" and w: "doc_written sha ?sid (rg_fs g) es (fst st) ?d s r"
    using doc_append [OF c(2) collective_families(5) [OF c(1)] t wf, of ?m "''sync_engine''" "snd st"]
    by (auto simp: meta_ok_def simp del: norm.simps)
  obtain h where h: "hash r = JStr h" using w by (auto simp: doc_written_def)
  let ?c = "projection sha sf df agent e (JStr p) (JStr h) (fst st)"
  have rec: "coll_records r ?c"
    unfolding coll_records_def
  proof (intro exI conjI)
    show "wf_json ?d" by (rule wf)
    show "content_json r = Some (norm ?d)" using w by (simp add: doc_written_def del: norm.simps)
    show "hash r = JStr h" by (rule h)
    show "?c = \<lparr>ce_hash = hash r, ce_agent_id = JStr agent, ce_source_hash = norm (JStr h0),
        ce_content_hash = JStr (sha (content_text e)), ce_summary = norm (summary_text sf e),
        ce_detail = norm (fst (detail_of df e)), ce_key_findings = map norm (findings_of df e),
        ce_action_type = norm (type_of_entry e), ce_agent_prev_hash = norm (JStr p), ce_contributed_at = timestamp r\<rparr>"
      using h src w by (simp add: projection_def doc_written_def)
  qed
  let ?g = "g\<lparr>rg_fs := s, cs_index := None\<rparr>"
  have "coll_inv sha (es @ [r]) (cs @ [?c]) ?g"
    using c rec w by (simp add: coll_inv_def doc_written_def list_all2_appendI)
  moreover have "orch_inv sha fstr rix pix audit (g\<lparr>rg_fs := s\<rparr>)"
    using inv w c(1,3) orch_inv_fs by (auto simp: engine_inv_def doc_written_def)
  moreover have "write_projection sha oserr st agent (JStr h0) ?d g = (?g, Inr (Inr (JStr h)))"
    using app he h by (simp add: write_projection_def invalidate_def or_empty_def)
  moreover have "others_kept sha ?sid (rg_fs g) s" using w by (simp add: doc_written_def)
  ultimately show ?thesis by (auto simp: engine_inv_def)
qed

section \<open>Pushing\<close>

text \<open>Every projection names the last one of its agent within the window before it.\<close>

definition linked_projections :: "int \<Rightarrow> collective_entry list \<Rightarrow> bool" where
  "linked_projections w cs =
     (\<forall>i < length cs. ce_agent_prev_hash (cs ! i) = last_of (ce_agent_id (cs ! i)) (newest w (take i cs)))"

lemma linked_projections_Nil [simp]: "linked_projections w []"
  by (simp add: linked_projections_def)

lemma linked_projections_snoc:
  "linked_projections w (cs @ [c]) \<longleftrightarrow>
   linked_projections w cs \<and> ce_agent_prev_hash c = last_of (ce_agent_id c) (newest w cs)"
  by (auto simp: linked_projections_def nth_append less_Suc_eq)

lemma wf_jget:
  assumes "jget k d v = Inr x" and "wf_json v" and "wf_json d"
  shows "wf_json x"
proof (cases v)
  case (JObj o')
  with assms show ?thesis using wf_dget [of o' k] by (cases "dget k o'") auto
qed (use assms in \<open>auto simp: jget_def\<close>)

lemma pushable_fields:
  assumes "pushable e" and "functions_ok sf df"
  obtains h0 where "hash e = JStr h0" and "summary_of sf e = Inr (summary_text sf e)"
    and "content_digest sha e = Inr (sha (content_text e))" and "entry_type_of e = Inr (type_of_entry e)"
    and "detail_of df e = (fst (detail_of df e), JList (findings_of df e))"
    and "\<And>p. wf_json (JObj (projection_doc agent (JStr h0) (sha (content_text e)) (summary_text sf e) (fst (detail_of df e))
        (JList (findings_of df e)) (type_of_entry e) (JStr p)))"
proof -
  obtain h0 t ty where e: "hash e = JStr h0" "content e = JStr t" "entry_type_of e = Inr ty" "wf_json (metadata e)"
    using assms(1) by (auto simp: pushable_def admissible_def)
  obtain kf where kf: "snd (detail_of df e) = JList kf" "wf_json (JList kf)" "wf_json (fst (detail_of df e))"
    using assms(2) unfolding functions_ok_def by blast
  have s: "summary_of sf e = Inr (summary_text sf e)"
    using e(2) by (auto simp: summary_text_def summary_of_def content_head_def split: option.splits)
  have "wf_json ty" using wf_jget [of "''event_type''" "JStr ''unknown''"] e(3,4) by (auto simp: entry_type_of_def split: if_splits)
  moreover have "wf_json (summary_text sf e)" using s assms by (auto simp: functions_ok_def)
  ultimately have "wf_json (JObj (projection_doc agent (JStr h0) (sha (content_text e)) (summary_text sf e) (fst (detail_of df e))
        (JList (findings_of df e)) (type_of_entry e) (JStr p)))" for p
    using kf e(3) by (simp add: projection_doc_def findings_of_def type_of_entry_def)
  moreover have "detail_of df e = (fst (detail_of df e), JList (findings_of df e))"
    using kf(1) by (simp add: findings_of_def prod_eq_iff)
  ultimately show thesis
    using that e s by (simp add: content_digest_def content_text_def type_of_entry_def)
qed

text \<open>The record of an engine whose collective part and storage may have changed.\<close>

definition engine_step :: "'z collective_scheme \<Rightarrow> 'z collective_scheme \<Rightarrow> bool" where
  "engine_step g g' = (\<exists>s i l. g' = g\<lparr>rg_fs := s, cs_index := i, cs_last_contribution := l\<rparr>)"

lemma engine_stepD:
  assumes "engine_step g g'"
  shows "cs_shard_name g' = cs_shard_name g" "cs_window_size g' = cs_window_size g" "or_rules g' = or_rules g"
    "or_cache g' = or_cache g" "admission_count a g' = admission_count a g" "rg_trust_baseline g' = rg_trust_baseline g"
  using assms by (auto simp: engine_step_def admission_count_def)

lemma push_one_inv:
  assumes inv: "engine_inv sha fstr rix pix audit es cs g" and t: "valid_dt (fst st)" and e: "pushable e"
    and f: "functions_ok sf df"
  shows "\<exists>g' r h. push_one sha oserr sf df st agent e g = (g', Inr (Inr (JStr h))) \<and> engine_step g g' \<and>
    engine_inv sha fstr rix pix audit (es @ [r])
      (cs @ [projection sha sf df agent e (last_of (JStr agent) (newest (cs_window_size g) cs)) (JStr h) (fst st)]) g' \<and>
    others_kept sha (cs_shard_name g) (rg_fs g) (rg_fs g')"
proof -
  let ?w = "cs_window_size g" and ?i = "newest (cs_window_size g) cs"
  obtain h0 where p: "hash e = JStr h0" "summary_of sf e = Inr (summary_text sf e)"
    "content_digest sha e = Inr (sha (content_text e))" "entry_type_of e = Inr (type_of_entry e)"
    "detail_of df e = (fst (detail_of df e), JList (findings_of df e))"
    and wf: "\<And>p. wf_json (JObj (projection_doc agent (JStr h0) (sha (content_text e)) (summary_text sf e) (fst (detail_of df e))
        (JList (findings_of df e)) (type_of_entry e) (JStr p)))"
    using pushable_fields [OF e f, of sha agent] by metis
  have ci: "coll_inv sha es cs g" using inv by (simp add: engine_inv_def)
  obtain l where l: "last_hash_for_agent agent g = (g\<lparr>cs_index := Some ?i, cs_last_contribution := l\<rparr>, Inr (last_of (JStr agent) ?i))"
    and ci': "coll_inv sha es cs (g\<lparr>cs_index := Some ?i, cs_last_contribution := l\<rparr>)"
    using last_hash_inv [OF ci] by blast
  let ?g1 = "g\<lparr>cs_index := Some ?i, cs_last_contribution := l\<rparr>"
  have inv1: "engine_inv sha fstr rix pix audit es cs ?g1" using inv ci' by (simp add: engine_inv_def)
  have "list_all2 coll_records es cs" using ci by (simp add: coll_inv_def)
  from last_of_str [OF this] obtain q where q: "last_of (JStr agent) ?i = JStr q" by blast
  obtain s r h where wp: "write_projection sha oserr st agent (JStr h0) (JObj (projection_doc agent (JStr h0) (sha (content_text e))
        (summary_text sf e) (fst (detail_of df e)) (JList (findings_of df e)) (type_of_entry e) (JStr q))) ?g1
      = (?g1\<lparr>rg_fs := s, cs_index := None\<rparr>, Inr (Inr (JStr h)))"
    and i2: "engine_inv sha fstr rix pix audit (es @ [r]) (cs @ [projection sha sf df agent e (JStr q) (JStr h) (fst st)])
      (?g1\<lparr>rg_fs := s, cs_index := None\<rparr>)"
    and k: "others_kept sha (cs_shard_name ?g1) (rg_fs ?g1) s"
    using write_projection_inv [OF inv1 t p(1) wf] by blast
  have "push_one sha oserr sf df st agent e g = (?g1\<lparr>rg_fs := s, cs_index := None\<rparr>, Inr (Inr (JStr h)))"
    unfolding push_one_def p(2,3,4) by (subst p(5)) (simp add: sbind_def of_res_def l q p(1) wp)
  moreover have "engine_step g (?g1\<lparr>rg_fs := s, cs_index := None\<rparr>)"
    unfolding engine_step_def by (intro exI [where x = s] exI [where x = None] exI [where x = l]) simp
  moreover have "others_kept sha (cs_shard_name g) (rg_fs g) (rg_fs (?g1\<lparr>rg_fs := s, cs_index := None\<rparr>))" using k by simp
  ultimately show ?thesis using i2 unfolding q by blast
qed

text \<open>A request to the orchestrator keeps the invariant of the engine.\<close>

lemma engine_admit:
  assumes inv: "engine_inv sha fstr rix pix audit es cs g" and more: "orchestrator.more g' = orchestrator.more g"
    and orch: "orch_inv sha fstr rix pix audit' g'" and kept: "others_kept sha ORCHESTRATOR_SHARD (rg_fs g) (rg_fs g')"
  shows "engine_inv sha fstr rix pix audit' es cs g'"
proof -
  have c: "coll_inv sha es cs g" using inv by (simp add: engine_inv_def)
  have m: "mono_files (rg_fs g') = []" using orch by (auto simp: orch_inv_def gov_inv_def reg_inv_def)
  have "family_name (cs_shard_name g) \<noteq> family_name ORCHESTRATOR_SHARD"
    using c collective_families(3) [of "cs_shard_name g"] by (auto simp: coll_inv_def)
  then have "shard_inv sha (cs_shard_name g) (rg_fs g') es" using c kept by (auto simp: coll_inv_def others_kept_def)
  with c m orch same_more [OF more] show ?thesis by (simp add: engine_inv_def coll_inv_def)
qed

definition item_ok :: "push_item \<Rightarrow> bool" where
  "item_ok i = (pushable (pi_entry i) \<and> valid_dt (fst (pi_decided i)) \<and> valid_dt (fst (pi_written i)))"

text \<open>One round of the loop, and what the rest contributes.\<close>

lemma push_denied:
  assumes "admit sha py_str fstr (fst (pi_decided i)) (snd (pi_decided i)) (pi_entry i) agent owner g = (g1, Inr r)"
    and "ad_verdict r \<noteq> ''allow''" and "push sha py_str fstr oserr sf df agent owner is g1 = (g2, Inr res)"
  shows "push sha py_str fstr oserr sf df agent owner (i # is) g
    = (g2, Inr (with_rejected (or_empty (hash (pi_entry i))) (ad_reason r) res))"
  using assms by (simp add: sbind_def)

lemma push_allowed:
  assumes "admit sha py_str fstr (fst (pi_decided i)) (snd (pi_decided i)) (pi_entry i) agent owner g = (g1, Inr r)"
    and "ad_verdict r = ''allow''" and "push_one sha oserr sf df (pi_written i) agent (pi_entry i) g1 = (g2, Inr (Inr h))"
    and "push sha py_str fstr oserr sf df agent owner is g2 = (g3, Inr res)"
  shows "push sha py_str fstr oserr sf df agent owner (i # is) g = (g3, Inr (with_admitted h res))"
  using assms by (simp add: sbind_def)

text \<open>A push writes to the collective and to the log of the orchestrator, to no other family.\<close>

definition push_kept :: "sha \<Rightarrow> string \<Rightarrow> fs \<Rightarrow> fs \<Rightarrow> bool" where
  "push_kept sha sid s s' =
     (\<forall>x xs. shard_inv sha x s xs \<longrightarrow> family_name x \<noteq> family_name sid \<longrightarrow> family_name x \<noteq> family_name ORCHESTRATOR_SHARD \<longrightarrow>
        shard_inv sha x s' xs)"

lemma push_kept_refl [simp]: "push_kept sha sid s s"
  by (simp add: push_kept_def)

lemma push_kept_trans: "push_kept sha sid s s' \<Longrightarrow> push_kept sha sid s' s'' \<Longrightarrow> push_kept sha sid s s''"
  by (simp add: push_kept_def)

lemma others_push_kept:
  "others_kept sha sid s s' \<Longrightarrow> push_kept sha sid s s'" "others_kept sha ORCHESTRATOR_SHARD s s' \<Longrightarrow> push_kept sha sid s s'"
  by (simp_all add: push_kept_def others_kept_def)

text \<open>Whatever the rules decide, a push is answered and keeps the links.\<close>

lemma push_links:
  assumes inv: "engine_inv sha fstr rix pix audit es cs g" and links: "linked_projections (cs_window_size g) cs"
    and items: "list_all item_ok items" and f: "functions_ok sf df"
  shows "\<exists>g' res audit' es' new. push sha py_str fstr oserr sf df agent owner items g = (g', Inr res) \<and>
    engine_inv sha fstr rix pix audit' es' (cs @ new) g' \<and> linked_projections (cs_window_size g) (cs @ new) \<and>
    cs_window_size g' = cs_window_size g \<and> cs_shard_name g' = cs_shard_name g \<and>
    pu_admitted res = map ce_hash new \<and> (\<forall>c \<in> set new. ce_agent_id c = JStr agent) \<and>
    length (pu_admitted res) + length (pu_rejected res) = length items \<and>
    push_kept sha (cs_shard_name g) (rg_fs g) (rg_fs g') \<and>
    (\<forall>c \<in> set new. ce_contributed_at c \<in> (\<lambda>i. fst (pi_written i)) ` set items)"
  using inv links items
proof (induction items arbitrary: g audit es cs)
  case Nil
  then show ?case by (intro exI [where x = g]) auto
next
  case (Cons i items)
  have ok: "pushable (pi_entry i)" "valid_dt (fst (pi_decided i))" "valid_dt (fst (pi_written i))" "list_all item_ok items"
    using Cons.prems(3) item_ok_def [of i] by simp_all
  obtain g1 r new where a: "admit sha py_str fstr (fst (pi_decided i)) (snd (pi_decided i)) (pi_entry i) agent owner g = (g1, Inr r)"
    and o1: "orch_inv sha fstr rix pix (audit @ new) g1" "orchestrator.more g1 = orchestrator.more g"
      "others_kept sha ORCHESTRATOR_SHARD (rg_fs g) (rg_fs g1)"
    using admit_effect [OF conjunct1 [OF Cons.prems(1) [unfolded engine_inv_def]] ok(2) conjunct1 [OF ok(1) [unfolded pushable_def]]]
    by blast
  note inv1 = engine_admit [OF Cons.prems(1) o1(2,1,3)] and more = same_more [OF o1(2)]
  have k1: "push_kept sha (cs_shard_name g) (rg_fs g) (rg_fs g1)" using o1(3) by (rule others_push_kept)
  show ?case
  proof (cases "ad_verdict r = ''allow''")
    case False
    obtain g2 res audit' es' news where
      q: "push sha py_str fstr oserr sf df agent owner items g1 = (g2, Inr res)"
      "engine_inv sha fstr rix pix audit' es' (cs @ news) g2" "linked_projections (cs_window_size g1) (cs @ news)"
      "cs_window_size g2 = cs_window_size g1" "cs_shard_name g2 = cs_shard_name g1" "pu_admitted res = map ce_hash news"
      "\<forall>c \<in> set news. ce_agent_id c = JStr agent" "length (pu_admitted res) + length (pu_rejected res) = length items"
      "push_kept sha (cs_shard_name g1) (rg_fs g1) (rg_fs g2)"
      "\<forall>c \<in> set news. ce_contributed_at c \<in> (\<lambda>i. fst (pi_written i)) ` set items"
      using Cons.IH [OF inv1 _ ok(4)] Cons.prems(2) more by auto
    from q(2-) push_denied [OF a False q(1)] more push_kept_trans [OF k1] show ?thesis
      by (intro exI [where x = g2] exI [where x = "with_rejected (or_empty (hash (pi_entry i))) (ad_reason r) res"]
          exI [where x = audit'] exI [where x = es'] exI [where x = news]) (simp add: with_rejected_def)
  next
    case True
    obtain g2 x h where p: "push_one sha oserr sf df (pi_written i) agent (pi_entry i) g1 = (g2, Inr (Inr (JStr h)))"
      and s: "engine_step g1 g2"
      and inv2: "engine_inv sha fstr rix pix (audit @ new) (es @ [x]) (cs @ [projection sha sf df agent (pi_entry i)
        (last_of (JStr agent) (newest (cs_window_size g) cs)) (JStr h) (fst (pi_written i))]) g2"
      and k2: "others_kept sha (cs_shard_name g) (rg_fs g1) (rg_fs g2)"
      using push_one_inv [OF inv1 ok(3,1) f, of oserr agent] more by auto
    note k12 = push_kept_trans [OF k1 others_push_kept(1) [OF k2]]
    let ?c = "projection sha sf df agent (pi_entry i) (last_of (JStr agent) (newest (cs_window_size g) cs)) (JStr h) (fst (pi_written i))"
    have w2: "cs_window_size g2 = cs_window_size g" "cs_shard_name g2 = cs_shard_name g" using engine_stepD [OF s] more by simp_all
    have "linked_projections (cs_window_size g2) (cs @ [?c])"
      using Cons.prems(2) w2 by (simp add: linked_projections_snoc projection_def)
    from Cons.IH [OF inv2 this ok(4)] obtain g3 res audit' es' news where
      q: "push sha py_str fstr oserr sf df agent owner items g2 = (g3, Inr res)"
      "engine_inv sha fstr rix pix audit' es' ((cs @ [?c]) @ news) g3" "linked_projections (cs_window_size g2) ((cs @ [?c]) @ news)"
      "cs_window_size g3 = cs_window_size g2" "cs_shard_name g3 = cs_shard_name g2" "pu_admitted res = map ce_hash news"
      "\<forall>c \<in> set news. ce_agent_id c = JStr agent" "length (pu_admitted res) + length (pu_rejected res) = length items"
      "push_kept sha (cs_shard_name g2) (rg_fs g2) (rg_fs g3)"
      "\<forall>c \<in> set news. ce_contributed_at c \<in> (\<lambda>i. fst (pi_written i)) ` set items"
      by blast
    from q(2-) push_allowed [OF a True p q(1)] w2 push_kept_trans [OF k12] show ?thesis
      by (intro exI [where x = g3] exI [where x = "with_admitted (JStr h) res"] exI [where x = audit'] exI [where x = es']
          exI [where x = "?c # news"]) (simp add: with_admitted_def projection_def)
  qed
qed

section \<open>Opening a collective\<close>

lemma orch_inv_extend [simp]:
  "orch_inv sha fstr rix pix audit (orchestrator.extend g m) = orch_inv sha fstr rix pix audit g"
  by (cases g) (simp add: orchestrator.defs orch_inv_def gov_inv_def reg_inv_def pol_inv_def)

lemma open_collective_fields [simp]:
  "cs_shard_name (open_collective g n w) = collective_name n" "cs_window_size (open_collective g n w) = w"
  "cs_index (open_collective g n w) = None" "rg_fs (open_collective g n w) = rg_fs g"
  "or_rules (open_collective g n w) = or_rules g" "or_cache (open_collective g n w) = or_cache g"
  "or_admission_counts (open_collective g n w) = or_admission_counts g"
  "rg_trust_baseline (open_collective g n w) = rg_trust_baseline g"
  by (cases g; simp add: open_collective_def orchestrator.defs collective.defs)+

lemma open_collective_inv:
  assumes "orch_inv sha fstr rix pix audit g" and "shard_inv sha (collective_name n) (rg_fs g) []"
  shows "engine_inv sha fstr rix pix audit [] [] (open_collective g n w)"
proof -
  have "mono_files (rg_fs g) = []" using assms(1) by (auto simp: orch_inv_def gov_inv_def reg_inv_def)
  with assms have "coll_inv sha [] [] (open_collective g n w)" by (simp add: coll_inv_def)
  moreover have "orch_inv sha fstr rix pix audit (open_collective g n w)" using assms(1) by (simp add: open_collective_def)
  ultimately show ?thesis by (simp add: engine_inv_def)
qed

lemma sample_engine:
  "\<exists>rix pix (g :: collective). engine_inv (\<lambda>m. m) (\<lambda>_. None) rix pix [] [] [] g \<and> or_rules g = default_rules \<and> or_cache g = [] \<and>
    or_admission_counts g = [] \<and> rg_trust_baseline g = ONE \<and> cs_window_size g = w \<and> shard_inv (\<lambda>m. m) SYNC_LOG_SHARD (rg_fs g) [] \<and>
    reg_view rix ''bot'' = Some \<lparr>ra_agent_id = JStr ''bot'', ra_public_key = JStr ''pk'', ra_owner_id = JStr ''ann'',
      ra_model = JStr ''m'', ra_registered_at = sample_time, ra_revoked = False\<rparr> \<and>
    pol_view pix ''ann'' = Some (policy_of ''ann'' sample_policy sample_time, False)"
proof -
  obtain rix pix and g :: orchestrator where inv: "orch_inv (\<lambda>m. m) (\<lambda>_. None) rix pix [] g"
    and g: "or_rules g = default_rules" "or_cache g = []" "or_admission_counts g = []" "rg_trust_baseline g = ONE"
    and v: "reg_view rix ''bot'' = Some \<lparr>ra_agent_id = JStr ''bot'', ra_public_key = JStr ''pk'', ra_owner_id = JStr ''ann'',
      ra_model = JStr ''m'', ra_registered_at = sample_time, ra_revoked = False\<rparr>"
    "pol_view pix ''ann'' = Some (policy_of ''ann'' sample_policy sample_time, False)"
    and k: "\<forall>x. family_name x \<notin> {family_name IDENTITY_REGISTRY_SHARD, family_name SOVEREIGNTY_SHARD} \<longrightarrow> shard_inv (\<lambda>m. m) x (rg_fs g) []"
    using sample_orch by blast
  have "family_name (collective_name ''x'') \<notin> {family_name IDENTITY_REGISTRY_SHARD, family_name SOVEREIGNTY_SHARD}"
    using collective_families(1,2) [OF collective_name_ok, of "''x''"] by auto
  with k have "shard_inv (\<lambda>m. m) (collective_name ''x'') (rg_fs g) []" by blast
  note e = open_collective_inv [OF inv this, of w]
  have "family_name SYNC_LOG_SHARD \<notin> {family_name IDENTITY_REGISTRY_SHARD, family_name SOVEREIGNTY_SHARD}"
    by (simp add: family_name_def py_replace_unfold SYNC_LOG_SHARD_def IDENTITY_REGISTRY_SHARD_def SOVEREIGNTY_SHARD_def)
  with k e g v show ?thesis by (intro exI [where x = rix] exI [where x = pix] exI [where x = "open_collective g ''x'' w"]) simp
qed

definition sample_item :: push_item where
  "sample_item = \<lparr>pi_entry = sample_admission, pi_decided = (sample_time, ''u1''), pi_written = (sample_time, ''u2'')\<rparr>"

lemma sample_item_ok [simp]: "item_ok sample_item" "hash (pi_entry sample_item) = JStr ''v1:h''"
  by (auto simp: sample_item_def item_ok_def pushable_def) (simp_all add: sample_admission_def sample_entry_def)

lemma no_functions_ok [simp]: "functions_ok None None"
  by (auto simp: functions_ok_def pushable_def summary_of_def content_head_def detail_of_def)

end
