(* ===== verification/Collective_Props.thy ===== *)
theory Collective_Props
  imports Collective_Laws Witness_Props
begin

text \<open>Properties of the collective memory: what is pushed, how it links, what is pulled.\<close>

section \<open>What a push admits\<close>

definition item_allowed ::
    "(json \<Rightarrow> string) \<Rightarrow> reg_index \<Rightarrow> pol_index \<Rightarrow> int \<Rightarrow> string \<Rightarrow> string \<Rightarrow> push_item \<Rightarrow> bool" where
  "item_allowed py_str rix pix baseline agent owner i =
     (let trust = trust_of baseline (fst (pi_decided i)) (reg_view rix agent) in
      en_verdict (decide py_str (active (pol_view pix owner)) agent trust (type_of_entry (pi_entry i)) False) = ''allow'' \<and>
      ffrac 3 10 \<le> trust \<and> \<not> references_itself (pi_entry i))"

fun admitted_items :: "('i \<Rightarrow> bool) \<Rightarrow> int \<Rightarrow> 'i list \<Rightarrow> 'i list" where
  "admitted_items ok n [] = []"
| "admitted_items ok n (i # is) = (if ok i \<and> n < 100 then i # admitted_items ok (n + 1) is else admitted_items ok n is)"

lemma admitted_items_take: "admitted_items ok n is = take (nat (100 - n)) (filter ok is)"
proof (induction "is" arbitrary: n)
  case (Cons i "is")
  have "nat (100 - n) = Suc (nat (100 - (n + 1)))" if "n < 100" using that by linarith
  with Cons [of "n + 1"] Cons [of n] show ?case by auto
qed simp

definition projects :: "sha \<Rightarrow> summary_fn \<Rightarrow> detail_fn \<Rightarrow> string \<Rightarrow> push_item \<Rightarrow> collective_entry \<Rightarrow> bool" where
  "projects sha sf df agent i c = (\<exists>p h. c = projection sha sf df agent (pi_entry i) p h (fst (pi_written i)))"

text \<open>The decision on an item that was not decided before.\<close>

lemma default_admit:
  assumes inv: "engine_inv sha fstr rix pix audit es cs g" and rules: "or_rules g = default_rules" and i: "item_ok i"
    and new: "map_of (or_cache g) (hash (pi_entry i)) = None"
  shows "\<exists>g1 r rec. admit sha py_str fstr (fst (pi_decided i)) u (pi_entry i) agent owner g = (g1, Inr r) \<and>
    ad_verdict r = (if item_allowed py_str rix pix (rg_trust_baseline g) agent owner i \<and> admission_count agent g < 100
      then ''allow'' else ''deny'') \<and>
    engine_inv sha fstr rix pix (audit @ [rec]) es cs g1 \<and> decided sha g g1 agent (hash (pi_entry i)) r"
proof -
  have o: "orch_inv sha fstr rix pix audit g" and e: "admissible (pi_entry i)" and t: "valid_dt (fst (pi_decided i))"
    using inv i by (simp_all add: engine_inv_def item_ok_def pushable_def)
  obtain ty where ty: "entry_type_of (pi_entry i) = Inr ty" using e by (auto simp: admissible_def)
  have wf: "wf_json (hash (pi_entry i))" using e by (auto simp: admissible_def)
  let ?r = "conclude (or_rules g) (pi_entry i) agent (hash (pi_entry i)) (fst (pi_decided i))
      (context_of py_str rix pix (fst (pi_decided i)) agent owner ty g)"
  obtain g1 rec where a: "admit sha py_str fstr (fst (pi_decided i)) u (pi_entry i) agent owner g = (g1, Inr ?r)"
    and o1: "orch_inv sha fstr rix pix (audit @ [rec]) g1" and d: "decided sha g g1 agent (hash (pi_entry i)) ?r"
    using admit_fresh_inv [OF o t wf ty, of py_str u agent owner] unfolding admit_new [OF e new] by blast
  have "engine_inv sha fstr rix pix (audit @ [rec]) es cs g1"
    using d engine_admit [OF inv _ o1] by (simp add: decided_def)
  moreover have "ad_verdict ?r = (if item_allowed py_str rix pix (rg_trust_baseline g) agent owner i \<and> admission_count agent g < 100
      then ''allow'' else ''deny'')"
    unfolding rules default_verdict by (auto simp: context_of_def Let_def item_allowed_def type_of_entry_def ty)
  ultimately show ?thesis using a d by blast
qed

lemma push_exact_loop:
  assumes inv: "engine_inv sha fstr rix pix audit es cs g" and rules: "or_rules g = default_rules"
    and items: "list_all item_ok items" and f: "functions_ok sf df"
    and dist: "distinct (map (\<lambda>i. hash (pi_entry i)) items)"
    and new: "\<forall>i \<in> set items. map_of (or_cache g) (hash (pi_entry i)) = None"
  shows "\<exists>g' res audit' es' more. push sha py_str fstr oserr sf df agent owner items g = (g', Inr res) \<and>
    engine_inv sha fstr rix pix audit' es' (cs @ more) g' \<and> pu_admitted res = map ce_hash more \<and>
    list_all2 (projects sha sf df agent)
      (admitted_items (item_allowed py_str rix pix (rg_trust_baseline g) agent owner) (admission_count agent g) items) more \<and>
    length audit' = length audit + length items \<and> length (pu_rejected res) + length more = length items"
  using inv rules items dist new
proof (induction items arbitrary: g audit es cs)
  case Nil
  then show ?case by (intro exI [where x = g]) auto
next
  case (Cons i items)
  let ?ok = "item_allowed py_str rix pix (rg_trust_baseline g) agent owner"
  have i: "item_ok i" "list_all item_ok items" "pushable (pi_entry i)" "valid_dt (fst (pi_written i))"
    using Cons.prems(3) item_ok_def [of i] by simp_all
  obtain g1 r rec where a: "admit sha py_str fstr (fst (pi_decided i)) (snd (pi_decided i)) (pi_entry i) agent owner g = (g1, Inr r)"
    and v: "ad_verdict r = (if ?ok i \<and> admission_count agent g < 100 then ''allow'' else ''deny'')"
    and inv1: "engine_inv sha fstr rix pix (audit @ [rec]) es cs g1" and d: "decided sha g g1 agent (hash (pi_entry i)) r"
    using default_admit [OF Cons.prems(1,2) i(1), of py_str "snd (pi_decided i)" agent owner] Cons.prems(5) by auto
  have d1: "or_rules g1 = default_rules" "rg_trust_baseline g1 = rg_trust_baseline g"
    "admission_count agent g1 = admission_count agent g + (if ad_verdict r = ''allow'' then 1 else 0)"
    "\<forall>j \<in> set items. map_of (or_cache g1) (hash (pi_entry j)) = None"
    using d Cons.prems(2,4,5) by (auto simp: decided_def image_iff)
  have dist': "distinct (map (\<lambda>i. hash (pi_entry i)) items)" using Cons.prems(4) by simp
  show ?case
  proof (cases "?ok i \<and> admission_count agent g < 100")
    case False
    then have deny: "ad_verdict r \<noteq> ''allow''" using v by simp
    from Cons.IH [OF inv1 d1(1) i(2) dist' d1(4)] obtain g' res audit' es' more where
      q: "push sha py_str fstr oserr sf df agent owner items g1 = (g', Inr res)"
      "engine_inv sha fstr rix pix audit' es' (cs @ more) g'" "pu_admitted res = map ce_hash more"
      "list_all2 (projects sha sf df agent) (admitted_items ?ok (admission_count agent g) items) more"
      "length audit' = length audit + length (i # items)" "length (pu_rejected res) + length more = length items"
      using d1 deny by auto
    have "admitted_items ?ok (admission_count agent g) (i # items) = admitted_items ?ok (admission_count agent g) items"
      using False by auto
    with q push_denied [OF a deny q(1)] show ?thesis
      by (intro exI [where x = g'] exI [where x = "with_rejected (or_empty (hash (pi_entry i))) (ad_reason r) res"]
          exI [where x = audit'] exI [where x = es'] exI [where x = more]) (simp add: with_rejected_def del: admitted_items.simps)
  next
    case True
    then have allow: "ad_verdict r = ''allow''" using v by simp
    obtain g2 x h where p: "push_one sha oserr sf df (pi_written i) agent (pi_entry i) g1 = (g2, Inr (Inr (JStr h)))"
      and s: "engine_step g1 g2" and inv2: "engine_inv sha fstr rix pix (audit @ [rec]) (es @ [x]) (cs @ [projection sha sf df agent (pi_entry i)
        (last_of (JStr agent) (newest (cs_window_size g1) cs)) (JStr h) (fst (pi_written i))]) g2"
      using push_one_inv [OF inv1 i(4,3) f, of oserr agent] by blast
    let ?c = "projection sha sf df agent (pi_entry i) (last_of (JStr agent) (newest (cs_window_size g1) cs)) (JStr h) (fst (pi_written i))"
    note s = engine_stepD [OF s]
    have d2: "or_rules g2 = default_rules" "\<forall>j \<in> set items. map_of (or_cache g2) (hash (pi_entry j)) = None"
      "rg_trust_baseline g2 = rg_trust_baseline g" "admission_count agent g2 = admission_count agent g + 1"
      using d1 s allow by simp_all
    from Cons.IH [OF inv2 d2(1) i(2) dist' d2(2)] obtain g' res audit' es' more where
      q: "push sha py_str fstr oserr sf df agent owner items g2 = (g', Inr res)"
      "engine_inv sha fstr rix pix audit' es' ((cs @ [?c]) @ more) g'" "pu_admitted res = map ce_hash more"
      "list_all2 (projects sha sf df agent) (admitted_items ?ok (admission_count agent g + 1) items) more"
      "length audit' = length audit + length (i # items)" "length (pu_rejected res) + length more = length items"
      using d2 by auto
    have "projects sha sf df agent i ?c" by (auto simp: projects_def)
    with q(2-) True push_allowed [OF a allow p q(1)] show ?thesis
      by (intro exI [where x = g'] exI [where x = "with_admitted (JStr h) res"] exI [where x = audit'] exI [where x = es']
          exI [where x = "?c # more"]) (simp add: with_admitted_def projection_def)
  qed
qed



section \<open>Links\<close>

record push_request =
  pq_agent :: string
  pq_owner :: string
  pq_summary_fn :: summary_fn
  pq_detail_fn :: detail_fn
  pq_items :: "push_item list"

definition run_push ::
    "sha \<Rightarrow> (json \<Rightarrow> string) \<Rightarrow> (string \<Rightarrow> flt option) \<Rightarrow> string \<Rightarrow> push_request \<Rightarrow> 'z collective_scheme \<Rightarrow> 'z collective_scheme" where
  "run_push sha py_str fstr oserr q g =
     fst (push sha py_str fstr oserr (pq_summary_fn q) (pq_detail_fn q) (pq_agent q) (pq_owner q) (pq_items q) g)"

definition push_request_ok :: "push_request \<Rightarrow> bool" where
  "push_request_ok q = (list_all item_ok (pq_items q) \<and> functions_ok (pq_summary_fn q) (pq_detail_fn q))"

definition collective_inv :: "sha \<Rightarrow> (string \<Rightarrow> flt option) \<Rightarrow> reg_index \<Rightarrow> pol_index \<Rightarrow> collective_entry list \<Rightarrow> 'z collective_scheme \<Rightarrow> bool" where
  "collective_inv sha fstr rix pix cs g =
     ((\<exists>audit es. engine_inv sha fstr rix pix audit es cs g) \<and> linked_projections (cs_window_size g) cs)"

lemma run_push_inv:
  assumes "collective_inv sha fstr rix pix cs g" and "push_request_ok q"
  shows "\<exists>new. collective_inv sha fstr rix pix (cs @ new) (run_push sha py_str fstr oserr q g) \<and>
    cs_window_size (run_push sha py_str fstr oserr q g) = cs_window_size g"
proof -
  obtain audit es where inv: "engine_inv sha fstr rix pix audit es cs g" and l: "linked_projections (cs_window_size g) cs"
    using assms(1) by (auto simp: collective_inv_def)
  have ok: "list_all item_ok (pq_items q)" "functions_ok (pq_summary_fn q) (pq_detail_fn q)"
    using assms(2) by (simp_all add: push_request_ok_def)
  from push_links [OF inv l ok, of py_str oserr "pq_agent q" "pq_owner q"] show ?thesis
    by (fastforce simp: run_push_def collective_inv_def)
qed

text \<open>
  The per-agent chains of the collective. Whatever agents push through one engine,
  with whatever rules, after any number of pushes every projection names as its
  predecessor the last projection of the same agent among the newest \<open>window_size\<close> ones
  before it, and the empty text if there is none. So the chain of an agent is unbroken
  as long as its contributions are at most a window apart, and starts anew after a
  longer gap.
\<close>

theorem pushes_keep_links:
  assumes "collective_inv sha fstr rix pix cs g" and "\<forall>q \<in> set qs. push_request_ok q"
  shows "\<exists>new. collective_inv sha fstr rix pix (cs @ new) (fold (run_push sha py_str fstr oserr) qs g) \<and>
    (\<forall>i < length (cs @ new). ce_agent_prev_hash ((cs @ new) ! i) =
       last_of (ce_agent_id ((cs @ new) ! i)) (newest (cs_window_size g) (take i (cs @ new))))"
proof -
  have "\<exists>new. collective_inv sha fstr rix pix (cs @ new) (fold (run_push sha py_str fstr oserr) qs g) \<and>
      cs_window_size (fold (run_push sha py_str fstr oserr) qs g) = cs_window_size g"
    using assms
  proof (induction qs arbitrary: cs g)
    case Nil
    then show ?case by (intro exI [where x = "[]"]) simp
  next
    case (Cons q qs)
    obtain new where n: "collective_inv sha fstr rix pix (cs @ new) (run_push sha py_str fstr oserr q g)"
      "cs_window_size (run_push sha py_str fstr oserr q g) = cs_window_size g"
      using run_push_inv [OF Cons.prems(1), of q py_str oserr] Cons.prems(2) by auto
    from Cons.IH [OF n(1)] Cons.prems(2) n(2) show ?case by (metis append.assoc fold_simps(2) insert_iff list.set(2))
  qed
  then show ?thesis unfolding collective_inv_def linked_projections_def by metis
qed

theorem pushes_keep_links_witness:
  "\<exists>g rix pix new. collective_inv (\<lambda>m. m) (\<lambda>_. None) rix pix new
     (fold (run_push (\<lambda>m. m) (\<lambda>_. []) (\<lambda>_. None) [])
        [\<lparr>pq_agent = ''bot'', pq_owner = ''ann'', pq_summary_fn = None, pq_detail_fn = None, pq_items = [sample_item]\<rparr>] (g :: collective)) \<and>
     (\<forall>i < length new. ce_agent_prev_hash (new ! i) = last_of (ce_agent_id (new ! i)) (newest 500 (take i new)))"
proof -
  let ?q = "\<lparr>pq_agent = ''bot'', pq_owner = ''ann'', pq_summary_fn = None, pq_detail_fn = None, pq_items = [sample_item]\<rparr>"
  obtain rix pix and g :: collective where inv: "engine_inv (\<lambda>m. m) (\<lambda>_. None) rix pix [] [] [] g" and w: "cs_window_size g = 500"
    using sample_engine [of 500] by blast
  then have "collective_inv (\<lambda>m. m) (\<lambda>_. None) rix pix [] g" by (auto simp: collective_inv_def)
  moreover have "\<forall>q \<in> set [?q]. push_request_ok q" by (simp add: push_request_ok_def)
  ultimately show ?thesis
    using pushes_keep_links [of "\<lambda>m. m" "\<lambda>_. None" rix pix "[]" g "[?q]" "\<lambda>_. []" "[]"] w by (metis append_Nil)
qed

section \<open>Pulls\<close>

lemma length_newest: "length (newest w xs) = min (nat (max 1 w)) (length xs)"
  by (simp add: newest_def)

lemma since_loop_True: "since_loop h True cs = cs"
  by (induction cs) simp_all

lemma since_loop_at:
  "distinct (map ce_hash (xs @ c # ys)) \<Longrightarrow> since_loop (ce_hash c) False (xs @ c # ys) = ys"
proof (induction xs)
  case Nil
  then show ?case by (cases ys) (simp_all add: since_loop_True)
next
  case (Cons x xs)
  then show ?case by (auto simp: image_iff)
qed

lemma coll_truthy:
  assumes "coll_inv sha es cs g" and "c \<in> set cs"
  shows "truthy (ce_hash c)"
proof -
  have ch: "chained sha JNull es" "list_all2 coll_records es cs" using assms(1) shard_invD(1) by (auto simp: coll_inv_def)
  then obtain e where e: "e \<in> set es" "ce_hash c = hash e"
    using assms(2) by (fastforce simp: in_set_conv_nth list_all2_conv_all_nth coll_records_def)
  have "hash_ok sha e" using chained_hash_ok ch(1) e(1) by blast
  then show ?thesis using e(2) hash_ok_truthy by simp
qed

lemma coll_hash_str:
  assumes "coll_inv sha es cs g" and "c \<in> set cs"
  shows "\<exists>h. ce_hash c = JStr h"
  using assms by (fastforce simp: coll_inv_def in_set_conv_nth list_all2_conv_all_nth coll_records_def)

text \<open>The hashes of a chain are distinct, unless the digest collides.\<close>

lemma chained_distinct:
  assumes ch: "chained sha JNull es" and inj: "inj_on sha (message ` set es)"
  shows "distinct (map hash es)"
proof -
  have tip: "hash (es ! i) = tip (take (Suc i) es)" if "i < length es" for i
    using that by (simp add: tip_def take_Suc_conv_app_nth)
  have "hash (es ! i) \<noteq> hash (es ! j)" if "i < j" "j < length es" for i j
  proof -
    let ?a = "take (Suc i) es" and ?b = "drop (Suc i) (take (Suc j) es)"
    have ab: "?a @ ?b = take (Suc j) es"
      using append_take_drop_id [of "Suc i" "take (Suc j) es"] that(1) by (simp add: min_def)
    have "chained sha JNull (take (Suc j) es)" using ch chained_append [of sha JNull "take (Suc j) es" "drop (Suc j) es"] by simp
    moreover have "inj_on sha (message ` set (take (Suc j) es))"
      by (rule inj_on_subset [OF inj]) (auto dest: in_set_takeD)
    ultimately have "tip (?a @ ?b) \<noteq> tip ?a"
      using that by (intro chained_tip_differs) (simp_all only: ab, auto)
    then show ?thesis using tip that ab by simp
  qed
  then show ?thesis by (auto simp: distinct_conv_nth) (metis nat_neq_iff)
qed

lemma coll_distinct:
  assumes inv: "coll_inv sha es cs g" and inj: "inj_on sha (message ` set es)"
  shows "distinct (map ce_hash (newest w cs))"
proof -
  have "list_all2 coll_records es cs" "chained sha JNull es" using inv shard_invD(1) by (auto simp: coll_inv_def)
  then have "map ce_hash cs = map hash es"
    by (intro nth_equalityI) (auto simp: list_all2_conv_all_nth coll_records_def)
  then have "distinct (map ce_hash cs)" using chained_distinct [OF \<open>chained sha JNull es\<close> inj] by simp
  then show ?thesis by (simp add: newest_def flip: drop_map)
qed

text \<open>A pull that finds something logs it in the shard of its own.\<close>

lemma pull_new:
  assumes inv: "coll_inv sha es cs g" and log: "shard_inv sha SYNC_LOG_SHARD (rg_fs g) logs" and t: "valid_dt (fst st)"
    and h: "since_hash = JNull \<or> (\<exists>h. since_hash = JStr h)"
    and new: "(if truthy since_hash then since_loop since_hash False (newest (cs_window_size g) cs)
         else take 100 (rev (newest (cs_window_size g) cs))) = found" and ne: "found \<noteq> []"
  shows "\<exists>g' logs'. pull sha st agent since_hash g = (g', Inr \<lparr>pl_synced = int (length found), pl_last_hash = ce_hash (last found)\<rparr>) \<and>
    coll_inv sha es cs g' \<and> shard_inv sha SYNC_LOG_SHARD (rg_fs g') logs' \<and> cs_window_size g' = cs_window_size g"
proof -
  let ?w = "cs_window_size g"
  obtain l where l: "coll_ensure_index g = (g\<lparr>cs_index := Some (newest ?w cs), cs_last_contribution := l\<rparr>, Inr (newest ?w cs))"
    and m: "index_matches (newest ?w cs) l (newest ?w cs)" using coll_ensure_inv [OF inv] by blast
  let ?g1 = "g\<lparr>cs_index := Some (newest ?w cs), cs_last_contribution := l\<rparr>"
  have inv1: "coll_inv sha es cs ?g1" by (rule coll_inv_filled [OF inv m])
  have sub: "set (since_loop x b ds) \<subseteq> set ds" for x b ds by (induction ds arbitrary: b) auto
  have "last found \<in> set found" using ne by simp
  moreover have "set found \<subseteq> set cs"
    using new sub [of since_hash False "newest ?w cs"] set_newest [of ?w cs] set_take_subset [of 100 "rev (newest ?w cs)"]
    by (simp split: if_splits)
  ultimately obtain x where x: "ce_hash (last found) = JStr x" using coll_hash_str [OF inv] by blast
  let ?d = "JObj (pull_doc agent (int (length found)) since_hash (JStr x))"
  let ?m = "[(''event_type'', JStr ''sync_pull''), (''agent_id'', JStr agent)]"
  have wf: "wf_json ?d" using h by (auto simp: pull_doc_def)
  obtain s e r where app: "append sha (fst st) (doc_entry ''sync_engine'' SYNC_LOG_SHARD (fst st) (snd st) ?d ?m) (rg_fs g) = (s, Inr e)"
    and w: "doc_written sha SYNC_LOG_SHARD (rg_fs g) logs (fst st) ?d s r"
    using doc_append [OF log _ t wf, of ?m "''sync_engine''" "snd st"] by (auto simp: meta_ok_def SYNC_LOG_SHARD_def simp del: norm.simps)
  have "pull sha st agent since_hash g = (?g1\<lparr>rg_fs := s\<rparr>, Inr \<lparr>pl_synced = int (length found), pl_last_hash = JStr x\<rparr>)"
  proof -
    have "(if truthy since_hash then since since_hash else recent 100 None None) g = (?g1, Inr found)"
      using l new by (auto simp: since_def recent_def sbind_def named_def py_take_def)
    then show ?thesis using ne app x by (simp add: pull_def sbind_def)
  qed
  moreover have "coll_inv sha es cs (?g1\<lparr>rg_fs := s\<rparr>)"
    using inv1 w collective_families(4) [of "cs_shard_name g"] by (auto simp: coll_inv_def doc_written_def others_kept_def)
  moreover have "shard_inv sha SYNC_LOG_SHARD s (logs @ [r])" using w by (simp add: doc_written_def)
  ultimately show ?thesis using x by (intro exI [where x = "?g1\<lparr>rg_fs := s\<rparr>"]) auto
qed

text \<open>
  C22: incremental pulls with a cursor. With the hash of a projection of the window as its
  cursor, a pull reports the number of the newer projections and the hash of the newest
  one, and with that hash as the next cursor nothing is left to sync: an agent that keeps
  the cursor gets every projection once. A cursor that fell out of the window finds
  nothing and is returned unchanged, however much was contributed since.
\<close>

theorem pull_from_cursor:
  assumes inv: "coll_inv sha es cs g" and log: "shard_inv sha SYNC_LOG_SHARD (rg_fs g) logs" and t: "valid_dt (fst st)"
    and win: "newest (cs_window_size g) cs = xs @ c # ys" and inj: "inj_on sha (message ` set es)"
  shows "\<exists>g' res. pull sha st agent (ce_hash c) g = (g', Inr res) \<and> coll_inv sha es cs g' \<and>
    pl_synced res = int (length ys) \<and> pl_last_hash res = ce_hash (last (c # ys)) \<and>
    (\<exists>g''. pull sha st2 agent (pl_last_hash res) g' = (g'', Inr \<lparr>pl_synced = 0, pl_last_hash = pl_last_hash res\<rparr>)) \<and>
    (\<forall>h. truthy (JStr h) \<longrightarrow> JStr h \<notin> ce_hash ` set (newest (cs_window_size g) cs) \<longrightarrow>
       (\<exists>g''. pull sha st2 agent (JStr h) g' = (g'', Inr \<lparr>pl_synced = 0, pl_last_hash = JStr h\<rparr>)))"
proof -
  let ?w = "cs_window_size g"
  note dist = coll_distinct [OF inv inj, of ?w]
  have mem: "c \<in> set cs" "last (c # ys) \<in> set cs"
    using win set_newest [of ?w cs] by (auto split: if_splits)
  obtain h where h: "ce_hash c = JStr h" using coll_hash_str [OF inv mem(1)] by blast
  have idle: "\<exists>g''. pull sha st2 agent x g' = (g'', Inr \<lparr>pl_synced = 0, pl_last_hash = x\<rparr>)"
    if "coll_inv sha es cs g'" "cs_window_size g' = ?w" "truthy x" "since_loop x False (newest ?w cs) = []" for g' x
    using coll_ensure_inv [OF that(1)] that(2-4) by (auto simp: pull_def since_def sbind_def)
  have outside: "since_loop x False ds = []" if "x \<notin> ce_hash ` set ds" for x ds
    using that by (induction ds) auto
  have final: "since_loop (ce_hash (last (c # ys))) False (newest ?w cs) = []"
  proof -
    obtain zs where "xs @ c # ys = zs @ [last (c # ys)]"
      using append_butlast_last_id [of "xs @ c # ys"] by (metis Nil_is_append_conv last_appendR list.distinct(1))
    with dist win since_loop_at [of zs "last (c # ys)" "[]"] show ?thesis by simp
  qed
  have at: "since_loop (ce_hash c) False (newest ?w cs) = ys" using since_loop_at [of xs c ys] dist win by simp
  show ?thesis
  proof (cases "ys = []")
    case True
    obtain l where l: "coll_ensure_index g = (g\<lparr>cs_index := Some (newest ?w cs), cs_last_contribution := l\<rparr>, Inr (newest ?w cs))"
      and m: "index_matches (newest ?w cs) l (newest ?w cs)" using coll_ensure_inv [OF inv] by blast
    let ?g1 = "g\<lparr>cs_index := Some (newest ?w cs), cs_last_contribution := l\<rparr>"
    have i1: "coll_inv sha es cs ?g1" by (rule coll_inv_filled [OF inv m])
    have "pull sha st agent (ce_hash c) g = (?g1, Inr \<lparr>pl_synced = 0, pl_last_hash = ce_hash c\<rparr>)"
      using at True coll_truthy [OF inv mem(1)] l by (simp add: pull_def since_def sbind_def)
    moreover have "since_loop (ce_hash c) False (newest ?w cs) = []" using at True by simp
    with idle [OF i1 _ coll_truthy [OF inv mem(1)]]
    have "\<exists>g''. pull sha st2 agent (ce_hash c) ?g1 = (g'', Inr \<lparr>pl_synced = 0, pl_last_hash = ce_hash c\<rparr>)" by simp
    ultimately show ?thesis using i1 idle [OF i1] outside True by auto
  next
    case False
    then obtain g' logs' where p: "pull sha st agent (ce_hash c) g = (g', Inr \<lparr>pl_synced = int (length ys), pl_last_hash = ce_hash (last ys)\<rparr>)"
      and i: "coll_inv sha es cs g'" "cs_window_size g' = ?w"
      using pull_new [OF inv log t, of "ce_hash c" ys agent] h at coll_truthy [OF inv mem(1)] by auto
    moreover have "\<exists>g''. pull sha st2 agent (ce_hash (last ys)) g' = (g'', Inr \<lparr>pl_synced = 0, pl_last_hash = ce_hash (last ys)\<rparr>)"
      using idle [OF i] coll_truthy [OF inv mem(2)] final False by simp
    ultimately show ?thesis using idle [OF i] outside False by auto
  qed
qed

text \<open>
  The first pull of an agent, without a cursor, reports the newest hundred
  projections but returns the hash of the oldest of them, for the list it takes the last
  element of is newest first. The next pull with that cursor syncs all but one of them
  again.
\<close>

theorem first_pull_rewinds:
  assumes inv: "coll_inv sha es cs g" and log: "shard_inv sha SYNC_LOG_SHARD (rg_fs g) logs" and t: "valid_dt (fst st)" "valid_dt (fst st2)"
    and inj: "inj_on sha (message ` set es)" and two: "2 \<le> length (newest (cs_window_size g) cs)"
  shows "\<exists>g' res g'' res2. pull sha st agent JNull g = (g', Inr res) \<and>
    pl_synced res = min 100 (int (length (newest (cs_window_size g) cs))) \<and>
    pl_last_hash res = ce_hash (hd (newest 100 (newest (cs_window_size g) cs))) \<and>
    pull sha st2 agent (pl_last_hash res) g' = (g'', Inr res2) \<and> pl_synced res2 = pl_synced res - 1"
proof -
  let ?ix = "newest (cs_window_size g) cs"
  let ?n = "newest 100 ?ix"
  note dist = coll_distinct [OF inv inj, of "cs_window_size g"]
  have n: "take 100 (rev ?ix) = rev ?n" using rev_take_newest [of 100 ?ix] by (metis nat_numeral max_def one_le_numeral rev_rev_ident)
  have len: "length ?n = min 100 (length ?ix)" by (simp add: length_newest)
  obtain c ys where c: "?n = c # ys" using two len by (cases ?n) auto
  then have ys: "ys \<noteq> []" using two len by auto
  obtain xs where ix: "?ix = xs @ c # ys" using c by (metis append_take_drop_id newest_def)
  obtain g' logs' where p: "pull sha st agent JNull g = (g', Inr \<lparr>pl_synced = int (length ?n), pl_last_hash = ce_hash c\<rparr>)"
    and i: "coll_inv sha es cs g'" "shard_inv sha SYNC_LOG_SHARD (rg_fs g') logs'" "cs_window_size g' = cs_window_size g"
    using pull_new [OF inv log t(1), of JNull "rev ?n" agent] n c by auto
  have mem: "c \<in> set cs" using ix set_newest [of "cs_window_size g" cs] by auto
  obtain h where h: "ce_hash c = JStr h" using coll_hash_str [OF inv mem] by blast
  have "since_loop (ce_hash c) False (newest (cs_window_size g') cs) = ys" using since_loop_at [of xs c ys] dist ix i(3) by simp
  then obtain g'' where q: "pull sha st2 agent (ce_hash c) g' = (g'', Inr \<lparr>pl_synced = int (length ys), pl_last_hash = ce_hash (last ys)\<rparr>)"
    using pull_new [OF i(1,2) t(2), of "ce_hash c" ys agent] h ys coll_truthy [OF inv mem] by auto
  show ?thesis using p q c len by (intro exI [where x = g'] exI) auto
qed

text \<open>A collective with two projections, for the examples.\<close>

definition sample_doc :: "json" where
  "sample_doc = JObj (projection_doc ''bot'' (JStr ''v1:h'') ''d'' (JStr ''s'') (JStr []) (JList []) (JStr ''t'') (JStr []))"

lemma sample_records: "content_json r = Some (norm sample_doc) \<Longrightarrow> hash r = JStr h \<Longrightarrow> \<exists>c. coll_records r c"
  unfolding coll_records_def sample_doc_def
  by (rule exI, rule exI [where x = "''bot''"], rule exI [where x = "JStr ''v1:h''"], rule exI [where x = "''d''"],
      rule exI [where x = "JStr ''s''"], rule exI [where x = "JStr []"], rule exI [where x = "[]"], rule exI [where x = "JStr ''t''"],
      rule exI [where x = "JStr []"]) (simp add: projection_doc_def del: norm.simps(2))

lemma sample_collective:
  "\<exists>es c1 c2 (g :: collective). coll_inv (\<lambda>m. m) es [c1, c2] g \<and> shard_inv (\<lambda>m. m) SYNC_LOG_SHARD (rg_fs g) [] \<and>
    cs_window_size g = 500 \<and> cs_shard_name g = collective_name ''x'' \<and>
    ce_contributed_at c1 = sample_time \<and> ce_contributed_at c2 = sample_time \<and>
    (\<forall>x. family_name x \<noteq> family_name (collective_name ''x'') \<longrightarrow> shard_inv (\<lambda>m. m) x (rg_fs g) [])"
proof -
  let ?sid = "collective_name ''x''" and ?sha = "\<lambda>m. m"
  note n = collective_families(4,5) [OF collective_name_ok, of "''x''"]
  have wf: "wf_json sample_doc" by (simp add: sample_doc_def projection_doc_def)
  have m: "meta_ok []" by (simp add: meta_ok_def)
  obtain s1 r1 where 1: "doc_written ?sha ?sid empty_fs [] sample_time sample_doc s1 r1"
    using doc_append [OF shard_inv_empty n(2) valid_sample_time wf m, of ?sha "[]" "[]"] by blast
  then have i1: "shard_inv ?sha ?sid s1 [r1]" by (simp add: doc_written_def)
  obtain s2 r2 where 2: "doc_written ?sha ?sid s1 [r1] sample_time sample_doc s2 r2"
    using doc_append [OF i1 n(2) valid_sample_time wf m, of "[]" "[]"] by blast
  obtain c1 c2 where c: "coll_records r1 c1" "coll_records r2 c2"
    using sample_records 1 2 by (auto simp: doc_written_def) blast
  let ?g = "open_collective (new_orchestrator s2 ONE) ''x'' 500"
  have fs: "rg_fs ?g = s2" by (simp add: new_orchestrator_def)
  have "coll_inv ?sha [r1, r2] [c1, c2] ?g"
    using c 1 2 by (simp add: coll_inv_def doc_written_def fs del: open_collective_fields(4))
  moreover have other: "shard_inv ?sha x s2 []" if "family_name x \<noteq> family_name ?sid" for x
    using 1 2 that by (auto simp: doc_written_def others_kept_def)
  moreover have "ce_contributed_at c1 = sample_time" "ce_contributed_at c2 = sample_time"
    using c 1 2 by (auto simp: coll_records_def doc_written_def)
  ultimately show ?thesis using fs other [OF n(1)] by (intro exI [where x = "[r1, r2]"] exI [where x = c1] exI [where x = c2] exI [where x = ?g]) simp
qed

theorem pull_from_cursor_witness:
  "\<exists>c st g g' res. pull (\<lambda>m. m) st ''bot'' c (g :: collective) = (g', Inr res) \<and> pl_synced res = 1"
proof -
  obtain es c1 c2 and g :: collective where g: "coll_inv (\<lambda>m. m) es [c1, c2] g" "shard_inv (\<lambda>m. m) SYNC_LOG_SHARD (rg_fs g) []"
    "cs_window_size g = 500" using sample_collective by blast
  have "newest (cs_window_size g) [c1, c2] = [] @ c1 # [c2]" using g(3) by (simp add: newest_all)
  from pull_from_cursor [OF g(1,2) _ this, of "(sample_time, [])" "''bot''" "(sample_time, [])"] obtain g' res where
    "pull (\<lambda>m. m) (sample_time, []) ''bot'' (ce_hash c1) g = (g', Inr res)" "pl_synced res = 1"
    by (auto simp: inj_on_def)
  then show ?thesis by blast
qed

theorem first_pull_rewinds_witness:
  "\<exists>st g g' res g'' res2. pull (\<lambda>m. m) st ''bot'' JNull (g :: collective) = (g', Inr res) \<and> pl_synced res = 2 \<and>
     pull (\<lambda>m. m) st ''bot'' (pl_last_hash res) g' = (g'', Inr res2) \<and> pl_synced res2 = 1"
proof -
  obtain es c1 c2 and g :: collective where g: "coll_inv (\<lambda>m. m) es [c1, c2] g" "shard_inv (\<lambda>m. m) SYNC_LOG_SHARD (rg_fs g) []"
    "cs_window_size g = 500" using sample_collective by blast
  have n: "newest (cs_window_size g) [c1, c2] = [c1, c2]" using g(3) by (simp add: newest_all)
  from first_pull_rewinds [OF g(1,2), of "(sample_time, [])" "(sample_time, [])" "''bot''"] show ?thesis
    unfolding n by (fastforce simp: inj_on_def)
qed

end
