(* ===== verification/Digests.thy ===== *)
theory Digests
  imports Collective
begin

text \<open>
  \<^verbatim>\<open>src/dsm/collective.py\<close>, second part: the distiller, and the rolling digester that
  aggregates the entries of windows of time and loads a context within a budget. The
  windows are walked by recursion on the time that is left; the loop of the source has no
  bound but this one.
\<close>

section \<open>Distillation\<close>

record distillation =
  di_distilled :: int
  di_kept :: int
  di_digest_hash :: string

definition distill_doc :: "int \<Rightarrow> string \<Rightarrow> json list \<Rightarrow> json list \<Rightarrow> datetime \<Rightarrow> datetime \<Rightarrow> (string \<times> json) list" where
  "distill_doc n digest agents key_events first final =
     [(''event_type'', JStr ''distillation''), (''source_count'', JInt n), (''digest_hash'', JStr digest),
      (''agents_involved'', JList agents), (''key_events'', JList (take 50 key_events)),
      (''first_timestamp'', JStr (isoformat first)), (''last_timestamp'', JStr (isoformat final))]"

definition append_doc :: "sha \<Rightarrow> string \<Rightarrow> string \<Rightarrow> stamp \<Rightarrow> json \<Rightarrow> (string \<times> json) list \<Rightarrow> ('z registry_scheme, unit) op" where
  "append_doc sha src sid st doc meta g =
     (let (s, r) = append sha (fst st) (doc_entry src sid (fst st) (snd st) doc meta) (rg_fs g); g1 = g\<lparr>rg_fs := s\<rparr>
      in case r of Inr _ \<Rightarrow> (g1, Inr ()) | Inl OSError \<Rightarrow> (g1, Inr ()) | Inl err \<Rightarrow> (g1, Inl err))"

definition distill_entries :: "sha \<Rightarrow> stamp \<Rightarrow> collective_entry list \<Rightarrow> int \<Rightarrow> ('z collective_scheme, distillation) op" where
  "distill_entries sha st to_distill kept =
     sbind (of_res (join_strs (map ce_hash to_distill))) (\<lambda>hashes.
     sbind (of_res (py_sorted (remdups (map ce_agent_id to_distill)))) (\<lambda>agents g.
       let digest = sha hashes; n = int (length to_distill);
           doc = JObj (distill_doc n digest agents (concat (map ce_key_findings to_distill))
                   (ce_contributed_at (hd to_distill)) (ce_contributed_at (last to_distill)))
       in sbind (append_doc sha ''distiller'' (cs_shard_name g @ ''_distilled'') st doc [(''event_type'', JStr ''distillation'')])
            (\<lambda>_. ret \<lparr>di_distilled = n, di_kept = kept, di_digest_hash = digest\<rparr>) g))"

text \<open>A window bound of 0 stands for the threshold.\<close>

definition distill :: "sha \<Rightarrow> stamp \<Rightarrow> int \<Rightarrow> int option \<Rightarrow> ('z collective_scheme, distillation) op" where
  "distill sha st threshold max_entries =
     (let m = (case max_entries of None \<Rightarrow> threshold | Some n \<Rightarrow> if n = 0 then threshold else n) in
      sbind coll_ensure_index (\<lambda>index.
        let len = int (length index) in
        if len \<le> m then ret \<lparr>di_distilled = 0, di_kept = len, di_digest_hash = []\<rparr>
        else distill_entries sha st (py_take (len - m) index) (int (length (py_drop (len - m) index)))))"

section \<open>Digests of windows\<close>

record digest_entry =
  dg_digest_id :: json
  dg_level :: json
  dg_start_time :: datetime
  dg_end_time :: datetime
  dg_source_count :: json
  dg_source_hash :: json
  dg_key_events :: "json list"
  dg_agents_involved :: "json list"
  dg_metrics :: json

definition digests_shard :: "'z collective_scheme \<Rightarrow> string" where
  "digests_shard g = cs_shard_name g @ ''_digests''"

definition digest_id :: "int \<Rightarrow> datetime \<Rightarrow> string" where
  "digest_id level start = ''digest_L'' @ show_int level @ ''_'' @ stamp_minutes start"

definition in_closed_window :: "datetime \<Rightarrow> datetime \<Rightarrow> collective_entry \<Rightarrow> bool res" where
  "in_closed_window a b c =
     rbind (dt_le a (ce_contributed_at c)) (\<lambda>x. if x then dt_le (ce_contributed_at c) b else Inr False)"

definition in_window :: "datetime \<Rightarrow> datetime \<Rightarrow> collective_entry \<Rightarrow> bool res" where
  "in_window a b c =
     rbind (dt_le a (ce_contributed_at c)) (\<lambda>x. if x then dt_lt (ce_contributed_at c) b else Inr False)"

definition success_count :: "collective_entry list \<Rightarrow> int" where
  "success_count es = int (length (filter (\<lambda>c. ce_action_type c \<notin> {JStr ''error'', JStr ''failure''}) es))"

definition digest_of :: "sha \<Rightarrow> datetime \<Rightarrow> datetime \<Rightarrow> int \<Rightarrow> collective_entry list \<Rightarrow> digest_entry res" where
  "digest_of sha start stop level es =
     rbind (join_strs (map ce_hash es)) (\<lambda>hashes.
     rbind (py_sorted (remdups (map ce_agent_id es))) (\<lambda>agents.
       Inr \<lparr>dg_digest_id = JStr (digest_id level start), dg_level = JInt level, dg_start_time = start, dg_end_time = stop,
            dg_source_count = JInt (int (length es)), dg_source_hash = JStr (sha hashes),
            dg_key_events = take 30 (concat (map ce_key_findings es)), dg_agents_involved = agents,
            dg_metrics = JObj [(''success_rate'', JFloat (float_repr (ffrac (success_count es) (max (int (length es)) 1)))),
              (''entry_count'', JInt (int (length es)))]\<rparr>))"

definition digest_doc :: "digest_entry \<Rightarrow> (string \<times> json) list" where
  "digest_doc d =
     [(''event_type'', JStr ''digest''), (''digest_id'', dg_digest_id d), (''level'', dg_level d),
      (''start_time'', JStr (isoformat (dg_start_time d))), (''end_time'', JStr (isoformat (dg_end_time d))),
      (''source_count'', dg_source_count d), (''source_hash'', dg_source_hash d),
      (''key_events'', JList (dg_key_events d)), (''agents_involved'', JList (dg_agents_involved d)),
      (''metrics'', dg_metrics d)]"

definition digest_window :: "sha \<Rightarrow> stamp \<Rightarrow> datetime \<Rightarrow> datetime \<Rightarrow> int \<Rightarrow> ('z collective_scheme, digest_entry) op" where
  "digest_window sha st start stop level =
     sbind coll_ensure_index (\<lambda>index.
     sbind (of_res (filter_res (in_closed_window start stop) index)) (\<lambda>es.
     sbind (of_res (digest_of sha start stop level es)) (\<lambda>d g.
       sbind (append_doc sha ''digester'' (digests_shard g) st (JObj (digest_doc d))
                [(''event_type'', JStr ''digest''), (''level'', JInt level)]) (\<lambda>_. ret d) g)))"

section \<open>Pending windows\<close>

record window =
  wn_level :: int
  wn_label :: string
  wn_start :: datetime
  wn_end :: datetime
  wn_digest_id :: string

definition HOUR_US :: int where "HOUR_US = 3600000000"

definition LEVELS :: "(int \<times> int \<times> string) list" where
  "LEVELS = [(1, HOUR_US, ''hourly''), (2, DAY_US, ''daily''), (3, 7 * DAY_US, ''weekly''), (4, 30 * DAY_US, ''monthly'')]"

definition first_window :: "int \<Rightarrow> datetime \<Rightarrow> datetime res" where
  "first_window delta oldest =
     (if delta = HOUR_US then Inr (at_hour oldest)
      else if delta = DAY_US then Inr (at_midnight oldest)
      else if delta = 7 * DAY_US then rbind (dt_minus_days oldest (weekday oldest)) (\<lambda>d. Inr (at_midnight d))
      else Inr (at_month_start oldest))"

text \<open>What reading a document may raise that the loops skip.\<close>

definition skip_bad :: "'a option res \<Rightarrow> 'a option res" where
  "skip_bad r = (case r of Inl (KeyError _) \<Rightarrow> Inr None | Inl TypeError \<Rightarrow> Inr None | _ \<Rightarrow> r)"

definition stored_digest_id :: "entry \<Rightarrow> json option res" where
  "stored_digest_id e =
     (case content_json e of
        None \<Rightarrow> Inr None
      | Some data \<Rightarrow> skip_bad
          (rbind (jget ''event_type'' JNull data) (\<lambda>t.
             if t \<noteq> JStr ''digest'' then Inr None
             else rbind (jsub ''digest_id'' data) (\<lambda>i. rbind (hashable i) (\<lambda>_. Inr (Some i))))))"

definition existing_digest_ids :: "('z collective_scheme, json list) op" where
  "existing_digest_ids g =
     (let (s, r) = read (digests_shard g) 0 10000 (rg_fs g)
      in (g\<lparr>rg_fs := s\<rparr>, rbind r (\<lambda>entries. collect stored_digest_id (rev entries))))"

text \<open>
  The windows of one level from a start on. The second condition of the test holds for every
  valid time; it makes the recursion terminate on all arguments.
\<close>

function window_loop ::
    "json list \<Rightarrow> collective_entry list \<Rightarrow> datetime \<Rightarrow> int \<Rightarrow> int \<Rightarrow> string \<Rightarrow> datetime \<Rightarrow> window list res" where
  "window_loop existing index now level delta label start =
     rbind (dt_add start delta) (\<lambda>stop.
     rbind (dt_le stop now) (\<lambda>over.
       if \<not> (over \<and> instant start < instant stop) then Inr []
       else
         rbind (if JStr (digest_id level start) \<in> set existing then Inr False
                else any_res (in_window start stop) index) (\<lambda>pending.
         rbind (window_loop existing index now level delta label stop) (\<lambda>rest.
           Inr (if pending
                then \<lparr>wn_level = level, wn_label = label, wn_start = start, wn_end = stop, wn_digest_id = digest_id level start\<rparr> # rest
                else rest)))))"
  by pat_completeness auto
termination
  by (relation "measure (\<lambda>(ex, ix, now, l, delta, label, start). nat (instant now - instant start))") (auto simp: dt_le_def dt_minus_def split: if_splits)

declare window_loop.simps [simp del]

fun level_windows ::
    "json list \<Rightarrow> collective_entry list \<Rightarrow> datetime \<Rightarrow> (int \<times> int \<times> string) list \<Rightarrow> window list res" where
  "level_windows existing index now [] = Inr []"
| "level_windows existing index now ((level, delta, label) # ls) =
     rbind (first_window delta (ce_contributed_at (hd index))) (\<lambda>start.
     rbind (window_loop existing index now level delta label start) (\<lambda>ws.
     rbind (level_windows existing index now ls) (\<lambda>rest. Inr (ws @ rest))))"

definition pending_windows :: "datetime \<Rightarrow> ('z collective_scheme, window list) op" where
  "pending_windows now =
     sbind coll_ensure_index (\<lambda>index.
       if index = [] then ret []
       else sbind existing_digest_ids (\<lambda>existing. of_res (level_windows existing index now LEVELS)))"

fun roll_loop :: "sha \<Rightarrow> (nat \<Rightarrow> stamp) \<Rightarrow> nat \<Rightarrow> window list \<Rightarrow> ('z collective_scheme, digest_entry list) op" where
  "roll_loop sha stamps n [] = ret []"
| "roll_loop sha stamps n (w # ws) =
     sbind (digest_window sha (stamps n) (wn_start w) (wn_end w) (wn_level w)) (\<lambda>d.
     sbind (roll_loop sha stamps (Suc n) ws) (\<lambda>ds. ret (d # ds)))"

definition roll :: "sha \<Rightarrow> (nat \<Rightarrow> stamp) \<Rightarrow> datetime \<Rightarrow> int list \<Rightarrow> ('z collective_scheme, digest_entry list) op" where
  "roll sha stamps now levels =
     sbind (pending_windows now) (\<lambda>pending.
       roll_loop sha stamps 0 (if levels \<noteq> [] then filter (\<lambda>w. wn_level w \<in> set levels) pending else pending))"

section \<open>Loading a context\<close>

definition TOKENS_PER_ENTRY :: int where "TOKENS_PER_ENTRY = 300"
definition TOKENS_PER_DIGEST :: int where "TOKENS_PER_DIGEST = 80"

record context_stack =
  cx_recent :: "collective_entry list"
  cx_hourly :: "digest_entry list"
  cx_daily :: "digest_entry list"
  cx_weekly :: "digest_entry list"
  cx_total_tokens :: int
  cx_coverage :: string

text \<open>Newest entries first, as long as the whole cost of one fits.\<close>

fun select_recent :: "int \<Rightarrow> collective_entry list \<Rightarrow> collective_entry list \<times> int" where
  "select_recent budget [] = ([], budget)"
| "select_recent budget (c # cs) =
     (if budget - TOKENS_PER_ENTRY < 0 then ([], budget)
      else (let (es, b) = select_recent (budget - TOKENS_PER_ENTRY) cs in (c # es, b)))"

text \<open>A malformed time, a ValueError, is not among the errors the loop skips.\<close>

definition stored_digest :: "entry \<Rightarrow> digest_entry option res" where
  "stored_digest e =
     (case content_json e of
        None \<Rightarrow> Inr None
      | Some data \<Rightarrow> skip_bad
          (rbind (jget ''event_type'' JNull data) (\<lambda>t.
             if t \<noteq> JStr ''digest'' then Inr None
             else
               rbind (jsub ''digest_id'' data) (\<lambda>i.
               rbind (jsub ''level'' data) (\<lambda>l.
               rbind (rbind (jsub ''start_time'' data) iso_field) (\<lambda>st.
               rbind (rbind (jsub ''end_time'' data) iso_field) (\<lambda>en.
               rbind (jsub ''source_count'' data) (\<lambda>n.
               rbind (jsub ''source_hash'' data) (\<lambda>h.
               rbind (rbind (jget ''key_events'' (JList []) data) py_iter) (\<lambda>k.
               rbind (rbind (jget ''agents_involved'' (JList []) data) py_iter) (\<lambda>a.
               rbind (jget ''metrics'' (JObj []) data) (\<lambda>m.
                 Inr (Some \<lparr>dg_digest_id = i, dg_level = l, dg_start_time = st, dg_end_time = en, dg_source_count = n,
                   dg_source_hash = h, dg_key_events = k, dg_agents_involved = a, dg_metrics = m\<rparr>)))))))))))))"

fun affordable :: "int \<Rightarrow> digest_entry list \<Rightarrow> digest_entry list \<times> int" where
  "affordable budget [] = ([], budget)"
| "affordable budget (d # ds) =
     (if budget \<le> 0 then ([], budget)
      else (let (es, b) = affordable (budget - TOKENS_PER_DIGEST) ds in (d # es, b)))"

definition at_level :: "int \<Rightarrow> digest_entry list \<Rightarrow> digest_entry list" where
  "at_level l ds = filter (\<lambda>d. num_val (dg_level d) = Some (Fin (l * ONE))) ds"

definition coverage :: "datetime \<Rightarrow> collective_entry list \<Rightarrow> string res" where
  "coverage now selected =
     (if selected = [] then Inr ''no_recent''
      else
        rbind (dt_minus now (ce_contributed_at (last selected))) (\<lambda>span.
          let hours = fdiv (ffrac span 1000000) (fof_int 3600)
          in Inr (if hours < fof_int 24 then ''last_'' @ show_int (ftrunc hours) @ ''_hours''
             else ''last_'' @ show_int (ftrunc (fdiv hours (fof_int 24))) @ ''_days'')))"

definition read_with_digests :: "datetime \<Rightarrow> datetime \<Rightarrow> int \<Rightarrow> ('z collective_scheme, context_stack) op" where
  "read_with_digests now since_time max_tokens =
     sbind coll_ensure_index (\<lambda>index.
     sbind (of_res (filter_res (\<lambda>c. dt_le since_time (ce_contributed_at c)) index)) (\<lambda>recent_entries.
       let (selected, budget) = select_recent max_tokens (rev recent_entries) in
       sbind (\<lambda>g. let (s, r) = read (digests_shard g) 0 1000 (rg_fs g) in (g\<lparr>rg_fs := s\<rparr>, r)) (\<lambda>digest_entries.
       sbind (of_res (collect stored_digest (rev digest_entries))) (\<lambda>stored.
         let (taken, rest) = affordable budget stored in
         sbind (of_res (coverage now selected)) (\<lambda>cov.
           ret \<lparr>cx_recent = selected, cx_hourly = at_level 1 taken, cx_daily = at_level 2 taken,
                cx_weekly = at_level 3 taken, cx_total_tokens = max_tokens - rest, cx_coverage = cov\<rparr>)))))"

end
