(* ===== verification/Digest_Laws.thy ===== *)
theory Digest_Laws
  imports Digests Collective_Props
begin

text \<open>
  Laws of the rolling digester: the windows a level walks through, the digests written for
  them, and what is read back.
\<close>

section \<open>Windows\<close>

definition aware_index :: "collective_entry list \<Rightarrow> bool" where
  "aware_index ix = (\<forall>c \<in> set ix. tz (ce_contributed_at c) \<noteq> None)"

definition at_us :: "collective_entry \<Rightarrow> int" where
  "at_us c = instant (ce_contributed_at c)"

lemma dt_le_aware: "tz a \<noteq> None \<Longrightarrow> tz b \<noteq> None \<Longrightarrow> dt_le a b = Inr (instant a \<le> instant b)"
  by (simp add: dt_le_def dt_minus_def)

lemma dt_lt_aware: "tz a \<noteq> None \<Longrightarrow> tz b \<noteq> None \<Longrightarrow> dt_lt a b = Inr (instant a < instant b)"
  by (simp add: dt_lt_def dt_minus_def)

lemma in_window_aware:
  assumes "tz a \<noteq> None" "tz b \<noteq> None" "tz (ce_contributed_at c) \<noteq> None"
  shows "in_window a b c = Inr (instant a \<le> at_us c \<and> at_us c < instant b)"
    and "in_closed_window a b c = Inr (instant a \<le> at_us c \<and> at_us c \<le> instant b)"
  using assms by (simp_all add: in_window_def in_closed_window_def dt_le_aware dt_lt_aware at_us_def)

definition has_entry :: "collective_entry list \<Rightarrow> int \<Rightarrow> int \<Rightarrow> bool" where
  "has_entry ix a b = (\<exists>c \<in> set ix. a \<le> at_us c \<and> at_us c < b)"

lemma any_in_window:
  assumes "aware_index ix" and "tz a \<noteq> None" and "tz b \<noteq> None"
  shows "any_res (in_window a b) ix = Inr (has_entry ix (instant a) (instant b))"
  using assms any_res_Inr [of ix "in_window a b" "\<lambda>c. instant a \<le> at_us c \<and> at_us c < instant b"]
  by (simp add: aware_index_def in_window_aware has_entry_def)

text \<open>The arguments with which the code runs the loop, away from the end of the calendar.\<close>

definition walk_ok :: "collective_entry list \<Rightarrow> datetime \<Rightarrow> int \<Rightarrow> datetime \<Rightarrow> bool" where
  "walk_ok ix now delta start =
     (aware_index ix \<and> valid_dt now \<and> year now \<le> 9990 \<and> tz now \<noteq> None \<and> 0 < delta \<and> delta \<le> 30 * DAY_US \<and>
      valid_dt start \<and> tz start \<noteq> None \<and> instant start \<le> instant now)"

lemma window_stop:
  assumes "walk_ok ix now delta start"
  obtains stop where "dt_add start delta = Inr stop" and "instant stop = instant start + delta"
    and "valid_dt stop" and "tz stop \<noteq> None" and "dt_le stop now = Inr (instant start + delta \<le> instant now)"
    and "any_res (in_window start stop) ix = Inr (has_entry ix (instant start) (instant start + delta))"
    and "instant start + delta \<le> instant now \<Longrightarrow> walk_ok ix now delta stop"
proof -
  have w: "valid_dt start" "0 \<le> delta" "valid_dt now" "year now \<le> 9990" "tz start \<noteq> None" "tz now \<noteq> None" "aware_index ix"
    using assms by (simp_all add: walk_ok_def)
  have "instant start + delta \<le> instant now + 40 * DAY_US" using assms by (simp add: walk_ok_def DAY_US_def)
  then obtain stop where a: "dt_add start delta = Inr stop" using dt_add_ok [OF w(1-4)] by blast
  note s = dt_add_instant [OF w(1,2) a]
  have tz: "tz stop \<noteq> None" using s(3) w(5) by simp
  show thesis
    using that [OF a s(1,2) tz] any_in_window [OF w(7,5) tz] dt_le_aware [OF tz w(6)] s tz assms
    by (simp add: walk_ok_def)
qed

definition window_at :: "int \<Rightarrow> string \<Rightarrow> datetime \<Rightarrow> datetime \<Rightarrow> window" where
  "window_at level label start stop =
     \<lparr>wn_level = level, wn_label = label, wn_start = start, wn_end = stop, wn_digest_id = digest_id level start\<rparr>"

text \<open>One turn of the loop, without the condition that was added for termination.\<close>

lemma window_loop_turn:
  assumes "walk_ok ix now delta start" and "dt_add start delta = Inr stop"
  shows "window_loop existing ix now level delta label start =
    (if instant now < instant start + delta then Inr []
     else rbind (window_loop existing ix now level delta label stop) (\<lambda>rest.
       Inr (if JStr (digest_id level start) \<notin> set existing \<and> has_entry ix (instant start) (instant start + delta)
            then window_at level label start stop # rest else rest)))"
proof -
  obtain s where s: "dt_add start delta = Inr s" "instant s = instant start + delta"
    "dt_le s now = Inr (instant start + delta \<le> instant now)"
    "any_res (in_window start s) ix = Inr (has_entry ix (instant start) (instant start + delta))"
    using window_stop [OF assms(1)] by metis
  have "0 < delta" using assms(1) by (simp add: walk_ok_def)
  with s assms(2) show ?thesis unfolding window_at_def by (subst window_loop.simps) (auto simp: not_less)
qed

lemma walk_induct [consumes 1, case_names end_of turn]:
  assumes "walk_ok ix now delta start"
    and "\<And>start stop. walk_ok ix now delta start \<Longrightarrow> dt_add start delta = Inr stop \<Longrightarrow> instant now < instant start + delta \<Longrightarrow> P start"
    and "\<And>start stop. walk_ok ix now delta start \<Longrightarrow> dt_add start delta = Inr stop \<Longrightarrow> instant start + delta \<le> instant now \<Longrightarrow>
       instant stop = instant start + delta \<Longrightarrow> valid_dt stop \<Longrightarrow> tz stop \<noteq> None \<Longrightarrow> walk_ok ix now delta stop \<Longrightarrow> P stop \<Longrightarrow> P start"
  shows "P start"
  using assms(1)
proof (induction "nat (instant now - instant start)" arbitrary: start rule: less_induct)
  case less
  obtain stop where s: "dt_add start delta = Inr stop" "instant stop = instant start + delta" "valid_dt stop" "tz stop \<noteq> None"
    "instant start + delta \<le> instant now \<longrightarrow> walk_ok ix now delta stop"
    using window_stop [OF less.prems] by metis
  show ?case
  proof (cases "instant start + delta \<le> instant now")
    case True
    moreover have "0 < delta" using less.prems by (simp add: walk_ok_def)
    ultimately have "nat (instant now - instant stop) < nat (instant now - instant start)" using s(2) by simp
    with less.hyps s(5) True have "P stop" by blast
    with assms(3) [OF less.prems s(1) True s(2-4)] s(5) True show ?thesis by blast
  next
    case False
    then show ?thesis using assms(2) [OF less.prems s(1)] by simp
  qed
qed

definition good_window :: "collective_entry list \<Rightarrow> datetime \<Rightarrow> int \<Rightarrow> json list \<Rightarrow> int \<Rightarrow> window \<Rightarrow> bool" where
  "good_window ix now delta existing level w =
     (valid_dt (wn_start w) \<and> valid_dt (wn_end w) \<and> tz (wn_start w) \<noteq> None \<and> tz (wn_end w) \<noteq> None \<and> wn_level w = level \<and>
      wn_digest_id w = digest_id level (wn_start w) \<and> instant (wn_end w) = instant (wn_start w) + delta \<and>
      instant (wn_end w) \<le> instant now \<and> JStr (wn_digest_id w) \<notin> set existing \<and>
      has_entry ix (instant (wn_start w)) (instant (wn_end w)))"

lemma window_loop_returns:
  assumes "walk_ok ix now delta start"
  shows "\<exists>ws. window_loop existing ix now level delta label start = Inr ws \<and>
    (\<forall>w \<in> set ws. good_window ix now delta existing level w)"
  using assms
proof (induction rule: walk_induct)
  case (end_of start stop)
  then show ?case by (simp add: window_loop_turn)
next
  case (turn start stop)
  then obtain ws where ws: "window_loop existing ix now level delta label stop = Inr ws"
    "\<forall>w \<in> set ws. good_window ix now delta existing level w" by blast
  have "good_window ix now delta existing level (window_at level label start stop)"
    if "JStr (digest_id level start) \<notin> set existing" "has_entry ix (instant start) (instant start + delta)"
    using that turn(1,3-6) by (simp add: good_window_def window_at_def walk_ok_def)
  with ws turn(3) show ?case unfolding window_loop_turn [OF turn(1,2)] by auto
qed

text \<open>Once the digests of the pending windows exist, nothing is pending.\<close>

lemma window_loop_done:
  assumes "walk_ok ix now delta start" and "window_loop existing ix now level delta label start = Inr ws"
    and "set existing \<union> (\<lambda>w. JStr (wn_digest_id w)) ` set ws \<subseteq> set existing'"
  shows "window_loop existing' ix now level delta label start = Inr []"
  using assms
proof (induction arbitrary: ws rule: walk_induct)
  case (end_of start stop)
  then show ?case by (simp add: window_loop_turn)
next
  case (turn start stop)
  note t = window_loop_turn [OF turn(1,2)]
  obtain rest where r: "window_loop existing ix now level delta label stop = Inr rest"
    using window_loop_returns [OF turn(7)] by blast
  have ws: "ws = (if JStr (digest_id level start) \<notin> set existing \<and> has_entry ix (instant start) (instant start + delta)
            then window_at level label start stop # rest else rest)"
    using turn(9) turn(3) unfolding t r by auto
  then have "window_loop existing' ix now level delta label stop = Inr []"
    using turn(8) [OF r] turn(10) by (auto split: if_splits)
  moreover have "JStr (digest_id level start) \<in> set existing' \<or> \<not> has_entry ix (instant start) (instant start + delta)"
    using turn(10) ws by (auto simp: window_at_def split: if_splits)
  ultimately show ?case unfolding t using turn(3) by auto
qed

text \<open>No entry of a window that is over is forgotten.\<close>

lemma window_loop_covers:
  assumes "walk_ok ix now delta start" and "window_loop existing ix now level delta label start = Inr ws"
    and "c \<in> set ix" and "instant start \<le> at_us c" and "at_us c < instant start + delta * ((instant now - instant start) div delta)"
  shows "\<exists>a b. instant a \<le> at_us c \<and> at_us c < instant b \<and> instant b = instant a + delta \<and>
    (window_at level label a b \<in> set ws \<or> JStr (digest_id level a) \<in> set existing)"
  using assms
proof (induction arbitrary: ws rule: walk_induct)
  case (end_of start stop)
  have "0 < delta" using end_of(1) by (simp add: walk_ok_def)
  moreover have "0 \<le> instant now - instant start" "instant now - instant start < delta"
    using end_of(1,3) by (simp_all add: walk_ok_def)
  ultimately have "(instant now - instant start) div delta = 0" by (simp add: div_pos_pos_trivial)
  with end_of(6,7) show ?case by simp
next
  case (turn start stop)
  have d: "0 < delta" using turn(1) by (simp add: walk_ok_def)
  obtain rest where r: "window_loop existing ix now level delta label stop = Inr rest"
    using window_loop_returns [OF turn(7)] by blast
  have ws: "ws = (if JStr (digest_id level start) \<notin> set existing \<and> has_entry ix (instant start) (instant start + delta)
            then window_at level label start stop # rest else rest)"
    using turn(9) turn(3) unfolding window_loop_turn [OF turn(1,2)] r by auto
  show ?case
  proof (cases "at_us c < instant start + delta")
    case True
    then have "has_entry ix (instant start) (instant start + delta)" using turn(10,11) by (auto simp: has_entry_def)
    with ws True turn(4,11) show ?thesis by (intro exI [where x = start] exI [where x = stop]) auto
  next
    case False
    have "instant now - instant start = (instant now - instant stop) + delta" using turn(4) by simp
    then have "(instant now - instant start) div delta = (instant now - instant stop) div delta + 1"
      using d by (metis div_add_self2 less_irrefl)
    then have "at_us c < instant stop + delta * ((instant now - instant stop) div delta)"
      using turn(4,12) by (simp add: distrib_left)
    then obtain a b where "instant a \<le> at_us c" "at_us c < instant b" "instant b = instant a + delta"
      "window_at level label a b \<in> set rest \<or> JStr (digest_id level a) \<in> set existing"
      using turn(8) [OF r turn(10)] False turn(4) by fastforce
    with ws show ?thesis by (intro exI [where x = a] exI [where x = b]) auto
  qed
qed

section \<open>Stored digests\<close>

definition digest_records :: "entry \<Rightarrow> digest_entry \<Rightarrow> bool" where
  "digest_records e d =
     (wf_json (JObj (digest_doc d)) \<and> content_json e = Some (norm (JObj (digest_doc d))) \<and>
      (\<exists>i. dg_digest_id d = JStr i) \<and> valid_dt (dg_start_time d) \<and> valid_dt (dg_end_time d))"

text \<open>A digest as it is read back: the keys of nested dicts are sorted.\<close>

definition read_back :: "digest_entry \<Rightarrow> digest_entry" where
  "read_back d =
     \<lparr>dg_digest_id = dg_digest_id d, dg_level = norm (dg_level d), dg_start_time = dg_start_time d, dg_end_time = dg_end_time d,
      dg_source_count = norm (dg_source_count d), dg_source_hash = norm (dg_source_hash d),
      dg_key_events = map norm (dg_key_events d), dg_agents_involved = map norm (dg_agents_involved d),
      dg_metrics = norm (dg_metrics d)\<rparr>"

lemma digest_fields:
  assumes "wf_json (JObj (digest_doc d))"
  shows "jget k dflt (norm (JObj (digest_doc d))) = Inr (case dget k (digest_doc d) of None \<Rightarrow> dflt | Some v \<Rightarrow> norm v)"
    and "jsub k (norm (JObj (digest_doc d))) = (case dget k (digest_doc d) of None \<Rightarrow> Inl (KeyError k) | Some v \<Rightarrow> Inr (norm v))"
proof -
  show "jget k dflt (norm (JObj (digest_doc d))) = Inr (case dget k (digest_doc d) of None \<Rightarrow> dflt | Some v \<Rightarrow> norm v)"
    by (rule doc_field [OF assms])
  have "distinct (map fst (digest_doc d))" using assms by simp
  from dget_norm [OF this, of k]
  show "jsub k (norm (JObj (digest_doc d))) = (case dget k (digest_doc d) of None \<Rightarrow> Inl (KeyError k) | Some v \<Rightarrow> Inr (norm v))"
    by (auto split: option.splits)
qed

lemma stored_id:
  assumes "digest_records e d"
  shows "stored_digest_id e = Inr (Some (dg_digest_id d))" and "stored_digest e = Inr (Some (read_back d))"
proof -
  obtain i where d: "wf_json (JObj (digest_doc d))" "content_json e = Some (norm (JObj (digest_doc d)))" "dg_digest_id d = JStr i"
    "valid_dt (dg_start_time d)" "valid_dt (dg_end_time d)"
    using assms by (auto simp: digest_records_def)
  have g: "dget k (digest_doc d) =
    (if k = ''event_type'' then Some (JStr ''digest'') else if k = ''digest_id'' then Some (dg_digest_id d)
     else if k = ''level'' then Some (dg_level d) else if k = ''start_time'' then Some (JStr (isoformat (dg_start_time d)))
     else if k = ''end_time'' then Some (JStr (isoformat (dg_end_time d))) else if k = ''source_count'' then Some (dg_source_count d)
     else if k = ''source_hash'' then Some (dg_source_hash d) else if k = ''key_events'' then Some (JList (dg_key_events d))
     else if k = ''agents_involved'' then Some (JList (dg_agents_involved d)) else if k = ''metrics'' then Some (dg_metrics d)
     else None)" for k
    by (simp add: digest_doc_def)
  note f = digest_fields [OF d(1)]
  show "stored_digest_id e = Inr (Some (dg_digest_id d))"
    using d(3) by (simp add: stored_digest_id_def d(2) f g skip_bad_def del: norm.simps(2))
  show "stored_digest e = Inr (Some (read_back d))"
    using d(3,4,5) by (simp add: stored_digest_def d(2) f g skip_bad_def read_back_def py_iter_def iso_field_def del: norm.simps(2))
qed

lemma collect_stored:
  assumes "list_all2 digest_records es ds"
  shows "collect stored_digest_id es = Inr (map dg_digest_id ds)" and "collect stored_digest es = Inr (map read_back ds)"
  using assms by (induction rule: list_all2_induct) (simp_all add: stored_id)

section \<open>Writing digests\<close>

definition digests_inv :: "sha \<Rightarrow> entry list \<Rightarrow> digest_entry list \<Rightarrow> 'z collective_scheme \<Rightarrow> bool" where
  "digests_inv sha fs ds g =
     (shard_inv sha (digests_shard g) (rg_fs g) fs \<and> list_all2 digest_records fs ds \<and>
      family_name (digests_shard g) \<noteq> family_name (cs_shard_name g))"

definition texts :: "collective_entry list \<Rightarrow> bool" where
  "texts ix = (\<forall>c \<in> set ix. (\<exists>h. ce_hash c = JStr h) \<and> (\<exists>a. ce_agent_id c = JStr a) \<and> list_all wf_json (ce_key_findings c))"

lemma coll_texts:
  assumes "coll_inv sha es cs g"
  shows "texts (newest w cs)"
proof -
  have "list_all2 coll_records es cs" using assms by (simp add: coll_inv_def)
  then have "\<forall>c \<in> set cs. \<exists>e. coll_records e c" by (fastforce simp: in_set_conv_nth list_all2_conv_all_nth)
  moreover have "(\<exists>h. ce_hash c = JStr h) \<and> (\<exists>a. ce_agent_id c = JStr a) \<and> list_all wf_json (ce_key_findings c)"
    if "coll_records e c" for e c
    using that by (auto simp: coll_records_def projection_doc_def list_all_iff)
  ultimately show ?thesis unfolding texts_def using set_newest [of w cs] by blast
qed

lemma texts_strings:
  "texts ix \<Longrightarrow> \<exists>hs as. map ce_hash ix = map JStr hs \<and> map ce_agent_id ix = map JStr as"
proof (induction ix)
  case (Cons c ix)
  then obtain hs as h a where "map ce_hash ix = map JStr hs" "map ce_agent_id ix = map JStr as" "ce_hash c = JStr h" "ce_agent_id c = JStr a"
    by (auto simp: texts_def)
  then show ?case by (intro exI [where x = "h # hs"] exI [where x = "a # as"]) simp
qed auto

lemma digest_of_ok:
  assumes "texts ix"
  shows "\<exists>d. digest_of sha start stop level ix = Inr d \<and> wf_json (JObj (digest_doc d)) \<and> dg_digest_id d = JStr (digest_id level start) \<and>
    dg_start_time d = start \<and> dg_end_time d = stop \<and> dg_level d = JInt level \<and> dg_source_count d = JInt (int (length ix))"
proof -
  obtain hs as where t: "map ce_hash ix = map JStr hs" "map ce_agent_id ix = map JStr as" using texts_strings [OF assms] by blast
  have "remdups (map JStr as) = map JStr (remdups as)" by (induction as) auto
  then have a: "py_sorted (remdups (map ce_agent_id ix)) = Inr (map JStr (sort (remdups as)))" using t(2) by (simp add: py_sorted_strings)
  have "0 \<le> ffrac (success_count ix) (max (int (length ix)) 1)"
    by (rule Pyfloat.ffrac_nonneg) (simp_all add: success_count_def)
  then have "float_lex (float_repr (ffrac (success_count ix) (max (int (length ix)) 1)))" by simp
  moreover have "list_all wf_json (take 30 (concat (map ce_key_findings ix)))"
    using assms set_take_subset [of 30 "concat (map ce_key_findings ix)"] by (fastforce simp: list_all_iff texts_def)
  ultimately show ?thesis unfolding digest_of_def t(1) a by (simp add: digest_doc_def list_all_iff)
qed

lemma digest_of_id: "digest_of sha start stop level es = Inr d \<Longrightarrow> dg_digest_id d = JStr (digest_id level start)"
  unfolding digest_of_def by (auto simp: Verify_Laws.rbind_Inr)

lemma append_doc_inv:
  assumes inv: "shard_inv sha sid (rg_fs g) fs" and "sid \<noteq> []" and "valid_dt (fst st)" and "wf_json doc" and "meta_ok meta"
  shows "\<exists>s r. append_doc sha src sid st doc meta g = (g\<lparr>rg_fs := s\<rparr>, Inr ()) \<and>
    doc_written sha sid (rg_fs g) fs (fst st) doc s r"
proof -
  obtain s e r where "append sha (fst st) (doc_entry src sid (fst st) (snd st) doc meta) (rg_fs g) = (s, Inr e)"
    "doc_written sha sid (rg_fs g) fs (fst st) doc s r"
    using doc_append [OF assms, of src "snd st"] by blast
  then show ?thesis by (auto simp: append_doc_def)
qed

lemma digest_meta_ok: "meta_ok [(''event_type'', JStr ''digest''), (''level'', JInt level)]"
  by (simp add: meta_ok_def)

text \<open>What a digest operation may change.\<close>

definition filled :: "'z collective_scheme \<Rightarrow> 'z collective_scheme \<Rightarrow> bool" where
  "filled g g' = (cs_shard_name g' = cs_shard_name g \<and> cs_window_size g' = cs_window_size g)"

lemma digest_window_inv:
  assumes inv: "coll_inv sha es cs g" and dig: "digests_inv sha fs ds g" and t: "valid_dt (fst st)"
    and aw: "aware_index (newest (cs_window_size g) cs)" and w: "valid_dt start" "valid_dt stop" "tz start \<noteq> None" "tz stop \<noteq> None"
  shows "\<exists>g' d r. digest_window sha st start stop level g = (g', Inr d) \<and> coll_inv sha es cs g' \<and> filled g g' \<and>
    digests_inv sha (fs @ [r]) (ds @ [d]) g' \<and>
    digest_of sha start stop level (filter (\<lambda>c. instant start \<le> at_us c \<and> at_us c \<le> instant stop) (newest (cs_window_size g) cs)) = Inr d"
proof -
  let ?ix = "newest (cs_window_size g) cs"
  let ?es = "filter (\<lambda>c. instant start \<le> at_us c \<and> at_us c \<le> instant stop) ?ix"
  obtain l where l: "coll_ensure_index g = (g\<lparr>cs_index := Some ?ix, cs_last_contribution := l\<rparr>, Inr ?ix)"
    and m: "index_matches ?ix l ?ix" using coll_ensure_inv [OF inv] by blast
  let ?g1 = "g\<lparr>cs_index := Some ?ix, cs_last_contribution := l\<rparr>"
  have i1: "coll_inv sha es cs ?g1" by (rule coll_inv_filled [OF inv m])
  have f: "filter_res (in_closed_window start stop) ?ix = Inr ?es"
    by (rule filter_res_Inr) (use aw w in \<open>simp add: aware_index_def in_window_aware\<close>)
  have "texts ?es" using coll_texts [OF inv, of "cs_window_size g"] by (simp add: texts_def)
  from digest_of_ok [OF this, of sha start stop level] obtain d where d: "digest_of sha start stop level ?es = Inr d"
    "wf_json (JObj (digest_doc d))" "dg_digest_id d = JStr (digest_id level start)" "dg_start_time d = start" "dg_end_time d = stop"
    by blast
  have sid: "digests_shard g \<noteq> []" by (simp add: digests_shard_def)
  have sh: "shard_inv sha (digests_shard g) (rg_fs g) fs" "list_all2 digest_records fs ds"
    "family_name (digests_shard g) \<noteq> family_name (cs_shard_name g)" using dig by (simp_all add: digests_inv_def)
  have "shard_inv sha (digests_shard g) (rg_fs ?g1) fs" using sh(1) by simp
  from append_doc_inv [OF this sid t d(2) digest_meta_ok, of "''digester''" level] obtain s r where
    a: "append_doc sha ''digester'' (digests_shard g) st (JObj (digest_doc d)) [(''event_type'', JStr ''digest''), (''level'', JInt level)] ?g1
      = (?g1\<lparr>rg_fs := s\<rparr>, Inr ())"
    and wr: "doc_written sha (digests_shard g) (rg_fs g) fs (fst st) (JObj (digest_doc d)) s r" by auto
  let ?g2 = "?g1\<lparr>rg_fs := s\<rparr>"
  have n: "digests_shard ?g1 = digests_shard g" "digests_shard ?g2 = digests_shard g" by (simp_all add: digests_shard_def)
  have "digest_window sha st start stop level g = (?g2, Inr d)"
    using l f d(1) a n by (simp add: digest_window_def sbind_def of_res_def)
  moreover have "coll_inv sha es cs ?g2"
    using i1 wr sh(3) by (auto simp: coll_inv_def doc_written_def others_kept_def)
  moreover have "digest_records r d" using wr d(2-5) w by (simp add: digest_records_def doc_written_def del: norm.simps)
  then have "digests_inv sha (fs @ [r]) (ds @ [d]) ?g2"
    using sh wr n by (simp add: digests_inv_def doc_written_def list_all2_appendI)
  ultimately show ?thesis using d(1) by (intro exI [where x = ?g2] exI [where x = d] exI [where x = r]) (simp add: filled_def)
qed

definition rollable :: "window \<Rightarrow> bool" where
  "rollable w =
     (valid_dt (wn_start w) \<and> valid_dt (wn_end w) \<and> tz (wn_start w) \<noteq> None \<and> tz (wn_end w) \<noteq> None \<and>
      wn_digest_id w = digest_id (wn_level w) (wn_start w))"

lemma good_rollable: "good_window ix now delta ex level w \<Longrightarrow> rollable w"
  by (simp add: good_window_def rollable_def)

lemma filled_trans: "filled g g' \<Longrightarrow> filled g' g'' \<Longrightarrow> filled g g''"
  by (simp add: filled_def)

lemma roll_loop_inv:
  assumes "coll_inv sha es cs g" and "digests_inv sha fs ds g" and "\<forall>n. valid_dt (fst (stamps n))"
    and "aware_index (newest (cs_window_size g) cs)" and "\<forall>w \<in> set ws. rollable w"
  shows "\<exists>g' new rs. roll_loop sha stamps n ws g = (g', Inr new) \<and> coll_inv sha es cs g' \<and> filled g g' \<and>
    digests_inv sha (fs @ rs) (ds @ new) g' \<and> map dg_digest_id new = map (\<lambda>w. JStr (wn_digest_id w)) ws"
  using assms
proof (induction ws arbitrary: g n fs ds)
  case Nil
  then show ?case by (intro exI [where x = g] exI [where x = "[]"]) (simp add: filled_def)
next
  case (Cons w ws)
  have w: "valid_dt (wn_start w)" "valid_dt (wn_end w)" "tz (wn_start w) \<noteq> None" "tz (wn_end w) \<noteq> None"
    "wn_digest_id w = digest_id (wn_level w) (wn_start w)" using Cons.prems(5) by (simp_all add: rollable_def)
  have tn: "valid_dt (fst (stamps n))" using Cons.prems(3) by simp
  obtain g1 d r where d: "digest_window sha (stamps n) (wn_start w) (wn_end w) (wn_level w) g = (g1, Inr d)"
    and i: "coll_inv sha es cs g1" "filled g g1" "digests_inv sha (fs @ [r]) (ds @ [d]) g1"
    and o: "digest_of sha (wn_start w) (wn_end w) (wn_level w)
      (filter (\<lambda>c. instant (wn_start w) \<le> at_us c \<and> at_us c \<le> instant (wn_end w)) (newest (cs_window_size g) cs)) = Inr d"
    using digest_window_inv [OF Cons.prems(1,2) tn Cons.prems(4) w(1-4)] by blast
  have id: "dg_digest_id d = JStr (wn_digest_id w)" using digest_of_id [OF o] w(5) by simp
  have "aware_index (newest (cs_window_size g1) cs)" "\<forall>w \<in> set ws. rollable w"
    using Cons.prems(4,5) i(2) by (simp_all add: filled_def)
  from Cons.IH [OF i(1,3) Cons.prems(3) this, of "Suc n"] obtain g2 new rs where
    q: "roll_loop sha stamps (Suc n) ws g1 = (g2, Inr new)" "coll_inv sha es cs g2" "filled g1 g2"
      "digests_inv sha ((fs @ [r]) @ rs) ((ds @ [d]) @ new) g2" "map dg_digest_id new = map (\<lambda>w. JStr (wn_digest_id w)) ws"
    by blast
  with d i(2) id filled_trans show ?case
    by (intro exI [where x = g2] exI [where x = "d # new"] exI [where x = "r # rs"]) (auto simp: sbind_def)
qed

section \<open>Pending windows\<close>

text \<open>The alignment of the oldest entry to the levels.\<close>

lemma first_window_ok:
  assumes "valid_dt d" and "2 \<le> year d" and "tz d \<noteq> None" and "(level, delta, label) \<in> set LEVELS"
  shows "\<exists>s. first_window delta d = Inr s \<and> valid_dt s \<and> tz s \<noteq> None \<and> instant s \<le> instant d"
proof -
  obtain e where e: "dt_minus_days d (weekday d) = Inr e" "valid_dt e" "tz e = tz d" "instant e \<le> instant d"
    using dt_minus_days_ok [OF assms(1,2)] by blast
  have "instant (at_midnight e) \<le> instant d" using round_down(5) [OF e(2)] e(4) by linarith
  then show ?thesis
    using round_down [OF assms(1)] round_down [OF e(2)] e assms(3,4)
    by (auto simp: first_window_def LEVELS_def HOUR_US_def DAY_US_def)
qed

definition calendar_ok :: "collective_entry list \<Rightarrow> datetime \<Rightarrow> bool" where
  "calendar_ok ix now =
     (aware_index ix \<and> valid_dt now \<and> year now \<le> 9990 \<and> tz now \<noteq> None \<and>
      (ix \<noteq> [] \<longrightarrow> valid_dt (ce_contributed_at (hd ix)) \<and> 2 \<le> year (ce_contributed_at (hd ix)) \<and> at_us (hd ix) \<le> instant now))"

lemma level_walk:
  assumes "calendar_ok ix now" and "ix \<noteq> []" and "(level, delta, label) \<in> set LEVELS"
  shows "\<exists>s. first_window delta (ce_contributed_at (hd ix)) = Inr s \<and> walk_ok ix now delta s"
proof -
  have "tz (ce_contributed_at (hd ix)) \<noteq> None" using assms(1,2) by (simp add: calendar_ok_def aware_index_def)
  then obtain s where "first_window delta (ce_contributed_at (hd ix)) = Inr s" "valid_dt s" "tz s \<noteq> None"
    "instant s \<le> instant (ce_contributed_at (hd ix))"
    using first_window_ok [OF _ _ _ assms(3)] assms(1,2) unfolding calendar_ok_def by blast
  moreover have "0 < delta \<and> delta \<le> 30 * DAY_US" using assms(3) by (auto simp: LEVELS_def HOUR_US_def DAY_US_def)
  ultimately show ?thesis using assms(1,2) by (auto simp: walk_ok_def calendar_ok_def at_us_def)
qed

lemma level_windows_ok:
  assumes "calendar_ok ix now" and "ix \<noteq> []" and "set ls \<subseteq> set LEVELS"
  shows "\<exists>ws. level_windows ex ix now ls = Inr ws \<and> (\<forall>w \<in> set ws. rollable w) \<and>
    (\<forall>ex'. set ex \<union> (\<lambda>w. JStr (wn_digest_id w)) ` set ws \<subseteq> set ex' \<longrightarrow> level_windows ex' ix now ls = Inr [])"
  using assms(3)
proof (induction ls)
  case (Cons l ls)
  obtain level delta label where l: "l = (level, delta, label)" by (cases l)
  then obtain s where s: "first_window delta (ce_contributed_at (hd ix)) = Inr s" "walk_ok ix now delta s"
    using level_walk [OF assms(1,2)] Cons.prems by fastforce
  obtain vs where v: "window_loop ex ix now level delta label s = Inr vs" "\<forall>w \<in> set vs. good_window ix now delta ex level w"
    using window_loop_returns [OF s(2)] by blast
  obtain ws where w: "level_windows ex ix now ls = Inr ws" "\<forall>w \<in> set ws. rollable w"
    "\<forall>ex'. set ex \<union> (\<lambda>w. JStr (wn_digest_id w)) ` set ws \<subseteq> set ex' \<longrightarrow> level_windows ex' ix now ls = Inr []"
    using Cons by auto
  have "\<forall>w \<in> set vs. rollable w" using v(2) good_rollable by blast
  moreover have "window_loop ex' ix now level delta label s = Inr []"
    if "set ex \<union> (\<lambda>w. JStr (wn_digest_id w)) ` set vs \<subseteq> set ex'" for ex'
    using window_loop_done [OF s(2) v(1) that] .
  ultimately show ?case using l s(1) v(1) w by (auto simp: image_Un)
qed simp

end
