(* ===== verification/Digest_Props.thy ===== *)
theory Digest_Props
  imports Digest_Laws
begin

text \<open>
  Properties of the readers that work within a budget of tokens, and of the rolling digester:
  what a budget buys, that the walk through the windows returns and forgets no entry, and
  that rolling once leaves nothing to roll.
\<close>

section \<open>Budgets\<close>

lemma tier_token_mono: "0 \<le> t \<Longrightarrow> tier_token_estimate t \<le> tier_token_estimate (t + 1)"
  by (simp add: tier_token_estimate_def)

text \<open>The tier that is found is the highest one, from the given one down, that fits.\<close>

lemma downgrade_tier:
  assumes "0 \<le> tier"
  shows "\<exists>t. downgrade n budget (n * tier_token_estimate tier) tier = (n * tier_token_estimate t, t) \<and> 0 \<le> t \<and> t \<le> tier \<and>
    (0 < t \<longrightarrow> n * tier_token_estimate t \<le> budget) \<and> (t < tier \<longrightarrow> budget < n * tier_token_estimate (t + 1))"
  using assms
proof (induction "nat tier" arbitrary: tier rule: less_induct)
  case less
  note d = downgrade.simps [of n budget "n * tier_token_estimate tier" tier]
  show ?case
  proof (cases "budget < n * tier_token_estimate tier \<and> 0 < tier")
    case True
    then obtain t where "downgrade n budget (n * tier_token_estimate (tier - 1)) (tier - 1) = (n * tier_token_estimate t, t)"
      "0 \<le> t" "t \<le> tier - 1" "0 < t \<longrightarrow> n * tier_token_estimate t \<le> budget"
      "t < tier - 1 \<longrightarrow> budget < n * tier_token_estimate (t + 1)"
      using less.hyps [of "tier - 1"] less.prems by auto
    with True d show ?thesis by (intro exI [where x = t]) (cases "t = tier - 1", auto)
  next
    case False
    with d less.prems show ?thesis by (intro exI [where x = tier]) auto
  qed
qed

lemma fit_budget_fits:
  assumes "0 \<le> tier" and "30 \<le> budget" and "entries \<noteq> []"
  shows "\<exists>t k. fit_budget tier (Some budget) entries = (t, take k entries) \<and> 0 < k \<and> 0 \<le> t \<and> t \<le> tier \<and>
    int (length (take k entries)) * tier_token_estimate t \<le> budget \<and>
    (t < tier \<longrightarrow> budget < int (length entries) * tier_token_estimate (t + 1)) \<and>
    (k < length entries \<longrightarrow> t = 0 \<and> budget < int (k + 1) * tier_token_estimate 0)"
proof -
  let ?n = "int (length entries)"
  obtain t where t: "downgrade ?n budget (?n * tier_token_estimate tier) tier = (?n * tier_token_estimate t, t)" "0 \<le> t" "t \<le> tier"
    "0 < t \<longrightarrow> ?n * tier_token_estimate t \<le> budget" "t < tier \<longrightarrow> budget < ?n * tier_token_estimate (t + 1)"
    using downgrade_tier [OF assms(1)] by blast
  show ?thesis
  proof (cases "budget < ?n * tier_token_estimate t")
    case True
    then have z: "t = 0" using t(2,4) by force
    have 30: "tier_token_estimate 0 = 30" by (simp add: tier_token_estimate_def)
    let ?k = "nat (budget div 30)"
    have k: "1 \<le> budget div 30" "30 * (budget div 30) \<le> budget" "budget < 30 * (budget div 30) + 30" using assms(2) by linarith+
    then have "fit_budget tier (Some budget) entries = (t, take ?k entries)"
      using True t(1) by (simp add: fit_budget_def 30 py_take_def max_def)
    moreover have "int (length (take ?k entries)) \<le> budget div 30" using k(1) by simp
    then have "int (length (take ?k entries)) * 30 \<le> budget" using k(2) by linarith
    moreover have "budget < int (?k + 1) * 30" using k by simp
    ultimately show ?thesis using z k t 30 by (intro exI [where x = t] exI [where x = ?k]) auto
  next
    case False
    then show ?thesis using t assms(3)
      by (intro exI [where x = t] exI [where x = "length entries"]) (simp add: fit_budget_def)
  qed
qed

text \<open>
  Reading at a resolution within a budget. With a budget of at least thirty tokens,
  \<open>recent_at_tier\<close> returns documents whose estimated cost fits, all at one tier, which is
  the highest one, up to the tier asked for, at which all selected entries fit; only at
  tier 0 are entries left out, as few as possible and the oldest ones, and a selection with
  entries never comes back empty.
\<close>

theorem tier_budget:
  assumes inv: "coll_inv sha es cs g" and "0 \<le> tier" and "30 \<le> budget"
    and sel: "sel = py_take limit (filter (\<lambda>c. named agent \<longrightarrow> ce_agent_id c = JStr (the agent)) (rev (newest (cs_window_size g) cs)))"
    and ne: "sel \<noteq> []"
  shows "\<exists>g' t k. recent_at_tier tier limit (Some budget) agent g = (g', Inr (map (at_tier t) (take k sel))) \<and>
    coll_inv sha es cs g' \<and> 0 < k \<and> 0 \<le> t \<and> t \<le> tier \<and>
    int (length (take k sel)) * tier_token_estimate t \<le> budget \<and>
    (t < tier \<longrightarrow> budget < int (length sel) * tier_token_estimate (t + 1)) \<and>
    (k < length sel \<longrightarrow> t = 0 \<and> budget < int (k + 1) * tier_token_estimate 0)"
proof -
  let ?ix = "newest (cs_window_size g) cs"
  obtain l where l: "coll_ensure_index g = (g\<lparr>cs_index := Some ?ix, cs_last_contribution := l\<rparr>, Inr ?ix)"
    and m: "index_matches ?ix l ?ix" using coll_ensure_inv [OF inv] by blast
  let ?g1 = "g\<lparr>cs_index := Some ?ix, cs_last_contribution := l\<rparr>"
  obtain t k where t: "fit_budget tier (Some budget) sel = (t, take k sel)" "0 < k" "0 \<le> t" "t \<le> tier"
    "int (length (take k sel)) * tier_token_estimate t \<le> budget"
    "t < tier \<longrightarrow> budget < int (length sel) * tier_token_estimate (t + 1)"
    "k < length sel \<longrightarrow> t = 0 \<and> budget < int (k + 1) * tier_token_estimate 0"
    using fit_budget_fits [OF assms(2,3) ne] by blast
  have "recent limit agent None g = (?g1, Inr sel)"
    using l sel by (cases "named agent") (simp_all add: recent_def sbind_def Let_def named_def [of None])
  then have "recent_at_tier tier limit (Some budget) agent g = (?g1, Inr (map (at_tier t) (take k sel)))"
    using t(1) ne by (simp add: recent_at_tier_def sbind_def)
  with coll_inv_filled [OF inv m] t show ?thesis by (intro exI [where x = ?g1] exI [where x = t] exI [where x = k]) simp
qed

theorem tier_budget_witness:
  "\<exists>(g :: collective) g' c d. recent_at_tier 2 50 (Some 100) None g = (g', Inr [at_tier 0 c, at_tier 0 d])"
proof -
  obtain es c1 c2 and g :: collective where g: "coll_inv (\<lambda>m. m) es [c1, c2] g" "cs_window_size g = 500" using sample_collective by blast
  have n: "newest (cs_window_size g) [c1, c2] = [c1, c2]" using g(2) by (simp add: newest_all)
  have s: "[c2, c1] = py_take 50 (filter (\<lambda>c. named None \<longrightarrow> ce_agent_id c = JStr (the None)) (rev (newest (cs_window_size g) [c1, c2])))"
    by (simp add: n named_def py_take_def)
  obtain g' t k where p: "recent_at_tier 2 50 (Some 100) None g = (g', Inr (map (at_tier t) (take k [c2, c1])))"
    "0 \<le> t" "t \<le> 2" "int (length (take k [c2, c1])) * tier_token_estimate t \<le> 100"
    "k < length [c2, c1] \<longrightarrow> t = 0 \<and> 100 < int (k + 1) * tier_token_estimate 0"
    using tier_budget [OF g(1) _ _ s, of 2 100] by auto
  have k: "take k [c2, c1] = [c2, c1]" using p(5) by (cases "k < 2") (auto simp: tier_token_estimate_def)
  then have "tier_token_estimate t \<le> 50" using p(4) by simp
  then have "t = 0" using p(2,3) by (simp add: tier_token_estimate_def split: if_splits)
  with p(1) k show ?thesis by auto
qed

text \<open>What the two loops take, in closed form.\<close>

lemma select_recent_take:
  "select_recent b es = (take (nat (b div 300)) es, b - 300 * int (min (length es) (nat (b div 300))))"
proof (induction es arbitrary: b)
  case (Cons c es)
  show ?case
  proof (cases "b < 300")
    case True
    then have "b div 300 \<le> 0" by linarith
    with True show ?thesis by (simp add: TOKENS_PER_ENTRY_def)
  next
    case False
    then have "nat (b div 300) = Suc (nat ((b - 300) div 300))" by linarith
    with False Cons [of "b - 300"] show ?thesis by (simp add: TOKENS_PER_ENTRY_def min_def)
  qed
qed simp

lemma affordable_take:
  "affordable b ds = (take (nat ((b + 79) div 80)) ds, b - 80 * int (min (length ds) (nat ((b + 79) div 80))))"
proof (induction ds arbitrary: b)
  case (Cons d ds)
  show ?case
  proof (cases "b \<le> 0")
    case True
    then have "(b + 79) div 80 \<le> 0" by linarith
    with True show ?thesis by simp
  next
    case False
    then have "nat ((b + 79) div 80) = Suc (nat ((b - 80 + 79) div 80))" by linarith
    with False Cons [of "b - 80"] show ?thesis by (simp add: TOKENS_PER_DIGEST_def min_def)
  qed
qed simp

text \<open>
  C25: loading a context. \<open>read_with_digests\<close> takes the newest entries since the given
  time, 300 tokens each, as many as fit whole, and then stored digests, the oldest ones of
  the newest thousand first, 80 tokens each, while anything of the budget is left. So the
  reported total is what these cost and may be up to 79 tokens above the budget; and it
  counts the digests of level 4, which no field of the result returns.
\<close>

theorem context_budget:
  assumes inv: "coll_inv sha es cs g" and dig: "digests_inv sha fs ds g" and tz: "tz since_time \<noteq> None" "tz now \<noteq> None"
    and aw: "aware_index (newest (cs_window_size g) cs)"
    and rs: "rs = rev (filter (\<lambda>c. instant since_time \<le> at_us c) (newest (cs_window_size g) cs))"
    and k: "k = min (length rs) (nat (max_tokens div 300))"
    and st: "stored = map read_back (newest 1000 ds)"
    and m: "m = min (length stored) (nat ((max_tokens - 300 * int k + 79) div 80))"
  shows "\<exists>g' cx. read_with_digests now since_time max_tokens g = (g', Inr cx) \<and> coll_inv sha es cs g' \<and> digests_inv sha fs ds g' \<and>
    cx_recent cx = take k rs \<and>
    cx_hourly cx = at_level 1 (take m stored) \<and> cx_daily cx = at_level 2 (take m stored) \<and> cx_weekly cx = at_level 3 (take m stored) \<and>
    cx_total_tokens cx = 300 * int k + 80 * int m \<and> (0 \<le> max_tokens \<longrightarrow> cx_total_tokens cx \<le> max_tokens + 79) \<and>
    (int (length stored) * 80 \<ge> max_tokens \<longrightarrow> max_tokens \<le> cx_total_tokens cx)"
proof -
  let ?ix = "newest (cs_window_size g) cs"
  let ?rs = "filter (\<lambda>c. instant since_time \<le> at_us c) ?ix"
  obtain l where l: "coll_ensure_index g = (g\<lparr>cs_index := Some ?ix, cs_last_contribution := l\<rparr>, Inr ?ix)"
    and mt: "index_matches ?ix l ?ix" using coll_ensure_inv [OF inv] by blast
  let ?g1 = "g\<lparr>cs_index := Some ?ix, cs_last_contribution := l\<rparr>"
  have n: "digests_shard ?g1 = digests_shard g" by (simp add: digests_shard_def)
  have i1: "coll_inv sha es cs ?g1" by (rule coll_inv_filled [OF inv mt])
  have d1: "digests_inv sha fs ds ?g1" using dig n by (simp add: digests_inv_def)
  have f: "filter_res (\<lambda>c. dt_le since_time (ce_contributed_at c)) ?ix = Inr ?rs"
    by (rule filter_res_Inr) (use aw tz in \<open>simp add: aware_index_def dt_le_aware at_us_def\<close>)
  have r: "read (digests_shard g) 0 1000 (rg_fs g) = (rg_fs g, Inr (take (nat (max 1 1000)) (rev fs)))"
    using read_inv [of sha "digests_shard g" "rg_fs g" fs 0 1000] dig inv by (simp add: digests_inv_def coll_inv_def)
  have "list_all2 digest_records (newest 1000 fs) (newest 1000 ds)" using dig newest_records by (auto simp: digests_inv_def)
  then have c: "collect stored_digest (newest 1000 fs) = Inr stored" using collect_stored(2) st by blast
  have s: "select_recent max_tokens (rev ?rs) = (take k rs, max_tokens - 300 * int k)"
    unfolding select_recent_take using rs k by (simp add: min_def)
  have a: "affordable (max_tokens - 300 * int k) stored = (take m stored, max_tokens - 300 * int k - 80 * int m)"
    unfolding affordable_take using m by (simp add: min_def)
  have "\<exists>cov. coverage now (take k rs) = Inr cov"
  proof (cases "take k rs = []")
    case False
    have "set (take k rs) \<subseteq> set ?ix" using rs by (auto dest: in_set_takeD)
    then have "last (take k rs) \<in> set ?ix" using last_in_set [OF False] by blast
    with aw tz(2) False show ?thesis by (simp add: coverage_def aware_index_def dt_minus_def Let_def)
  qed (simp add: coverage_def)
  then obtain cov where cov: "coverage now (take k rs) = Inr cov" by blast
  let ?cx = "\<lparr>cx_recent = take k rs, cx_hourly = at_level 1 (take m stored), cx_daily = at_level 2 (take m stored),
    cx_weekly = at_level 3 (take m stored), cx_total_tokens = 300 * int k + 80 * int m, cx_coverage = cov\<rparr>"
  have "read_with_digests now since_time max_tokens g = (?g1, Inr ?cx)"
    using l f s r c a cov n rev_take_newest [of 1000 fs] by (simp add: read_with_digests_def sbind_def of_res_def)
  moreover have "300 * int k \<le> max_tokens" if "0 \<le> max_tokens" using k that by linarith
  moreover have "80 * int m \<le> max_tokens - 300 * int k + 79" if "0 \<le> max_tokens - 300 * int k" using m that by linarith
  moreover have "max_tokens \<le> 300 * int k + 80 * int m" if "int (length stored) * 80 \<ge> max_tokens"
    using m that by linarith
  ultimately show ?thesis using i1 d1 by (intro exI [where x = ?g1] exI [where x = ?cx]) auto
qed

section \<open>Pending windows\<close>

lemma existing_ids:
  assumes inv: "coll_inv sha es cs g" and dig: "digests_inv sha fs ds g"
  shows "existing_digest_ids g = (g, Inr (map dg_digest_id (newest 10000 ds)))"
proof -
  have r: "read (digests_shard g) 0 10000 (rg_fs g) = (rg_fs g, Inr (take (nat (max 1 10000)) (rev fs)))"
    using read_inv [of sha "digests_shard g" "rg_fs g" fs 0 10000] dig inv by (simp add: digests_inv_def coll_inv_def)
  have "list_all2 digest_records (newest 10000 fs) (newest 10000 ds)" using dig newest_records by (auto simp: digests_inv_def)
  then have "collect stored_digest_id (newest 10000 fs) = Inr (map dg_digest_id (newest 10000 ds))" using collect_stored(1) by blast
  then show ?thesis using r rev_take_newest [of 10000 fs] by (simp add: existing_digest_ids_def)
qed

text \<open>What the search for pending windows computes from the index.\<close>

definition windows_of :: "json list \<Rightarrow> collective_entry list \<Rightarrow> datetime \<Rightarrow> window list res" where
  "windows_of existing ix now = (if ix = [] then Inr [] else level_windows existing ix now LEVELS)"

lemma pending_inv:
  assumes inv: "coll_inv sha es cs g" and dig: "digests_inv sha fs ds g"
  shows "\<exists>g'. pending_windows now g = (g', windows_of (map dg_digest_id (newest 10000 ds)) (newest (cs_window_size g) cs) now) \<and>
    coll_inv sha es cs g' \<and> digests_inv sha fs ds g' \<and> filled g g'"
proof -
  let ?ix = "newest (cs_window_size g) cs"
  obtain l where l: "coll_ensure_index g = (g\<lparr>cs_index := Some ?ix, cs_last_contribution := l\<rparr>, Inr ?ix)"
    and m: "index_matches ?ix l ?ix" using coll_ensure_inv [OF inv] by blast
  let ?g1 = "g\<lparr>cs_index := Some ?ix, cs_last_contribution := l\<rparr>"
  have n: "digests_shard ?g1 = digests_shard g" by (simp add: digests_shard_def)
  have i1: "coll_inv sha es cs ?g1" by (rule coll_inv_filled [OF inv m])
  have d1: "digests_inv sha fs ds ?g1" using dig n by (simp add: digests_inv_def)
  have "pending_windows now g = (?g1, windows_of (map dg_digest_id (newest 10000 ds)) ?ix now)"
    using l existing_ids [OF i1 d1] by (auto simp: pending_windows_def windows_of_def sbind_def of_res_def)
  with i1 d1 show ?thesis by (intro exI [where x = ?g1]) (simp add: filled_def)
qed

lemma windows_of_ok:
  assumes "calendar_ok ix now"
  shows "\<exists>ws. windows_of ex ix now = Inr ws \<and> (\<forall>w \<in> set ws. rollable w) \<and>
    (\<forall>ex'. set ex \<union> (\<lambda>w. JStr (wn_digest_id w)) ` set ws \<subseteq> set ex' \<longrightarrow> windows_of ex' ix now = Inr [])"
proof (cases "ix = []")
  case False
  then show ?thesis using level_windows_ok [OF assms False order_refl] by (simp add: windows_of_def)
qed (simp add: windows_of_def)

lemma level_windows_sound:
  assumes "calendar_ok ix now" and "ix \<noteq> []" and "set ls \<subseteq> set LEVELS" and "level_windows ex ix now ls = Inr ws" and "w \<in> set ws"
  shows "\<exists>level delta label. (level, delta, label) \<in> set ls \<and> good_window ix now delta ex level w"
  using assms(3-5)
proof (induction ls arbitrary: ws)
  case (Cons l ls)
  obtain level delta label where l: "l = (level, delta, label)" by (cases l)
  then obtain s where s: "first_window delta (ce_contributed_at (hd ix)) = Inr s" "walk_ok ix now delta s"
    using level_walk [OF assms(1,2)] Cons.prems by fastforce
  obtain vs where v: "window_loop ex ix now level delta label s = Inr vs" "\<forall>w \<in> set vs. good_window ix now delta ex level w"
    using window_loop_returns [OF s(2)] by blast
  obtain us where u: "level_windows ex ix now ls = Inr us" "ws = vs @ us"
    using Cons.prems(2) l s(1) v(1) by auto
  show ?case
  proof (cases "w \<in> set vs")
    case True
    then show ?thesis using v(2) l by auto
  next
    case False
    then have "w \<in> set us" using Cons.prems(3) u(2) by simp
    with Cons.IH [OF _ u(1)] Cons.prems(1) show ?thesis by fastforce
  qed
qed simp

lemma level_windows_complete:
  assumes "calendar_ok ix now" and "ix \<noteq> []" and "set ls \<subseteq> set LEVELS" and "level_windows ex ix now ls = Inr ws"
    and "(level, delta, label) \<in> set ls" and "c \<in> set ix" and "at_us (hd ix) \<le> at_us c" and "at_us c + delta \<le> instant now"
  shows "\<exists>a b. instant a \<le> at_us c \<and> at_us c < instant b \<and> instant b = instant a + delta \<and>
    (window_at level label a b \<in> set ws \<or> JStr (digest_id level a) \<in> set ex)"
  using assms(3-5)
proof (induction ls arbitrary: ws)
  case (Cons l ls)
  obtain level1 delta1 label1 where l: "l = (level1, delta1, label1)" by (cases l)
  then obtain s where s: "first_window delta1 (ce_contributed_at (hd ix)) = Inr s" "walk_ok ix now delta1 s"
    using level_walk [OF assms(1,2)] Cons.prems by fastforce
  obtain vs where v: "window_loop ex ix now level1 delta1 label1 s = Inr vs"
    using window_loop_returns [OF s(2)] by blast
  obtain us where u: "level_windows ex ix now ls = Inr us" "ws = vs @ us"
    using Cons.prems(2) l s(1) v(1) by auto
  show ?case
  proof (cases "(level, delta, label) = l")
    case True
    then have eq: "level1 = level" "delta1 = delta" "label1 = label" using l by simp_all
    have "(level, delta, label) \<in> set LEVELS" using True Cons.prems(1) by auto
    then obtain s' where "first_window delta (ce_contributed_at (hd ix)) = Inr s'" "instant s' \<le> at_us (hd ix)"
      using first_window_ok [of "ce_contributed_at (hd ix)" level delta label] assms(1,2)
      by (fastforce simp: calendar_ok_def aware_index_def at_us_def)
    then have "instant s \<le> at_us c" using s(1) eq assms(7) by simp
    moreover have "0 < delta" using s(2) eq by (simp add: walk_ok_def)
    then have "instant now - instant s < delta * ((instant now - instant s) div delta) + delta"
      by (metis add_strict_left_mono mult_div_mod_eq pos_mod_bound)
    then have "at_us c < instant s + delta * ((instant now - instant s) div delta)" using assms(8) by linarith
    ultimately have "\<exists>a b. instant a \<le> at_us c \<and> at_us c < instant b \<and> instant b = instant a + delta \<and>
      (window_at level label a b \<in> set vs \<or> JStr (digest_id level a) \<in> set ex)"
      using window_loop_covers [OF s(2)] v assms(6) unfolding eq by blast
    with u(2) show ?thesis by auto
  next
    case False
    with Cons.IH [OF _ u(1)] Cons.prems(1,3) u(2) show ?thesis by fastforce
  qed
qed simp

text \<open>
  C23: the walk through the windows returns and forgets nothing. Away from the ends of the
  calendar and with times that carry a zone, \<open>pending_windows\<close> returns, although its loop
  has no bound; each window it returns has the length of its level, is over, holds an
  entry and has no stored digest; and every entry of the index that is not older than the
  first one lies, for every level, in a window that is returned or has a digest, once a
  whole window has passed since the entry.
\<close>

theorem pending_windows_exact:
  assumes inv: "coll_inv sha es cs g" and dig: "digests_inv sha fs ds g"
    and cal: "calendar_ok (newest (cs_window_size g) cs) now"
  shows "\<exists>g' ws. pending_windows now g = (g', Inr ws) \<and> coll_inv sha es cs g' \<and> digests_inv sha fs ds g' \<and>
    (\<forall>w \<in> set ws. \<exists>level delta label. (level, delta, label) \<in> set LEVELS \<and> wn_level w = level \<and>
       instant (wn_end w) = instant (wn_start w) + delta \<and> instant (wn_end w) \<le> instant now \<and>
       has_entry (newest (cs_window_size g) cs) (instant (wn_start w)) (instant (wn_end w)) \<and>
       wn_digest_id w = digest_id level (wn_start w) \<and> JStr (wn_digest_id w) \<notin> set (map dg_digest_id (newest 10000 ds))) \<and>
    (\<forall>c \<in> set (newest (cs_window_size g) cs). \<forall>(level, delta, label) \<in> set LEVELS.
       at_us (hd (newest (cs_window_size g) cs)) \<le> at_us c \<longrightarrow> at_us c + delta \<le> instant now \<longrightarrow>
       (\<exists>a b. instant a \<le> at_us c \<and> at_us c < instant b \<and> instant b = instant a + delta \<and>
          (window_at level label a b \<in> set ws \<or> JStr (digest_id level a) \<in> set (map dg_digest_id (newest 10000 ds)))))"
proof -
  let ?ix = "newest (cs_window_size g) cs" and ?ex = "map dg_digest_id (newest 10000 ds)"
  obtain g' where p: "pending_windows now g = (g', windows_of ?ex ?ix now)" "coll_inv sha es cs g'" "digests_inv sha fs ds g'"
    using pending_inv [OF inv dig] by blast
  obtain ws where ws: "windows_of ?ex ?ix now = Inr ws" using windows_of_ok [OF cal] by blast
  have "?ix \<noteq> [] \<Longrightarrow> w \<in> set ws \<Longrightarrow> \<exists>level delta label. (level, delta, label) \<in> set LEVELS \<and> good_window ?ix now delta ?ex level w" for w
    using level_windows_sound [OF cal _ order_refl, of ?ex ws w] ws by (simp add: windows_of_def)
  moreover have "\<exists>a b. instant a \<le> at_us c \<and> at_us c < instant b \<and> instant b = instant a + delta \<and>
      (window_at level label a b \<in> set ws \<or> JStr (digest_id level a) \<in> set ?ex)"
    if "c \<in> set ?ix" "(level, delta, label) \<in> set LEVELS" "at_us (hd ?ix) \<le> at_us c" "at_us c + delta \<le> instant now" for c level delta label
  proof -
    have ne: "?ix \<noteq> []" using that(1) by auto
    then have "level_windows ?ex ?ix now LEVELS = Inr ws" using ws by (simp add: windows_of_def)
    from level_windows_complete [OF cal ne order_refl this that(2,1,3,4)] show ?thesis .
  qed
  moreover have "?ix = [] \<Longrightarrow> ws = []" using ws by (simp add: windows_of_def)
  ultimately show ?thesis using p ws
    by (intro exI [where x = g'] exI [where x = ws]) (fastforce simp: good_window_def)
qed

text \<open>
  C24: rolling once leaves nothing to roll. A roll over all levels writes one digest for
  every pending window, in their order; as long as the reader of the identifiers, which
  sees ten thousand digests, sees them all, asking again at the same time finds nothing
  pending.
\<close>

theorem roll_once:
  assumes inv: "coll_inv sha es cs g" and dig: "digests_inv sha fs ds g"
    and cal: "calendar_ok (newest (cs_window_size g) cs) now" and t: "\<forall>n. valid_dt (fst (stamps n))"
  shows "\<exists>g1 ws g' new rs. pending_windows now g = (g1, Inr ws) \<and> roll sha stamps now [] g = (g', Inr new) \<and>
    coll_inv sha es cs g' \<and> digests_inv sha (fs @ rs) (ds @ new) g' \<and>
    map dg_digest_id new = map (\<lambda>w. JStr (wn_digest_id w)) ws \<and>
    (length (ds @ new) \<le> 10000 \<longrightarrow> (\<exists>g''. pending_windows now g' = (g'', Inr [])))"
proof -
  let ?ix = "newest (cs_window_size g) cs"
  obtain g1 where p: "pending_windows now g = (g1, windows_of (map dg_digest_id (newest 10000 ds)) ?ix now)"
    "coll_inv sha es cs g1" "digests_inv sha fs ds g1" "filled g g1"
    using pending_inv [OF inv dig] by blast
  obtain ws where ws: "windows_of (map dg_digest_id (newest 10000 ds)) ?ix now = Inr ws" "\<forall>w \<in> set ws. rollable w"
    "\<forall>ex'. set (map dg_digest_id (newest 10000 ds)) \<union> (\<lambda>w. JStr (wn_digest_id w)) ` set ws \<subseteq> set ex' \<longrightarrow> windows_of ex' ?ix now = Inr []"
    using windows_of_ok [OF cal] by blast
  have "aware_index (newest (cs_window_size g1) cs)" using cal p(4) by (simp add: calendar_ok_def filled_def)
  from roll_loop_inv [OF p(2,3) t this ws(2), of 0] obtain g' new rs where
    q: "roll_loop sha stamps 0 ws g1 = (g', Inr new)" "coll_inv sha es cs g'" "filled g1 g'"
      "digests_inv sha (fs @ rs) (ds @ new) g'" "map dg_digest_id new = map (\<lambda>w. JStr (wn_digest_id w)) ws"
    by blast
  have r: "roll sha stamps now [] g = (g', Inr new)" using p(1) ws(1) q(1) by (simp add: roll_def sbind_def)
  have w: "cs_window_size g' = cs_window_size g" using p(4) q(3) by (simp add: filled_def)
  have "\<exists>g''. pending_windows now g' = (g'', Inr [])" if len: "length (ds @ new) \<le> 10000"
  proof -
    obtain g'' where g'': "pending_windows now g' = (g'', windows_of (map dg_digest_id (newest 10000 (ds @ new))) ?ix now)"
      using pending_inv [OF q(2,4)] unfolding w by blast
    have all: "newest 10000 (ds @ new) = ds @ new" "newest 10000 ds = ds" using len by (simp_all add: newest_all)
    have "(\<lambda>w. JStr (wn_digest_id w)) ` set ws = set (map dg_digest_id new)" unfolding q(5) by simp
    then have "windows_of (map dg_digest_id (ds @ new)) ?ix now = Inr []"
      using ws(3) unfolding all by (metis map_append order_refl set_append)
    with g'' all show ?thesis by simp
  qed
  with p(1) ws(1) q r show ?thesis by (intro exI [where x = g1] exI [where x = ws] exI [where x = g'] exI [where x = new] exI [where x = rs]) simp
qed

text \<open>
  An entry on the boundary of two windows is counted in both. The search for pending
  windows uses half-open windows, but a digest counts the entries up to and including the
  end of its window. So the counts of two adjacent windows exceed the count of the window
  they make up by the number of entries at the common boundary.
\<close>

theorem boundary_counted_twice:
  assumes inv: "coll_inv sha es cs g" and dig: "digests_inv sha fs ds g" and t: "\<forall>n. valid_dt (fst (stamps n))"
    and aw: "aware_index (newest (cs_window_size g) cs)"
    and v: "valid_dt a" "valid_dt b" "valid_dt c" "tz a \<noteq> None" "tz b \<noteq> None" "tz c \<noteq> None"
    and ord: "instant a \<le> instant b" "instant b \<le> instant c"
  shows "\<exists>g1 g2 g3 d1 d2 d n1 n2 n. digest_window sha (stamps 0) a b level g = (g1, Inr d1) \<and>
    digest_window sha (stamps 1) b c level g1 = (g2, Inr d2) \<and> digest_window sha (stamps 2) a c level2 g2 = (g3, Inr d) \<and>
    dg_source_count d1 = JInt (int n1) \<and> dg_source_count d2 = JInt (int n2) \<and> dg_source_count d = JInt (int n) \<and>
    n1 + n2 = n + length (filter (\<lambda>e. at_us e = instant b) (newest (cs_window_size g) cs))"
proof -
  let ?ix = "newest (cs_window_size g) cs"
  let ?f = "\<lambda>x y. filter (\<lambda>e. instant x \<le> at_us e \<and> at_us e \<le> instant y) ?ix"
  have count: "dg_source_count d = JInt (int (length (?f x y)))" if "digest_of sha x y l (?f x y) = Inr d" for x y l d
  proof -
    have "texts (?f x y)" using coll_texts [OF inv, of "cs_window_size g"] by (simp add: texts_def)
    from digest_of_ok [OF this, of sha x y l] that show ?thesis by auto
  qed
  have tn: "valid_dt (fst (stamps n))" for n using t by simp
  obtain g1 d1 r1 where 1: "digest_window sha (stamps 0) a b level g = (g1, Inr d1)" "coll_inv sha es cs g1" "filled g g1"
    "digests_inv sha (fs @ [r1]) (ds @ [d1]) g1" "digest_of sha a b level (?f a b) = Inr d1"
    using digest_window_inv [OF inv dig tn aw v(1,2,4,5)] by blast
  have w1: "cs_window_size g1 = cs_window_size g" using 1(3) by (simp add: filled_def)
  then have aw1: "aware_index (newest (cs_window_size g1) cs)" using aw by simp
  obtain g2 d2 r2 where 2: "digest_window sha (stamps 1) b c level g1 = (g2, Inr d2)" "coll_inv sha es cs g2" "filled g1 g2"
    "digests_inv sha ((fs @ [r1]) @ [r2]) ((ds @ [d1]) @ [d2]) g2" "digest_of sha b c level (?f b c) = Inr d2"
    using digest_window_inv [OF 1(2,4) tn aw1 v(2,3,5,6)] unfolding w1 by blast
  have w2: "cs_window_size g2 = cs_window_size g" using 2(3) w1 by (simp add: filled_def)
  then have aw2: "aware_index (newest (cs_window_size g2) cs)" using aw by simp
  obtain g3 d where 3: "digest_window sha (stamps 2) a c level2 g2 = (g3, Inr d)" "digest_of sha a c level2 (?f a c) = Inr d"
    using digest_window_inv [OF 2(2,4) tn aw2 v(1,3,4,6)] unfolding w2 by blast
  have "length (filter (\<lambda>e. instant a \<le> at_us e \<and> at_us e \<le> instant b) xs) + length (filter (\<lambda>e. instant b \<le> at_us e \<and> at_us e \<le> instant c) xs)
    = length (filter (\<lambda>e. instant a \<le> at_us e \<and> at_us e \<le> instant c) xs) + length (filter (\<lambda>e. at_us e = instant b) xs)" for xs
    using ord by (induction xs) auto
  with 1(1) 2(1) 3(1) count [OF 1(5)] count [OF 2(5)] count [OF 3(2)] this [of ?ix] show ?thesis by blast
qed

section \<open>Examples\<close>

text \<open>A collective with two projections and no digest yet.\<close>

lemma sample_digests:
  "\<exists>es c1 c2 (g :: collective). coll_inv (\<lambda>m. m) es [c1, c2] g \<and> digests_inv (\<lambda>m. m) [] [] g \<and>
    newest (cs_window_size g) [c1, c2] = [c1, c2] \<and> at_us c1 = instant sample_time \<and> at_us c2 = instant sample_time \<and>
    aware_index [c1, c2] \<and> calendar_ok [c1, c2] (sample_time\<lparr>year := 2027\<rparr>)"
proof -
  obtain es c1 c2 and g :: collective where g: "coll_inv (\<lambda>m. m) es [c1, c2] g" "cs_window_size g = 500"
    "cs_shard_name g = collective_name ''x''" "ce_contributed_at c1 = sample_time" "ce_contributed_at c2 = sample_time"
    "\<And>x. family_name x \<noteq> family_name (collective_name ''x'') \<Longrightarrow> shard_inv (\<lambda>m. m) x (rg_fs g) []"
    using sample_collective by blast
  have n: "family_name (digests_shard g) \<noteq> family_name (collective_name ''x'')"
    by (simp add: digests_shard_def g(3) collective_name_def COLLECTIVE_PREFIX_def family_name_def py_replace_unfold)
  have "digests_inv (\<lambda>m. m) [] [] g" using g(6) [OF n] n g(3) by (simp add: digests_inv_def)
  moreover have "newest (cs_window_size g) [c1, c2] = [c1, c2]" using g(2) by (simp add: newest_all)
  moreover have "valid_dt (sample_time\<lparr>year := 2027\<rparr>)"
    by (simp add: sample_time_def valid_dt_def days_in_month_def)
  moreover have "instant sample_time \<le> instant (sample_time\<lparr>year := 2027\<rparr>)"
    by (simp add: sample_time_def instant_def days_before_year_def days_before_month_def Let_def)
  moreover have y: "year sample_time = 2026" by (simp add: sample_time_def)
  ultimately show ?thesis using g(1,4,5)
    by (intro exI [where x = es] exI [where x = c1] exI [where x = c2] exI [where x = g])
      (simp add: at_us_def aware_index_def calendar_ok_def sample_tz [simplified] y)
qed

theorem context_budget_witness:
  "\<exists>(g :: collective) g' cx. read_with_digests sample_time sample_time 400 g = (g', Inr cx) \<and>
     length (cx_recent cx) = 1 \<and> cx_total_tokens cx = 300"
proof -
  obtain es c1 c2 and g :: collective where g: "coll_inv (\<lambda>m. m) es [c1, c2] g" "digests_inv (\<lambda>m. m) [] [] g"
    "newest (cs_window_size g) [c1, c2] = [c1, c2]" "at_us c1 = instant sample_time" "at_us c2 = instant sample_time"
    "aware_index [c1, c2]" using sample_digests by blast
  obtain g' cx where "read_with_digests sample_time sample_time 400 g = (g', Inr cx)" "length (cx_recent cx) = 1"
    "cx_total_tokens cx = 300"
    using context_budget [OF g(1,2) sample_tz sample_tz, unfolded g(3), OF g(6) refl refl refl refl, of 400]
    by (auto simp: g(4,5) newest_def)
  then show ?thesis by blast
qed

theorem pending_windows_exact_witness:
  "\<exists>(g :: collective) g' ws w. pending_windows (sample_time\<lparr>year := 2027\<rparr>) g = (g', Inr ws) \<and> w \<in> set ws \<and> wn_level w = 1"
proof -
  obtain es c1 c2 and g :: collective where g: "coll_inv (\<lambda>m. m) es [c1, c2] g" "digests_inv (\<lambda>m. m) [] [] g"
    "newest (cs_window_size g) [c1, c2] = [c1, c2]" "at_us c1 = instant sample_time"
    "calendar_ok [c1, c2] (sample_time\<lparr>year := 2027\<rparr>)" using sample_digests by blast
  obtain g' ws where p: "pending_windows (sample_time\<lparr>year := 2027\<rparr>) g = (g', Inr ws)" and
    c: "\<forall>c \<in> set [c1, c2]. \<forall>(level, delta, label) \<in> set LEVELS. at_us c1 \<le> at_us c \<longrightarrow> at_us c + delta \<le> instant (sample_time\<lparr>year := 2027\<rparr>) \<longrightarrow>
       (\<exists>a b. instant a \<le> at_us c \<and> at_us c < instant b \<and> instant b = instant a + delta \<and>
          window_at level label a b \<in> set ws)"
    using pending_windows_exact [OF g(1,2), unfolded g(3), OF g(5)] by (auto simp: newest_def)
  have "(1, HOUR_US, ''hourly'') \<in> set LEVELS" by (simp add: LEVELS_def)
  moreover have "at_us c1 + HOUR_US \<le> instant (sample_time\<lparr>year := 2027\<rparr>)"
    by (simp add: g(4) HOUR_US_def sample_time_def instant_def days_before_year_def days_before_month_def Let_def)
  ultimately obtain a b where "window_at 1 ''hourly'' a b \<in> set ws" using c by fastforce
  then have "\<exists>w. w \<in> set ws \<and> wn_level w = 1" by (intro exI [where x = "window_at 1 ''hourly'' a b"]) (simp add: window_at_def)
  with p show ?thesis by blast
qed

theorem roll_once_witness:
  "\<exists>(g :: collective) stamps g' new. roll (\<lambda>m. m) stamps (sample_time\<lparr>year := 2027\<rparr>) [] g = (g', Inr new) \<and>
     (length new \<le> 10000 \<longrightarrow> (\<exists>g''. pending_windows (sample_time\<lparr>year := 2027\<rparr>) g' = (g'', Inr [])))"
proof -
  obtain es c1 c2 and g :: collective where g: "coll_inv (\<lambda>m. m) es [c1, c2] g" "digests_inv (\<lambda>m. m) [] [] g"
    "newest (cs_window_size g) [c1, c2] = [c1, c2]" "calendar_ok [c1, c2] (sample_time\<lparr>year := 2027\<rparr>)" using sample_digests by blast
  from roll_once [OF g(1,2), unfolded g(3), OF g(4), of "\<lambda>n. (sample_time, [])"] show ?thesis by fastforce
qed

theorem boundary_counted_twice_witness:
  "\<exists>(g :: collective) stamps g1 g2 d1 d2 n1 n2. digest_window (\<lambda>m. m) (stamps 0) sample_time sample_time 1 g = (g1, Inr d1) \<and>
     digest_window (\<lambda>m. m) (stamps 1) sample_time sample_time 1 g1 = (g2, Inr d2) \<and>
     dg_source_count d1 = JInt (int n1) \<and> dg_source_count d2 = JInt (int n2) \<and> 2 \<le> n1 + n2"
proof -
  obtain es c1 c2 and g :: collective where g: "coll_inv (\<lambda>m. m) es [c1, c2] g" "digests_inv (\<lambda>m. m) [] [] g"
    "newest (cs_window_size g) [c1, c2] = [c1, c2]" "at_us c1 = instant sample_time" "at_us c2 = instant sample_time"
    "aware_index [c1, c2]" using sample_digests by blast
  obtain g1 g2 g3 d1 d2 d n1 n2 n where "digest_window (\<lambda>m. m) (sample_time, []) sample_time sample_time 1 g = (g1, Inr d1)"
    "digest_window (\<lambda>m. m) (sample_time, []) sample_time sample_time 1 g1 = (g2, Inr d2)"
    "digest_window (\<lambda>m. m) (sample_time, []) sample_time sample_time 1 g2 = (g3, Inr d)"
    "dg_source_count d1 = JInt (int n1)" "dg_source_count d2 = JInt (int n2)" "dg_source_count d = JInt (int n)"
    "n1 + n2 = n + length (filter (\<lambda>e. at_us e = instant sample_time) [c1, c2])"
    using boundary_counted_twice [OF g(1,2), of "\<lambda>n. (sample_time, [])", unfolded g(3), OF _ g(6) valid_sample_time
        valid_sample_time valid_sample_time sample_tz sample_tz sample_tz order_refl order_refl, of 1 1]
    by auto
  moreover from this(7) have "2 \<le> n1 + n2" using g(4,5) by simp
  ultimately show ?thesis by (intro exI [where x = g] exI [where x = "\<lambda>n. (sample_time, [])"] exI conjI)
qed

end
