(* ===== verification/Float_Repr.thy ===== *)
theory Float_Repr
  imports Pylib
begin

text \<open>
  What \<^verbatim>\<open>repr\<close> prints for a double reads back to the same double: the theorem that the
  files rest on in which times are kept as JSON numbers. Also here: rounding gives a
  double, and the arithmetic of numbers that may be ints or floats.
\<close>

section \<open>Rounded values are doubles\<close>

lemma rne_bound:
  assumes "0 < b" and "a \<le> n * b"
  shows "rne a b \<le> n"
proof -
  have "rne a b \<le> rne (n * b) b" using rne_mono [of b b a "n * b"] assms by (simp add: mult_right_mono)
  then show ?thesis using rne_exact [OF assms(1)] by simp
qed

lemma double_significand:
  assumes "0 \<le> q" and "q \<le> 2 ^ 53"
  shows "is_double (q * 2 ^ k)"
proof -
  let ?x = "q * 2 ^ k" and ?j = "ulp_exp (q * 2 ^ k) 1"
  have nn: "0 \<le> ?x" using assms(1) by simp
  have "\<exists>m. ?x = m * 2 ^ ?j"
  proof (cases "q = 2 ^ 53")
    case True
    then have x: "?x = 2 ^ (53 + k)" by (simp add: power_add)
    have "nat (2 ^ (53 + k)) = 2 ^ (53 + k)" by (simp add: nat_power_eq)
    then have "?j = k + 1" unfolding x ulp_exp_def div_by_1 by (simp only: bitlen_pow)
    then have "?x = 2 ^ 52 * 2 ^ ?j" unfolding x by (simp add: power_add)
    then show ?thesis by blast
  next
    case False
    have j: "?j \<le> k"
    proof (cases "q = 0")
      case True
      then show ?thesis by (simp add: ulp_exp_def bitlen.simps [of 0])
    next
      case q: False
      let ?n = "nat ?x"
      have "0 < ?n" using assms(1) q by simp
      from bitlen_bounds [OF this] have b: "2 ^ (bitlen ?n - 1) \<le> ?n" "0 < bitlen ?n" by simp_all
      have "?x < 2 ^ 53 * 2 ^ k" using assms False by simp
      then have "?x < 2 ^ (53 + k)" by (simp add: power_add)
      moreover have "int (nat ?x) = ?x" using nn by simp
      ultimately have "int ?n < int (2 ^ (53 + k))" by simp
      then have "?n < 2 ^ (53 + k)" by (simp only: of_nat_less_iff)
      from le_less_trans [OF b(1) this] have "bitlen ?n - 1 < 53 + k" by (rule power_less_imp_less_exp [rotated]) simp
      then show ?thesis using b(2) by (simp add: ulp_exp_def)
    qed
    have "?x = q * 2 ^ (k - ?j) * 2 ^ ?j" unfolding mult.assoc by (simp only: pow_split [OF j, symmetric])
    then show ?thesis by blast
  qed
  then obtain m where m: "?x = m * 2 ^ ?j" by blast
  have "rne ?x (2 ^ ?j) = m" by (subst m) (simp add: rne_exact)
  then have "round_pos ?x 1 = ?x" using m by (simp add: round_pos_def Let_def)
  then show ?thesis using nn by (simp add: is_double_def rnd_def)
qed

lemma double_round_pos:
  assumes "0 \<le> a" and "0 < b"
  shows "is_double (round_pos a b)"
proof -
  let ?k = "ulp_exp a b" and ?n = "nat (a div b)"
  have "?n < 2 ^ (53 + ?k)"
  proof (cases "?n = 0")
    case False
    then have "?n < 2 ^ bitlen ?n" using bitlen_bounds [of ?n] by simp
    also have "\<dots> \<le> 2 ^ (53 + ?k)" by (intro power_increasing) (simp_all add: ulp_exp_def)
    finally show ?thesis .
  qed simp
  then have "int ?n < int (2 ^ (53 + ?k))" by (simp only: of_nat_less_iff)
  then have d: "a div b < 2 ^ 53 * 2 ^ ?k" using assms by (simp add: pos_imp_zdiv_nonneg_iff power_add)
  have "a < b * (a div b) + b" using mult_div_mod_eq [of b a] pos_mod_bound [OF assms(2), of a] by linarith
  also have "\<dots> = b * (a div b + 1)" by (simp add: distrib_left)
  also have "\<dots> \<le> b * (2 ^ 53 * 2 ^ ?k)" using d assms(2) by (intro mult_left_mono) auto
  finally have "a \<le> 2 ^ 53 * (b * 2 ^ ?k)" by (simp add: mult.left_commute)
  then have "rne a (b * 2 ^ ?k) \<le> 2 ^ 53" using rne_bound [of "b * 2 ^ ?k" a "2 ^ 53"] assms(2) by simp
  moreover have "0 \<le> rne a (b * 2 ^ ?k)" using assms by (simp add: rne_nonneg)
  ultimately show ?thesis unfolding round_pos_def Let_def by (rule double_significand [rotated])
qed

lemma double_rnd: "0 < b \<Longrightarrow> is_double (rnd a b)"
proof (cases "a < 0")
  case True
  assume b: "0 < b"
  have "is_double (round_pos (- a) b)" by (rule double_round_pos) (use True b in simp_all)
  moreover have "0 \<le> round_pos (- a) b" using True b by (simp add: round_pos_nonneg)
  ultimately show ?thesis using True by (auto simp: is_double_def rnd_def round_pos_def)
qed (simp add: rnd_def double_round_pos)

lemma double_ops [simp]: "0 < b \<Longrightarrow> is_double (ffrac a b)" "is_double (fadd x y)" "is_double (fof_int n)"
  by (simp_all add: ffrac_def fadd_def fof_int_def double_rnd)

section \<open>Enough digits\<close>

lemma pow_ten: "(10::int) ^ n = 5 ^ n * 2 ^ n"
  by (simp flip: power_mult_distrib)

lemma dec_exp_upper:
  assumes "0 < x" and "x < 2 ^ 1024 * ONE"
  shows "dec_exp x \<le> 308"
proof (cases "ONE \<le> x")
  case True
  let ?n = "nat (x div ONE)"
  have "x div ONE < 2 ^ 1024"
  proof -
    have "ONE * (x div ONE) \<le> x" using mult_div_mod_eq [of ONE x] pos_mod_sign [OF ONE_pos, of x] by linarith
    from le_less_trans [OF this assms(2)] have "(x div ONE) * ONE < 2 ^ 1024 * ONE" by (simp only: mult.commute [of ONE])
    then show ?thesis by (simp only: mult_less_cancel_right_pos [OF ONE_pos])
  qed
  then have "?n < nat (2 ^ 1024)" by simp
  also have "nat (2 ^ 1024) \<le> 10 ^ 309" by simp
  finally have n: "?n < 10 ^ 309" .
  have "0 < ?n" using True ONE_pos by (simp add: pos_imp_zdiv_pos_iff)
  then have "10 ^ (length (show_nat ?n) - 1) \<le> ?n" using show_nat_length [of ?n] by blast
  with n have "(10::nat) ^ (length (show_nat ?n) - 1) < 10 ^ 309" by linarith
  then have "length (show_nat ?n) - 1 < 309" by (rule power_less_imp_less_exp [rotated]) simp
  then show ?thesis using True by (simp add: dec_exp_def)
qed (simp add: dec_exp_def)

lemma dec_float_exact:
  assumes d: "is_double x" "0 < x" "x < 2 ^ 1024 * ONE" and m: "int m * ONE = x * 10 ^ n"
  shows "dec_float False m (- int n) = Fin x"
proof -
  have v: "rnd (int m * ONE) (10 ^ n) = x"
    using rnd_scale [of 1 "10 ^ n" x] d(1) by (simp add: m is_double_def)
  have "(if 0 \<le> - int n then rnd (int m * ONE * 10 ^ nat (- int n)) 1 else rnd (int m * ONE) (10 ^ nat (- (- int n)))) = x"
    using v by (cases "n = 0") simp_all
  moreover have "finite_or_inf x = Fin x" using d(2,3) ONE_pos by (simp add: finite_or_inf_def)
  ultimately show ?thesis by (simp add: dec_float_def Let_def)
qed

lemma reads_back_exact:
  assumes "is_double x" and "0 < x" and "x < 2 ^ 1024 * ONE"
  shows "reads_back x 1400"
proof -
  define t where "t = 1399 - dec_exp x"
  define n where "n = nat t"
  have t: "1074 < t" using dec_exp_upper [OF assms(2,3)] by (simp add: t_def)
  then have tn: "t = int n" "1074 < n" by (simp_all add: n_def)
  have split: "(10::int) ^ n = 10 ^ (n - 1074) * 5 ^ 1074 * ONE"
  proof -
    have "(10::int) ^ n = 10 ^ (n - 1074) * 10 ^ 1074" using tn(2) by (simp only: flip: power_add) simp
    moreover have "(10::int) ^ 1074 = 5 ^ 1074 * ONE" unfolding ONE_def by (rule pow_ten)
    ultimately show ?thesis by (simp only: mult.assoc)
  qed
  define m where "m = x * (10 ^ (n - 1074) * 5 ^ 1074)"
  have "(0::int) < 10 ^ (n - 1074) * 5 ^ 1074" by (intro mult_pos_pos zero_less_power) simp_all
  from mult_pos_pos [OF assms(2) this] have "0 \<le> m" unfolding m_def by (rule less_imp_le)
  moreover have "m * ONE = x * 10 ^ n" unfolding m_def split by (simp only: mult.assoc)
  ultimately have m: "0 \<le> m" "m * ONE = x * 10 ^ n" by blast+
  have "rne (x * 10 ^ n) ONE = m" using rne_exact [OF ONE_pos, of m] by (simp only: m(2))
  then have r: "nat (if 0 \<le> t then rne (x * 10 ^ nat t) ONE else rne x (ONE * 10 ^ nat (- t))) = nat m"
    using t by (simp only: n_def [symmetric]) simp
  have k: "digits_at x 1400 = (if nat m = 10 ^ 1400 then (10 ^ 1399, 1 - t) else (nat m, - t))"
  proof -
    have "int 1400 - 1 - dec_exp x = t" "(1400::nat) - 1 = 1399" by (simp_all add: t_def)
    then show ?thesis unfolding digits_at_def Let_def using r by (simp only:)
  qed
  show ?thesis
  proof (cases "nat m = 10 ^ 1400")
    case True
    then have ten: "m = 10 ^ 1400" using m(1) by (metis int_nat_eq of_nat_numeral of_nat_power)
    have "10 * (10 ^ 1399 * ONE) = 10 * (x * 10 ^ (n - 1))"
    proof -
      have "(1400::nat) = Suc 1399" by simp
      then have "(10::int) ^ 1400 = 10 ^ Suc 1399" by (rule arg_cong)
      also have "\<dots> = 10 * 10 ^ 1399" by (rule power_Suc)
      finally have "m * ONE = 10 * 10 ^ 1399 * ONE" unfolding ten by (rule arg_cong)
      then have "10 * (10 ^ 1399 * ONE) = m * ONE" by (simp only: mult.assoc)
      also have "\<dots> = 10 * (x * 10 ^ (n - 1))" using m(2) tn(2) by (cases n) simp_all
      finally show ?thesis .
    qed
    then have "10 ^ 1399 * ONE = x * 10 ^ (n - 1)" by (rule mult_left_cancel [THEN iffD1, rotated]) simp
    then have "int (10 ^ 1399) * ONE = x * 10 ^ (n - 1)" by (simp only: of_nat_power of_nat_numeral)
    from dec_float_exact [OF assms this] have "dec_float False (10 ^ 1399) (- int (n - 1)) = Fin x" .
    moreover have "- int (n - 1) = 1 - t" using tn by simp
    ultimately show ?thesis using True unfolding reads_back_def k by (simp only: simp_thms if_True prod.case)
  next
    case False
    have "int (nat m) * ONE = x * 10 ^ n" using m by simp
    from dec_float_exact [OF assms this] False tn(1) show ?thesis unfolding reads_back_def k by (simp only: if_False prod.case)
  qed
qed

lemma first_digits_reads_back:
  assumes "reads_back x 1400" and "p \<le> 1400"
  shows "reads_back x (first_digits x p)"
  using assms
proof (induction x p rule: first_digits.induct)
  case (1 x p)
  then show ?case by (cases "p = 1400"; subst first_digits.simps) auto
qed

section \<open>Reading back\<close>

lemma nat_of_digits_append: "nat_of_digits (a @ b) = nat_of_digits a * 10 ^ length b + nat_of_digits b"
proof (induction b rule: rev_induct)
  case (snoc c b)
  then show ?case using nat_of_digits_snoc [of "a @ b" c] nat_of_digits_snoc [of b c] by (simp add: distrib_left)
qed (simp add: nat_of_digits_def)

lemma nat_of_zeros: "nat_of_digits (replicate k (CHR ''0'')) = 0"
  using nat_of_digits_zeros [of k "[]"] by (simp add: nat_of_digits_def)

text \<open>The parts of a lexeme: digits, the digits after the point, and an exponent.\<close>

lemma float_of_parts:
  assumes ip: "ip \<noteq> []" "list_all is_digit ip" and fs: "list_all is_digit fs" and pt: "pt \<or> fs = []"
    and ep: "ep = [] \<or> hd ep = CHR ''e''"
  shows "float_of_lex (ip @ (if pt then CHR ''.'' # fs else []) @ ep) =
    dec_float False (nat_of_digits (ip @ fs)) (exp_of_lex ep - int (length fs))"
proof -
  let ?s = "ip @ (if pt then CHR ''.'' # fs else []) @ ep" and ?r = "(if pt then CHR ''.'' # fs else []) @ ep"
  have c: "\<not> is_digit (CHR ''e'')" "\<not> is_digit (CHR ''.'')" "\<not> is_digit (CHR ''-'')" "\<not> is_digit (CHR ''N'')" "\<not> is_digit (CHR ''I'')"
    by (simp_all add: is_digit_def)
  obtain d ds where d: "ip = d # ds" "is_digit d" using ip by (cases ip) auto
  have 0: "?s \<noteq> ''NaN'' \<and> ?s \<noteq> ''Infinity'' \<and> ?s \<noteq> ''-Infinity'' \<and> hd ?s \<noteq> CHR ''-'' \<and> drop_minus ?s = ?s"
    using d c by (auto simp: drop_minus_def)
  have 1: "takeWhile is_digit ?s = ip" "dropWhile is_digit ?s = ?r"
    using takeWhile_part [OF ip(2), of ?r] ep c by (cases pt; cases ep; simp)+
  have 2: "takeWhile is_digit (fs @ ep) = fs" "dropWhile is_digit (fs @ ep) = ep"
    using takeWhile_part [OF fs, of ep] ep c by auto
  show ?thesis
  proof (cases pt)
    case True
    with 0 1 2 c show ?thesis by (simp add: float_of_lex_def Let_def)
  next
    case False
    then have "fs = []" using pt by simp
    with False 1 have "takeWhile is_digit (ip @ ep) = ip" "dropWhile is_digit (ip @ ep) = ep" by simp_all
    moreover have "ep = [] \<or> hd ep \<noteq> CHR ''.''" using ep by auto
    ultimately show ?thesis using 0 False \<open>fs = []\<close> unfolding float_of_lex_def Let_def by (simp only: if_False append_Nil append_Nil2) auto
  qed
qed

lemma dec_float_shift: "dec_float False (m * 10 ^ n) (- int n) = dec_float False m 0"
proof (cases n)
  case (Suc k)
  have "rnd (int (m * 10 ^ n) * ONE) (10 ^ n) = rnd (int m * ONE) 1"
    using rnd_scale [of 1 "10 ^ n" "int m * ONE"] by (simp add: ac_simps)
  then show ?thesis using Suc by (simp add: dec_float_def Let_def nat_add_distrib)
qed simp

lemma exp_of_show: "exp_of_lex (''e'' @ (if e < 0 then ''-'' else ''+'') @ (if length (show_nat n) < 2 then CHR ''0'' # show_nat n else show_nat n)) =
    (if e < 0 then - int n else int n)"
  using nat_of_digits_zeros [of 1 "show_nat n"] by (simp add: exp_of_lex_def)

theorem float_repr_reads_back:
  assumes "is_double x" and "0 \<le> x" and "x < 2 ^ 1024 * ONE"
  shows "float_of_lex (float_repr x) = Fin x"
proof (cases "x = 0")
  case True
  then show ?thesis by (simp add: float_repr_def)
next
  case False
  then have pos: "0 < x" using assms(2) by simp
  define p where "p = first_digits x 1"
  define m k where "m = fst (digits_at x p)" and "k = snd (digits_at x p)"
  define ds e where "ds = show_nat m" and "e = k + int (length ds) - 1"
  have r: "float_repr x = (if - 4 \<le> e \<and> e < 16 then positional ds e else scientific ds e)"
    using False by (simp add: float_repr_def p_def m_def k_def ds_def e_def Let_def case_prod_unfold)
  have val: "dec_float False m k = Fin x"
    using first_digits_reads_back [OF reads_back_exact [OF assms(1) pos assms(3)], of 1]
    by (simp add: reads_back_def m_def k_def p_def case_prod_unfold)
  have ds: "list_all is_digit ds" "ds \<noteq> []" "nat_of_digits ds = m"
    using show_nat_digits by (simp_all add: ds_def list_all_iff)
  have z: "is_digit (CHR ''0'')" "nat_of_digits ''0'' = 0" by (simp_all add: is_digit_def nat_of_digits_def digit_val_def)
  have "float_of_lex (positional ds e) = dec_float False m k"
  proof (cases "e < 0")
    case True
    let ?fs = "replicate (nat (- e - 1)) (CHR ''0'') @ ds"
    have "float_of_lex (''0'' @ (if True then CHR ''.'' # ?fs else []) @ []) =
      dec_float False (nat_of_digits (''0'' @ ?fs)) (exp_of_lex [] - int (length ?fs))"
      by (rule float_of_parts) (use ds z in \<open>auto simp: list_all_iff\<close>)
    moreover have "nat_of_digits (''0'' @ ?fs) = m" using ds(3) z(2) nat_of_digits_append [of "''0''" ?fs] by (simp add: nat_of_digits_zeros)
    moreover have "exp_of_lex [] - int (length ?fs) = k" using True by (simp add: exp_of_lex_def e_def)
    ultimately show ?thesis using True by (simp add: positional_def)
  next
    case e: False
    show ?thesis
    proof (cases "int (length ds) \<le> e + 1")
      case True
      then have k: "0 \<le> k" by (simp add: e_def)
      let ?ip = "ds @ replicate (nat (e + 1) - length ds) (CHR ''0'')"
      have n: "nat (e + 1) - length ds = nat k" using True by (simp add: e_def nat_diff_distrib)
      have "float_of_lex (?ip @ (if True then CHR ''.'' # ''0'' else []) @ []) =
        dec_float False (nat_of_digits (?ip @ ''0'')) (exp_of_lex [] - int (length ''0''))"
        by (rule float_of_parts) (use ds z in \<open>auto simp: list_all_iff\<close>)
      also have "nat_of_digits (?ip @ ''0'') = (m * 10 ^ nat k) * 10 ^ 1"
        using ds(3) z(2) n by (simp add: nat_of_digits_append [of _ "''0''"] nat_of_digits_append [of ds] nat_of_zeros)
      also have "exp_of_lex [] - int (length ''0'') = - int 1" by (simp add: exp_of_lex_def)
      also have "dec_float False ((m * 10 ^ nat k) * 10 ^ 1) (- int 1) = dec_float False (m * 10 ^ nat k) 0" by (rule dec_float_shift)
      also have "\<dots> = dec_float False m k" using k by (simp add: dec_float_def Let_def ac_simps)
      finally show ?thesis using e True by (simp add: positional_def)
    next
      case False
      let ?n = "nat (e + 1)"
      have "float_of_lex (take ?n ds @ (if True then CHR ''.'' # drop ?n ds else []) @ []) =
        dec_float False (nat_of_digits (take ?n ds @ drop ?n ds)) (exp_of_lex [] - int (length (drop ?n ds)))"
        by (rule float_of_parts) (use ds e in \<open>auto simp: list_all_iff dest: in_set_takeD in_set_dropD\<close>)
      moreover have "exp_of_lex [] - int (length (drop ?n ds)) = k" using e False by (simp add: exp_of_lex_def e_def)
      ultimately show ?thesis using e False ds(3) by (simp add: positional_def)
    qed
  qed
  moreover have "float_of_lex (scientific ds e) = dec_float False m k"
  proof -
    let ?ep = "''e'' @ (if e < 0 then ''-'' else ''+'') @
      (if length (show_nat (nat \<bar>e\<bar>)) < 2 then CHR ''0'' # show_nat (nat \<bar>e\<bar>) else show_nat (nat \<bar>e\<bar>))"
    have "float_of_lex ([hd ds] @ (if tl ds \<noteq> [] then CHR ''.'' # tl ds else []) @ ?ep) =
      dec_float False (nat_of_digits ([hd ds] @ tl ds)) (exp_of_lex ?ep - int (length (tl ds)))"
      by (rule float_of_parts) (use ds in \<open>cases ds; auto simp: list_all_iff\<close>)+
    moreover have "exp_of_lex ?ep = e" unfolding exp_of_show by simp
    moreover have "e - int (length (tl ds)) = k" using ds(2) by (cases ds) (simp_all add: e_def)
    moreover have "[hd ds] @ tl ds = ds" using ds(2) by simp
    moreover have "scientific ds e = [hd ds] @ (if tl ds \<noteq> [] then CHR ''.'' # tl ds else []) @ ?ep"
      by (simp add: scientific_def Let_def)
    ultimately show ?thesis using ds(3) by simp
  qed
  ultimately show ?thesis using r val by simp
qed

section \<open>Numbers of either type\<close>

fun flt_add :: "flt \<Rightarrow> flt \<Rightarrow> flt" where
  "flt_add (Fin x) (Fin y) = finite_or_inf (fadd x y)"
| "flt_add NaN y = NaN"
| "flt_add x NaN = NaN"
| "flt_add PInf NInf = NaN"
| "flt_add NInf PInf = NaN"
| "flt_add PInf y = PInf"
| "flt_add NInf y = NInf"
| "flt_add x PInf = PInf"
| "flt_add x NInf = NInf"

fun flt_neg :: "flt \<Rightarrow> flt" where
  "flt_neg (Fin x) = Fin (- x)"
| "flt_neg NaN = NaN"
| "flt_neg PInf = NInf"
| "flt_neg NInf = PInf"

text \<open>\<^verbatim>\<open>int(x)\<close>, and the number a float is written as.\<close>

definition flt_int :: "flt \<Rightarrow> int res" where
  "flt_int x =
     (case x of
        Fin i \<Rightarrow> Inr (ftrunc i)
      | NaN \<Rightarrow> Inl (ValueError ''cannot convert float NaN to integer'')
      | _ \<Rightarrow> Inl (RuntimeError ''OverflowError''))"

definition flt_json :: "flt \<Rightarrow> json" where
  "flt_json x =
     JFloat (case x of
        Fin i \<Rightarrow> if i < 0 then CHR ''-'' # float_repr (- i) else float_repr i
      | PInf \<Rightarrow> ''Infinity'' | NInf \<Rightarrow> ''-Infinity'' | NaN \<Rightarrow> ''NaN'')"

datatype pynum = PInt int | PFlt flt

definition num_of :: "json \<Rightarrow> pynum res" where
  "num_of v =
     (case v of
        JInt n \<Rightarrow> Inr (PInt n)
      | JBool b \<Rightarrow> Inr (PInt (if b then 1 else 0))
      | JFloat s \<Rightarrow> Inr (PFlt (float_of_lex s))
      | _ \<Rightarrow> Inl TypeError)"

text \<open>Adding an int to a number, and the number as a float.\<close>

fun num_plus :: "pynum \<Rightarrow> int \<Rightarrow> pynum" where
  "num_plus (PInt n) c = PInt (n + c)"
| "num_plus (PFlt x) c = PFlt (flt_add x (Fin (fof_int c)))"

fun num_float :: "pynum \<Rightarrow> flt res" where
  "num_float (PInt n) = py_float (\<lambda>_. None) (JInt n)"
| "num_float (PFlt x) = Inr x"

fun num_json :: "pynum \<Rightarrow> json" where
  "num_json (PInt n) = JInt n"
| "num_json (PFlt x) = flt_json x"

lemma finite_or_inf_small: "\<bar>x\<bar> < 2 ^ 1024 * ONE \<Longrightarrow> finite_or_inf x = Fin x"
proof -
  assume "\<bar>x\<bar> < 2 ^ 1024 * ONE"
  then have "\<not> 2 ^ 1024 * ONE \<le> x" "\<not> x \<le> - (2 ^ 1024 * ONE)" by linarith+
  then show ?thesis unfolding finite_or_inf_def by (simp only: if_False)
qed

lemma num_of_flt [simp]:
  assumes "is_double x" and "0 \<le> x" and "x < 2 ^ 1024 * ONE"
  shows "num_of (flt_json (Fin x)) = Inr (PFlt (Fin x))"
  using float_repr_reads_back [OF assms] assms(2) by (simp add: num_of_def flt_json_def)

lemma wf_flt_json [simp]: "0 \<le> x \<Longrightarrow> wf_json (flt_json (Fin x))" "0 \<le> x \<Longrightarrow> norm (flt_json (Fin x)) = flt_json (Fin x)"
  by (simp_all add: flt_json_def)

end
