(* ===== verification/Session_Limits.thy ===== *)
theory Session_Limits
  imports Float_Repr Calendar
begin

text \<open>
  \<^verbatim>\<open>src/dsm/session/session_limits_manager.py\<close>: cooldowns and the daily budget of a session.
  The state is one JSON document in a file; the model keeps the document, since the
  manager is its only reader and writer. Whether the disk takes a write is an argument,
  and so is the clock: a time in UTC, from which the code takes the seconds since the
  epoch, as a float, and the date.
\<close>

section \<open>State\<close>

datatype state_file = Missing | Unreadable | Doc json

record limits =
  lm_file :: state_file
  lm_sidecars :: "(string \<times> string) list"
  lm_home_cooldown :: int
  lm_action_cooldown :: int
  lm_daily_budget :: int

definition new_limits :: "state_file \<Rightarrow> (string \<times> string) list \<Rightarrow> limits" where
  "new_limits f sidecars =
     \<lparr>lm_file = f, lm_sidecars = sidecars, lm_home_cooldown = 30, lm_action_cooldown = 120, lm_daily_budget = 10\<rparr>"

definition agent_defaults :: "state_file \<Rightarrow> (string \<times> string) list \<Rightarrow> limits" where
  "agent_defaults f sidecars = (new_limits f sidecars)\<lparr>lm_action_cooldown := 0\<rparr>"

definition default_state :: "datetime \<Rightarrow> json" where
  "default_state now =
     JObj [(''last_home_poll_ts'', JInt 0), (''last_action_ts'', JInt 0), (''actions_today_count'', JInt 0),
       (''actions_today_date'', JStr (stamp_date now)), (''skipped_home_polls'', JInt 0),
       (''skipped_actions_cooldown'', JInt 0), (''skipped_actions_daily_limit'', JInt 0)]"

definition load_state :: "datetime \<Rightarrow> limits \<Rightarrow> json" where
  "load_state now lm = (case lm_file lm of Doc j \<Rightarrow> j | _ \<Rightarrow> default_state now)"

definition save_state :: "bool \<Rightarrow> json \<Rightarrow> limits \<Rightarrow> limits \<times> bool" where
  "save_state disk state lm = (if disk then (lm\<lparr>lm_file := Doc state\<rparr>, True) else (lm, False))"

text \<open>\<^verbatim>\<open>state[k] = v\<close> and \<^verbatim>\<open>state[k] += 1\<close>.\<close>

definition jset :: "string \<Rightarrow> json \<Rightarrow> json \<Rightarrow> json res" where
  "jset k v j = (case j of JObj d \<Rightarrow> Inr (JObj (dput k v d)) | _ \<Rightarrow> Inl TypeError)"

definition plus_one :: "json \<Rightarrow> json res" where
  "plus_one v = rbind (num_of v) (\<lambda>n. Inr (num_json (num_plus n 1)))"

section \<open>Sidecar files\<close>

definition read_sidecar_file :: "string \<Rightarrow> limits \<Rightarrow> string option" where
  "read_sidecar_file name lm = (case dget name (lm_sidecars lm) of None \<Rightarrow> None | Some t \<Rightarrow> Some (strip t))"

definition write_sidecar_file :: "bool \<Rightarrow> string \<Rightarrow> string \<Rightarrow> limits \<Rightarrow> limits \<times> bool" where
  "write_sidecar_file disk name text lm =
     (if disk then (lm\<lparr>lm_sidecars := dput name (text @ ''\<newline>'') (lm_sidecars lm)\<rparr>, True) else (lm, False))"

definition SNAPSHOT_HASH_FILE :: string where "SNAPSHOT_HASH_FILE = ''last_home_snapshot_hash.txt''"

definition read_hash_from_sidecar :: "limits \<Rightarrow> string option" where
  "read_hash_from_sidecar = read_sidecar_file SNAPSHOT_HASH_FILE"

definition write_hash_to_sidecar :: "bool \<Rightarrow> string \<Rightarrow> limits \<Rightarrow> limits \<times> bool" where
  "write_hash_to_sidecar disk h = write_sidecar_file disk SNAPSHOT_HASH_FILE h"

section \<open>Checks\<close>

definition EPOCH :: datetime where
  "EPOCH = \<lparr>year = 1970, month = 1, day = 1, hour = 0, minute = 0, second = 0, micro = 0, tz = Some 0\<rparr>"

definition clock_ts :: "datetime \<Rightarrow> int" where
  "clock_ts now = ffrac (instant now - instant EPOCH) 1000000"

text \<open>The caller's time, or the clock's.\<close>

definition time_arg :: "datetime \<Rightarrow> flt option \<Rightarrow> flt" where
  "time_arg now now_ts = (case now_ts of Some t \<Rightarrow> t | None \<Rightarrow> Fin (clock_ts now))"

text \<open>\<^verbatim>\<open>last_poll + cooldown - now\<close>.\<close>

definition remaining :: "json \<Rightarrow> int \<Rightarrow> flt \<Rightarrow> flt res" where
  "remaining prev cooldown now_ts =
     rbind (num_of prev) (\<lambda>n. rbind (num_float (num_plus n cooldown)) (\<lambda>due. Inr (flt_add due (flt_neg now_ts))))"

definition can_poll_home :: "datetime \<Rightarrow> flt option \<Rightarrow> limits \<Rightarrow> (bool \<times> int) res" where
  "can_poll_home now now_ts lm =
     rbind (jget ''last_home_poll_ts'' (JInt 0) (load_state now lm)) (\<lambda>last_poll.
     rbind (remaining last_poll (lm_home_cooldown lm) (time_arg now now_ts)) (\<lambda>r.
       if flt_le r (Fin 0) then Inr (True, 0) else rbind (flt_int r) (\<lambda>i. Inr (False, i))))"

text \<open>What is left of the budget: only its sign is used.\<close>

definition budget_left :: "int \<Rightarrow> json \<Rightarrow> flt res" where
  "budget_left budget used =
     (case num_val used of
        None \<Rightarrow> Inl TypeError
      | Some (Fin x) \<Rightarrow> Inr (Fin (budget * ONE - x))
      | Some x \<Rightarrow> Inr (flt_neg x))"

definition positive :: "flt \<Rightarrow> bool" where "positive x = flt_less (Fin 0) x"
definition nonpositive :: "flt \<Rightarrow> bool" where "nonpositive x = flt_le x (Fin 0)"

definition decide_action :: "flt \<Rightarrow> flt \<Rightarrow> bool \<times> string option" where
  "decide_action left daily =
     (if positive left \<and> positive daily then (False, Some ''cooldown'')
      else if positive left \<and> nonpositive daily then (False, Some ''daily_limit'')
      else if nonpositive left \<and> nonpositive daily then (False, Some ''both'')
      else (True, None))"

definition can_execute_action :: "datetime \<Rightarrow> flt option \<Rightarrow> limits \<Rightarrow> (bool \<times> string option) res" where
  "can_execute_action now now_ts lm =
     (let state = load_state now lm in
      rbind (jget ''last_action_ts'' (JInt 0) state) (\<lambda>last_action.
      rbind (if num_val last_action = Some (Fin 0) then Inr (Fin 0)
             else remaining last_action (lm_action_cooldown lm) (time_arg now now_ts)) (\<lambda>left.
      rbind (jget ''actions_today_count'' (JInt 0) state) (\<lambda>count.
      rbind (jget ''actions_today_date'' (JStr []) state) (\<lambda>state_date.
      rbind (budget_left (lm_daily_budget lm) (if state_date \<noteq> JStr (stamp_date now) then JInt 0 else count)) (\<lambda>daily.
        Inr (decide_action left daily)))))))"

section \<open>Markers\<close>

type_synonym 'a limits_op = "limits \<Rightarrow> limits \<times> 'a res"

definition save_res :: "bool \<Rightarrow> json res \<Rightarrow> bool limits_op" where
  "save_res disk r lm = (case r of Inl err \<Rightarrow> (lm, Inl err) | Inr state \<Rightarrow> (let (lm', b) = save_state disk state lm in (lm', Inr b)))"

definition mark_home_polled :: "bool \<Rightarrow> datetime \<Rightarrow> flt option \<Rightarrow> bool limits_op" where
  "mark_home_polled disk now now_ts lm =
     save_res disk (jset ''last_home_poll_ts'' (flt_json (time_arg now now_ts)) (load_state now lm)) lm"

definition mark_action_executed :: "bool \<Rightarrow> datetime \<Rightarrow> flt option \<Rightarrow> bool limits_op" where
  "mark_action_executed disk now now_ts lm =
     (let state = load_state now lm; today = JStr (stamp_date now) in
      save_res disk
        (rbind (jget ''actions_today_date'' (JStr []) state) (\<lambda>state_date.
         rbind (if state_date \<noteq> today
                then rbind (jset ''actions_today_count'' (JInt 0) state) (jset ''actions_today_date'' today)
                else Inr state) (\<lambda>s1.
         rbind (jset ''last_action_ts'' (flt_json (time_arg now now_ts)) s1) (\<lambda>s2.
         rbind (jsub ''actions_today_count'' s2) (\<lambda>count.
         rbind (plus_one count) (\<lambda>c. jset ''actions_today_count'' c s2)))))) lm)"

text \<open>\<^verbatim>\<open>state[k] = state.get(k, 0) + 1\<close>.\<close>

definition count_skip :: "string \<Rightarrow> json \<Rightarrow> json res" where
  "count_skip k state = rbind (jget k (JInt 0) state) (\<lambda>n. rbind (plus_one n) (\<lambda>m. jset k m state))"

definition mark_home_poll_skipped :: "bool \<Rightarrow> datetime \<Rightarrow> bool limits_op" where
  "mark_home_poll_skipped disk now lm = save_res disk (count_skip ''skipped_home_polls'' (load_state now lm)) lm"

definition mark_action_skipped_cooldown :: "bool \<Rightarrow> datetime \<Rightarrow> string option \<Rightarrow> bool limits_op" where
  "mark_action_skipped_cooldown disk now reason lm =
     (let state = load_state now lm in
      save_res disk
        (if reason = Some ''cooldown'' then count_skip ''skipped_actions_cooldown'' state
         else if reason = Some ''daily_limit'' then count_skip ''skipped_actions_daily_limit'' state
         else Inr state) lm)"

definition get_state :: "datetime \<Rightarrow> limits \<Rightarrow> json" where
  "get_state now lm = load_state now lm"

end
