(* ===== verification/Session_Graph.thy ===== *)
theory Session_Graph
  imports Session_Limits Events
begin

text \<open>
  \<^verbatim>\<open>src/dsm/session/session_graph.py\<close>: sessions as events of the shard \<open>sessions\<close>. A graph has
  at most one active session; actions are written twice, as an intent before and as a
  result after they run. What an operation takes from its environment, the hash function,
  the clock, fresh identifiers and the disk of the limits file, is a record. The objects a
  caller may pass to \<open>end_session\<close> are parameters: what calling them does to the storage.
\<close>

section \<open>State\<close>

record session =
  ss_fs :: fs
  ss_limits :: limits
  ss_id :: "string option"
  ss_start :: "datetime option"
  ss_source :: "string option"

definition new_session_graph :: "fs \<Rightarrow> limits \<Rightarrow> session" where
  "new_session_graph s lm = \<lparr>ss_fs = s, ss_limits = lm, ss_id = None, ss_start = None, ss_source = None\<rparr>"

record senv =
  sv_sha :: sha
  sv_now :: datetime
  sv_uuid :: string
  sv_tag :: string
  sv_disk :: bool

definition SESSIONS_SHARD :: string where "SESSIONS_SHARD = ''sessions''"

definition session_event :: "senv \<Rightarrow> string \<Rightarrow> string \<Rightarrow> (string \<times> json) list \<Rightarrow> (string \<times> json) list \<Rightarrow> entry" where
  "session_event env sid src doc meta =
     \<lparr>eid = JStr (sv_uuid env), timestamp = sv_now env, session_id = JStr sid, source = JStr src,
      content = JStr (dumps_raw spaced_ascii (JObj doc)), shard = JStr SESSIONS_SHARD, hash = JStr [], prev_hash = JNull,
      metadata = JObj meta, version = JStr ''v2.0''\<rparr>"

text \<open>Appending an event: an error of the disk is logged and gives no entry.\<close>

definition log_event :: "senv \<Rightarrow> entry \<Rightarrow> (session, entry option) op" where
  "log_event env e g =
     (let (s, r) = append (sv_sha env) (sv_now env) e (ss_fs g); g1 = g\<lparr>ss_fs := s\<rparr>
      in case r of Inr w \<Rightarrow> (g1, Inr (Some w)) | Inl OSError \<Rightarrow> (g1, Inr None) | Inl err \<Rightarrow> (g1, Inl err))"

definition on_limits :: "'a limits_op \<Rightarrow> (session, 'a) op" where
  "on_limits f g = (let (lm, r) = f (ss_limits g) in (g\<lparr>ss_limits := lm\<rparr>, r))"

definition or_text :: "string option \<Rightarrow> string \<Rightarrow> string" where
  "or_text v d = (case v of None \<Rightarrow> d | Some t \<Rightarrow> if t = [] then d else t)"

definition opt_json :: "string option \<Rightarrow> json" where
  "opt_json v = (case v of None \<Rightarrow> JNull | Some t \<Rightarrow> JStr t)"

section \<open>End and start\<close>

type_synonym hook = "(string \<Rightarrow> fs \<Rightarrow> fs) option"

definition run_hook :: "hook \<Rightarrow> string option \<Rightarrow> fs \<Rightarrow> fs" where
  "run_hook h src s = (case h of None \<Rightarrow> s | Some f \<Rightarrow> f (or_text src ''unknown'') s)"

definition end_doc :: "datetime \<Rightarrow> datetime \<Rightarrow> string option \<Rightarrow> (string \<times> json) list" where
  "end_doc start stop src =
     [(''end_time'', JStr (isoformat stop)), (''start_time'', JStr (isoformat start)),
      (''duration_seconds'', flt_json (Fin (ffrac (instant stop - instant start) 1000000))), (''source'', opt_json src)]"

definition end_session :: "senv \<Rightarrow> hook \<Rightarrow> hook \<Rightarrow> (session, entry option) op" where
  "end_session env sync lifecycle g =
     (case ss_id g of
        None \<Rightarrow> (g, Inr None)
      | Some sid \<Rightarrow>
          (case ss_start g of
             None \<Rightarrow> (g, Inl AttributeError)
           | Some start \<Rightarrow>
               sbind (log_event env (session_event env sid (or_text (ss_source g) ''session_graph'')
                   (end_doc start (sv_now env) (ss_source g)) [(''event_type'', JStr ''session_end'')]))
                 (\<lambda>w g1. case w of
                    None \<Rightarrow> (g1, Inr None)
                  | Some e \<Rightarrow>
                      (g1\<lparr>ss_fs := run_hook lifecycle (ss_source g1) (run_hook sync (ss_source g1) (ss_fs g1)),
                          ss_id := None, ss_start := None, ss_source := None\<rparr>, Inr (Some e))) g))"

definition session_name :: "senv \<Rightarrow> string" where
  "session_name env = ''session_'' @ show_int (ftrunc (clock_ts (sv_now env))) @ ''_'' @ sv_tag env"

definition open_session :: "senv \<Rightarrow> string \<Rightarrow> (session, entry option) op" where
  "open_session env src g =
     log_event env
       (session_event env (session_name env) src
          [(''start_time'', JStr (isoformat (sv_now env))), (''source'', JStr src)] [(''event_type'', JStr ''session_start'')])
       (g\<lparr>ss_id := Some (session_name env), ss_start := Some (sv_now env), ss_source := Some src\<rparr>)"

text \<open>A session that is still active is closed first.\<close>

definition start_session :: "senv \<Rightarrow> senv \<Rightarrow> string \<Rightarrow> (session, entry option) op" where
  "start_session env0 env src g =
     sbind (if ss_id g \<noteq> None then end_session env0 None None else ret None) (\<lambda>_. open_session env src) g"

section \<open>Snapshots and actions\<close>

definition snapshot_doc :: "senv \<Rightarrow> json \<Rightarrow> (string \<times> json) list" where
  "snapshot_doc env data = [(''snapshot_data'', data), (''timestamp'', JStr (isoformat (sv_now env)))]"

definition write_snapshot :: "senv \<Rightarrow> string \<Rightarrow> json \<Rightarrow> (session, entry option) op" where
  "write_snapshot env sid data g =
     sbind (log_event env (session_event env sid (or_text (ss_source g) ''session_graph'') (snapshot_doc env data)
              [(''event_type'', JStr ''snapshot'')]))
       (\<lambda>w. case w of
          None \<Rightarrow> ret None
        | Some e \<Rightarrow> sbind (on_limits (mark_home_polled (sv_disk env) (sv_now env) None)) (\<lambda>_. ret (Some e))) g"

definition record_snapshot :: "senv \<Rightarrow> json \<Rightarrow> (session, entry option) op" where
  "record_snapshot env data g =
     (case ss_id g of
        None \<Rightarrow> (g, Inr None)
      | Some sid \<Rightarrow>
          if sid = [] then (g, Inr None)
          else
            sbind (of_res (can_poll_home (sv_now env) None (ss_limits g))) (\<lambda>(can_poll, reason).
              if \<not> can_poll then sbind (on_limits (mark_home_poll_skipped (sv_disk env) (sv_now env))) (\<lambda>_. ret None)
              else write_snapshot env sid data) g)"

definition intent_doc :: "string \<Rightarrow> json \<Rightarrow> (string \<times> json) list" where
  "intent_doc action_name payload =
     [(''action_name'', JStr action_name), (''payload'', if truthy payload then payload else JObj [])]"

definition intent_meta :: "senv \<Rightarrow> string \<Rightarrow> (string \<times> json) list" where
  "intent_meta env action_name =
     [(''event_type'', JStr ''action_intent''), (''action_name'', JStr action_name), (''intent_id'', JStr (sv_uuid env))]"

definition execute_action :: "senv \<Rightarrow> string \<Rightarrow> json \<Rightarrow> (session, entry option) op" where
  "execute_action env action_name payload g =
     (case ss_id g of
        None \<Rightarrow> (g, Inr None)
      | Some sid \<Rightarrow>
          sbind (of_res (can_execute_action (sv_now env) None (ss_limits g))) (\<lambda>(can_execute, reason).
            if \<not> can_execute then
              sbind (on_limits (mark_action_skipped_cooldown (sv_disk env) (sv_now env) reason)) (\<lambda>_. ret None)
            else log_event env (session_event env sid ''session_graph'' (intent_doc action_name payload) (intent_meta env action_name))) g)"

definition given :: "string option \<Rightarrow> bool" where
  "given v = (case v of None \<Rightarrow> False | Some t \<Rightarrow> t \<noteq> [])"

definition result_doc :: "json \<Rightarrow> bool \<Rightarrow> string option \<Rightarrow> string option \<Rightarrow> (string \<times> json) list" where
  "result_doc result_data success input_hash input_preview =
     [(''result'', if truthy result_data then result_data else JObj []), (''success'', JBool success)] @
     (if given input_hash then [(''input_hash'', opt_json input_hash)] else []) @
     (if given input_preview then [(''input_preview'', JStr (take 200 (the input_preview)))] else [])"

definition result_meta :: "string \<Rightarrow> bool \<Rightarrow> string option \<Rightarrow> (string \<times> json) list" where
  "result_meta intent_id success input_hash =
     [(''event_type'', JStr ''action_result''), (''intent_id'', JStr intent_id), (''success'', JBool success)] @
     (if given input_hash then [(''input_hash'', opt_json input_hash)] else [])"

definition confirm_action ::
    "senv \<Rightarrow> string \<Rightarrow> json \<Rightarrow> bool \<Rightarrow> string option \<Rightarrow> string option \<Rightarrow> (session, entry option) op" where
  "confirm_action env intent_id result_data success input_hash input_preview g =
     (case ss_id g of
        None \<Rightarrow> (g, Inr None)
      | Some sid \<Rightarrow>
          sbind (log_event env (session_event env sid ''session_graph'' (result_doc result_data success input_hash input_preview)
                   (result_meta intent_id success input_hash)))
            (\<lambda>w. case w of
               None \<Rightarrow> ret None
             | Some e \<Rightarrow> sbind (on_limits (mark_action_executed (sv_disk env) (sv_now env) None)) (\<lambda>_. ret (Some e))) g)"

section \<open>Orphaned intents\<close>

type_synonym intents = "(json \<times> entry) list \<times> json list"

definition scan_intent :: "entry \<Rightarrow> intents \<Rightarrow> intents res" where
  "scan_intent e acc =
     rbind (jget ''event_type'' JNull (metadata e)) (\<lambda>ty.
     rbind (jget ''intent_id'' JNull (metadata e)) (\<lambda>i.
       if ty = JStr ''action_intent'' \<and> truthy i then rbind (hashable i) (\<lambda>_. Inr (dput i e (fst acc), snd acc))
       else if ty = JStr ''action_result'' \<and> truthy i then rbind (hashable i) (\<lambda>_. Inr (fst acc, i # snd acc))
       else Inr acc))"

definition find_orphaned_intents :: "int \<Rightarrow> (session, entry list) op" where
  "find_orphaned_intents limit g =
     (let (s, r) = read SESSIONS_SHARD 0 limit (ss_fs g) in
      (g\<lparr>ss_fs := s\<rparr>,
       rbind r (\<lambda>entries.
       rbind (fold_res scan_intent entries ([], [])) (\<lambda>(intents, results).
         Inr (map snd (filter (\<lambda>(i, e). i \<notin> set results) intents))))))"

definition get_session_id :: "session \<Rightarrow> string option" where
  "get_session_id g = ss_id g"

definition is_session_active :: "session \<Rightarrow> bool" where
  "is_session_active g = (ss_id g \<noteq> None)"

end
