(* ===== verification/Session_Laws.thy ===== *)
theory Session_Laws
  imports Session_Graph Verify_Laws
begin

text \<open>
  Laws of the session layer: the arithmetic of the cooldowns in floating point, the state
  document of the limits and the operations on it, and the events a session graph writes.
\<close>

section \<open>Cooldown arithmetic\<close>

lemma double_1: "is_double 1"
  using double_significand [of 1 0] by simp

lemma fadd_sign: "(0 < fadd x y) = (0 < x + y)" "(fadd x y \<le> 0) = (x + y \<le> 0)"
proof -
  have "0 < rnd a 1" if "0 < a" for a
    using rnd_mono [of 1 1 1 a] that double_1 by (simp add: is_double_def)
  moreover have "rnd a 1 \<le> 0" if "a \<le> 0" for a
    using rnd_mono [of 1 1 a 0] that by simp
  ultimately show "(0 < fadd x y) = (0 < x + y)" "(fadd x y \<le> 0) = (x + y \<le> 0)"
    unfolding fadd_def by (meson not_le)+
qed

lemma rnd_bound:
  assumes "\<bar>a\<bar> \<le> 2 ^ n" and "53 \<le> n"
  shows "\<bar>rnd a 1\<bar> \<le> 2 ^ n"
proof -
  have d: "rnd (2 ^ n) 1 = 2 ^ n" using double_pow [OF assms(2)] by (simp add: is_double_def)
  then have "rnd a 1 \<le> 2 ^ n" using rnd_mono [of 1 1 a "2 ^ n"] assms(1) by simp
  moreover have "rnd (- (2 ^ n)) 1 = - (2 ^ n)" using d by (simp add: rnd_def)
  then have "- (2 ^ n) \<le> rnd a 1" using rnd_mono [of 1 1 "- (2 ^ n)" a] assms(1) by simp
  ultimately show ?thesis by simp
qed

text \<open>Magnitudes of times: well below the largest double.\<close>

definition small :: "nat \<Rightarrow> int \<Rightarrow> bool" where
  "small n x = (\<bar>x\<bar> \<le> 2 ^ (1074 + n))"

lemma small_add: "small n x \<Longrightarrow> small n y \<Longrightarrow> small (Suc n) (x + y)"
  unfolding small_def add_Suc_right power_Suc by linarith

lemma small_fadd: "small n x \<Longrightarrow> small n y \<Longrightarrow> small (Suc n) (fadd x y)"
  using rnd_bound [of "x + y" "1074 + Suc n"] small_add [of n x y] by (simp add: small_def fadd_def)

lemma small_mono: "small m x \<Longrightarrow> m \<le> n \<Longrightarrow> small n x"
  unfolding small_def by (rule order_trans) (auto intro: power_increasing)

lemma small_finite: "small n x \<Longrightarrow> n < 1024 \<Longrightarrow> finite_or_inf x = Fin x"
proof -
  assume a: "small n x" "n < 1024"
  have "(2::int) ^ (1074 + n) < 2 ^ (1074 + 1024)" using a(2) by (intro power_strict_increasing) simp_all
  also have "\<dots> = 2 ^ 1024 * ONE" unfolding ONE_def power_add by (simp only: mult.commute)
  finally show ?thesis using a(1) by (intro finite_or_inf_small) (simp only: small_def)
qed

lemma small_below: "small n x \<Longrightarrow> n < 1024 \<Longrightarrow> x < 2 ^ 1024 * ONE"
proof -
  assume a: "small n x" "n < 1024"
  have "(2::int) ^ (1074 + n) < 2 ^ (1074 + 1024)" using a(2) by (intro power_strict_increasing) simp_all
  also have "\<dots> = 2 ^ 1024 * ONE" unfolding ONE_def power_add by (simp only: mult.commute)
  finally show ?thesis using a(1) unfolding small_def by linarith
qed

lemma fof_int_exact:
  assumes "0 \<le> c" and "c \<le> 2 ^ 53"
  shows "fof_int c = c * ONE"
  using double_significand [OF assms, of 1074] by (simp only: fof_int_def ONE_def is_double_def)

definition cooldown_ok :: "int \<Rightarrow> bool" where
  "cooldown_ok c = (0 \<le> c \<and> c \<le> 1000000)"

lemma cooldown_value:
  assumes "cooldown_ok c"
  shows "fof_int c = c * ONE" and "small 100 (c * ONE)"
proof -
  show "fof_int c = c * ONE" using assms fof_int_exact [of c] by (simp add: cooldown_ok_def)
  have "0 \<le> c * ONE" using assms less_imp_le [OF ONE_pos] by (intro mult_nonneg_nonneg) (simp_all add: cooldown_ok_def)
  moreover have "c * ONE \<le> 2 ^ 100 * ONE" using assms less_imp_le [OF ONE_pos] by (intro mult_right_mono) (simp_all add: cooldown_ok_def)
  moreover have "2 ^ 100 * ONE = 2 ^ (1074 + 100)" unfolding ONE_def power_add by (simp only: mult.commute)
  ultimately show "small 100 (c * ONE)" unfolding small_def by linarith
qed

section \<open>The clock\<close>

definition good_clock :: "datetime \<Rightarrow> bool" where
  "good_clock now = (valid_dt now \<and> tz now = Some 0 \<and> 1971 \<le> year now)"

lemma clock_instant:
  assumes "good_clock now"
  shows "0 < instant now - instant EPOCH" and "instant now - instant EPOCH < 2 ^ 60"
proof -
  have y: "valid_dt now" "1971 \<le> year now" "tz now = Some 0" using assms by (simp_all add: good_clock_def)
  have d: "days_before_year 1971 \<le> days_before_year (year now)"
    using days_before_year_mono [of 1971 "year now - 1971"] y(2) by simp
  have e: "instant EPOCH = 62135683200000000" by (simp add: instant_def EPOCH_def days_before_year_def days_before_month_def Let_def)
  have n: "instant now = ((int (days_before_year (year now) + days_before_month (year now) (month now) + day now) * 1440 +
      (60 * int (hour now) + int (minute now))) * 60 + int (second now)) * 1000000 + int (micro now)"
    using y(3) by (simp add: instant_def Let_def)
  define D where "D = int (days_before_year (year now) + days_before_month (year now) (month now) + day now)"
  have pos: "0 \<le> int (hour now)" "0 \<le> int (minute now)" "0 \<le> int (second now)" "0 \<le> int (micro now)" by simp_all
  have "days_before_year 1971 = 719527" by (simp add: days_before_year_def Let_def)
  moreover have "1 \<le> day now" using y(1) by (simp add: valid_dt_def)
  ultimately have "719528 \<le> D" using d by (simp add: D_def)
  then show "0 < instant now - instant EPOCH" using pos unfolding n e D_def [symmetric] by (simp add: algebra_simps)
  have v: "year now \<le> 9999" "month now \<le> 12" "day now \<le> 31" "hour now < 24" "minute now < 60" "second now < 60" "micro now < 1000000"
    using y(1) by (auto simp: valid_dt_def days_in_month_def split: if_splits)
  have "days_before_year (year now) \<le> 366 * 9999" using v(1) by (simp add: days_before_year_def Let_def)
  moreover have "days_before_month (year now) (month now) \<le> 366"
    using days_before_month_le [of "month now" "year now"] v(2) by (auto split: if_splits)
  ultimately have "D \<le> 3700000" using v(3) by (simp add: D_def)
  then have "instant now - instant EPOCH < 10 ^ 18" using v(4-7) unfolding n e D_def [symmetric] by simp
  also have "(10::int) ^ 18 < 2 ^ 60" by simp
  finally show "instant now - instant EPOCH < 2 ^ 60" .
qed

lemma clock_ts_ok:
  assumes "good_clock now"
  shows "is_double (clock_ts now)" and "0 < clock_ts now" and "small 100 (clock_ts now)"
proof -
  let ?u = "instant now - instant EPOCH"
  note u = clock_instant [OF assms]
  show "is_double (clock_ts now)" by (simp add: clock_ts_def)
  have "rnd 1 1 \<le> rnd (?u * ONE) 1000000"
  proof (rule rnd_mono)
    have "(1000000::int) \<le> 2 ^ 1074" by simp
    then have "1000000 \<le> ONE" by (simp only: ONE_def)
    also have "ONE \<le> ?u * ONE" using u(1) ONE_pos mult_right_mono [of 1 ?u ONE] by simp
    finally show "1 * 1000000 \<le> ?u * ONE * 1" by simp
  qed simp_all
  then show "0 < clock_ts now" using double_1 by (simp add: clock_ts_def ffrac_def is_double_def)
  have "rnd (?u * ONE) 1000000 \<le> rnd (2 ^ (1074 + 100)) 1"
  proof (rule rnd_mono)
    have "?u * ONE \<le> 2 ^ 100 * ONE" using u(2) less_imp_le [OF ONE_pos] by (intro mult_right_mono) simp_all
    also have "\<dots> = 2 ^ (1074 + 100)" unfolding ONE_def power_add by (simp only: mult.commute)
    finally have "?u * ONE \<le> 2 ^ (1074 + 100)" .
    moreover have "(0::int) \<le> 2 ^ (1074 + 100)" by (rule zero_le_power) simp
    ultimately show "?u * ONE * 1 \<le> 2 ^ (1074 + 100) * 1000000" by linarith
  qed simp_all
  then have "clock_ts now \<le> 2 ^ (1074 + 100)"
    using double_pow [of "1074 + 100"] by (simp only: clock_ts_def ffrac_def is_double_def)
  then show "small 100 (clock_ts now)" using \<open>0 < clock_ts now\<close> unfolding small_def by (simp only: abs_of_pos)
qed

text \<open>On whole seconds the arithmetic is exact.\<close>

lemma clock_whole:
  assumes "instant now - instant EPOCH = k * 1000000" and "0 \<le> k" and "k \<le> 2 ^ 53"
  shows "clock_ts now = k * ONE"
proof -
  have "ffrac (k * 1000000) 1000000 = rnd (k * ONE * 1000000) (1 * 1000000)" by (simp add: ffrac_def ac_simps)
  also have "\<dots> = rnd (k * ONE) 1" by (rule rnd_scale) simp_all
  also have "\<dots> = k * ONE" using fof_int_exact [OF assms(2,3)] by (simp add: fof_int_def)
  finally show ?thesis unfolding clock_ts_def assms(1) .
qed

lemma fadd_whole: "0 \<le> j + k \<Longrightarrow> j + k \<le> 2 ^ 53 \<Longrightarrow> fadd (j * ONE) (k * ONE) = (j + k) * ONE"
  using fof_int_exact [of "j + k"] by (simp only: fadd_def fof_int_def distrib_right)

section \<open>The document of the limits\<close>

definition lim_doc :: "json \<Rightarrow> json \<Rightarrow> int \<Rightarrow> string \<Rightarrow> int \<Rightarrow> int \<Rightarrow> int \<Rightarrow> json" where
  "lim_doc poll act n date a b c =
     JObj [(''last_home_poll_ts'', poll), (''last_action_ts'', act), (''actions_today_count'', JInt n),
       (''actions_today_date'', JStr date), (''skipped_home_polls'', JInt a),
       (''skipped_actions_cooldown'', JInt b), (''skipped_actions_daily_limit'', JInt c)]"

text \<open>A recorded time: none yet, or a float of the clock.\<close>

definition time_value :: "json \<Rightarrow> int \<Rightarrow> bool" where
  "time_value v x = (v = JInt 0 \<and> x = 0 \<or> v = flt_json (Fin x) \<and> is_double x \<and> 0 < x \<and> small 100 x)"

definition config_ok :: "limits \<Rightarrow> bool" where
  "config_ok lm = (cooldown_ok (lm_home_cooldown lm) \<and> cooldown_ok (lm_action_cooldown lm))"

definition limits_ok :: "limits \<Rightarrow> bool" where
  "limits_ok lm =
     (config_ok lm \<and>
      (\<forall>j. lm_file lm = Doc j \<longrightarrow>
         (\<exists>poll act n date a b c x y. j = lim_doc poll act n date a b c \<and> time_value poll x \<and> time_value act y)))"

lemma load_ok:
  assumes "limits_ok lm"
  obtains poll act n date a b c x y where "load_state now lm = lim_doc poll act n date a b c" "time_value poll x" "time_value act y"
proof (cases "lm_file lm")
  case (Doc j)
  with assms that show ?thesis unfolding limits_ok_def load_state_def by fastforce
next
  case Missing
  with that [of "JInt 0" "JInt 0" 0 "stamp_date now" 0 0 0 0 0] show ?thesis
    by (simp add: load_state_def default_state_def lim_doc_def time_value_def)
next
  case Unreadable
  with that [of "JInt 0" "JInt 0" 0 "stamp_date now" 0 0 0 0 0] show ?thesis
    by (simp add: load_state_def default_state_def lim_doc_def time_value_def)
qed

text \<open>The time from which on an operation is allowed again.\<close>

definition due :: "int \<Rightarrow> int \<Rightarrow> int" where "due x c = fadd x (c * ONE)"

lemma due_0: "cooldown_ok c \<Longrightarrow> due 0 c = c * ONE"
  using cooldown_value(1) [of c] double_ops(3) [of c] by (simp add: due_def fadd_def is_double_def)

lemma remaining_value:
  assumes "time_value v x" and "cooldown_ok c" and "small 100 t"
  shows "remaining v c (Fin t) = Inr (Fin (fadd (due x c) (- t)))"
proof -
  note cv = cooldown_value [OF assms(2)]
  have x: "small 100 x" using assms(1) by (auto simp: time_value_def small_def)
  have d: "small 101 (due x c)" unfolding due_def using small_fadd [OF x cv(2)] by simp
  have t: "small 101 (- t)" using small_mono [OF assms(3), of 101] by (simp add: small_def)
  have f: "finite_or_inf (fadd (due x c) (- t)) = Fin (fadd (due x c) (- t))"
    using small_finite [OF small_fadd [OF d t]] by simp
  have "rbind (num_of v) (\<lambda>n. num_float (num_plus n c)) = Inr (Fin (due x c))"
  proof (cases "v = JInt 0 \<and> x = 0")
    case True
    have "small 100 \<bar>c * ONE\<bar>" using cv(2) by (simp only: small_def abs_idempotent)
    from small_below [OF this] have "\<not> 2 ^ 1024 * ONE \<le> \<bar>c * ONE\<bar>" unfolding not_le by simp
    then have "py_float (\<lambda>_. None) (JInt c) = Inr (Fin (c * ONE))" unfolding py_float_def json.case cv(1) by (simp only: if_False)
    then show ?thesis using True due_0 [OF assms(2)] by (simp add: num_of_def)
  next
    case False
    then have v: "v = flt_json (Fin x)" "is_double x" "0 < x" using assms(1) by (auto simp: time_value_def)
    have "num_of v = Inr (PFlt (Fin x))" using v small_below [OF x] by simp
    moreover have "finite_or_inf (fadd x (c * ONE)) = Fin (fadd x (c * ONE))"
      using small_finite [OF small_fadd [OF x cv(2)]] by simp
    ultimately show ?thesis using cv(1) by (simp add: due_def)
  qed
  then obtain n where "num_of v = Inr n" "num_float (num_plus n c) = Inr (Fin (due x c))" by (cases "num_of v") auto
  with f show ?thesis by (simp add: remaining_def)
qed

lemma time_value_clock: "good_clock now \<Longrightarrow> time_value (flt_json (Fin (clock_ts now))) (clock_ts now)"
  using clock_ts_ok by (simp add: time_value_def)

lemma time_value_zero:
  assumes "time_value v x"
  shows "(num_val v = Some (Fin 0)) = (x = 0)"
proof (cases "v = JInt 0 \<and> x = 0")
  case False
  then have v: "v = flt_json (Fin x)" "is_double x" "0 < x" "small 100 x" using assms by (auto simp: time_value_def)
  then have "float_of_lex (float_repr x) = Fin x" using float_repr_reads_back small_below [OF v(4)] by simp
  then show ?thesis using v by (simp add: flt_json_def num_val_def)
qed (simp add: num_val_def)

lemma units_sign: "(0 < k * ONE) = (0 < k)" "(k * ONE \<le> 0) = (k \<le> 0)"
  using mult_less_cancel_right_pos [OF ONE_pos, of 0 k] mult_le_cancel_right_pos [OF ONE_pos, of k 0] by simp_all

text \<open>The two checks.\<close>

lemma can_poll_value:
  assumes "load_state now lm = lim_doc poll act n date a b c" and "time_value poll x" and "config_ok lm" and "good_clock now"
  shows "\<exists>i. can_poll_home now None lm = Inr (due x (lm_home_cooldown lm) \<le> clock_ts now, i)"
proof -
  have "remaining poll (lm_home_cooldown lm) (Fin (clock_ts now)) = Inr (Fin (fadd (due x (lm_home_cooldown lm)) (- clock_ts now)))"
    using remaining_value [OF assms(2)] assms(3) clock_ts_ok(3) [OF assms(4)] by (simp add: config_ok_def)
  moreover have "flt_le (Fin (fadd (due x (lm_home_cooldown lm)) (- clock_ts now))) (Fin 0) = (due x (lm_home_cooldown lm) \<le> clock_ts now)"
    using fadd_sign(2) [of "due x (lm_home_cooldown lm)" "- clock_ts now"] by auto
  ultimately show ?thesis using assms(1)
    by (auto simp: can_poll_home_def lim_doc_def time_arg_def flt_int_def)
qed

text \<open>What the check of an action answers, by the last action, its number on its day and the date.\<close>

definition action_answer :: "bool \<Rightarrow> bool \<Rightarrow> bool \<times> string option" where
  "action_answer cooling spent =
     (if cooling \<and> \<not> spent then (False, Some ''cooldown'')
      else if cooling then (False, Some ''daily_limit'')
      else if spent then (False, Some ''both'')
      else (True, None))"

lemma can_execute_value:
  assumes "load_state now lm = lim_doc poll act n date a b c" and "time_value act y" and "config_ok lm" and "good_clock now"
  shows "can_execute_action now None lm =
    Inr (action_answer (y \<noteq> 0 \<and> clock_ts now < due y (lm_action_cooldown lm))
      (lm_daily_budget lm \<le> (if date = stamp_date now then n else 0)))"
proof -
  let ?d = "due y (lm_action_cooldown lm)" and ?m = "if date = stamp_date now then n else 0"
  have r: "remaining act (lm_action_cooldown lm) (Fin (clock_ts now)) = Inr (Fin (fadd ?d (- clock_ts now)))"
    using remaining_value [OF assms(2)] assms(3) clock_ts_ok(3) [OF assms(4)] by (simp add: config_ok_def)
  have s: "positive (Fin (fadd ?d (- clock_ts now))) = (clock_ts now < ?d)"
    "nonpositive (Fin (fadd ?d (- clock_ts now))) = (?d \<le> clock_ts now)"
    using fadd_sign [of ?d "- clock_ts now"] by (auto simp: positive_def nonpositive_def)
  have "lm_daily_budget lm * ONE - ?m * ONE = (lm_daily_budget lm - ?m) * ONE" by (simp only: left_diff_distrib)
  then have p: "positive (Fin (lm_daily_budget lm * ONE - ?m * ONE)) = (?m < lm_daily_budget lm)"
    "nonpositive (Fin (lm_daily_budget lm * ONE - ?m * ONE)) = (lm_daily_budget lm \<le> ?m)"
    using units_sign [of "lm_daily_budget lm - ?m"] by (auto simp: positive_def nonpositive_def simp del: units_sign)
  have z: "positive (Fin 0) = False" "nonpositive (Fin 0) = True" by (simp_all add: positive_def nonpositive_def)
  have "budget_left (lm_daily_budget lm) (if JStr date \<noteq> JStr (stamp_date now) then JInt 0 else JInt n) =
      Inr (Fin (lm_daily_budget lm * ONE - ?m * ONE))"
    by (simp add: budget_left_def num_val_def)
  then show ?thesis using assms(1) r time_value_zero [OF assms(2)] s p z
    by (cases "y = 0") (auto simp: can_execute_action_def lim_doc_def time_arg_def decide_action_def action_answer_def)
qed

text \<open>The markers.\<close>

lemma save_doc:
  "save_res disk (Inr j) lm = (if disk then (lm\<lparr>lm_file := Doc j\<rparr>, Inr True) else (lm, Inr False))"
  by (simp add: save_res_def save_state_def)

lemma mark_action_value:
  assumes "load_state now lm = lim_doc poll act n date a b c"
  shows "mark_action_executed disk now None lm =
    save_res disk (Inr (lim_doc poll (flt_json (Fin (clock_ts now)))
      (if date = stamp_date now then n + 1 else 1) (stamp_date now) a b c)) lm"
  using assms by (simp add: mark_action_executed_def lim_doc_def jset_def time_arg_def plus_one_def num_of_def Let_def)

lemma mark_other_values:
  assumes "load_state now lm = lim_doc poll act n date a b c"
  shows "mark_home_polled disk now None lm = save_res disk (Inr (lim_doc (flt_json (Fin (clock_ts now))) act n date a b c)) lm"
    and "mark_home_poll_skipped disk now lm = save_res disk (Inr (lim_doc poll act n date (a + 1) b c)) lm"
    and "mark_action_skipped_cooldown disk now reason lm =
      save_res disk (Inr (lim_doc poll act n date a (if reason = Some ''cooldown'' then b + 1 else b)
        (if reason = Some ''daily_limit'' then c + 1 else c))) lm"
  using assms by (simp_all add: mark_home_polled_def mark_home_poll_skipped_def mark_action_skipped_cooldown_def lim_doc_def
      jset_def time_arg_def count_skip_def plus_one_def num_of_def Let_def)

lemma save_ok:
  assumes "limits_ok lm" and "time_value poll x" and "time_value act y"
  shows "\<exists>lm' b'. save_res disk (Inr (lim_doc poll act n date a b c)) lm = (lm', Inr b') \<and> limits_ok lm'"
  using assms unfolding save_doc limits_ok_def config_ok_def by (cases disk; simp; blast)

lemma limits_ops_ok:
  assumes "limits_ok lm" and "good_clock now"
  shows "\<exists>lm' b. mark_home_polled disk now None lm = (lm', Inr b) \<and> limits_ok lm'"
    and "\<exists>lm' b. mark_home_poll_skipped disk now lm = (lm', Inr b) \<and> limits_ok lm'"
    and "\<exists>lm' b. mark_action_skipped_cooldown disk now reason lm = (lm', Inr b) \<and> limits_ok lm'"
    and "\<exists>lm' b. mark_action_executed disk now None lm = (lm', Inr b) \<and> limits_ok lm'"
    and "\<exists>b i. can_poll_home now None lm = Inr (b, i)"
    and "\<exists>b r. can_execute_action now None lm = Inr (b, r)"
proof -
  obtain poll act n date a b c x y where l: "load_state now lm = lim_doc poll act n date a b c" "time_value poll x" "time_value act y"
    using load_ok [OF assms(1)] .
  note t = time_value_clock [OF assms(2)] and cfg = assms(1) [unfolded limits_ok_def, THEN conjunct1]
  show "\<exists>lm' b. mark_home_polled disk now None lm = (lm', Inr b) \<and> limits_ok lm'"
    unfolding mark_other_values(1) [OF l(1)] by (rule save_ok [OF assms(1) t l(3)])
  show "\<exists>lm' b. mark_home_poll_skipped disk now lm = (lm', Inr b) \<and> limits_ok lm'"
    unfolding mark_other_values(2) [OF l(1)] by (rule save_ok [OF assms(1) l(2,3)])
  show "\<exists>lm' b. mark_action_skipped_cooldown disk now reason lm = (lm', Inr b) \<and> limits_ok lm'"
    unfolding mark_other_values(3) [OF l(1)] by (rule save_ok [OF assms(1) l(2,3)])
  show "\<exists>lm' b. mark_action_executed disk now None lm = (lm', Inr b) \<and> limits_ok lm'"
    unfolding mark_action_value [OF l(1)] by (rule save_ok [OF assms(1) l(2) t])
  show "\<exists>b i. can_poll_home now None lm = Inr (b, i)" using can_poll_value [OF l(1,2) cfg assms(2)] by blast
  show "\<exists>b r. can_execute_action now None lm = Inr (b, r)"
    using can_execute_value [OF l(1,3) cfg assms(2)] by (metis surj_pair)
qed

section \<open>Events\<close>

datatype event = Started | Snapped | Intended string | Finished string | Ended

fun event_kind :: "event \<Rightarrow> string" where
  "event_kind Started = ''session_start''"
| "event_kind Snapped = ''snapshot''"
| "event_kind (Intended i) = ''action_intent''"
| "event_kind (Finished i) = ''action_result''"
| "event_kind Ended = ''session_end''"

fun event_intent :: "event \<Rightarrow> json" where
  "event_intent (Intended i) = JStr i"
| "event_intent (Finished i) = JStr i"
| "event_intent _ = JNull"

definition event_records :: "entry \<Rightarrow> string \<times> event \<Rightarrow> bool" where
  "event_records e = (\<lambda>(sid, ev). session_id e = JStr sid \<and>
     jget ''event_type'' JNull (metadata e) = Inr (JStr (event_kind ev)) \<and>
     jget ''intent_id'' JNull (metadata e) = Inr (event_intent ev))"

text \<open>The rule of a session log, and the session that is open at its end.\<close>

fun bracketed :: "string option \<Rightarrow> (string \<times> event) list \<Rightarrow> string option option" where
  "bracketed active [] = Some active"
| "bracketed active ((sid, ev) # l) =
     (case active of
        None \<Rightarrow> if ev = Started then bracketed (Some sid) l else None
      | Some s \<Rightarrow> if s \<noteq> sid \<or> ev = Started then None else bracketed (if ev = Ended then None else Some s) l)"

lemma bracketed_snoc:
  "bracketed active (l @ [(sid, ev)]) =
    (case bracketed active l of None \<Rightarrow> None | Some cur \<Rightarrow> bracketed cur [(sid, ev)])"
  by (induction active l rule: bracketed.induct) (auto split: option.splits)

definition session_inv :: "sha \<Rightarrow> entry list \<Rightarrow> (string \<times> event) list \<Rightarrow> session \<Rightarrow> bool" where
  "session_inv sha es log g =
     (shard_inv sha SESSIONS_SHARD (ss_fs g) es \<and> mono_files (ss_fs g) = [] \<and> limits_ok (ss_limits g) \<and>
      list_all2 event_records es log \<and> bracketed None log = Some (ss_id g) \<and>
      (ss_id g \<noteq> None \<longrightarrow> ss_start g \<noteq> None \<and> ss_id g \<noteq> Some []))"

definition good_env :: "sha \<Rightarrow> senv \<Rightarrow> bool" where
  "good_env sha env = (sv_sha env = sha \<and> good_clock (sv_now env) \<and> sv_uuid env \<noteq> [])"

lemma event_append:
  assumes inv: "shard_inv sha SESSIONS_SHARD s es" and env: "good_env sha env" and meta: "meta_ok meta"
  shows "\<exists>s' w r. append (sv_sha env) (sv_now env) (session_event env sid src doc meta) s = (s', Inr w) \<and>
    shard_inv sha SESSIONS_SHARD s' (es @ [r]) \<and> mono_files s' = mono_files s \<and>
    session_id r = JStr sid \<and> metadata r = norm (JObj meta) \<and> eid r = JStr (sv_uuid env)"
proof -
  let ?e = "session_event env sid src doc meta"
  have acc: "acceptable ?e" and so: "shard_of ?e = Inr SESSIONS_SHARD"
    using env meta by (simp_all add: acceptable_def wf_entry_def session_event_def shard_of_def meta_ok_def good_env_def
        good_clock_def SESSIONS_SHARD_def)
  obtain s' w where app: "append sha (sv_now env) ?e s = (s', Inr w)"
    and inv': "shard_inv sha SESSIONS_SHARD s' (es @ [stored_entry sha SESSIONS_SHARD (tip es) ?e])"
    by (rule append_inv [OF inv acc so])
  obtain h where h: "compute_canonical_entry_hash sha ?e (tip es) = Inr h"
    using compute_hash_Inr [OF acc tip_json(2) [OF shard_invD(1) [OF inv]]] by blast
  have r: "session_id (stored_entry sha SESSIONS_SHARD (tip es) ?e) = JStr sid"
    "metadata (stored_entry sha SESSIONS_SHARD (tip es) ?e) = norm (JObj meta)"
    "eid (stored_entry sha SESSIONS_SHARD (tip es) ?e) = JStr (sv_uuid env)"
    using h by (simp_all add: stored_entry_def norm_entry_def session_event_def del: norm.simps(2))
  have "mono_files s' = mono_files s" using append_mono [of sha "sv_now env" ?e s] app by simp
  with app inv' r env show ?thesis unfolding good_env_def by blast
qed

text \<open>Writing an event that the rule allows keeps the invariant.\<close>

lemma log_event_inv:
  assumes inv: "session_inv sha es log g" and env: "good_env sha env" and meta: "meta_ok meta"
    and kind: "dget ''event_type'' meta = Some (JStr (event_kind ev))"
      "(case dget ''intent_id'' meta of None \<Rightarrow> JNull | Some v \<Rightarrow> v) = event_intent ev"
    and br: "bracketed (ss_id g) [(sid, ev)] = Some i" and g': "ss_fs g' = ss_fs g" "ss_limits g' = ss_limits g"
  shows "\<exists>s' w r. log_event env (session_event env sid src doc meta) g' = (g'\<lparr>ss_fs := s'\<rparr>, Inr (Some w)) \<and>
    eid r = JStr (sv_uuid env) \<and>
    (\<forall>h. h = g'\<lparr>ss_fs := s', ss_id := i\<rparr> \<and> (i \<noteq> None \<longrightarrow> ss_start g' \<noteq> None \<and> i \<noteq> Some []) \<longrightarrow>
       session_inv sha (es @ [r]) (log @ [(sid, ev)]) h) \<and>
    shard_inv sha SESSIONS_SHARD s' (es @ [r]) \<and> mono_files s' = [] \<and> list_all2 event_records (es @ [r]) (log @ [(sid, ev)])"
proof -
  have i: "shard_inv sha SESSIONS_SHARD (ss_fs g') es" "mono_files (ss_fs g') = []" using inv g' by (simp_all add: session_inv_def)
  obtain s' w r where a: "append (sv_sha env) (sv_now env) (session_event env sid src doc meta) (ss_fs g') = (s', Inr w)"
    "shard_inv sha SESSIONS_SHARD s' (es @ [r])" "mono_files s' = mono_files (ss_fs g')"
    "session_id r = JStr sid" "metadata r = norm (JObj meta)" "eid r = JStr (sv_uuid env)"
    using event_append [OF i(1) env meta, of sid src doc] by blast
  have "distinct (map fst meta)" using meta by (simp add: meta_ok_def)
  note j = jget_norm [OF this]
  have "event_intent ev = (case dget ''intent_id'' meta of None \<Rightarrow> JNull | Some v \<Rightarrow> norm v)"
    using kind(2) by (cases ev) (auto split: option.splits)
  then have "event_records r (sid, ev)" using a(4,5) j kind(1) by (simp add: event_records_def del: norm.simps(2))
  then have l: "list_all2 event_records (es @ [r]) (log @ [(sid, ev)])"
    using inv by (simp add: session_inv_def list_all2_appendI)
  have b: "bracketed None (log @ [(sid, ev)]) = Some i" using inv br by (simp add: session_inv_def bracketed_snoc)
  have "log_event env (session_event env sid src doc meta) g' = (g'\<lparr>ss_fs := s'\<rparr>, Inr (Some w))" using a(1) by (simp add: log_event_def)
  moreover have "session_inv sha (es @ [r]) (log @ [(sid, ev)]) (g'\<lparr>ss_fs := s', ss_id := i\<rparr>)"
    if "i \<noteq> None \<longrightarrow> ss_start g' \<noteq> None \<and> i \<noteq> Some []"
    using that a(2,3) l b inv g' i(2) by (simp add: session_inv_def)
  ultimately show ?thesis using a(2,3,6) l i(2) by (intro exI [where x = s'] exI [where x = w] exI [where x = r]) auto
qed

section \<open>Requests\<close>

datatype request =
    Start string
  | Snapshot json
  | Execute string json
  | Confirm string json bool "string option" "string option"
  | End

text \<open>A request with the environment it runs in, and the one for a session it closes first.\<close>

type_synonym step = "senv \<times> senv \<times> request"

fun serve :: "step \<Rightarrow> (session, entry option) op" where
  "serve (env0, env, Start src) = start_session env0 env src"
| "serve (env0, env, Snapshot data) = record_snapshot env data"
| "serve (env0, env, Execute name payload) = execute_action env name payload"
| "serve (env0, env, Confirm i data success h preview) = confirm_action env i data success h preview"
| "serve (env0, env, End) = end_session env None None"

fun serve_all :: "step list \<Rightarrow> (session, entry option list) op" where
  "serve_all [] = ret []"
| "serve_all (x # xs) = sbind (serve x) (\<lambda>r. sbind (serve_all xs) (\<lambda>rs. ret (r # rs)))"

definition good_step :: "sha \<Rightarrow> step \<Rightarrow> bool" where
  "good_step sha = (\<lambda>(env0, env, r). good_env sha env0 \<and> good_env sha env)"

lemma end_inv:
  assumes inv: "session_inv sha es log g" and env: "good_env sha env"
  shows "\<exists>g' w es' log'. end_session env None None g = (g', Inr w) \<and> session_inv sha es' log' g' \<and> ss_id g' = None"
proof (cases "ss_id g")
  case None
  then show ?thesis using inv by (auto simp: end_session_def)
next
  case (Some sid)
  then obtain st where st: "ss_start g = Some st" using inv by (auto simp: session_inv_def)
  have m: "meta_ok [(''event_type'', JStr ''session_end'')]" by (simp add: meta_ok_def)
  from log_event_inv [OF inv env m, of Ended sid None g "or_text (ss_source g) ''session_graph''" "end_doc st (sv_now env) (ss_source g)"] Some
  obtain s' w r where l: "log_event env (session_event env sid (or_text (ss_source g) ''session_graph'')
      (end_doc st (sv_now env) (ss_source g)) [(''event_type'', JStr ''session_end'')]) g = (g\<lparr>ss_fs := s'\<rparr>, Inr (Some w))"
    "session_inv sha (es @ [r]) (log @ [(sid, Ended)]) (g\<lparr>ss_fs := s', ss_id := None\<rparr>)" by auto
  have "end_session env None None g = (g\<lparr>ss_fs := s', ss_id := None, ss_start := None, ss_source := None\<rparr>, Inr (Some w))"
    using l(1) Some st by (simp add: end_session_def sbind_def run_hook_def)
  moreover have "session_inv sha (es @ [r]) (log @ [(sid, Ended)]) (g\<lparr>ss_fs := s', ss_id := None, ss_start := None, ss_source := None\<rparr>)"
    using l(2) by (simp add: session_inv_def)
  ultimately show ?thesis by fastforce
qed

lemma open_inv:
  assumes inv: "session_inv sha es log g" and env: "good_env sha env" and idle: "ss_id g = None"
  shows "\<exists>g' w r. open_session env src g = (g', Inr w) \<and> session_inv sha (es @ [r]) (log @ [(session_name env, Started)]) g' \<and>
    ss_id g' = Some (session_name env) \<and> ss_limits g' = ss_limits g"
proof -
  let ?g = "g\<lparr>ss_id := Some (session_name env), ss_start := Some (sv_now env), ss_source := Some src\<rparr>"
  have m: "meta_ok [(''event_type'', JStr ''session_start'')]" by (simp add: meta_ok_def)
  have n: "session_name env \<noteq> []" by (simp add: session_name_def)
  from log_event_inv [OF inv env m, of Started "session_name env" "Some (session_name env)" ?g src
      "[(''start_time'', JStr (isoformat (sv_now env))), (''source'', JStr src)]"] idle n
  obtain s' w r where "log_event env (session_event env (session_name env) src
      [(''start_time'', JStr (isoformat (sv_now env))), (''source'', JStr src)] [(''event_type'', JStr ''session_start'')]) ?g
      = (?g\<lparr>ss_fs := s'\<rparr>, Inr (Some w))"
    "session_inv sha (es @ [r]) (log @ [(session_name env, Started)]) (?g\<lparr>ss_fs := s', ss_id := Some (session_name env)\<rparr>)" by auto
  moreover have "?g\<lparr>ss_fs := s', ss_id := Some (session_name env)\<rparr> = ?g\<lparr>ss_fs := s'\<rparr>" by simp
  ultimately show ?thesis
    by (intro exI [where x = "?g\<lparr>ss_fs := s'\<rparr>"] exI [where x = "Some w"] exI [where x = r]) (simp add: open_session_def)
qed

text \<open>An event inside the open session.\<close>

lemma inside_inv:
  assumes inv: "session_inv sha es log g" and env: "good_env sha env" and meta: "meta_ok meta" and act: "ss_id g = Some sid"
    and kind: "dget ''event_type'' meta = Some (JStr (event_kind ev))"
      "(case dget ''intent_id'' meta of None \<Rightarrow> JNull | Some v \<Rightarrow> v) = event_intent ev" and ev: "ev \<noteq> Started" "ev \<noteq> Ended"
  shows "\<exists>s' w r. log_event env (session_event env sid src doc meta) g = (g\<lparr>ss_fs := s'\<rparr>, Inr (Some w)) \<and>
    eid r = JStr (sv_uuid env) \<and> session_inv sha (es @ [r]) (log @ [(sid, ev)]) (g\<lparr>ss_fs := s'\<rparr>)"
proof -
  have b: "bracketed (ss_id g) [(sid, ev)] = Some (Some sid)" using act ev by simp
  have g: "g\<lparr>ss_fs := s, ss_id := Some sid\<rparr> = g\<lparr>ss_fs := s\<rparr>" for s using act by (cases g) simp
  have "ss_start g \<noteq> None \<and> Some sid \<noteq> Some []" using inv act by (auto simp: session_inv_def)
  with log_event_inv [OF inv env meta kind b refl refl, of src doc] g show ?thesis by auto
qed

lemma limits_inv:
  "session_inv sha es log g \<Longrightarrow> limits_ok lm \<Longrightarrow> session_inv sha es log (g\<lparr>ss_limits := lm\<rparr>)"
  by (simp add: session_inv_def)

lemma session_limits_ok: "session_inv sha es log g \<Longrightarrow> limits_ok (ss_limits g)"
  by (simp add: session_inv_def)

lemma snapshot_inv:
  assumes inv: "session_inv sha es log g" and env: "good_env sha env"
  shows "\<exists>g' w es' log'. record_snapshot env data g = (g', Inr w) \<and> session_inv sha es' log' g'"
proof (cases "ss_id g")
  case None
  then show ?thesis using inv by (auto simp: record_snapshot_def)
next
  case (Some sid)
  then have sid: "sid \<noteq> []" using inv by (auto simp: session_inv_def)
  have clk: "good_clock (sv_now env)" using env by (simp add: good_env_def)
  note lim = limits_ops_ok [OF session_limits_ok [OF inv] clk]
  obtain b i where p: "can_poll_home (sv_now env) None (ss_limits g) = Inr (b, i)" using lim(5) by blast
  show ?thesis
  proof (cases b)
    case False
    obtain lm c where "mark_home_poll_skipped (sv_disk env) (sv_now env) (ss_limits g) = (lm, Inr c)" "limits_ok lm"
      using lim(2) by blast
    with Some sid p False limits_inv [OF inv] show ?thesis
      by (fastforce simp: record_snapshot_def sbind_def of_res_def on_limits_def)
  next
    case True
    have m: "meta_ok [(''event_type'', JStr ''snapshot'')]" by (simp add: meta_ok_def)
    from inside_inv [OF inv env m Some, of Snapped "or_text (ss_source g) ''session_graph''" "snapshot_doc env data"]
    obtain s' w r where l: "log_event env (session_event env sid (or_text (ss_source g) ''session_graph'') (snapshot_doc env data)
        [(''event_type'', JStr ''snapshot'')]) g = (g\<lparr>ss_fs := s'\<rparr>, Inr (Some w))"
      "session_inv sha (es @ [r]) (log @ [(sid, Snapped)]) (g\<lparr>ss_fs := s'\<rparr>)" by auto
    obtain lm c where k: "mark_home_polled (sv_disk env) (sv_now env) None (ss_limits g) = (lm, Inr c)" "limits_ok lm"
      using lim(1) by blast
    show ?thesis using Some sid p True l(1) k limits_inv [OF l(2) k(2)]
      by (fastforce simp: record_snapshot_def write_snapshot_def sbind_def of_res_def on_limits_def)
  qed
qed

lemma execute_allowed:
  assumes inv: "session_inv sha es log g" and env: "good_env sha env" and act: "ss_id g = Some sid"
    and ok: "can_execute_action (sv_now env) None (ss_limits g) = Inr (True, why)"
  shows "\<exists>s' w r. execute_action env name payload g = (g\<lparr>ss_fs := s'\<rparr>, Inr (Some w)) \<and>
    session_inv sha (es @ [r]) (log @ [(sid, Intended (sv_uuid env))]) (g\<lparr>ss_fs := s'\<rparr>)"
proof -
  have m: "meta_ok (intent_meta env name)" by (simp add: meta_ok_def intent_meta_def)
  from inside_inv [OF inv env m act, of "Intended (sv_uuid env)" "''session_graph''" "intent_doc name payload"]
  obtain s' w r where "log_event env (session_event env sid ''session_graph'' (intent_doc name payload) (intent_meta env name)) g
      = (g\<lparr>ss_fs := s'\<rparr>, Inr (Some w))"
    "session_inv sha (es @ [r]) (log @ [(sid, Intended (sv_uuid env))]) (g\<lparr>ss_fs := s'\<rparr>)"
    by (auto simp: intent_meta_def)
  with act ok show ?thesis by (auto simp: execute_action_def sbind_def of_res_def)
qed

lemma execute_inv:
  assumes inv: "session_inv sha es log g" and env: "good_env sha env"
  shows "\<exists>g' w es' log'. execute_action env name payload g = (g', Inr w) \<and> session_inv sha es' log' g'"
proof (cases "ss_id g")
  case None
  then show ?thesis using inv by (auto simp: execute_action_def)
next
  case (Some sid)
  have clk: "good_clock (sv_now env)" using env by (simp add: good_env_def)
  note lim = limits_ops_ok [OF session_limits_ok [OF inv] clk]
  obtain b i where p: "can_execute_action (sv_now env) None (ss_limits g) = Inr (b, i)" using lim(6) by blast
  show ?thesis
  proof (cases b)
    case False
    obtain lm c where "mark_action_skipped_cooldown (sv_disk env) (sv_now env) i (ss_limits g) = (lm, Inr c)" "limits_ok lm"
      using lim(3) by blast
    with Some p False limits_inv [OF inv] show ?thesis
      by (fastforce simp: execute_action_def sbind_def of_res_def on_limits_def)
  next
    case True
    with p have "can_execute_action (sv_now env) None (ss_limits g) = Inr (True, i)" by simp
    from execute_allowed [OF inv env Some this, of name payload] show ?thesis by blast
  qed
qed

lemma confirm_inv:
  assumes inv: "session_inv sha es log g" and env: "good_env sha env"
  shows "\<exists>g' w es' log'. confirm_action env i data ok h preview g = (g', Inr w) \<and> session_inv sha es' log' g'"
proof (cases "ss_id g")
  case None
  then show ?thesis using inv by (auto simp: confirm_action_def)
next
  case (Some sid)
  have clk: "good_clock (sv_now env)" using env by (simp add: good_env_def)
  have m: "meta_ok (result_meta i ok h)" by (auto simp: meta_ok_def result_meta_def given_def opt_json_def split: option.splits)
  from inside_inv [OF inv env m Some, of "Finished i" "''session_graph''" "result_doc data ok h preview"]
  obtain s' w r where l: "log_event env (session_event env sid ''session_graph'' (result_doc data ok h preview) (result_meta i ok h)) g
      = (g\<lparr>ss_fs := s'\<rparr>, Inr (Some w))"
    "session_inv sha (es @ [r]) (log @ [(sid, Finished i)]) (g\<lparr>ss_fs := s'\<rparr>)"
    by (auto simp: result_meta_def)
  obtain lm c where k: "mark_action_executed (sv_disk env) (sv_now env) None (ss_limits g) = (lm, Inr c)" "limits_ok lm"
    using limits_ops_ok(4) [OF session_limits_ok [OF inv] clk] by blast
  show ?thesis using Some l(1) k limits_inv [OF l(2) k(2)]
    by (fastforce simp: confirm_action_def sbind_def on_limits_def)
qed

lemma serve_inv:
  assumes inv: "session_inv sha es log g" and "good_step sha x"
  shows "\<exists>g' w es' log'. serve x g = (g', Inr w) \<and> session_inv sha es' log' g'"
proof -
  obtain env0 env r where x: "x = (env0, env, r)" by (cases x)
  then have env: "good_env sha env0" "good_env sha env" using assms(2) by (simp_all add: good_step_def)
  show ?thesis
  proof (cases r)
    case (Start src)
    obtain g1 w1 es1 log1 where e: "(if ss_id g \<noteq> None then end_session env0 None None else ret None) g = (g1, Inr w1)"
      "session_inv sha es1 log1 g1" "ss_id g1 = None"
    proof (cases "ss_id g = None")
      case True
      with that [of g None es log] inv show thesis by simp
    next
      case False
      with that end_inv [OF inv env(1)] show thesis by auto
    qed
    obtain g2 w2 es2 log2 where o: "open_session env src g1 = (g2, Inr w2)" "session_inv sha es2 log2 g2"
      using open_inv [OF e(2) env(2) e(3), of src] by blast
    have "serve x g = (g2, Inr w2)" using e(1) o(1) x Start by (simp add: start_session_def sbind_def)
    with o(2) show ?thesis by blast
  next
    case End
    then show ?thesis using end_inv [OF inv env(2)] x by auto
  next
    case (Snapshot data)
    then show ?thesis using snapshot_inv [OF inv env(2), of data] x by simp
  next
    case (Execute name payload)
    then show ?thesis using execute_inv [OF inv env(2), of name payload] x by simp
  next
    case (Confirm i data ok h preview)
    then show ?thesis using confirm_inv [OF inv env(2), of i data ok h preview] x by simp
  qed
qed

lemma serve_all_inv:
  assumes "session_inv sha es log g" and "\<forall>x \<in> set xs. good_step sha x"
  shows "\<exists>g' rs es' log'. serve_all xs g = (g', Inr rs) \<and> session_inv sha es' log' g'"
  using assms
proof (induction xs arbitrary: g es log)
  case (Cons x xs)
  have gx: "good_step sha x" "\<forall>y \<in> set xs. good_step sha y" using Cons.prems(2) by simp_all
  obtain g1 w es1 log1 where 1: "serve x g = (g1, Inr w)" "session_inv sha es1 log1 g1"
    using serve_inv [OF Cons.prems(1) gx(1)] by blast
  obtain g2 rs es2 log2 where 2: "serve_all xs g1 = (g2, Inr rs)" "session_inv sha es2 log2 g2"
    using Cons.IH [OF 1(2) gx(2)] by blast
  have "serve_all (x # xs) g = (g2, Inr (w # rs))" using 1(1) 2(1) by (simp add: sbind_def)
  with 2(2) show ?case by blast
qed auto

end
