(* ===== verification/Session_Props.thy ===== *)
theory Session_Props
  imports Session_Laws Samples Collective_Laws
begin

text \<open>
  Properties of the session layer: the log is a sequence of sessions, the answers of the
  limits, actions that are never confirmed, and the intents without a result.
\<close>

text \<open>
  C26: the session log is a sequence of sessions. Whatever requests are served, in any
  order, starting on an empty storage and with any readable state of the limits, no
  request fails, and the log of the shard \<open>sessions\<close> starts with a session, has every other
  event inside the session that is open at that point, with its identifier, and has a
  session open at its end exactly if the graph holds one active, with the same identifier.
\<close>

theorem sessions_bracketed:
  assumes "\<forall>x \<in> set xs. good_step sha x" and "limits_ok lm"
  shows "\<exists>g rs es log. serve_all xs (new_session_graph empty_fs lm) = (g, Inr rs) \<and>
    shard_inv sha SESSIONS_SHARD (ss_fs g) es \<and> list_all2 event_records es log \<and> bracketed None log = Some (ss_id g)"
proof -
  have "session_inv sha [] [] (new_session_graph empty_fs lm)"
    using assms(2) by (simp add: session_inv_def new_session_graph_def)
  from serve_all_inv [OF this assms(1)] show ?thesis by (auto simp: session_inv_def)
qed

lemma limits_ok_new: "limits_ok (new_limits Missing sidecars)"
  by (simp add: limits_ok_def config_ok_def cooldown_ok_def new_limits_def)

definition sample_now :: datetime where "sample_now = sample_time\<lparr>micro := 0, tz := Some 0\<rparr>"

lemma good_sample_now: "good_clock sample_now"
  by (simp add: good_clock_def sample_now_def sample_time_def valid_dt_def days_in_month_def)

definition sample_env :: "string \<Rightarrow> senv" where
  "sample_env u = \<lparr>sv_sha = (\<lambda>m. m), sv_now = sample_now, sv_uuid = CHR ''u'' # u, sv_tag = ''t'', sv_disk = True\<rparr>"

lemma good_sample_env: "good_env (\<lambda>m. m) (sample_env u)"
  using good_sample_now by (simp add: good_env_def sample_env_def)

theorem sessions_bracketed_witness:
  "\<exists>g rs es log. serve_all [(sample_env ''0'', sample_env ''1'', Start ''cli''), (sample_env ''0'', sample_env ''2'', Execute ''act'' JNull),
      (sample_env ''0'', sample_env ''3'', End)] (new_session_graph empty_fs (new_limits Missing [])) = (g, Inr rs) \<and>
     list_all2 event_records es log \<and> bracketed None log = Some (ss_id g)"
  using sessions_bracketed [of "[(sample_env ''0'', sample_env ''1'', Start ''cli''), (sample_env ''0'', sample_env ''2'', Execute ''act'' JNull),
      (sample_env ''0'', sample_env ''3'', End)]" "\<lambda>m. m", OF _ limits_ok_new [of "[]"]] good_sample_env
  by (fastforce simp: good_step_def)

section \<open>Limits\<close>

definition mark_all :: "datetime list \<Rightarrow> limits \<Rightarrow> limits" where
  "mark_all ts lm = foldl (\<lambda>l t. fst (mark_action_executed True t None l)) lm ts"

lemma mark_all_doc:
  assumes "lm_file lm = Missing" and "ts \<noteq> []" and "\<forall>t \<in> set ts. stamp_date t = date"
  shows "mark_all ts lm = lm\<lparr>lm_file := Doc (lim_doc (JInt 0) (flt_json (Fin (clock_ts (last ts)))) (int (length ts)) date 0 0 0)\<rparr>"
  using assms(2,3)
proof (induction ts rule: rev_induct)
  case (snoc t ts)
  show ?case
  proof (cases "ts = []")
    case True
    have "load_state t lm = lim_doc (JInt 0) (JInt 0) 0 (stamp_date t) 0 0 0"
      using assms(1) by (simp add: load_state_def default_state_def lim_doc_def)
    from mark_action_value [OF this] show ?thesis using True snoc.prems by (simp add: mark_all_def save_doc)
  next
    case False
    let ?lm = "lm\<lparr>lm_file := Doc (lim_doc (JInt 0) (flt_json (Fin (clock_ts (last ts)))) (int (length ts)) date 0 0 0)\<rparr>"
    have "load_state t ?lm = lim_doc (JInt 0) (flt_json (Fin (clock_ts (last ts)))) (int (length ts)) date 0 0 0"
      by (simp add: load_state_def)
    from mark_action_value [OF this] show ?thesis using snoc False by (simp add: mark_all_def save_doc add.commute)
  qed
qed simp

text \<open>
  C27: what the limits answer. After actions at any times of one day, the answer at a time
  of that day or another depends on two things: whether the time is before the last action
  plus the cooldown, as the floating-point sum of the two, and whether the number of the
  actions of the day has reached the budget; a new day starts with no actions. When only
  the budget is spent the reason is \<open>both\<close>, and when both hold it is \<open>daily_limit\<close>.
\<close>

theorem action_limits:
  assumes ok: "limits_ok lm" and new: "lm_file lm = Missing" and ts: "ts \<noteq> []" "\<forall>t \<in> set ts. good_clock t \<and> stamp_date t = date"
    and now: "good_clock now"
    and cooling: "cooling = (clock_ts now < fadd (clock_ts (last ts)) (lm_action_cooldown lm * ONE))"
    and spent: "spent = (lm_daily_budget lm \<le> (if stamp_date now = date then int (length ts) else 0))"
  shows "can_execute_action now None (mark_all ts lm) =
    Inr (if cooling \<and> \<not> spent then (False, Some ''cooldown'') else if cooling then (False, Some ''daily_limit'')
         else if spent then (False, Some ''both'') else (True, None))"
proof -
  let ?lm = "lm\<lparr>lm_file := Doc (lim_doc (JInt 0) (flt_json (Fin (clock_ts (last ts)))) (int (length ts)) date 0 0 0)\<rparr>"
  have m: "mark_all ts lm = ?lm" using mark_all_doc [OF new ts(1)] ts(2) by blast
  have l: "load_state now ?lm = lim_doc (JInt 0) (flt_json (Fin (clock_ts (last ts)))) (int (length ts)) date 0 0 0"
    by (simp add: load_state_def)
  have good: "good_clock (last ts)" using ts by simp
  have cfg: "config_ok ?lm" using ok by (simp add: limits_ok_def config_ok_def)
  have z: "clock_ts (last ts) \<noteq> 0" using clock_ts_ok(2) [OF good] by simp
  have e: "(date = stamp_date now) = (stamp_date now = date)" by blast
  show ?thesis
    unfolding m can_execute_value [OF l time_value_clock [OF good] cfg now] cooling spent action_answer_def due_def e
    using z by simp
qed

lemma sample_clock: "clock_ts sample_now = 1767323045 * ONE"
proof (rule clock_whole)
  show "instant sample_now - instant EPOCH = 1767323045 * 1000000"
    by (simp add: sample_now_def sample_time_def EPOCH_def instant_def days_before_year_def days_before_month_def Let_def)
qed simp_all

theorem action_limits_witness:
  "can_execute_action sample_now None (mark_all (replicate 10 sample_now) (new_limits Missing [])) = Inr (False, Some ''daily_limit'')"
proof -
  have "clock_ts sample_now < fadd (clock_ts sample_now) (120 * ONE)"
    unfolding sample_clock using fadd_whole [of 1767323045 120] ONE_pos by simp
  then show ?thesis
    using action_limits [OF limits_ok_new [of "[]"], of "replicate 10 sample_now" "stamp_date sample_now" sample_now] good_sample_now
    by (simp add: new_limits_def)
qed

section \<open>Actions that are never confirmed\<close>

text \<open>
  An action counts only when it is confirmed. While a session is active and the check
  passes for the limits as they are, any number of actions executed one after another is
  admitted: each writes an intent under its identifier and none changes the limits, so
  neither the cooldown nor the budget holds back a caller that does not confirm.
\<close>

theorem intents_unlimited:
  assumes "session_inv sha es log g" and "ss_id g = Some sid"
    and "\<forall>(env0, env, name, payload) \<in> set acts. good_env sha env \<and>
      can_execute_action (sv_now env) None (ss_limits g) = Inr (True, None)"
  shows "\<exists>g' rs new. serve_all (map (\<lambda>(env0, env, name, payload). (env0, env, Execute name payload)) acts) g = (g', Inr rs) \<and>
    list_all (\<lambda>r. r \<noteq> None) rs \<and> length rs = length acts \<and> ss_limits g' = ss_limits g \<and> ss_id g' = Some sid \<and>
    session_inv sha (es @ new) (log @ map (\<lambda>(env0, env, call). (sid, Intended (sv_uuid env))) acts) g'"
  using assms
proof (induction acts arbitrary: g es log)
  case Nil
  then show ?case by (intro exI [where x = g] exI [where x = "[]"]) simp
next
  case (Cons a acts)
  obtain env0 env name payload where a: "a = (env0, env, name, payload)" by (cases a)
  have ok: "good_env sha env" "can_execute_action (sv_now env) None (ss_limits g) = Inr (True, None)"
    using Cons.prems(3) a by auto
  obtain s' w r where x: "execute_action env name payload g = (g\<lparr>ss_fs := s'\<rparr>, Inr (Some w))"
    "session_inv sha (es @ [r]) (log @ [(sid, Intended (sv_uuid env))]) (g\<lparr>ss_fs := s'\<rparr>)"
    using execute_allowed [OF Cons.prems(1) ok(1) Cons.prems(2) ok(2)] by blast
  have "ss_id (g\<lparr>ss_fs := s'\<rparr>) = Some sid" "\<forall>(env0, env, name, payload) \<in> set acts. good_env sha env \<and>
      can_execute_action (sv_now env) None (ss_limits (g\<lparr>ss_fs := s'\<rparr>)) = Inr (True, None)"
    using Cons.prems(2,3) by auto
  from Cons.IH [OF x(2) this] obtain g' rs new where
    "serve_all (map (\<lambda>(env0, env, name, payload). (env0, env, Execute name payload)) acts) (g\<lparr>ss_fs := s'\<rparr>) = (g', Inr rs)"
    "list_all (\<lambda>r. r \<noteq> None) rs" "length rs = length acts" "ss_limits g' = ss_limits (g\<lparr>ss_fs := s'\<rparr>)" "ss_id g' = Some sid"
    "session_inv sha ((es @ [r]) @ new) ((log @ [(sid, Intended (sv_uuid env))]) @
       map (\<lambda>(env0, env, call). (sid, Intended (sv_uuid env))) acts) g'" by blast
  with x(1) a show ?case
    by (intro exI [where x = g'] exI [where x = "Some w # rs"] exI [where x = "r # new"]) (simp add: sbind_def)
qed

text \<open>A graph with one open session and fresh limits, for the examples.\<close>

lemma sample_session:
  "\<exists>g r. session_inv (\<lambda>m. m) [r] [(session_name (sample_env ''1''), Started)] g \<and> ss_id g = Some (session_name (sample_env ''1'')) \<and>
    ss_limits g = new_limits Missing []"
proof -
  have "session_inv (\<lambda>m. m) [] [] (new_session_graph empty_fs (new_limits Missing []))"
    using limits_ok_new by (simp add: session_inv_def new_session_graph_def)
  from open_inv [OF this good_sample_env, of "''1''" "''cli''"] show ?thesis by (auto simp: new_session_graph_def)
qed

lemma sample_executable: "can_execute_action sample_now None (new_limits Missing []) = Inr (True, None)"
proof -
  have l: "load_state sample_now (new_limits Missing []) = lim_doc (JInt 0) (JInt 0) 0 (stamp_date sample_now) 0 0 0"
    by (simp add: load_state_def default_state_def lim_doc_def new_limits_def)
  have t: "time_value (JInt 0) 0" by (simp add: time_value_def)
  have "config_ok (new_limits Missing [])" using limits_ok_new [of "[]"] by (simp add: limits_ok_def)
  from can_execute_value [OF l t this good_sample_now] show ?thesis by (simp add: action_answer_def new_limits_def)
qed

theorem intents_unlimited_witness:
  "\<exists>g g' rs. ss_limits g = new_limits Missing [] \<and>
     serve_all (replicate 100 (sample_env ''0'', sample_env ''2'', Execute ''act'' JNull)) g = (g', Inr rs) \<and>
     length rs = 100 \<and> list_all (\<lambda>r. r \<noteq> None) rs"
proof -
  obtain g r where g: "session_inv (\<lambda>m. m) [r] [(session_name (sample_env ''1''), Started)] g"
    "ss_id g = Some (session_name (sample_env ''1''))" "ss_limits g = new_limits Missing []" using sample_session by blast
  have "\<forall>(env0, env, name, payload) \<in> set (replicate 100 (sample_env ''0'', sample_env ''2'', ''act'', JNull)).
      good_env (\<lambda>m. m) env \<and> can_execute_action (sv_now env) None (ss_limits g) = Inr (True, None)"
    using good_sample_env sample_executable g(3) by (simp add: sample_env_def)
  from intents_unlimited [OF g(1,2) this] g(3) show ?thesis by (auto simp: map_replicate)
qed

section \<open>Orphaned intents\<close>

definition intent_ids :: "(string \<times> event) list \<Rightarrow> string list" where
  "intent_ids log = [i. (s, Intended i) \<leftarrow> log]"

definition intents_of :: "(entry \<times> string \<times> event) list \<Rightarrow> (json \<times> entry) list" where
  "intents_of zs = [(JStr i, e). (e, s, Intended i) \<leftarrow> zs]"

lemma intents_append: "intent_ids (l @ m) = intent_ids l @ intent_ids m" "intents_of (y @ z) = intents_of y @ intents_of z"
  by (simp_all add: intent_ids_def intents_of_def)

lemma intents_one:
  "intent_ids [(s, ev)] = (case ev of Intended i \<Rightarrow> [i] | _ \<Rightarrow> [])"
  "intents_of [(e, s, ev)] = (case ev of Intended i \<Rightarrow> [(JStr i, e)] | _ \<Rightarrow> [])"
  by (cases ev; simp add: intent_ids_def intents_of_def)+

lemma intents_keys: "length es = length log \<Longrightarrow> map fst (intents_of (zip es log)) = map JStr (intent_ids log)"
proof (induction es log rule: list_induct2)
  case (Cons e es x log)
  obtain s ev where "x = (s, ev)" by (cases x)
  with Cons show ?case using intents_append(1) [of "[(s, ev)]" log] intents_append(2) [of "[(e, s, ev)]" "zip es log"]
    by (cases ev) (simp_all add: intents_one)
qed (simp add: intents_of_def intent_ids_def)

text \<open>What the scan collects.\<close>

lemma scan_events:
  assumes "list_all2 event_records es log" and "distinct (intent_ids log)" and "[] \<notin> set (intent_ids log)"
  shows "\<exists>results. fold_res scan_intent es ([], []) = Inr (intents_of (zip es log), results) \<and>
    set results = {JStr i | i. Finished i \<in> snd ` set log \<and> i \<noteq> []}"
  using assms
proof (induction es arbitrary: log rule: rev_induct)
  case Nil
  then show ?case by (simp add: intents_of_def)
next
  case (snoc e es)
  obtain l s ev where log: "log = l @ [(s, ev)]" "list_all2 event_records es l" "event_records e (s, ev)"
    using snoc.prems(1) by (auto simp: list_all2_append1 list_all2_Cons1)
  have len: "length es = length l" by (rule list_all2_lengthD [OF log(2)])
  have d: "distinct (intent_ids l)" "[] \<notin> set (intent_ids l)" using snoc.prems(2,3) log(1) by (simp_all add: intents_append)
  from snoc.IH [OF log(2) d] obtain results where f: "fold_res scan_intent es ([], []) = Inr (intents_of (zip es l), results)"
    "set results = {JStr i | i. Finished i \<in> snd ` set l \<and> i \<noteq> []}" by blast
  have z: "zip (es @ [e]) log = zip es l @ [(e, s, ev)]" using len log(1) by simp
  show ?case
  proof (cases "\<exists>i. ev = Intended i")
    case True
    then obtain i where i: "ev = Intended i" by blast
    have "i \<noteq> []" "i \<notin> set (intent_ids l)" using snoc.prems(2,3) log(1) i by (auto simp: intents_append intents_one)
    then have "JStr i \<notin> fst ` set (intents_of (zip es l))" using intents_keys [OF len] by (metis image_iff json.inject(4) list.set_map)
    then have "scan_intent e (intents_of (zip es l), results) = Inr (intents_of (zip es l) @ [(JStr i, e)], results)"
      using log(3) i \<open>i \<noteq> []\<close> by (simp add: scan_intent_def event_records_def dput_new)
    with f i log(1) show ?thesis unfolding z by (simp add: fold_res_append intents_append intents_one)
  next
    case False
    then have "scan_intent e (intents_of (zip es l), results) =
        Inr (intents_of (zip es l), (case ev of Finished i \<Rightarrow> if i = [] then results else JStr i # results | _ \<Rightarrow> results))"
      using log(3) by (cases ev) (simp_all add: scan_intent_def event_records_def)
    with f False log(1) show ?thesis unfolding z
      by (cases ev) (auto simp: fold_res_append intents_append intents_one)
  qed
qed

text \<open>
  The intents without a result. As long as the identifiers of the intents are distinct,
  as fresh ones are, \<open>find_orphaned_intents\<close> returns, newest first, exactly those intents
  among the newest entries it reads for which there is no result among these entries. An
  intent is written before its result, so a result is never beyond the window of its
  intent; an orphan beyond the window is not reported.
\<close>

theorem orphans_exact:
  assumes inv: "session_inv sha es log g" and ids: "distinct (intent_ids log)" "[] \<notin> set (intent_ids log)"
  shows "find_orphaned_intents limit g =
    (g, Inr (map snd (filter (\<lambda>(k, e). \<forall>i. k = JStr i \<longrightarrow> Finished i \<notin> snd ` set (newest limit log))
       (intents_of (rev (newest limit (zip es log)))))))"
proof -
  have l: "list_all2 event_records es log" and r: "read SESSIONS_SHARD 0 limit (ss_fs g) = (ss_fs g, Inr (take (nat (max 1 limit)) (rev es)))"
    using inv read_inv [of sha SESSIONS_SHARD "ss_fs g" es 0 limit] by (simp_all add: session_inv_def)
  let ?es = "rev (newest limit es)" and ?log = "rev (newest limit log)"
  have len: "length es = length log" by (rule list_all2_lengthD [OF l])
  have rl: "list_all2 event_records ?es ?log" using newest_records [OF l] by simp
  have sub: "intent_ids log = intent_ids (take (length log - nat (max 1 limit)) log) @ intent_ids (newest limit log)"
    unfolding newest_def by (simp flip: intents_append(1))
  have "distinct (intent_ids (newest limit log))" "[] \<notin> set (intent_ids (newest limit log))"
    using ids unfolding sub by simp_all
  moreover have rev: "intent_ids (rev m) = rev (intent_ids m)" for m
  proof (induction m)
    case (Cons x m)
    obtain s ev where "x = (s, ev)" by (cases x)
    then show ?case using Cons intents_append(1) [of "[x]" m] by (cases ev) (simp_all add: intents_append intents_one)
  qed (simp add: intent_ids_def)
  ultimately have d: "distinct (intent_ids ?log)" "[] \<notin> set (intent_ids ?log)" by simp_all
  obtain results where f: "fold_res scan_intent ?es ([], []) = Inr (intents_of (zip ?es ?log), results)"
    "set results = {JStr i | i. Finished i \<in> snd ` set ?log \<and> i \<noteq> []}" using scan_events [OF rl d] by blast
  have z: "zip ?es ?log = rev (newest limit (zip es log))" using len by (simp add: newest_def zip_rev drop_zip)
  have k: "\<exists>i. k = JStr i \<and> i \<noteq> []" if "(k, e) \<in> set (intents_of (zip ?es ?log))" for k e
  proof -
    have "k \<in> set (map fst (intents_of (zip ?es ?log)))" using that by force
    moreover have "length ?es = length ?log" using len by (simp add: newest_def)
    note intents_keys [OF this]
    ultimately have "k \<in> set (map JStr (intent_ids ?log))" by (simp only:)
    with d(2) show ?thesis by auto
  qed
  have "filter (\<lambda>(k, e). k \<notin> set results) (intents_of (zip ?es ?log)) =
      filter (\<lambda>(k, e). \<forall>i. k = JStr i \<longrightarrow> Finished i \<notin> snd ` set (newest limit log)) (intents_of (zip ?es ?log))"
  proof (rule filter_cong [OF refl])
    fix x assume x: "x \<in> set (intents_of (zip ?es ?log))"
    obtain a e where a: "x = (a, e)" by (cases x)
    then obtain i where i: "a = JStr i" "i \<noteq> []" using k x by blast
    then have "(JStr i \<in> set results) = (Finished i \<in> snd ` set (newest limit log))" using f(2) by simp
    with a i show "(case x of (k, e) \<Rightarrow> k \<notin> set results) =
        (case x of (k, e) \<Rightarrow> \<forall>i. k = JStr i \<longrightarrow> Finished i \<notin> snd ` set (newest limit log))" by simp
  qed
  moreover have "read SESSIONS_SHARD 0 limit (ss_fs g) = (ss_fs g, Inr ?es)" using r rev_take_newest [of limit es] by (metis rev_rev_ident)
  ultimately show ?thesis using f(1) unfolding z [symmetric] by (simp add: find_orphaned_intents_def)
qed

theorem orphans_exact_witness:
  "\<exists>g e. find_orphaned_intents 1000 g = (g, Inr [e])"
proof -
  obtain g r where g: "session_inv (\<lambda>m. m) [r] [(session_name (sample_env ''1''), Started)] g"
    "ss_id g = Some (session_name (sample_env ''1''))" "ss_limits g = new_limits Missing []" using sample_session by blast
  have "can_execute_action (sv_now (sample_env ''2'')) None (ss_limits g) = Inr (True, None)"
    using sample_executable g(3) by (simp add: sample_env_def)
  from execute_allowed [OF g(1) good_sample_env g(2) this] obtain s' r2 where
    h: "session_inv (\<lambda>m. m) ([r] @ [r2]) ([(session_name (sample_env ''1''), Started)] @
        [(session_name (sample_env ''1''), Intended (sv_uuid (sample_env ''2'')))]) (g\<lparr>ss_fs := s'\<rparr>)" by blast
  have ids: "intent_ids ([(session_name (sample_env ''1''), Started)] @ [(session_name (sample_env ''1''), Intended (sv_uuid (sample_env ''2'')))])
      = [sv_uuid (sample_env ''2'')]" by (simp only: intents_append intents_one) simp
  have u: "sv_uuid (sample_env ''2'') \<noteq> []" by (simp add: sample_env_def)
  have "find_orphaned_intents 1000 (g\<lparr>ss_fs := s'\<rparr>) = (g\<lparr>ss_fs := s'\<rparr>, Inr [r2])"
    using orphans_exact [OF h, of 1000, unfolded ids] u
      intents_append(2) [of "[(r2, session_name (sample_env ''1''), Intended (sv_uuid (sample_env ''2'')))]"
        "[(r, session_name (sample_env ''1''), Started)]"]
    by (simp add: intents_one newest_all)
  then show ?thesis by blast
qed

end
