(* ===== verification/Lanes.thy ===== *)
theory Lanes
  imports Collective Verify
begin

text \<open>
  \<^verbatim>\<open>src/dsm/lanes.py\<close>: parallel lanes. Each agent of a group has a collective shard of its own,
  all over one storage and one orchestrator; reads merge the lanes by time, and a merge entry
  records the tips of all lanes. A lane is what its shard object keeps beside the storage; an
  operation of a lane runs on the collective made of the group's storage and the lane.
\<close>

section \<open>State\<close>

definition LANE_PREFIX :: string where "LANE_PREFIX = ''collective_lane_''"

record lane =
  ln_shard :: string
  ln_window :: int
  ln_index :: "collective_entry list option"
  ln_lasts :: "(json \<times> json) list"

record lane_group = orchestrator +
  lg_merge_shard :: string
  lg_lanes :: "(string \<times> lane) list"

record lane_tip =
  lt_agent_id :: string
  lt_shard_name :: string
  lt_entry_count :: int
  lt_latest_hash :: json
  lt_latest_timestamp :: "datetime option"

record merge_entry =
  me_merge_id :: string
  me_timestamp :: datetime
  me_tips :: "lane_tip list"
  me_merge_hash :: string

record lane_write_result =
  lw_lane_shard :: string
  lw_admitted :: "json list"
  lw_rejected :: "(json \<times> string) list"

definition open_lanes :: "orchestrator \<Rightarrow> string \<Rightarrow> lane_group" where
  "open_lanes o' merge_shard = orchestrator.extend o' (lane_group.fields merge_shard [])"

section \<open>Registration\<close>

definition lane_shard_name :: "string \<Rightarrow> string" where
  "lane_shard_name agent_id = LANE_PREFIX @ agent_id"

definition new_lane :: "string \<Rightarrow> lane" where
  "new_lane agent_id = \<lparr>ln_shard = collective_name (lane_shard_name agent_id), ln_window = 500, ln_index = None, ln_lasts = []\<rparr>"

definition has_lane :: "string \<Rightarrow> lane_group \<Rightarrow> bool" where
  "has_lane agent_id g = (dget agent_id (lg_lanes g) \<noteq> None)"

definition register_lane :: "string \<Rightarrow> lane_group \<Rightarrow> lane_group \<times> string" where
  "register_lane agent_id g =
     (if has_lane agent_id g then (g, lane_shard_name agent_id)
      else (g\<lparr>lg_lanes := dput agent_id (new_lane agent_id) (lg_lanes g)\<rparr>, lane_shard_name agent_id))"

definition registered_agents :: "lane_group \<Rightarrow> string list" where
  "registered_agents g = map fst (lg_lanes g)"

section \<open>Running an operation in a lane\<close>

definition collective_of :: "lane \<Rightarrow> lane_group \<Rightarrow> collective" where
  "collective_of ln g =
     orchestrator.extend (orchestrator.truncate g) (collective.fields (ln_shard ln) (ln_window ln) (ln_index ln) (ln_lasts ln))"

definition lane_of :: "collective \<Rightarrow> lane" where
  "lane_of c = \<lparr>ln_shard = cs_shard_name c, ln_window = cs_window_size c, ln_index = cs_index c, ln_lasts = cs_last_contribution c\<rparr>"

definition put_lane :: "string \<Rightarrow> collective \<Rightarrow> lane_group \<Rightarrow> lane_group" where
  "put_lane agent_id c g =
     orchestrator.extend (orchestrator.truncate c) (lane_group.fields (lg_merge_shard g) (dput agent_id (lane_of c) (lg_lanes g)))"

definition on_lane :: "string \<Rightarrow> lane \<Rightarrow> (collective, 'a) op \<Rightarrow> (lane_group, 'a) op" where
  "on_lane agent_id ln f g = (let (c, r) = f (collective_of ln g) in (put_lane agent_id c g, r))"

definition in_lane :: "string \<Rightarrow> (collective, 'a) op \<Rightarrow> (lane_group, 'a) op" where
  "in_lane agent_id f g =
     (case dget agent_id (lg_lanes g) of None \<Rightarrow> (g, Inl (KeyError agent_id)) | Some ln \<Rightarrow> on_lane agent_id ln f g)"

text \<open>An operation for each lane, in the order of registration; the results are collected.\<close>

fun each_lane :: "string list \<Rightarrow> (collective, 'a) op \<Rightarrow> (lane_group, 'a list) op" where
  "each_lane [] f = ret []"
| "each_lane (a # as) f = sbind (in_lane a f) (\<lambda>x. sbind (each_lane as f) (\<lambda>xs. ret (x # xs)))"

section \<open>Writing and reading\<close>

definition push_lane ::
    "sha \<Rightarrow> (json \<Rightarrow> string) \<Rightarrow> (string \<Rightarrow> flt option) \<Rightarrow> string \<Rightarrow> summary_fn \<Rightarrow> detail_fn \<Rightarrow> string \<Rightarrow> string \<Rightarrow>
     push_item list \<Rightarrow> (lane_group, lane_write_result) op" where
  "push_lane sha py_str fstr oserr summary_fn detail_fn agent_id owner_id items =
     in_lane agent_id
       (sbind (push sha py_str fstr oserr summary_fn detail_fn agent_id owner_id items) (\<lambda>r c.
          (c, Inr \<lparr>lw_lane_shard = cs_shard_name c, lw_admitted = pu_admitted r, lw_rejected = pu_rejected r\<rparr>)))"

text \<open>
  \<^verbatim>\<open>sort(key=contributed_at, reverse=True)\<close> is stable, and fails as soon as a time with a
  zone and one without are compared.
\<close>

definition newest_first :: "collective_entry list \<Rightarrow> collective_entry list res" where
  "newest_first cs =
     (if (\<exists>c \<in> set cs. tz (ce_contributed_at c) = None) \<and> (\<exists>c \<in> set cs. tz (ce_contributed_at c) \<noteq> None) then Inl TypeError
      else Inr (sort_key (\<lambda>c. - instant (ce_contributed_at c)) cs))"

definition lanes_recent :: "int \<Rightarrow> string option \<Rightarrow> string option \<Rightarrow> (lane_group, collective_entry list) op" where
  "lanes_recent limit agent_id entry_type g =
     (if named agent_id then in_lane (the agent_id) (recent limit None entry_type) g
      else
        sbind (each_lane (registered_agents g) (recent limit None entry_type)) (\<lambda>ess.
        sbind (of_res (newest_first (concat ess))) (\<lambda>es. ret (py_take limit es))) g)"

definition lanes_recent_at_tier :: "int \<Rightarrow> int \<Rightarrow> int option \<Rightarrow> string option \<Rightarrow> (lane_group, json list) op" where
  "lanes_recent_at_tier tier limit max_tokens agent_id g =
     (if named agent_id then in_lane (the agent_id) (recent_at_tier tier limit max_tokens None) g
      else
        sbind (lanes_recent limit None None) (\<lambda>entries.
          if entries = [] then ret []
          else (let (t, es) = fit_budget tier max_tokens entries in ret (map (at_tier t) es))) g)"

section \<open>Tips and merges\<close>

definition lane_tip_of :: "string \<Rightarrow> (collective, lane_tip) op" where
  "lane_tip_of agent_id =
     sbind coll_summary (\<lambda>_.
     sbind coll_ensure_index (\<lambda>index c.
       (c, Inr \<lparr>lt_agent_id = agent_id, lt_shard_name = cs_shard_name c, lt_entry_count = int (length index),
          lt_latest_hash = (if index = [] then JStr [] else or_empty (ce_hash (last index))),
          lt_latest_timestamp = (if index = [] then None else Some (ce_contributed_at (last index)))\<rparr>)))"

fun tips_loop :: "string list \<Rightarrow> (lane_group, lane_tip list) op" where
  "tips_loop [] = ret []"
| "tips_loop (a # as) = sbind (in_lane a (lane_tip_of a)) (\<lambda>t. sbind (tips_loop as) (\<lambda>ts. ret (t # ts)))"

definition lane_tips :: "(lane_group, lane_tip list) op" where
  "lane_tips g = tips_loop (registered_agents g) g"

definition merge_hash :: "sha \<Rightarrow> lane_tip list \<Rightarrow> string res" where
  "merge_hash sha ts =
     rbind (py_sorted (filter truthy (map lt_latest_hash ts))) (\<lambda>hs. rbind (join_strs hs) (\<lambda>t. Inr (sha t)))"

definition tip_doc :: "lane_tip \<Rightarrow> json" where
  "tip_doc t =
     JObj [(''agent_id'', JStr (lt_agent_id t)), (''shard_name'', JStr (lt_shard_name t)), (''entry_count'', JInt (lt_entry_count t)),
       (''latest_hash'', lt_latest_hash t),
       (''latest_timestamp'', case lt_latest_timestamp t of None \<Rightarrow> JNull | Some d \<Rightarrow> JStr (isoformat d))]"

definition merge_doc :: "merge_entry \<Rightarrow> (string \<times> json) list" where
  "merge_doc m =
     [(''event_type'', JStr ''lane_merge''), (''merge_id'', JStr (me_merge_id m)), (''merge_hash'', JStr (me_merge_hash m)),
      (''lane_count'', JInt (int (length (me_tips m)))), (''tips'', JList (map tip_doc (me_tips m)))]"

text \<open>\<^verbatim>\<open>strftime('%Y%m%d%H%M%S')\<close>.\<close>

definition stamp_seconds :: "datetime \<Rightarrow> string" where
  "stamp_seconds d = stamp_minutes d @ pad2 (second d)"

text \<open>The clock is read three times: for the id, for the merge and for its entry.\<close>

definition create_merge :: "sha \<Rightarrow> string \<Rightarrow> datetime \<Rightarrow> datetime \<Rightarrow> stamp \<Rightarrow> (lane_group, merge_entry) op" where
  "create_merge sha tag now1 now2 st =
     sbind lane_tips (\<lambda>ts.
     sbind (of_res (merge_hash sha ts)) (\<lambda>h g.
       let m = \<lparr>me_merge_id = ''merge_'' @ stamp_seconds now1 @ ''_'' @ tag, me_timestamp = now2, me_tips = ts, me_merge_hash = h\<rparr>;
           e = doc_entry ''lane_group'' (lg_merge_shard g) (fst st) (snd st) (JObj (merge_doc m))
                 [(''event_type'', JStr ''lane_merge''), (''merge_id'', JStr (me_merge_id m))];
           (s, r) = append sha (fst st) e (rg_fs g); g1 = g\<lparr>rg_fs := s\<rparr>
       in case r of Inr _ \<Rightarrow> (g1, Inr m) | Inl OSError \<Rightarrow> (g1, Inr m) | Inl err \<Rightarrow> (g1, Inl err)))"

text \<open>A document that is no dict has no \<^verbatim>\<open>get\<close>, which the loop does not skip.\<close>

definition merge_of_entry :: "entry \<Rightarrow> json option res" where
  "merge_of_entry e =
     (case content_json e of
        None \<Rightarrow> Inr None
      | Some data \<Rightarrow> rbind (jget ''event_type'' JNull data) (\<lambda>t. Inr (if t = JStr ''lane_merge'' then Some data else None)))"

definition merge_history :: "int \<Rightarrow> (lane_group, json list) op" where
  "merge_history limit g =
     (let (s, r) = read (lg_merge_shard g) 0 limit (rg_fs g)
      in (g\<lparr>rg_fs := s\<rparr>, rbind r (\<lambda>entries. collect merge_of_entry entries)))"

section \<open>Diagnostics\<close>

fun stats_loop :: "string list \<Rightarrow> (lane_group, (string \<times> json) list) op" where
  "stats_loop [] = ret []"
| "stats_loop (a # as) = sbind (in_lane a coll_summary) (\<lambda>s. sbind (stats_loop as) (\<lambda>rest. ret ((a, s) # rest)))"

definition count_of :: "json \<Rightarrow> int" where
  "count_of s = (case jget ''entry_count'' (JInt 0) s of Inr (JInt n) \<Rightarrow> n | _ \<Rightarrow> 0)"

definition field_of :: "string \<Rightarrow> json \<Rightarrow> json" where
  "field_of k s = (case jget k JNull s of Inr v \<Rightarrow> v | Inl _ \<Rightarrow> JNull)"

definition lane_stats :: "(lane_group, json) op" where
  "lane_stats g =
     sbind (stats_loop (registered_agents g)) (\<lambda>ss.
       ret (JObj [(''lane_count'', JInt (int (length (lg_lanes g)))), (''total_entries'', JInt (sum_list (map (\<lambda>(a, s). count_of s) ss))),
         (''lanes'', JList (map (\<lambda>(a, s). JObj [(''agent_id'', JStr a), (''shard'', field_of ''shard'' s),
            (''entry_count'', JInt (count_of s)), (''latest_hash'', field_of ''latest_hash'' s)]) ss))])) g"

definition verify_lane :: "sha \<Rightarrow> string \<Rightarrow> (lane_group, verify_result) op" where
  "verify_lane sha agent_id =
     in_lane agent_id (\<lambda>c. let (s, r) = verify_shard sha (cs_shard_name c) (rg_fs c) in (c\<lparr>rg_fs := s\<rparr>, r))"

end
