(* ===== verification/Lanes_Laws.thy ===== *)
theory Lanes_Laws
  imports Lanes Collective_Props "HOL-Library.Multiset"
begin

text \<open>
  The lanes as one memory: merging prefixes of sorted lists by a stable sort, the invariant
  of a group, and the effect of a push and of a read on it.
\<close>

section \<open>Merging prefixes\<close>

lemma sort_key_pivot:
  fixes k :: "'a \<Rightarrow> int"
  shows "sort_key k xs = sort_key k (filter (\<lambda>x. k x < c) xs) @ filter (\<lambda>x. k x = c) xs @ sort_key k (filter (\<lambda>x. c < k x) xs)"
    (is "_ = ?r")
proof (rule properties_for_sort_key)
  show "mset ?r = mset xs" by (induction xs) auto
next
  fix x
  have "filter (\<lambda>y. k x = k y) (sort_key k ys) = filter (\<lambda>y. k x = k y) ys" for ys
    using sort_key_stable [of k "k x" ys] by (simp add: eq_commute)
  then show "filter (\<lambda>y. k x = k y) ?r = filter (\<lambda>y. k x = k y) xs"
    by (cases "k x < c"; cases "k x = c") (auto simp: filter_empty_conv intro!: filter_cong)
next
  show "sorted (map k ?r)" by (auto simp: sorted_append intro: sorted_map_same)
qed

lemma drop_beaten:
  fixes k :: "'a \<Rightarrow> int"
  assumes "n \<le> length (filter (\<lambda>x. k x \<le> k y) A)"
  shows "take n (sort_key k (A @ y # B)) = take n (sort_key k (A @ B))"
proof -
  let ?P = "sort_key k (filter (\<lambda>x. k x < k y) (A @ B)) @ filter (\<lambda>x. k x = k y) A"
  let ?S = "filter (\<lambda>x. k x = k y) B @ sort_key k (filter (\<lambda>x. k y < k x) (A @ B))"
  have "sort_key k (A @ y # B) = ?P @ y # ?S" "sort_key k (A @ B) = ?P @ ?S"
    by (subst sort_key_pivot [of k _ "k y"]; simp)+
  moreover have "length (filter (\<lambda>x. k x \<le> k y) A) = length (filter (\<lambda>x. k x < k y) A) + length (filter (\<lambda>x. k x = k y) A)"
    by (induction A) auto
  then have "n \<le> length ?P" using assms by simp
  ultimately show ?thesis by simp
qed

lemma drop_beaten_all:
  assumes "\<forall>y \<in> set R. n \<le> length (filter (\<lambda>x. k x \<le> (k y :: int)) A)"
  shows "take n (sort_key k (A @ R @ B)) = take n (sort_key k (A @ B))"
  using assms
proof (induction R)
  case (Cons y R)
  then show ?case using drop_beaten [of n k y A "R @ B"] by simp
qed simp

lemma take_one_list:
  assumes "sorted (map (k :: 'a \<Rightarrow> int) xs)"
  shows "take n (sort_key k (A @ take n xs @ B)) = take n (sort_key k (A @ xs @ B))"
proof (cases "n \<le> length xs")
  case True
  have "n \<le> length (filter (\<lambda>x. k x \<le> k y) (A @ take n xs))" if "y \<in> set (drop n xs)" for y
  proof -
    have "sorted (map k (take n xs @ drop n xs))" using assms by simp
    then have "\<forall>x \<in> set (take n xs). k x \<le> k y" using that by (simp only: map_append sorted_append) auto
    then have "filter (\<lambda>x. k x \<le> k y) (take n xs) = take n xs" by (rule filter_True)
    then show ?thesis using True by simp
  qed
  then have "take n (sort_key k ((A @ take n xs) @ drop n xs @ B)) = take n (sort_key k ((A @ take n xs) @ B))"
    by (intro drop_beaten_all) blast
  moreover have "(A @ take n xs) @ drop n xs @ B = A @ xs @ B" by simp
  ultimately show ?thesis by (metis append.assoc)
qed simp

lemma take_merged:
  assumes "\<forall>xs \<in> set xss. sorted (map (k :: 'a \<Rightarrow> int) xs)"
  shows "take n (sort_key k (A @ concat (map (take n) xss))) = take n (sort_key k (A @ concat xss))"
  using assms
proof (induction xss arbitrary: A)
  case (Cons xs xss)
  have "take n (sort_key k (A @ take n xs @ concat (map (take n) xss))) = take n (sort_key k (A @ take n xs @ concat xss))"
    using Cons.IH [of "A @ take n xs"] Cons.prems by simp
  also have "\<dots> = take n (sort_key k (A @ xs @ concat xss))" by (rule take_one_list) (use Cons.prems in simp)
  finally show ?case by simp
qed simp

section \<open>A lane and its collective\<close>

definition lane_inv :: "sha \<Rightarrow> collective_entry list \<Rightarrow> lane \<Rightarrow> fs \<Rightarrow> bool" where
  "lane_inv sha cs ln s =
     (collective_shard_name (ln_shard ln) \<and> (\<exists>es. shard_inv sha (ln_shard ln) s es \<and> list_all2 coll_records es cs) \<and>
      (ln_index ln = None \<or> (\<exists>ix. ln_index ln = Some ix \<and> index_matches ix (ln_lasts ln) (newest (ln_window ln) cs))))"

lemma collective_of_fields [simp]:
  "cs_shard_name (collective_of ln g) = ln_shard ln" "cs_window_size (collective_of ln g) = ln_window ln"
  "cs_index (collective_of ln g) = ln_index ln" "cs_last_contribution (collective_of ln g) = ln_lasts ln"
  "rg_fs (collective_of ln g) = rg_fs g" "or_rules (collective_of ln g) = or_rules g" "or_cache (collective_of ln g) = or_cache g"
  "rg_trust_baseline (collective_of ln g) = rg_trust_baseline g"
  by (simp_all add: collective_of_def orchestrator.defs collective.defs)

lemma orch_inv_parts [simp]:
  "orch_inv sha fstr rix pix audit (collective_of ln g) = orch_inv sha fstr rix pix audit g"
  "orch_inv sha fstr rix pix audit (put_lane a c g) = orch_inv sha fstr rix pix audit c"
  by (simp_all add: collective_of_def put_lane_def orchestrator.defs collective.defs lane_group.defs orch_inv_def gov_inv_def
      reg_inv_def pol_inv_def)

lemma put_lane_fields [simp]:
  "lg_lanes (put_lane a c g) = dput a (lane_of c) (lg_lanes g)" "rg_fs (put_lane a c g) = rg_fs c"
  "lg_merge_shard (put_lane a c g) = lg_merge_shard g" "or_rules (put_lane a c g) = or_rules c"
  by (simp_all add: put_lane_def orchestrator.defs lane_group.defs)

lemma lane_of_fields [simp]:
  "ln_shard (lane_of c) = cs_shard_name c" "ln_window (lane_of c) = cs_window_size c" "ln_index (lane_of c) = cs_index c"
  "ln_lasts (lane_of c) = cs_last_contribution c"
  by (simp_all add: lane_of_def)

text \<open>
  The families of the lanes are distinct: otherwise the lanes of two agents share the
  directory of their segments.
\<close>

definition lanes_apart :: "lane_group \<Rightarrow> bool" where
  "lanes_apart g = inj_on (\<lambda>a. family_name (lane_shard_name a)) (set (registered_agents g))"

lemma lanes_share_family: "family_name (lane_shard_name (''shard_'' @ a)) = family_name (lane_shard_name a)"
  by (simp add: lane_shard_name_def LANE_PREFIX_def family_name_def py_replace_unfold)

definition lanes_inv ::
    "sha \<Rightarrow> (string \<Rightarrow> flt option) \<Rightarrow> reg_index \<Rightarrow> pol_index \<Rightarrow> (string \<Rightarrow> collective_entry list) \<Rightarrow> lane_group \<Rightarrow> bool" where
  "lanes_inv sha fstr rix pix H g =
     ((\<exists>audit. orch_inv sha fstr rix pix audit g) \<and> mono_files (rg_fs g) = [] \<and> lanes_apart g \<and>
      (\<forall>a ln. dget a (lg_lanes g) = Some ln \<longrightarrow> ln_shard ln = lane_shard_name a \<and> ln_window ln = 500 \<and> lane_inv sha (H a) ln (rg_fs g) \<and>
         linked_projections 500 (H a)))"

lemma lane_name [simp]: "collective_name (lane_shard_name a) = lane_shard_name a" "collective_shard_name (lane_shard_name a)"
  by (simp_all add: collective_name_def collective_shard_name_def lane_shard_name_def LANE_PREFIX_def COLLECTIVE_PREFIX_def startswith_prefix)

lemma registered_iff: "a \<in> set (registered_agents g) \<longleftrightarrow> (\<exists>ln. dget a (lg_lanes g) = Some ln)"
  by (metis domIff dom_map_of_conv_image_fst image_set not_None_eq registered_agents_def)


lemma coll_inv_lane: "(\<exists>es. coll_inv sha es cs (collective_of ln g)) \<longleftrightarrow> lane_inv sha cs ln (rg_fs g) \<and> mono_files (rg_fs g) = []"
  by (auto simp: coll_inv_def lane_inv_def)

text \<open>What a change of one lane has to keep.\<close>

lemma put_lane_inv:
  assumes inv: "lanes_inv sha fstr rix pix H g" and a: "dget a (lg_lanes g) = Some ln"
    and c: "engine_inv sha fstr rix pix audit es cs c" "cs_shard_name c = ln_shard ln" "cs_window_size c = ln_window ln"
    and links: "linked_projections 500 cs" and kept: "push_kept sha (ln_shard ln) (rg_fs g) (rg_fs c)"
  shows "lanes_inv sha fstr rix pix (H(a := cs)) (put_lane a c g) \<and> registered_agents (put_lane a c g) = registered_agents g"
proof -
  have names: "registered_agents (put_lane a c g) = registered_agents g"
    using a by (auto simp: registered_agents_def intro!: dput_map_fst dest: map_of_SomeD intro: rev_image_eqI)
  have o: "orch_inv sha fstr rix pix audit (put_lane a c g)" and ci: "coll_inv sha es cs c" using c(1) by (simp_all add: engine_inv_def)
  have m: "mono_files (rg_fs c) = []" using ci by (simp add: coll_inv_def)
  have own: "lane_inv sha cs (lane_of c) (rg_fs c)" using ci by (auto simp: lane_inv_def coll_inv_def)
  have shape: "ln_shard ln = lane_shard_name a" "ln_window ln = 500" using inv a by (simp_all add: lanes_inv_def)
  have "ln_shard ln' = lane_shard_name b \<and> ln_window ln' = 500 \<and> lane_inv sha (H b) ln' (rg_fs c) \<and> linked_projections 500 (H b)"
    if b: "dget b (lg_lanes g) = Some ln'" "b \<noteq> a" for b ln'
  proof -
    have l: "ln_shard ln' = lane_shard_name b" "ln_window ln' = 500" "lane_inv sha (H b) ln' (rg_fs g)"
      "linked_projections 500 (H b)"
      using inv b(1) by (simp_all add: lanes_inv_def)
    have "family_name (lane_shard_name b) \<noteq> family_name (lane_shard_name a)"
      using inv a b registered_iff by (auto simp: lanes_inv_def lanes_apart_def inj_on_def)
    moreover have "family_name (lane_shard_name b) \<noteq> family_name ORCHESTRATOR_SHARD"
      using collective_families(3) [OF lane_name(2), of b] by simp
    ultimately have "lane_inv sha (H b) ln' (rg_fs c)" using l kept shape(1) unfolding lane_inv_def push_kept_def by metis
    with l show ?thesis by simp
  qed
  with inv o m own shape c names links have "lanes_inv sha fstr rix pix (H(a := cs)) (put_lane a c g)"
    unfolding lanes_inv_def lanes_apart_def by (auto split: if_splits)
  with names show ?thesis by simp
qed

section \<open>Reading one lane\<close>

definition of_type :: "string option \<Rightarrow> collective_entry list \<Rightarrow> collective_entry list" where
  "of_type ty cs = (if named ty then filter (\<lambda>c. ce_action_type c = JStr (the ty)) cs else cs)"

text \<open>The window of a lane, newest entry first.\<close>

definition lane_view :: "string option \<Rightarrow> collective_entry list \<Rightarrow> collective_entry list" where
  "lane_view ty cs = of_type ty (rev (newest 500 cs))"

lemma lane_view_subset: "c \<in> set (lane_view ty cs) \<Longrightarrow> c \<in> set cs"
  using set_newest [of 500 cs] by (auto simp: lane_view_def of_type_def split: if_splits)

lemma sorted_rev_neg: "sorted (map (f :: 'a \<Rightarrow> int) xs) \<Longrightarrow> sorted (map (\<lambda>x. - f x) (rev xs))"
  by (induction xs) (auto simp: sorted_append)

lemma lane_view_sorted:
  assumes "sorted (map (\<lambda>c. instant (ce_contributed_at c)) cs)"
  shows "sorted (map (\<lambda>c. - instant (ce_contributed_at c)) (lane_view ty cs))"
proof -
  have "sorted (map (\<lambda>c. instant (ce_contributed_at c)) (newest 500 cs))"
    using assms by (simp add: newest_def sorted_wrt_drop flip: drop_map)
  from sorted_rev_neg [OF this] show ?thesis unfolding lane_view_def of_type_def by (simp add: sorted_filter)
qed

lemma lane_recent:
  assumes inv: "lanes_inv sha fstr rix pix H g" and a: "a \<in> set (registered_agents g)"
  shows "\<exists>g'. in_lane a (recent limit None ty) g = (g', Inr (py_take limit (lane_view ty (H a)))) \<and>
    lanes_inv sha fstr rix pix H g' \<and> registered_agents g' = registered_agents g"
proof -
  obtain ln where ln: "dget a (lg_lanes g) = Some ln" using a by (auto simp: registered_iff)
  obtain audit where o: "orch_inv sha fstr rix pix audit g" using inv by (auto simp: lanes_inv_def)
  obtain es where ci: "coll_inv sha es (H a) (collective_of ln g)"
    using inv ln coll_inv_lane [of sha "H a" ln g] by (auto simp: lanes_inv_def)
  have w: "ln_window ln = 500" using inv ln by (simp add: lanes_inv_def)
  obtain l where e: "coll_ensure_index (collective_of ln g) =
      ((collective_of ln g)\<lparr>cs_index := Some (newest 500 (H a)), cs_last_contribution := l\<rparr>, Inr (newest 500 (H a)))"
    and m: "index_matches (newest 500 (H a)) l (newest 500 (H a))"
    using coll_ensure_inv [OF ci] w by auto
  let ?c = "(collective_of ln g)\<lparr>cs_index := Some (newest 500 (H a)), cs_last_contribution := l\<rparr>"
  have "coll_inv sha es (H a) ?c" using coll_inv_filled [OF ci] m w by simp
  with o have "engine_inv sha fstr rix pix audit es (H a) ?c" by (simp add: engine_inv_def)
  moreover have "linked_projections 500 (H a)" using inv ln by (simp add: lanes_inv_def)
  ultimately have
    "lanes_inv sha fstr rix pix H (put_lane a ?c g)" "registered_agents (put_lane a ?c g) = registered_agents g"
    using put_lane_inv [OF inv ln, of audit es "H a" ?c] by simp_all
  moreover have "in_lane a (recent limit None ty) g = (put_lane a ?c g, Inr (py_take limit (lane_view ty (H a))))"
    by (simp add: in_lane_def on_lane_def ln recent_def sbind_def e named_def [of None] lane_view_def of_type_def)
  ultimately show ?thesis by blast
qed

lemma each_lane_recent:
  assumes "lanes_inv sha fstr rix pix H g" and "set as \<subseteq> set (registered_agents g)"
  shows "\<exists>g'. each_lane as (recent limit None ty) g = (g', Inr (map (\<lambda>a. py_take limit (lane_view ty (H a))) as)) \<and>
    lanes_inv sha fstr rix pix H g' \<and> registered_agents g' = registered_agents g"
  using assms
proof (induction as arbitrary: g)
  case (Cons a as)
  obtain g1 where 1: "in_lane a (recent limit None ty) g = (g1, Inr (py_take limit (lane_view ty (H a))))"
    "lanes_inv sha fstr rix pix H g1" "registered_agents g1 = registered_agents g"
    using lane_recent [OF Cons.prems(1), of a limit ty] Cons.prems(2) by auto
  from Cons.IH [OF 1(2)] Cons.prems(2) 1(3) obtain g2 where
    "each_lane as (recent limit None ty) g1 = (g2, Inr (map (\<lambda>a. py_take limit (lane_view ty (H a))) as))"
    "lanes_inv sha fstr rix pix H g2" "registered_agents g2 = registered_agents g" by auto
  with 1(1) show ?case by (simp add: sbind_def)
qed simp

section \<open>Pushing to one lane\<close>

lemma push_lane_effect:
  assumes inv: "lanes_inv sha fstr rix pix H g" and a: "a \<in> set (registered_agents g)"
    and items: "list_all item_ok items" and f: "functions_ok sf df"
  shows "\<exists>g' res more. push_lane sha py_str fstr oserr sf df a owner items g = (g', Inr res) \<and>
    lanes_inv sha fstr rix pix (H(a := H a @ more)) g' \<and> registered_agents g' = registered_agents g \<and>
    lw_lane_shard res = lane_shard_name a \<and> lw_admitted res = map ce_hash more \<and> (\<forall>c \<in> set more. ce_agent_id c = JStr a) \<and>
    length (lw_admitted res) + length (lw_rejected res) = length items \<and>
    (\<forall>c \<in> set more. ce_contributed_at c \<in> (\<lambda>i. fst (pi_written i)) ` set items) \<and>
    (\<exists>g1. push sha py_str fstr oserr sf df a owner items (collective_of (the (dget a (lg_lanes g))) g) = (g1,
       Inr \<lparr>pu_admitted = lw_admitted res, pu_rejected = lw_rejected res\<rparr>))"
proof -
  obtain ln where ln: "dget a (lg_lanes g) = Some ln" using a by (auto simp: registered_iff)
  have l: "ln_shard ln = lane_shard_name a" "ln_window ln = 500" "linked_projections 500 (H a)"
    using inv ln by (simp_all add: lanes_inv_def)
  obtain audit where o: "orch_inv sha fstr rix pix audit g" using inv by (auto simp: lanes_inv_def)
  obtain es where "coll_inv sha es (H a) (collective_of ln g)"
    using inv ln coll_inv_lane [of sha "H a" ln g] by (auto simp: lanes_inv_def)
  with o have e: "engine_inv sha fstr rix pix audit es (H a) (collective_of ln g)" by (simp add: engine_inv_def)
  obtain c res audit' es' more where
    p: "push sha py_str fstr oserr sf df a owner items (collective_of ln g) = (c, Inr res)"
    "engine_inv sha fstr rix pix audit' es' (H a @ more) c" "linked_projections 500 (H a @ more)"
    "cs_window_size c = 500" "cs_shard_name c = ln_shard ln"
    "pu_admitted res = map ce_hash more" "\<forall>c \<in> set more. ce_agent_id c = JStr a"
    "length (pu_admitted res) + length (pu_rejected res) = length items"
    "push_kept sha (ln_shard ln) (rg_fs g) (rg_fs c)"
    "\<forall>c \<in> set more. ce_contributed_at c \<in> (\<lambda>i. fst (pi_written i)) ` set items"
    using push_links [OF e _ items f, of py_str oserr a owner] l by auto
  let ?r = "\<lparr>lw_lane_shard = lane_shard_name a, lw_admitted = pu_admitted res, lw_rejected = pu_rejected res\<rparr>"
  have "push_lane sha py_str fstr oserr sf df a owner items g = (put_lane a c g, Inr ?r)"
    using p(1,5) l(1) by (simp add: push_lane_def in_lane_def on_lane_def ln sbind_def)
  with put_lane_inv [OF inv ln p(2,5) _ p(3,9)] p(1,4,6-8,10) l(2) ln show ?thesis
    by (intro exI [where x = "put_lane a c g"] exI [where x = ?r] exI [where x = more]) simp
qed

end
