(* ===== verification/Lanes_Props.thy ===== *)
theory Lanes_Props
  imports Lanes_Laws
begin

text \<open>Properties of parallel lanes: writes stay in their lane, reads merge all lanes by time.\<close>

section \<open>Isolation\<close>

record lane_request =
  lr_agent :: string
  lr_owner :: string
  lr_items :: "push_item list"

definition run_lane_push ::
    "sha \<Rightarrow> (json \<Rightarrow> string) \<Rightarrow> (string \<Rightarrow> flt option) \<Rightarrow> string \<Rightarrow> lane_request \<Rightarrow> lane_group \<Rightarrow> lane_group" where
  "run_lane_push sha py_str fstr oserr q g =
     fst (push_lane sha py_str fstr oserr None None (lr_agent q) (lr_owner q) (lr_items q) g)"

definition lane_request_ok :: "lane_group \<Rightarrow> lane_request \<Rightarrow> bool" where
  "lane_request_ok g q = (lr_agent q \<in> set (registered_agents g) \<and> list_all item_ok (lr_items q))"

definition pushes_of :: "string \<Rightarrow> lane_request list \<Rightarrow> nat" where
  "pushes_of a qs = sum_list (map (\<lambda>q. length (lr_items q)) (filter (\<lambda>q. lr_agent q = a) qs))"

lemma run_lane_push_inv:
  assumes "lanes_inv sha fstr rix pix H g" and "lane_request_ok g q"
  shows "\<exists>more. lanes_inv sha fstr rix pix (H(lr_agent q := H (lr_agent q) @ more)) (run_lane_push sha py_str fstr oserr q g) \<and>
    registered_agents (run_lane_push sha py_str fstr oserr q g) = registered_agents g \<and>
    (\<forall>c \<in> set more. ce_agent_id c = JStr (lr_agent q)) \<and> length more \<le> length (lr_items q)"
proof -
  have "lr_agent q \<in> set (registered_agents g)" "list_all item_ok (lr_items q)" using assms(2) by (simp_all add: lane_request_ok_def)
  from push_lane_effect [OF assms(1) this no_functions_ok, of py_str oserr "lr_owner q"] obtain g' res more where
    "push_lane sha py_str fstr oserr None None (lr_agent q) (lr_owner q) (lr_items q) g = (g', Inr res)"
    "lanes_inv sha fstr rix pix (H(lr_agent q := H (lr_agent q) @ more)) g'" "registered_agents g' = registered_agents g"
    "lw_admitted res = map ce_hash more" "\<forall>c \<in> set more. ce_agent_id c = JStr (lr_agent q)"
    "length (lw_admitted res) + length (lw_rejected res) = length (lr_items q)" by auto
  then show ?thesis by (intro exI [where x = more]) (simp add: run_lane_push_def)
qed

text \<open>
  C29: writes stay in their lane. Whatever agents push through a group, in any order and with
  any verdicts, every lane grows by projections of its own agent only, at most one for each
  entry that agent pushed, and every lane keeps the links of its agent's chain; a lane
  nobody pushed to is unchanged. The lanes have to be apart: the names of the agents may
  not differ only by \<^verbatim>\<open>shard_\<close>, which the directory names leave out.
\<close>

theorem lanes_isolated:
  assumes "lanes_inv sha fstr rix pix H g" and "\<forall>q \<in> set qs. lane_request_ok g q"
  shows "\<exists>new. lanes_inv sha fstr rix pix (\<lambda>a. H a @ new a) (fold (run_lane_push sha py_str fstr oserr) qs g) \<and>
    (\<forall>a. (\<forall>c \<in> set (new a). ce_agent_id c = JStr a) \<and> length (new a) \<le> pushes_of a qs)"
proof -
  have "\<exists>new. lanes_inv sha fstr rix pix (\<lambda>a. H a @ new a) (fold (run_lane_push sha py_str fstr oserr) qs g) \<and>
    registered_agents (fold (run_lane_push sha py_str fstr oserr) qs g) = registered_agents g \<and>
    (\<forall>a. (\<forall>c \<in> set (new a). ce_agent_id c = JStr a) \<and> length (new a) \<le> pushes_of a qs)"
    using assms
  proof (induction qs arbitrary: H g)
    case Nil
    then show ?case by (intro exI [where x = "\<lambda>_. []"]) (simp add: pushes_of_def)
  next
    case (Cons q qs)
    let ?g = "run_lane_push sha py_str fstr oserr q g" and ?a = "lr_agent q"
    obtain more where m: "lanes_inv sha fstr rix pix (H(?a := H ?a @ more)) ?g" "registered_agents ?g = registered_agents g"
      "\<forall>c \<in> set more. ce_agent_id c = JStr ?a" "length more \<le> length (lr_items q)"
      using run_lane_push_inv [OF Cons.prems(1), of q py_str oserr] Cons.prems(2) by auto
    have "\<forall>q' \<in> set qs. lane_request_ok ?g q'" using Cons.prems(2) m(2) by (simp add: lane_request_ok_def)
    from Cons.IH [OF m(1) this] obtain new where
      n: "lanes_inv sha fstr rix pix (\<lambda>a. (H(?a := H ?a @ more)) a @ new a) (fold (run_lane_push sha py_str fstr oserr) qs ?g)"
      "registered_agents (fold (run_lane_push sha py_str fstr oserr) qs ?g) = registered_agents ?g"
      "\<forall>a. (\<forall>c \<in> set (new a). ce_agent_id c = JStr a) \<and> length (new a) \<le> pushes_of a qs" by blast
    let ?new = "new(?a := more @ new ?a)"
    have "(\<lambda>a. (H(?a := H ?a @ more)) a @ new a) = (\<lambda>a. H a @ ?new a)" by auto
    moreover have "(\<forall>c \<in> set (?new a). ce_agent_id c = JStr a) \<and> length (?new a) \<le> pushes_of a (q # qs)" for a
      using m(3,4) n(3) by (auto simp: pushes_of_def add_mono)
    ultimately show ?case using n(1,2) m(2) by (intro exI [where x = ?new]) simp
  qed
  then show ?thesis by blast
qed

section \<open>Reading across lanes\<close>

text \<open>
  C28: a read across all lanes, which asks every lane for at most \<open>limit\<close> entries and merges
  those, returns what merging the complete windows would: the newest \<open>limit\<close> entries of the
  wanted type over all lanes, entries of the same time in the order of registration. This
  holds when the clock did not step back within a lane. Reading leaves all histories alone.
\<close>

theorem lanes_recent_merged:
  assumes "lanes_inv sha fstr rix pix H g" and "0 \<le> limit"
    and "\<forall>a \<in> set (registered_agents g). \<forall>c \<in> set (H a). tz (ce_contributed_at c) \<noteq> None"
    and "\<forall>a \<in> set (registered_agents g). sorted (map (\<lambda>c. instant (ce_contributed_at c)) (H a))"
  shows "\<exists>g'. lanes_recent limit None ty g = (g', Inr (take (nat limit)
      (sort_key (\<lambda>c. - instant (ce_contributed_at c)) (concat (map (\<lambda>a. lane_view ty (H a)) (registered_agents g)))))) \<and>
    lanes_inv sha fstr rix pix H g'"
proof -
  let ?as = "registered_agents g" and ?k = "\<lambda>c. - instant (ce_contributed_at c)"
  let ?views = "map (\<lambda>a. lane_view ty (H a)) ?as"
  obtain g' where g': "each_lane ?as (recent limit None ty) g = (g', Inr (map (\<lambda>a. py_take limit (lane_view ty (H a))) ?as))"
    "lanes_inv sha fstr rix pix H g'" using each_lane_recent [OF assms(1)] by blast
  have heads: "map (\<lambda>a. py_take limit (lane_view ty (H a))) ?as = map (take (nat limit)) ?views"
    using assms(2) by (simp add: py_take_def)
  have "sorted (map ?k (lane_view ty (H a)))" if "a \<in> set ?as" for a
    using lane_view_sorted [of "H a" ty] assms(4) that by blast
  then have "\<forall>xs \<in> set ?views. sorted (map ?k xs)" by auto
  from take_merged [OF this, of "nat limit" "[]"] have m:
    "take (nat limit) (sort_key ?k (concat (map (take (nat limit)) ?views))) = take (nat limit) (sort_key ?k (concat ?views))" by simp
  have "\<forall>c \<in> set (concat (map (take (nat limit)) ?views)). tz (ce_contributed_at c) \<noteq> None"
    using assms(3) by (auto dest!: in_set_takeD lane_view_subset)
  then have "newest_first (concat (map (take (nat limit)) ?views)) = Inr (sort_key ?k (concat (map (take (nat limit)) ?views)))"
    by (auto simp: newest_first_def)
  with g' heads m assms(2) show ?thesis
    by (intro exI [where x = g']) (simp add: lanes_recent_def named_def sbind_def of_res_def py_take_def comp_def)
qed

section \<open>A group with two lanes\<close>

lemma sample_lanes:
  "\<exists>rix pix c (g :: lane_group). lanes_inv (\<lambda>m. m) (\<lambda>_. None) rix pix ((\<lambda>_. [])(''bot'' := [c])) g \<and>
     registered_agents g = [''bot'', ''b''] \<and> ce_contributed_at c = sample_time"
proof -
  obtain rix pix and o' :: orchestrator where inv: "orch_inv (\<lambda>m. m) (\<lambda>_. None) rix pix [] o'"
    and o: "or_rules o' = default_rules" "or_cache o' = []" "or_admission_counts o' = []" "rg_trust_baseline o' = ONE"
    and v: "reg_view rix ''bot'' = Some \<lparr>ra_agent_id = JStr ''bot'', ra_public_key = JStr ''pk'', ra_owner_id = JStr ''ann'',
      ra_model = JStr ''m'', ra_registered_at = sample_time, ra_revoked = False\<rparr>"
    "pol_view pix ''ann'' = Some (policy_of ''ann'' sample_policy sample_time, False)"
    and k: "\<forall>x. family_name x \<notin> {family_name IDENTITY_REGISTRY_SHARD, family_name SOVEREIGNTY_SHARD} \<longrightarrow> shard_inv (\<lambda>m. m) x (rg_fs o') []"
    using sample_orch by blast
  let ?g = "fst (register_lane ''b'' (fst (register_lane ''bot'' (open_lanes o' ''m''))))"
  have lanes: "lg_lanes ?g = [(''bot'', new_lane ''bot''), (''b'', new_lane ''b'')]"
    by (simp add: register_lane_def has_lane_def open_lanes_def orchestrator.defs lane_group.defs)
  have fields: "rg_fs ?g = rg_fs o'" "or_rules ?g = default_rules" "or_cache ?g = []" "or_admission_counts ?g = []"
    "rg_trust_baseline ?g = ONE" "orch_inv (\<lambda>m. m) (\<lambda>_. None) rix pix [] ?g"
    using inv o by (simp_all add: register_lane_def has_lane_def open_lanes_def orchestrator.defs lane_group.defs orch_inv_def gov_inv_def
        reg_inv_def pol_inv_def)
  have mono: "mono_files (rg_fs ?g) = []" using fields(6) by (auto simp: orch_inv_def gov_inv_def reg_inv_def)
  have "family_name (lane_shard_name a) \<notin> {family_name IDENTITY_REGISTRY_SHARD, family_name SOVEREIGNTY_SHARD}" for a
    using collective_families(1,2) [OF lane_name(2), of a] by auto
  then have e: "shard_inv (\<lambda>m. m) (lane_shard_name a) (rg_fs ?g) []" for a using k fields(1) by simp
  have "inj_on (\<lambda>a. family_name (lane_shard_name a)) {''bot'', ''b''}"
    by (simp add: inj_on_def lane_shard_name_def LANE_PREFIX_def family_name_def py_replace_unfold)
  then have L: "lanes_inv (\<lambda>m. m) (\<lambda>_. None) rix pix (\<lambda>_. []) ?g"
    using fields(6) mono e lanes
    by (auto simp: lanes_inv_def lanes_apart_def registered_agents_def lane_inv_def new_lane_def split: if_splits)
  let ?ln = "new_lane ''bot''" and ?c = "collective_of (new_lane ''bot'') ?g"
  have ln: "dget ''bot'' (lg_lanes ?g) = Some ?ln" unfolding lanes by simp
  have "\<exists>es. coll_inv (\<lambda>m. m) es [] ?c" using coll_inv_lane [of "\<lambda>m. m" "[]" ?ln ?g] e mono by (simp add: lane_inv_def new_lane_def)
  then obtain es where eng: "engine_inv (\<lambda>m. m) (\<lambda>_. None) rix pix [] es [] ?c" using fields(6) by (auto simp: engine_inv_def)
  have cnt: "admission_count ''bot'' ?c = 0"
    using fields(4) by (simp add: admission_count_def collective_of_def orchestrator.defs collective.defs)
  have "\<not> references_itself sample_admission" by (simp add: sample_entry_def)
  then have allowed: "item_allowed (\<lambda>_. []) rix pix (rg_trust_baseline ?c) ''bot'' ''ann'' sample_item"
    using sample_allowed [OF v] tenths_le_ONE fields(5)
    by (simp add: item_allowed_def Let_def type_of_entry_def sample_item_def)
  obtain c' res more' where
    p: "push (\<lambda>m. m) (\<lambda>_. []) (\<lambda>_. None) [] None None ''bot'' ''ann'' [sample_item] ?c = (c', Inr res)"
    "pu_admitted res = map ce_hash more'" "list_all2 (projects (\<lambda>m. m) None None ''bot'') [sample_item] more'"
    using push_exact_loop [OF eng _ _ no_functions_ok, of "[sample_item]" "\<lambda>_. []" "[]" "''bot''" "''ann''"] fields(2,3) allowed cnt
    by (auto simp del: push.simps)
  have one: "length (pu_admitted res) = 1" using p(2) list_all2_lengthD [OF p(3)] by simp
  have "list_all item_ok [sample_item]" "''bot'' \<in> set (registered_agents ?g)" using ln registered_iff by auto
  from push_lane_effect [OF L this(2,1) no_functions_ok, of "\<lambda>_. []" "[]" "''ann''"] obtain g' more g1 and r :: lane_write_result where
    q: "lanes_inv (\<lambda>m. m) (\<lambda>_. None) rix pix ((\<lambda>_. [])(''bot'' := more)) g'" "registered_agents g' = registered_agents ?g"
    "lw_admitted r = map ce_hash more" "\<forall>c \<in> set more. ce_contributed_at c \<in> (\<lambda>i. fst (pi_written i)) ` set [sample_item]"
    "push (\<lambda>m. m) (\<lambda>_. []) (\<lambda>_. None) [] None None ''bot'' ''ann'' [sample_item] ?c = (g1,
       Inr \<lparr>pu_admitted = lw_admitted r, pu_rejected = lw_rejected r\<rparr>)"
    unfolding ln option.sel append_Nil by blast
  have "length more = 1" using p(1) q(3,5) one by (simp del: push.simps) (metis length_map push_result.select_convs(1))
  then obtain c where "more = [c]" by (cases more) auto
  moreover have "registered_agents g' = [''bot'', ''b'']" unfolding q(2) by (simp only: registered_agents_def lanes) simp
  ultimately show ?thesis using q(1,4) by (intro exI [where x = rix] exI [where x = pix] exI [where x = c] exI [where x = g'])
      (simp add: sample_item_def)
qed

theorem lanes_recent_merged_witness:
  "\<exists>c g g'. lanes_recent 5 None None (g :: lane_group) = (g', Inr [c]) \<and> registered_agents g = [''bot'', ''b'']"
proof -
  obtain rix pix c and g :: lane_group where g: "lanes_inv (\<lambda>m. m) (\<lambda>_. None) rix pix ((\<lambda>_. [])(''bot'' := [c])) g"
    "registered_agents g = [''bot'', ''b'']" "ce_contributed_at c = sample_time"
    using sample_lanes by blast
  have tz: "\<forall>a \<in> set (registered_agents g). \<forall>c' \<in> set (((\<lambda>_. [])(''bot'' := [c])) a). tz (ce_contributed_at c') \<noteq> None"
    using g(2,3) sample_tz by simp
  have so: "\<forall>a \<in> set (registered_agents g). sorted (map (\<lambda>c. instant (ce_contributed_at c)) (((\<lambda>_. [])(''bot'' := [c])) a))" by simp
  have "lane_view None [c] = [c]" "lane_view None [] = []" by (simp_all add: lane_view_def of_type_def named_def newest_def)
  with lanes_recent_merged [OF g(1) _ tz so, of 5 None] g(2) show ?thesis
    by (auto simp: insort_key.simps)
qed

theorem lanes_isolated_witness:
  "\<exists>rix pix c new (g :: lane_group). lanes_inv (\<lambda>m. m) (\<lambda>_. None) rix pix (\<lambda>a. ((\<lambda>_. [])(''bot'' := [c])) a @ new a)
       (fold (run_lane_push (\<lambda>m. m) (\<lambda>_. []) (\<lambda>_. None) []) [\<lparr>lr_agent = ''bot'', lr_owner = ''ann'', lr_items = [sample_item]\<rparr>] g) \<and>
     new ''b'' = []"
proof -
  let ?q = "\<lparr>lr_agent = ''bot'', lr_owner = ''ann'', lr_items = [sample_item]\<rparr>"
  obtain rix pix c and g :: lane_group where g: "lanes_inv (\<lambda>m. m) (\<lambda>_. None) rix pix ((\<lambda>_. [])(''bot'' := [c])) g"
    "registered_agents g = [''bot'', ''b'']" using sample_lanes by blast
  have "\<forall>q \<in> set [?q]. lane_request_ok g q" using g(2) by (simp add: lane_request_ok_def)
  from lanes_isolated [OF g(1) this, of "\<lambda>_. []" "[]"] obtain new where
    n: "lanes_inv (\<lambda>m. m) (\<lambda>_. None) rix pix (\<lambda>a. ((\<lambda>_. [])(''bot'' := [c])) a @ new a)
       (fold (run_lane_push (\<lambda>m. m) (\<lambda>_. []) (\<lambda>_. None) []) [?q] g)" "length (new ''b'') \<le> pushes_of ''b'' [?q]" by blast
  have "pushes_of ''b'' [?q] = 0" by (simp add: pushes_of_def)
  then have "new ''b'' = []" using n(2) by simp
  with n(1) show ?thesis by (intro exI [where x = rix] exI [where x = pix] exI [where x = c] exI [where x = new] exI [where x = g]) simp
qed

end
