(* ===== verification/Bytes.thy ===== *)
theory Bytes
  imports Pylib Hashing
begin

text \<open>
  Byte strings, as lists of characters whose codes are the bytes: UTF-8, \<^verbatim>\<open>bytes.fromhex\<close> and
  what the trust modules turn into bytes before they hash it.
\<close>

section \<open>UTF-8\<close>

definition utf8_char :: "char \<Rightarrow> string" where
  "utf8_char c =
     (let n = of_char c :: nat in if n < 128 then [c] else [char_of (192 + n div 64), char_of (128 + n mod 64)])"

definition utf8 :: "string \<Rightarrow> string" where
  "utf8 s = concat (map utf8_char s)"

lemma utf8_Nil [simp]: "utf8 [] = []"
  by (simp add: utf8_def)

lemma utf8_append [simp]: "utf8 (s @ t) = utf8 s @ utf8 t"
  by (simp add: utf8_def)

lemma utf8_char_inj:
  assumes "utf8_char a @ s = utf8_char b @ t"
  shows "a = b \<and> s = t"
proof -
  let ?m = "of_char a :: nat" and ?n = "of_char b :: nat"
  have lt: "?m < 256" "?n < 256" by (rule nat_of_char_less_256)+
  have code: "of_char (char_of (192 + k div 64) :: char) = 192 + k div 64" "of_char (char_of (128 + k mod 64) :: char) = 128 + k mod 64"
    if "k < 256" for k :: nat
    using that by (simp_all add: of_char_of)
  consider "?m < 128" "?n < 128" | "?m < 128" "128 \<le> ?n" | "128 \<le> ?m" "?n < 128" | "128 \<le> ?m" "128 \<le> ?n" by linarith
  then show ?thesis
  proof cases
    case 1
    then show ?thesis using assms by (simp add: utf8_char_def Let_def)
  next
    case 2
    then have "a = char_of (192 + ?n div 64)" using assms by (simp add: utf8_char_def Let_def)
    then have "?m = 192 + ?n div 64" using code(1) [OF lt(2)] by simp
    then show ?thesis using 2 by simp
  next
    case 3
    then have "b = char_of (192 + ?m div 64)" using assms by (simp add: utf8_char_def Let_def)
    then have "?n = 192 + ?m div 64" using code(1) [OF lt(1)] by simp
    then show ?thesis using 3 by simp
  next
    case 4
    then have "char_of (192 + ?m div 64) = (char_of (192 + ?n div 64) :: char)"
      "char_of (128 + ?m mod 64) = (char_of (128 + ?n mod 64) :: char)" "s = t"
      using assms 4 by (simp_all add: utf8_char_def Let_def)
    then have "192 + ?m div 64 = 192 + ?n div 64" "128 + ?m mod 64 = 128 + ?n mod 64"
      using code [OF lt(1)] code [OF lt(2)] by metis+
    then have "?m = ?n" by (metis add_left_cancel div_mod_decomp)
    then show ?thesis using \<open>s = t\<close> by simp
  qed
qed

lemma utf8_inj: "utf8 s = utf8 t \<longleftrightarrow> s = t"
proof
  show "utf8 s = utf8 t \<Longrightarrow> s = t"
  proof (induction s arbitrary: t)
    case Nil
    then show ?case by (cases t) (auto simp: utf8_def utf8_char_def Let_def split: if_splits)
  next
    case (Cons c s)
    then obtain d t' where t: "t = d # t'" by (cases t) (auto simp: utf8_def utf8_char_def Let_def split: if_splits)
    with Cons.prems have "utf8_char c @ utf8 s = utf8_char d @ utf8 t'" by (simp add: utf8_def)
    then show ?case using utf8_char_inj Cons.IH t by blast
  qed
qed simp

section \<open>Hexadecimal digits\<close>

definition ascii_space :: "char \<Rightarrow> bool" where
  "ascii_space c = ((of_char c :: nat) \<in> {9, 10, 11, 12, 13, 32})"

text \<open>\<^verbatim>\<open>bytes.fromhex\<close> skips white space between bytes.\<close>

fun from_hex :: "string \<Rightarrow> string option" where
  "from_hex [] = Some []"
| "from_hex (c # cs) =
     (if ascii_space c then from_hex cs
      else (case cs of
              [] \<Rightarrow> None
            | d # ds \<Rightarrow>
                (case (hex_val c, hex_val d) of
                   (Some a, Some b) \<Rightarrow> map_option (\<lambda>bs. char_of (16 * a + b) # bs) (from_hex ds)
                 | _ \<Rightarrow> None)))"

text \<open>\<^verbatim>\<open>bs.hex()\<close>, which \<^verbatim>\<open>fromhex\<close> inverts.\<close>

definition to_hex :: "string \<Rightarrow> string" where
  "to_hex bs = concat (map (\<lambda>c. [hex_digit (of_char c div 16), hex_digit (of_char c mod 16)]) bs)"

lemma hex_char:
  fixes c :: char
  shows "of_char c div 16 < (16 :: nat)" and "char_of (16 * (of_char c div 16) + of_char c mod 16 :: nat) = c"
proof -
  have "(of_char c :: nat) < 256" by (rule nat_of_char_less_256)
  then show "of_char c div 16 < (16 :: nat)" by (simp add: less_mult_imp_div_less)
  have "16 * (of_char c div 16) + of_char c mod 16 = (of_char c :: nat)" by simp
  then show "char_of (16 * (of_char c div 16) + of_char c mod 16 :: nat) = c" by (simp only: char_of_char)
qed

lemma not_space_hex: "n < 16 \<Longrightarrow> \<not> ascii_space (hex_digit n)"
  by (simp add: ascii_space_def hex_digit_def of_char_of)

lemma from_hex_to_hex [simp, codec]: "from_hex (to_hex bs) = Some bs"
  by (induction bs) (simp_all add: to_hex_def not_space_hex hex_char)

definition bytes_fromhex :: "json \<Rightarrow> string option" where
  "bytes_fromhex v = (case v of JStr s \<Rightarrow> from_hex s | _ \<Rightarrow> None)"

section \<open>Raw data\<close>

text \<open>
  What the callers hand over: bytes, a text, a dict or another value, for which the text of
  \<^verbatim>\<open>str()\<close> is given.
\<close>

datatype raw = RawBytes string | RawText string | RawDict "(string \<times> json) list" | RawOther string

text \<open>A digest of bytes gives one of texts, that of their UTF-8 form.\<close>

definition text_sha :: "sha \<Rightarrow> sha" where
  "text_sha sha t = sha (utf8 t)"

definition serialize :: "raw \<Rightarrow> string" where
  "serialize v =
     (case v of RawBytes b \<Rightarrow> b | RawText t \<Rightarrow> utf8 t | RawDict d \<Rightarrow> utf8 (dumps_sorted compact_ascii (JObj d)) | RawOther t \<Rightarrow> utf8 t)"

section \<open>Signatures\<close>

text \<open>\<^verbatim>\<open>VerifyKey(key).verify(signed)\<close> of PyNaCl for a key of 32 bytes, or None where PyNaCl is absent.\<close>

type_synonym ed25519 = "(string \<Rightarrow> string \<Rightarrow> bool) option"

section \<open>Adding texts\<close>

text \<open>
  \<^verbatim>\<open>(a + b + ...).encode()\<close>: texts are concatenated; a sum of lists or of numbers has no
  \<^verbatim>\<open>encode\<close>, and other values do not add up.
\<close>

definition is_text :: "json \<Rightarrow> bool" where
  "is_text v = (case v of JStr _ \<Rightarrow> True | _ \<Rightarrow> False)"

definition text_sum :: "json list \<Rightarrow> string res" where
  "text_sum vs =
     (if list_all is_text vs then join_strs vs
      else if list_all (\<lambda>v. case v of JList _ \<Rightarrow> True | _ \<Rightarrow> False) vs
        \<or> list_all (\<lambda>v. case v of JInt _ \<Rightarrow> True | JFloat _ \<Rightarrow> True | JBool _ \<Rightarrow> True | _ \<Rightarrow> False) vs then Inl AttributeError
      else Inl TypeError)"

lemma text_sum_JStr [simp]: "text_sum (map JStr ss) = Inr (concat ss)"
  by (simp add: text_sum_def is_text_def list_all_iff)

lemma text_sum_Inr: "text_sum vs = Inr t \<Longrightarrow> \<exists>ss. vs = map JStr ss \<and> t = concat ss"
proof -
  assume h: "text_sum vs = Inr t"
  then have "list_all is_text vs" by (simp add: text_sum_def split: if_splits)
  then have "\<exists>ss. vs = map JStr ss"
  proof (induction vs)
    case (Cons v vs)
    then obtain s ss where "v = JStr s" "vs = map JStr ss" by (auto simp: is_text_def split: json.splits)
    then have "v # vs = map JStr (s # ss)" by simp
    then show ?case by (rule exI)
  qed simp
  with h show ?thesis by auto
qed

end
