(* ===== verification/Exchange.thy ===== *)
theory Exchange
  imports Events Bytes
begin

text \<open>
  \<^verbatim>\<open>src/dsm/exchange.py\<close>: a task receipt is a portable record of an entry of a shard, with a
  digest over nine of its fields and an optional signature of that digest. The receiver stores
  receipts in a shard of its own. The verification of an Ed25519 signature by PyNaCl is the
  parameter \<open>ed\<close> (on the public key and the signed message, as bytes), or None where PyNaCl is absent.
\<close>

section \<open>Receipts\<close>

record task_receipt =
  tr_receipt_id :: json
  tr_issuer_agent_id :: json
  tr_task_description :: json
  tr_entry_id :: json
  tr_entry_hash :: json
  tr_shard_id :: json
  tr_shard_tip_hash :: json
  tr_shard_entry_count :: json
  tr_timestamp :: json
  tr_receipt_hash :: json
  tr_signature :: json
  tr_public_key :: json
  tr_dispatch_hash :: json
  tr_routing_hash :: json

definition receipt_payload :: "task_receipt \<Rightarrow> (string \<times> json) list" where
  "receipt_payload r =
     [(''receipt_id'', tr_receipt_id r), (''issuer_agent_id'', tr_issuer_agent_id r),
      (''task_description'', tr_task_description r), (''entry_id'', tr_entry_id r), (''entry_hash'', tr_entry_hash r),
      (''shard_id'', tr_shard_id r), (''shard_tip_hash'', tr_shard_tip_hash r),
      (''shard_entry_count'', tr_shard_entry_count r), (''timestamp'', tr_timestamp r)]"

definition compute_receipt_hash :: "sha \<Rightarrow> (string \<times> json) list \<Rightarrow> string" where
  "compute_receipt_hash sha payload = sha (dumps_sorted compact (JObj payload))"

definition optional_field :: "string \<Rightarrow> json \<Rightarrow> (string \<times> json) list" where
  "optional_field k v = (if v = JNull then [] else [(k, v)])"

definition receipt_to_dict :: "task_receipt \<Rightarrow> (string \<times> json) list" where
  "receipt_to_dict r =
     receipt_payload r @ [(''receipt_hash'', tr_receipt_hash r)] @
     optional_field ''signature'' (tr_signature r) @ optional_field ''public_key'' (tr_public_key r) @
     optional_field ''dispatch_hash'' (tr_dispatch_hash r) @ optional_field ''routing_hash'' (tr_routing_hash r)"

definition receipt_from_dict :: "json \<Rightarrow> task_receipt res" where
  "receipt_from_dict d =
     rbind (jsub ''receipt_id'' d) (\<lambda>ri.
     rbind (jsub ''issuer_agent_id'' d) (\<lambda>ia.
     rbind (jsub ''task_description'' d) (\<lambda>td.
     rbind (jsub ''entry_id'' d) (\<lambda>ei.
     rbind (jsub ''entry_hash'' d) (\<lambda>eh.
     rbind (jsub ''shard_id'' d) (\<lambda>si.
     rbind (jsub ''shard_tip_hash'' d) (\<lambda>th.
     rbind (jsub ''shard_entry_count'' d) (\<lambda>ec.
     rbind (jsub ''timestamp'' d) (\<lambda>ts.
     rbind (jsub ''receipt_hash'' d) (\<lambda>rh.
     rbind (jget ''signature'' JNull d) (\<lambda>sg.
     rbind (jget ''public_key'' JNull d) (\<lambda>pk.
     rbind (jget ''dispatch_hash'' JNull d) (\<lambda>dh.
     rbind (jget ''routing_hash'' JNull d) (\<lambda>rt.
       Inr \<lparr>tr_receipt_id = ri, tr_issuer_agent_id = ia, tr_task_description = td, tr_entry_id = ei,
            tr_entry_hash = eh, tr_shard_id = si, tr_shard_tip_hash = th, tr_shard_entry_count = ec,
            tr_timestamp = ts, tr_receipt_hash = rh, tr_signature = sg, tr_public_key = pk,
            tr_dispatch_hash = dh, tr_routing_hash = rt\<rparr>))))))))))))))"

definition receipt_to_json :: "task_receipt \<Rightarrow> string" where
  "receipt_to_json r = dumps_raw spaced_raw (JObj (receipt_to_dict r))"

text \<open>\<^verbatim>\<open>JSONDecodeError\<close> is a \<^verbatim>\<open>ValueError\<close>; a content that is no text is a \<^verbatim>\<open>TypeError\<close>.\<close>

definition JSON_ERROR :: py_error where "JSON_ERROR = ValueError ''JSONDecodeError''"

definition receipt_from_json :: "json \<Rightarrow> task_receipt res" where
  "receipt_from_json s =
     (case s of
        JStr t \<Rightarrow> (case loads t of None \<Rightarrow> Inl JSON_ERROR | Some d \<Rightarrow> receipt_from_dict d)
      | _ \<Rightarrow> Inl TypeError)"

section \<open>Issuing\<close>

definition utc_z :: "datetime \<Rightarrow> string" where
  "utc_z now = py_replace ''+00:00'' ''Z'' (isoformat now)"

definition entry_with_id :: "json \<Rightarrow> entry list \<Rightarrow> entry option" where
  "entry_with_id i es = find (\<lambda>e. eid e = i) es"

definition issued :: "sha \<Rightarrow> stamp \<Rightarrow> string \<Rightarrow> string \<Rightarrow> string \<Rightarrow> string \<Rightarrow> json \<Rightarrow> json \<Rightarrow> entry \<Rightarrow> json \<Rightarrow> nat \<Rightarrow> task_receipt" where
  "issued sha st agent_id entry_id sid task dispatch_hash routing_hash e tip_hash n =
     (let r = \<lparr>tr_receipt_id = JStr (snd st), tr_issuer_agent_id = JStr agent_id, tr_task_description = JStr task,
               tr_entry_id = JStr entry_id, tr_entry_hash = or_empty (hash e), tr_shard_id = JStr sid,
               tr_shard_tip_hash = tip_hash, tr_shard_entry_count = JInt (int n), tr_timestamp = JStr (utc_z (fst st)),
               tr_receipt_hash = JNull, tr_signature = JNull, tr_public_key = JNull,
               tr_dispatch_hash = dispatch_hash, tr_routing_hash = routing_hash\<rparr>
      in r\<lparr>tr_receipt_hash := JStr (compute_receipt_hash sha (receipt_payload r))\<rparr>)"

definition issue_receipt ::
    "sha \<Rightarrow> stamp \<Rightarrow> string \<Rightarrow> string \<Rightarrow> string \<Rightarrow> string \<Rightarrow> json \<Rightarrow> json \<Rightarrow> (fs, task_receipt) op" where
  "issue_receipt sha st agent_id entry_id sid task dispatch_hash routing_hash =
     sbind (read sid 0 READ_ALL) (\<lambda>entries.
       case entry_with_id (JStr entry_id) entries of
         None \<Rightarrow> raise (ValueError (''Entry '' @ entry_id @ '' not found in shard '' @ sid))
       | Some e \<Rightarrow>
           sbind (read sid 0 1) (\<lambda>tips.
             ret (issued sha st agent_id entry_id sid task dispatch_hash routing_hash e
                    (if tips = [] then JStr [] else hash (hd tips)) (length entries))))"

section \<open>Verifying\<close>

datatype receipt_status = R_INTACT | R_TAMPERED | R_SIGNATURE_INVALID

record receipt_check =
  rc_receipt_id :: json
  rc_status :: receipt_status
  rc_issuer :: json
  rc_task :: json
  rc_signature_verified :: "bool option"

definition verify_receipt_signature :: "ed25519 \<Rightarrow> task_receipt \<Rightarrow> bool option" where
  "verify_receipt_signature ed r =
     (if \<not> truthy (tr_signature r) \<or> \<not> truthy (tr_public_key r) then None
      else
        (case ed of
           None \<Rightarrow> Some False
         | Some verify \<Rightarrow>
             (case (bytes_fromhex (tr_public_key r), bytes_fromhex (tr_signature r)) of
                (Some pub, Some sig) \<Rightarrow>
                  Some (length pub = 32 \<and> length sig = 64 \<and>
                        (case tr_receipt_hash r of JStr h \<Rightarrow> verify pub (sig @ utf8 h) | _ \<Rightarrow> False))
              | _ \<Rightarrow> Some False)))"

definition verify_receipt :: "sha \<Rightarrow> ed25519 \<Rightarrow> task_receipt \<Rightarrow> receipt_check" where
  "verify_receipt sha ed r =
     (let expected = compute_receipt_hash sha (receipt_payload r);
          status = (if JStr expected = tr_receipt_hash r then R_INTACT else R_TAMPERED);
          sig_ok = verify_receipt_signature ed r
      in \<lparr>rc_receipt_id = tr_receipt_id r,
          rc_status = (if sig_ok = Some False \<and> truthy (tr_signature r) \<and> truthy (tr_public_key r) then R_SIGNATURE_INVALID else status),
          rc_issuer = tr_issuer_agent_id r, rc_task = tr_task_description r, rc_signature_verified = sig_ok\<rparr>)"

datatype storage_receipt_status = CONFIRMED | ENTRY_MISSING | HASH_MISMATCH | SHARD_MISSING

record storage_check =
  sc_receipt_id :: json
  sc_status :: storage_receipt_status
  sc_entry_found :: bool
  sc_hash_matches :: bool

definition check_against :: "task_receipt \<Rightarrow> entry list \<Rightarrow> storage_check" where
  "check_against r entries =
     (if entries = [] then \<lparr>sc_receipt_id = tr_receipt_id r, sc_status = SHARD_MISSING, sc_entry_found = False, sc_hash_matches = False\<rparr>
      else
        (case entry_with_id (tr_entry_id r) entries of
           None \<Rightarrow> \<lparr>sc_receipt_id = tr_receipt_id r, sc_status = ENTRY_MISSING, sc_entry_found = False, sc_hash_matches = False\<rparr>
         | Some e \<Rightarrow>
             (if or_empty (hash e) \<noteq> tr_entry_hash r
              then \<lparr>sc_receipt_id = tr_receipt_id r, sc_status = HASH_MISMATCH, sc_entry_found = True, sc_hash_matches = False\<rparr>
              else \<lparr>sc_receipt_id = tr_receipt_id r, sc_status = CONFIRMED, sc_entry_found = True, sc_hash_matches = True\<rparr>)))"

text \<open>A shard id that is no text has no \<^verbatim>\<open>replace\<close>.\<close>

definition verify_receipt_against_storage :: "task_receipt \<Rightarrow> (fs, storage_check) op" where
  "verify_receipt_against_storage r =
     (case tr_shard_id r of
        JStr sid \<Rightarrow> sbind (read sid 0 READ_ALL) (\<lambda>entries. ret (check_against r entries))
      | _ \<Rightarrow> raise AttributeError)"

section \<open>Received receipts\<close>

definition receipt_entry :: "stamp \<Rightarrow> task_receipt \<Rightarrow> string \<Rightarrow> string \<Rightarrow> entry" where
  "receipt_entry st r receiver_agent_id sid =
     \<lparr>eid = JStr (snd st), timestamp = fst st, session_id = JStr receiver_agent_id, source = JStr receiver_agent_id,
      content = JStr (receipt_to_json r), shard = JStr sid, hash = JStr [], prev_hash = JNull,
      metadata = JObj [(''event_type'', JStr ''external_receipt''), (''receipt_id'', tr_receipt_id r),
        (''issuer'', tr_issuer_agent_id r), (''task'', tr_task_description r)],
      version = JStr ''v2.0''\<rparr>"

definition store_external_receipt :: "sha \<Rightarrow> stamp \<Rightarrow> task_receipt \<Rightarrow> string \<Rightarrow> string \<Rightarrow> (fs, entry) op" where
  "store_external_receipt sha st r receiver_agent_id sid = append sha (fst st) (receipt_entry st r receiver_agent_id sid)"

definition received_receipt :: "entry \<Rightarrow> task_receipt option res" where
  "received_receipt e =
     rbind (jget ''event_type'' JNull (if truthy (metadata e) then metadata e else JObj [])) (\<lambda>t.
       if t \<noteq> JStr ''external_receipt'' then Inr None
       else
         (case receipt_from_json (content e) of
            Inr r \<Rightarrow> Inr (Some r)
          | Inl (KeyError k) \<Rightarrow> Inr None
          | Inl err \<Rightarrow> if err = JSON_ERROR then Inr None else Inl err))"

definition list_received_receipts :: "string \<Rightarrow> (fs, task_receipt list) op" where
  "list_received_receipts sid = sbind (read sid 0 READ_ALL) (\<lambda>entries. of_res (collect received_receipt entries))"

end
