(* ===== verification/Exchange_Props.thy ===== *)
theory Exchange_Props
  imports Exchange Samples
begin

text \<open>
  Properties of receipts: what is issued is confirmed later, what their digest binds, and that
  stored receipts are listed as they were received.
\<close>

section \<open>Receipts as documents\<close>

definition receipt_wf :: "task_receipt \<Rightarrow> bool" where
  "receipt_wf r = wf_json (JObj (receipt_to_dict r))"

lemma receipt_dict_roundtrip [simp, codec]: "receipt_from_dict (JObj (receipt_to_dict r)) = Inr r"
  by (simp add: receipt_from_dict_def receipt_to_dict_def receipt_payload_def optional_field_def)

lemma receipt_json_roundtrip [simp, codec]: "receipt_wf r \<Longrightarrow> receipt_from_json (JStr (receipt_to_json r)) = Inr r"
  unfolding receipt_wf_def receipt_from_json_def receipt_to_json_def by (simp add: loads_dumps_raw del: wf_json.simps dumps_raw.simps)

lemma payload_wf: "receipt_wf r \<Longrightarrow> wf_json (JObj (receipt_payload r))"
  by (auto simp: receipt_wf_def receipt_to_dict_def)

section \<open>What the digest binds\<close>

text \<open>The nine fields, as JSON compares them.\<close>

definition receipt_facts :: "task_receipt \<Rightarrow> (string \<times> json) list" where
  "receipt_facts r = map (\<lambda>(k, v). (k, norm v)) (receipt_payload r)"

lemma facts_of_norm:
  assumes "norm (JObj (receipt_payload r)) = norm (JObj (receipt_payload r'))"
  shows "receipt_facts r = receipt_facts r'"
proof -
  have "dget k (map (\<lambda>(k, v). (k, norm v)) (receipt_payload r)) = dget k (map (\<lambda>(k, v). (k, norm v)) (receipt_payload r'))" for k
  proof -
    have "map_of (sort_key fst (map (\<lambda>(k, v). (k, norm v)) (receipt_payload r))) k
        = map_of (sort_key fst (map (\<lambda>(k, v). (k, norm v)) (receipt_payload r'))) k" using assms by simp
    moreover have "distinct (map fst (receipt_payload x))" for x by (simp add: receipt_payload_def)
    ultimately have "map_option norm (dget k (receipt_payload r)) = map_option norm (dget k (receipt_payload r'))"
      by (simp only: dget_norm)
    then show ?thesis by (simp add: map_of_map)
  qed
  from this [of "''receipt_id''"] this [of "''issuer_agent_id''"] this [of "''task_description''"] this [of "''entry_id''"]
    this [of "''entry_hash''"] this [of "''shard_id''"] this [of "''shard_tip_hash''"] this [of "''shard_entry_count''"]
    this [of "''timestamp''"]
  show ?thesis by (simp add: receipt_facts_def receipt_payload_def)
qed


text \<open>The fields of the causal binding are outside the digest.\<close>

lemma causal_fields_unbound:
  "verify_receipt sha ed (r\<lparr>tr_dispatch_hash := d, tr_routing_hash := t\<rparr>) = verify_receipt sha ed r"
proof -
  let ?r = "r\<lparr>tr_dispatch_hash := d, tr_routing_hash := t\<rparr>"
  have f: "tr_signature ?r = tr_signature r" "tr_public_key ?r = tr_public_key r" "tr_receipt_hash ?r = tr_receipt_hash r"
    "tr_receipt_id ?r = tr_receipt_id r" "tr_issuer_agent_id ?r = tr_issuer_agent_id r"
    "tr_task_description ?r = tr_task_description r" by simp_all
  have "receipt_payload ?r = receipt_payload r" by (simp add: receipt_payload_def)
  then show ?thesis by (simp only: verify_receipt_def verify_receipt_signature_def f)
qed

section \<open>Issuing and confirming\<close>

lemma later_entries:
  assumes "shard_inv sha sid s es" and "\<forall>a \<in> set ys. request_ok sid a"
  shows "\<exists>more. shard_inv sha sid (run_appends sha ys s) (es @ more) \<and> map eid more = map (\<lambda>a. norm (eid (snd a))) ys \<and>
    mono_files (run_appends sha ys s) = mono_files s"
  using assms
proof (induction ys arbitrary: s es)
  case (Cons a ys)
  let ?r = "stored_entry sha sid (tip es) (snd a)"
  have a: "acceptable (snd a)" "shard_of (snd a) = Inr sid" using Cons.prems(2) by (simp_all add: request_ok_def)
  have i: "shard_inv sha sid (run_append sha a s) (es @ [?r])"
    using append_log_step [OF Cons.prems(1) a] by (simp add: run_append_def)
  obtain h where "compute_canonical_entry_hash sha (snd a) (tip es) = Inr h"
    using compute_hash_Inr [OF a(1) tip_json(2) [OF shard_invD(1) [OF Cons.prems(1)]]] by blast
  then have "eid ?r = norm (eid (snd a))" by (simp add: stored_entry_def norm_entry_def)
  moreover obtain more where "shard_inv sha sid (run_appends sha ys (run_append sha a s)) ((es @ [?r]) @ more)"
    "map eid more = map (\<lambda>a. norm (eid (snd a))) ys" "mono_files (run_appends sha ys (run_append sha a s)) = mono_files (run_append sha a s)"
    using Cons.IH [OF i] Cons.prems(2) by auto
  moreover have "mono_files (run_append sha a s) = mono_files s" by (simp add: run_append_def)
  ultimately show ?case by (intro exI [where x = "?r # more"]) simp
qed (intro exI [where x = "[]"], simp)

lemma find_some: "\<exists>e \<in> set es. P e \<Longrightarrow> \<exists>e. find P es = Some e \<and> e \<in> set es \<and> P e"
  by (induction es) auto

lemma find_later: "\<forall>e \<in> set xs. \<not> P e \<Longrightarrow> find P (xs @ ys) = find P ys"
  by (induction xs) auto

text \<open>
  C30: a receipt stays good. An agent that issues a receipt for an entry of its shard gets one
  with the hash of that entry, the tip and the length of the shard at that time; it verifies
  as intact, and whatever is appended to the shard afterwards, the check against the
  storage confirms it, as long as no later entry reuses the id and the shard stays within the
  million entries the code reads.
\<close>

theorem issued_receipt_confirmed:
  assumes hist: "\<forall>a \<in> set xs. request_ok sid a" "\<forall>a \<in> set ys. request_ok sid a"
    and e: "\<exists>e \<in> set (shard_log sid (run_appends sha xs empty_fs)). eid e = JStr i"
    and fresh: "\<forall>a \<in> set ys. norm (eid (snd a)) \<noteq> JStr i"
    and size: "int (length xs + length ys) \<le> READ_ALL"
  shows "\<exists>r e. issue_receipt sha st agent i sid task dh rh (run_appends sha xs empty_fs) = (run_appends sha xs empty_fs, Inr r) \<and>
    e \<in> set (shard_log sid (run_appends sha xs empty_fs)) \<and> eid e = JStr i \<and> tr_entry_hash r = hash e \<and>
    tr_shard_tip_hash r = hash (last (shard_log sid (run_appends sha xs empty_fs))) \<and> tr_shard_entry_count r = JInt (int (length xs)) \<and>
    rc_status (verify_receipt sha ed r) = R_INTACT \<and>
    verify_receipt_against_storage r (run_appends sha (xs @ ys) empty_fs)
      = (run_appends sha (xs @ ys) empty_fs,
         Inr \<lparr>sc_receipt_id = tr_receipt_id r, sc_status = CONFIRMED, sc_entry_found = True, sc_hash_matches = True\<rparr>)"
proof -
  let ?s = "run_appends sha xs empty_fs" and ?s' = "run_appends sha (xs @ ys) empty_fs"
  let ?es = "shard_log sid ?s"
  have inv: "shard_inv sha sid ?s ?es" "mono_files ?s = []" using history_inv [OF hist(1)] by simp_all
  have len: "length ?es = length xs" using history_length [OF hist(1)] .
  obtain more where m: "shard_inv sha sid ?s' (?es @ more)" "map eid more = map (\<lambda>a. norm (eid (snd a))) ys" "mono_files ?s' = []"
    using later_entries [OF inv(1) hist(2)] inv(2) by auto
  have mlen: "length more = length ys" using m(2) by (metis length_map)
  obtain e where f: "find (\<lambda>e. eid e = JStr i) (rev ?es) = Some e" "e \<in> set ?es" "eid e = JStr i"
    using find_some [of "rev ?es" "\<lambda>e. eid e = JStr i"] e by auto
  have "eid ` set more = (\<lambda>a. norm (eid (snd a))) ` set ys" using m(2) by (metis set_map)
  then have "JStr i \<notin> eid ` set more" using fresh by (simp only:) auto
  then have "\<forall>e \<in> set (rev more). eid e \<noteq> JStr i" by force
  from find_later [OF this, of "rev ?es"] have f': "find (\<lambda>e. eid e = JStr i) (rev (?es @ more)) = Some e" using f(1) by simp
  have "hash_ok sha e" using chained_hash_ok [OF shard_invD(1) [OF inv(1)]] f(2) by blast
  then have h: "or_empty (hash e) = hash e" using hash_ok_truthy by (simp add: or_empty_def)
  have ne: "?es \<noteq> []" using f(2) by auto
  have r1: "read sid 0 READ_ALL ?s = (?s, Inr (rev ?es))" using read_inv [OF inv, of 0 READ_ALL] len size by simp
  have "take 1 (rev ?es) = [last ?es]" using ne by (cases ?es rule: rev_cases) simp_all
  then have r2: "read sid 0 1 ?s = (?s, Inr [last ?es])" using read_inv [OF inv, of 0 1] by simp
  have r3: "read sid 0 READ_ALL ?s' = (?s', Inr (rev (?es @ more)))"
    using read_inv [OF m(1,3), of 0 READ_ALL] len mlen size by simp
  define r where "r = issued sha st agent i sid task dh rh e (hash (last ?es)) (length xs)"
  have "tr_shard_id r = JStr sid" "tr_entry_id r = JStr i" "tr_signature r = JNull"
    "tr_receipt_hash r = JStr (compute_receipt_hash sha (receipt_payload r))"
    and p: "tr_entry_hash r = hash e" "tr_shard_tip_hash r = hash (last ?es)" "tr_shard_entry_count r = JInt (int (length xs))"
    using h by (simp_all add: r_def issued_def Let_def receipt_payload_def)
  note q = this
  have "issue_receipt sha st agent i sid task dh rh ?s = (?s, Inr r)"
    using f(1) len by (simp add: issue_receipt_def sbind_def r1 r2 entry_with_id_def r_def)
  moreover have "rc_status (verify_receipt sha ed r) = R_INTACT"
    using q(3,4) by (simp add: verify_receipt_def verify_receipt_signature_def)
  moreover have "verify_receipt_against_storage r ?s' = (?s', Inr (check_against r (rev (?es @ more))))"
    using r3 by (simp add: verify_receipt_against_storage_def q(1) sbind_def)
  moreover have "check_against r (rev (?es @ more)) = \<lparr>sc_receipt_id = tr_receipt_id r, sc_status = CONFIRMED,
      sc_entry_found = True, sc_hash_matches = True\<rparr>"
    using f' h ne by (simp add: check_against_def entry_with_id_def q(2) p(1))
  ultimately show ?thesis using f(2,3) p by (intro exI [where x = r] exI [where x = e]) simp
qed

definition sample_receipt :: task_receipt where
  "sample_receipt = issued (\<lambda>m. m) (sample_time, ''r-1'') ''bot'' ''e-1'' ''alpha'' ''job'' JNull JNull
     (sample_entry ''alpha'' ''one'') (JStr ''tip'') 1"

lemma sample_receipt_ok: "receipt_wf (sample_receipt\<lparr>tr_dispatch_hash := JStr d\<rparr>)" "receipt_wf sample_receipt"
  "rc_status (verify_receipt (\<lambda>m. m) ed sample_receipt) = R_INTACT"
  by (simp_all add: sample_receipt_def issued_def Let_def receipt_wf_def receipt_to_dict_def receipt_payload_def optional_field_def
      or_empty_def verify_receipt_def verify_receipt_signature_def sample_entry_def)


theorem issued_receipt_confirmed_witness:
  "\<exists>r s' s'' c. issue_receipt (\<lambda>m. m) (sample_time, ''r-1'') ''bot'' ''e-1'' ''alpha'' ''job'' JNull JNull
       (run_appends (\<lambda>m. m) [(sample_time, sample_entry ''alpha'' ''one'')] empty_fs) = (s', Inr r) \<and>
     verify_receipt_against_storage r
       (run_appends (\<lambda>m. m) [(sample_time, sample_entry ''alpha'' ''one''),
          (sample_time, (sample_entry ''alpha'' ''two'')\<lparr>eid := JStr ''e-2''\<rparr>)] empty_fs) = (s'', Inr c) \<and> sc_status c = CONFIRMED"
proof -
  let ?x = "(sample_time, sample_entry ''alpha'' ''one'')" and ?y = "(sample_time, (sample_entry ''alpha'' ''two'')\<lparr>eid := JStr ''e-2''\<rparr>)"
  have x: "\<forall>a \<in> set [?x]. request_ok ''alpha'' a" by (simp add: sample_ok)
  have y: "\<forall>a \<in> set [?y]. request_ok ''alpha'' a"
    by (simp add: request_ok_def acceptable_def wf_entry_def sample_entry_def shard_of_def)
  obtain more where m: "shard_inv (\<lambda>m. m) ''alpha'' (run_appends (\<lambda>m. m) [?x] empty_fs) ([] @ more)"
    "map eid more = map (\<lambda>a. norm (eid (snd a))) [?x]" using later_entries [OF shard_inv_empty x] by blast
  have "map eid more = [JStr ''e-1'']" unfolding m(2) by (simp add: sample_entry_def)
  then have "JStr ''e-1'' \<in> set (map eid more)" by simp
  then have "\<exists>e \<in> set (shard_log ''alpha'' (run_appends (\<lambda>m. m) [?x] empty_fs)). eid e = JStr ''e-1''"
    using shard_log_inv [OF m(1)] by auto
  moreover have "\<forall>a \<in> set [?y]. norm (eid (snd a)) \<noteq> JStr ''e-1''" "int (length [?x] + length [?y]) \<le> READ_ALL"
    by (simp_all add: READ_ALL_def)
  ultimately obtain r where "issue_receipt (\<lambda>m. m) (sample_time, ''r-1'') ''bot'' ''e-1'' ''alpha'' ''job'' JNull JNull
       (run_appends (\<lambda>m. m) [?x] empty_fs) = (run_appends (\<lambda>m. m) [?x] empty_fs, Inr r)"
    "verify_receipt_against_storage r (run_appends (\<lambda>m. m) ([?x] @ [?y]) empty_fs) = (run_appends (\<lambda>m. m) ([?x] @ [?y]) empty_fs,
       Inr \<lparr>sc_receipt_id = tr_receipt_id r, sc_status = CONFIRMED, sc_entry_found = True, sc_hash_matches = True\<rparr>)"
    using issued_receipt_confirmed [OF x y, of "\<lambda>m. m" "''e-1''" "(sample_time, ''r-1'')" "''bot''" "''job''" JNull JNull None]
    by blast
  then show ?thesis unfolding append_Cons append_Nil
    by (intro exI conjI) (assumption | simp)+
qed

section \<open>The shard of received receipts\<close>

record delivery =
  dl_stamp :: stamp
  dl_receiver :: string
  dl_receipt :: task_receipt

definition run_delivery :: "sha \<Rightarrow> string \<Rightarrow> delivery \<Rightarrow> fs \<Rightarrow> fs" where
  "run_delivery sha sid d s = fst (store_external_receipt sha (dl_stamp d) (dl_receipt d) (dl_receiver d) sid s)"

definition delivery_ok :: "delivery \<Rightarrow> bool" where
  "delivery_ok d =
     (valid_dt (fst (dl_stamp d)) \<and> receipt_wf (dl_receipt d) \<and> all_finite (tr_receipt_id (dl_receipt d)) \<and>
      all_finite (tr_issuer_agent_id (dl_receipt d)) \<and> all_finite (tr_task_description (dl_receipt d)))"

lemma receipt_entry_ok:
  assumes "delivery_ok d" and "sid \<noteq> []"
  shows "acceptable (receipt_entry (dl_stamp d) (dl_receipt d) who sid)" and "shard_of (receipt_entry (dl_stamp d) (dl_receipt d) who sid) = Inr sid"
  using assms by (auto simp: receipt_entry_def acceptable_def wf_entry_def shard_of_def delivery_ok_def receipt_wf_def receipt_to_dict_def
      receipt_payload_def)

lemma stored_receipt:
  assumes h: "compute_canonical_entry_hash sha (receipt_entry st r who sid) p = Inr h" and wf: "receipt_wf r"
  shows "received_receipt (stored_entry sha sid p (receipt_entry st r who sid)) = Inr (Some r)"
proof -
  let ?m = "[(''event_type'', JStr ''external_receipt''), (''receipt_id'', tr_receipt_id r),
        (''issuer'', tr_issuer_agent_id r), (''task'', tr_task_description r)]"
  let ?e = "stored_entry sha sid p (receipt_entry st r who sid)"
  have c: "content ?e = JStr (receipt_to_json r)" by (rule stored_content [OF h]) (simp add: receipt_entry_def)
  have m: "metadata ?e = norm (JObj ?m)" using h by (simp add: stored_entry_def norm_entry_def receipt_entry_def)
  have "truthy (metadata ?e)" unfolding m truthy_norm by simp
  moreover have "jget ''event_type'' JNull (metadata ?e) = Inr (JStr ''external_receipt'')"
    unfolding m by (subst jget_norm) simp_all
  ultimately show ?thesis using c receipt_json_roundtrip [OF wf] by (simp add: received_receipt_def)
qed

text \<open>
  What is stored is listed. After any number of receipts were stored in the shard for
  received ones, from an empty shard and within the million entries the code reads, the list
  gives back exactly these receipts, the last one first, with all their fields.
\<close>

theorem receipts_listed:
  assumes "shard_inv sha sid s []" and "mono_files s = []" and "sid \<noteq> []" and "\<forall>d \<in> set ds. delivery_ok d"
    and "int (length ds) \<le> READ_ALL"
  shows "snd (list_received_receipts sid (fold (run_delivery sha sid) ds s)) = Inr (rev (map dl_receipt ds))"
proof -
  have "\<exists>es. shard_inv sha sid (fold (run_delivery sha sid) ds s) es \<and> mono_files (fold (run_delivery sha sid) ds s) = [] \<and>
      length es = length ds \<and> collect received_receipt (rev es) = Inr (rev (map dl_receipt ds))"
    using assms(4)
  proof (induction ds rule: rev_induct)
    case Nil
    then show ?case using assms(1,2) by (intro exI [where x = "[]"]) simp
  next
    case (snoc d ds)
    let ?s = "fold (run_delivery sha sid) ds s"
    obtain es where es: "shard_inv sha sid ?s es" "mono_files ?s = []" "length es = length ds"
      "collect received_receipt (rev es) = Inr (rev (map dl_receipt ds))" using snoc by auto
    have d: "delivery_ok d" using snoc.prems by simp
    note ok = receipt_entry_ok [OF d assms(3), of "dl_receiver d"]
    let ?e = "receipt_entry (dl_stamp d) (dl_receipt d) (dl_receiver d) sid"
    obtain h where h: "compute_canonical_entry_hash sha ?e (tip es) = Inr h"
      using compute_hash_Inr [OF ok(1) tip_json(2) [OF shard_invD(1) [OF es(1)]]] by blast
    have "receipt_wf (dl_receipt d)" using d by (simp add: delivery_ok_def)
    from stored_receipt [OF h this] es(4) have
      "collect received_receipt (rev (es @ [stored_entry sha sid (tip es) ?e])) = Inr (rev (map dl_receipt (ds @ [d])))" by simp
    moreover have "run_delivery sha sid d ?s = fst (append sha (fst (dl_stamp d)) ?e ?s)"
      by (simp add: run_delivery_def store_external_receipt_def)
    ultimately show ?case using append_log_step [OF es(1) ok, of "fst (dl_stamp d)"] es(2,3)
      by (intro exI [where x = "es @ [stored_entry sha sid (tip es) ?e]"]) simp
  qed
  then show ?thesis using read_inv [of sha sid _ _ 0 READ_ALL] assms(5)
    by (auto simp: list_received_receipts_def sbind_def of_res_def)
qed

theorem receipts_listed_witness:
  "snd (list_received_receipts ''receipts'' (fold (run_delivery (\<lambda>m. m) ''receipts'')
     [\<lparr>dl_stamp = (sample_time, ''u''), dl_receiver = ''eve'', dl_receipt = sample_receipt\<rparr>] empty_fs)) = Inr [sample_receipt]"
proof -
  have "delivery_ok \<lparr>dl_stamp = (sample_time, ''u''), dl_receiver = ''eve'', dl_receipt = sample_receipt\<rparr>"
    using sample_receipt_ok(2) by (simp add: delivery_ok_def sample_receipt_def issued_def Let_def)
  then show ?thesis
    using receipts_listed [of "\<lambda>m. m" "''receipts''" empty_fs
        "[\<lparr>dl_stamp = (sample_time, ''u''), dl_receiver = ''eve'', dl_receipt = sample_receipt\<rparr>]"] by (simp add: READ_ALL_def)
qed

end
