(* ===== verification/Attest.thy ===== *)
theory Attest
  imports Events Bytes
begin

text \<open>
  \<^verbatim>\<open>src/dsm/attestation.py\<close>, \<^verbatim>\<open>src/dsm/causal.py\<close> and \<^verbatim>\<open>src/dsm/receipts.py\<close>: digests that bind an
  output to an input, a dispatch to the work it caused, and an external response to the entry
  that logs it. Here \<open>sha\<close> works on bytes.
\<close>

section \<open>Fields\<close>

text \<open>\<^verbatim>\<open>asdict\<close> without the fields that are None; \<^verbatim>\<open>cls(**known)\<close> needs the fields without a default.\<close>

definition given_fields :: "(string \<times> json) list \<Rightarrow> (string \<times> json) list" where
  "given_fields d = filter (\<lambda>(k, v). v \<noteq> JNull) d"

definition needed :: "string \<Rightarrow> (string \<times> json) list \<Rightarrow> json res" where
  "needed k d = (case dget k d of None \<Rightarrow> Inl TypeError | Some v \<Rightarrow> Inr v)"

definition or_none :: "string \<Rightarrow> (string \<times> json) list \<Rightarrow> json" where
  "or_none k d = (case dget k d of None \<Rightarrow> JNull | Some v \<Rightarrow> v)"

section \<open>Attestations\<close>

record attestation =
  at_attestation_id :: json
  at_agent_id :: json
  at_input_hash :: json
  at_output_hash :: json
  at_model_id :: json
  at_timestamp :: json
  at_attestation_hash :: json
  at_entry_hash :: json
  at_signature :: json
  at_public_key :: json
  at_dispatch_hash :: json

definition attestation_dict :: "attestation \<Rightarrow> (string \<times> json) list" where
  "attestation_dict a =
     given_fields
       [(''attestation_id'', at_attestation_id a), (''agent_id'', at_agent_id a), (''input_hash'', at_input_hash a),
        (''output_hash'', at_output_hash a), (''model_id'', at_model_id a), (''timestamp'', at_timestamp a),
        (''attestation_hash'', at_attestation_hash a), (''entry_hash'', at_entry_hash a), (''signature'', at_signature a),
        (''public_key'', at_public_key a), (''dispatch_hash'', at_dispatch_hash a)]"

definition attestation_from_dict :: "json \<Rightarrow> attestation res" where
  "attestation_from_dict j =
     (case j of
        JObj d \<Rightarrow>
          rbind (needed ''attestation_id'' d) (\<lambda>ai.
          rbind (needed ''agent_id'' d) (\<lambda>ag.
          rbind (needed ''input_hash'' d) (\<lambda>ih.
          rbind (needed ''output_hash'' d) (\<lambda>oh.
          rbind (needed ''model_id'' d) (\<lambda>mi.
          rbind (needed ''timestamp'' d) (\<lambda>ts.
          rbind (needed ''attestation_hash'' d) (\<lambda>ah.
            Inr \<lparr>at_attestation_id = ai, at_agent_id = ag, at_input_hash = ih, at_output_hash = oh, at_model_id = mi,
                 at_timestamp = ts, at_attestation_hash = ah, at_entry_hash = or_none ''entry_hash'' d,
                 at_signature = or_none ''signature'' d, at_public_key = or_none ''public_key'' d,
                 at_dispatch_hash = or_none ''dispatch_hash'' d\<rparr>)))))))
      | _ \<Rightarrow> Inl AttributeError)"

definition attestation_payload :: "attestation \<Rightarrow> string res" where
  "attestation_payload a =
     text_sum [at_input_hash a, at_output_hash a, at_model_id a, at_agent_id a, at_timestamp a]"

text \<open>\<^verbatim>\<open>hash_content(_serialize(data))\<close>.\<close>

definition hash_content :: "sha \<Rightarrow> raw \<Rightarrow> string" where
  "hash_content sha v = sha (serialize v)"

definition create_attestation ::
    "sha \<Rightarrow> stamp \<Rightarrow> string \<Rightarrow> raw \<Rightarrow> raw \<Rightarrow> string \<Rightarrow> json \<Rightarrow> json \<Rightarrow> attestation" where
  "create_attestation sha st agent_id raw_input raw_output model_id entry_hash dispatch_hash =
     (let ih = hash_content sha raw_input; oh = hash_content sha raw_output; ts = isoformat (fst st)
      in \<lparr>at_attestation_id = JStr (''att_'' @ snd st), at_agent_id = JStr agent_id, at_input_hash = JStr ih,
          at_output_hash = JStr oh, at_model_id = JStr model_id, at_timestamp = JStr ts,
          at_attestation_hash = JStr (text_sha sha (ih @ oh @ model_id @ agent_id @ ts)),
          at_entry_hash = entry_hash, at_signature = JNull, at_public_key = JNull, at_dispatch_hash = dispatch_hash\<rparr>)"

text \<open>The signer, an \<^verbatim>\<open>AgentSigning\<close>, is given by its two methods.\<close>

definition sign_attestation :: "(json \<Rightarrow> json res) \<Rightarrow> json res \<Rightarrow> attestation \<Rightarrow> attestation res" where
  "sign_attestation sign public_key a =
     rbind (sign (at_attestation_hash a)) (\<lambda>sig.
     rbind public_key (\<lambda>pub. Inr (a\<lparr>at_signature := sig, at_public_key := pub\<rparr>)))"

datatype attestation_status = A_VALID | A_HASH_MISMATCH | A_SIGNATURE_INVALID

definition signature_holds :: "(string \<Rightarrow> string \<Rightarrow> bool) \<Rightarrow> attestation \<Rightarrow> bool" where
  "signature_holds verify a =
     (case (bytes_fromhex (at_public_key a), bytes_fromhex (at_signature a), at_attestation_hash a) of
        (Some pub, Some sig, JStr h) \<Rightarrow> length pub = 32 \<and> verify pub (sig @ utf8 h)
      | _ \<Rightarrow> False)"

definition verify_attestation :: "sha \<Rightarrow> ed25519 \<Rightarrow> attestation \<Rightarrow> (attestation_status \<times> bool option) res" where
  "verify_attestation sha ed a =
     rbind (attestation_payload a) (\<lambda>payload.
       Inr (if JStr (text_sha sha payload) \<noteq> at_attestation_hash a then (A_HASH_MISMATCH, None)
            else if truthy (at_signature a) \<and> truthy (at_public_key a) then
              (case ed of
                 None \<Rightarrow> (A_VALID, None)
               | Some verify \<Rightarrow> if signature_holds verify a then (A_VALID, Some True) else (A_SIGNATURE_INVALID, Some False))
            else (A_VALID, None)))"

datatype data_status = D_CONFIRMED | D_INPUT_MISMATCH | D_OUTPUT_MISMATCH | D_BOTH_MISMATCH

definition verify_attestation_against_data :: "sha \<Rightarrow> attestation \<Rightarrow> raw \<Rightarrow> raw \<Rightarrow> data_status" where
  "verify_attestation_against_data sha a raw_input raw_output =
     (let input_ok = JStr (hash_content sha raw_input) = at_input_hash a;
          output_ok = JStr (hash_content sha raw_output) = at_output_hash a
      in if input_ok \<and> output_ok then D_CONFIRMED
         else if \<not> input_ok \<and> \<not> output_ok then D_BOTH_MISMATCH
         else if \<not> input_ok then D_INPUT_MISMATCH else D_OUTPUT_MISMATCH)"

section \<open>Causal links\<close>

text \<open>A time that is not given is the time of the call.\<close>

definition create_dispatch_hash :: "sha \<Rightarrow> datetime \<Rightarrow> json \<Rightarrow> json \<Rightarrow> json \<Rightarrow> string res" where
  "create_dispatch_hash sha now dispatcher_entry_hash task_params time =
     rbind (text_sum [dispatcher_entry_hash, JStr (dumps_sorted compact_ascii task_params),
              if time = JNull then JStr (isoformat now) else time]) (\<lambda>payload. Inr (text_sha sha payload))"

definition create_routing_hash :: "sha \<Rightarrow> datetime \<Rightarrow> json \<Rightarrow> json \<Rightarrow> json \<Rightarrow> string res" where
  "create_routing_hash sha now dispatch_hash router_id route_timestamp =
     rbind (text_sum [dispatch_hash, router_id, if route_timestamp = JNull then JStr (isoformat now) else route_timestamp])
       (\<lambda>payload. Inr (text_sha sha payload))"

record dispatch_record =
  dr_dispatch_hash :: json
  dr_dispatcher_agent_id :: json
  dr_dispatcher_entry_hash :: json
  dr_target_agent_id :: json
  dr_task_params :: json
  dr_timestamp :: json
  dr_routing_hash :: json
  dr_router_id :: json

definition dispatch_dict :: "dispatch_record \<Rightarrow> (string \<times> json) list" where
  "dispatch_dict r =
     given_fields
       [(''dispatch_hash'', dr_dispatch_hash r), (''dispatcher_agent_id'', dr_dispatcher_agent_id r),
        (''dispatcher_entry_hash'', dr_dispatcher_entry_hash r), (''target_agent_id'', dr_target_agent_id r),
        (''task_params'', dr_task_params r), (''timestamp'', dr_timestamp r), (''routing_hash'', dr_routing_hash r),
        (''router_id'', dr_router_id r)]"

definition dispatch_from_dict :: "json \<Rightarrow> dispatch_record res" where
  "dispatch_from_dict j =
     (case j of
        JObj d \<Rightarrow>
          rbind (needed ''dispatch_hash'' d) (\<lambda>dh.
          rbind (needed ''dispatcher_agent_id'' d) (\<lambda>da.
          rbind (needed ''dispatcher_entry_hash'' d) (\<lambda>de.
          rbind (needed ''target_agent_id'' d) (\<lambda>ta.
          rbind (needed ''task_params'' d) (\<lambda>tp.
          rbind (needed ''timestamp'' d) (\<lambda>ts.
            Inr \<lparr>dr_dispatch_hash = dh, dr_dispatcher_agent_id = da, dr_dispatcher_entry_hash = de, dr_target_agent_id = ta,
                 dr_task_params = tp, dr_timestamp = ts, dr_routing_hash = or_none ''routing_hash'' d,
                 dr_router_id = or_none ''router_id'' d\<rparr>))))))
      | _ \<Rightarrow> Inl AttributeError)"

record dispatch_check =
  dc_dispatch_hash :: json
  dc_expected_hash :: string
  dc_valid :: bool

definition verify_dispatch_hash :: "sha \<Rightarrow> datetime \<Rightarrow> dispatch_record \<Rightarrow> dispatch_check res" where
  "verify_dispatch_hash sha now r =
     rbind (create_dispatch_hash sha now (dr_dispatcher_entry_hash r) (dr_task_params r) (dr_timestamp r)) (\<lambda>expected.
       Inr \<lparr>dc_dispatch_hash = dr_dispatch_hash r, dc_expected_hash = expected,
            dc_valid = (JStr expected = dr_dispatch_hash r)\<rparr>)"

text \<open>The details that make a chain broken; none of them is about the hash of the intent.\<close>

definition verify_causal_chain :: "sha \<Rightarrow> datetime \<Rightarrow> dispatch_record \<Rightarrow> json \<Rightarrow> json \<Rightarrow> string list res" where
  "verify_causal_chain sha now r intent_hash receipt_dispatch_hash =
     rbind (verify_dispatch_hash sha now r) (\<lambda>dv.
       Inr ((if dc_valid dv then [] else [''dispatch_hash integrity failed'']) @
            (if receipt_dispatch_hash = JNull then [''receipt has no dispatch_hash'']
             else if receipt_dispatch_hash \<noteq> dr_dispatch_hash r then [''receipt dispatch_hash does not match dispatch record'']
             else [])))"

section \<open>Input receipts\<close>

text \<open>Dicts are printed with spaces here, and without escapes.\<close>

definition input_bytes :: "raw \<Rightarrow> string" where
  "input_bytes v =
     (case v of RawDict d \<Rightarrow> utf8 (dumps_sorted spaced_raw (JObj d)) | RawText t \<Rightarrow> utf8 t | RawBytes b \<Rightarrow> b | RawOther t \<Rightarrow> utf8 t)"

definition hash_input :: "sha \<Rightarrow> raw \<Rightarrow> string" where
  "hash_input sha v = sha (input_bytes v)"

text \<open>\<open>decode\<close> is \<^verbatim>\<open>bytes.decode\<close> with the replacement character for what is no UTF-8.\<close>

definition make_receipt :: "sha \<Rightarrow> (string \<Rightarrow> string) \<Rightarrow> raw \<Rightarrow> int \<Rightarrow> (string \<times> json) list" where
  "make_receipt sha decode v preview_length =
     [(''input_hash'', JStr (hash_input sha v)),
      (''input_preview'', JStr (case v of
          RawBytes b \<Rightarrow> decode (py_take preview_length b)
        | RawDict d \<Rightarrow> py_take preview_length (dumps_raw spaced_raw (JObj d))
        | RawText t \<Rightarrow> py_take preview_length t
        | RawOther t \<Rightarrow> py_take preview_length t))]"

end
