(* ===== verification/Attest_Props.thy ===== *)
theory Attest_Props
  imports Attest Samples
begin

text \<open>Properties of attestations and causal links: what verifies, and what the digests bind.\<close>

section \<open>Causal links\<close>

text \<open>
  A dispatch hash binds what was dispatched. If two records verify and have the same
  dispatch hash, and the hashes of the dispatching entries have the same length (as hashes of
  one version have), they agree on that entry, on the task's parameters and on the time, unless
  SHA-256 collides on the two payloads: the JSON text in the middle delimits itself.
\<close>

theorem dispatch_binds:
  assumes v: "verify_dispatch_hash sha now r = Inr c" "dc_valid c" and v': "verify_dispatch_hash sha now r' = Inr c'" "dc_valid c'"
    and same: "dr_dispatch_hash r = dr_dispatch_hash r'"
    and len: "dr_dispatcher_entry_hash r = JStr e" "dr_dispatcher_entry_hash r' = JStr e'" "length e = length e'"
    and wf: "dr_task_params r = JObj p" "dr_task_params r' = JObj p'" "wf_json (JObj p)" "wf_json (JObj p')"
    and time: "dr_timestamp r = JStr t" "dr_timestamp r' = JStr t'"
    and inj: "inj_on sha {utf8 (e @ dumps_sorted compact_ascii (JObj p) @ t), utf8 (e' @ dumps_sorted compact_ascii (JObj p') @ t')}"
  shows "e = e' \<and> norm (JObj p) = norm (JObj p') \<and> t = t'"
proof -
  have hash: "dr_dispatch_hash x = JStr (sha (utf8 (h @ dumps_sorted compact_ascii (JObj q) @ u)))"
    if "verify_dispatch_hash sha now x = Inr k" "dc_valid k" "dr_dispatcher_entry_hash x = JStr h" "dr_task_params x = JObj q"
      "dr_timestamp x = JStr u" for x k h q u
    using that text_sum_JStr [of "[h, dumps_sorted compact_ascii (JObj q), u]"]
    by (auto simp: verify_dispatch_hash_def create_dispatch_hash_def text_sha_def)
  have "sha (utf8 (e @ dumps_sorted compact_ascii (JObj p) @ t)) = sha (utf8 (e' @ dumps_sorted compact_ascii (JObj p') @ t'))"
    using hash [OF v len(1) wf(1) time(1)] hash [OF v' len(2) wf(2) time(2)] same by simp
  then have "utf8 (e @ dumps_sorted compact_ascii (JObj p) @ t) = utf8 (e' @ dumps_sorted compact_ascii (JObj p') @ t')"
    by (rule inj_onD [OF inj _ insertI1 insertI2 [OF singletonI]])
  then have e: "e = e'" and "dumps_sorted compact_ascii (JObj p) @ t = dumps_sorted compact_ascii (JObj p') @ t'"
    unfolding utf8_inj using len(3) by simp_all
  moreover obtain q q' where q: "norm (JObj p) = JObj q" "norm (JObj p') = JObj q'" by simp
  moreover have "wf_json (JObj q)" "wf_json (JObj q')" using wf(3,4) q by (metis wf_json_norm)+
  ultimately show ?thesis using object_prefix [of q q' compact_ascii t t'] unfolding dumps_sorted_def q by simp
qed

definition sample_dispatch :: "(string \<times> json) list \<Rightarrow> dispatch_record" where
  "sample_dispatch p =
     \<lparr>dr_dispatch_hash = JStr (''v1:aa'' @ dumps_sorted compact_ascii (JObj p) @ ''2026''), dr_dispatcher_agent_id = JStr ''ann'',
      dr_dispatcher_entry_hash = JStr ''v1:aa'', dr_target_agent_id = JStr ''bot'', dr_task_params = JObj p,
      dr_timestamp = JStr ''2026'', dr_routing_hash = JNull, dr_router_id = JNull\<rparr>"

lemma utf8_id: "\<forall>c \<in> set s. (of_char c :: nat) < 128 \<Longrightarrow> utf8 s = s"
  by (induction s) (auto simp: utf8_def utf8_char_def Let_def)

theorem dispatch_binds_witness:
  "norm (JObj [(''a'', JInt 1), (''b'', JInt 2)]) = norm (JObj [(''b'', JInt 2), (''a'', JInt 1)])"
proof -
  let ?p = "[(''a'', JInt 1), (''b'', JInt 2)]" and ?p' = "[(''b'', JInt 2), (''a'', JInt 1)]"
  let ?r = "sample_dispatch ?p" and ?r' = "sample_dispatch ?p'"
  have same: "dumps_sorted compact_ascii (JObj ?p) = dumps_sorted compact_ascii (JObj ?p')" by (simp add: dumps_sorted_def)
  have "\<forall>c \<in> set (''v1:aa'' @ dumps_sorted compact_ascii (JObj ?p) @ ''2026''). (of_char c :: nat) < 128"
    by (simp add: dumps_sorted_def quote_def esc_char_def DQ_def BS_def isep_def ksep_def compact_ascii_def show_int_def show_nat.simps digit_char_def)
  from utf8_id [OF this] have u: "utf8 (''v1:aa'' @ dumps_sorted compact_ascii (JObj ?p) @ ''2026'')
    = ''v1:aa'' @ dumps_sorted compact_ascii (JObj ?p) @ ''2026''" .
  have c: "\<exists>c. verify_dispatch_hash (\<lambda>m. m) sample_time x = Inr c \<and> dc_valid c" if "x = ?r \<or> x = ?r'" for x
    using that u same text_sum_JStr [of "[''v1:aa'', dumps_sorted compact_ascii (JObj ?p), ''2026'']"]
    by (auto simp: verify_dispatch_hash_def create_dispatch_hash_def sample_dispatch_def text_sha_def
        simp del: utf8_append append_assoc)
  obtain c1 c2 where "verify_dispatch_hash (\<lambda>m. m) sample_time ?r = Inr c1" "dc_valid c1"
    "verify_dispatch_hash (\<lambda>m. m) sample_time ?r' = Inr c2" "dc_valid c2" using c by blast
  note v = this
  show ?thesis
    using dispatch_binds [OF v, of "''v1:aa''" "''v1:aa''" ?p ?p' "''2026''" "''2026''"] same
    by (simp add: sample_dispatch_def)
qed

section \<open>Attestations\<close>

lemma payload_of: "attestation_payload \<lparr>at_attestation_id = x, at_agent_id = JStr ag, at_input_hash = JStr ih, at_output_hash = JStr oh,
    at_model_id = JStr mi, at_timestamp = JStr ts, at_attestation_hash = ah, at_entry_hash = eh, at_signature = sg,
    at_public_key = pk, at_dispatch_hash = dh\<rparr> = Inr (ih @ oh @ mi @ ag @ ts)"
  using text_sum_JStr [of "[ih, oh, mi, ag, ts]"] by (simp add: attestation_payload_def)

text \<open>
  C32: what an attestation shows a third party. An attestation as created verifies; checked
  against raw data it is confirmed for exactly the data whose bytes are those attested, and
  otherwise the answer names the side that differs, unless SHA-256 collides on the data.
\<close>

theorem attestation_names_difference:
  assumes "inj_on sha {serialize i, serialize o', serialize i', serialize o''}"
  shows "verify_attestation sha ed (create_attestation sha st agent i o' model eh dh) = Inr (A_VALID, None) \<and>
    verify_attestation_against_data sha (create_attestation sha st agent i o' model eh dh) i' o'' =
      (if serialize i' = serialize i then (if serialize o'' = serialize o' then D_CONFIRMED else D_OUTPUT_MISMATCH)
       else if serialize o'' = serialize o' then D_INPUT_MISMATCH else D_BOTH_MISMATCH)"
proof
  show "verify_attestation sha ed (create_attestation sha st agent i o' model eh dh) = Inr (A_VALID, None)"
    by (simp add: verify_attestation_def create_attestation_def Let_def payload_of)
  have "hash_content sha i' = hash_content sha i \<longleftrightarrow> serialize i' = serialize i"
    "hash_content sha o'' = hash_content sha o' \<longleftrightarrow> serialize o'' = serialize o'"
    unfolding hash_content_def by (rule inj_on_eq_iff [OF assms], blast, blast)+
  then show "verify_attestation_against_data sha (create_attestation sha st agent i o' model eh dh) i' o'' =
      (if serialize i' = serialize i then (if serialize o'' = serialize o' then D_CONFIRMED else D_OUTPUT_MISMATCH)
       else if serialize o'' = serialize o' then D_INPUT_MISMATCH else D_BOTH_MISMATCH)"
    by (simp add: verify_attestation_against_data_def create_attestation_def Let_def)
qed

theorem attestation_names_difference_witness:
  "verify_attestation_against_data (\<lambda>m. m)
     (create_attestation (\<lambda>m. m) (sample_time, ''1'') ''bot'' (RawText ''q'') (RawDict [(''a'', JInt 1)]) ''m'' JNull JNull)
     (RawBytes ''q'') (RawText ''no'') = D_OUTPUT_MISMATCH"
proof -
  have q: "serialize (RawBytes ''q'') = serialize (RawText ''q'')"
    and d: "serialize (RawText ''no'') \<noteq> serialize (RawDict [(''a'', JInt 1)])"
    by (simp_all add: serialize_def utf8_def utf8_char_def Let_def dumps_sorted_def)
  have "inj_on (\<lambda>m. m) A" for A :: "string set" by (simp add: inj_on_def)
  from conjunct2 [OF attestation_names_difference [OF this, where i = "RawText ''q''" and o' = "RawDict [(''a'', JInt 1)]"
        and i' = "RawBytes ''q''" and o'' = "RawText ''no''"]]
  show ?thesis unfolding if_P [OF q] if_not_P [OF d] .
qed

text \<open>The digest runs the texts together: the end of the model's name may as well begin the agent's.\<close>

lemma attestation_boundary:
  "verify_attestation sha ed (a\<lparr>at_model_id := JStr m, at_agent_id := JStr (t @ g)\<rparr>)
   = verify_attestation sha ed (a\<lparr>at_model_id := JStr (m @ t), at_agent_id := JStr g\<rparr>)"
proof -
  let ?x = "a\<lparr>at_model_id := JStr m, at_agent_id := JStr (t @ g)\<rparr>" and ?y = "a\<lparr>at_model_id := JStr (m @ t), at_agent_id := JStr g\<rparr>"
  have "text_sum [u, v, JStr m, JStr (t @ g), w] = text_sum [u, v, JStr (m @ t), JStr g, w]" for u v w
    by (cases u; cases v; cases w) (simp_all add: text_sum_def is_text_def)
  then have p: "attestation_payload ?x = attestation_payload ?y" by (simp add: attestation_payload_def)
  have f: "at_attestation_hash ?x = at_attestation_hash a" "at_attestation_hash ?y = at_attestation_hash a"
    "at_signature ?x = at_signature a" "at_signature ?y = at_signature a"
    "at_public_key ?x = at_public_key a" "at_public_key ?y = at_public_key a" by simp_all
  show ?thesis unfolding verify_attestation_def signature_holds_def f p ..
qed

text \<open>The hash of the intent plays no part in the verdict on a chain.\<close>

lemma intent_not_checked: "verify_causal_chain sha now r i d = verify_causal_chain sha now r i' d"
  by (simp add: verify_causal_chain_def)

end
