(* ===== verification/Artifacts.thy ===== *)
theory Artifacts
  imports Events Bytes
begin

text \<open>
  \<^verbatim>\<open>src/dsm/artifacts.py\<close>: a content-addressable store, one compressed file and one metadata
  file per digest, in directories named by the first two digits. A compressed file is kept as
  the bytes it decompresses to, or None where gzip rejects it; \<open>gz\<close> is the length of the
  compressed form. Digests are one path component; the directories exist.
\<close>

section \<open>The store\<close>

record artifact_store =
  as_bins :: "(string \<times> string option) list"
  as_metas :: "(string \<times> string) list"

definition new_store :: artifact_store where
  "new_store = \<lparr>as_bins = [], as_metas = []\<rparr>"

text \<open>\<^verbatim>\<open>Path.with_suffix\<close> takes off what follows the last dot, unless that is the first or last character.\<close>

definition path_stem :: "string \<Rightarrow> string" where
  "path_stem name =
     (let i = length name - length (takeWhile (\<lambda>c. c \<noteq> CHR ''.'') (rev name)) - 1
      in if CHR ''.'' \<in> set name \<and> 0 < i \<and> i < length name - 1 then take i name else name)"

definition path_for :: "string \<Rightarrow> string" where
  "path_for h = take 2 h @ ''/'' @ path_stem h"

definition bin_of :: "string \<Rightarrow> artifact_store \<Rightarrow> string option option" where
  "bin_of h s = dget (path_for h @ ''.bin.gz'') (as_bins s)"

definition meta_of :: "string \<Rightarrow> artifact_store \<Rightarrow> string option" where
  "meta_of h s = dget (path_for h @ ''.meta.json'') (as_metas s)"

definition put_meta :: "string \<Rightarrow> (string \<times> json) list \<Rightarrow> artifact_store \<Rightarrow> artifact_store" where
  "put_meta h meta s = s\<lparr>as_metas := dput (path_for h @ ''.meta.json'') (dumps_raw spaced_raw (JObj meta)) (as_metas s)\<rparr>"

definition read_json :: "string \<Rightarrow> json res" where
  "read_json t = (case loads t of None \<Rightarrow> Inl (ValueError ''JSONDecodeError'') | Some v \<Rightarrow> Inr v)"

section \<open>Storing\<close>

definition artifact_answer :: "string \<Rightarrow> json \<Rightarrow> json \<Rightarrow> json \<Rightarrow> json \<Rightarrow> json \<Rightarrow> (string \<times> json) list" where
  "artifact_answer h sz csize src ty stored_at =
     [(''artifact_hash'', JStr h), (''size_bytes'', sz), (''compressed_bytes'', csize), (''source'', src),
      (''artifact_type'', ty), (''stored_at'', stored_at), (''path'', JStr (take 2 h @ ''/'' @ h @ ''.bin.gz''))]"

definition artifact_meta :: "(string \<Rightarrow> nat) \<Rightarrow> string \<Rightarrow> string \<Rightarrow> string \<Rightarrow> string \<Rightarrow> string \<Rightarrow> json \<Rightarrow> (string \<times> json) list" where
  "artifact_meta gz h raw_bytes src ty stored_at extra =
     [(''artifact_hash'', JStr h), (''size_bytes'', JInt (int (length raw_bytes))),
      (''compressed_bytes'', JInt (int (gz raw_bytes))), (''source'', JStr src), (''artifact_type'', JStr ty),
      (''stored_at'', JStr stored_at), (''linked_entries'', JList [])] @
     (if truthy extra then [(''extra'', extra)] else [])"

definition store_artifact ::
    "sha \<Rightarrow> (string \<Rightarrow> nat) \<Rightarrow> datetime \<Rightarrow> raw \<Rightarrow> string \<Rightarrow> string \<Rightarrow> json \<Rightarrow> (artifact_store, (string \<times> json) list) op" where
  "store_artifact sha gz now raw_data src ty extra s =
     (let raw_bytes = serialize raw_data; h = sha raw_bytes in
      case (bin_of h s, meta_of h s) of
        (Some _, Some t) \<Rightarrow>
          (s, rbind (read_json t) (\<lambda>meta.
              rbind (jget ''size_bytes'' (JInt (int (length raw_bytes))) meta) (\<lambda>sz.
              rbind (jget ''compressed_bytes'' (JInt 0) meta) (\<lambda>csize.
              rbind (jget ''source'' (JStr src) meta) (\<lambda>source'.
              rbind (jget ''artifact_type'' (JStr ty) meta) (\<lambda>ty'.
              rbind (jget ''stored_at'' (JStr []) meta) (\<lambda>stored_at.
                Inr (artifact_answer h sz csize source' ty' stored_at))))))))
      | _ \<Rightarrow>
          (let s1 = s\<lparr>as_bins := dput (path_for h @ ''.bin.gz'') (Some raw_bytes) (as_bins s)\<rparr>
           in (put_meta h (artifact_meta gz h raw_bytes src ty (isoformat now) extra) s1,
               Inr (artifact_answer h (JInt (int (length raw_bytes))) (JInt (int (gz raw_bytes))) (JStr src) (JStr ty)
                      (JStr (isoformat now))))))"

section \<open>Reading\<close>

definition retrieve :: "string \<Rightarrow> artifact_store \<Rightarrow> string option" where
  "retrieve h s = (case bin_of h s of None \<Rightarrow> None | Some b \<Rightarrow> b)"

definition get_metadata :: "string \<Rightarrow> artifact_store \<Rightarrow> json option" where
  "get_metadata h s = (case meta_of h s of None \<Rightarrow> None | Some t \<Rightarrow> loads t)"

definition artifact_exists :: "string \<Rightarrow> artifact_store \<Rightarrow> bool" where
  "artifact_exists h s = (bin_of h s \<noteq> None)"

datatype artifact_status = AF_MISSING | AF_CORRUPTED | AF_INTACT

definition verify_artifact :: "sha \<Rightarrow> string \<Rightarrow> artifact_store \<Rightarrow> artifact_status \<times> nat option" where
  "verify_artifact sha h s =
     (case bin_of h s of
        None \<Rightarrow> (AF_MISSING, None)
      | Some None \<Rightarrow> (AF_CORRUPTED, None)
      | Some (Some b) \<Rightarrow> if sha b \<noteq> h then (AF_CORRUPTED, None) else (AF_INTACT, Some (length b)))"

section \<open>Links to entries\<close>

text \<open>\<^verbatim>\<open>linked.append\<close> needs a list; \<^verbatim>\<open>in\<close> works on lists, texts and dicts.\<close>

definition link_entry :: "string \<Rightarrow> json \<Rightarrow> (json list option \<times> nat) res" where
  "link_entry entry_id links =
     (case links of
        JList xs \<Rightarrow> if JStr entry_id \<in> set xs then Inr (None, length xs) else Inr (Some (xs @ [JStr entry_id]), Suc (length xs))
      | JStr t \<Rightarrow> if occurs_in entry_id t then Inr (None, length t) else Inl AttributeError
      | JObj d \<Rightarrow> if entry_id \<in> fst ` set d then Inr (None, length d) else Inl AttributeError
      | _ \<Rightarrow> Inl TypeError)"

definition link_to_entry :: "string \<Rightarrow> string \<Rightarrow> (artifact_store, nat) op" where
  "link_to_entry h entry_id s =
     (case meta_of h s of
        None \<Rightarrow> (s, Inr 0)
      | Some t \<Rightarrow>
          (case rbind (read_json t) (\<lambda>meta. rbind (jget ''linked_entries'' (JList []) meta) (\<lambda>links.
                  rbind (link_entry entry_id links) (\<lambda>r. Inr (meta, r)))) of
             Inl err \<Rightarrow> (s, Inl err)
           | Inr (JObj meta, Some xs, n) \<Rightarrow> (put_meta h (dput ''linked_entries'' (JList xs) meta) s, Inr n)
           | Inr (_, _, n) \<Rightarrow> (s, Inr n)))"

end
