(* ===== verification/Artifacts_Props.thy ===== *)
theory Artifacts_Props
  imports Artifacts Samples
begin

text \<open>The store of artifacts as a map from digests to bytes.\<close>

section \<open>Paths\<close>

lemma path_stem_plain: "CHR ''.'' \<notin> set h \<Longrightarrow> path_stem h = h"
  by (simp add: path_stem_def)

lemma path_inj: "CHR ''.'' \<notin> set h \<Longrightarrow> CHR ''.'' \<notin> set h' \<Longrightarrow> length h = length h' \<Longrightarrow> path_for h = path_for h' \<longleftrightarrow> h = h'"
  by (auto simp: path_for_def path_stem_plain)

section \<open>Histories\<close>

datatype artifact_request =
    Store_Artifact datetime raw string string json
  | Link_Artifact string string

fun run_artifact :: "sha \<Rightarrow> (string \<Rightarrow> nat) \<Rightarrow> artifact_request \<Rightarrow> artifact_store \<Rightarrow> artifact_store" where
  "run_artifact sha gz (Store_Artifact now v src ty extra) s = fst (store_artifact sha gz now v src ty extra s)"
| "run_artifact sha gz (Link_Artifact h e) s = fst (link_to_entry h e s)"

fun stored_data :: "artifact_request \<Rightarrow> raw list" where
  "stored_data (Store_Artifact now v src ty extra) = [v]"
| "stored_data (Link_Artifact h e) = []"

text \<open>What digests promise: a fixed number of characters, none of them a dot.\<close>

definition digest_like :: "nat \<Rightarrow> sha \<Rightarrow> bool" where
  "digest_like n sha = (\<forall>m. length (sha m) = n \<and> CHR ''.'' \<notin> set (sha m))"

definition holds_bytes :: "string list \<Rightarrow> sha \<Rightarrow> artifact_store \<Rightarrow> bool" where
  "holds_bytes bs sha s =
     (\<forall>p b. dget p (as_bins s) = Some b \<longleftrightarrow> (\<exists>x \<in> set bs. p = path_for (sha x) @ ''.bin.gz'' \<and> b = Some x))"

lemma link_bins [simp]: "as_bins (fst (link_to_entry h e s)) = as_bins s"
proof (cases "meta_of h s")
  case (Some t)
  then show ?thesis
    by (simp add: link_to_entry_def put_meta_def split: sum.split prod.split json.split option.split)
qed (simp add: link_to_entry_def)

lemma store_bins:
  assumes d: "digest_like n sha" and inj: "inj_on sha (set (serialize v # bs))" and h: "holds_bytes bs sha s"
  shows "holds_bytes (serialize v # bs) sha (fst (store_artifact sha gz now v src ty extra s))"
proof -
  let ?b = "serialize v" and ?s = "fst (store_artifact sha gz now v src ty extra s)"
  have path: "path_for (sha x) = path_for (sha y) \<longleftrightarrow> x = y" if "x \<in> set (?b # bs)" "y \<in> set (?b # bs)" for x y
    using d inj_on_eq_iff [OF inj that] path_inj [of "sha x" "sha y"] by (simp add: digest_like_def)
  consider "as_bins ?s = as_bins s" "bin_of (sha ?b) s \<noteq> None"
    | "as_bins ?s = dput (path_for (sha ?b) @ ''.bin.gz'') (Some ?b) (as_bins s)"
    by (cases "bin_of (sha ?b) s"; cases "meta_of (sha ?b) s") (simp_all add: store_artifact_def put_meta_def Let_def)
  then show ?thesis
  proof cases
    case 1
    then obtain b where "dget (path_for (sha ?b) @ ''.bin.gz'') (as_bins s) = Some b" by (auto simp: bin_of_def)
    then obtain x where "x \<in> set bs" "path_for (sha ?b) = path_for (sha x)" using h unfolding holds_bytes_def by auto
    then have "?b \<in> set bs" using path [of ?b x] by simp
    then have "set (?b # bs) = set bs" by auto
    then show ?thesis using h 1(1) unfolding holds_bytes_def by presburger
  next
    case 2
    show ?thesis
      unfolding holds_bytes_def
    proof (intro allI)
      fix p b
      show "dget p (as_bins ?s) = Some b \<longleftrightarrow> (\<exists>x \<in> set (?b # bs). p = path_for (sha x) @ ''.bin.gz'' \<and> b = Some x)"
      proof (cases "p = path_for (sha ?b) @ ''.bin.gz''")
        case True
        then show ?thesis using path [of ?b] unfolding 2 by auto
      next
        case False
        then show ?thesis using h unfolding 2 holds_bytes_def by auto
      qed
    qed
  qed
qed

lemma run_artifacts_bins:
  assumes "digest_like n sha" and "inj_on sha (serialize ` set (concat (map stored_data rs)) \<union> set bs)" and "holds_bytes bs sha s"
  shows "\<exists>bs'. set bs' = serialize ` set (concat (map stored_data rs)) \<union> set bs \<and> holds_bytes bs' sha (fold (run_artifact sha gz) rs s)"
  using assms(2,3)
proof (induction rs arbitrary: s bs)
  case (Cons r rs)
  show ?case
  proof (cases r)
    case (Store_Artifact now v src ty extra)
    let ?s = "fst (store_artifact sha gz now v src ty extra s)"
    have "inj_on sha (set (serialize v # bs))" by (rule inj_on_subset [OF Cons.prems(1)]) (auto simp: Store_Artifact)
    from store_bins [OF assms(1) this Cons.prems(2)] have "holds_bytes (serialize v # bs) sha ?s" .
    moreover have "inj_on sha (serialize ` set (concat (map stored_data rs)) \<union> set (serialize v # bs))"
      by (rule inj_on_subset [OF Cons.prems(1)]) (auto simp: Store_Artifact)
    ultimately obtain bs' where "set bs' = serialize ` set (concat (map stored_data rs)) \<union> set (serialize v # bs)"
      "holds_bytes bs' sha (fold (run_artifact sha gz) rs ?s)" using Cons.IH by blast
    then show ?thesis by (intro exI [where x = bs']) (auto simp: Store_Artifact)
  next
    case (Link_Artifact h e)
    have "holds_bytes bs sha (fst (link_to_entry h e s))" using Cons.prems(2) by (simp add: holds_bytes_def)
    with Cons.IH Cons.prems(1) show ?thesis by (simp add: Link_Artifact)
  qed
qed auto

text \<open>
  C33: the store is content-addressed. After any sequence of stores and links from an empty
  store, asking for the digest of any data gives back its bytes exactly if that data was
  stored, and nothing otherwise; the check of that artifact says intact or missing
  accordingly; storing the same data again, links and metadata change nothing of it. Digests
  have a fixed length and no dot, and SHA-256 does not collide on the data at hand.
\<close>

theorem artifacts_content_addressed:
  assumes "digest_like n sha" and "inj_on sha (insert (serialize v) (serialize ` set (concat (map stored_data rs))))"
  shows "retrieve (sha (serialize v)) (fold (run_artifact sha gz) rs new_store) =
      (if serialize v \<in> serialize ` set (concat (map stored_data rs)) then Some (serialize v) else None) \<and>
    verify_artifact sha (sha (serialize v)) (fold (run_artifact sha gz) rs new_store) =
      (if serialize v \<in> serialize ` set (concat (map stored_data rs)) then (AF_INTACT, Some (length (serialize v)))
       else (AF_MISSING, None))"
proof -
  let ?s = "fold (run_artifact sha gz) rs new_store" and ?h = "sha (serialize v)"
  have "inj_on sha (serialize ` set (concat (map stored_data rs)) \<union> set [])" by (rule inj_on_subset [OF assms(2)]) auto
  moreover have "holds_bytes [] sha new_store" by (simp add: holds_bytes_def new_store_def)
  ultimately obtain bs where bs: "set bs = serialize ` set (concat (map stored_data rs)) \<union> set []" "holds_bytes bs sha ?s"
    using run_artifacts_bins [OF assms(1)] by blast
  then have bs': "set bs = serialize ` set (concat (map stored_data rs))" by simp
  have path: "path_for ?h = path_for (sha x) \<longleftrightarrow> x = serialize v" if "x \<in> set bs" for x
    using assms(1) inj_on_eq_iff [OF assms(2), of "serialize v" x] path_inj [of ?h "sha x"] that bs' by (auto simp: digest_like_def)
  have b: "bin_of ?h ?s = (if serialize v \<in> set bs then Some (Some (serialize v)) else None)"
  proof (cases "serialize v \<in> set bs")
    case True
    then show ?thesis using bs(2) unfolding holds_bytes_def bin_of_def by auto
  next
    case False
    have "bin_of ?h ?s \<noteq> Some x" for x
      using bs(2) path False unfolding holds_bytes_def bin_of_def by auto
    then show ?thesis using False by (cases "bin_of ?h ?s") auto
  qed
  then show ?thesis unfolding bs' by (simp add: retrieve_def verify_artifact_def)
qed

definition two_digests :: sha where
  "two_digests m = (if m = ''a'' then ''aa'' else ''bb'')"

theorem artifacts_content_addressed_witness:
  "retrieve ''aa'' (fold (run_artifact two_digests length) [Store_Artifact sample_time (RawText ''a'') ''api'' ''response'' JNull,
     Link_Artifact ''aa'' ''e-1''] new_store) = Some ''a'' \<and>
   retrieve ''bb'' (fold (run_artifact two_digests length) [Store_Artifact sample_time (RawText ''a'') ''api'' ''response'' JNull,
     Link_Artifact ''aa'' ''e-1''] new_store) = None"
proof -
  let ?rs = "[Store_Artifact sample_time (RawText ''a'') ''api'' ''response'' JNull, Link_Artifact ''aa'' ''e-1'']"
  have d: "digest_like 2 two_digests" by (simp add: digest_like_def two_digests_def)
  have s: "serialize (RawText ''a'') = ''a''" "serialize (RawText ''b'') = ''b''" by (simp_all add: serialize_def utf8_def utf8_char_def)
  have "inj_on two_digests (insert (serialize (RawText x)) (serialize ` set (concat (map stored_data ?rs))))"
    if "x = ''a'' \<or> x = ''b''" for x using that s by (auto simp: inj_on_def two_digests_def)
  note c = conjunct1 [OF artifacts_content_addressed [OF d this]]
  have m: "serialize ` set (concat (map stored_data ?rs)) = {''a''}" by (simp add: s)
  have "''b'' \<notin> {''a''}" "two_digests ''a'' = ''aa''" "two_digests ''b'' = ''bb''" by (simp_all add: two_digests_def)
  with c [of "''a''" length] c [of "''b''" length] show ?thesis
    unfolding m s by (simp del: run_artifact.simps fold_simps fold.simps)
qed

end
