(* ===== verification/Reports.thy ===== *)
theory Reports
  imports Sovereignty Artifacts
begin

text \<open>
  \<^verbatim>\<open>src/dsm/audit.py\<close> and \<^verbatim>\<open>src/dsm/coverage.py\<close>: reports over the log. An audit checks the entries
  of a shard against a policy; a coverage check looks for entries an agent's index lacks.
  The fields of a policy are what its JSON file holds; \<open>py_str\<close> is \<^verbatim>\<open>str\<close> of a value that is no text.
\<close>

section \<open>Policy audit\<close>

record violation =
  vi_entry_id :: json
  vi_timestamp :: string
  vi_rule :: string
  vi_detail :: string
  vi_action_name :: json
  vi_session_id :: json

definition violation_dict :: "violation \<Rightarrow> (string \<times> json) list" where
  "violation_dict v =
     [(''entry_id'', vi_entry_id v), (''timestamp'', JStr (vi_timestamp v)), (''rule'', JStr (vi_rule v)),
      (''detail'', JStr (vi_detail v)), (''action_name'', vi_action_name v), (''session_id'', vi_session_id v)]"

record audit_policy =
  ap_allowed_actions :: json
  ap_forbidden_actions :: json
  ap_allowed_sources :: json
  ap_max_actions_per_session :: json
  ap_allowed_shards :: json

definition new_policy :: "json \<Rightarrow> json \<Rightarrow> json \<Rightarrow> json \<Rightarrow> json \<Rightarrow> audit_policy" where
  "new_policy allowed forbidden sources max_actions shards =
     \<lparr>ap_allowed_actions = allowed, ap_forbidden_actions = (if truthy forbidden then forbidden else JList []),
      ap_allowed_sources = sources, ap_max_actions_per_session = max_actions, ap_allowed_shards = shards\<rparr>"

text \<open>\<^verbatim>\<open>Policy.from_file\<close> on the text of the file, and \<^verbatim>\<open>to_dict\<close>.\<close>

definition policy_from_text :: "string \<Rightarrow> audit_policy res" where
  "policy_from_text t =
     rbind (read_json t) (\<lambda>data.
     rbind (jget ''allowed_actions'' JNull data) (\<lambda>a.
     rbind (jget ''forbidden_actions'' (JList []) data) (\<lambda>f.
     rbind (jget ''allowed_sources'' JNull data) (\<lambda>so.
     rbind (jget ''max_actions_per_session'' JNull data) (\<lambda>m.
     rbind (jget ''allowed_shards'' JNull data) (\<lambda>sh. Inr (new_policy a f so m sh)))))))"

definition policy_dict :: "audit_policy \<Rightarrow> (string \<times> json) list" where
  "policy_dict p =
     [(''allowed_actions'', ap_allowed_actions p), (''forbidden_actions'', ap_forbidden_actions p),
      (''allowed_sources'', ap_allowed_sources p), (''max_actions_per_session'', ap_max_actions_per_session p),
      (''allowed_shards'', ap_allowed_shards p)]"

record audit_state =
  au_violations :: "violation list"
  au_checked :: nat
  au_counts :: "(json \<times> int) list"
  au_sessions :: "json list"

definition flag :: "violation option \<Rightarrow> audit_state \<Rightarrow> audit_state" where
  "flag v st = (case v of None \<Rightarrow> st | Some x \<Rightarrow> st\<lparr>au_violations := au_violations st @ [x]\<rparr>)"

text \<open>A whitelist that is not there allows everything.\<close>

definition unless_in :: "json \<Rightarrow> json \<Rightarrow> violation \<Rightarrow> violation option res" where
  "unless_in x allowed v = (if allowed = JNull then Inr None else rbind (py_in x allowed) (\<lambda>b. Inr (if b then None else Some v)))"

definition not_listed :: "(json \<Rightarrow> string) \<Rightarrow> string \<Rightarrow> json \<Rightarrow> json \<Rightarrow> string" where
  "not_listed py_str what x allowed = what @ '' '' @ [CHR 0x27] @ fmt_value py_str x @ [CHR 0x27] @ '' not in allowed list: '' @ fmt_value py_str allowed"

definition violation_at :: "entry \<Rightarrow> string \<Rightarrow> string \<Rightarrow> json \<Rightarrow> violation" where
  "violation_at e rule detail action =
     \<lparr>vi_entry_id = eid e, vi_timestamp = isoformat (timestamp e), vi_rule = rule, vi_detail = detail,
      vi_action_name = action, vi_session_id = session_id e\<rparr>"

definition check_shard :: "(json \<Rightarrow> string) \<Rightarrow> audit_policy \<Rightarrow> entry \<Rightarrow> violation option res" where
  "check_shard py_str p e =
     unless_in (shard e) (ap_allowed_shards p)
       (violation_at e ''allowed_shards'' (not_listed py_str ''Shard'' (shard e) (ap_allowed_shards p)) JNull)"

definition check_source :: "(json \<Rightarrow> string) \<Rightarrow> audit_policy \<Rightarrow> entry \<Rightarrow> json \<Rightarrow> violation option res" where
  "check_source py_str p e event_type =
     (if event_type = JStr ''session_start'' then
        rbind (jget ''source'' JNull (metadata e)) (\<lambda>s.
          let src = (if truthy s then s else source e)
          in unless_in src (ap_allowed_sources p)
               (violation_at e ''allowed_sources'' (not_listed py_str ''Source'' src (ap_allowed_sources p)) JNull))
      else Inr None)"

definition is_intent :: "json \<Rightarrow> json \<Rightarrow> bool" where
  "is_intent event_type action_name = (event_type = JStr ''action_intent'' \<and> truthy action_name)"

definition check_action :: "(json \<Rightarrow> string) \<Rightarrow> audit_policy \<Rightarrow> entry \<Rightarrow> json \<Rightarrow> violation option res" where
  "check_action py_str p e action_name =
     rbind (py_in action_name (ap_forbidden_actions p)) (\<lambda>forbidden.
       if forbidden then
         Inr (Some (violation_at e ''forbidden_actions''
           (''Action '' @ [CHR 0x27] @ fmt_value py_str action_name @ [CHR 0x27] @ '' is explicitly forbidden'') action_name))
       else
         unless_in action_name (ap_allowed_actions p)
           (violation_at e ''allowed_actions'' (not_listed py_str ''Action'' action_name (ap_allowed_actions p)) action_name))"

definition count_action :: "entry \<Rightarrow> audit_state \<Rightarrow> audit_state" where
  "count_action e st =
     st\<lparr>au_checked := Suc (au_checked st),
        au_counts := dput (session_id e) ((case map_of (au_counts st) (session_id e) of None \<Rightarrow> 0 | Some n \<Rightarrow> n) + 1) (au_counts st)\<rparr>"

definition audit_entry :: "(json \<Rightarrow> string) \<Rightarrow> audit_policy \<Rightarrow> entry \<Rightarrow> audit_state \<Rightarrow> audit_state res" where
  "audit_entry py_str p e st =
     rbind (jget ''event_type'' (JStr []) (metadata e)) (\<lambda>event_type.
     rbind (jget ''action_name'' (JStr []) (metadata e)) (\<lambda>action_name.
     rbind (hashable (session_id e)) (\<lambda>_.
     rbind (check_shard py_str p e) (\<lambda>v1.
     rbind (check_source py_str p e event_type) (\<lambda>v2.
       let st2 = flag v2 (flag v1 (st\<lparr>au_sessions := List.insert (session_id e) (au_sessions st)\<rparr>)) in
       if is_intent event_type action_name
       then rbind (check_action py_str p e action_name) (\<lambda>v3. Inr (flag v3 (count_action e st2)))
       else Inr st2)))))"

definition session_violation :: "(json \<Rightarrow> string) \<Rightarrow> json \<Rightarrow> string \<Rightarrow> int \<Rightarrow> violation" where
  "session_violation py_str limit sid n =
     \<lparr>vi_entry_id = JStr ''session_aggregate'', vi_timestamp = [], vi_rule = ''max_actions_per_session'',
      vi_detail = ''Session '' @ [CHR 0x27] @ take 12 sid @ ''...'' @ [CHR 0x27] @ '' had '' @ show_int n @
        '' actions, max allowed is '' @ fmt_value py_str limit,
      vi_action_name = JNull, vi_session_id = JStr sid\<rparr>"

text \<open>The limit per session: it has to be a number, and the detail needs the text of the session's id.\<close>

definition check_count :: "(json \<Rightarrow> string) \<Rightarrow> json \<Rightarrow> json \<times> int \<Rightarrow> violation option res" where
  "check_count py_str limit c =
     (case num_val limit of
        None \<Rightarrow> Inl TypeError
      | Some m \<Rightarrow>
          if flt_less m (Fin (snd c * ONE)) then
            (case fst c of
               JStr sid \<Rightarrow> Inr (Some (session_violation py_str limit sid (snd c)))
             | _ \<Rightarrow> Inl TypeError)
          else Inr None)"

record audit_report =
  ar_shard_id :: string
  ar_total_entries :: nat
  ar_actions_checked :: nat
  ar_violations :: "violation list"
  ar_violation_count :: nat
  ar_sessions_checked :: nat
  ar_compliant :: bool

definition AUDIT_LIMIT :: int where "AUDIT_LIMIT = 100000"

definition audit_entries :: "(json \<Rightarrow> string) \<Rightarrow> string \<Rightarrow> audit_policy \<Rightarrow> entry list \<Rightarrow> audit_report res" where
  "audit_entries py_str sid p entries =
     rbind (fold_res (audit_entry py_str p) entries \<lparr>au_violations = [], au_checked = 0, au_counts = [], au_sessions = []\<rparr>) (\<lambda>st.
     rbind (if ap_max_actions_per_session p = JNull then Inr []
            else collect (check_count py_str (ap_max_actions_per_session p)) (au_counts st)) (\<lambda>over.
       let vs = au_violations st @ over in
       Inr \<lparr>ar_shard_id = sid, ar_total_entries = length entries, ar_actions_checked = au_checked st, ar_violations = vs,
            ar_violation_count = length vs, ar_sessions_checked = length (au_sessions st), ar_compliant = (vs = [])\<rparr>))"

definition audit_shard :: "(json \<Rightarrow> string) \<Rightarrow> string \<Rightarrow> audit_policy \<Rightarrow> (fs, audit_report) op" where
  "audit_shard py_str sid p =
     sbind (read sid 0 AUDIT_LIMIT) (\<lambda>entries. of_res (audit_entries py_str sid p (rev entries)))"

fun audit_loop :: "(json \<Rightarrow> string) \<Rightarrow> audit_policy \<Rightarrow> string list \<Rightarrow> (fs, audit_report list) op" where
  "audit_loop py_str p [] = ret []"
| "audit_loop py_str p (sid # sids) =
     sbind (audit_shard py_str sid p) (\<lambda>r. sbind (audit_loop py_str p sids) (\<lambda>rs. ret (r # rs)))"

definition audit_all :: "(json \<Rightarrow> string) \<Rightarrow> datetime \<Rightarrow> (string \<Rightarrow> datetime) \<Rightarrow> audit_policy \<Rightarrow> (fs, audit_report list) op" where
  "audit_all py_str now mtime p s =
     (case list_shards now mtime s of Inl err \<Rightarrow> (s, Inl err) | Inr ms \<Rightarrow> audit_loop py_str p (map sm_shard_id ms) s)"

section \<open>Coverage\<close>

record coverage_gap =
  cg_entry_id :: json
  cg_shard_id :: string
  cg_timestamp :: string
  cg_content_preview :: json
  cg_entry_hash :: json
  cg_event_type :: json
  cg_session_id :: json

definition gap_dict :: "coverage_gap \<Rightarrow> (string \<times> json) list" where
  "gap_dict g =
     [(''entry_id'', cg_entry_id g), (''shard_id'', JStr (cg_shard_id g)), (''timestamp'', JStr (cg_timestamp g)),
      (''content_preview'', cg_content_preview g), (''entry_hash'', cg_entry_hash g), (''event_type'', cg_event_type g),
      (''session_id'', cg_session_id g)]"

definition set_has :: "json \<Rightarrow> json list \<Rightarrow> bool res" where
  "set_has x xs = rbind (hashable x) (\<lambda>_. Inr (x \<in> set xs))"

definition in_index :: "json list \<Rightarrow> json list \<Rightarrow> entry \<Rightarrow> bool res" where
  "in_index ids hashes e = rbind (set_has (eid e) ids) (\<lambda>b. if b then Inr True else set_has (hash e) hashes)"

definition preview :: "nat \<Rightarrow> json \<Rightarrow> json res" where
  "preview n v =
     (case (if truthy v then v else JStr []) of
        JStr t \<Rightarrow> Inr (JStr (take n t)) | JList xs \<Rightarrow> Inr (JList (take n xs)) | _ \<Rightarrow> Inl TypeError)"

record coverage_state =
  cv_total :: nat
  cv_indexed :: nat
  cv_gaps :: "coverage_gap list"
  cv_truncated :: bool

definition gap_of :: "string \<Rightarrow> entry \<Rightarrow> coverage_gap res" where
  "gap_of sid e =
     rbind (preview 120 (content e)) (\<lambda>text.
     rbind (jget ''event_type'' (JStr ''unknown'') (metadata e)) (\<lambda>event_type.
       Inr \<lparr>cg_entry_id = eid e, cg_shard_id = sid, cg_timestamp = isoformat (timestamp e), cg_content_preview = text,
            cg_entry_hash = hash e, cg_event_type = event_type, cg_session_id = session_id e\<rparr>))"

definition cover_entry :: "int \<Rightarrow> json list \<Rightarrow> json list \<Rightarrow> string \<Rightarrow> entry \<Rightarrow> coverage_state \<Rightarrow> coverage_state res" where
  "cover_entry max_gaps ids hashes sid e st =
     rbind (in_index ids hashes e) (\<lambda>indexed.
       let st1 = st\<lparr>cv_total := Suc (cv_total st)\<rparr> in
       if indexed then Inr (st1\<lparr>cv_indexed := Suc (cv_indexed st)\<rparr>)
       else if int (length (cv_gaps st)) < max_gaps
       then rbind (gap_of sid e) (\<lambda>g. Inr (st1\<lparr>cv_gaps := cv_gaps st @ [g]\<rparr>))
       else Inr (st1\<lparr>cv_truncated := True\<rparr>))"

fun cover_shards ::
    "int \<Rightarrow> json list \<Rightarrow> json list \<Rightarrow> string list \<Rightarrow> coverage_state \<Rightarrow> (string \<times> nat \<times> nat \<times> nat) list \<Rightarrow>
     (fs, coverage_state \<times> (string \<times> nat \<times> nat \<times> nat) list) op" where
  "cover_shards max_gaps ids hashes [] st per = ret (st, per)"
| "cover_shards max_gaps ids hashes (sid # sids) st per =
     sbind (read sid 0 AUDIT_LIMIT) (\<lambda>entries.
     sbind (of_res (fold_res (cover_entry max_gaps ids hashes sid) (rev entries) st)) (\<lambda>st'.
       let n = length entries; indexed = cv_indexed st' - cv_indexed st
       in cover_shards max_gaps ids hashes sids st' (dput sid (n, indexed, n - indexed) per)))"

datatype coverage_verdict = FULLY_COVERED | PARTIAL_COVERAGE | CRITICAL_GAPS | NO_INDEX

text \<open>\<^verbatim>\<open>round(x, 2)\<close> of a double that is not negative: two decimals, ties to even, read back as a double.\<close>

definition round2 :: "int \<Rightarrow> int" where
  "round2 x = rnd (rne (x * 100) ONE * ONE) 100"

definition coverage_percent :: "nat \<Rightarrow> nat \<Rightarrow> int" where
  "coverage_percent indexed n =
     (if 0 < n then round2 (fmul (ffrac (int indexed) (int n)) (fof_int 100)) else 0)"

definition coverage_status :: "nat \<Rightarrow> nat \<Rightarrow> coverage_verdict" where
  "coverage_status indexed n =
     (if n = 0 then FULLY_COVERED
      else if coverage_percent indexed n = 100 * ONE then FULLY_COVERED
      else if 95 * ONE \<le> coverage_percent indexed n then PARTIAL_COVERAGE
      else CRITICAL_GAPS)"

record coverage_report =
  cr_total_entries :: nat
  cr_indexed_entries :: nat
  cr_missing_entries :: nat
  cr_coverage_percent :: int
  cr_gaps :: "coverage_gap list"
  cr_gaps_truncated :: bool
  cr_shards_checked :: nat
  cr_per_shard :: "(string \<times> nat \<times> nat \<times> nat) list"
  cr_status :: coverage_verdict

definition coverage_report_of :: "nat \<Rightarrow> coverage_state \<Rightarrow> (string \<times> nat \<times> nat \<times> nat) list \<Rightarrow> coverage_report" where
  "coverage_report_of n st per =
     \<lparr>cr_total_entries = cv_total st, cr_indexed_entries = cv_indexed st, cr_missing_entries = cv_total st - cv_indexed st,
      cr_coverage_percent = coverage_percent (cv_indexed st) (cv_total st), cr_gaps = cv_gaps st,
      cr_gaps_truncated = cv_truncated st, cr_shards_checked = n, cr_per_shard = per,
      cr_status = coverage_status (cv_indexed st) (cv_total st)\<rparr>"

definition check_coverage ::
    "datetime \<Rightarrow> (string \<Rightarrow> datetime) \<Rightarrow> json list option \<Rightarrow> json list option \<Rightarrow> string list option \<Rightarrow> int \<Rightarrow> (fs, coverage_report) op" where
  "check_coverage now mtime ids hashes shard_ids max_gaps s =
     (if ids = None \<and> hashes = None then
        (s, Inr \<lparr>cr_total_entries = 0, cr_indexed_entries = 0, cr_missing_entries = 0, cr_coverage_percent = 0, cr_gaps = [],
                cr_gaps_truncated = False, cr_shards_checked = 0, cr_per_shard = [], cr_status = NO_INDEX\<rparr>)
      else
        (let listed = (case shard_ids of Some l \<Rightarrow> Inr l | None \<Rightarrow> rbind (list_shards now mtime s) (\<lambda>ms. Inr (map sm_shard_id ms)))
         in case listed of
              Inl err \<Rightarrow> (s, Inl err)
            | Inr sids \<Rightarrow>
                sbind (cover_shards max_gaps (case ids of None \<Rightarrow> [] | Some l \<Rightarrow> l) (case hashes of None \<Rightarrow> [] | Some l \<Rightarrow> l) sids
                         \<lparr>cv_total = 0, cv_indexed = 0, cv_gaps = [], cv_truncated = False\<rparr> [])
                  (\<lambda>(st, per). ret (coverage_report_of (length sids) st per)) s))"

end
