(* ===== verification/Reports_Props.thy ===== *)
theory Reports_Props
  imports Reports Samples Float_Repr
begin

text \<open>Properties of the reports: what an audit flags, and what a coverage check calls full.\<close>

section \<open>Audit\<close>

definition listed :: "json \<Rightarrow> json \<Rightarrow> bool" where
  "listed x c = (case c of JList xs \<Rightarrow> x \<in> set xs | _ \<Rightarrow> False)"

definition whitelisted :: "json \<Rightarrow> json \<Rightarrow> bool" where
  "whitelisted x c = (c = JNull \<or> listed x c)"

definition meta_field :: "string \<Rightarrow> json \<Rightarrow> entry \<Rightarrow> json" where
  "meta_field k d e = (case metadata e of JObj m \<Rightarrow> (case dget k m of None \<Rightarrow> d | Some v \<Rightarrow> v) | _ \<Rightarrow> d)"

definition logs_action :: "entry \<Rightarrow> bool" where
  "logs_action e = is_intent (meta_field ''event_type'' (JStr []) e) (meta_field ''action_name'' (JStr []) e)"

definition source_of :: "entry \<Rightarrow> json" where
  "source_of e = (let s = meta_field ''source'' JNull e in if truthy s then s else source e)"

text \<open>The rules one entry breaks.\<close>

definition rules_broken :: "audit_policy \<Rightarrow> entry \<Rightarrow> string list" where
  "rules_broken p e =
     (if whitelisted (shard e) (ap_allowed_shards p) then [] else [''allowed_shards'']) @
     (if meta_field ''event_type'' (JStr []) e = JStr ''session_start'' \<and> \<not> whitelisted (source_of e) (ap_allowed_sources p)
      then [''allowed_sources''] else []) @
     (let a = meta_field ''action_name'' (JStr []) e in
      if \<not> logs_action e then [] else if listed a (ap_forbidden_actions p) then [''forbidden_actions'']
      else if whitelisted a (ap_allowed_actions p) then [] else [''allowed_actions''])"

definition actions_of :: "json \<Rightarrow> entry list \<Rightarrow> nat" where
  "actions_of s es = length (filter (\<lambda>e. logs_action e \<and> session_id e = s) es)"

definition list_or_null :: "json \<Rightarrow> bool" where
  "list_or_null c = (c = JNull \<or> (\<exists>xs. c = JList xs))"

definition policy_ok :: "audit_policy \<Rightarrow> bool" where
  "policy_ok p =
     (list_or_null (ap_allowed_actions p) \<and> list_or_null (ap_allowed_sources p) \<and> list_or_null (ap_allowed_shards p) \<and>
      (\<exists>xs. ap_forbidden_actions p = JList xs) \<and>
      (ap_max_actions_per_session p = JNull \<or> (\<exists>m. ap_max_actions_per_session p = JInt m)))"

definition auditable :: "entry \<Rightarrow> bool" where
  "auditable e = ((\<exists>d. metadata e = JObj d) \<and> (\<exists>s. session_id e = JStr s))"

lemma unless_in_whitelisted: "list_or_null c \<Longrightarrow> unless_in x c v = Inr (if whitelisted x c then None else Some v)"
  by (auto simp: list_or_null_def unless_in_def whitelisted_def listed_def py_in_def)

lemma flag_fields [simp]:
  "map vi_rule (au_violations (flag v st)) = map vi_rule (au_violations st) @ (case v of None \<Rightarrow> [] | Some x \<Rightarrow> [vi_rule x])"
  "au_checked (flag v st) = au_checked st" "au_counts (flag v st) = au_counts st" "au_sessions (flag v st) = au_sessions st"
  by (simp_all add: flag_def split: option.split)

definition audit_inv :: "audit_policy \<Rightarrow> entry list \<Rightarrow> audit_state \<Rightarrow> bool" where
  "audit_inv p es st =
     (map vi_rule (au_violations st) = concat (map (rules_broken p) es) \<and> au_checked st = length (filter logs_action es) \<and>
      distinct (map fst (au_counts st)) \<and> (\<forall>k \<in> fst ` set (au_counts st). \<exists>s. k = JStr s) \<and>
      (\<forall>s. map_of (au_counts st) s = (if actions_of s es = 0 then None else Some (int (actions_of s es)))) \<and>
      distinct (au_sessions st) \<and> set (au_sessions st) = session_id ` set es)"

lemma audit_entry_inv:
  assumes p: "policy_ok p" and e: "auditable e" and inv: "audit_inv p es st"
  shows "\<exists>st'. audit_entry py_str p e st = Inr st' \<and> audit_inv p (es @ [e]) st'"
proof -
  obtain d s where d: "metadata e = JObj d" and s: "session_id e = JStr s" using e by (auto simp: auditable_def)
  obtain fs where f: "ap_forbidden_actions p = JList fs" using p by (auto simp: policy_ok_def)
  have wl: "list_or_null (ap_allowed_actions p)" "list_or_null (ap_allowed_sources p)" "list_or_null (ap_allowed_shards p)"
    using p by (simp_all add: policy_ok_def)
  let ?ty = "meta_field ''event_type'' (JStr []) e" and ?a = "meta_field ''action_name'' (JStr []) e"
  have get: "jget ''event_type'' (JStr []) (metadata e) = Inr ?ty" "jget ''action_name'' (JStr []) (metadata e) = Inr ?a"
    "jget ''source'' JNull (metadata e) = Inr (meta_field ''source'' JNull e)"
    by (simp_all add: d meta_field_def)
  obtain v1 where v1: "check_shard py_str p e = Inr v1" "(case v1 of None \<Rightarrow> [] | Some x \<Rightarrow> [vi_rule x])
      = (if whitelisted (shard e) (ap_allowed_shards p) then [] else [''allowed_shards''])"
    unfolding check_shard_def unless_in_whitelisted [OF wl(3)] by (simp add: violation_at_def)
  let ?bad = "?ty = JStr ''session_start'' \<and> \<not> whitelisted (source_of e) (ap_allowed_sources p)"
  have c2: "check_source py_str p e ?ty = Inr (if ?bad then Some (violation_at e ''allowed_sources''
      (not_listed py_str ''Source'' (source_of e) (ap_allowed_sources p)) JNull) else None)"
    using get(3) by (simp add: check_source_def Let_def unless_in_whitelisted [OF wl(2)] source_of_def)
  then obtain v2 where v2: "check_source py_str p e ?ty = Inr v2" "(case v2 of None \<Rightarrow> [] | Some x \<Rightarrow> [vi_rule x])
      = (if ?bad then [''allowed_sources''] else [])" by (simp add: violation_at_def)
  have "\<exists>v. check_action py_str p e ?a = Inr v \<and> (case v of None \<Rightarrow> [] | Some x \<Rightarrow> [vi_rule x])
      = (if listed ?a (ap_forbidden_actions p) then [''forbidden_actions'']
         else if whitelisted ?a (ap_allowed_actions p) then [] else [''allowed_actions''])"
    using wl(1) by (auto simp: check_action_def f py_in_def unless_in_whitelisted violation_at_def listed_def)
  then obtain v3 where v3: "check_action py_str p e ?a = Inr v3" "(case v3 of None \<Rightarrow> [] | Some x \<Rightarrow> [vi_rule x])
      = (if listed ?a (ap_forbidden_actions p) then [''forbidden_actions'']
         else if whitelisted ?a (ap_allowed_actions p) then [] else [''allowed_actions''])" by blast
  let ?st = "flag v2 (flag v1 (st\<lparr>au_sessions := List.insert (session_id e) (au_sessions st)\<rparr>))"
  let ?st' = "if logs_action e then flag v3 (count_action e ?st) else ?st"
  have run: "audit_entry py_str p e st = Inr ?st'"
    unfolding audit_entry_def get using v1(1) v2(1) v3(1) s by (simp add: logs_action_def Let_def)
  have rules: "map vi_rule (au_violations ?st') = concat (map (rules_broken p) (es @ [e]))"
    using inv v1(2) v2(2) v3(2) by (simp add: audit_inv_def rules_broken_def count_action_def Let_def)
  have n: "actions_of x (es @ [e]) = actions_of x es + (if logs_action e \<and> session_id e = x then 1 else 0)" for x
    by (simp add: actions_of_def)
  have sub: "fst ` set (au_counts ?st') \<subseteq> insert (JStr s) (fst ` set (au_counts st))" by (simp add: count_action_def keys_dput s subset_insertI)
  have "\<forall>k \<in> insert (JStr s) (fst ` set (au_counts st)). \<exists>s. k = JStr s" using inv by (simp add: audit_inv_def)
  from bspec [OF this subsetD [OF sub]] have keys: "\<forall>k \<in> fst ` set (au_counts ?st'). \<exists>s. k = JStr s" by (rule ballI)
  have counts: "distinct (map fst (au_counts ?st'))"
    "\<forall>x. map_of (au_counts ?st') x = (if actions_of x (es @ [e]) = 0 then None else Some (int (actions_of x (es @ [e]))))"
    using inv unfolding n by (auto simp: audit_inv_def count_action_def distinct_dput)
  have "au_checked ?st' = length (filter logs_action (es @ [e]))" "distinct (au_sessions ?st')"
    "set (au_sessions ?st') = session_id ` set (es @ [e])"
    using inv by (simp_all add: audit_inv_def count_action_def)
  with run rules counts keys show ?thesis unfolding audit_inv_def by blast
qed

lemma audit_entries_inv:
  assumes "policy_ok p" and "\<forall>e \<in> set es. auditable e"
  shows "\<exists>st. fold_res (audit_entry py_str p) es \<lparr>au_violations = [], au_checked = 0, au_counts = [], au_sessions = []\<rparr> = Inr st \<and>
    audit_inv p es st"
  using assms(2)
proof (induction es rule: rev_induct)
  case Nil
  then show ?case by (simp add: audit_inv_def actions_of_def)
next
  case (snoc e es)
  then obtain st where st: "fold_res (audit_entry py_str p) es \<lparr>au_violations = [], au_checked = 0, au_counts = [], au_sessions = []\<rparr> = Inr st"
    "audit_inv p es st" by auto
  from audit_entry_inv [OF assms(1) _ st(2), of e py_str] snoc.prems obtain st' where
    "audit_entry py_str p e st = Inr st'" "audit_inv p (es @ [e]) st'" by auto
  with st(1) show ?case by (simp add: fold_res_append)
qed

lemma check_count_int:
  "check_count py_str (JInt m) (JStr s, n) = Inr (if m < n then Some (session_violation py_str (JInt m) s n) else None)"
  by (simp add: check_count_def num_val_def)

lemma collect_counts:
  assumes "\<forall>k \<in> fst ` set cs. \<exists>s. k = JStr s"
  shows "\<exists>vs. collect (check_count py_str (JInt m)) cs = Inr vs \<and> (vs = [] \<longleftrightarrow> (\<forall>(k, n) \<in> set cs. n \<le> m)) \<and>
    set (map vi_rule vs) \<subseteq> {''max_actions_per_session''} \<and> map vi_session_id vs = map fst (filter (\<lambda>(k, n). m < n) cs)"
  using assms
proof (induction cs)
  case (Cons c cs)
  obtain s n where c: "c = (JStr s, n)" using Cons.prems by (cases c) auto
  obtain vs where vs: "collect (check_count py_str (JInt m)) cs = Inr vs" "vs = [] \<longleftrightarrow> (\<forall>(k, n) \<in> set cs. n \<le> m)"
    "set (map vi_rule vs) \<subseteq> {''max_actions_per_session''}" "map vi_session_id vs = map fst (filter (\<lambda>(k, n). m < n) cs)"
    using Cons by auto
  have v: "vi_rule (session_violation py_str (JInt m) s n) = ''max_actions_per_session''"
    "vi_session_id (session_violation py_str (JInt m) s n) = JStr s" by (simp_all add: session_violation_def)
  show ?case
  proof (cases "m < n")
    case True
    with vs v show ?thesis
      by (intro exI [where x = "session_violation py_str (JInt m) s n # vs"]) (auto simp: c check_count_int)
  next
    case False
    with vs show ?thesis by (intro exI [where x = vs]) (auto simp: c check_count_int)
  qed
qed simp


section \<open>Coverage\<close>

text \<open>One as a multiple of a unit in which significands of forty bits are exact.\<close>

lemma one_split: "\<exists>u. 0 < u \<and> ONE = 1099511627776 * u \<and> (\<forall>q. 0 \<le> q \<longrightarrow> q \<le> 2 ^ 53 \<longrightarrow> rnd (q * u) 1 = q * u)"
proof (intro exI conjI allI impI)
  show "(0 :: int) < 2 ^ 1034" by (rule zero_less_power) simp
  have "(2 :: int) ^ 1074 = 2 ^ 40 * 2 ^ 1034" by (simp only: power_add [symmetric]) simp
  moreover have "(2 :: int) ^ 40 = 1099511627776" by simp
  ultimately show "ONE = 1099511627776 * 2 ^ 1034" unfolding ONE_def by simp
  fix q :: int
  assume "0 \<le> q" "q \<le> 2 ^ 53"
  then show "rnd (q * 2 ^ 1034) 1 = q * 2 ^ 1034" using double_significand [of q 1034] by (simp only: is_double_def)
qed

lemma hundred: "fof_int 100 = 100 * ONE"
proof -
  obtain u where u: "ONE = 1099511627776 * u" "\<forall>q. 0 \<le> q \<longrightarrow> q \<le> 2 ^ 53 \<longrightarrow> rnd (q * u) 1 = q * u" using one_split by blast
  have "rnd (109951162777600 * u) 1 = 109951162777600 * u" using u(2) by simp
  then show ?thesis by (simp add: fof_int_def u(1))
qed

text \<open>The percentage as a function of the quotient, and its monotonicity.\<close>

lemma fmul_hundred: "fmul x (fof_int 100) = rnd (100 * x) 1"
  using rnd_scale [of 1 ONE "100 * x"] by (simp add: fmul_def hundred mult.commute mult.left_commute)

lemma percent_ge:
  assumes "0 < n" and q: "0 \<le> q" "q * int n \<le> 1099511627776 * int k" "100 * q \<le> 2 ^ 53" and r: "r \<le> rne (10000 * q) 1099511627776"
  shows "rnd (r * ONE) 100 \<le> coverage_percent k n"
proof -
  obtain u where u: "0 < u" "ONE = 1099511627776 * u" "\<forall>q. 0 \<le> q \<longrightarrow> q \<le> 2 ^ 53 \<longrightarrow> rnd (q * u) 1 = q * u" using one_split by blast
  have "(q * int n) * u \<le> (1099511627776 * int k) * u" using q(2) u(1) by (simp only: mult_right_mono)
  then have "rnd (q * u) 1 \<le> ffrac (int k) (int n)"
    unfolding ffrac_def using assms(1) by (intro rnd_mono) (simp_all add: u(2) algebra_simps)
  then have 1: "q * u \<le> ffrac (int k) (int n)" using u(3) q by simp
  have "rnd (100 * q * u) 1 \<le> rnd (100 * ffrac (int k) (int n)) 1" using 1 by (intro rnd_mono) simp_all
  then have 2: "100 * q * u \<le> fmul (ffrac (int k) (int n)) (fof_int 100)" using u(3) q unfolding fmul_hundred by simp
  have "rne (10000 * q) 1099511627776 \<le> rne (fmul (ffrac (int k) (int n)) (fof_int 100) * 100) ONE"
    using 2 u(1) by (intro rne_mono) (simp_all add: u(2))
  then have "r * ONE \<le> rne (fmul (ffrac (int k) (int n)) (fof_int 100) * 100) ONE * ONE" using r by (simp add: mult_right_mono order_less_imp_le)
  then show ?thesis unfolding coverage_percent_def round2_def using assms(1) by (simp add: rnd_mono)
qed

lemma percent_le:
  assumes "0 < n" and q: "0 \<le> q" "1099511627776 * int k \<le> q * int n" "100 * q \<le> 2 ^ 53" and r: "rne (10000 * q) 1099511627776 \<le> r"
  shows "coverage_percent k n \<le> rnd (r * ONE) 100"
proof -
  obtain u where u: "0 < u" "ONE = 1099511627776 * u" "\<forall>q. 0 \<le> q \<longrightarrow> q \<le> 2 ^ 53 \<longrightarrow> rnd (q * u) 1 = q * u" using one_split by blast
  have "(1099511627776 * int k) * u \<le> (q * int n) * u" using q(2) u(1) by (simp only: mult_right_mono)
  then have "ffrac (int k) (int n) \<le> rnd (q * u) 1"
    unfolding ffrac_def using assms(1) by (intro rnd_mono) (simp_all add: u(2) algebra_simps)
  then have 1: "ffrac (int k) (int n) \<le> q * u" using u(3) q by simp
  have "rnd (100 * ffrac (int k) (int n)) 1 \<le> rnd (100 * q * u) 1" using 1 by (intro rnd_mono) simp_all
  then have 2: "fmul (ffrac (int k) (int n)) (fof_int 100) \<le> 100 * q * u" using u(3) q unfolding fmul_hundred by simp
  have "rne (fmul (ffrac (int k) (int n)) (fof_int 100) * 100) ONE \<le> rne (10000 * q) 1099511627776"
    using 2 u(1) by (intro rne_mono) (simp_all add: u(2))
  then have "rne (fmul (ffrac (int k) (int n)) (fof_int 100) * 100) ONE * ONE \<le> r * ONE" using r by (simp add: mult_right_mono order_less_imp_le)
  then show ?thesis unfolding coverage_percent_def round2_def using assms(1) by (simp add: rnd_mono)
qed

lemma rnd_hundred: "rnd (10000 * ONE) 100 = 100 * ONE"
  using rnd_scale [of 1 100 "100 * ONE"] hundred by (simp add: fof_int_def)

lemma percent_at_most: "0 < n \<Longrightarrow> k \<le> n \<Longrightarrow> coverage_percent k n \<le> 100 * ONE"
  using percent_le [of n 1099511627776 k 10000] by (simp add: rnd_hundred rne_def)

lemma percent_all: "0 < n \<Longrightarrow> coverage_percent n n = 100 * ONE"
  using percent_ge [of n 1099511627776 n 10000] percent_at_most [of n n] by (simp add: rnd_hundred rne_def)

lemma percent_short:
  assumes "0 < n" and "k < n" and "n \<le> 19999"
  shows "coverage_percent k n < 100 * ONE"
proof -
  obtain u where u: "0 < u" "ONE = 1099511627776 * u" "\<forall>q. 0 \<le> q \<longrightarrow> q \<le> 2 ^ 53 \<longrightarrow> rnd (q * u) 1 = q * u" using one_split by blast
  have "1099511627776 * int k \<le> 1099456649446 * int n" using assms by linarith
  then have "coverage_percent k n \<le> rnd (9999 * ONE) 100"
    using assms(1) by (intro percent_le [of n 1099456649446]) (simp_all add: rne_def)
  also have "\<dots> \<le> rnd (109942572843008 * u) 1" by (intro rnd_mono) (simp_all add: u(2) u(1) order_less_imp_le)
  also have "\<dots> = 109942572843008 * u" using u(3) by simp
  also have "\<dots> < 100 * ONE" using u(1) by (simp add: u(2))
  finally show ?thesis .
qed

text \<open>Up to 19999 entries full coverage means full; from 32768 on one missing entry is rounded away.\<close>

lemma full_status:
  assumes "k \<le> n" and "n \<le> 19999"
  shows "coverage_status k n = FULLY_COVERED \<longleftrightarrow> k = n"
proof (cases "n = 0 \<or> k = n")
  case True
  then show ?thesis using assms percent_all [of n] by (auto simp: coverage_status_def)
next
  case False
  then show ?thesis using assms percent_short [of n k] by (simp add: coverage_status_def)
qed

lemma rounded_to_full:
  assumes "32768 \<le> n"
  shows "coverage_status (n - 1) n = FULLY_COVERED"
proof -
  have "1099478073344 * int n \<le> 1099511627776 * int (n - 1)" using assms by simp
  then have "rnd (10000 * ONE) 100 \<le> coverage_percent (n - 1) n"
    using assms by (intro percent_ge [of n 1099478073344]) (simp_all add: rne_def)
  then have "coverage_percent (n - 1) n = 100 * ONE" using percent_at_most [of n "n - 1"] assms by (simp add: rnd_hundred)
  then show ?thesis by (simp add: coverage_status_def)
qed

definition coverable :: "entry \<Rightarrow> bool" where
  "coverable e =
     ((\<exists>i. eid e = JStr i) \<and> (\<exists>h. hash e = JStr h) \<and> (\<exists>t. content e = JStr t) \<and> (\<exists>d. metadata e = JObj d))"

definition known :: "json list \<Rightarrow> json list \<Rightarrow> entry \<Rightarrow> bool" where
  "known ids hashes e = (eid e \<in> set ids \<or> hash e \<in> set hashes)"

lemma cover_entry_coverable:
  assumes "coverable e"
  shows "\<exists>g. cg_entry_id g = eid e \<and> cover_entry m ids hashes sid e st = Inr
    (if known ids hashes e then st\<lparr>cv_total := Suc (cv_total st), cv_indexed := Suc (cv_indexed st)\<rparr>
     else if int (length (cv_gaps st)) < m then st\<lparr>cv_total := Suc (cv_total st), cv_gaps := cv_gaps st @ [g]\<rparr>
     else st\<lparr>cv_total := Suc (cv_total st), cv_truncated := True\<rparr>)"
proof -
  obtain i h t d where e: "eid e = JStr i" "hash e = JStr h" "content e = JStr t" "metadata e = JObj d"
    using assms by (auto simp: coverable_def)
  then have "\<exists>g. gap_of sid e = Inr g \<and> cg_entry_id g = eid e"
    by (cases "t = []") (simp_all add: gap_of_def preview_def)
  then obtain g where g: "gap_of sid e = Inr g" "cg_entry_id g = eid e" by blast
  have "in_index ids hashes e = Inr (known ids hashes e)" using e by (simp add: in_index_def set_has_def known_def)
  with g show ?thesis by (intro exI [where x = g]) (simp add: cover_entry_def Let_def)
qed

lemma cover_entries:
  assumes "0 \<le> m" and "\<forall>e \<in> set es. coverable e"
  shows "\<exists>st. fold_res (cover_entry m ids hashes sid) es \<lparr>cv_total = 0, cv_indexed = 0, cv_gaps = [], cv_truncated = False\<rparr> = Inr st \<and>
    cv_total st = length es \<and> cv_indexed st = length (filter (known ids hashes) es) \<and>
    map cg_entry_id (cv_gaps st) = take (nat m) (map eid (filter (\<lambda>e. \<not> known ids hashes e) es)) \<and>
    (cv_truncated st \<longleftrightarrow> m < int (length (filter (\<lambda>e. \<not> known ids hashes e) es)))"
  using assms(2)
proof (induction es rule: rev_induct)
  case (snoc e es)
  let ?missing = "filter (\<lambda>e. \<not> known ids hashes e) es"
  obtain st where st: "fold_res (cover_entry m ids hashes sid) es \<lparr>cv_total = 0, cv_indexed = 0, cv_gaps = [], cv_truncated = False\<rparr> = Inr st"
    "cv_total st = length es" "cv_indexed st = length (filter (known ids hashes) es)"
    "map cg_entry_id (cv_gaps st) = take (nat m) (map eid ?missing)"
    "cv_truncated st \<longleftrightarrow> m < int (length ?missing)" using snoc by auto
  have len: "int (length (cv_gaps st)) < m \<longleftrightarrow> int (length ?missing) < m"
    using assms(1) arg_cong [OF st(4), of length] by (simp add: min_def split: if_splits)
  obtain g where g: "cg_entry_id g = eid e" "cover_entry m ids hashes sid e st = Inr
    (if known ids hashes e then st\<lparr>cv_total := Suc (cv_total st), cv_indexed := Suc (cv_indexed st)\<rparr>
     else if int (length (cv_gaps st)) < m then st\<lparr>cv_total := Suc (cv_total st), cv_gaps := cv_gaps st @ [g]\<rparr>
     else st\<lparr>cv_total := Suc (cv_total st), cv_truncated := True\<rparr>)"
    using cover_entry_coverable [of e m ids hashes sid st] snoc.prems by auto
  have small: "nat m - length ?missing \<noteq> 0" if "int (length ?missing) < m" using that by linarith
  show ?case
  proof (cases "known ids hashes e")
    case True
    with st g show ?thesis by (simp add: fold_res_append)
  next
    case False
    show ?thesis
    proof (cases "int (length ?missing) < m")
      case True
      then have "length ?missing \<le> nat m" by linarith
      with True False st g len small show ?thesis by (auto simp: fold_res_append)
    next
      case f: False
      then have "nat m \<le> length ?missing" by linarith
      with f False st g len show ?thesis by (auto simp: fold_res_append)
    qed
  qed
qed (use assms(1) in auto)

text \<open>
  C35: a coverage check of a shard finds exactly the entries the index lacks. For a shard of
  at most 19999 entries it counts all of them, lists the missing ones in the order of the log
  up to the limit, says whether the list was cut, and reports full coverage exactly if the
  index has every entry by id or by hash. (In a longer shard the percentage, rounded to two
  decimals, may be 100.0 although entries are missing.)
\<close>

theorem coverage_exact:
  assumes inv: "shard_inv sha sid s es" "mono_files s = []" and len: "length es \<le> 19999"
    and es: "\<forall>e \<in> set es. coverable e" and m: "0 \<le> m"
  shows "\<exists>r. check_coverage now mtime (Some ids) (Some hashes) (Some [sid]) m s = (s, Inr r) \<and>
    cr_total_entries r = length es \<and> cr_missing_entries r = length (filter (\<lambda>e. \<not> known ids hashes e) es) \<and>
    map cg_entry_id (cr_gaps r) = take (nat m) (map eid (filter (\<lambda>e. \<not> known ids hashes e) es)) \<and>
    (cr_gaps_truncated r \<longleftrightarrow> m < int (cr_missing_entries r)) \<and>
    (cr_status r = FULLY_COVERED \<longleftrightarrow> (\<forall>e \<in> set es. known ids hashes e))"
proof -
  have rd: "read sid 0 AUDIT_LIMIT s = (s, Inr (rev es))"
    using read_inv [OF inv, of 0 AUDIT_LIMIT] len by (simp add: AUDIT_LIMIT_def)
  obtain st where st: "fold_res (cover_entry m ids hashes sid) es \<lparr>cv_total = 0, cv_indexed = 0, cv_gaps = [], cv_truncated = False\<rparr> = Inr st"
    "cv_total st = length es" "cv_indexed st = length (filter (known ids hashes) es)"
    "map cg_entry_id (cv_gaps st) = take (nat m) (map eid (filter (\<lambda>e. \<not> known ids hashes e) es))"
    "cv_truncated st \<longleftrightarrow> m < int (length (filter (\<lambda>e. \<not> known ids hashes e) es))"
    using cover_entries [OF m es] by blast
  have split: "length (filter (known ids hashes) es) + length (filter (\<lambda>e. \<not> known ids hashes e) es) = length es"
    by (rule sum_length_filter_compl)
  then have rest: "length es - length (filter (known ids hashes) es) = length (filter (\<lambda>e. \<not> known ids hashes e) es)"
    "int (length es) - int (length (filter (known ids hashes) es)) = int (length (filter (\<lambda>e. \<not> known ids hashes e) es))" by linarith+
  have "length (filter (known ids hashes) es) = length es \<longleftrightarrow> (\<forall>e \<in> set es. known ids hashes e)"
    by (metis filter_True length_filter_less nat_neq_iff)
  with full_status [of "length (filter (known ids hashes) es)" "length es"] len
  have status: "coverage_status (length (filter (known ids hashes) es)) (length es) = FULLY_COVERED \<longleftrightarrow> (\<forall>e \<in> set es. known ids hashes e)"
    by simp
  let ?per = "[(sid, length es, length (filter (known ids hashes) es), length es - length (filter (known ids hashes) es))]"
  have "check_coverage now mtime (Some ids) (Some hashes) (Some [sid]) m s = (s, Inr (coverage_report_of 1 st ?per))"
    using st(1,3) by (simp add: check_coverage_def sbind_def of_res_def rd Let_def)
  with st(2-) status rest show ?thesis
    by (intro exI [where x = "coverage_report_of 1 st ?per"]) (simp add: coverage_report_of_def)
qed

section \<open>A shard with one entry\<close>

lemma sample_log:
  "\<exists>s e. shard_inv (\<lambda>m. m) ''alpha'' s [e] \<and> mono_files s = [] \<and> eid e = JStr ''e-1'' \<and> session_id e = JStr ''s-1'' \<and>
     (\<exists>h. hash e = JStr h) \<and> content e = JStr ''one'' \<and> (\<exists>d. metadata e = JObj d) \<and> shard e = JStr ''alpha''"
proof -
  let ?r = "sample_entry ''alpha'' ''one''"
  have ok: "acceptable ?r" "shard_of ?r = Inr ''alpha''" using sample_ok [of "''alpha''"] by (simp_all add: request_ok_def)
  obtain h where h: "compute_canonical_entry_hash (\<lambda>m. m) ?r (tip []) = Inr h"
    using compute_hash_Inr [OF ok(1), of "tip []"] by (auto simp: tip_def)
  let ?s = "fst (append (\<lambda>m. m) sample_time ?r empty_fs)" and ?e = "stored_entry (\<lambda>m. m) ''alpha'' (tip []) ?r"
  have "shard_inv (\<lambda>m. m) ''alpha'' ?s [?e]" using append_log_step [OF shard_inv_empty ok, of "\<lambda>m. m" sample_time] by simp
  moreover have "mono_files ?s = []" by simp
  moreover have "eid ?e = JStr ''e-1''" "session_id ?e = JStr ''s-1''" "hash ?e = JStr h" "content ?e = JStr ''one''"
    "metadata ?e = norm (metadata ?r)" "shard ?e = JStr ''alpha''"
    using h by (simp_all add: stored_entry_def norm_entry_def sample_entry_def)
  moreover have "\<exists>d. norm (metadata ?r) = JObj d" by (simp add: sample_entry_def)
  ultimately show ?thesis by (intro exI [where x = ?s] exI [where x = ?e]) simp
qed


theorem coverage_exact_witness:
  "\<exists>s r. check_coverage sample_time (\<lambda>_. sample_time) (Some []) (Some []) (Some [''alpha'']) 5 s = (s, Inr r) \<and>
     cr_missing_entries r = 1 \<and> cr_status r \<noteq> FULLY_COVERED"
proof -
  obtain s e where e: "shard_inv (\<lambda>m. m) ''alpha'' s [e]" "mono_files s = []"
    and c: "\<forall>x \<in> set [e]. coverable x" using sample_log by (auto simp: coverable_def)
  have "length [e] \<le> 19999" by simp
  from coverage_exact [OF e this c, of 5 sample_time "\<lambda>_. sample_time" "[]" "[]"] show ?thesis
    by (auto simp: known_def)
qed

end
