(* ===== verification/Trace.thy ===== *)
theory Trace
  imports Jsonl Bytes Datetime
begin

text \<open>
  \<^verbatim>\<open>src/dsm/core/tracing.py\<close> and \<^verbatim>\<open>src/dsm/core/replay.py\<close>: a trace is a JSON-lines file of actions,
  each record hashed and naming the hash of the record written before it; the replay reads the
  records of one session back, checks their hashes (strict mode) and the chain.
  Wording of messages is left out: an error is the constructor that says which branch raised it.
\<close>

section \<open>Writing\<close>

text \<open>\<^verbatim>\<open>canonical_json(record, exclude_step_hash=True)\<close> and \<^verbatim>\<open>compute_step_hash\<close> of the writer.\<close>

definition trace_canonical_json :: "(string \<times> json) list \<Rightarrow> string" where
  "trace_canonical_json record = dumps_sorted compact (JObj (ddel ''step_hash'' record))"

definition trace_step_hash :: "sha \<Rightarrow> (string \<times> json) list \<Rightarrow> string" where
  "trace_step_hash sha record = text_sha sha (trace_canonical_json record)"

text \<open>The arguments of a call of \<^verbatim>\<open>write\<close>; texts that may be \<^verbatim>\<open>None\<close> and dicts are JSON values.\<close>

record trace_call =
  tc_action_type :: string
  tc_intent :: string
  tc_scope :: string
  tc_input :: json
  tc_output :: json
  tc_ok :: bool
  tc_error :: json
  tc_state_before :: json
  tc_state_after :: json
  tc_session_id :: "string option"

text \<open>\<^verbatim>\<open>session_id or "default"\<close>.\<close>

definition session_of :: "trace_call \<Rightarrow> string" where
  "session_of a = (case tc_session_id a of None \<Rightarrow> ''default'' | Some s \<Rightarrow> if s = [] then ''default'' else s)"

definition hash_field :: "string option \<Rightarrow> json" where
  "hash_field h = (case h of None \<Rightarrow> JNull | Some s \<Rightarrow> JStr s)"

definition trace_data :: "datetime \<times> string \<Rightarrow> trace_call \<Rightarrow> string option \<Rightarrow> (string \<times> json) list" where
  "trace_data st a prev =
     [(''trace_id'', JStr (snd st)), (''ts'', JStr (isoformat (fst st))), (''session_id'', JStr (session_of a)),
      (''action_type'', JStr (tc_action_type a)), (''intent'', JStr (tc_intent a)), (''scope'', JStr (tc_scope a)),
      (''input'', tc_input a), (''output'', tc_output a), (''ok'', JBool (tc_ok a)), (''error'', tc_error a),
      (''state_before'', tc_state_before a), (''state_after'', tc_state_after a), (''prev_step_hash'', hash_field prev),
      (''step_hash'', JStr [])]"

definition create_record_dict ::
    "sha \<Rightarrow> datetime \<times> string \<Rightarrow> trace_call \<Rightarrow> string option \<Rightarrow> (string \<times> json) list \<times> string" where
  "create_record_dict sha st a prev =
     (let data = trace_data st a prev; h = trace_step_hash sha data in (dput ''step_hash'' (JStr h) data, h))"

record trace_writer =
  tw_file :: jsonl
  tw_last_step_hash :: "string option"

text \<open>A new writer on a file, which may have records already.\<close>

definition open_writer :: "jsonl \<Rightarrow> trace_writer" where
  "open_writer f = \<lparr>tw_file = f, tw_last_step_hash = None\<rparr>"

text \<open>
  The last hash advances before the line is written; \<open>disk\<close> says whether the file could be
  opened and written. The record returned has the fields of the dict.
\<close>

definition trace_write ::
    "sha \<Rightarrow> bool \<Rightarrow> datetime \<times> string \<Rightarrow> trace_call \<Rightarrow> (trace_writer, (string \<times> json) list) op" where
  "trace_write sha disk st a w =
     (let (data, h) = create_record_dict sha st a (tw_last_step_hash w); w1 = w\<lparr>tw_last_step_hash := Some h\<rparr> in
      if disk then (w1\<lparr>tw_file := jsonl_append (dumps_raw spaced_raw (JObj data)) (tw_file w)\<rparr>, Inr data)
      else (w1, Inl OSError))"

section \<open>Parsing a line\<close>

record trace_record =
  tr_trace_id :: json
  tr_ts :: json
  tr_session :: json
  tr_action_type :: json
  tr_intent :: json
  tr_ok :: json
  tr_err :: json
  tr_state_before :: json
  tr_state_after :: json
  tr_prev_step_hash :: json
  tr_step_hash :: json
  tr_raw_line :: string
  tr_line_number :: nat

definition required_fields :: "string list" where
  "required_fields = [''trace_id'', ''ts'', ''session_id'', ''action_type'', ''ok'', ''step_hash'']"

fun has_fields :: "string list \<Rightarrow> json \<Rightarrow> bool res" where
  "has_fields [] data = Inr True"
| "has_fields (k # ks) data = rbind (py_in (JStr k) data) (\<lambda>b. if b then has_fields ks data else Inr False)"

definition trace_field :: "string \<Rightarrow> json \<Rightarrow> (string \<times> json) list \<Rightarrow> json" where
  "trace_field k dflt d = (case dget k d of None \<Rightarrow> dflt | Some v \<Rightarrow> v)"

definition record_at :: "string \<Rightarrow> nat \<Rightarrow> (string \<times> json) list \<Rightarrow> trace_record" where
  "record_at line n d =
     \<lparr>tr_trace_id = trace_field ''trace_id'' JNull d, tr_ts = trace_field ''ts'' JNull d,
      tr_session = trace_field ''session_id'' JNull d, tr_action_type = trace_field ''action_type'' JNull d,
      tr_intent = trace_field ''intent'' (JStr []) d, tr_ok = trace_field ''ok'' JNull d,
      tr_err = trace_field ''error'' JNull d, tr_state_before = trace_field ''state_before'' JNull d,
      tr_state_after = trace_field ''state_after'' JNull d, tr_prev_step_hash = trace_field ''prev_step_hash'' JNull d,
      tr_step_hash = trace_field ''step_hash'' JNull d, tr_raw_line = line, tr_line_number = n\<rparr>"

text \<open>A list or a text that has all the names is no dict, so that \<^verbatim>\<open>data["trace_id"]\<close> raises.\<close>

definition parse_trace_line :: "string \<Rightarrow> nat \<Rightarrow> trace_record option res" where
  "parse_trace_line line0 n =
     (let line = strip line0 in
      if line = [] then Inr None
      else
        (case loads line of
           None \<Rightarrow> Inr None
         | Some data \<Rightarrow>
             rbind (has_fields required_fields data) (\<lambda>b.
               if \<not> b then Inr None
               else (case data of JObj d \<Rightarrow> Inr (Some (record_at line n d)) | _ \<Rightarrow> Inl TypeError))))"

section \<open>Verifying\<close>

text \<open>\<^verbatim>\<open>compute_step_hash\<close> of the replay prints with the default \<^verbatim>\<open>ensure_ascii\<close>.\<close>

definition replay_step_hash :: "sha \<Rightarrow> (string \<times> json) list \<Rightarrow> string" where
  "replay_step_hash sha d = text_sha sha (dumps_sorted compact_ascii (JObj d))"

datatype record_fault = HashMismatch | HashFailure | NoTraceId | NoSessionId | NoActionType

text \<open>The message of a mismatch takes a slice of the stored hash, if that is not falsy.\<close>

definition trace_sliceable :: "json \<Rightarrow> bool" where
  "trace_sliceable v = (\<not> truthy v \<or> (case v of JStr _ \<Rightarrow> True | JList _ \<Rightarrow> True | _ \<Rightarrow> False))"

definition verify_trace_record :: "sha \<Rightarrow> bool \<Rightarrow> trace_record \<Rightarrow> bool \<times> record_fault option" where
  "verify_trace_record sha strict r =
     (case loads (tr_raw_line r) of
        Some (JObj d) \<Rightarrow>
          (let stored = trace_field ''step_hash'' JNull d in
           if JStr (replay_step_hash sha (ddel ''step_hash'' d)) \<noteq> stored then
             (if \<not> trace_sliceable stored then (False, Some HashFailure) else (\<not> strict, Some HashMismatch))
           else if \<not> truthy (tr_trace_id r) then (False, Some NoTraceId)
           else if \<not> truthy (tr_session r) then (False, Some NoSessionId)
           else if \<not> truthy (tr_action_type r) then (False, Some NoActionType)
           else (True, None))
      | _ \<Rightarrow> (False, Some HashFailure))"

datatype trace_error =
    CorruptLine nat
  | InvalidRecord nat "record_fault option"
  | InvalidWarning nat "record_fault option"
  | FirstHasPrevious nat
  | NoPreviousHash nat
  | BrokenChain nat

fun chain_from :: "nat \<Rightarrow> json \<Rightarrow> trace_record list \<Rightarrow> trace_error list" where
  "chain_from i previous [] = []"
| "chain_from i previous (r # rs) =
     (if i = 0 then
        (if tr_prev_step_hash r \<notin> {JNull, JStr []} then [FirstHasPrevious (tr_line_number r)] else [])
      else if previous = JNull then [NoPreviousHash (tr_line_number r)]
      else if tr_prev_step_hash r \<noteq> previous then [BrokenChain (tr_line_number r)] else [])
     @ chain_from (Suc i) (tr_step_hash r) rs"

definition verify_trace_chain :: "trace_record list \<Rightarrow> trace_error list" where
  "verify_trace_chain rs = chain_from 0 JNull rs"

section \<open>Replaying a session\<close>

text \<open>\<^verbatim>\<open>read_text()\<close> turns every line end into a line feed.\<close>

function universal_newlines :: "string \<Rightarrow> string" where
  "universal_newlines [] = []"
| "universal_newlines (c # cs) =
     (if c = CR then NL # universal_newlines (case cs of [] \<Rightarrow> [] | d # ds \<Rightarrow> if d = NL then ds else cs)
      else c # universal_newlines cs)"
  by pat_completeness auto
termination
  by (relation "measure length") (auto split: list.splits)

record trace_scan =
  rs_records :: "trace_record list"
  rs_errors :: "trace_error list"
  rs_corrupt :: nat
  rs_missing :: nat

definition replay_start :: trace_scan where
  "replay_start = \<lparr>rs_records = [], rs_errors = [], rs_corrupt = 0, rs_missing = 0\<rparr>"

definition replay_line :: "sha \<Rightarrow> string \<Rightarrow> bool \<Rightarrow> nat \<times> string \<Rightarrow> trace_scan \<Rightarrow> trace_scan res" where
  "replay_line sha sid strict nl st =
     rbind (parse_trace_line (snd nl) (fst nl)) (\<lambda>p.
       case p of
         None \<Rightarrow>
           Inr (if strip (snd nl) \<noteq> []
                then st\<lparr>rs_corrupt := Suc (rs_corrupt st), rs_errors := rs_errors st @ [CorruptLine (fst nl)]\<rparr> else st)
       | Some r \<Rightarrow>
           (if tr_session r \<noteq> JStr sid then Inr st
            else
              (let (valid, msg) = verify_trace_record sha strict r in
               Inr (if valid then st\<lparr>rs_records := rs_records st @ [r]\<rparr>
                    else if strict then
                      st\<lparr>rs_corrupt := Suc (rs_corrupt st), rs_errors := rs_errors st @ [InvalidRecord (fst nl) msg]\<rparr>
                    else
                      st\<lparr>rs_missing := Suc (rs_missing st), rs_errors := rs_errors st @ [InvalidWarning (fst nl) msg]\<rparr>))))"

definition scan_trace :: "sha \<Rightarrow> string \<Rightarrow> bool \<Rightarrow> string \<Rightarrow> trace_scan res" where
  "scan_trace sha sid strict text =
     fold_res (replay_line sha sid strict) (enumerate 1 (split_at NL (universal_newlines text))) replay_start"

datatype replay_status = T_OK | T_DIVERGENCE | T_CORRUPT

record replay_report =
  rp_session_id :: string
  rp_total_records :: nat
  rp_verified_records :: int
  rp_corrupt_records :: nat
  rp_missing_hash_records :: nat
  rp_broken_chain_records :: nat
  rp_first_timestamp :: json
  rp_last_timestamp :: json
  rp_status :: replay_status
  rp_errors :: "trace_error list"

text \<open>\<^verbatim>\<open>if limit and len(records) > limit\<close>.\<close>

definition limit_records :: "int option \<Rightarrow> 'a list \<Rightarrow> 'a list" where
  "limit_records limit rs =
     (case limit of None \<Rightarrow> rs | Some n \<Rightarrow> if n \<noteq> 0 \<and> n < int (length rs) then py_take n rs else rs)"

definition replay_report_of :: "string \<Rightarrow> int option \<Rightarrow> trace_scan \<Rightarrow> replay_report" where
  "replay_report_of sid limit st =
     (let records = limit_records limit (rs_records st); chain_errors = verify_trace_chain records; broken = length chain_errors
      in \<lparr>rp_session_id = sid, rp_total_records = length records, rp_verified_records = int (length records) - int broken,
          rp_corrupt_records = rs_corrupt st, rp_missing_hash_records = rs_missing st, rp_broken_chain_records = broken,
          rp_first_timestamp = (if records = [] then JNull else tr_ts (hd records)),
          rp_last_timestamp = (if records = [] then JNull else tr_ts (last records)),
          rp_status = (if 0 < rs_corrupt st then T_CORRUPT else if 0 < broken then T_DIVERGENCE else T_OK),
          rp_errors = rs_errors st @ chain_errors\<rparr>)"

text \<open>A file that is absent raises \<^verbatim>\<open>FileNotFoundError\<close>.\<close>

definition replay_session :: "sha \<Rightarrow> jsonl \<Rightarrow> string \<Rightarrow> bool \<Rightarrow> int option \<Rightarrow> replay_report res" where
  "replay_session sha f sid strict limit =
     (case f of None \<Rightarrow> Inl OSError | Some text \<Rightarrow> rbind (scan_trace sha sid strict text) (\<lambda>st. Inr (replay_report_of sid limit st)))"

end
