(* ===== verification/Trace_Laws.thy ===== *)
theory Trace_Laws
  imports Trace Storage_Laws
begin

text \<open>
  Lemmas on traces: where the two printed forms the writer and the replay hash agree, what a
  line that was written is read back as, and the chain of the records of one session.
\<close>

section \<open>Texts both printers print alike\<close>

definition plain_char :: "char \<Rightarrow> bool" where
  "plain_char c = ((of_char c :: nat) < 127)"

abbreviation plain_text :: "string \<Rightarrow> bool" where
  "plain_text s \<equiv> list_all plain_char s"

fun plain_json :: "json \<Rightarrow> bool" where
  "plain_json (JStr s) = plain_text s"
| "plain_json (JList xs) = list_all plain_json xs"
| "plain_json (JObj d) = list_all (\<lambda>(k, v). plain_text k \<and> plain_json v) d"
| "plain_json _ = True"

lemma esc_char_plain: "plain_char c \<Longrightarrow> esc_char asc c = esc_char True c"
  by (cases asc) (simp_all add: esc_char_def plain_char_def Let_def)

lemma plain_hex_digit: "n < 16 \<Longrightarrow> plain_char (hex_digit n)"
  by (simp add: hex_digit_def plain_char_def of_char_of)

lemma plain_esc_u: "n < 256 \<Longrightarrow> plain_text (esc_u n)"
  using plain_hex_digit [of "n div 16"] plain_hex_digit [of "n mod 16"]
  by (simp add: esc_u_def plain_char_def BS_def)

lemma plain_esc_char: "plain_text (esc_char True c)"
proof -
  have "(of_char c :: nat) < 256" by (rule nat_of_char_less_256)
  then show ?thesis using plain_esc_u [of "of_char c"]
    by (auto simp: esc_char_def Let_def plain_char_def BS_def DQ_def)
qed

lemma esc_char_special: "\<not> plain_char c \<Longrightarrow> esc_char False c = [c]"
proof -
  assume c: "\<not> plain_char c"
  then have "c \<noteq> DQ" "c \<noteq> BS" by (auto simp: plain_char_def DQ_def BS_def)
  with c show ?thesis by (simp add: esc_char_def Let_def plain_char_def)
qed

lemma plain_concat: "plain_text (concat xss) \<longleftrightarrow> (\<forall>xs \<in> set xss. plain_text xs)"
  by (induction xss) auto

lemma plain_quote [simp]: "plain_text (quote asc s) \<longleftrightarrow> asc \<or> plain_text s"
proof -
  have "plain_char DQ" by (simp add: plain_char_def DQ_def)
  moreover have "plain_text (esc_char False c) \<longleftrightarrow> plain_char c" for c
    using esc_char_special [of c] esc_char_plain [of c False] plain_esc_char [of c] by (cases "plain_char c") auto
  ultimately show ?thesis
    using plain_esc_char by (cases asc) (auto simp: quote_def plain_concat list_all_iff)
qed

lemma quote_plain: "plain_text s \<Longrightarrow> quote asc s = quote True s"
  using esc_char_plain [of _ asc] by (auto simp: quote_def list_all_iff intro!: arg_cong [where f = concat])

lemma plain_join: "plain_text sep \<Longrightarrow> plain_text (join sep xs) \<longleftrightarrow> (\<forall>x \<in> set xs. plain_text x)"
  by (induction sep xs rule: join.induct) auto

lemma plain_seps [simp]: "plain_text (isep st)" "plain_text (ksep st)"
  by (simp_all add: isep_def ksep_def plain_char_def)

lemma plain_num: "list_all num_char s \<Longrightarrow> plain_text s"
  by (auto simp: list_all_iff num_char_def is_digit_def plain_char_def)

lemma plain_float: "wf_json (JFloat s) \<Longrightarrow> plain_text s"
  by (auto simp: float_lex_def Let_def nonfinite_def intro: plain_num) (simp_all add: plain_char_def)

text \<open>The printed form has only plain characters exactly if the printer escapes or there are no others.\<close>

lemma plain_dumps: "wf_json j \<Longrightarrow> plain_text (dumps_raw st j) \<longleftrightarrow> ascii st \<or> plain_json j"
proof (induction j)
  case (JInt i)
  show ?case using plain_num [OF show_int_num_char [of i]] by simp
next
  case (JFloat s)
  then show ?case using plain_float [of s] by simp
next
  case (JList xs)
  have "plain_text (dumps_raw st x) \<longleftrightarrow> ascii st \<or> plain_json x" if "x \<in> set xs" for x
    using JList that by (simp add: list_all_iff)
  moreover have "plain_char CHR ''[''" "plain_char CHR '']''" by (simp_all add: plain_char_def)
  ultimately show ?case by (auto simp: plain_join list_all_iff [of plain_json])
next
  case (JObj d)
  let ?pr = "\<lambda>(k, v). quote (ascii st) k @ ksep st @ dumps_raw st v" and ?pl = "\<lambda>(k, v). plain_text k \<and> plain_json v"
  have "plain_text (dumps_raw st v) \<longleftrightarrow> ascii st \<or> plain_json v" if "(k, v) \<in> set d" for k v
  proof (rule JObj.IH [OF that])
    show "wf_json v" using JObj.prems that by (auto simp: list_all_iff [of "\<lambda>(k, v). wf_json v"])
  qed (simp add: snds.simps)
  then have "plain_text (?pr p) \<longleftrightarrow> ascii st \<or> ?pl p" if "p \<in> set d" for p
    using that by (cases p) auto
  then have "(\<forall>p \<in> set d. plain_text (?pr p)) \<longleftrightarrow> ascii st \<or> list_all ?pl d" unfolding list_all_iff [of ?pl] by blast
  moreover have "plain_char CHR ''{''" "plain_char CHR ''}''" by (simp_all add: plain_char_def)
  ultimately show ?case by (simp add: plain_join)
qed (simp_all add: plain_char_def)

lemma compact_isep: "isep compact = isep compact_ascii"
  by (simp add: isep_def compact_def compact_ascii_def)

lemma dumps_plain: "plain_json j \<Longrightarrow> dumps_raw compact j = dumps_raw compact_ascii j"
proof (induction j)
  case (JList xs)
  then have "map (dumps_raw compact) xs = map (dumps_raw compact_ascii) xs" by (auto simp: list_all_iff)
  then show ?case by (simp only: dumps_raw.simps compact_isep)
next
  case (JObj d)
  have "quote False k = quote True k \<and> dumps_raw compact v = dumps_raw compact_ascii v" if kv: "(k, v) \<in> set d" for k v
  proof -
    have "plain_text k \<and> plain_json v" using JObj.prems kv by (auto simp: list_all_iff [of "\<lambda>(k, v). plain_text k \<and> plain_json v"])
    then show ?thesis using JObj.IH [OF kv, of v] quote_plain [of k False] by (simp add: snds.simps)
  qed
  then have "map (\<lambda>(k, v). quote (ascii compact) k @ ksep compact @ dumps_raw compact v) d
    = map (\<lambda>(k, v). quote (ascii compact_ascii) k @ ksep compact_ascii @ dumps_raw compact_ascii v) d"
    by (auto simp: compact_def compact_ascii_def ksep_def)
  then show ?case by (simp only: dumps_raw.simps compact_isep)
qed (simp_all add: compact_def compact_ascii_def quote_plain [of _ False])

lemma plain_norm [simp]: "plain_json (norm j) = plain_json j"
proof (induction j)
  case (JObj d)
  have "plain_json (norm v) = plain_json v" if "(k, v) \<in> set d" for k v
    by (rule JObj.IH [OF that]) (simp add: snds.simps)
  then show ?case by (fastforce simp: list_all_iff)
qed (auto simp: list_all_iff)

text \<open>The canonical forms of the writer and of the replay agree on plain values only.\<close>

lemma canonical_forms:
  assumes "wf_json j"
  shows "dumps_sorted compact j = dumps_sorted compact_ascii j \<longleftrightarrow> plain_json j"
proof -
  have "plain_text (dumps_sorted compact_ascii j)" "plain_text (dumps_sorted compact j) \<longleftrightarrow> plain_json j"
    using assms plain_dumps [of "norm j"] by (simp_all add: dumps_sorted_def compact_def compact_ascii_def)
  moreover have "plain_json j \<Longrightarrow> dumps_sorted compact j = dumps_sorted compact_ascii j"
    using dumps_plain [of "norm j"] by (simp add: dumps_sorted_def)
  ultimately show ?thesis by metis
qed

section \<open>Records that were written\<close>

text \<open>A call, with its time and identifier and the hash its record names.\<close>

type_synonym written = "(datetime \<times> string) \<times> trace_call \<times> string option"

definition trace_body :: "written \<Rightarrow> (string \<times> json) list" where
  "trace_body t = (case t of (st, a, p) \<Rightarrow> ddel ''step_hash'' (trace_data st a p))"

definition written_hash :: "sha \<Rightarrow> written \<Rightarrow> string" where
  "written_hash sha t = text_sha sha (dumps_sorted compact (JObj (trace_body t)))"

definition written_doc :: "sha \<Rightarrow> written \<Rightarrow> (string \<times> json) list" where
  "written_doc sha t = trace_body t @ [(''step_hash'', JStr (written_hash sha t))]"

definition written_line :: "sha \<Rightarrow> written \<Rightarrow> string" where
  "written_line sha t = dumps_raw spaced_raw (JObj (written_doc sha t))"

definition record_of :: "sha \<Rightarrow> nat \<times> written \<Rightarrow> trace_record" where
  "record_of sha nt = record_at (written_line sha (snd nt)) (fst nt) (written_doc sha (snd nt))"

definition session_in :: "written \<Rightarrow> string" where
  "session_in t = session_of (fst (snd t))"

lemma create_written:
  "create_record_dict sha st a p = (written_doc sha (st, a, p), written_hash sha (st, a, p))"
  by (simp add: create_record_dict_def written_doc_def written_hash_def trace_body_def trace_data_def trace_step_hash_def
      trace_canonical_json_def Let_def)

text \<open>The values the caller passes are JSON, and what the replay requires is not empty.\<close>

definition call_ok :: "(datetime \<times> string) \<times> trace_call \<Rightarrow> bool" where
  "call_ok x =
     (snd (fst x) \<noteq> [] \<and> tc_action_type (snd x) \<noteq> [] \<and>
      list_all wf_json [tc_input (snd x), tc_output (snd x), tc_error (snd x), tc_state_before (snd x), tc_state_after (snd x)])"

definition written_ok :: "written \<Rightarrow> bool" where
  "written_ok t = call_ok (fst t, fst (snd t))"

lemma session_nonempty [simp]: "session_of a \<noteq> []"
  by (simp add: session_of_def split: option.splits)

lemma wf_hash_field [simp]: "wf_json (hash_field h)"
  by (simp add: hash_field_def split: option.splits)

lemma wf_written: "written_ok t \<Longrightarrow> wf_json (JObj (trace_body t)) \<and> wf_json (JObj (written_doc sha t))"
  by (cases t) (simp add: written_ok_def call_ok_def written_doc_def trace_body_def trace_data_def)

lemma body_of_doc [simp]: "ddel ''step_hash'' (written_doc sha t) = trace_body t"
  by (cases t) (simp add: written_doc_def trace_body_def trace_data_def)

lemma record_of_fields:
  "tr_session (record_of sha nt) = JStr (session_in (snd nt))"
  "tr_prev_step_hash (record_of sha nt) = hash_field (snd (snd (snd nt)))"
  "tr_step_hash (record_of sha nt) = JStr (written_hash sha (snd nt))"
  "tr_raw_line (record_of sha nt) = written_line sha (snd nt)"
  by (cases "snd nt"; simp add: record_of_def record_at_def written_doc_def trace_body_def trace_data_def trace_field_def session_in_def)+

lemma parse_written:
  assumes "written_ok t"
  shows "parse_trace_line (written_line sha t) n = Inr (Some (record_of sha (n, t)))"
proof -
  let ?d = "written_doc sha t"
  have s: "strip (dumps_raw spaced_raw (JObj ?d)) = dumps_raw spaced_raw (JObj ?d)"
    by (rule strip_id) (simp_all add: is_space_def)
  have l: "loads (dumps_raw spaced_raw (JObj ?d)) = Some (JObj ?d)"
    using wf_written [OF assms] by (simp add: loads_dumps_raw del: dumps_raw.simps)
  have "has_fields required_fields (JObj ?d) = Inr True"
    by (cases t) (simp add: required_fields_def py_in_def written_doc_def trace_body_def trace_data_def)
  moreover have "dumps_raw spaced_raw (JObj ?d) \<noteq> []" by simp
  ultimately show ?thesis
    by (simp add: parse_trace_line_def written_line_def record_of_def Let_def s l del: dumps_raw.simps)
qed

text \<open>The replay hashes the other canonical form.\<close>

definition replay_agrees :: "sha \<Rightarrow> written \<Rightarrow> bool" where
  "replay_agrees sha t = (text_sha sha (dumps_sorted compact_ascii (JObj (trace_body t))) = written_hash sha t)"

lemma verify_written:
  assumes "written_ok t"
  shows "fst (verify_trace_record sha strict (record_of sha (n, t))) \<longleftrightarrow> \<not> strict \<or> replay_agrees sha t"
proof -
  have l: "loads (tr_raw_line (record_of sha (n, t))) = Some (JObj (written_doc sha t))"
    using wf_written [OF assms] by (simp add: record_of_fields written_line_def loads_dumps_raw del: dumps_raw.simps)
  have f: "trace_field ''step_hash'' JNull (written_doc sha t) = JStr (written_hash sha t)"
    "truthy (tr_trace_id (record_of sha (n, t)))" "truthy (tr_session (record_of sha (n, t)))"
    "truthy (tr_action_type (record_of sha (n, t)))"
    using assms by (cases t; simp add: record_of_def record_at_def written_doc_def trace_body_def trace_data_def trace_field_def
        written_ok_def call_ok_def)+
  show ?thesis
    unfolding verify_trace_record_def l by (simp add: f replay_step_hash_def replay_agrees_def trace_sliceable_def Let_def)
qed

lemma agrees_plain:
  assumes "written_ok t" and "inj_on (text_sha sha) M"
    and "dumps_sorted compact (JObj (trace_body t)) \<in> M" and "dumps_sorted compact_ascii (JObj (trace_body t)) \<in> M"
  shows "replay_agrees sha t \<longleftrightarrow> plain_json (JObj (trace_body t))"
proof -
  have "replay_agrees sha t \<longleftrightarrow> dumps_sorted compact (JObj (trace_body t)) = dumps_sorted compact_ascii (JObj (trace_body t))"
    unfolding replay_agrees_def written_hash_def using inj_on_eq_iff [OF assms(2,4,3)] by (simp only: eq_commute)
  then show ?thesis using canonical_forms wf_written [OF assms(1)] by simp
qed

section \<open>The file of a run\<close>

text \<open>What a run of calls on a writer writes, each record naming the hash of the one before.\<close>

fun written_by :: "sha \<Rightarrow> string option \<Rightarrow> ((datetime \<times> string) \<times> trace_call) list \<Rightarrow> written list" where
  "written_by sha p [] = []"
| "written_by sha p ((st, a) # xs) = (st, a, p) # written_by sha (Some (written_hash sha (st, a, p))) xs"

definition run_trace :: "sha \<Rightarrow> (datetime \<times> string) \<times> trace_call \<Rightarrow> trace_writer \<Rightarrow> trace_writer" where
  "run_trace sha x w = fst (trace_write sha True (fst x) (snd x) w)"

lemma run_trace_file:
  "tw_file (run_trace sha (st, a) w) = jsonl_append (written_line sha (st, a, tw_last_step_hash w)) (tw_file w)"
  "tw_last_step_hash (run_trace sha (st, a) w) = Some (written_hash sha (st, a, tw_last_step_hash w))"
  by (simp_all add: run_trace_def trace_write_def create_written Let_def written_line_def del: dumps_raw.simps)

lemma run_traces_file:
  "file_text (tw_file (fold (run_trace sha) xs w))
   = file_text (tw_file w) @ unlines (map (written_line sha) (written_by sha (tw_last_step_hash w) xs))"
proof (induction xs arbitrary: w)
  case (Cons x xs)
  then show ?case by (cases x) (simp add: run_trace_file jsonl_append_def file_text_def [of "Some _"] unlines_def)
qed simp

lemma run_traces_present: "xs \<noteq> [] \<Longrightarrow> tw_file (fold (run_trace sha) xs w) \<noteq> None"
proof (induction xs rule: rev_induct)
  case (snoc x xs)
  then show ?case by (cases x) (simp add: run_trace_file jsonl_append_def)
qed simp

lemma fst_written_by [simp]: "map (\<lambda>t. (fst t, fst (snd t))) (written_by sha p xs) = xs"
  by (induction sha p xs rule: written_by.induct) auto

lemma length_written_by [simp]: "length (written_by sha p xs) = length xs"
  by (induction sha p xs rule: written_by.induct) auto

lemma written_by_ok: "\<forall>x \<in> set xs. call_ok x \<Longrightarrow> \<forall>t \<in> set (written_by sha p xs). written_ok t"
  by (induction sha p xs rule: written_by.induct) (auto simp: written_ok_def)

lemma sessions_written_by: "map session_in (written_by sha p xs) = map (\<lambda>x. session_of (snd x)) xs"
  by (induction sha p xs rule: written_by.induct) (auto simp: session_in_def)

lemma universal_newlines_plain: "CR \<notin> set s \<Longrightarrow> universal_newlines s = s"
  by (induction s) auto

lemma split_unlines: "\<forall>l \<in> set ls. NL \<notin> set l \<Longrightarrow> split_at NL (unlines ls) = ls @ [[]]"
  by (induction ls) (simp_all add: unlines_def split_at_append split_at_free)

lemma lines_written:
  assumes "\<forall>t \<in> set ts. written_ok t"
  shows "split_at NL (universal_newlines (unlines (map (written_line sha) ts))) = map (written_line sha) ts @ [[]]"
proof -
  have "clean_line (written_line sha t)" if "t \<in> set ts" for t
    unfolding written_line_def by (rule clean_dumps) (use wf_written assms that in blast)
  then have c: "CR \<notin> set (written_line sha t)" "NL \<notin> set (written_line sha t)" if "t \<in> set ts" for t
    using that by (auto simp: clean_line_def)
  have "CR \<notin> set (unlines (map (written_line sha) ts))" using c(1) by (auto simp: unlines_def char_defs)
  then show ?thesis using c(2) by (simp add: universal_newlines_plain split_unlines)
qed

section \<open>Scanning\<close>

definition kept_in :: "sha \<Rightarrow> string \<Rightarrow> bool \<Rightarrow> written \<Rightarrow> bool" where
  "kept_in sha sid strict t = (session_in t = sid \<and> (\<not> strict \<or> replay_agrees sha t))"

definition lost_in :: "sha \<Rightarrow> string \<Rightarrow> bool \<Rightarrow> written \<Rightarrow> bool" where
  "lost_in sha sid strict t = (session_in t = sid \<and> strict \<and> \<not> replay_agrees sha t)"

definition session_records :: "sha \<Rightarrow> string \<Rightarrow> bool \<Rightarrow> nat \<Rightarrow> written list \<Rightarrow> trace_record list" where
  "session_records sha sid strict n ts = map (record_of sha) (filter (\<lambda>nt. kept_in sha sid strict (snd nt)) (enumerate n ts))"

lemma replay_line_written:
  assumes "written_ok t"
  shows "\<exists>st'. replay_line sha sid strict (n, written_line sha t) st = Inr st' \<and>
    rs_records st' = rs_records st @ session_records sha sid strict n [t] \<and>
    rs_corrupt st' = rs_corrupt st + length (filter (lost_in sha sid strict) [t]) \<and> rs_missing st' = rs_missing st \<and>
    (\<not> lost_in sha sid strict t \<longrightarrow> rs_errors st' = rs_errors st)"
proof -
  obtain v msg where v: "verify_trace_record sha strict (record_of sha (n, t)) = (v, msg)" by fastforce
  then have "v \<longleftrightarrow> \<not> strict \<or> replay_agrees sha t" using verify_written [OF assms, of sha strict n] by simp
  then show ?thesis
    by (auto simp: replay_line_def parse_written [OF assms] record_of_fields v session_records_def kept_in_def lost_in_def)
qed

lemma scan_written:
  assumes "\<forall>t \<in> set ts. written_ok t"
  shows "\<exists>st'. fold_res (replay_line sha sid strict) (enumerate n (map (written_line sha) ts)) st = Inr st' \<and>
    rs_records st' = rs_records st @ session_records sha sid strict n ts \<and>
    rs_corrupt st' = rs_corrupt st + length (filter (lost_in sha sid strict) ts) \<and> rs_missing st' = rs_missing st \<and>
    ((\<forall>t \<in> set ts. \<not> lost_in sha sid strict t) \<longrightarrow> rs_errors st' = rs_errors st)"
  using assms
proof (induction ts arbitrary: n st)
  case Nil
  then show ?case by (simp add: session_records_def)
next
  case (Cons t ts)
  obtain st1 where s1: "replay_line sha sid strict (n, written_line sha t) st = Inr st1"
    "rs_records st1 = rs_records st @ session_records sha sid strict n [t]"
    "rs_corrupt st1 = rs_corrupt st + length (filter (lost_in sha sid strict) [t])" "rs_missing st1 = rs_missing st"
    "\<not> lost_in sha sid strict t \<longrightarrow> rs_errors st1 = rs_errors st"
    using replay_line_written [of t sha sid strict n st] Cons.prems by auto
  have r: "session_records sha sid strict n (t # ts) = session_records sha sid strict n [t] @ session_records sha sid strict (Suc n) ts"
    by (simp add: session_records_def)
  obtain st2 where "fold_res (replay_line sha sid strict) (enumerate (Suc n) (map (written_line sha) ts)) st1 = Inr st2"
    "rs_records st2 = rs_records st1 @ session_records sha sid strict (Suc n) ts"
    "rs_corrupt st2 = rs_corrupt st1 + length (filter (lost_in sha sid strict) ts)" "rs_missing st2 = rs_missing st1"
    "(\<forall>t \<in> set ts. \<not> lost_in sha sid strict t) \<longrightarrow> rs_errors st2 = rs_errors st1"
    using Cons.IH [of "Suc n" st1] Cons.prems by auto
  with s1 r show ?case by (intro exI [where x = st2]) auto
qed

lemma scan_trace_written:
  assumes "\<forall>t \<in> set ts. written_ok t"
  shows "\<exists>st. scan_trace sha sid strict (unlines (map (written_line sha) ts)) = Inr st \<and>
    rs_records st = session_records sha sid strict 1 ts \<and>
    rs_corrupt st = length (filter (lost_in sha sid strict) ts) \<and> rs_missing st = 0 \<and>
    ((\<forall>t \<in> set ts. \<not> lost_in sha sid strict t) \<longrightarrow> rs_errors st = [])"
proof -
  have "replay_line sha sid strict (n, []) st = Inr st" for n st
    by (simp add: replay_line_def parse_trace_line_def)
  then show ?thesis
    using scan_written [OF assms, of sha sid strict 1 replay_start]
    by (auto simp: scan_trace_def lines_written [OF assms] enumerate_append_eq fold_res_append replay_start_def)
qed

section \<open>The chain of one session\<close>

text \<open>How often the session is taken up again after a record of another one; \<open>p\<close> is the session before.\<close>

fun resumed_after :: "string \<Rightarrow> string \<Rightarrow> string list \<Rightarrow> nat" where
  "resumed_after sid p [] = 0"
| "resumed_after sid p (s # ss) = (if s = sid \<and> p \<noteq> sid then 1 else 0) + resumed_after sid s ss"

definition resumptions :: "string \<Rightarrow> string list \<Rightarrow> nat" where
  "resumptions sid ss = (case ss of [] \<Rightarrow> 0 | s # ss' \<Rightarrow> resumed_after sid s ss')"

lemma session_records_Cons:
  "session_records sha sid strict n (t # ts) =
     (if kept_in sha sid strict t then [record_of sha (n, t)] else []) @ session_records sha sid strict (Suc n) ts"
  by (simp add: session_records_def)

lemma length_session_records: "length (session_records sha sid strict n ts) = length (filter (kept_in sha sid strict) ts)"
  by (induction ts arbitrary: n) (simp_all add: session_records_def)

lemma length_sessions:
  "length (filter (\<lambda>t. session_in t = sid) (written_by sha p xs)) = length (filter (\<lambda>x. session_of (snd x) = sid) xs)"
  by (induction sha p xs rule: written_by.induct) (simp_all add: session_in_def)

text \<open>
  Once a record was kept, the next one fits exactly if its session was the last one written:
  \<open>q\<close> is the hash of the record kept last, \<open>h\<close> that of the one written last.
\<close>

lemma chain_resumed:
  assumes "distinct (map (written_hash sha) (written_by sha (Some h) xs))" and "q \<notin> written_hash sha ` set (written_by sha (Some h) xs)"
    and "p = sid \<longleftrightarrow> q = h" and "0 < i" and "\<forall>t \<in> set (written_by sha (Some h) xs). \<not> lost_in sha sid strict t"
  shows "length (chain_from i (JStr q) (session_records sha sid strict n (written_by sha (Some h) xs)))
    = resumed_after sid p (map (\<lambda>x. session_of (snd x)) xs)"
  using assms
proof (induction xs arbitrary: h q p i n)
  case Nil
  then show ?case by (simp add: session_records_def)
next
  case (Cons x xs)
  obtain st a where x: "x = (st, a)" by (cases x)
  let ?t = "(st, a, Some h)" and ?h = "written_hash sha (st, a, Some h)"
  have d: "distinct (map (written_hash sha) (written_by sha (Some ?h) xs))"
    "?h \<notin> written_hash sha ` set (written_by sha (Some ?h) xs)" "q \<noteq> ?h" "q \<notin> written_hash sha ` set (written_by sha (Some ?h) xs)"
    "\<forall>t \<in> set (written_by sha (Some ?h) xs). \<not> lost_in sha sid strict t" "\<not> lost_in sha sid strict ?t"
    using Cons.prems(1,2,5) x by auto
  show ?case
  proof (cases "session_of a = sid")
    case True
    then have "kept_in sha sid strict ?t" using d(6) by (simp add: kept_in_def lost_in_def session_in_def)
    then show ?thesis
      using True Cons.IH [OF d(1) d(2), of sid "Suc i" "Suc n"] d(5) Cons.prems(3,4) x
      by (auto simp: session_records_Cons record_of_fields hash_field_def)
  next
    case False
    then have "\<not> kept_in sha sid strict ?t" by (simp add: kept_in_def session_in_def)
    then show ?thesis
      using False Cons.IH [OF d(1) d(4), of "session_of a" i "Suc n"] d(3,5) Cons.prems(4) x
      by (auto simp: session_records_Cons)
  qed
qed

text \<open>Before a record was kept, the first one has to name no predecessor.\<close>

lemma chain_begun:
  assumes "distinct (map (written_hash sha) (written_by sha (Some h) xs))" and "h \<noteq> []" and "p \<noteq> sid"
    and "\<forall>t \<in> set (written_by sha (Some h) xs). written_hash sha t \<noteq> [] \<and> \<not> lost_in sha sid strict t"
  shows "length (chain_from 0 JNull (session_records sha sid strict n (written_by sha (Some h) xs)))
    = resumed_after sid p (map (\<lambda>x. session_of (snd x)) xs)"
  using assms
proof (induction xs arbitrary: h p n)
  case Nil
  then show ?case by (simp add: session_records_def)
next
  case (Cons x xs)
  obtain st a where x: "x = (st, a)" by (cases x)
  let ?t = "(st, a, Some h)" and ?h = "written_hash sha (st, a, Some h)"
  have d: "distinct (map (written_hash sha) (written_by sha (Some ?h) xs))"
    "?h \<notin> written_hash sha ` set (written_by sha (Some ?h) xs)" "?h \<noteq> []"
    "\<forall>t \<in> set (written_by sha (Some ?h) xs). written_hash sha t \<noteq> [] \<and> \<not> lost_in sha sid strict t" "\<not> lost_in sha sid strict ?t"
    using Cons.prems(1,4) x by auto
  show ?case
  proof (cases "session_of a = sid")
    case True
    then have "kept_in sha sid strict ?t" using d(5) by (simp add: kept_in_def lost_in_def session_in_def)
    then show ?thesis
      using True chain_resumed [OF d(1) d(2), of sid sid "Suc 0" strict "Suc n"] d(4) Cons.prems(2,3) x
      by (auto simp: session_records_Cons record_of_fields hash_field_def)
  next
    case False
    then have "\<not> kept_in sha sid strict ?t" by (simp add: kept_in_def session_in_def)
    then show ?thesis using False Cons.IH [OF d(1) d(3), of "session_of a" "Suc n"] d(4) x by (auto simp: session_records_Cons)
  qed
qed

lemma chain_resumptions:
  assumes "distinct (map (written_hash sha) (written_by sha None xs))"
    and "\<forall>t \<in> set (written_by sha None xs). written_hash sha t \<noteq> [] \<and> \<not> lost_in sha sid strict t"
  shows "length (verify_trace_chain (session_records sha sid strict n (written_by sha None xs)))
    = resumptions sid (map (\<lambda>x. session_of (snd x)) xs)"
proof (cases xs)
  case Nil
  then show ?thesis by (simp add: session_records_def verify_trace_chain_def resumptions_def)
next
  case (Cons x ys)
  obtain st a where x: "x = (st, a)" by (cases x)
  let ?t = "(st, a, None)" and ?h = "written_hash sha (st, a, None)"
  have d: "distinct (map (written_hash sha) (written_by sha (Some ?h) ys))"
    "?h \<notin> written_hash sha ` set (written_by sha (Some ?h) ys)" "?h \<noteq> []"
    "\<forall>t \<in> set (written_by sha (Some ?h) ys). written_hash sha t \<noteq> [] \<and> \<not> lost_in sha sid strict t" "\<not> lost_in sha sid strict ?t"
    using assms Cons x by auto
  show ?thesis
  proof (cases "session_of a = sid")
    case True
    then have "kept_in sha sid strict ?t" using d(5) by (simp add: kept_in_def lost_in_def session_in_def)
    then show ?thesis
      using True chain_resumed [OF d(1) d(2), of sid sid "Suc 0" strict "Suc n"] d(4) Cons x
      by (auto simp: session_records_Cons record_of_fields hash_field_def verify_trace_chain_def resumptions_def)
  next
    case False
    then have "\<not> kept_in sha sid strict ?t" by (simp add: kept_in_def session_in_def)
    then show ?thesis
      using False chain_begun [OF d(1,3), of "session_of a" sid strict "Suc n"] d(4) Cons x
      by (auto simp: session_records_Cons verify_trace_chain_def resumptions_def)
  qed
qed

section \<open>Records that pass the strict replay\<close>

definition trace_doc :: "trace_record \<Rightarrow> (string \<times> json) list" where
  "trace_doc r = (case loads (tr_raw_line r) of Some (JObj d) \<Rightarrow> d | _ \<Rightarrow> [])"

text \<open>Everything a record says, its own hash apart, as JSON compares it.\<close>

definition trace_core :: "trace_record \<Rightarrow> json" where
  "trace_core r = norm (JObj (ddel ''step_hash'' (trace_doc r)))"

definition trace_message :: "trace_record \<Rightarrow> string" where
  "trace_message r = dumps_sorted compact_ascii (JObj (ddel ''step_hash'' (trace_doc r)))"

definition hash_checked :: "sha \<Rightarrow> trace_record \<Rightarrow> bool" where
  "hash_checked sha r =
     ((\<exists>n. r = record_at (tr_raw_line r) n (trace_doc r)) \<and>
      tr_step_hash r = JStr (text_sha sha (trace_message r)))"

definition named_previous :: "trace_record \<Rightarrow> json" where
  "named_previous r = norm (trace_field ''prev_step_hash'' JNull (trace_doc r))"

lemma set_ddel: "set (ddel k d) \<subseteq> set d"
  by (induction k d rule: ddel.induct) (auto split: if_splits)

lemma distinct_ddel: "distinct (map fst d) \<Longrightarrow> distinct (map fst (ddel k d))"
proof (induction k d rule: ddel.induct)
  case (2 k k' v' d)
  have "fst ` set (ddel k d) \<subseteq> fst ` set d" by (rule image_mono [OF set_ddel])
  then show ?case using 2 by auto
qed simp

lemma wf_ddel: "wf_json (JObj d) \<Longrightarrow> wf_json (JObj (ddel k d))"
  using set_ddel [of k d] distinct_ddel [of d k] by (auto simp: list_all_iff)

lemma wf_trace_doc: "wf_json (JObj (trace_doc r))"
  unfolding trace_doc_def by (auto split: option.splits json.splits dest: loads_wf simp del: wf_json.simps(3)) (simp_all add: loads_wf)

lemma named_in_core: "jget ''prev_step_hash'' JNull (trace_core r) = Inr (named_previous r)"
proof -
  have "distinct (map fst (ddel ''step_hash'' (trace_doc r)))" using wf_trace_doc by (intro distinct_ddel) simp
  from jget_norm [OF this, of "''prev_step_hash''" JNull] show ?thesis
    by (simp add: trace_core_def named_previous_def trace_field_def del: norm.simps(2) split: option.splits)
qed

interpretation trace: hash_chain
  named_previous tr_step_hash trace_core "\<lambda>r. hash_checked sha r \<and> trace_message r \<in> M \<and> inj_on (text_sha sha) M"
  for sha :: sha and M :: "string set"
proof
  fix a b
  assume a: "hash_checked sha a \<and> trace_message a \<in> M \<and> inj_on (text_sha sha) M"
    and b: "hash_checked sha b \<and> trace_message b \<in> M \<and> inj_on (text_sha sha) M"
    and eq: "tr_step_hash a = tr_step_hash b"
  then have "trace_message a = trace_message b" by (auto simp: hash_checked_def inj_on_eq_iff)
  then show "trace_core a = trace_core b"
    by (simp only: trace_message_def trace_core_def dumps_sorted_inj [OF wf_ddel wf_ddel, OF wf_trace_doc wf_trace_doc])
next
  fix a b
  assume "trace_core a = trace_core b"
  then show "named_previous a = named_previous b" using named_in_core [of a] named_in_core [of b] by simp
qed

lemma linked_nth: "linked p d xs \<Longrightarrow> Suc i < length xs \<Longrightarrow> p (xs ! Suc i) = d (xs ! i)"
proof (induction p d xs arbitrary: i rule: linked.induct)
  case (1 p d a b xs)
  then show ?case by (cases i) auto
qed auto

text \<open>What the strict replay keeps has a hash that was checked, and its fields are those of the line.\<close>

lemma parsed_record:
  assumes "parse_trace_line l n = Inr (Some r)"
  shows "r = record_at (tr_raw_line r) n (trace_doc r)"
proof -
  obtain d where "loads (strip l) = Some (JObj d)" "r = record_at (strip l) n d"
    using assms by (auto simp: parse_trace_line_def Let_def split: if_splits option.splits json.splits)
  then show ?thesis by (simp add: trace_doc_def record_at_def)
qed

lemma strict_checked:
  assumes "parse_trace_line l n = Inr (Some r)" and "fst (verify_trace_record sha True r)"
  shows "hash_checked sha r"
proof -
  have r: "r = record_at (tr_raw_line r) n (trace_doc r)" by (rule parsed_record [OF assms(1)])
  obtain d where d: "loads (tr_raw_line r) = Some (JObj d)"
    using assms(2) by (auto simp: verify_trace_record_def split: option.splits json.splits)
  then have "trace_field ''step_hash'' JNull d = JStr (replay_step_hash sha (ddel ''step_hash'' d))"
    using assms(2) by (auto simp: verify_trace_record_def Let_def split: if_splits)
  moreover have "tr_step_hash r = trace_field ''step_hash'' JNull (trace_doc r)"
    using arg_cong [OF r, of tr_step_hash] by (simp add: record_at_def)
  ultimately show ?thesis using r d by (auto simp: hash_checked_def trace_message_def replay_step_hash_def trace_doc_def)
qed

lemma replay_line_checked:
  assumes "replay_line sha sid True nl st = Inr st'" and "\<forall>r \<in> set (rs_records st). hash_checked sha r"
  shows "\<forall>r \<in> set (rs_records st'). hash_checked sha r"
  using assms strict_checked [of "snd nl" "fst nl" _ sha]
  unfolding replay_line_def by (elim rbind_InrE) (auto split: option.splits if_splits prod.splits)

lemma scan_checked:
  assumes "scan_trace sha sid True text = Inr st"
  shows "\<forall>r \<in> set (rs_records st). hash_checked sha r"
proof -
  have "fold_res (replay_line sha sid True) ls st0 = Inr st \<Longrightarrow> \<forall>r \<in> set (rs_records st0). hash_checked sha r \<Longrightarrow>
    \<forall>r \<in> set (rs_records st). hash_checked sha r" for ls st0
  proof (induction ls arbitrary: st0)
    case (Cons l ls)
    then obtain st1 where "replay_line sha sid True l st0 = Inr st1" "fold_res (replay_line sha sid True) ls st1 = Inr st"
      by auto
    then show ?case using replay_line_checked Cons by blast
  qed simp
  then show ?thesis using assms unfolding scan_trace_def by (simp add: replay_start_def)
qed

lemma checked_previous: "hash_checked sha r \<Longrightarrow> named_previous r = norm (tr_prev_step_hash r)"
proof -
  assume "hash_checked sha r"
  then obtain n where r: "r = record_at (tr_raw_line r) n (trace_doc r)" by (auto simp: hash_checked_def)
  have "tr_prev_step_hash r = trace_field ''prev_step_hash'' JNull (trace_doc r)"
    using arg_cong [OF r, of tr_prev_step_hash] by (simp add: record_at_def)
  then show ?thesis by (simp add: named_previous_def)
qed

lemma chain_linked:
  assumes "chain_from i p rs = []" and "\<forall>r \<in> set rs. hash_checked sha r"
  shows "linked named_previous tr_step_hash rs"
  using assms
proof (induction i p rs rule: chain_from.induct)
  case (2 i p r rs)
  show ?case
  proof (cases rs)
    case (Cons x xs)
    obtain h where "tr_step_hash r = JStr h" using 2(3) by (auto simp: hash_checked_def)
    moreover have "tr_prev_step_hash x = tr_step_hash r" using 2(2) Cons by (auto split: if_splits)
    ultimately have "named_previous x = tr_step_hash r" using checked_previous 2(3) Cons by auto
    then show ?thesis using 2 Cons by auto
  qed simp
qed simp

end
