(* ===== verification/Trace_Props.thy ===== *)
theory Trace_Props
  imports Trace_Laws Samples
begin

text \<open>
  Properties of traces: the verdict of the replay on what one writer wrote, and that two
  traces that pass the strict replay with the same last hash are the same.
\<close>

section \<open>The verdict on a run\<close>

text \<open>Digests are non-empty texts of plain characters (hexadecimal digits).\<close>

definition digest_texts :: "sha \<Rightarrow> bool" where
  "digest_texts sha = (\<forall>m. sha m \<noteq> [] \<and> plain_text (sha m))"

definition plain_call :: "(datetime \<times> string) \<times> trace_call \<Rightarrow> bool" where
  "plain_call x = plain_json (JObj (trace_body (fst x, snd x, None)))"

definition trace_messages :: "sha \<Rightarrow> ((datetime \<times> string) \<times> trace_call) list \<Rightarrow> string set" where
  "trace_messages sha xs =
     (\<Union>t \<in> set (written_by sha None xs). {dumps_sorted compact (JObj (trace_body t)), dumps_sorted compact_ascii (JObj (trace_body t))})"

lemma plain_written:
  "plain_json (JObj (trace_body (st, a, p))) \<longleftrightarrow> plain_call (st, a) \<and> plain_json (hash_field p)"
  by (auto simp: trace_body_def trace_data_def plain_call_def hash_field_def)

lemma plain_written_by:
  "digest_texts sha \<Longrightarrow> plain_json (hash_field p) \<Longrightarrow> t \<in> set (written_by sha p xs) \<Longrightarrow>
    plain_json (JObj (trace_body t)) \<longleftrightarrow> plain_call (fst t, fst (snd t))"
proof (induction sha p xs rule: written_by.induct)
  case (2 sha p st a xs)
  have h: "plain_json (hash_field (Some (written_hash sha (st, a, p))))"
    using 2(2) by (simp add: digest_texts_def hash_field_def written_hash_def text_sha_def)
  consider "t = (st, a, p)" | "t \<in> set (written_by sha (Some (written_hash sha (st, a, p))) xs)" using 2(4) by auto
  then show ?case
  proof cases
    case 1
    then show ?thesis using 2(3) plain_written [of st a p] by (simp del: plain_json.simps)
  next
    case 2
    then show ?thesis by (rule "2.IH" [OF \<open>digest_texts sha\<close> h])
  qed
qed simp

lemma same_hash_same_id:
  assumes "written_ok t" and "written_ok t'" and "inj_on (text_sha sha) M" and "written_hash sha t = written_hash sha t'"
    and "dumps_sorted compact (JObj (trace_body t)) \<in> M" and "dumps_sorted compact (JObj (trace_body t')) \<in> M"
  shows "snd (fst t) = snd (fst t')"
proof -
  have "dumps_sorted compact (JObj (trace_body t)) = dumps_sorted compact (JObj (trace_body t'))"
    using inj_on_eq_iff [OF assms(3,5,6)] assms(4) unfolding written_hash_def by (rule iffD1)
  then have n: "norm (JObj (trace_body t)) = norm (JObj (trace_body t'))"
    using dumps_sorted_inj [of "JObj (trace_body t)" "JObj (trace_body t')"] wf_written assms(1,2) by blast
  have id: "jget ''trace_id'' JNull (norm (JObj (trace_body t))) = Inr (JStr (snd (fst t)))" for t
  proof -
    have "distinct (map fst (trace_body t))" "dget ''trace_id'' (trace_body t) = Some (JStr (snd (fst t)))"
      by (cases t; simp add: trace_body_def trace_data_def)+
    from jget_norm [OF this(1)] this(2) show ?thesis by (simp del: norm.simps(2))
  qed
  have "Inr (JStr (snd (fst t))) = (Inr (JStr (snd (fst t'))) :: json res)" using id [of t] id [of t'] unfolding n by (rule trans [OF sym])
  then show ?thesis by simp
qed

lemma distinct_through:
  assumes "distinct (map g ts)" and "\<And>t t'. t \<in> set ts \<Longrightarrow> t' \<in> set ts \<Longrightarrow> f t = f t' \<Longrightarrow> g t = g t'"
  shows "distinct (map f ts)"
proof -
  have g: "distinct ts" "inj_on g (set ts)" using assms(1) by (simp_all add: distinct_map)
  have "inj_on f (set ts)"
  proof (rule inj_onI)
    fix t t'
    assume t: "t \<in> set ts" "t' \<in> set ts" "f t = f t'"
    show "t = t'" by (rule inj_onD [OF g(2) assms(2) [OF t] t(1,2)])
  qed
  then show ?thesis using g(1) by (simp add: distinct_map)
qed

text \<open>A session with a special character in one of its calls; how often it was resumed.\<close>

definition special_in :: "string \<Rightarrow> ((datetime \<times> string) \<times> trace_call) list \<Rightarrow> bool" where
  "special_in sid xs = (\<exists>x \<in> set xs. session_of (snd x) = sid \<and> \<not> plain_call x)"

definition resumed_in :: "string \<Rightarrow> ((datetime \<times> string) \<times> trace_call) list \<Rightarrow> nat" where
  "resumed_in sid xs = resumptions sid (map (\<lambda>x. session_of (snd x)) xs)"

definition calls_of :: "string \<Rightarrow> ((datetime \<times> string) \<times> trace_call) list \<Rightarrow> nat" where
  "calls_of sid xs = length (filter (\<lambda>x. session_of (snd x) = sid) xs)"

lemma in_trace_messages:
  assumes "t \<in> set (written_by sha None xs)"
  shows "dumps_sorted compact (JObj (trace_body t)) \<in> trace_messages sha xs"
    and "dumps_sorted compact_ascii (JObj (trace_body t)) \<in> trace_messages sha xs"
  using assms by (auto simp: trace_messages_def)

text \<open>What the strict replay loses are the special records of the session.\<close>

lemma lost_special:
  assumes "\<forall>x \<in> set xs. call_ok x" and "digest_texts sha" and "inj_on (text_sha sha) (trace_messages sha xs)"
  shows "(\<exists>t \<in> set (written_by sha None xs). lost_in sha sid strict t) \<longleftrightarrow> strict \<and> special_in sid xs"
proof -
  let ?ts = "written_by sha None xs"
  have "replay_agrees sha t \<longleftrightarrow> plain_call (fst t, fst (snd t))" if t: "t \<in> set ?ts" for t
    using agrees_plain [OF _ assms(3) in_trace_messages, OF _ t t] written_by_ok [OF assms(1)] t plain_written_by [OF assms(2) _ t]
    by (simp add: hash_field_def)
  moreover have "special_in sid xs \<longleftrightarrow> (\<exists>t \<in> set ?ts. session_in t = sid \<and> \<not> plain_call (fst t, fst (snd t)))"
  proof -
    have calls: "set xs = (\<lambda>t. (fst t, fst (snd t))) ` set ?ts"
      using arg_cong [OF fst_written_by [of sha None xs], of set] by (simp only: set_map)
    show ?thesis unfolding special_in_def calls by (simp add: session_in_def)
  qed
  ultimately show ?thesis by (auto simp: lost_in_def)
qed

lemma distinct_hashes:
  assumes "\<forall>x \<in> set xs. call_ok x" and "distinct (map (\<lambda>x. snd (fst x)) xs)" and "inj_on (text_sha sha) (trace_messages sha xs)"
  shows "distinct (map (written_hash sha) (written_by sha None xs))"
proof (rule distinct_through)
  show "distinct (map (\<lambda>t. snd (fst t)) (written_by sha None xs))"
    using assms(2) arg_cong [OF fst_written_by [of sha None xs], of "map (\<lambda>x. snd (fst x))"]
    unfolding map_map comp_def fst_conv by (simp only:)
  fix t t'
  assume t: "t \<in> set (written_by sha None xs)" "t' \<in> set (written_by sha None xs)" "written_hash sha t = written_hash sha t'"
  show "snd (fst t) = snd (fst t')"
    by (rule same_hash_same_id [OF _ _ assms(3) t(3) in_trace_messages(1) in_trace_messages(1), OF _ _ t(1,2)])
      (use written_by_ok [OF assms(1)] t in auto)
qed

text \<open>
  C36: the verdict of the replay on a log that one writer wrote. In strict mode a session with a
  character outside printable ASCII anywhere in its calls is reported corrupt; otherwise the
  session is diverged exactly if it was resumed after a record of another session, once for
  each resumption, and fine if it was not; all its records are counted. SHA-256 is taken to
  give plain non-empty digests and not to collide on the texts of this run.
\<close>

theorem replay_verdict:
  assumes ne: "xs \<noteq> []" and ok: "\<forall>x \<in> set xs. call_ok x" and ids: "distinct (map (\<lambda>x. snd (fst x)) xs)"
    and sha: "digest_texts sha" "inj_on (text_sha sha) (trace_messages sha xs)"
  shows "\<exists>r. replay_session sha (tw_file (fold (run_trace sha) xs (open_writer None))) sid strict None = Inr r \<and>
    rp_status r = (if strict \<and> special_in sid xs then T_CORRUPT else if 0 < resumed_in sid xs then T_DIVERGENCE else T_OK) \<and>
    (strict \<and> special_in sid xs \<or>
      rp_total_records r = calls_of sid xs \<and> rp_broken_chain_records r = resumed_in sid xs \<and>
      (rp_errors r = [] \<longleftrightarrow> resumed_in sid xs = 0))"
proof -
  let ?ts = "written_by sha None xs" and ?w = "fold (run_trace sha) xs (open_writer None)"
  have wok: "\<forall>t \<in> set ?ts. written_ok t" by (rule written_by_ok [OF ok])
  have "file_text (tw_file ?w) = unlines (map (written_line sha) ?ts)"
    using run_traces_file [of sha xs "open_writer None"] by (simp add: open_writer_def file_text_def [of None])
  then have content: "tw_file ?w = Some (unlines (map (written_line sha) ?ts))"
    using run_traces_present [OF ne, of sha "open_writer None"] by (cases "tw_file ?w") (auto simp: file_text_def)
  obtain st where st: "scan_trace sha sid strict (unlines (map (written_line sha) ?ts)) = Inr st"
    "rs_records st = session_records sha sid strict 1 ?ts" "rs_corrupt st = length (filter (lost_in sha sid strict) ?ts)"
    "(\<forall>t \<in> set ?ts. \<not> lost_in sha sid strict t) \<longrightarrow> rs_errors st = []"
    using scan_trace_written [OF wok] by blast
  note lost = lost_special [OF ok sha, of sid strict]
  have corrupt: "0 < rs_corrupt st \<longleftrightarrow> strict \<and> special_in sid xs" unfolding st(3) lost [symmetric] by (simp add: filter_empty_conv)
  have counts: "rs_errors st = []" "length (rs_records st) = calls_of sid xs" "length (verify_trace_chain (rs_records st)) = resumed_in sid xs"
    if "\<not> (strict \<and> special_in sid xs)"
  proof -
    have none: "\<forall>t \<in> set ?ts. \<not> lost_in sha sid strict t" using lost that by blast
    then show "rs_errors st = []" using st(4) by blast
    have "written_hash sha t \<noteq> []" for t using sha(1) by (simp add: digest_texts_def written_hash_def text_sha_def)
    with none show "length (verify_trace_chain (rs_records st)) = resumed_in sid xs"
      unfolding st(2) resumed_in_def using chain_resumptions [OF distinct_hashes [OF ok ids sha(2)]] by blast
    have "filter (kept_in sha sid strict) ?ts = filter (\<lambda>t. session_in t = sid) ?ts"
      using none by (auto simp: kept_in_def lost_in_def intro: filter_cong)
    then show "length (rs_records st) = calls_of sid xs" by (simp add: st(2) length_session_records length_sessions calls_of_def)
  qed
  show ?thesis
    unfolding replay_session_def content using st(1) corrupt counts
    by (auto simp: replay_report_of_def limit_records_def Let_def)
qed

section \<open>The last hash binds the session\<close>

text \<open>The records a strict replay of a file goes by.\<close>

definition strict_records :: "sha \<Rightarrow> string \<Rightarrow> string \<Rightarrow> trace_record list" where
  "strict_records sha sid text = (case scan_trace sha sid True text of Inl _ \<Rightarrow> [] | Inr st \<Rightarrow> rs_records st)"

lemma passed_replay:
  assumes "replay_session sha (Some text) sid True None = Inr r" and "rp_status r = T_OK"
  shows "verify_trace_chain (strict_records sha sid text) = []" and "\<forall>x \<in> set (strict_records sha sid text). hash_checked sha x"
    and "linked named_previous tr_step_hash (strict_records sha sid text)"
proof -
  obtain st where st: "scan_trace sha sid True text = Inr st" "r = replay_report_of sid None st"
    using assms(1) by (auto simp: replay_session_def)
  then show c: "verify_trace_chain (strict_records sha sid text) = []"
    using assms(2) by (auto simp: replay_report_of_def limit_records_def strict_records_def Let_def split: if_splits)
  show h: "\<forall>x \<in> set (strict_records sha sid text). hash_checked sha x"
    using scan_checked [OF st(1)] by (simp add: strict_records_def st(1))
  show "linked named_previous tr_step_hash (strict_records sha sid text)"
    using chain_linked c h unfolding verify_trace_chain_def by blast
qed

lemma first_names_nothing:
  assumes "verify_trace_chain (r # rs) = []" and "hash_checked sha r"
  shows "named_previous r \<in> {JNull, JStr []}"
  using assms checked_previous [of sha r] by (auto simp: verify_trace_chain_def split: if_splits)

text \<open>A chain whose tip is that of another is the whole of it: its first record names nothing.\<close>

lemma whole_chain:
  assumes "length xs \<le> length ys" and "xs \<noteq> []" and "verify_trace_chain xs = []" and "verify_trace_chain ys = []"
    and "linked named_previous tr_step_hash xs" and "linked named_previous tr_step_hash ys"
    and "\<forall>r \<in> set xs \<union> set ys. hash_checked sha r \<and> trace_message r \<in> M \<and> inj_on (text_sha sha) M"
    and "tr_step_hash (last xs) = tr_step_hash (last ys)" and "\<forall>m. sha m \<noteq> []"
  shows "map trace_core xs = map trace_core ys"
proof -
  let ?k = "length ys - length xs"
  have suffix: "map trace_core xs = map trace_core (drop ?k ys)"
    by (rule trace.same_tip_common_suffix [OF assms(1,2,5,6,7,8)])
  obtain x xs' where xs: "xs = x # xs'" using assms(2) by (cases xs) auto
  then have kl: "?k < length ys" using assms(1) by (cases ys) auto
  have "?k = 0"
  proof (rule ccontr)
    assume "?k \<noteq> 0"
    then obtain j where j: "?k = Suc j" by (cases ?k) auto
    then have "named_previous (ys ! ?k) = tr_step_hash (ys ! j)"
      using linked_nth [OF assms(6), of j] kl by simp
    moreover have "trace_core x = trace_core (ys ! ?k)" using suffix xs kl by (simp add: Cons_nth_drop_Suc [symmetric])
    then have "named_previous x = named_previous (ys ! ?k)" by (rule trace.prev_in_core)
    moreover have "named_previous x \<in> {JNull, JStr []}" using first_names_nothing assms(3,7) xs by auto
    moreover have "hash_checked sha (ys ! j)" using assms(7) kl j by simp
    then have "tr_step_hash (ys ! j) \<notin> {JNull, JStr []}" using assms(9) by (auto simp: hash_checked_def text_sha_def)
    ultimately show False by simp
  qed
  then show ?thesis using suffix by simp
qed

text \<open>
  C37: two files whose strict replay of a session is fine, and whose last records carry the same
  hash, hold the same records of that session: as many, and each with the same content; unless
  SHA-256 collides on the texts that were hashed.
\<close>

theorem trace_tip_binds:
  assumes ok: "replay_session sha (Some text) sid True None = Inr r" "rp_status r = T_OK"
      "replay_session sha (Some text') sid True None = Inr r'" "rp_status r' = T_OK"
    and ne: "strict_records sha sid text \<noteq> []" "strict_records sha sid text' \<noteq> []"
    and tip: "tr_step_hash (last (strict_records sha sid text)) = tr_step_hash (last (strict_records sha sid text'))"
    and sha: "\<forall>m. sha m \<noteq> []"
      "inj_on (text_sha sha) (trace_message ` (set (strict_records sha sid text) \<union> set (strict_records sha sid text')))"
  shows "map trace_core (strict_records sha sid text) = map trace_core (strict_records sha sid text')"
proof -
  let ?M = "trace_message ` (set (strict_records sha sid text) \<union> set (strict_records sha sid text'))"
  note p = passed_replay [OF ok(1,2)] and p' = passed_replay [OF ok(3,4)]
  have good: "hash_checked sha x \<and> trace_message x \<in> ?M \<and> inj_on (text_sha sha) ?M"
    if "x \<in> set (strict_records sha sid text) \<union> set (strict_records sha sid text')" for x
    using that p(2) p'(2) sha(2) by auto
  show ?thesis
  proof (cases "length (strict_records sha sid text) \<le> length (strict_records sha sid text')")
    case True
    show ?thesis
      by (rule whole_chain [OF True ne(1) p(1) p'(1) p(3) p'(3) _ tip sha(1)]) (use good in blast)
  next
    case False
    then have le: "length (strict_records sha sid text') \<le> length (strict_records sha sid text)" by simp
    show ?thesis
      by (rule sym, rule whole_chain [OF le ne(2) p'(1) p(1) p'(3) p(3) _ tip [symmetric] sha(1)]) (use good in blast)
  qed
qed

section \<open>Concrete traces\<close>

text \<open>A digest that never collides: the hexadecimal digits of the message.\<close>

definition hex_sha :: sha where
  "hex_sha m = CHR ''h'' # to_hex m"

lemma hex_sha_inj: "inj hex_sha"
proof (rule injI)
  fix m n
  assume "hex_sha m = hex_sha n"
  then have "from_hex (to_hex m) = from_hex (to_hex n)" by (simp add: hex_sha_def)
  then show "m = n" by simp
qed

lemma hex_sha_digest: "digest_texts hex_sha"
  using hex_char(1) plain_hex_digit by (auto simp: digest_texts_def hex_sha_def to_hex_def plain_char_def list_all_iff)

lemma hex_sha_on: "inj_on (text_sha hex_sha) M"
  by (rule inj_onI) (auto simp: text_sha_def utf8_inj dest: injD [OF hex_sha_inj])

definition sample_call :: "string \<Rightarrow> string \<Rightarrow> trace_call" where
  "sample_call sid text =
     \<lparr>tc_action_type = ''TOOL_CALL'', tc_intent = text, tc_scope = ''session'', tc_input = JNull, tc_output = JNull, tc_ok = True,
      tc_error = JNull, tc_state_before = JNull, tc_state_after = JNull, tc_session_id = Some sid\<rparr>"

text \<open>A session interrupted once, the last intent of which has an accented letter.\<close>

definition sample_calls :: "((datetime \<times> string) \<times> trace_call) list" where
  "sample_calls =
     [((sample_time, ''t1''), sample_call ''a'' ''go''), ((sample_time, ''t2''), sample_call ''b'' ''go''),
      ((sample_time, ''t3''), sample_call ''a'' [CHR ''c'', CHR ''a'', CHR ''f'', CHR 0xE9])]"

lemma sample_calls_ok:
  "sample_calls \<noteq> []" "\<forall>x \<in> set sample_calls. call_ok x" "distinct (map (\<lambda>x. snd (fst x)) sample_calls)"
  "special_in ''a'' sample_calls" "resumed_in ''a'' sample_calls = 1" "calls_of ''a'' sample_calls = 2"
  by (simp_all add: sample_calls_def sample_call_def call_ok_def special_in_def plain_call_def trace_body_def trace_data_def
      plain_char_def session_of_def resumed_in_def resumptions_def calls_of_def)

theorem replay_verdict_witness:
  "(\<exists>r. replay_session hex_sha (tw_file (fold (run_trace hex_sha) sample_calls (open_writer None))) ''a'' True None = Inr r \<and>
      rp_status r = T_CORRUPT) \<and>
   (\<exists>r. replay_session hex_sha (tw_file (fold (run_trace hex_sha) sample_calls (open_writer None))) ''a'' False None = Inr r \<and>
      rp_status r = T_DIVERGENCE \<and> rp_total_records r = 2)"
  using replay_verdict [OF sample_calls_ok(1-3) hex_sha_digest hex_sha_on, of "''a''" True]
    replay_verdict [OF sample_calls_ok(1-3) hex_sha_digest hex_sha_on, of "''a''" False]
  by (auto simp: sample_calls_ok(4-6))

definition sample_written :: "string \<Rightarrow> written" where
  "sample_written sid = ((sample_time, ''t1''), sample_call sid ''go'', None)"

lemma sample_replay:
  fixes sha :: sha
  defines "sha \<equiv> (\<lambda>m. ''h'')"
  assumes "\<forall>t \<in> set ts. session_in t \<noteq> ''a'' \<and> written_ok t"
  shows "\<exists>r. replay_session sha (Some (unlines (map (written_line sha) (sample_written ''a'' # ts)))) ''a'' True None = Inr r \<and> rp_status r = T_OK"
    and "strict_records sha ''a'' (unlines (map (written_line sha) (sample_written ''a'' # ts))) = [record_of sha (1, sample_written ''a'')]"
proof -
  have ok: "\<forall>t \<in> set (sample_written ''a'' # ts). written_ok t"
    using assms(2) by (simp add: sample_written_def written_ok_def call_ok_def sample_call_def)
  have agree: "replay_agrees sha t" for t by (simp add: replay_agrees_def written_hash_def sha_def text_sha_def)
  have "filter (\<lambda>nt. kept_in sha ''a'' True (snd nt)) (enumerate n ts) = []" for n
    using assms(2) by (auto simp: filter_empty_conv kept_in_def enumerate_eq_zip dest: set_zip_rightD)
  then have recs: "session_records sha ''a'' True 1 (sample_written ''a'' # ts) = [record_of sha (1, sample_written ''a'')]"
    by (simp add: session_records_def kept_in_def agree session_in_def sample_written_def sample_call_def session_of_def)
  have lost: "filter (lost_in sha ''a'' True) ts' = []" for ts' by (simp add: lost_in_def agree)
  obtain st where st: "scan_trace sha ''a'' True (unlines (map (written_line sha) (sample_written ''a'' # ts))) = Inr st"
    "rs_records st = [record_of sha (1, sample_written ''a'')]" "rs_corrupt st = 0"
    using scan_trace_written [OF ok, of sha "''a''" True] unfolding recs lost by auto
  then show "strict_records sha ''a'' (unlines (map (written_line sha) (sample_written ''a'' # ts))) = [record_of sha (1, sample_written ''a'')]"
    by (simp add: strict_records_def)
  show "\<exists>r. replay_session sha (Some (unlines (map (written_line sha) (sample_written ''a'' # ts)))) ''a'' True None = Inr r \<and> rp_status r = T_OK"
    unfolding replay_session_def using st
    by (simp add: replay_report_of_def limit_records_def verify_trace_chain_def record_of_fields hash_field_def sample_written_def Let_def)
qed

theorem trace_tip_binds_witness:
  "\<exists>text text'. text \<noteq> text' \<and>
     map trace_core (strict_records (\<lambda>m. ''h'') ''a'' text) = map trace_core (strict_records (\<lambda>m. ''h'') ''a'' text') \<and>
     strict_records (\<lambda>m. ''h'') ''a'' text \<noteq> []"
proof -
  let ?sha = "\<lambda>m :: string. ''h''"
  let ?text = "\<lambda>ts. unlines (map (written_line ?sha) (sample_written ''a'' # ts))"
  have ts: "\<forall>t \<in> set []. session_in t \<noteq> ''a'' \<and> written_ok t" "\<forall>t \<in> set [sample_written ''b'']. session_in t \<noteq> ''a'' \<and> written_ok t"
    by (simp_all add: session_in_def sample_written_def sample_call_def session_of_def written_ok_def call_ok_def)
  note a = sample_replay [OF ts(1)] and b = sample_replay [OF ts(2)]
  obtain r r' where r: "replay_session ?sha (Some (?text [])) ''a'' True None = Inr r" "rp_status r = T_OK"
    "replay_session ?sha (Some (?text [sample_written ''b''])) ''a'' True None = Inr r'" "rp_status r' = T_OK"
    using a(1) b(1) by blast
  have "map trace_core (strict_records ?sha ''a'' (?text [])) = map trace_core (strict_records ?sha ''a'' (?text [sample_written ''b'']))"
    by (rule trace_tip_binds [OF r], unfold a(2) b(2), simp_all)
  moreover have "?text [] \<noteq> ?text [sample_written ''b'']" by (simp add: unlines_def)
  ultimately show ?thesis using a(2) by (metis list.distinct(1))
qed

end
