(* ===== verification/Blocks.thy ===== *)
theory Blocks
  imports Sovereignty Bytes
begin

text \<open>
  \<^verbatim>\<open>src/dsm/block_layer/manager.py\<close>: entries are buffered per logical shard and written, a block at
  a time, as one entry of a block shard whose content is the JSON of the buffered entries. The
  entry a caller hands over is kept as it is at that time; \<open>py_str\<close> is \<^verbatim>\<open>str\<close> of a value that is
  no text, \<open>now\<close> the time of the call.
\<close>

section \<open>Entries as documents\<close>

definition entry_to_dict :: "entry \<Rightarrow> (string \<times> json) list" where
  "entry_to_dict e =
     [(''id'', eid e), (''timestamp'', JStr (isoformat (timestamp e))), (''session_id'', session_id e), (''source'', source e),
      (''content'', content e), (''shard'', shard e), (''hash'', hash e), (''prev_hash'', prev_hash e),
      (''metadata'', metadata e), (''version'', version e)]"

definition dict_to_entry :: "datetime \<Rightarrow> json \<Rightarrow> entry res" where
  "dict_to_entry now data =
     rbind (jget ''id'' (JStr []) data) (\<lambda>i.
     rbind (jget ''timestamp'' JNull data) (\<lambda>t.
     rbind (if truthy t then iso_field t else Inr now) (\<lambda>ts.
     rbind (jget ''session_id'' (JStr []) data) (\<lambda>si.
     rbind (jget ''source'' (JStr []) data) (\<lambda>so.
     rbind (jget ''content'' (JStr []) data) (\<lambda>co.
     rbind (jget ''shard'' (JStr ''default'') data) (\<lambda>sh.
     rbind (jget ''hash'' (JStr []) data) (\<lambda>h.
     rbind (jget ''prev_hash'' JNull data) (\<lambda>ph.
     rbind (jget ''metadata'' (JObj []) data) (\<lambda>md.
     rbind (jget ''version'' (JStr ''v2.0'') data) (\<lambda>v.
       Inr \<lparr>eid = i, timestamp = ts, session_id = si, source = so, content = co, shard = sh, hash = h,
            prev_hash = ph, metadata = md, version = v\<rparr>)))))))))))"

section \<open>The manager\<close>

text \<open>The buffers are a dict from logical shards to the entries that wait, in order.\<close>

record block_manager =
  bm_storage :: fs
  bm_block_size :: int
  bm_suffix :: string
  bm_buffers :: "(json \<times> entry list) list"

definition new_block_manager :: "fs \<Rightarrow> int \<Rightarrow> string \<Rightarrow> block_manager" where
  "new_block_manager s block_size sfx = \<lparr>bm_storage = s, bm_block_size = block_size, bm_suffix = sfx, bm_buffers = []\<rparr>"

definition block_shard_id :: "string \<Rightarrow> json \<Rightarrow> string res" where
  "block_shard_id sfx logical =
     (case logical of
        JStr l \<Rightarrow> Inr ((if startswith ''shard_'' l then py_replace ''shard_'' [] l else l) @ sfx)
      | _ \<Rightarrow> Inl AttributeError)"

section \<open>Writing\<close>

definition block_payload :: "entry list \<Rightarrow> json" where
  "block_payload buf =
     JObj [(''block'', JBool True), (''entries'', JList (map (\<lambda>e. JObj (entry_to_dict e)) buf)), (''count'', JInt (int (length buf)))]"

definition block_entry :: "(json \<Rightarrow> string) \<Rightarrow> sha \<Rightarrow> json \<Rightarrow> string \<Rightarrow> entry list \<Rightarrow> entry" where
  "block_entry py_str sha logical block_shard buf =
     (let content_str = dumps_raw spaced_raw (block_payload buf); n = length buf in
      \<lparr>eid = JStr (''block-'' @ fmt_value py_str (eid (hd buf)) @ ''-'' @ show_nat n), timestamp = timestamp (last buf),
       session_id = session_id (hd buf), source = JStr ''block_layer'', content = JStr content_str, shard = JStr block_shard,
       hash = JStr (text_sha sha content_str), prev_hash = JNull,
       metadata = JObj [(''block'', JBool True), (''logical_shard'', logical), (''entry_count'', JInt (int n))],
       version = JStr ''v2.0''\<rparr>)"

definition in_storage :: "(fs, 'a) op \<Rightarrow> (block_manager, 'a) op" where
  "in_storage f m = (let (s, r) = f (bm_storage m) in (m\<lparr>bm_storage := s\<rparr>, r))"

text \<open>A buffer is emptied only once its block is stored.\<close>

definition flush_shard :: "(json \<Rightarrow> string) \<Rightarrow> sha \<Rightarrow> datetime \<Rightarrow> json \<Rightarrow> (block_manager, unit) op" where
  "flush_shard py_str sha now logical m =
     (case map_of (bm_buffers m) logical of
        None \<Rightarrow> (m, Inr ())
      | Some [] \<Rightarrow> (m, Inr ())
      | Some buf \<Rightarrow>
          sbind (of_res (block_shard_id (bm_suffix m) logical)) (\<lambda>bs.
          sbind (in_storage (append sha now (block_entry py_str sha logical bs buf))) (\<lambda>_ m.
            (m\<lparr>bm_buffers := dput logical [] (bm_buffers m)\<rparr>, Inr ()))) m)"

text \<open>\<^verbatim>\<open>entry.content.encode\<close> is needed only for an entry without a hash.\<close>

definition with_hash :: "sha \<Rightarrow> entry \<Rightarrow> entry res" where
  "with_hash sha e =
     (if truthy (hash e) then Inr e
      else (case content e of JStr t \<Rightarrow> Inr (e\<lparr>hash := JStr (text_sha sha t)\<rparr>) | _ \<Rightarrow> Inl AttributeError))"

definition logical_shard :: "entry \<Rightarrow> json" where
  "logical_shard e = (if truthy (shard e) then shard e else JStr ''default'')"

definition block_append :: "(json \<Rightarrow> string) \<Rightarrow> sha \<Rightarrow> datetime \<Rightarrow> entry \<Rightarrow> (block_manager, entry) op" where
  "block_append py_str sha now e m =
     (let l = logical_shard e in
      case hashable l of
        Inl err \<Rightarrow> (m, Inl err)
      | Inr _ \<Rightarrow>
          (let buf = (case map_of (bm_buffers m) l of None \<Rightarrow> [] | Some b \<Rightarrow> b); m1 = m\<lparr>bm_buffers := dput l buf (bm_buffers m)\<rparr> in
           case with_hash sha e of
             Inl err \<Rightarrow> (m1, Inl err)
           | Inr e' \<Rightarrow>
               (let m2 = m1\<lparr>bm_buffers := dput l (buf @ [e']) (bm_buffers m1)\<rparr> in
                if bm_block_size m \<le> int (length (buf @ [e'])) then sbind (flush_shard py_str sha now l) (\<lambda>_. ret e') m2
                else (m2, Inr e'))))"

fun flush_shards :: "(json \<Rightarrow> string) \<Rightarrow> sha \<Rightarrow> datetime \<Rightarrow> json list \<Rightarrow> (block_manager, unit) op" where
  "flush_shards py_str sha now [] = ret ()"
| "flush_shards py_str sha now (l # ls) = sbind (flush_shard py_str sha now l) (\<lambda>_. flush_shards py_str sha now ls)"

definition flush :: "(json \<Rightarrow> string) \<Rightarrow> sha \<Rightarrow> datetime \<Rightarrow> (block_manager, unit) op" where
  "flush py_str sha now m = flush_shards py_str sha now (map fst (bm_buffers m)) m"

section \<open>Reading\<close>

text \<open>The entries built before one raises, and the exception.\<close>

fun entries_of_dicts :: "datetime \<Rightarrow> json list \<Rightarrow> entry list \<times> py_error option" where
  "entries_of_dicts now [] = ([], None)"
| "entries_of_dicts now (d # ds) =
     (case dict_to_entry now d of
        Inl err \<Rightarrow> ([], Some err)
      | Inr e \<Rightarrow> (let (es, err) = entries_of_dicts now ds in (e # es, err)))"

text \<open>What a loop over \<^verbatim>\<open>data["entries"]\<close> gives for a block; None for other documents.\<close>

definition block_items :: "datetime \<Rightarrow> json \<Rightarrow> (entry list \<times> py_error option) option" where
  "block_items now data =
     (case data of
        JObj d \<Rightarrow>
          (if truthy (case dget ''block'' d of None \<Rightarrow> JNull | Some v \<Rightarrow> v) \<and> dget ''entries'' d \<noteq> None
           then Some (case py_iter (the (dget ''entries'' d)) of Inl err \<Rightarrow> ([], Some err) | Inr ds \<Rightarrow> entries_of_dicts now ds)
           else None)
      | _ \<Rightarrow> None)"

text \<open>
  \<^verbatim>\<open>except (JSONDecodeError, KeyError, TypeError)\<close>: the stored entry itself is added after what was
  expanded. Other exceptions leave the loop.
\<close>

definition caught :: "py_error \<Rightarrow> bool" where
  "caught err = (case err of KeyError _ \<Rightarrow> True | TypeError \<Rightarrow> True | _ \<Rightarrow> False)"

definition expand_content :: "datetime \<Rightarrow> json \<Rightarrow> entry res \<Rightarrow> entry list \<times> py_error option" where
  "expand_content now c stored =
     (let itself = (case stored of Inl err \<Rightarrow> ([], Some err) | Inr e \<Rightarrow> ([e], None)) in
      case (case c of JStr t \<Rightarrow> loads t | _ \<Rightarrow> None) of
        None \<Rightarrow> itself
      | Some data \<Rightarrow>
          (case block_items now data of
             None \<Rightarrow> itself
           | Some (es, None) \<Rightarrow> (es, None)
           | Some (es, Some err) \<Rightarrow> if caught err then (es @ fst itself, snd itself) else (es, Some err)))"

fun expand_raw :: "datetime \<Rightarrow> entry list \<Rightarrow> entry list res" where
  "expand_raw now [] = Inr []"
| "expand_raw now (e # es) =
     (if \<not> truthy (content e) then expand_raw now es
      else
        (case expand_content now (content e) (Inr e) of
           (xs, Some err) \<Rightarrow> Inl err
         | (xs, None) \<Rightarrow> rbind (expand_raw now es) (\<lambda>ys. Inr (xs @ ys))))"

definition read_blocks :: "datetime \<Rightarrow> string \<Rightarrow> int \<Rightarrow> (block_manager, entry list) op" where
  "read_blocks now sid limit m =
     sbind (of_res (block_shard_id (bm_suffix m) (JStr sid))) (\<lambda>bs.
     sbind (in_storage (read bs 0 (limit * max 1 (bm_block_size m)))) (\<lambda>raw.
     sbind (of_res (expand_raw now raw)) (\<lambda>es. ret (py_take limit es)))) m"

text \<open>The generator yields entries, oldest first, until an event raises.\<close>

fun iter_events :: "datetime \<Rightarrow> json list \<Rightarrow> entry list \<times> py_error option" where
  "iter_events now [] = ([], None)"
| "iter_events now (ev # evs) =
     (case jget ''content'' (JStr []) ev of
        Inl err \<Rightarrow> ([], Some err)
      | Inr c \<Rightarrow>
          (if \<not> truthy c then iter_events now evs
           else
             (case expand_content now c (dict_to_entry now ev) of
                (xs, Some err) \<Rightarrow> (xs, Some err)
              | (xs, None) \<Rightarrow> (let (ys, err) = iter_events now evs in (xs @ ys, err)))))"

definition iter_entries :: "datetime \<Rightarrow> string \<Rightarrow> block_manager \<Rightarrow> entry list \<times> py_error option" where
  "iter_entries now sid m =
     (case block_shard_id (bm_suffix m) (JStr sid) of
        Inl err \<Rightarrow> ([], Some err)
      | Inr bs \<Rightarrow> iter_events now (snd (iter_shard_events bs (bm_storage m))))"

end
