(* ===== verification/Blocks_Props.thy ===== *)
theory Blocks_Props
  imports Blocks Samples
begin

text \<open>
  Properties of the block layer: which entries a reader of the blocks sees, in which order, before
  and after a flush.
\<close>

section \<open>Blocks of a list\<close>

fun chunks :: "nat \<Rightarrow> 'a list \<Rightarrow> 'a list list" where
  "chunks k xs = (if k = 0 \<or> xs = [] then [] else take k xs # chunks k (drop k xs))"

declare chunks.simps [simp del]

lemma chunks_Nil [simp]: "chunks k [] = []"
  by (simp add: chunks.simps)

lemma concat_chunks: "0 < k \<Longrightarrow> concat (chunks k xs) = xs"
proof (induction k xs rule: chunks.induct)
  case (1 k xs)
  then show ?case by (cases "xs = []") (simp_all add: chunks.simps [of k xs])
qed

lemma chunks_concat:
  assumes "0 < k" and "\<forall>b \<in> set bs. length b = k" and "length r < k"
  shows "chunks k (concat bs @ r) = bs @ (if r = [] then [] else [r])"
  using assms(2)
proof (induction bs)
  case Nil
  then show ?case using assms(1,3) by (cases "r = []") (simp_all add: chunks.simps [of k r])
next
  case (Cons b bs)
  then have "b \<noteq> []" using assms(1) by auto
  then show ?case using Cons assms(1) by (simp add: chunks.simps [of k "b @ concat bs @ r"])
qed

lemma length_blocks: "\<forall>b \<in> set bs. length b = k \<Longrightarrow> length (concat bs) = length bs * k"
  by (induction bs) simp_all

lemma full_part:
  assumes "\<forall>b \<in> set bs. length b = k" and "length r < k" and "concat bs @ r = xs"
  shows "concat bs = take (length xs - length xs mod k) xs"
proof -
  have "length xs = length bs * k + length r" using length_blocks [OF assms(1)] assms(3) by auto
  then have "length xs mod k = length r" "length xs - length r = length (concat bs)"
    using assms(2) length_blocks [OF assms(1)] by simp_all
  then show ?thesis using assms(3) by auto
qed

lemma take_concat:
  "\<forall>b \<in> set bs. b \<noteq> [] \<Longrightarrow> l \<le> n \<Longrightarrow> take l (concat (take n bs)) = take l (concat bs)"
proof (induction bs arbitrary: l n)
  case (Cons b bs)
  show ?case
  proof (cases n)
    case (Suc m)
    have "l - length b \<le> m" using Cons.prems Suc by (cases b) auto
    then show ?thesis using Cons Suc by simp
  qed (use Cons.prems in simp)
qed simp

section \<open>Entries in blocks\<close>

lemma iso_truthy [simp]: "valid_dt d \<Longrightarrow> truthy (JStr (isoformat d))"
proof -
  assume "valid_dt d"
  then have "fromisoformat (isoformat d) = Some d" by simp
  moreover have "fromisoformat [] = None" by (simp add: fromisoformat_def)
  ultimately show ?thesis by (cases "isoformat d") auto
qed

lemma dict_roundtrip [codec]: "valid_dt (timestamp e) \<Longrightarrow> dict_to_entry now (JObj (entry_to_dict e)) = Inr e"
  by (simp add: dict_to_entry_def entry_to_dict_def iso_field_def)

lemma dicts_roundtrip:
  "\<forall>e \<in> set es. valid_dt (timestamp e) \<Longrightarrow> entries_of_dicts now (map (\<lambda>e. JObj (entry_to_dict e)) es) = (es, None)"
  by (induction es) (simp_all add: dict_roundtrip)

lemma wf_payload: "\<forall>e \<in> set es. wf_entry e \<Longrightarrow> wf_json (block_payload es)"
  by (auto simp: block_payload_def list_all_iff entry_to_dict_def wf_entry_def)

text \<open>A document that holds a block.\<close>

definition holds_block :: "json \<Rightarrow> entry list \<Rightarrow> bool" where
  "holds_block c es = (c = JStr (dumps_raw spaced_raw (block_payload es)) \<and> (\<forall>e \<in> set es. wf_entry e))"

lemma expand_block:
  assumes "holds_block c es"
  shows "truthy c" and "expand_content now c stored = (es, None)"
proof -
  have l: "loads (dumps_raw spaced_raw (block_payload es)) = Some (block_payload es)"
    using assms wf_payload loads_dumps_raw unfolding holds_block_def by blast
  have "block_items now (block_payload es) = Some (es, None)"
    using assms dicts_roundtrip [of es now]
    by (simp add: block_items_def block_payload_def py_iter_def holds_block_def wf_entry_def)
  with assms l show "expand_content now c stored = (es, None)"
    by (simp add: expand_content_def holds_block_def del: dumps_raw.simps)
  show "truthy c" using assms by (simp add: holds_block_def block_payload_def)
qed

lemma expand_blocks:
  "list_all2 (\<lambda>e b. holds_block (content e) b) es bs \<Longrightarrow> expand_raw now es = Inr (concat bs)"
  by (induction rule: list_all2_induct) (simp_all add: expand_block)

lemma iter_blocks:
  "list_all2 (\<lambda>ev b. \<exists>c. jget ''content'' (JStr []) ev = Inr c \<and> holds_block c b) evs bs \<Longrightarrow>
    iter_events now evs = (concat bs, None)"
  by (induction evs bs rule: list_all2_induct) (auto simp: expand_block)

section \<open>The states of the manager\<close>

definition block_name :: "string \<Rightarrow> string \<Rightarrow> string" where
  "block_name sfx l = (if startswith ''shard_'' l then py_replace ''shard_'' [] l else l) @ sfx"

lemma block_shard_id_JStr [simp]: "block_shard_id sfx (JStr l) = Inr (block_name sfx l)"
  by (simp add: block_shard_id_def block_name_def)

text \<open>Entries of one logical shard that the kernel could store.\<close>

definition block_item :: "string \<Rightarrow> entry \<Rightarrow> bool" where
  "block_item l e = (wf_entry e \<and> shard e = JStr l \<and> (\<exists>t. content e = JStr t) \<and> all_finite (session_id e))"

definition buffered :: "string \<Rightarrow> entry list \<Rightarrow> (json \<times> entry list) list \<Rightarrow> bool" where
  "buffered l buf d = (d = [(JStr l, buf)] \<or> d = [] \<and> buf = [])"

definition blocks_inv :: "sha \<Rightarrow> string \<Rightarrow> block_manager \<Rightarrow> entry list \<Rightarrow> entry list list \<Rightarrow> entry list \<Rightarrow> bool" where
  "blocks_inv sha l m es bs buf =
     (shard_inv sha (block_name (bm_suffix m) l) (bm_storage m) es \<and> mono_files (bm_storage m) = [] \<and>
      list_all2 (\<lambda>e b. holds_block (content e) b) es bs \<and> buffered l buf (bm_buffers m))"

definition same_settings :: "block_manager \<Rightarrow> block_manager \<Rightarrow> bool" where
  "same_settings m m' = (bm_block_size m' = bm_block_size m \<and> bm_suffix m' = bm_suffix m)"

lemma block_acceptable:
  assumes "buf \<noteq> []" and "\<forall>e \<in> set buf. block_item l e" and "sid \<noteq> []"
  shows "acceptable (block_entry py_str sha (JStr l) sid buf)" and "shard_of (block_entry py_str sha (JStr l) sid buf) = Inr sid"
    and "holds_block (content (block_entry py_str sha (JStr l) sid buf)) buf"
proof -
  have "block_item l (hd buf)" "block_item l (last buf)" using assms(1,2) by simp_all
  then show "acceptable (block_entry py_str sha (JStr l) sid buf)"
    by (simp add: acceptable_def block_entry_def wf_entry_def block_item_def Let_def)
  show "shard_of (block_entry py_str sha (JStr l) sid buf) = Inr sid"
    using assms(3) by (simp add: shard_of_def block_entry_def Let_def)
  show "holds_block (content (block_entry py_str sha (JStr l) sid buf)) buf"
    using assms(2) by (simp add: holds_block_def block_entry_def block_item_def Let_def)
qed

lemma flush_shard_inv:
  assumes inv: "blocks_inv sha l m es bs buf" and buf: "buf \<noteq> []" "\<forall>e \<in> set buf. block_item l e"
    and sid: "block_name (bm_suffix m) l \<noteq> []"
  shows "\<exists>m' r. flush_shard py_str sha now (JStr l) m = (m', Inr ()) \<and> blocks_inv sha l m' (es @ [r]) (bs @ [buf]) [] \<and> same_settings m m'"
proof -
  let ?sid = "block_name (bm_suffix m) l" let ?e = "block_entry py_str sha (JStr l) ?sid buf"
  let ?r = "stored_entry sha ?sid (tip es) ?e"
  note a = block_acceptable [OF buf sid, of py_str sha]
  have s: "shard_inv sha ?sid (bm_storage m) es" using inv by (simp add: blocks_inv_def)
  obtain s' e' where app: "append sha now ?e (bm_storage m) = (s', Inr e')" and s': "shard_inv sha ?sid s' (es @ [?r])"
    by (rule append_inv [OF s a(1,2)])
  obtain h where h: "compute_canonical_entry_hash sha ?e (tip es) = Inr h"
    using compute_hash_Inr [OF a(1) tip_json(2) [OF shard_invD(1) [OF s]]] by blast
  obtain t where "content ?e = JStr t" using a(3) by (auto simp: holds_block_def)
  then have "holds_block (content ?r) buf" using stored_content [OF h] a(3) by simp
  moreover have "mono_files s' = []" using append_mono [of sha now ?e "bm_storage m"] app inv by (simp add: blocks_inv_def)
  moreover have b: "bm_buffers m = [(JStr l, buf)]" using inv buf(1) by (auto simp: blocks_inv_def buffered_def)
  obtain x xs where x: "buf = x # xs" using buf(1) by (cases buf) auto
  let ?m = "m\<lparr>bm_storage := s', bm_buffers := [(JStr l, [])]\<rparr>"
  have "flush_shard py_str sha now (JStr l) m = (?m, Inr ())"
    using app b unfolding flush_shard_def x by (simp add: sbind_def of_res_def in_storage_def)
  moreover have "blocks_inv sha l ?m (es @ [?r]) (bs @ [buf]) []"
    using inv s' calculation(1,2) by (simp add: blocks_inv_def buffered_def list_all2_appendI)
  ultimately show ?thesis by (auto simp: same_settings_def)
qed

text \<open>The entry as it is kept.\<close>

definition hashed :: "sha \<Rightarrow> entry \<Rightarrow> entry" where
  "hashed sha e = (case with_hash sha e of Inr e' \<Rightarrow> e' | Inl _ \<Rightarrow> e)"

lemma hashed_item: "block_item l e \<Longrightarrow> with_hash sha e = Inr (hashed sha e) \<and> block_item l (hashed sha e)"
  by (auto simp: hashed_def with_hash_def block_item_def wf_entry_def)

definition capacity :: "int \<Rightarrow> nat" where
  "capacity n = nat (max 1 n)"

text \<open>All blocks are full, the buffer is not.\<close>

definition packed :: "block_manager \<Rightarrow> string \<Rightarrow> entry list list \<Rightarrow> entry list \<Rightarrow> bool" where
  "packed m l bs buf =
     ((\<forall>b \<in> set bs. length b = capacity (bm_block_size m)) \<and> length buf < capacity (bm_block_size m) \<and> (\<forall>e \<in> set buf. block_item l e))"

definition blocks_state :: "sha \<Rightarrow> string \<Rightarrow> block_manager \<Rightarrow> entry list \<Rightarrow> bool" where
  "blocks_state sha l m xs = (\<exists>es bs buf. blocks_inv sha l m es bs buf \<and> packed m l bs buf \<and> concat bs @ buf = xs)"

lemma block_append_step:
  assumes st: "blocks_state sha l m xs" and e: "block_item l e" and l: "l \<noteq> []" "block_name (bm_suffix m) l \<noteq> []"
  shows "\<exists>m'. block_append py_str sha now e m = (m', Inr (hashed sha e)) \<and> blocks_state sha l m' (xs @ [hashed sha e]) \<and> same_settings m m'"
proof -
  obtain es bs buf where inv: "blocks_inv sha l m es bs buf" and p: "packed m l bs buf" and xs: "concat bs @ buf = xs"
    using st by (auto simp: blocks_state_def)
  let ?e = "hashed sha e" and ?k = "capacity (bm_block_size m)"
  let ?m2 = "m\<lparr>bm_buffers := [(JStr l, buf @ [?e])]\<rparr>"
  have h: "with_hash sha e = Inr ?e" "block_item l ?e" using hashed_item [OF e] by simp_all
  have ls: "logical_shard e = JStr l" using e l(1) by (simp add: logical_shard_def block_item_def)
  have inv2: "blocks_inv sha l ?m2 es bs (buf @ [?e])" using inv by (simp add: blocks_inv_def buffered_def)
  have items: "\<forall>x \<in> set (buf @ [?e]). block_item l x" using p h(2) by (simp add: packed_def)
  have step: "block_append py_str sha now e m
    = (if bm_block_size m \<le> int (length (buf @ [?e])) then sbind (flush_shard py_str sha now (JStr l)) (\<lambda>_. ret ?e) ?m2 else (?m2, Inr ?e))"
  proof -
    have "bm_buffers m = [(JStr l, buf)] \<or> bm_buffers m = [] \<and> buf = []" using inv by (simp add: blocks_inv_def buffered_def)
    then show ?thesis by (elim disjE conjE) (simp_all add: block_append_def ls h(1) Let_def)
  qed
  show ?thesis
  proof (cases "bm_block_size m \<le> int (length (buf @ [?e]))")
    case True
    then have full: "length (buf @ [?e]) = ?k" using p by (auto simp: packed_def capacity_def)
    obtain m' r where f: "flush_shard py_str sha now (JStr l) ?m2 = (m', Inr ())"
      "blocks_inv sha l m' (es @ [r]) (bs @ [buf @ [?e]]) []" "same_settings ?m2 m'"
      using flush_shard_inv [OF inv2 _ items, of py_str now] l(2) by auto
    moreover have "packed m' l (bs @ [buf @ [?e]]) []"
      using p full f(3) by (auto simp: packed_def same_settings_def)
    ultimately show ?thesis using xs True
      unfolding step blocks_state_def by (fastforce simp: sbind_def same_settings_def)
  next
    case False
    then have "packed ?m2 l bs (buf @ [?e])" using p items by (auto simp: packed_def capacity_def)
    then show ?thesis using inv2 xs False unfolding step blocks_state_def by (fastforce simp: same_settings_def)
  qed
qed

definition run_block :: "(json \<Rightarrow> string) \<Rightarrow> sha \<Rightarrow> datetime \<times> entry \<Rightarrow> block_manager \<Rightarrow> block_manager" where
  "run_block py_str sha a m = fst (block_append py_str sha (fst a) (snd a) m)"

lemma run_blocks_state:
  assumes "blocks_state sha l m xs" and "\<forall>a \<in> set as. block_item l (snd a)" and "l \<noteq> []" "block_name (bm_suffix m) l \<noteq> []"
  shows "blocks_state sha l (fold (run_block py_str sha) as m) (xs @ map (\<lambda>a. hashed sha (snd a)) as) \<and>
    same_settings m (fold (run_block py_str sha) as m)"
  using assms
proof (induction as arbitrary: m xs)
  case (Cons a as)
  obtain m' where m': "block_append py_str sha (fst a) (snd a) m = (m', Inr (hashed sha (snd a)))"
    "blocks_state sha l m' (xs @ [hashed sha (snd a)])" "same_settings m m'"
    using block_append_step [OF Cons.prems(1) _ Cons.prems(3,4)] Cons.prems(2) by fastforce
  moreover have "block_name (bm_suffix m') l \<noteq> []" using m'(3) Cons.prems(4) by (simp add: same_settings_def)
  ultimately show ?case using Cons.IH [OF m'(2)] Cons.prems by (auto simp: run_block_def same_settings_def)
qed (simp add: same_settings_def)

text \<open>A flush stores what waits, as one more block.\<close>

definition stored_blocks :: "sha \<Rightarrow> string \<Rightarrow> block_manager \<Rightarrow> entry list list \<Rightarrow> bool" where
  "stored_blocks sha l m bs = (\<exists>es buf. blocks_inv sha l m es bs buf \<and> (\<forall>b \<in> set bs. b \<noteq> []))"

lemma flush_state:
  assumes "blocks_state sha l m xs" and "block_name (bm_suffix m) l \<noteq> []"
  shows "\<exists>m'. flush py_str sha now m = (m', Inr ()) \<and> stored_blocks sha l m' (chunks (capacity (bm_block_size m)) xs) \<and> same_settings m m'"
proof -
  let ?k = "capacity (bm_block_size m)"
  obtain es bs buf where inv: "blocks_inv sha l m es bs buf" and p: "packed m l bs buf" and xs: "concat bs @ buf = xs"
    using assms(1) by (auto simp: blocks_state_def)
  have k: "0 < ?k" by (simp add: capacity_def)
  have c: "chunks ?k xs = bs @ (if buf = [] then [] else [buf])"
    using chunks_concat [OF k, of bs buf] p xs by (auto simp: packed_def)
  have ne: "b \<noteq> []" if "b \<in> set bs" for b
  proof -
    have "length b = ?k" using p that by (auto simp: packed_def)
    then show ?thesis using k by auto
  qed
  have b: "bm_buffers m = [(JStr l, buf)] \<or> bm_buffers m = [] \<and> buf = []" using inv by (simp add: blocks_inv_def buffered_def)
  show ?thesis
  proof (cases "buf = []")
    case True
    then have "flush py_str sha now m = (m, Inr ())" using b
      by (elim disjE conjE) (simp_all add: flush_def flush_shard_def sbind_def)
    then show ?thesis using inv ne c True by (auto simp: stored_blocks_def same_settings_def)
  next
    case False
    have "\<forall>e \<in> set buf. block_item l e" using p by (simp add: packed_def)
    then obtain m' r where f: "flush_shard py_str sha now (JStr l) m = (m', Inr ())"
      "blocks_inv sha l m' (es @ [r]) (bs @ [buf]) []" "same_settings m m'"
      using flush_shard_inv [OF inv False _ assms(2)] by blast
    have "flush py_str sha now m = (m', Inr ())" using b False f(1) by (simp add: flush_def sbind_def)
    then show ?thesis using f(2,3) ne False by (auto simp: stored_blocks_def c)
  qed
qed

section \<open>What readers see\<close>

lemma iter_stored:
  assumes "blocks_inv sha l m es bs buf"
  shows "iter_entries now l m = (concat bs, None)"
proof -
  let ?sid = "block_name (bm_suffix m) l"
  have s: "shard_inv sha ?sid (bm_storage m) es" and h: "list_all2 (\<lambda>e b. holds_block (content e) b) es bs"
    using assms by (simp_all add: blocks_inv_def)
  have c: "jget ''content'' (JStr []) (norm (entry_dict ?sid e)) = Inr (content e)" if "norm_entry e = e" for e
  proof -
    have "content (norm_entry e) = content e" using that by simp
    then have "norm (content e) = content e" by (simp add: norm_entry_def)
    then show ?thesis unfolding entry_dict_def by (subst jget_norm) simp_all
  qed
  have "list_all2 (\<lambda>ev b. \<exists>c. jget ''content'' (JStr []) ev = Inr c \<and> holds_block c b) (map (\<lambda>e. norm (entry_dict ?sid e)) es) bs"
    using h c shard_inv_stored [OF s] by (fastforce simp: list_all2_conv_all_nth)
  then show ?thesis using iter_blocks shard_events [OF s] by (simp add: iter_entries_def)
qed

lemma read_stored:
  assumes "stored_blocks sha l m bs" and "0 \<le> limit"
  shows "snd (read_blocks now l limit m) = Inr (take (nat limit) (concat (rev bs)))"
proof -
  let ?n = "nat (max 1 (limit * max 1 (bm_block_size m)))"
  obtain es buf where inv: "blocks_inv sha l m es bs buf" and ne: "\<forall>b \<in> set bs. b \<noteq> []"
    using assms(1) by (auto simp: stored_blocks_def)
  have "limit * 1 \<le> limit * max 1 (bm_block_size m)" using assms(2) by (intro mult_left_mono) auto
  then have n: "nat limit \<le> ?n" by auto
  have raw: "read (block_name (bm_suffix m) l) 0 (limit * max 1 (bm_block_size m)) (bm_storage m) = (bm_storage m, Inr (take ?n (rev es)))"
    using read_inv [of sha "block_name (bm_suffix m) l" "bm_storage m" es 0] inv by (simp add: blocks_inv_def)
  have "list_all2 (\<lambda>e b. holds_block (content e) b) (take ?n (rev es)) (take ?n (rev bs))"
    using inv by (auto simp: blocks_inv_def intro: list_all2_takeI)
  then have "expand_raw now (take ?n (rev es)) = Inr (concat (take ?n (rev bs)))" by (rule expand_blocks)
  then show ?thesis
    using take_concat [of "rev bs" "nat limit" ?n] ne n assms(2)
    by (simp add: read_blocks_def sbind_def of_res_def in_storage_def raw py_take_def)
qed

text \<open>The manager after a sequence of appends, and the entries as they are kept.\<close>

definition block_run :: "(json \<Rightarrow> string) \<Rightarrow> sha \<Rightarrow> int \<Rightarrow> string \<Rightarrow> (datetime \<times> entry) list \<Rightarrow> block_manager" where
  "block_run py_str sha n sfx as = fold (run_block py_str sha) as (new_block_manager empty_fs n sfx)"

definition kept_entries :: "sha \<Rightarrow> (datetime \<times> entry) list \<Rightarrow> entry list" where
  "kept_entries sha as = map (\<lambda>a. hashed sha (snd a)) as"

text \<open>
  C38: what is appended to a logical shard comes back. Before a flush the blocks that are full are
  seen, oldest entry first; after a flush every entry is, as it was appended (with its hash).
  A page of the newest entries is made of whole blocks, the newest block first, but inside a
  block the entries stand in the order they were appended.
\<close>

theorem blocks_exact:
  assumes "\<forall>a \<in> set as. block_item l (snd a)" and "l \<noteq> []" and "block_name sfx l \<noteq> []" and "0 \<le> limit"
  shows "iter_entries now l (block_run py_str sha n sfx as)
      = (take (length as - length as mod capacity n) (kept_entries sha as), None) \<and>
    iter_entries now l (fst (flush py_str sha now (block_run py_str sha n sfx as))) = (kept_entries sha as, None) \<and>
    snd (read_blocks now l limit (fst (flush py_str sha now (block_run py_str sha n sfx as))))
      = Inr (take (nat limit) (concat (rev (chunks (capacity n) (kept_entries sha as)))))"
proof -
  let ?start = "new_block_manager empty_fs n sfx" and ?m = "block_run py_str sha n sfx as" and ?xs = "kept_entries sha as"
  have "blocks_inv sha l ?start [] [] []" "packed ?start l [] []"
    by (simp_all add: blocks_inv_def new_block_manager_def buffered_def packed_def capacity_def)
  then have "blocks_state sha l ?start []" unfolding blocks_state_def by fastforce
  then have st: "blocks_state sha l ?m ?xs" and set: "bm_block_size ?m = n" "bm_suffix ?m = sfx"
    using run_blocks_state [of sha l ?start "[]" as py_str] assms(1-3)
    by (auto simp: same_settings_def new_block_manager_def block_run_def kept_entries_def)
  obtain es bs buf where inv: "blocks_inv sha l ?m es bs buf" and p: "packed ?m l bs buf" and xs: "concat bs @ buf = ?xs"
    using st by (auto simp: blocks_state_def)
  have "concat bs = take (length ?xs - length ?xs mod capacity n) ?xs"
    using full_part [OF _ _ xs] p by (simp add: packed_def set)
  then have before: "iter_entries now l ?m = (take (length as - length as mod capacity n) ?xs, None)"
    using iter_stored [OF inv] by (simp add: kept_entries_def)
  obtain m' where m': "flush py_str sha now ?m = (m', Inr ())" "stored_blocks sha l m' (chunks (capacity n) ?xs)"
    using flush_state [OF st, of py_str now] assms(3) set by auto
  then obtain es' buf' where "blocks_inv sha l m' es' (chunks (capacity n) ?xs) buf'" by (auto simp: stored_blocks_def)
  then have after_flush: "iter_entries now l m' = (?xs, None)"
    using iter_stored concat_chunks [of "capacity n" ?xs] by (fastforce simp: capacity_def)
  show ?thesis using before after_flush read_stored [OF m'(2) assms(4)] m'(1) by simp
qed

text \<open>Three entries in blocks of two: the page of the newest three is the last, the first and the second.\<close>

theorem blocks_exact_witness:
  "snd (read_blocks sample_time ''alpha'' 3
      (fst (flush (\<lambda>_. []) (\<lambda>m. ''h'') sample_time
        (block_run (\<lambda>_. []) (\<lambda>m. ''h'') 2 ''_block'' (map (\<lambda>c. (sample_time, sample_entry ''alpha'' c)) [''one'', ''two'', ''three''])))))
    = Inr (map (\<lambda>c. sample_entry ''alpha'' c\<lparr>hash := JStr ''h''\<rparr>) [''three'', ''one'', ''two''])"
proof -
  let ?as = "map (\<lambda>c. (sample_time, sample_entry ''alpha'' c)) [''one'', ''two'', ''three'']"
  have ok: "\<forall>a \<in> set ?as. block_item ''alpha'' (snd a)"
    by (simp add: block_item_def sample_entry_def wf_entry_def)
  have n: "block_name ''_block'' ''alpha'' \<noteq> []" "(0 :: int) \<le> 3" "''alpha'' \<noteq> []" by (simp_all add: block_name_def)
  have "kept_entries (\<lambda>m. ''h'') ?as = map (\<lambda>c. sample_entry ''alpha'' c\<lparr>hash := JStr ''h''\<rparr>) [''one'', ''two'', ''three'']"
    by (simp add: kept_entries_def hashed_def with_hash_def sample_entry_def text_sha_def)
  then have "take (nat 3) (concat (rev (chunks (capacity 2) (kept_entries (\<lambda>m. ''h'') ?as))))
    = map (\<lambda>c. sample_entry ''alpha'' c\<lparr>hash := JStr ''h''\<rparr>) [''three'', ''one'', ''two'']"
    by (simp add: chunks.simps capacity_def numeral_2_eq_2)
  with blocks_exact [OF ok n(3) n(1,2), of sample_time "\<lambda>_. []" "\<lambda>m. ''h''" 2] show ?thesis by simp
qed

end
