(* ===== verification/Evolution.thy ===== *)
theory Evolution
  imports Calendar Sovereignty
begin

text \<open>
  \<^verbatim>\<open>src/dsm/identity/identity_manager.py\<close>, \<^verbatim>\<open>identity_replay.py\<close> and \<^verbatim>\<open>identity_guard.py\<close>: the
  events of one agent in the shard \<open>identity\<close>, and the state of the agent rebuilt from them.
  \<open>py_str\<close> is \<^verbatim>\<open>str\<close> of a value that is no text.
\<close>

section \<open>Writing events\<close>

definition IDENTITY_SHARD :: string where "IDENTITY_SHARD = ''identity''"

definition VALID_EVENT_TYPES :: "string list" where
  "VALID_EVENT_TYPES =
     [''genesis'', ''skill_added'', ''skill_removed'', ''model_change'', ''config_change'', ''behavior_change'', ''capability_declared'']"

record identity_manager =
  im_storage :: fs
  im_agent_id :: string
  im_session_id :: string
  im_identity_version :: int

definition new_identity_manager :: "fs \<Rightarrow> string \<Rightarrow> string \<Rightarrow> identity_manager" where
  "new_identity_manager s agent sid = \<lparr>im_storage = s, im_agent_id = agent, im_session_id = sid, im_identity_version = 0\<rparr>"

definition identity_content :: "string \<Rightarrow> string \<Rightarrow> int \<Rightarrow> (string \<times> json) list \<Rightarrow> json" where
  "identity_content agent event_type vn payload =
     JObj [(''agent_id'', JStr agent), (''event_type'', JStr event_type), (''event_version'', JStr ''1.0''),
       (''origin_component'', JStr ''identity_manager''), (''identity_version'', JInt vn), (''payload'', JObj payload)]"

definition identity_entry :: "stamp \<Rightarrow> string \<Rightarrow> string \<Rightarrow> string \<Rightarrow> int \<Rightarrow> (string \<times> json) list \<Rightarrow> entry" where
  "identity_entry st sid agent event_type vn payload =
     (doc_entry ''identity_manager'' IDENTITY_SHARD (fst st) (snd st) (identity_content agent event_type vn payload)
        [(''event_type'', JStr event_type), (''agent_id'', JStr agent)])\<lparr>session_id := JStr sid\<rparr>"

text \<open>Whether one of the entries is a genesis of the agent; a document that is no dict has no \<^verbatim>\<open>get\<close>.\<close>

definition is_genesis :: "string \<Rightarrow> entry \<Rightarrow> bool res" where
  "is_genesis agent e =
     (case content_json e of
        None \<Rightarrow> Inr False
      | Some data \<Rightarrow>
          rbind (jget ''event_type'' JNull data) (\<lambda>t.
          if t \<noteq> JStr ''genesis'' then Inr False
          else rbind (jget ''agent_id'' JNull data) (\<lambda>a. Inr (a = JStr agent))))"

definition in_identity :: "(fs, 'a) op \<Rightarrow> (identity_manager, 'a) op" where
  "in_identity f m = (let (s, r) = f (im_storage m) in (m\<lparr>im_storage := s\<rparr>, r))"

definition genesis_payload :: "string \<Rightarrow> string list \<Rightarrow> string list \<Rightarrow> string \<Rightarrow> (string \<times> json) list \<Rightarrow> (string \<times> json) list" where
  "genesis_payload purpose capabilities constraints created_by extra =
     dupdate [(''created_by'', JStr created_by), (''purpose'', JStr purpose), (''initial_capabilities'', JList (map JStr capabilities)),
       (''constraints'', JList (map JStr constraints))] extra"

definition create_genesis ::
    "sha \<Rightarrow> stamp \<Rightarrow> string \<Rightarrow> string list \<Rightarrow> string list \<Rightarrow> string \<Rightarrow> (string \<times> json) list \<Rightarrow> (identity_manager, entry) op" where
  "create_genesis sha st purpose capabilities constraints created_by extra m =
     sbind (in_identity (read IDENTITY_SHARD 0 10000)) (\<lambda>entries.
     sbind (of_res (any_res (is_genesis (im_agent_id m)) entries)) (\<lambda>found.
       if found then raise (ValueError (''Genesis already exists for agent '' @ im_agent_id m))
       else
         sbind (in_identity (append sha (fst st)
                  (identity_entry st (im_session_id m) (im_agent_id m) ''genesis'' 1
                     (genesis_payload purpose capabilities constraints created_by extra))))
           (\<lambda>e m. (m\<lparr>im_identity_version := 1\<rparr>, Inr e)))) m"

text \<open>The version advances before the entry is written.\<close>

definition append_event ::
    "sha \<Rightarrow> stamp \<Rightarrow> string \<Rightarrow> (string \<times> json) list \<Rightarrow> string option \<Rightarrow> (identity_manager, entry) op" where
  "append_event sha st event_type payload reason m =
     (if event_type \<notin> set VALID_EVENT_TYPES then (m, Inl (ValueError (''Invalid event_type: '' @ event_type)))
      else if event_type = ''genesis'' then (m, Inl (ValueError ''genesis must be created via create_genesis()''))
      else
        (let v = im_identity_version m + 1; m1 = m\<lparr>im_identity_version := v\<rparr>;
             pl = (case reason of None \<Rightarrow> payload | Some r \<Rightarrow> dput ''reason'' (JStr r) payload)
         in in_identity (append sha (fst st) (identity_entry st (im_session_id m) (im_agent_id m) event_type v pl)) m1))"

section \<open>Replaying events\<close>

record identity_state =
  is_agent_id :: string
  is_identity_version :: int
  is_purpose :: string
  is_capabilities :: "json list"
  is_constraints :: "json list"
  is_model_id :: "string option"
  is_config_hash :: "string option"
  is_created_by :: string
  is_genesis_timestamp :: "datetime option"
  is_last_updated :: "datetime option"
  is_event_count :: nat
  is_timeline :: "json list"

definition UTC :: int where "UTC = 0"

text \<open>
  \<^verbatim>\<open>up_to\<close> takes on UTC for the rest of the loop once an entry has a time zone and it has none;
  an entry without one is compared in the zone of \<^verbatim>\<open>up_to\<close>.
\<close>

definition within :: "datetime \<Rightarrow> datetime option \<Rightarrow> datetime option \<times> bool res" where
  "within ts up_to =
     (case up_to of
        None \<Rightarrow> (None, Inr True)
      | Some u \<Rightarrow>
          (let u' = (if tz ts \<noteq> None \<and> tz u = None then u\<lparr>tz := Some UTC\<rparr> else u);
               ts' = (if tz ts = None \<and> tz u \<noteq> None then ts\<lparr>tz := tz u\<rparr> else ts)
           in (Some u', dt_le ts' u')))"

fun agent_events :: "string \<Rightarrow> datetime option \<Rightarrow> entry list \<Rightarrow> entry list res" where
  "agent_events agent up_to [] = Inr []"
| "agent_events agent up_to (e # es) =
     (case content_json e of
        None \<Rightarrow> agent_events agent up_to es
      | Some data \<Rightarrow>
          rbind (jget ''agent_id'' JNull data) (\<lambda>a.
            if a \<noteq> JStr agent then agent_events agent up_to es
            else
              (let (up_to', ok) = within (timestamp e) up_to in
               rbind ok (\<lambda>b. rbind (agent_events agent up_to' es) (\<lambda>rest. Inr (if b then e # rest else rest))))))"

text \<open>A stable sort by time; times with a zone and times without one do not compare.\<close>

definition sort_events :: "entry list \<Rightarrow> entry list res" where
  "sort_events es =
     (if (\<exists>e \<in> set es. tz (timestamp e) = None) \<and> (\<exists>e \<in> set es. tz (timestamp e) \<noteq> None) then Inl TypeError
      else Inr (sort_key (\<lambda>e. instant (timestamp e)) es))"

text \<open>\<^verbatim>\<open>int(iv) if iv else 0\<close>.\<close>

definition version_number :: "json \<Rightarrow> int res" where
  "version_number v =
     (if \<not> truthy v then Inr 0
      else
        (case v of
           JInt i \<Rightarrow> Inr i
         | JBool b \<Rightarrow> Inr 1
         | JFloat s \<Rightarrow>
             (case float_of_lex s of
                Fin x \<Rightarrow> Inr (if x < 0 then - ((- x) div ONE) else x div ONE)
              | NaN \<Rightarrow> Inl (ValueError ''NaN'')
              | _ \<Rightarrow> Inl (RuntimeError ''OverflowError''))
         | JStr s \<Rightarrow> (case py_int_literal s of Some i \<Rightarrow> Inr i | None \<Rightarrow> Inl (ValueError ''int''))
         | _ \<Rightarrow> Inl TypeError))"

definition slice80 :: "(json \<Rightarrow> string) \<Rightarrow> json \<Rightarrow> string res" where
  "slice80 py_str v =
     (case v of JStr s \<Rightarrow> Inr (take 80 s) | JList xs \<Rightarrow> Inr (py_str (JList (take 80 xs))) | _ \<Rightarrow> Inl TypeError)"

definition summary_for_event :: "(json \<Rightarrow> string) \<Rightarrow> json \<Rightarrow> json \<Rightarrow> json res" where
  "summary_for_event py_str event_type payload =
     (if event_type = JStr ''genesis'' then
        rbind (jget ''purpose'' (JStr []) payload) (\<lambda>p. rbind (slice80 py_str p) (\<lambda>s. Inr (JStr (''genesis: '' @ s))))
      else if event_type = JStr ''skill_added'' then
        rbind (jget ''skill'' (JStr []) payload) (\<lambda>v. Inr (JStr (''skill_added: '' @ fmt_value py_str v)))
      else if event_type = JStr ''skill_removed'' then
        rbind (jget ''skill'' (JStr []) payload) (\<lambda>v. Inr (JStr (''skill_removed: '' @ fmt_value py_str v)))
      else if event_type = JStr ''model_change'' then
        rbind (jget ''to'' (JStr []) payload) (\<lambda>v. Inr (JStr (''model_change: '' @ fmt_value py_str v)))
      else Inr event_type)"

text \<open>\<^verbatim>\<open>capabilities.remove(sk)\<close> takes out the first occurrence.\<close>

definition apply_event :: "(json \<Rightarrow> string) \<Rightarrow> json \<Rightarrow> json \<Rightarrow> datetime \<Rightarrow> identity_state \<Rightarrow> identity_state res" where
  "apply_event py_str et payload ts s =
     (let updated = s\<lparr>is_last_updated := Some ts\<rparr> in
      if et = JStr ''genesis'' then
        rbind (jget ''purpose'' (JStr []) payload) (\<lambda>purpose.
        rbind (jget ''initial_capabilities'' (JList []) payload) (\<lambda>c.
        rbind (py_iter c) (\<lambda>capabilities.
        rbind (jget ''constraints'' (JList []) payload) (\<lambda>k.
        rbind (py_iter k) (\<lambda>constraints.
        rbind (jget ''created_by'' (JStr []) payload) (\<lambda>created_by.
          Inr (updated\<lparr>is_purpose := fmt_value py_str purpose, is_capabilities := capabilities, is_constraints := constraints,
                 is_created_by := fmt_value py_str created_by, is_genesis_timestamp := Some ts\<rparr>)))))))
      else if et = JStr ''skill_added'' then
        rbind (jget ''skill'' JNull payload) (\<lambda>sk.
          Inr (if truthy sk \<and> sk \<notin> set (is_capabilities s) then updated\<lparr>is_capabilities := is_capabilities s @ [sk]\<rparr> else updated))
      else if et = JStr ''skill_removed'' then
        rbind (jget ''skill'' JNull payload) (\<lambda>sk. Inr (updated\<lparr>is_capabilities := remove1 sk (is_capabilities s)\<rparr>))
      else if et = JStr ''model_change'' then
        rbind (py_in (JStr ''to'') payload) (\<lambda>b.
          if b then rbind (jsub ''to'' payload) (\<lambda>v. Inr (updated\<lparr>is_model_id := Some (fmt_value py_str v)\<rparr>)) else Inr updated)
      else if et = JStr ''config_change'' then
        rbind (jget ''config_hash_after'' JNull payload) (\<lambda>v.
          Inr (if truthy v then updated\<lparr>is_config_hash := Some (fmt_value py_str v)\<rparr> else updated))
      else if et = JStr ''behavior_change'' then Inr updated
      else if et = JStr ''capability_declared'' then
        rbind (jget ''capabilities'' JNull payload) (\<lambda>v.
          if v = JNull then Inr updated else rbind (py_iter v) (\<lambda>cs. Inr (updated\<lparr>is_capabilities := cs\<rparr>)))
      else Inr s)"

definition replay_step :: "(json \<Rightarrow> string) \<Rightarrow> entry \<Rightarrow> identity_state \<Rightarrow> identity_state res" where
  "replay_step py_str e s =
     (case content_json e of
        None \<Rightarrow> Inl (ValueError ''JSONDecodeError'')
      | Some data \<Rightarrow>
          rbind (jget ''event_type'' JNull data) (\<lambda>et.
          rbind (jget ''payload'' JNull data) (\<lambda>p.
          rbind (jget ''identity_version'' (JInt 0) data) (\<lambda>iv.
          rbind (version_number iv) (\<lambda>n.
          rbind (jget ''identity_version'' JNull data) (\<lambda>iv0.
            let payload = (if truthy p then p else JObj []) in
            rbind (apply_event py_str et payload (timestamp e) (s\<lparr>is_identity_version := max (is_identity_version s) n\<rparr>)) (\<lambda>s1.
            rbind (summary_for_event py_str et payload) (\<lambda>summary.
              Inr (s1\<lparr>is_timeline := is_timeline s1 @
                     [JObj [(''event_type'', et), (''identity_version'', iv0), (''timestamp'', JStr (isoformat (timestamp e))),
                        (''summary'', summary)]]\<rparr>)))))))))"

definition blank_state :: "string \<Rightarrow> nat \<Rightarrow> identity_state" where
  "blank_state agent n =
     \<lparr>is_agent_id = agent, is_identity_version = 0, is_purpose = [], is_capabilities = [], is_constraints = [], is_model_id = None,
      is_config_hash = None, is_created_by = [], is_genesis_timestamp = None, is_last_updated = None, is_event_count = n, is_timeline = []\<rparr>"

definition no_genesis :: "string \<Rightarrow> py_error" where
  "no_genesis agent = ValueError (''No genesis event found for agent '' @ agent)"

definition replay_events :: "(json \<Rightarrow> string) \<Rightarrow> string \<Rightarrow> entry list \<Rightarrow> identity_state res" where
  "replay_events py_str agent es =
     (if es = [] then Inl (no_genesis agent)
      else
        (case content_json (hd es) of
           None \<Rightarrow> Inl (ValueError ''JSONDecodeError'')
         | Some first \<Rightarrow>
             rbind (jget ''event_type'' JNull first) (\<lambda>t.
               if t \<noteq> JStr ''genesis'' then Inl (no_genesis agent)
               else fold_res (replay_step py_str) es (blank_state agent (length es)))))"

definition REPLAY_LIMIT :: int where "REPLAY_LIMIT = 100000"

definition replay_identity :: "(json \<Rightarrow> string) \<Rightarrow> string \<Rightarrow> datetime option \<Rightarrow> (fs, identity_state) op" where
  "replay_identity py_str agent up_to =
     sbind (read IDENTITY_SHARD 0 REPLAY_LIMIT) (\<lambda>raw.
       of_res (rbind (agent_events agent up_to (rev raw)) (\<lambda>es. rbind (sort_events es) (replay_events py_str agent))))"

text \<open>Two times are equal if their instants are, and both or none have a zone.\<close>

definition same_time :: "datetime option \<Rightarrow> datetime option \<Rightarrow> bool" where
  "same_time a b =
     (case (a, b) of (None, None) \<Rightarrow> True | (Some x, Some y) \<Rightarrow> (tz x = None) = (tz y = None) \<and> instant x = instant y | _ \<Rightarrow> False)"

text \<open>The names of the fields that differ; the report shows them before and after.\<close>

definition diff_identity :: "identity_state \<Rightarrow> identity_state \<Rightarrow> string list" where
  "diff_identity a b =
     map fst (filter (\<lambda>(k, same). \<not> same)
       [(''agent_id'', is_agent_id a = is_agent_id b), (''identity_version'', is_identity_version a = is_identity_version b),
        (''purpose'', is_purpose a = is_purpose b), (''capabilities'', is_capabilities a = is_capabilities b),
        (''constraints'', is_constraints a = is_constraints b), (''model_id'', is_model_id a = is_model_id b),
        (''config_hash'', is_config_hash a = is_config_hash b), (''created_by'', is_created_by a = is_created_by b),
        (''genesis_timestamp'', same_time (is_genesis_timestamp a) (is_genesis_timestamp b)),
        (''last_updated'', same_time (is_last_updated a) (is_last_updated b)),
        (''event_count'', is_event_count a = is_event_count b), (''timeline'', is_timeline a = is_timeline b)])"

section \<open>The guard\<close>

definition check_genesis_exists :: "string \<Rightarrow> (fs, bool) op" where
  "check_genesis_exists agent =
     sbind (read IDENTITY_SHARD 0 REPLAY_LIMIT) (\<lambda>entries. of_res (any_res (is_genesis agent) entries))"

record continuity =
  ct_status :: string
  ct_agent_id :: string
  ct_identity_version :: int
  ct_event_count :: nat

definition check_continuity :: "(json \<Rightarrow> string) \<Rightarrow> string \<Rightarrow> int \<Rightarrow> (fs, continuity) op" where
  "check_continuity py_str agent window =
     sbind (read ''sessions'' 0 window) (\<lambda>_.
     sbind (check_genesis_exists agent) (\<lambda>found.
       if \<not> found then ret \<lparr>ct_status = ''no_genesis'', ct_agent_id = agent, ct_identity_version = 0, ct_event_count = 0\<rparr>
       else
         sbind (replay_identity py_str agent None) (\<lambda>s.
           ret \<lparr>ct_status = ''consistent'', ct_agent_id = agent, ct_identity_version = is_identity_version s,
                ct_event_count = is_event_count s\<rparr>)))"

text \<open>The reason a check of the key is skipped; \<open>has_keypair\<close> is the answer of the signing object, if there is one.\<close>

definition check_key_identity_binding :: "bool option \<Rightarrow> string" where
  "check_key_identity_binding has_keypair =
     (if has_keypair = None \<or> has_keypair = Some False then ''no signing configured'' else ''not implemented in v1'')"

end
