(* ===== verification/Evolution_Props.thy ===== *)
theory Evolution_Props
  imports Evolution Pylib Samples
begin

text \<open>
  Properties of evolving identities: the replay of an agent's events rebuilds the state that the
  events describe, whatever other agents wrote in between and however often the managers were
  opened again.
\<close>

section \<open>Typed events\<close>

datatype id_event =
    Genesis string "string list" "string list" string
  | Skill_Added string
  | Skill_Removed string
  | Model_Change string
  | Config_Change string
  | Behavior_Change string
  | Capability_Declared "string list"

fun event_type_of :: "id_event \<Rightarrow> string" where
  "event_type_of (Genesis _ _ _ _) = ''genesis''"
| "event_type_of (Skill_Added _) = ''skill_added''"
| "event_type_of (Skill_Removed _) = ''skill_removed''"
| "event_type_of (Model_Change _) = ''model_change''"
| "event_type_of (Config_Change _) = ''config_change''"
| "event_type_of (Behavior_Change _) = ''behavior_change''"
| "event_type_of (Capability_Declared _) = ''capability_declared''"

fun event_payload :: "id_event \<Rightarrow> (string \<times> json) list" where
  "event_payload (Genesis purpose caps cons author) = genesis_payload purpose caps cons author []"
| "event_payload (Skill_Added s) = [(''skill'', JStr s)]"
| "event_payload (Skill_Removed s) = [(''skill'', JStr s)]"
| "event_payload (Model_Change m) = [(''to'', JStr m)]"
| "event_payload (Config_Change h) = [(''config_hash_after'', JStr h)]"
| "event_payload (Behavior_Change d) = [(''description'', JStr d)]"
| "event_payload (Capability_Declared cs) = [(''capabilities'', JList (map JStr cs))]"

text \<open>What the events mean.\<close>

record profile =
  pf_purpose :: string
  pf_capabilities :: "json list"
  pf_constraints :: "json list"
  pf_model :: "string option"
  pf_config :: "string option"
  pf_created_by :: string
  pf_version :: int
  pf_events :: nat

fun describe :: "id_event \<Rightarrow> profile \<Rightarrow> profile" where
  "describe (Genesis purpose caps cons author) p =
     p\<lparr>pf_purpose := purpose, pf_capabilities := map JStr caps, pf_constraints := map JStr cons, pf_created_by := author\<rparr>"
| "describe (Skill_Added s) p =
     (if s \<noteq> [] \<and> JStr s \<notin> set (pf_capabilities p) then p\<lparr>pf_capabilities := pf_capabilities p @ [JStr s]\<rparr> else p)"
| "describe (Skill_Removed s) p = p\<lparr>pf_capabilities := remove1 (JStr s) (pf_capabilities p)\<rparr>"
| "describe (Model_Change m) p = p\<lparr>pf_model := Some m\<rparr>"
| "describe (Config_Change h) p = (if h \<noteq> [] then p\<lparr>pf_config := Some h\<rparr> else p)"
| "describe (Behavior_Change d) p = p"
| "describe (Capability_Declared cs) p = p\<lparr>pf_capabilities := map JStr cs\<rparr>"

text \<open>An event as it was recorded: with the version its writer gave it, and the reason, if any.\<close>

type_synonym recorded = "id_event \<times> int \<times> string option"

definition recorded_payload :: "recorded \<Rightarrow> (string \<times> json) list" where
  "recorded_payload c = (case c of (ev, v, reason) \<Rightarrow> case reason of None \<Rightarrow> event_payload ev | Some r \<Rightarrow> dput ''reason'' (JStr r) (event_payload ev))"

definition profile_step :: "recorded \<Rightarrow> profile \<Rightarrow> profile" where
  "profile_step c p = (case c of (ev, v, _) \<Rightarrow> (describe ev p)\<lparr>pf_version := max (pf_version p) v\<rparr>)"

definition profile_of :: "identity_state \<Rightarrow> profile" where
  "profile_of s =
     \<lparr>pf_purpose = is_purpose s, pf_capabilities = is_capabilities s, pf_constraints = is_constraints s, pf_model = is_model_id s,
      pf_config = is_config_hash s, pf_created_by = is_created_by s, pf_version = is_identity_version s,
      pf_events = is_event_count s\<rparr>"

definition blank_profile :: "nat \<Rightarrow> profile" where
  "blank_profile n = profile_of (blank_state [] n)"

definition event_doc :: "string \<Rightarrow> recorded \<Rightarrow> json" where
  "event_doc agent c = (case c of (ev, v, _) \<Rightarrow> identity_content agent (event_type_of ev) v (recorded_payload c))"

section \<open>The replay of recorded events\<close>

lemma payload_get:
  "jget k dflt (norm (JObj (recorded_payload (ev, v, reason))))
    = Inr (case dget k (recorded_payload (ev, v, reason)) of None \<Rightarrow> dflt | Some x \<Rightarrow> norm x)"
proof -
  have "distinct (map fst (event_payload ev))" by (cases ev) (simp_all add: genesis_payload_def)
  then have "distinct (map fst (recorded_payload (ev, v, reason)))"
    by (simp add: recorded_payload_def distinct_dput split: option.splits)
  then show ?thesis by (rule jget_norm)
qed

lemma event_fields:
  "jget ''event_type'' dflt (norm (event_doc agent (ev, v, reason))) = Inr (JStr (event_type_of ev))"
  "jget ''payload'' dflt (norm (event_doc agent (ev, v, reason))) = Inr (norm (JObj (recorded_payload (ev, v, reason))))"
  "jget ''identity_version'' dflt (norm (event_doc agent (ev, v, reason))) = Inr (JInt v)"
  "jget ''agent_id'' dflt (norm (event_doc agent (ev, v, reason))) = Inr (JStr agent)"
  by (simp_all add: event_doc_def identity_content_def jget_norm del: norm.simps(2))

lemma payload_distinct: "distinct (map fst (recorded_payload c))"
proof -
  obtain ev v reason where c: "c = (ev, v, reason)" by (cases c) auto
  have "distinct (map fst (event_payload ev))" by (cases ev) (simp_all add: genesis_payload_def)
  then show ?thesis unfolding c by (simp add: recorded_payload_def distinct_dput split: option.splits)
qed

lemma norm_texts [simp]: "map norm (map JStr ss) = map JStr ss"
  by simp

lemma get_recorded:
  "dget k (recorded_payload (ev, v, reason))
    = (if k = ''reason'' \<and> reason \<noteq> None then map_option JStr reason else dget k (event_payload ev))"
  by (cases reason) (auto simp: recorded_payload_def)

lemma in_payload: "py_in (JStr k) (norm (JObj (recorded_payload c))) = Inr (dget k (recorded_payload c) \<noteq> None)"
proof -
  have "dget k (sort_key fst (map (\<lambda>(k, v). (k, norm v)) (recorded_payload c))) = map_option norm (dget k (recorded_payload c))"
    by (rule dget_norm [OF payload_distinct])
  then have "dget k (sort_key fst (map (\<lambda>(k, v). (k, norm v)) (recorded_payload c))) \<noteq> None \<longleftrightarrow> dget k (recorded_payload c) \<noteq> None"
    by simp
  then show ?thesis unfolding map_of_eq_None_iff by (simp add: py_in_def)
qed

lemma sub_payload:
  "jsub k (norm (JObj (recorded_payload c))) = (case dget k (recorded_payload c) of None \<Rightarrow> Inl (KeyError k) | Some v \<Rightarrow> Inr (norm v))"
  using dget_norm [OF payload_distinct, of c k] by (simp split: option.splits)

lemma apply_recorded:
  "\<exists>s'. apply_event py_str (JStr (event_type_of ev)) (norm (JObj (recorded_payload (ev, v, reason)))) ts s = Inr s' \<and>
    profile_of s' = describe ev (profile_of s)"
  by (cases ev)
    (auto simp: apply_event_def payload_get get_recorded genesis_payload_def py_iter_def profile_of_def in_payload sub_payload
      fmt_value_def Let_def simp del: norm.simps(2))

lemma summary_recorded:
  "\<exists>t. summary_for_event py_str (JStr (event_type_of ev)) (norm (JObj (recorded_payload (ev, v, reason)))) = Inr t"
  by (cases ev)
    (auto simp: summary_for_event_def payload_get get_recorded genesis_payload_def slice80_def simp del: norm.simps(2))

lemma payload_truthy: "truthy (norm (JObj (recorded_payload c)))"
proof -
  obtain ev v reason where "c = (ev, v, reason)" by (cases c) auto
  then have "recorded_payload c \<noteq> []"
    by (cases ev; cases reason) (simp_all add: recorded_payload_def genesis_payload_def)
  then show ?thesis by (simp add: truthy_norm)
qed

text \<open>An entry of the shard that records an event of the agent.\<close>

definition records_event :: "string \<Rightarrow> entry \<Rightarrow> recorded \<Rightarrow> bool" where
  "records_event agent e c = (content_json e = Some (norm (event_doc agent c)))"

interpretation evolution: event_index "replay_step py_str" "blank_state agent n" profile_of "records_event agent" profile_step
  for py_str :: "json \<Rightarrow> string" and agent :: string and n :: nat
proof
  fix e c and s :: identity_state
  assume r: "records_event agent e c"
  obtain ev v reason where c: "c = (ev, v, reason)" by (cases c) auto
  have n: "version_number (JInt v) = Inr v" by (simp add: version_number_def)
  let ?s = "s\<lparr>is_identity_version := max (is_identity_version s) v\<rparr>"
  obtain s' where s': "apply_event py_str (JStr (event_type_of ev)) (norm (JObj (recorded_payload (ev, v, reason)))) (timestamp e) ?s = Inr s'"
    "profile_of s' = describe ev (profile_of ?s)"
    using apply_recorded by blast
  obtain t where t: "summary_for_event py_str (JStr (event_type_of ev)) (norm (JObj (recorded_payload (ev, v, reason)))) = Inr t"
    using summary_recorded by blast
  have "describe ev (profile_of ?s) = profile_step c (profile_of s)"
    by (cases ev) (simp_all add: profile_step_def c profile_of_def)
  with s'(2) show "\<exists>ix'. replay_step py_str e s = Inr ix' \<and> profile_of ix' = profile_step c (profile_of s)"
    using r payload_truthy [of c]
    by (simp add: replay_step_def records_event_def c event_fields n s'(1) t profile_of_def Let_def del: norm.simps(2))
qed

section \<open>Runs of managers\<close>

text \<open>
  Requests to the managers of several agents on one storage: a manager is opened again, or an
  event happens, with the time and the identifier its entry gets.
\<close>

datatype id_action = Reopen | Happen id_event "string option" stamp

fun is_birth :: "id_event \<Rightarrow> bool" where
  "is_birth (Genesis _ _ _ _) = True"
| "is_birth _ = False"

fun happens :: "sha \<Rightarrow> id_event \<Rightarrow> string option \<Rightarrow> stamp \<Rightarrow> (identity_manager, entry) op" where
  "happens sha (Genesis purpose caps cons author) reason st = create_genesis sha st purpose caps cons author []"
| "happens sha ev reason st = append_event sha st (event_type_of ev) (event_payload ev) reason"

definition manager_of :: "string \<Rightarrow> fs \<times> (string \<Rightarrow> int) \<Rightarrow> identity_manager" where
  "manager_of agent sc = (new_identity_manager (fst sc) agent ''identity'')\<lparr>im_identity_version := snd sc agent\<rparr>"

definition run_identity :: "sha \<Rightarrow> string \<times> id_action \<Rightarrow> fs \<times> (string \<Rightarrow> int) \<Rightarrow> fs \<times> (string \<Rightarrow> int)" where
  "run_identity sha r sc =
     (let agent = fst r;
          m = (case snd r of Reopen \<Rightarrow> new_identity_manager (fst sc) agent ''identity''
               | Happen ev reason st \<Rightarrow> fst (happens sha ev reason st (manager_of agent sc)))
      in (im_storage m, (snd sc)(agent := im_identity_version m)))"

text \<open>What the shard should hold, and the version each manager is at.\<close>

type_synonym id_log = "(string \<times> recorded \<times> datetime) list"

definition born :: "string \<Rightarrow> id_log \<Rightarrow> bool" where
  "born agent log = (\<exists>x \<in> set log. fst x = agent \<and> is_birth (fst (fst (snd x))))"

definition spec_identity :: "string \<times> id_action \<Rightarrow> id_log \<times> (string \<Rightarrow> int) \<Rightarrow> id_log \<times> (string \<Rightarrow> int)" where
  "spec_identity r lc =
     (let agent = fst r; (log, versions) = lc in
      case snd r of
        Reopen \<Rightarrow> (log, versions(agent := 0))
      | Happen ev reason st \<Rightarrow>
          (if is_birth ev \<and> born agent log then (log, versions)
           else (let v = (if is_birth ev then 1 else versions agent + 1)
                 in (log @ [(agent, (ev, v, if is_birth ev then None else reason), fst st)], versions(agent := v)))))"

definition own_events :: "string \<Rightarrow> id_log \<Rightarrow> recorded list" where
  "own_events agent log = map (\<lambda>x. fst (snd x)) (filter (\<lambda>x. fst x = agent) log)"

definition log_entry :: "entry \<Rightarrow> string \<times> recorded \<times> datetime \<Rightarrow> bool" where
  "log_entry e x = (records_event (fst x) e (fst (snd x)) \<and> timestamp e = snd (snd x))"

definition identity_matches :: "sha \<Rightarrow> fs \<times> (string \<Rightarrow> int) \<Rightarrow> id_log \<times> (string \<Rightarrow> int) \<Rightarrow> bool" where
  "identity_matches sha sc lc =
     (snd sc = snd lc \<and> mono_files (fst sc) = [] \<and> (\<exists>es. shard_inv sha IDENTITY_SHARD (fst sc) es \<and> list_all2 log_entry es (fst lc)))"

fun action_ok :: "id_action \<Rightarrow> bool" where
  "action_ok Reopen = True"
| "action_ok (Happen ev reason st) = (valid_dt (fst st) \<and> tz (fst st) \<noteq> None)"

lemma wf_event_doc: "wf_json (event_doc agent c)"
proof -
  obtain ev v reason where c: "c = (ev, v, reason)" by (cases c) auto
  have "wf_json (JObj (event_payload ev))" by (cases ev) (simp_all add: genesis_payload_def list_all_iff)
  then have "wf_json (JObj (recorded_payload c))"
    using payload_distinct [of c] set_dput_subset unfolding c
    by (cases reason) (fastforce simp: recorded_payload_def list_all_iff)+
  then show ?thesis by (simp add: event_doc_def c identity_content_def)
qed

lemma identity_append:
  assumes inv: "shard_inv sha IDENTITY_SHARD s es" and ts: "valid_dt (fst st)"
  shows "\<exists>s' e' r. append sha (fst st) (identity_entry st sid agent (event_type_of ev) v (recorded_payload (ev, v, reason))) s = (s', Inr e') \<and>
    shard_inv sha IDENTITY_SHARD s' (es @ [r]) \<and> mono_files s' = mono_files s \<and> log_entry r (agent, (ev, v, reason), fst st)"
proof -
  let ?e = "identity_entry st sid agent (event_type_of ev) v (recorded_payload (ev, v, reason))"
  have "acceptable ?e" "shard_of ?e = Inr IDENTITY_SHARD" "timestamp ?e = fst st"
    "content ?e = JStr (dumps_sorted compact_ascii (event_doc agent (ev, v, reason)))"
    using ts by (auto simp: identity_entry_def doc_entry_def acceptable_def wf_entry_def shard_of_def IDENTITY_SHARD_def event_doc_def)
  then show ?thesis
    using document_append [OF inv _ _ _ wf_event_doc, of ?e agent "(ev, v, reason)"]
    unfolding doc_written_def log_entry_def records_event_def by fastforce
qed

lemma genesis_entry:
  assumes "log_entry e x"
  shows "is_genesis agent e = Inr (fst x = agent \<and> is_birth (fst (fst (snd x))))"
proof -
  obtain a ev v reason ts where x: "x = (a, (ev, v, reason), ts)" by (metis prod.exhaust)
  have "event_type_of ev = ''genesis'' \<longleftrightarrow> is_birth ev" by (cases ev) simp_all
  then show ?thesis
    using assms by (auto simp: log_entry_def records_event_def x is_genesis_def event_fields simp del: norm.simps(2))
qed

lemma all2_left: "list_all2 P xs ys \<Longrightarrow> x \<in> set xs \<Longrightarrow> \<exists>y \<in> set ys. P x y"
  by (induction rule: list_all2_induct) auto

lemma all2_right: "list_all2 P xs ys \<Longrightarrow> y \<in> set ys \<Longrightarrow> \<exists>x \<in> set xs. P x y"
  by (induction rule: list_all2_induct) auto

lemma genesis_found:
  assumes "list_all2 log_entry es log"
  shows "any_res (is_genesis agent) (rev es) = Inr (born agent log)"
proof -
  have "any_res (is_genesis agent) (rev es) = Inr (\<exists>e \<in> set (rev es). \<exists>x. log_entry e x \<and> fst x = agent \<and> is_birth (fst (fst (snd x))))"
  proof (rule any_res_Inr)
    fix e
    assume "e \<in> set (rev es)"
    then obtain x where x: "log_entry e x" using all2_left [OF assms] by (metis set_rev)
    have "(fst y = agent \<and> is_birth (fst (fst (snd y)))) = (fst x = agent \<and> is_birth (fst (fst (snd x))))" if "log_entry e y" for y
      using genesis_entry [OF x, of agent] genesis_entry [OF that, of agent] by simp
    then show "is_genesis agent e = Inr (\<exists>x. log_entry e x \<and> fst x = agent \<and> is_birth (fst (fst (snd x))))"
      unfolding genesis_entry [OF x] using x by blast
  qed
  also have "(\<exists>e \<in> set (rev es). \<exists>x. log_entry e x \<and> fst x = agent \<and> is_birth (fst (fst (snd x)))) \<longleftrightarrow> born agent log"
  proof
    assume "\<exists>e \<in> set (rev es). \<exists>x. log_entry e x \<and> fst x = agent \<and> is_birth (fst (fst (snd x)))"
    then obtain e x where e: "e \<in> set es" "log_entry e x" "fst x = agent \<and> is_birth (fst (fst (snd x)))" by auto
    then obtain y where y: "y \<in> set log" "log_entry e y" using all2_left [OF assms] by blast
    then show "born agent log" using e genesis_entry [OF e(2), of agent] genesis_entry [OF y(2), of agent] by (auto simp: born_def)
  next
    assume "born agent log"
    then obtain x where x: "x \<in> set log" "fst x = agent" "is_birth (fst (fst (snd x)))" by (auto simp: born_def)
    then obtain e where "e \<in> set es" "log_entry e x" using all2_right [OF assms] by blast
    then show "\<exists>e \<in> set (rev es). \<exists>x. log_entry e x \<and> fst x = agent \<and> is_birth (fst (fst (snd x)))"
      using x(2,3) unfolding set_rev by blast
  qed
  finally show ?thesis .
qed

lemma run_identity_step:
  assumes m: "identity_matches sha sc lc" and len: "length (fst lc) \<le> 10000" and ok: "action_ok (snd r)"
  shows "identity_matches sha (run_identity sha r sc) (spec_identity r lc)"
proof -
  obtain s cnt where sc: "sc = (s, cnt)" by (cases sc)
  obtain log where lc: "lc = (log, cnt)" using m sc by (cases lc) (auto simp: identity_matches_def)
  obtain agent act where r: "r = (agent, act)" by (cases r)
  obtain es where inv: "shard_inv sha IDENTITY_SHARD s es" and mono: "mono_files s = []" and l: "list_all2 log_entry es log"
    using m sc lc by (auto simp: identity_matches_def)
  show ?thesis
  proof (cases act)
    case Reopen
    then show ?thesis using inv mono l
      by (auto simp: run_identity_def spec_identity_def r sc lc new_identity_manager_def identity_matches_def)
  next
    case (Happen ev reason st)
    have ts: "valid_dt (fst st)" using ok r Happen by simp
    note app = identity_append [OF inv ts, of "''identity''" agent]
    show ?thesis
    proof (cases ev)
      case (Genesis purpose caps cons author)
      have len: "length es \<le> 10000" using list_all2_lengthD [OF l] len lc by simp
      have rd: "read IDENTITY_SHARD 0 10000 s = (s, Inr (rev es))" using read_inv [OF inv mono, of 0 10000] len by simp
      obtain s' e' r' where a: "append sha (fst st) (identity_entry st ''identity'' agent ''genesis'' 1 (genesis_payload purpose caps cons author [])) s = (s', Inr e')"
        "shard_inv sha IDENTITY_SHARD s' (es @ [r'])" "mono_files s' = mono_files s" "log_entry r' (agent, (ev, 1, None), fst st)"
        using app [of ev 1 None] by (auto simp: Genesis recorded_payload_def)
      have "run_identity sha r sc = (if born agent log then (s, cnt(agent := cnt agent)) else (s', cnt(agent := 1)))"
        by (simp add: run_identity_def r Happen Genesis create_genesis_def manager_of_def new_identity_manager_def sc sbind_def
            in_identity_def rd of_res_def genesis_found [OF l] raise_def a(1))
      then show ?thesis
        using inv mono l a(2-4) by (auto simp: spec_identity_def r Happen Genesis lc identity_matches_def intro!: list_all2_appendI)
    qed (use app [of ev "cnt agent + 1" reason] inv mono l in
        \<open>auto simp: run_identity_def spec_identity_def r Happen append_event_def manager_of_def new_identity_manager_def sc lc Let_def
          in_identity_def VALID_EVENT_TYPES_def recorded_payload_def identity_matches_def intro!: list_all2_appendI split: option.splits\<close>)
  qed
qed

definition times_of :: "(string \<times> id_action) list \<Rightarrow> int list" where
  "times_of rs = concat (map (\<lambda>r. case snd r of Reopen \<Rightarrow> [] | Happen ev reason st \<Rightarrow> [instant (fst st)]) rs)"

definition zoned :: "id_log \<Rightarrow> bool" where
  "zoned log = (\<forall>x \<in> set log. tz (snd (snd x)) \<noteq> None)"

definition log_times :: "id_log \<Rightarrow> int list" where
  "log_times log = map (\<lambda>x. instant (snd (snd x))) log"

lemma log_snoc:
  "log_times (log @ [(a, c, ts)]) = log_times log @ [instant ts]" "zoned (log @ [(a, c, ts)]) \<longleftrightarrow> zoned log \<and> tz ts \<noteq> None"
  by (auto simp: log_times_def zoned_def)

lemma spec_log:
  assumes "\<forall>r \<in> set rs. action_ok (snd r)" and "sorted (times_of rs)"
  shows "length (fst (fold spec_identity rs ([], \<lambda>_. 0))) \<le> length rs \<and> zoned (fst (fold spec_identity rs ([], \<lambda>_. 0))) \<and>
    set (log_times (fst (fold spec_identity rs ([], \<lambda>_. 0)))) \<subseteq> set (times_of rs) \<and> sorted (log_times (fst (fold spec_identity rs ([], \<lambda>_. 0))))"
  using assms
proof (induction rs rule: rev_induct)
  case Nil
  then show ?case by (simp add: zoned_def log_times_def)
next
  case (snoc r rs)
  obtain agent act where r: "r = (agent, act)" by (cases r)
  obtain log versions where lc: "fold spec_identity rs ([], \<lambda>_. 0) = (log, versions)" by fastforce
  have t: "times_of (rs @ [r]) = times_of rs @ times_of [r]" by (simp add: times_of_def)
  have IH: "length log \<le> length rs" "zoned log" "set (log_times log) \<subseteq> set (times_of rs)" "sorted (log_times log)"
    using snoc lc t by (auto simp: sorted_append)
  have step: "fold spec_identity (rs @ [r]) ([], \<lambda>_. 0) = spec_identity r (log, versions)" by (simp add: lc)
  show ?case
  proof (cases act)
    case Reopen
    then have "fst (spec_identity r (log, versions)) = log" by (simp add: spec_identity_def r)
    then show ?thesis unfolding step t using IH by auto
  next
    case (Happen ev reason st)
    then have le: "\<forall>x \<in> set (times_of rs). x \<le> instant (fst st)" "tz (fst st) \<noteq> None" "times_of [r] = [instant (fst st)]"
      using snoc.prems t by (auto simp: sorted_append times_of_def r)
    have "fst (spec_identity r (log, versions)) = log \<or>
      (\<exists>c. fst (spec_identity r (log, versions)) = log @ [(agent, c, fst st)])"
      by (auto simp: spec_identity_def r Happen Let_def)
    moreover have "\<forall>x \<in> set (log_times log). x \<le> instant (fst st)" using IH(3) le(1) by blast
    ultimately show ?thesis unfolding step t using IH le by (auto simp: log_snoc sorted_append)
  qed
qed

lemma run_identity_matches:
  assumes "\<forall>r \<in> set rs. action_ok (snd r)" and "sorted (times_of rs)" and "length rs \<le> 10000"
  shows "identity_matches sha (fold (run_identity sha) rs (empty_fs, \<lambda>_. 0)) (fold spec_identity rs ([], \<lambda>_. 0))"
  using assms
proof (induction rs rule: rev_induct)
  case Nil
  then show ?case by (simp add: identity_matches_def)
next
  case (snoc r rs)
  have "sorted (times_of rs)" using snoc.prems(2) by (simp add: times_of_def sorted_append)
  then show ?case
    using snoc spec_log [of rs] by (auto intro!: run_identity_step)
qed

lemma own_entries:
  assumes "list_all2 log_entry es log"
  shows "\<exists>es'. agent_events agent None es = Inr es' \<and> list_all2 log_entry es' (filter (\<lambda>x. fst x = agent) log)"
  using assms
proof (induction rule: list_all2_induct)
  case (Cons e es x log)
  obtain a ev v reason ts where x: "x = (a, (ev, v, reason), ts)" by (metis prod.exhaust)
  then have "content_json e = Some (norm (event_doc a (ev, v, reason)))" using Cons(1) by (simp add: log_entry_def records_event_def)
  then show ?case using Cons x by (auto simp: event_fields within_def simp del: norm.simps(2))
qed simp

lemma log_entry_times: "list_all2 log_entry es log \<Longrightarrow> map timestamp es = map (\<lambda>x. snd (snd x)) log"
  by (induction rule: list_all2_induct) (auto simp: log_entry_def)

lemma sorted_own: "sorted (log_times log) \<Longrightarrow> sorted (log_times (filter P log))"
  by (induction log) (auto simp: log_times_def)

lemma sort_own:
  assumes "list_all2 log_entry es log" and "zoned log" and "sorted (log_times log)"
  shows "sort_events es = Inr es"
proof -
  have t: "map timestamp es = map (\<lambda>x. snd (snd x)) log" by (rule log_entry_times [OF assms(1)])
  have "set (map timestamp es) = set (map (\<lambda>x. snd (snd x)) log)" by (simp only: t)
  then have "tz (timestamp e) \<noteq> None" if "e \<in> set es" for e using assms(2) that unfolding zoned_def by (metis (no_types, lifting) image_iff set_map)
  moreover have "map (\<lambda>e. instant (timestamp e)) es = log_times log"
    using arg_cong [OF t, of "map instant"] by (simp add: log_times_def comp_def)
  ultimately show ?thesis using assms(3) by (auto simp: sort_events_def sort_key_id)
qed

lemma own_records:
  "list_all2 log_entry es xs \<Longrightarrow> \<forall>x \<in> set xs. fst x = agent \<Longrightarrow> list_all2 (records_event agent) es (map (\<lambda>x. fst (snd x)) xs)"
  by (induction rule: list_all2_induct) (auto simp: log_entry_def)

text \<open>
  C39: whatever managers of several agents did on one storage, the replay of an agent gives the
  profile its events describe, in order and with all of them counted, as long as the first one
  is its genesis; an agent whose first event is another one, or that has none, cannot be
  replayed. The version is the highest one written: a manager that is opened again starts
  counting anew. Times do not go back, and the shard stays within what the managers read.
\<close>

theorem identity_replays:
  assumes "\<forall>r \<in> set rs. action_ok (snd r)" and "sorted (times_of rs)" and "length rs \<le> 10000"
  shows "\<exists>result. replay_identity py_str agent None (fst (fold (run_identity sha) rs (empty_fs, \<lambda>_. 0)))
      = (fst (fold (run_identity sha) rs (empty_fs, \<lambda>_. 0)), result) \<and>
    (case own_events agent (fst (fold spec_identity rs ([], \<lambda>_. 0))) of
       [] \<Rightarrow> result = Inl (no_genesis agent)
     | c # cs \<Rightarrow>
         if is_birth (fst c) then \<exists>s. result = Inr s \<and> profile_of s = fold profile_step (c # cs) (blank_profile (Suc (length cs)))
         else result = Inl (no_genesis agent))"
proof -
  let ?s = "fst (fold (run_identity sha) rs (empty_fs, \<lambda>_. 0))" and ?log = "fst (fold spec_identity rs ([], \<lambda>_. 0))"
  let ?own = "filter (\<lambda>x. fst x = agent) ?log"
  obtain es where inv: "shard_inv sha IDENTITY_SHARD ?s es" "mono_files ?s = []" and l: "list_all2 log_entry es ?log"
    using run_identity_matches [OF assms, of sha] by (auto simp: identity_matches_def)
  have log: "length ?log \<le> 10000" "zoned ?log" "sorted (log_times ?log)" using spec_log [OF assms(1,2)] assms(3) by auto
  then have rd: "read IDENTITY_SHARD 0 REPLAY_LIMIT ?s = (?s, Inr (rev es))"
    using read_inv [OF inv, of 0 REPLAY_LIMIT] list_all2_lengthD [OF l] by (simp add: REPLAY_LIMIT_def)
  obtain es' where es': "agent_events agent None es = Inr es'" "list_all2 log_entry es' ?own" using own_entries [OF l] by blast
  have "zoned ?own" using log(2) by (simp add: zoned_def)
  then have "sort_events es' = Inr es'" using sort_own [OF es'(2)] sorted_own [OF log(3)] by blast
  then have run: "replay_identity py_str agent None ?s = (?s, replay_events py_str agent es')"
    by (simp add: replay_identity_def sbind_def rd of_res_def es'(1))
  have recs: "list_all2 (records_event agent) es' (own_events agent ?log)"
    unfolding own_events_def by (rule own_records [OF es'(2)]) simp
  show ?thesis
  proof (cases "own_events agent ?log")
    case Nil
    then show ?thesis using recs by (simp add: run replay_events_def)
  next
    case (Cons c cs)
    then obtain e rest where e: "es' = e # rest" "records_event agent e c" using recs by (auto simp: list_all2_Cons2)
    obtain ev v reason where c: "c = (ev, v, reason)" by (cases c) auto
    have birth: "event_type_of ev = ''genesis'' \<longleftrightarrow> is_birth ev" by (cases ev) simp_all
    have n: "length es' = Suc (length cs)" using list_all2_lengthD [OF recs] Cons by simp
    obtain s where s: "fold_res (replay_step py_str) es' (blank_state agent (Suc (length cs))) = Inr s"
      "profile_of s = fold profile_step (c # cs) (blank_profile (Suc (length cs)))"
      using evolution.index_of_records [OF recs, of py_str "Suc (length cs)"] unfolding Cons
      by (auto simp: blank_profile_def blank_state_def profile_of_def)
    have "replay_events py_str agent es' = (if is_birth ev then Inr s else Inl (no_genesis agent))"
      using e s(1) n birth by (auto simp: replay_events_def records_event_def c event_fields simp del: norm.simps(2) fold_res.simps)
    then show ?thesis using s(2) unfolding run Cons by (auto simp: c)
  qed
qed

text \<open>Three events of one agent whose manager is opened again: the version ends at two.\<close>

definition sample_requests :: "(string \<times> id_action) list" where
  "sample_requests =
     [(''a'', Happen (Genesis ''guide'' [''x''] [''k''] ''me'') None (sample_time, ''1'')),
      (''b'', Happen (Skill_Added ''z'') None (sample_time, ''2'')),
      (''a'', Happen (Skill_Added ''y'') None (sample_time, ''3'')), (''a'', Reopen),
      (''a'', Happen (Skill_Removed ''x'') (Some ''old'') (sample_time, ''4''))]"

theorem identity_replays_witness:
  "(\<exists>s. snd (replay_identity (\<lambda>_. []) ''a'' None (fst (fold (run_identity (\<lambda>m. ''h'')) sample_requests (empty_fs, \<lambda>_. 0)))) = Inr s \<and>
      pf_capabilities (profile_of s) = [JStr ''y''] \<and> pf_version (profile_of s) = 2 \<and> pf_events (profile_of s) = 3) \<and>
   snd (replay_identity (\<lambda>_. []) ''b'' None (fst (fold (run_identity (\<lambda>m. ''h'')) sample_requests (empty_fs, \<lambda>_. 0)))) = Inl (no_genesis ''b'')"
proof -
  let ?log = "fst (fold spec_identity sample_requests ([], \<lambda>_. 0))"
  have ok: "\<forall>r \<in> set sample_requests. action_ok (snd r)" "sorted (times_of sample_requests)" "length sample_requests \<le> 10000"
    by (simp_all add: sample_requests_def sample_tz times_of_def)
  have a: "own_events ''a'' ?log = [(Genesis ''guide'' [''x''] [''k''] ''me'', 1, None), (Skill_Added ''y'', 2, None), (Skill_Removed ''x'', 1, Some ''old'')]"
    and b: "own_events ''b'' ?log = [(Skill_Added ''z'', 1, None)]"
    by (simp_all add: sample_requests_def spec_identity_def own_events_def born_def Let_def)
  have p: "fold profile_step (own_events ''a'' ?log) (blank_profile 3)
    = \<lparr>pf_purpose = ''guide'', pf_capabilities = [JStr ''y''], pf_constraints = [JStr ''k''], pf_model = None, pf_config = None,
       pf_created_by = ''me'', pf_version = 2, pf_events = 3\<rparr>"
    by (simp add: a profile_step_def blank_profile_def blank_state_def profile_of_def)
  show ?thesis
    using identity_replays [OF ok, of "\<lambda>_. []" "''a''" "\<lambda>m. ''h''"] identity_replays [OF ok, of "\<lambda>_. []" "''b''" "\<lambda>m. ''h''"] p
    unfolding a b by (auto simp: numeral_3_eq_3)
qed

end
