(* ===== verification/Payload.thy ===== *)
theory Payload
  imports Regime Bytes
begin

text \<open>
  \<^verbatim>\<open>src/dsm/multiversx/payload.py\<close>: the DSM01 data field of an anchor transaction. Bytes are
  characters by their code, as in Bytes; the shard id is a text of arbitrary code points here, since
  the payload carries its UTF-8 form and reading it back has to reject what is no UTF-8.
\<close>

section \<open>UTF-8 of arbitrary texts\<close>

type_synonym code_points = "nat list"

text \<open>Surrogates and numbers beyond 0x10FFFF have no UTF-8 form.\<close>

definition utf8_point :: "nat \<Rightarrow> string option" where
  "utf8_point n =
     (if n < 128 then Some [char_of n]
      else if n < 2048 then Some [char_of (192 + n div 64), char_of (128 + n mod 64)]
      else if n < 65536 then
        (if 55296 \<le> n \<and> n < 57344 then None
         else Some [char_of (224 + n div 4096), char_of (128 + n div 64 mod 64), char_of (128 + n mod 64)])
      else if n < 1114112 then
        Some [char_of (240 + n div 262144), char_of (128 + n div 4096 mod 64), char_of (128 + n div 64 mod 64), char_of (128 + n mod 64)]
      else None)"

fun utf8_encode :: "code_points \<Rightarrow> string option" where
  "utf8_encode [] = Some []"
| "utf8_encode (n # ns) =
     (case (utf8_point n, utf8_encode ns) of (Some b, Some bs) \<Rightarrow> Some (b @ bs) | _ \<Rightarrow> None)"

definition continuation :: "char \<Rightarrow> bool" where
  "continuation c = (128 \<le> (of_char c :: nat) \<and> (of_char c :: nat) < 192)"

text \<open>The first code point of a byte string, and the bytes after it: no overlong forms, no surrogates.\<close>

definition next_point :: "string \<Rightarrow> (nat \<times> string) option" where
  "next_point s =
     (case s of
        [] \<Rightarrow> None
      | a # r \<Rightarrow>
          (let n = of_char a :: nat; k = (\<lambda>c. of_char c - 128 :: nat) in
           if n < 128 then Some (n, r)
           else if n < 192 then None
           else if n < 224 then
             (case r of
                b # r' \<Rightarrow>
                  (let p = (n - 192) * 64 + k b in if continuation b \<and> 128 \<le> p then Some (p, r') else None)
              | _ \<Rightarrow> None)
           else if n < 240 then
             (case r of
                b # c # r' \<Rightarrow>
                  (let p = (n - 224) * 4096 + k b * 64 + k c in
                   if continuation b \<and> continuation c \<and> 2048 \<le> p \<and> \<not> (55296 \<le> p \<and> p < 57344) then Some (p, r') else None)
              | _ \<Rightarrow> None)
           else if n < 248 then
             (case r of
                b # c # d # r' \<Rightarrow>
                  (let p = (n - 240) * 262144 + k b * 4096 + k c * 64 + k d in
                   if continuation b \<and> continuation c \<and> continuation d \<and> 65536 \<le> p \<and> p < 1114112 then Some (p, r') else None)
              | _ \<Rightarrow> None)
           else None))"

lemma next_point_shorter: "next_point s = Some (n, r) \<Longrightarrow> length r < length s"
  by (auto simp: next_point_def Let_def split: list.splits if_splits)

function utf8_decode :: "string \<Rightarrow> code_points option" where
  "utf8_decode s =
     (if s = [] then Some []
      else (case next_point s of None \<Rightarrow> None | Some (n, r) \<Rightarrow> map_option ((#) n) (utf8_decode r)))"
  by pat_completeness auto
termination
  by (relation "measure length") (auto dest: next_point_shorter)

declare utf8_decode.simps [simp del]

section \<open>The format\<close>

definition MAGIC :: string where "MAGIC = ''DSM01''"
definition SHARD_ID_MAX_BYTES :: nat where "SHARD_ID_MAX_BYTES = 64"
definition LAST_HASH_BYTES :: nat where "LAST_HASH_BYTES = 32"
definition ENTRY_NONCE_BYTES :: nat where "ENTRY_NONCE_BYTES = 8"
definition INTENT_ID_BYTES :: nat where "INTENT_ID_BYTES = 16"
definition MIN_PAYLOAD_BYTES :: nat where
  "MIN_PAYLOAD_BYTES = length MAGIC + 1 + 1 + LAST_HASH_BYTES + ENTRY_NONCE_BYTES + INTENT_ID_BYTES"
definition MAX_PAYLOAD_BYTES :: nat where
  "MAX_PAYLOAD_BYTES = length MAGIC + 1 + SHARD_ID_MAX_BYTES + LAST_HASH_BYTES + ENTRY_NONCE_BYTES + INTENT_ID_BYTES"
definition ABSOLUTE_DATA_FIELD_CEILING :: nat where "ABSOLUTE_DATA_FIELD_CEILING = 255"

lemmas payload_sizes = MIN_PAYLOAD_BYTES_def MAX_PAYLOAD_BYTES_def SHARD_ID_MAX_BYTES_def LAST_HASH_BYTES_def
  ENTRY_NONCE_BYTES_def INTENT_ID_BYTES_def MAGIC_def ABSOLUTE_DATA_FIELD_CEILING_def

text \<open>The fields of an intent that the payload carries; a UUID is given by its bytes.\<close>

record payload_intent =
  pi_shard_id :: code_points
  pi_last_hash :: string
  pi_entry_nonce :: int
  pi_intent_id :: string

record decoded_payload =
  dp_shard_id :: code_points
  dp_last_hash :: string
  dp_entry_nonce :: int
  dp_intent_id :: string

text \<open>\<^verbatim>\<open>struct.pack(">Q", v)\<close> and \<^verbatim>\<open>struct.unpack\<close>.\<close>

fun be_bytes :: "nat \<Rightarrow> nat \<Rightarrow> string" where
  "be_bytes 0 n = []"
| "be_bytes (Suc k) n = be_bytes k (n div 256) @ [char_of (n mod 256)]"

definition be_value :: "string \<Rightarrow> nat" where
  "be_value s = foldl (\<lambda>n c. 256 * n + of_char c) 0 s"

definition pack_q :: "int \<Rightarrow> string option" where
  "pack_q v = (if 0 \<le> v \<and> v < 2 ^ 64 then Some (be_bytes 8 (nat v)) else None)"

text \<open>\<^verbatim>\<open>last_hash.hex()\<close> with its prefix.\<close>

definition as_hex_last_hash :: "decoded_payload \<Rightarrow> string" where
  "as_hex_last_hash p = ''0x'' @ to_hex (dp_last_hash p)"

section \<open>Encoding\<close>

definition encode_payload :: "payload_intent \<Rightarrow> string mres" where
  "encode_payload i =
     (case utf8_encode (pi_shard_id i) of
        None \<Rightarrow> Inl (PyErr (ValueError ''UnicodeEncodeError''))
      | Some sid \<Rightarrow>
          (if sid = [] then Inl PayloadError
           else if SHARD_ID_MAX_BYTES < length sid then Inl PayloadError
           else
             (let hex = pi_last_hash i;
                  digits = (if startswith ''0x'' hex \<or> startswith ''0X'' hex then drop 2 hex else hex)
              in case from_hex digits of
                   None \<Rightarrow> Inl PayloadError
                 | Some h \<Rightarrow>
                     (if length h \<noteq> LAST_HASH_BYTES then Inl PayloadError
                      else
                        (case pack_q (pi_entry_nonce i) of
                           None \<Rightarrow> Inl PayloadError
                         | Some q \<Rightarrow>
                             (if length (pi_intent_id i) \<noteq> INTENT_ID_BYTES then Inl PayloadError
                              else
                                (let result = MAGIC @ [char_of (length sid)] @ sid @ h @ q @ pi_intent_id i in
                                 if ABSOLUTE_DATA_FIELD_CEILING < length result then Inl PayloadError else Inr result)))))))"

section \<open>Decoding\<close>

definition slice :: "nat \<Rightarrow> nat \<Rightarrow> string \<Rightarrow> string" where
  "slice i n s = take n (drop i s)"

text \<open>
  The length is settled before the fields are cut out, so that unpacking the nonce and building
  the UUID cannot fail and nothing trails.
\<close>

definition decode_payload :: "string \<Rightarrow> decoded_payload mres" where
  "decode_payload data =
     (if length data < MIN_PAYLOAD_BYTES then Inl PayloadError
      else if MAX_PAYLOAD_BYTES < length data then Inl PayloadError
      else if take (length MAGIC) data \<noteq> MAGIC then Inl PayloadError
      else
        (let n = of_char (data ! length MAGIC) :: nat in
         if n = 0 \<or> SHARD_ID_MAX_BYTES < n then Inl PayloadError
         else if length data \<noteq> length MAGIC + 1 + n + LAST_HASH_BYTES + ENTRY_NONCE_BYTES + INTENT_ID_BYTES then Inl PayloadError
         else
           (let cursor = length MAGIC + 1; c1 = cursor + n; c2 = c1 + LAST_HASH_BYTES; c3 = c2 + ENTRY_NONCE_BYTES
            in case utf8_decode (slice cursor n data) of
                 None \<Rightarrow> Inl PayloadError
               | Some sid \<Rightarrow>
                   Inr \<lparr>dp_shard_id = sid, dp_last_hash = slice c1 LAST_HASH_BYTES data,
                        dp_entry_nonce = int (be_value (slice c2 ENTRY_NONCE_BYTES data)),
                        dp_intent_id = slice c3 INTENT_ID_BYTES data\<rparr>)))"

definition is_dsm_anchor_payload :: "string \<Rightarrow> bool" where
  "is_dsm_anchor_payload data =
     (if length data < MIN_PAYLOAD_BYTES \<or> MAX_PAYLOAD_BYTES < length data then False
      else if take (length MAGIC) data \<noteq> MAGIC then False
      else (let n = of_char (data ! length MAGIC) :: nat in 1 \<le> n \<and> n \<le> SHARD_ID_MAX_BYTES))"

end
