(* ===== verification/Payload_Props.thy ===== *)
theory Payload_Props
  imports Payload
begin

text \<open>
  Properties of the anchor payload: which intents have one, its size, and that reading a payload
  is exactly the inverse of writing it.
\<close>

section \<open>UTF-8\<close>

lemma byte_code: "m < 256 \<Longrightarrow> of_char (char_of m :: char) = m"
  for m :: nat
  by (simp add: of_char_of)

lemma continuation_char: "k < 64 \<Longrightarrow> continuation (char_of (128 + k))"
  for k :: nat
  by (simp add: continuation_def byte_code)

lemma base64_digits:
  fixes n :: nat
  shows "n div 4096 * 4096 + n div 64 mod 64 * 64 + n mod 64 = n"
    and "n div 262144 * 262144 + n div 4096 mod 64 * 4096 + n div 64 mod 64 * 64 + n mod 64 = n"
proof -
  have d: "n div 4096 = n div 64 div 64" "n div 262144 = n div 64 div 64 div 64" by (simp_all add: div_mult2_eq [symmetric])
  have "k div 64 * 64 + k mod 64 = k" for k :: nat by simp
  from this [of n] this [of "n div 64"] this [of "n div 64 div 64"]
  show "n div 4096 * 4096 + n div 64 mod 64 * 64 + n mod 64 = n"
    and "n div 262144 * 262144 + n div 4096 mod 64 * 4096 + n div 64 mod 64 * 64 + n mod 64 = n"
    unfolding d by linarith+
qed

lemma last_digit: "(z :: nat) < 64 \<Longrightarrow> (q * 64 + z) div 64 = q \<and> (q * 64 + z) mod 64 = z"
  by simp

lemma base64_three:
  fixes x y z :: nat
  assumes "y < 64" "z < 64"
  shows "(x * 4096 + y * 64 + z) div 64 = x * 64 + y" "(x * 4096 + y * 64 + z) mod 64 = z" "(x * 4096 + y * 64 + z) div 4096 = x"
proof -
  have e: "x * 4096 + y * 64 + z = (x * 64 + y) * 64 + z" by simp
  show d: "(x * 4096 + y * 64 + z) div 64 = x * 64 + y" and "(x * 4096 + y * 64 + z) mod 64 = z"
    unfolding e using last_digit [OF assms(2)] by blast+
  have "(x * 4096 + y * 64 + z) div 4096 = (x * 4096 + y * 64 + z) div 64 div 64" by (simp add: div_mult2_eq [symmetric])
  then show "(x * 4096 + y * 64 + z) div 4096 = x" unfolding d using last_digit [OF assms(1)] by simp
qed

lemma base64_four:
  fixes w x y z :: nat
  assumes "x < 64" "y < 64" "z < 64"
  shows "(w * 262144 + x * 4096 + y * 64 + z) div 64 = w * 4096 + x * 64 + y"
    "(w * 262144 + x * 4096 + y * 64 + z) mod 64 = z"
    "(w * 262144 + x * 4096 + y * 64 + z) div 4096 = w * 64 + x"
    "(w * 262144 + x * 4096 + y * 64 + z) div 262144 = w"
proof -
  have e: "w * 262144 + x * 4096 + y * 64 + z = (w * 64 + x) * 4096 + y * 64 + z" by simp
  show d: "(w * 262144 + x * 4096 + y * 64 + z) div 64 = w * 4096 + x * 64 + y"
    and "(w * 262144 + x * 4096 + y * 64 + z) mod 64 = z"
    and f: "(w * 262144 + x * 4096 + y * 64 + z) div 4096 = w * 64 + x"
    unfolding e using base64_three [OF assms(2,3), of "w * 64 + x"] by simp_all
  have "(w * 262144 + x * 4096 + y * 64 + z) div 262144 = (w * 262144 + x * 4096 + y * 64 + z) div 4096 div 64"
    by (simp add: div_mult2_eq [symmetric])
  then show "(w * 262144 + x * 4096 + y * 64 + z) div 262144 = w" unfolding f using last_digit [OF assms(1)] by simp
qed

lemma point_next:
  assumes "utf8_point n = Some b"
  shows "next_point (b @ r) = Some (n, r)" and "b \<noteq> []"
proof -
  let ?k = "n mod 64" and ?l = "n div 64 mod 64" and ?m = "n div 4096 mod 64"
  have lt: "?k < 64" "?l < 64" "?m < 64" by simp_all
  note cont = lt [THEN continuation_char]
  have code: "of_char (char_of (128 + ?k) :: char) = 128 + ?k" "of_char (char_of (128 + ?l) :: char) = 128 + ?l"
    "of_char (char_of (128 + ?m) :: char) = 128 + ?m"
    using lt by (auto intro!: byte_code)
  consider "n < 128" | "128 \<le> n" "n < 2048" | "2048 \<le> n" "n < 65536" "\<not> (55296 \<le> n \<and> n < 57344)" | "65536 \<le> n" "n < 1114112"
    using assms by (auto simp: utf8_point_def split: if_splits)
  then have "next_point (b @ r) = Some (n, r) \<and> b \<noteq> []"
  proof cases
    case 1
    then show ?thesis using assms by (auto simp: utf8_point_def next_point_def Let_def of_char_of)
  next
    case 2
    have "b = [char_of (192 + n div 64), char_of (128 + ?k)]" using assms 2 by (simp add: utf8_point_def)
    moreover have "n div 64 < 32" using 2 by simp
    then have "of_char (char_of (192 + n div 64) :: char) = 192 + n div 64" by (intro byte_code) simp
    ultimately show ?thesis using 2 cont code \<open>n div 64 < 32\<close> by (simp add: next_point_def)
  next
    case 3
    have "b = [char_of (224 + n div 4096), char_of (128 + ?l), char_of (128 + ?k)]" using assms 3
      by (simp add: utf8_point_def split: if_splits)
    moreover have hd: "n div 4096 < 16" using 3 by simp
    then have "of_char (char_of (224 + n div 4096) :: char) = 224 + n div 4096" by (intro byte_code) simp
    moreover note base64_digits(1) [of n]
    ultimately show ?thesis using 3 cont code hd by (simp add: next_point_def)
  next
    case 4
    have "b = [char_of (240 + n div 262144), char_of (128 + ?m), char_of (128 + ?l), char_of (128 + ?k)]" using assms 4
      by (simp add: utf8_point_def)
    moreover have hd: "n div 262144 < 8" using 4 by simp
    then have "of_char (char_of (240 + n div 262144) :: char) = 240 + n div 262144" by (intro byte_code) simp
    moreover note base64_digits(2) [of n]
    ultimately show ?thesis using 4 cont code hd by (simp add: next_point_def)
  qed
  then show "next_point (b @ r) = Some (n, r)" and "b \<noteq> []" by simp_all
qed

lemma char_of_eq: "of_char c = n \<Longrightarrow> char_of n = (c :: char)"
  for n :: nat
  by auto

lemma next_point_bytes:
  assumes "next_point s = Some (n, r)"
  shows "\<exists>b. utf8_point n = Some b \<and> s = b @ r"
proof -
  obtain a t where s: "s = a # t" using assms by (cases s) (auto simp: next_point_def)
  let ?a = "of_char a :: nat"
  have a: "?a < 256" by (rule nat_of_char_less_256)
  consider "?a < 128" | "192 \<le> ?a" "?a < 224" | "224 \<le> ?a" "?a < 240" | "240 \<le> ?a" "?a < 248"
    using assms s by (auto simp: next_point_def Let_def split: if_splits)
  then show ?thesis
  proof cases
    case 1
    then show ?thesis using assms s by (auto simp: next_point_def Let_def utf8_point_def)
  next
    case 2
    obtain b where b: "t = b # r" "continuation b" "n = (?a - 192) * 64 + (of_char b - 128)" "128 \<le> n"
      using assms s 2 by (auto simp: next_point_def Let_def split: list.splits if_splits)
    let ?b = "of_char b - 128 :: nat"
    have "?b < 64" using b(2) by (auto simp: continuation_def)
    then have "n div 64 = ?a - 192" "n mod 64 = ?b" "n < 2048" using b(3) 2 by auto
    then have "utf8_point n = Some [a, b]" using b(2,4) 2
      by (auto simp: utf8_point_def continuation_def intro!: char_of_eq)
    then show ?thesis using s b(1) by auto
  next
    case 3
    obtain b c where b: "t = b # c # r" "continuation b" "continuation c"
      "n = (?a - 224) * 4096 + (of_char b - 128) * 64 + (of_char c - 128)" "2048 \<le> n" "\<not> (55296 \<le> n \<and> n < 57344)"
      using assms s 3 by (auto simp: next_point_def Let_def split: list.splits if_splits)
    let ?b = "of_char b - 128 :: nat" and ?c = "of_char c - 128 :: nat"
    have lt: "?b < 64" "?c < 64" using b(2,3) by (auto simp: continuation_def)
    have "n div 64 mod 64 = ?b" "n mod 64 = ?c" "n div 4096 = ?a - 224"
      using base64_three [OF lt, of "?a - 224"] last_digit [OF lt(1)] b(4) by metis+
    moreover have "n < 65536" using b(4) lt 3 by auto
    ultimately have "utf8_point n = Some [a, b, c]" using b(2,3,5,6) lt 3
      by (auto simp: utf8_point_def continuation_def intro!: char_of_eq)
    then show ?thesis using s b(1) by auto
  next
    case 4
    obtain b c d where b: "t = b # c # d # r" "continuation b" "continuation c" "continuation d"
      "n = (?a - 240) * 262144 + (of_char b - 128) * 4096 + (of_char c - 128) * 64 + (of_char d - 128)" "65536 \<le> n" "n < 1114112"
      using assms s 4 by (auto simp: next_point_def Let_def split: list.splits if_splits)
    let ?b = "of_char b - 128 :: nat" and ?c = "of_char c - 128 :: nat" and ?d = "of_char d - 128 :: nat"
    have lt: "?b < 64" "?c < 64" "?d < 64" using b(2-4) by (auto simp: continuation_def)
    note f = base64_four [OF lt, of "?a - 240"]
    have "n div 64 mod 64 = ?c" unfolding b(5) f(1) using last_digit [OF lt(2), of "(?a - 240) * 64 + ?b"] by (simp add: algebra_simps)
    moreover have "n div 4096 mod 64 = ?b" unfolding b(5) f(3) using last_digit [OF lt(1), of "?a - 240"] by blast
    moreover have "n mod 64 = ?d" "n div 262144 = ?a - 240" using f(2,4) b(5) by metis+
    ultimately have "utf8_point n = Some [a, b, c, d]" using b(2-4,6,7) lt 4
      by (auto simp: utf8_point_def continuation_def intro!: char_of_eq)
    then show ?thesis using s b(1) by auto
  qed
qed


lemma utf8_decode_append: "utf8_point n = Some b \<Longrightarrow> utf8_decode (b @ r) = map_option ((#) n) (utf8_decode r)"
  using point_next [of n b] utf8_decode.simps [of "b @ r"] by simp

lemma utf8_round_trip: "utf8_encode ns = Some b \<Longrightarrow> utf8_decode b = Some ns"
proof (induction ns arbitrary: b)
  case Nil
  then show ?case by (simp add: utf8_decode.simps)
next
  case (Cons n ns)
  then obtain c d where "utf8_point n = Some c" "utf8_encode ns = Some d" "b = c @ d" by (auto split: option.splits)
  then show ?case using Cons.IH utf8_decode_append by simp
qed

lemma utf8_decode_only: "utf8_decode s = Some ns \<Longrightarrow> utf8_encode ns = Some s"
proof (induction s arbitrary: ns rule: utf8_decode.induct)
  case (1 s)
  show ?case
  proof (cases "s = []")
    case True
    then show ?thesis using 1(2) by (simp add: utf8_decode.simps)
  next
    case False
    then obtain n r ms where n: "next_point s = Some (n, r)" "utf8_decode r = Some ms" "ns = n # ms"
      using 1(2) by (auto simp: utf8_decode.simps [of s] split: option.splits prod.splits)
    then have "utf8_encode ms = Some r" using 1(1) [OF False n(1)] by simp
    then show ?thesis using next_point_bytes [OF n(1)] n(3) by auto
  qed
qed

lemma utf8_inverse: "utf8_decode s = Some ns \<longleftrightarrow> utf8_encode ns = Some s"
  using utf8_round_trip utf8_decode_only by blast

section \<open>Big-endian integers\<close>

lemma length_be_bytes [simp, codec]: "length (be_bytes k n) = k"
  by (induction k arbitrary: n) simp_all

lemma be_value_snoc [simp]: "be_value (s @ [c]) = 256 * be_value s + of_char c"
  by (simp add: be_value_def)

lemma be_value_bytes [codec]: "be_value (be_bytes k n) = n mod 256 ^ k"
proof (induction k arbitrary: n)
  case 0
  then show ?case by (simp add: be_value_def)
next
  case (Suc k)
  have "be_value (be_bytes (Suc k) n) = 256 * (n div 256 mod 256 ^ k) + n mod 256" using Suc by (simp add: of_char_of)
  also have "\<dots> = n mod (256 * 256 ^ k)" by (simp add: mod_mult2_eq)
  finally show ?case by simp
qed

lemma be_value_less: "be_value s < 256 ^ length s"
proof (induction s rule: rev_induct)
  case Nil
  then show ?case by (simp add: be_value_def)
next
  case (snoc c s)
  define m :: nat where "m = 256 ^ length s"
  have "(of_char c :: nat) < 256" by (rule nat_of_char_less_256)
  moreover have "be_value s < m" using snoc by (simp add: m_def)
  ultimately have "256 * be_value s + of_char c < 256 * m" by linarith
  then show ?case by (simp add: m_def)
qed

lemma be_bytes_value [codec]: "be_bytes (length s) (be_value s) = s"
proof (induction s rule: rev_induct)
  case (snoc c s)
  have c: "(of_char c :: nat) < 256" by (rule nat_of_char_less_256)
  then have "(256 * be_value s + of_char c) div 256 = be_value s" "char_of ((256 * be_value s + of_char c) mod 256 :: nat) = c"
    by simp_all
  then show ?case using snoc by simp
qed simp

section \<open>The format\<close>

text \<open>The bytes of a payload, from its fields, and what the fields have to satisfy.\<close>

definition payload_bytes :: "string \<Rightarrow> string \<Rightarrow> int \<Rightarrow> string \<Rightarrow> string" where
  "payload_bytes sid h v u = MAGIC @ [char_of (length sid)] @ sid @ h @ be_bytes 8 (nat v) @ u"

definition payload_fields :: "string \<Rightarrow> string \<Rightarrow> int \<Rightarrow> string \<Rightarrow> bool" where
  "payload_fields sid h v u = (1 \<le> length sid \<and> length sid \<le> 64 \<and> length h = 32 \<and> 0 \<le> v \<and> v < 2 ^ 64 \<and> length u = 16)"

definition hash_digits :: "string \<Rightarrow> string" where
  "hash_digits hex = (if startswith ''0x'' hex \<or> startswith ''0X'' hex then drop 2 hex else hex)"

lemma payload_numbers:
  "length MAGIC = 5" "SHARD_ID_MAX_BYTES = 64" "LAST_HASH_BYTES = 32" "ENTRY_NONCE_BYTES = 8" "INTENT_ID_BYTES = 16"
  "MIN_PAYLOAD_BYTES = 63" "MAX_PAYLOAD_BYTES = 126" "ABSOLUTE_DATA_FIELD_CEILING = 255"
  by (simp_all add: payload_sizes)

lemma length_payload: "payload_fields sid h v u \<Longrightarrow> length (payload_bytes sid h v u) = 62 + length sid"
  by (simp add: payload_fields_def payload_bytes_def MAGIC_def)

lemma encode_exact:
  "encode_payload i = Inr data \<longleftrightarrow>
     (\<exists>sid h. utf8_encode (pi_shard_id i) = Some sid \<and> from_hex (hash_digits (pi_last_hash i)) = Some h \<and>
        payload_fields sid h (pi_entry_nonce i) (pi_intent_id i) \<and>
        data = payload_bytes sid h (pi_entry_nonce i) (pi_intent_id i))"
  unfolding encode_payload_def Let_def hash_digits_def [symmetric]
  by (auto simp: payload_fields_def payload_bytes_def payload_sizes pack_q_def Suc_le_eq split: option.splits if_splits)


lemma decode_exact:
  "decode_payload data = Inr p \<longleftrightarrow>
     (\<exists>sid. utf8_encode (dp_shard_id p) = Some sid \<and>
        payload_fields sid (dp_last_hash p) (dp_entry_nonce p) (dp_intent_id p) \<and>
        data = payload_bytes sid (dp_last_hash p) (dp_entry_nonce p) (dp_intent_id p))"
proof
  assume d: "decode_payload data = Inr p"
  let ?n = "of_char (data ! 5) :: nat"
  obtain ids where b: "take 5 data = MAGIC" "1 \<le> ?n" "?n \<le> 64" "length data = 62 + ?n"
    "utf8_decode (slice 6 ?n data) = Some ids"
    "p = \<lparr>dp_shard_id = ids, dp_last_hash = slice (6 + ?n) 32 data,
          dp_entry_nonce = int (be_value (slice (38 + ?n) 8 data)), dp_intent_id = slice (46 + ?n) 16 data\<rparr>"
    using d by (auto simp: decode_payload_def Let_def payload_numbers not_less Suc_le_eq split: option.splits if_splits)
  let ?sid = "slice 6 ?n data" and ?h = "slice (6 + ?n) 32 data" and ?q = "slice (38 + ?n) 8 data" and ?u = "slice (46 + ?n) 16 data"
  have len: "length ?sid = ?n" "length ?h = 32" "length ?q = 8" "length ?u = 16" using b(4) by (simp_all add: slice_def)
  have "data = take 5 data @ [data ! 5] @ ?sid @ ?h @ ?q @ ?u"
  proof -
    have "data = take 5 data @ drop 5 data" by simp
    also have "drop 5 data = data ! 5 # drop 6 data" using b(4) Cons_nth_drop_Suc [of 5 data] by simp
    also have "drop 6 data = ?sid @ drop (6 + ?n) data" by (metis append_take_drop_id drop_drop add.commute slice_def)
    also have "drop (6 + ?n) data = ?h @ drop (38 + ?n) data"
      using append_take_drop_id [of 32 "drop (6 + ?n) data"] by (simp add: slice_def ac_simps)
    also have "drop (38 + ?n) data = ?q @ drop (46 + ?n) data"
      using append_take_drop_id [of 8 "drop (38 + ?n) data"] by (simp add: slice_def ac_simps)
    also have "drop (46 + ?n) data = ?u" using b(4) by (simp add: slice_def)
    finally show ?thesis by simp
  qed
  moreover have "char_of (length ?sid) = data ! 5" unfolding len by simp
  moreover have "be_bytes 8 (be_value ?q) = ?q" using be_bytes_value [of ?q] len by simp
  moreover have "be_value ?q < 2 ^ 64" using be_value_less [of ?q] len by simp
  then have "int (be_value ?q) < 2 ^ 64" by (metis of_nat_less_iff of_nat_numeral of_nat_power)
  ultimately have "utf8_encode ids = Some ?sid" "payload_fields ?sid ?h (int (be_value ?q)) ?u"
    "data = payload_bytes ?sid ?h (int (be_value ?q)) ?u"
    using b len utf8_decode_only [OF b(5)] by (auto simp: payload_fields_def payload_bytes_def)
  then show "\<exists>sid. utf8_encode (dp_shard_id p) = Some sid \<and>
        payload_fields sid (dp_last_hash p) (dp_entry_nonce p) (dp_intent_id p) \<and>
        data = payload_bytes sid (dp_last_hash p) (dp_entry_nonce p) (dp_intent_id p)"
    unfolding b(6) by auto
next
  assume "\<exists>sid. utf8_encode (dp_shard_id p) = Some sid \<and>
        payload_fields sid (dp_last_hash p) (dp_entry_nonce p) (dp_intent_id p) \<and>
        data = payload_bytes sid (dp_last_hash p) (dp_entry_nonce p) (dp_intent_id p)"
  then obtain sid where sid: "utf8_encode (dp_shard_id p) = Some sid"
    and f: "payload_fields sid (dp_last_hash p) (dp_entry_nonce p) (dp_intent_id p)"
    and data: "data = payload_bytes sid (dp_last_hash p) (dp_entry_nonce p) (dp_intent_id p)" by blast
  let ?n = "length sid"
  have n: "1 \<le> ?n" "?n \<le> 64" "length (dp_last_hash p) = 32" "length (dp_intent_id p) = 16"
    "0 \<le> dp_entry_nonce p" "dp_entry_nonce p < 2 ^ 64"
    using f by (auto simp: payload_fields_def)
  have d: "data = MAGIC @ char_of ?n # sid @ dp_last_hash p @ be_bytes 8 (nat (dp_entry_nonce p)) @ dp_intent_id p"
    unfolding data payload_bytes_def by simp
  have hd: "take 5 data = MAGIC" "data ! 5 = char_of ?n" "of_char (data ! 5) = ?n"
    unfolding d using n by (simp_all add: byte_code payload_numbers nth_append)
  have dr: "drop 6 data = sid @ dp_last_hash p @ be_bytes 8 (nat (dp_entry_nonce p)) @ dp_intent_id p" unfolding d by (simp add: payload_numbers)
  have cut: "slice (6 + k) m data = take m (drop k (drop 6 data))" for k m by (simp add: slice_def ac_simps)
  have sl: "slice 6 ?n data = sid" "slice (6 + ?n) 32 data = dp_last_hash p"
    "slice (6 + (?n + 32)) 8 data = be_bytes 8 (nat (dp_entry_nonce p))" "slice (6 + (?n + 40)) 16 data = dp_intent_id p"
    using cut [of 0 ?n] cut [of ?n 32] cut [of "?n + 32" 8] cut [of "?n + 40" 16] n unfolding dr by simp_all
  have v: "int (be_value (be_bytes 8 (nat (dp_entry_nonce p)))) = dp_entry_nonce p"
    using n(5,6) by (simp add: be_value_bytes zmod_int)
  have u: "utf8_decode sid = Some (dp_shard_id p)" by (rule utf8_round_trip [OF sid])
  have l: "length data = 62 + ?n" unfolding data by (rule length_payload [OF f])
  show "decode_payload data = Inr p"
    using sl v u l hd n by (auto simp: decode_payload_def Let_def payload_numbers)
qed


section \<open>What the module promises\<close>

text \<open>The intent fields a decoded payload stands for: its hash in the form \<^verbatim>\<open>AnchorIntent.last_hash\<close> has.\<close>

definition intent_of :: "decoded_payload \<Rightarrow> payload_intent" where
  "intent_of p =
     \<lparr>pi_shard_id = dp_shard_id p, pi_last_hash = as_hex_last_hash p, pi_entry_nonce = dp_entry_nonce p,
      pi_intent_id = dp_intent_id p\<rparr>"

lemma hash_digits_hex [simp]: "hash_digits (as_hex_last_hash p) = to_hex (dp_last_hash p)"
  by (simp add: hash_digits_def as_hex_last_hash_def)

text \<open>
  C40: An intent has a payload exactly if its shard id has between 1 and 64 bytes of UTF-8, its
  last hash denotes 32 bytes, its nonce fits in 64 bits and its intent id has 16 bytes; the payload is
  then the fields one after the other. And a byte string decodes to some fields exactly when encoding
  those fields gives that byte string back: decoding accepts the payloads and nothing else (no second
  form of the same fields, no trailing bytes, no overlong UTF-8), and inverts the encoder on them.
\<close>

theorem payload_codec:
  "(encode_payload i = Inr data \<longleftrightarrow>
      (\<exists>sid h. utf8_encode (pi_shard_id i) = Some sid \<and> from_hex (hash_digits (pi_last_hash i)) = Some h \<and>
         payload_fields sid h (pi_entry_nonce i) (pi_intent_id i) \<and>
         data = payload_bytes sid h (pi_entry_nonce i) (pi_intent_id i))) \<and>
   (decode_payload data = Inr p \<longleftrightarrow> encode_payload (intent_of p) = Inr data)"
  by (rule conjI, rule encode_exact) (auto simp: decode_exact encode_exact intent_of_def)

text \<open>
  The bytes of an intent: their number is between the module's bounds, they look like a payload
  to the filter, and reading them gives back the shard id, the nonce, the intent id and the bytes the
  hash's digits denote.
\<close>

lemma payload_roundtrip:
  assumes "encode_payload i = Inr data"
  shows "MIN_PAYLOAD_BYTES \<le> length data" and "length data \<le> MAX_PAYLOAD_BYTES" and "is_dsm_anchor_payload data"
    and "\<exists>h. from_hex (hash_digits (pi_last_hash i)) = Some h \<and>
           decode_payload data =
             Inr \<lparr>dp_shard_id = pi_shard_id i, dp_last_hash = h, dp_entry_nonce = pi_entry_nonce i, dp_intent_id = pi_intent_id i\<rparr>"
proof -
  obtain sid h where e: "utf8_encode (pi_shard_id i) = Some sid" "from_hex (hash_digits (pi_last_hash i)) = Some h"
    "payload_fields sid h (pi_entry_nonce i) (pi_intent_id i)"
    "data = payload_bytes sid h (pi_entry_nonce i) (pi_intent_id i)"
    using assms by (auto simp: encode_exact)
  have l: "length data = 62 + length sid" unfolding e(4) by (rule length_payload [OF e(3)])
  have n: "1 \<le> length sid" "length sid \<le> 64" using e(3) by (simp_all add: payload_fields_def)
  show "MIN_PAYLOAD_BYTES \<le> length data" and "length data \<le> MAX_PAYLOAD_BYTES" using l n by (auto simp: payload_numbers)
  have "take 5 data = MAGIC" "data ! 5 = char_of (length sid)"
    unfolding e(4) payload_bytes_def by (simp_all add: payload_numbers nth_append)
  then show "is_dsm_anchor_payload data"
    using l n by (auto simp: is_dsm_anchor_payload_def payload_numbers Let_def byte_code)
  show "\<exists>h. from_hex (hash_digits (pi_last_hash i)) = Some h \<and>
           decode_payload data =
             Inr \<lparr>dp_shard_id = pi_shard_id i, dp_last_hash = h, dp_entry_nonce = pi_entry_nonce i, dp_intent_id = pi_intent_id i\<rparr>"
    by (rule exI [of _ h]) (use e in \<open>auto simp: decode_exact\<close>)
qed

text \<open>A shard id with a two-byte code point, and the largest nonce.\<close>

definition sample_intent :: payload_intent where
  "sample_intent =
     \<lparr>pi_shard_id = [115, 233], pi_last_hash = ''0x'' @ to_hex (replicate 32 (CHR ''h'')), pi_entry_nonce = 2 ^ 64 - 1,
      pi_intent_id = replicate 16 (CHR ''i'')\<rparr>"

definition sample_payload :: string where
  "sample_payload =
     payload_bytes [char_of (115 :: nat), char_of (195 :: nat), char_of (169 :: nat)] (replicate 32 (CHR ''h'')) (2 ^ 64 - 1) (replicate 16 (CHR ''i''))"

lemma sample_encodes: "encode_payload sample_intent = Inr sample_payload"
proof -
  have "utf8_encode [115, 233] = Some [char_of (115 :: nat), char_of (195 :: nat), char_of (169 :: nat)]"
    by (simp add: utf8_point_def)
  moreover have "hash_digits (''0x'' @ to_hex (replicate 32 (CHR ''h''))) = to_hex (replicate 32 (CHR ''h''))"
    by (simp add: hash_digits_def)
  moreover have "payload_fields [char_of (115 :: nat), char_of (195 :: nat), char_of (169 :: nat)] (replicate 32 (CHR ''h'')) (2 ^ 64 - 1) (replicate 16 (CHR ''i''))"
    by (simp add: payload_fields_def)
  ultimately show ?thesis
    unfolding encode_exact sample_intent_def sample_payload_def payload_intent.simps by (metis from_hex_to_hex)
qed

lemma payload_roundtrip_sample:
  "MIN_PAYLOAD_BYTES \<le> length sample_payload \<and> length sample_payload \<le> MAX_PAYLOAD_BYTES \<and>
   is_dsm_anchor_payload sample_payload \<and>
   (\<exists>h. from_hex (hash_digits (pi_last_hash sample_intent)) = Some h \<and>
      decode_payload sample_payload =
        Inr \<lparr>dp_shard_id = pi_shard_id sample_intent, dp_last_hash = h, dp_entry_nonce = pi_entry_nonce sample_intent,
              dp_intent_id = pi_intent_id sample_intent\<rparr>)"
  using payload_roundtrip [OF sample_encodes] by blast

section \<open>What it does not promise\<close>

text \<open>
  Changing the hash, the nonce or the intent id of a payload gives another payload, which decodes
  to the changed fields: the format carries no checksum.
\<close>

lemma tail_unprotected:
  assumes "decode_payload (payload_bytes sid h v u) = Inr p" and "payload_fields sid h v u" and "payload_fields sid h' v' u'"
  shows "decode_payload (payload_bytes sid h' v' u') =
           Inr \<lparr>dp_shard_id = dp_shard_id p, dp_last_hash = h', dp_entry_nonce = v', dp_intent_id = u'\<rparr>"
proof -
  obtain sid' where s: "utf8_encode (dp_shard_id p) = Some sid'"
    "payload_fields sid' (dp_last_hash p) (dp_entry_nonce p) (dp_intent_id p)"
    "payload_bytes sid h v u = payload_bytes sid' (dp_last_hash p) (dp_entry_nonce p) (dp_intent_id p)"
    using assms(1) by (auto simp: decode_exact)
  have "length sid = length sid'" using length_payload [OF assms(2)] length_payload [OF s(2)] s(3) by simp
  then have "sid = sid'" using s(3) by (simp add: payload_bytes_def)
  then show ?thesis using s(1) assms(3) by (auto simp: decode_exact)
qed

text \<open>A shard id of at most 64 code points may still have no payload: 33 of two bytes each are too many.\<close>

lemma utf8_two_bytes:
  "utf8_encode (replicate n 233) = Some (concat (replicate n [char_of (195 :: nat), char_of (169 :: nat)]))"
  by (induction n) (simp_all add: utf8_point_def)

lemma short_shard_not_encodable:
  "length (replicate 33 (233 :: nat)) \<le> 64 \<and>
   encode_payload (sample_intent\<lparr>pi_shard_id := replicate 33 233\<rparr>) = Inl PayloadError"
  using utf8_two_bytes [of 33]
  by (simp add: encode_payload_def payload_numbers length_concat sum_list_replicate sample_intent_def)

text \<open>A lone surrogate is rejected by the codec's \<^verbatim>\<open>encode\<close>, not with the module's own error.\<close>

lemma surrogate_shard:
  "encode_payload (sample_intent\<lparr>pi_shard_id := [55296]\<rparr>) = Inl (PyErr (ValueError ''UnicodeEncodeError''))"
  by (simp add: encode_payload_def utf8_point_def sample_intent_def)

end
