(* ===== verification/Spec2Isabelle.thy ===== *)
theory Spec2Isabelle
  imports Verify_Props Storage_Props Lifecycle_Props Seal_Props Anchor_Props Regime_Props Watcher_Props
    Witness_Props Orchestrator_Props Identity_Props Collective_Props Digest_Props Session_Props
    Lanes_Props Exchange_Props Attest_Props Artifacts_Props Reports_Props Trace_Props Blocks_Props Evolution_Props Payload_Props
begin

text \<open>
  A model of DSM (Daryl Sharding Memory), an append-only, hash-chained log for agents, and of the
  subsystems that rest on it.  Every definition is translated from the Python sources named below;
  paths are relative to the repository, \<open>dsm/\<close> abbreviates \<open>src/dsm/\<close>.

  The program.  The kernel (\<open>dsm/core\<close>) keeps one append-only log per shard: JSON lines in numbered
  segment files, each entry linked to its predecessor by a SHA-256 hash over a canonical JSON form,
  and a pin file with the last hash and the count.  The verifier recomputes the chain and compares it
  with the pin.  Sealing, the shard lifecycle and the witness log work on whole shards; the identity
  registry, the sovereignty policies and the neutral orchestrator are event-sourced services that
  keep their state in shards of their own; the collective memory gathers projections of the entries
  the orchestrator admits and rolls them up into digests of windows of time, and lanes keep one such
  shard per agent; agents exchange receipts, dispatch hashes and attestations that bind what was
  recorded; artifacts are stored under the digest of their bytes; audits and coverage checks read
  whole shards; traces of actions are a hash-chained file of their own with a replay that judges it;
  the block layer packs entries before it stores them; the identity of an agent is the replay of its
  events; the MultiversX part anchors hashes on a chain through a payload of at most 126 bytes, a
  state machine, a watcher and a regime detector.

  Libraries of the model.
  \<^item> Prelude: result type \<open>error + 'a\<close> with the exceptions as \<open>error\<close>, folds over fallible
    steps, string lemmas, the collections of hints.
  \<^item> Json: JSON values, \<open>json.dumps\<close> (compact, spaced, sorted), \<open>json.loads\<close>, Python's \<open>get\<close>, truth
    values and iteration; the printer and the parser are inverse on well-formed values.
  \<^item> Datetime: ISO timestamps, their parsing and differences.  Pyfloat: IEEE doubles as integer
    multiples of the least positive double, with correct rounding of sums, products and quotients.
    Calendar: comparisons, addition of time deltas with their overflow, rounding to hours, days, weeks
    and months.  Pylib: slices, \<open>join\<close>, \<open>sorted\<close>, filters that may raise, and \<open>repr\<close> of a float;
    Float\_Repr proves that what is printed for a double reads back to it.
  \<^item> Hashing: \<open>canonical.py\<close> and \<open>hashing.py\<close> of dsm\_primitives.  Jsonl: append-only JSON-lines files
    (registry of seals, witness log).  Bytes: UTF-8 of a text, hex digits, the key prefix and the
    Ed25519 signatures that the records between agents carry.
  \<^item> Hash\_Chain and Simulation: the two locales that state the interfaces: linked sequences whose
    tip binds the history, and forward simulations of an abstract machine.  Events: the interface of
    the event-sourced services, an index folded from a shard, with its locale \<open>event_index\<close>.

  Components and sources.
  \<^item> Segments: \<open>dsm/core/shard_segments.py\<close>, all of ShardSegmentManager; the directory is a map from
    file names to texts.
  \<^item> Storage: \<open>dsm/core/storage.py\<close> and \<open>models.py\<close>; append is split in \<open>append_write\<close> (the line) and
    the commit of the pin, so that the crash between them is a state.
  \<^item> Verify: \<open>dsm/verify.py\<close>.  Seal: \<open>dsm/seal.py\<close>.  Witness: \<open>dsm/witness.py\<close>.
  \<^item> Lifecycle: \<open>dsm/lifecycle.py\<close>, \<open>dsm/shard_families.py\<close>.
  \<^item> Identity: \<open>dsm/identity/identity_registry.py\<close>; Sovereignty: \<open>dsm/sovereignty.py\<close>; Orchestrator:
    \<open>dsm/orchestrator.py\<close>.
  \<^item> Collective and Digests: \<open>dsm/collective.py\<close>; the record \<open>collective\<close> extends the orchestrator's,
    since the sync engine works on the same storage; \<open>window_loop\<close> is the unbounded while loop of
    \<open>pending_windows\<close>, recursive on the time that is left.
  \<^item> Lanes: \<open>dsm/lanes.py\<close>, over Collective; a group of lanes is the collective memory with a set of
    registered agents, each lane a shard of its own.
  \<^item> Exchange: \<open>dsm/exchange.py\<close> and \<open>dsm/receipts.py\<close>; Attest: \<open>dsm/attestation.py\<close>, \<open>dsm/causal.py\<close>
    and the input receipts; Artifacts: \<open>dsm/artifacts.py\<close>, the directory a map from paths to bytes.
  \<^item> Reports: \<open>dsm/audit.py\<close> and \<open>dsm/coverage.py\<close>.
  \<^item> Trace: \<open>dsm/core/tracing.py\<close> (the writer and its hash) and \<open>dsm/core/replay.py\<close> (the parser, the
    other hash, the chain and the report of a session).
  \<^item> Blocks: \<open>dsm/block_layer/manager.py\<close>, over Storage; the buffers are an association list in the order
    in which their shards first appeared.
  \<^item> Evolution: \<open>identity_manager.py\<close>, \<open>identity_replay.py\<close> and \<open>identity_guard.py\<close> of \<open>dsm/identity\<close>.
  \<^item> Session\_Limits and Session\_Graph: \<open>dsm/session/session_limits_manager.py\<close> and
    \<open>session_graph.py\<close>; the limits file is kept as its document, with times as JSON floats.
  \<^item> Anchor: \<open>dsm/multiversx/state_machine.py\<close>, \<open>schemas.py\<close>; Regime: \<open>regime.py\<close>; Watcher:
    \<open>watcher.py\<close> (DualSchemaReader and MinimalPollingWatcher); Payload: \<open>payload.py\<close>, with texts as lists
    of code points, since the bytes on the chain need not be UTF-8.
  Theories \<open>X_Laws\<close> hold the lemmas of a component (invariant, effect of every operation,
  interpretations), \<open>X_Props\<close> its properties with their witnesses, Samples the concrete inputs.

  What the lemmas show.  Kernel: appends keep the invariant of a shard and extend its log by one
  linked entry; what was appended verifies; any change of a covered field, and any truncation, is
  seen against the pin; reads return pages of the newest-first log; a crash loses nothing.
  Lifecycle, registry, policies: refinements of small abstract machines over all runs, restarts
  included.  Seal and witness: what they certify and what they bind.  Orchestrator: exactly when
  an entry is admitted.  Collective memory: what a push writes and how its projections link, what a
  pull with a cursor returns, what a budget of tokens buys, that the walk through the windows of
  time returns, forgets no entry and leaves nothing pending once rolled.  Sessions: the log is a
  sequence of sessions, what the limits answer and which intents are orphans.  Lanes: a push never
  reaches the lane of another agent, and the merge of the lanes is the newest of all their entries.
  Exchange and attestations: which fields two intact records with one digest share, that an issued
  receipt stays confirmed as the shard grows, which side of an exchange an attestation blames, and
  which fields are not bound.  Artifacts: digests give back exactly what was stored.  Reports: audits
  list exactly the violations, coverage exactly the missing entries.  Traces: the exact verdict of the
  replay on what one writer wrote, and that the last hash of an accepted file binds its records.
  Blocks: what went in comes out, page by page.  Identity events: the replay is the fold of the
  agent's own events.  Payload: decoding is the inverse of encoding, on exactly the payloads.  Anchor
  and watcher: logs replay to the machine's state, watched events are accepted by it.  Where the code does less than its documentation says, a property states
  what it does and the finding names it.

  Parameters.  SHA-256 (\<open>sha\<close>; collision-freedom is assumed only for the messages at hand), clocks,
  uuid4, the distiller of the lifecycle, the HTTP gateway of the watcher, the functions for summaries and details of a push, the signing keys and PyNaCl's Ed25519 check (\<open>ed\<close>), gzip
  (\<open>gz\<close>, only its length is used), \<open>str()\<close> of a JSON value and
  \<open>float()\<close> of an unusual string are arguments of the definitions that use them.

  Bounds.  The JSON parser runs on fuel twice the length of the text plus one, and never needs
  more since every step consumes a character.  The limits of the code are kept: services read at most
  \<open>READ_ALL\<close> (1000000) entries, the witness, audits, coverage checks and the replay of an identity 100000, the check
  for a genesis 10000 (the property on coverage
  goes up to 19999 entries, where the percentage cannot round to 100), segments rotate at the code's sizes, the watcher
  polls at most \<open>max_polls\<close> times.

  Not modelled.  Locks, fsync and threads (operations run one at a time); the order of keys only where
  the code sorts them; characters beyond one byte, outside Payload; equality of values of different numeric types
  (\<open>1 == 1.0 == True\<close>); the sign of zero; log messages and the wording of errors; rules of the
  orchestrator other than the four of the source.  Field constraints of pydantic
  models are the predicate \<open>entry_valid\<close>; the clock reads of one operation are taken at one time.
  ChainWatcher and WebSocketSubscriber raise NotImplementedError in the source.  The other
  components (the anchoring of commitments, the first form of sessions in the core, the agent
  facade and the command line, the listing and statistics of artifacts, the research packages and
  services beside the kernel) are listed in the manifest with the reason.
\<close>

end
